(* ===== verification/Prelude.thy ===== *)
theory Prelude
  imports Main "HOL-Library.AList" "HOL-Library.Multiset" "HOL-Library.List_Lexorder"
    "HOL-Library.Char_ord" "HOL-Library.Word"
begin

text \<open>
  Shared vocabulary of the development.

  A Go map is an association list with distinct keys (\<open>gomap\<close>): the operations are those of
  \<open>HOL-Library.AList\<close>, and a \<open>range\<close> over a map visits the pairs in list order.  Go leaves
  that order open; a theorem that holds for every association list with the right contents
  holds for every order Go may choose.  A Go \<open>map[K]struct{}\<close> is a list without duplicates.

  A Go comparator returns a negative, zero or positive \<open>int\<close>.  The locale \<open>compare_preorder\<close>
  states what a comparator has to satisfy for a heap or a sort that uses it, and the
  constructions below build comparators from linear orders and from lexicographic products.
\<close>

named_theorems gomap_simps \<open>lookup, key set and distinctness of map updates\<close>

type_synonym ('k, 'v) gomap = "('k \<times> 'v) list"

abbreviation gm_get :: "('k, 'v) gomap \<Rightarrow> 'k \<Rightarrow> 'v option" where
  "gm_get m k \<equiv> map_of m k"

abbreviation gm_put :: "'k \<Rightarrow> 'v \<Rightarrow> ('k, 'v) gomap \<Rightarrow> ('k, 'v) gomap" where
  "gm_put k v m \<equiv> AList.update k v m"

abbreviation gm_del :: "'k \<Rightarrow> ('k, 'v) gomap \<Rightarrow> ('k, 'v) gomap" where
  "gm_del k m \<equiv> AList.delete k m"

abbreviation gm_keys :: "('k, 'v) gomap \<Rightarrow> 'k list" where
  "gm_keys m \<equiv> List.map fst m"

abbreviation gm_wf :: "('k, 'v) gomap \<Rightarrow> bool" where
  "gm_wf m \<equiv> distinct (gm_keys m)"

declare map_of_eq_Some_iff [simp del] Some_eq_map_of_iff [simp del]

lemma gm_get_put [simp, gomap_simps]:
  "gm_get (gm_put k v m) l = (if l = k then Some v else gm_get m l)"
  by (simp add: update_conv')

lemma gm_get_del [simp, gomap_simps]:
  "gm_get (gm_del k m) l = (if l = k then None else gm_get m l)"
  by (simp add: delete_conv')

lemma gm_wf_put [simp, intro, gomap_simps]: "gm_wf m \<Longrightarrow> gm_wf (gm_put k v m)"
  by (rule distinct_update)

lemma gm_wf_del [simp, intro, gomap_simps]: "gm_wf m \<Longrightarrow> gm_wf (gm_del k m)"
  by (rule distinct_delete)

lemma gm_keys_dom: "fst ` set m = {k. gm_get m k \<noteq> None}"
  using dom_map_of_conv_image_fst [of m] by (simp add: dom_def)

lemma gm_keys_put [simp, gomap_simps]: "fst ` set (gm_put k v m) = insert k (fst ` set m)"
  by (auto simp: gm_keys_dom)

lemma gm_keys_del [simp, gomap_simps]: "fst ` set (gm_del k m) = fst ` set m - {k}"
  by (auto simp: gm_keys_dom)

lemma gm_key_get: "k \<in> fst ` set m \<Longrightarrow> \<exists>v. gm_get m k = Some v"
  by (simp add: gm_keys_dom)

lemma gm_get_key: "gm_get m k = Some v \<Longrightarrow> k \<in> fst ` set m"
  by (simp add: gm_keys_dom)

lemma gm_get_none: "gm_get m k = None \<longleftrightarrow> k \<notin> fst ` set m"
  by (simp add: gm_keys_dom)

text \<open>Reading a map in Go: the zero value stands for a missing entry.\<close>

definition value_or :: "'v \<Rightarrow> ('k, 'v) gomap \<Rightarrow> 'k \<Rightarrow> 'v" where
  "value_or d m k = (case gm_get m k of None \<Rightarrow> d | Some v \<Rightarrow> v)"

lemma value_or_put [simp]: "value_or d (gm_put k v m) l = (if l = k then v else value_or d m l)"
  by (simp add: value_or_def)

lemma value_or_Nil [simp]: "value_or d [] k = d"
  by (simp add: value_or_def)

lemma value_or_del [simp]: "value_or d (gm_del k m) l = (if l = k then d else value_or d m l)"
  by (simp add: value_or_def)

subsection \<open>Sets as lists without duplicates\<close>

definition gs_insert :: "'a \<Rightarrow> 'a list \<Rightarrow> 'a list" where
  "gs_insert x xs = (if x \<in> set xs then xs else xs @ [x])"

definition gs_delete :: "'a \<Rightarrow> 'a list \<Rightarrow> 'a list" where
  "gs_delete x xs = filter (\<lambda>y. y \<noteq> x) xs"

fun gs_of :: "'a list \<Rightarrow> 'a list" where
  "gs_of [] = []"
| "gs_of (x # xs) = (let s = gs_of xs in if x \<in> set s then s else x # s)"

lemma set_gs_insert [simp]: "set (gs_insert x xs) = insert x (set xs)"
  by (auto simp: gs_insert_def)

lemma distinct_gs_insert [simp, intro]: "distinct xs \<Longrightarrow> distinct (gs_insert x xs)"
  by (simp add: gs_insert_def)

lemma set_gs_delete [simp]: "set (gs_delete x xs) = set xs - {x}"
  by (auto simp: gs_delete_def)

lemma distinct_gs_delete [simp, intro]: "distinct xs \<Longrightarrow> distinct (gs_delete x xs)"
  by (simp add: gs_delete_def)

lemma gs_delete_same: "x \<notin> set xs \<Longrightarrow> gs_delete x xs = xs"
  by (auto simp: gs_delete_def filter_id_conv)

lemma set_gs_of [simp]: "set (gs_of xs) = set xs"
  by (induction xs) (auto simp: Let_def)

lemma distinct_gs_of [simp, intro]: "distinct (gs_of xs)"
  by (induction xs) (auto simp: Let_def)

lemma gs_delete_eq_Nil: "distinct xs \<Longrightarrow> gs_delete x xs = [] \<longleftrightarrow> set xs \<subseteq> {x}"
  by (auto simp: gs_delete_def filter_empty_conv)

subsection \<open>Decimal numbers\<close>

text \<open>\<open>strconv.Itoa\<close> on a number that is not negative.\<close>

definition digit :: "nat \<Rightarrow> char" where
  "digit d = char_of (48 + d)"

fun itoa :: "nat \<Rightarrow> string" where
  "itoa n = (if n < 10 then [digit n] else itoa (n div 10) @ [digit (n mod 10)])"

declare itoa.simps [simp del]

definition digit_value :: "char \<Rightarrow> nat" where
  "digit_value c = of_char c - 48"

definition is_digit :: "char \<Rightarrow> bool" where
  "is_digit c \<longleftrightarrow> 48 \<le> (of_char c :: nat) \<and> (of_char c :: nat) \<le> 57"

definition atoi :: "string \<Rightarrow> nat" where
  "atoi s = foldl (\<lambda>n c. 10 * n + digit_value c) 0 s"

lemma of_char_digit: "d < 10 \<Longrightarrow> of_char (digit d) = 48 + d"
  by (simp add: digit_def)

lemma digit_value_digit: "d < 10 \<Longrightarrow> digit_value (digit d) = d"
  by (simp add: digit_value_def of_char_digit)

lemma is_digit_digit: "d < 10 \<Longrightarrow> is_digit (digit d)"
  by (simp add: is_digit_def of_char_digit)

lemma itoa_digits: "list_all is_digit (itoa n)"
proof (induction n rule: itoa.induct)
  case (1 n)
  then show ?case by (subst itoa.simps) (auto simp: is_digit_digit)
qed

lemma itoa_nonempty [simp]: "itoa n \<noteq> []"
  by (subst itoa.simps) simp

lemma atoi_itoa [simp]: "atoi (itoa n) = n"
proof (induction n rule: itoa.induct)
  case (1 n)
  then show ?case by (subst itoa.simps) (auto simp: atoi_def digit_value_digit)
qed

lemma itoa_inject [simp]: "itoa m = itoa n \<longleftrightarrow> m = n"
  by (metis atoi_itoa)

subsection \<open>Comparators\<close>

locale compare_preorder =
  fixes cmp :: "'a \<Rightarrow> 'a \<Rightarrow> int"
  assumes cmp_refl: "cmp x x = 0"
    and cmp_flip: "cmp x y < 0 \<longleftrightarrow> 0 < cmp y x"
    and cmp_trans: "cmp x y \<le> 0 \<Longrightarrow> cmp y z \<le> 0 \<Longrightarrow> cmp x z \<le> 0"
begin

lemma cmp_total: "cmp x y \<le> 0 \<or> cmp y x \<le> 0"
  using cmp_flip [of x y] by linarith

lemma cmp_not_le: "\<not> cmp x y \<le> 0 \<longleftrightarrow> cmp y x < 0"
  using cmp_flip [of y x] by linarith

lemma cmp_less_le: "cmp x y < 0 \<Longrightarrow> cmp x y \<le> 0"
  by simp

lemma cmp_zero_flip: "cmp x y = 0 \<longleftrightarrow> cmp y x = 0"
  using cmp_flip [of x y] cmp_flip [of y x] by linarith

lemma cmp_less_trans: "cmp x y < 0 \<Longrightarrow> cmp y z \<le> 0 \<Longrightarrow> cmp x z < 0"
  using cmp_trans [of y z x] cmp_flip [of x z] cmp_flip [of x y]
  by (meson cmp_not_le not_less)

end

text \<open>A comparator that tells distinct values apart: its order is then linear.\<close>

locale compare_linear = compare_preorder +
  assumes cmp_eq: "cmp x y = 0 \<Longrightarrow> x = y"
begin

lemma cmp_antisym: "cmp x y \<le> 0 \<Longrightarrow> cmp y x \<le> 0 \<Longrightarrow> x = y"
  using cmp_flip [of x y] cmp_flip [of y x] by (intro cmp_eq) linarith

lemma cmp_zero_iff: "cmp x y = 0 \<longleftrightarrow> x = y"
  using cmp_eq cmp_refl by blast

text \<open>Two sorted enumerations of the same set agree: the sorted order is determined.\<close>

lemma sorted_enum_unique:
  assumes "sorted_wrt (\<lambda>x y. cmp x y \<le> 0) xs" "sorted_wrt (\<lambda>x y. cmp x y \<le> 0) ys"
    "distinct xs" "distinct ys" "set xs = set ys"
  shows "xs = ys"
  using assms
proof (induction xs arbitrary: ys)
  case Nil
  then show ?case by simp
next
  case (Cons x xs)
  then obtain y ys' where ys: "ys = y # ys'" by (cases ys) auto
  have "x = y"
  proof (rule ccontr)
    assume "x \<noteq> y"
    then have "x \<in> set ys'" and "y \<in> set xs" using Cons.prems ys by auto
    then have "cmp y x \<le> 0" and "cmp x y \<le> 0" using Cons.prems ys by auto
    then show False using cmp_antisym \<open>x \<noteq> y\<close> by blast
  qed
  moreover have "xs = ys'"
    using Cons.prems ys \<open>x = y\<close> by (intro Cons.IH) auto
  ultimately show ?case using ys by simp
qed

end

definition ord_cmp :: "'a::linorder \<Rightarrow> 'a \<Rightarrow> int" where
  "ord_cmp x y = (if x < y then -1 else if y < x then 1 else 0)"

lemma ord_cmp_le [simp]: "ord_cmp x y \<le> 0 \<longleftrightarrow> x \<le> y"
  by (auto simp: ord_cmp_def)

lemma ord_cmp_less [simp]: "ord_cmp x y < 0 \<longleftrightarrow> x < y"
  by (auto simp: ord_cmp_def)

lemma ord_cmp_greater [simp]: "0 < ord_cmp x y \<longleftrightarrow> y < x"
  by (auto simp: ord_cmp_def)

lemma ord_cmp_zero [simp]: "ord_cmp x y = 0 \<longleftrightarrow> x = y"
  by (auto simp: ord_cmp_def)

interpretation ord_cmp: compare_linear "ord_cmp :: 'a::linorder \<Rightarrow> 'a \<Rightarrow> int"
  by unfold_locales (auto simp: ord_cmp_def split: if_splits)

text \<open>Comparators through a key, and the lexicographic combination of two comparators.\<close>

definition cmp_then :: "int \<Rightarrow> int \<Rightarrow> int" where
  "cmp_then a b = (if a \<noteq> 0 then a else b)"

lemma compare_preorder_key: "compare_preorder cmp \<Longrightarrow> compare_preorder (\<lambda>x y. cmp (f x) (f y))"
  unfolding compare_preorder_def by blast

lemma compare_preorder_lex:
  assumes c: "compare_preorder c" and d: "compare_preorder d"
  shows "compare_preorder (\<lambda>x y. cmp_then (c x y) (d x y))"
proof
  note cz = compare_preorder.cmp_zero_flip [OF c] and ct = compare_preorder.cmp_less_trans [OF c]
    and cf = compare_preorder.cmp_flip [OF c] and cr = compare_preorder.cmp_trans [OF c]
  fix x y z
  show "cmp_then (c x x) (d x x) = 0"
    by (simp add: cmp_then_def compare_preorder.cmp_refl [OF c] compare_preorder.cmp_refl [OF d])
  show "cmp_then (c x y) (d x y) < 0 \<longleftrightarrow> 0 < cmp_then (c y x) (d y x)"
    using cf [of x y] cz [of x y] compare_preorder.cmp_flip [OF d, of x y]
    by (auto simp: cmp_then_def)
  assume xy: "cmp_then (c x y) (d x y) \<le> 0" and yz: "cmp_then (c y z) (d y z) \<le> 0"
  have le: "c x y \<le> 0" "c y z \<le> 0"
    using xy yz by (auto simp: cmp_then_def split: if_splits)
  have "c x z < 0 \<or> c x y = 0 \<and> c y z = 0 \<and> c x z = 0"
  proof (cases "c x y < 0 \<or> c y z < 0")
    case True
    then show ?thesis
    proof
      assume "c x y < 0"
      then show ?thesis using ct le by blast
    next
      assume "c y z < 0"
      have "\<not> c z x \<le> 0"
        using cr [of z x y] le \<open>c y z < 0\<close> cf [of y z] by linarith
      then show ?thesis using cf [of x z] by linarith
    qed
  next
    case False
    with le have eq: "c x y = 0" "c y z = 0" by linarith+
    then have "c x z \<le> 0" "c z x \<le> 0"
      using cr [of x y z] cr [of z y x] cz [of x y] cz [of y z] by auto
    with eq cf [of x z] cf [of z x] show ?thesis by linarith
  qed
  then show "cmp_then (c x z) (d x z) \<le> 0"
    using xy yz compare_preorder.cmp_trans [OF d, of x y z] by (auto simp: cmp_then_def)
qed

lemma compare_preorder_ord_key: "compare_preorder (\<lambda>x y. ord_cmp (f x) (f y))"
  by (rule compare_preorder_key) (rule ord_cmp.compare_preorder_axioms)

subsection \<open>Sorting with a comparator\<close>

text \<open>
  \<open>sort.Slice\<close> and \<open>slices.SortFunc\<close> return some permutation that the comparator accepts as
  sorted; the order of elements that compare equal is left open.  The model sorts by insertion,
  and every use relies on the two lemmas below only.
\<close>

fun insert_by :: "('a \<Rightarrow> 'a \<Rightarrow> int) \<Rightarrow> 'a \<Rightarrow> 'a list \<Rightarrow> 'a list" where
  "insert_by cmp x [] = [x]"
| "insert_by cmp x (y # ys) = (if cmp x y \<le> 0 then x # y # ys else y # insert_by cmp x ys)"

fun sort_by :: "('a \<Rightarrow> 'a \<Rightarrow> int) \<Rightarrow> 'a list \<Rightarrow> 'a list" where
  "sort_by cmp [] = []"
| "sort_by cmp (x # xs) = insert_by cmp x (sort_by cmp xs)"

lemma mset_insert_by [simp]: "mset (insert_by cmp x xs) = add_mset x (mset xs)"
  by (induction xs) auto

lemma mset_sort_by [simp]: "mset (sort_by cmp xs) = mset xs"
  by (induction xs) auto

lemma set_insert_by [simp]: "set (insert_by cmp x xs) = insert x (set xs)"
  by (metis mset_insert_by set_mset_add_mset_insert set_mset_mset)

lemma set_sort_by [simp]: "set (sort_by cmp xs) = set xs"
  by (metis mset_sort_by set_mset_mset)

lemma distinct_sort_by [simp]: "distinct (sort_by cmp xs) = distinct xs"
  by (metis mset_sort_by mset_eq_imp_distinct_iff)

lemma length_sort_by [simp]: "length (sort_by cmp xs) = length xs"
  by (metis mset_sort_by size_mset)

context compare_preorder
begin

lemma sorted_insert_by:
  "sorted_wrt (\<lambda>x y. cmp x y \<le> 0) xs \<Longrightarrow> sorted_wrt (\<lambda>x y. cmp x y \<le> 0) (insert_by cmp x xs)"
proof (induction xs)
  case Nil
  then show ?case by simp
next
  case (Cons y ys)
  then show ?case
    using cmp_trans [of x y] cmp_total [of x y] by auto
qed

lemma sorted_sort_by: "sorted_wrt (\<lambda>x y. cmp x y \<le> 0) (sort_by cmp xs)"
  by (induction xs) (auto intro: sorted_insert_by)

end

subsection \<open>Bytes\<close>

type_synonym bytes = "8 word list"

text \<open>Reading the base-256 digits of a number, most significant first.\<close>

lemma read_base256:
  "foldl (\<lambda>m b. 256 * m + unat b) 0 (map (\<lambda>i. word_of_nat (n div 256 ^ (k - i)) :: 8 word) [0..<Suc k]) =
     n mod 256 ^ Suc k"
proof (induction k arbitrary: n)
  case 0
  then show ?case by (simp add: unat_of_nat)
next
  case (Suc k)
  have "map (\<lambda>i. word_of_nat (n div 256 ^ (Suc k - i)) :: 8 word) [0..<Suc (Suc k)] =
      map (\<lambda>i. word_of_nat (n div 256 div 256 ^ (k - i))) [0..<Suc k] @ [word_of_nat n]"
    by (subst upt_Suc_append) (auto simp: div_mult2_eq [symmetric] Suc_diff_le simp del: upt_Suc)
  moreover have "n mod 256 ^ Suc (Suc k) = 256 * (n div 256 mod 256 ^ Suc k) + n mod 256"
    using mod_mult2_eq [of n 256 "256 ^ Suc k"] by simp
  ultimately show ?case
    by (simp only: foldl_append Suc.IH) (simp add: unat_of_nat)
qed

subsection \<open>Self-delimiting encodings\<close>

text \<open>
  An encoding is self-delimiting on a set of values when a reader that knows one follows can
  tell where it stops.  Sequences of such encodings are then self-delimiting up to their end.
\<close>

locale prefix_code =
  fixes enc :: "'a \<Rightarrow> 'b list"
    and ok :: "'a \<Rightarrow> bool"
  assumes enc_delimits: "ok x \<Longrightarrow> ok y \<Longrightarrow> enc x @ r = enc y @ s \<Longrightarrow> x = y \<and> r = s"
    and enc_nonempty: "ok x \<Longrightarrow> enc x \<noteq> []"
begin

lemma enc_inject: "ok x \<Longrightarrow> ok y \<Longrightarrow> enc x = enc y \<longleftrightarrow> x = y"
  using enc_delimits [of x y "[]" "[]"] by (cases "enc x = enc y") auto

lemma enc_list_inject:
  "list_all ok xs \<Longrightarrow> list_all ok ys \<Longrightarrow> concat (map enc xs) = concat (map enc ys) \<longleftrightarrow> xs = ys"
proof (induction xs arbitrary: ys)
  case Nil
  then show ?case by (cases ys) (auto simp: enc_nonempty)
next
  case (Cons x xs)
  show ?case
  proof (cases ys)
    case Nil
    then show ?thesis using Cons.prems by (auto simp: enc_nonempty)
  next
    case (Cons y ys')
    have ok: "ok x" "ok y" "list_all ok xs" "list_all ok ys'" using Cons Cons.prems by auto
    show ?thesis
      using enc_delimits [OF ok(1,2), of "concat (map enc xs)" "concat (map enc ys')"] Cons.IH [OF ok(3,4)]
      by (cases "x = y") (auto simp: Cons)
  qed
qed

lemma enc_list_delimits:
  "list_all ok xs \<Longrightarrow> list_all ok ys \<Longrightarrow> length xs = length ys \<Longrightarrow>
     concat (map enc xs) @ r = concat (map enc ys) @ s \<Longrightarrow> xs = ys \<and> r = s"
proof (induction xs arbitrary: ys)
  case Nil
  then show ?case by simp
next
  case (Cons x xs)
  then obtain y ys' where ys: "ys = y # ys'" by (cases ys) auto
  have "x = y \<and> concat (map enc xs) @ r = concat (map enc ys') @ s"
    using Cons.prems ys by (intro enc_delimits) auto
  then show ?case using Cons.IH [of ys'] Cons.prems ys by simp
qed

end

end
