(* ===== verification/Owners.thy ===== *)
theory Owners
  imports Prelude
begin

text \<open>
  Target artifact owners (\<open>internal/emit/api/artifact_name_contract.go\<close>) and the
  facets and dependencies that name what one artifact observes of another
  (\<open>internal/emit/api/generic_artifact_dependency.go\<close>).

  Go compares packages, objects, initializers and generated artifacts by pointer.  A pointer
  is modelled by a reference number inside the record it points to, so that equality of
  records is pointer equality for records taken from one heap.  A \<open>types.Type\<close> is a
  reference (\<open>type_ref\<close>): this part of the program only prints it.
\<close>

type_synonym type_ref = nat

record go_package =
  package_ref :: nat
  package_path :: string

datatype scope = UniverseScope | PackageScope nat | LocalScope nat

text \<open>The dynamic kind of a \<open>types.Object\<close>; a function carries its receiver's type, if any.\<close>

datatype object_kind =
    PkgNameObject | ConstObject | TypeNameObject | VarObject
  | FuncObject "type_ref option" | LabelObject | BuiltinObject | NilObject | OtherObject

record go_object =
  object_ref :: nat
  object_package :: "go_package option"
  object_parent :: "scope option"
  object_kind :: object_kind
  object_name :: string
  object_type :: "type_ref option"
  object_pos :: int

text \<open>\<open>types.Initializer\<close>: the targets (a slice element may be nil) and the position of the
  right-hand side, absent when \<open>Rhs\<close> is nil.\<close>

record initializer =
  initializer_ref :: nat
  initializer_lhs :: "go_object option list"
  initializer_rhs :: "int option"

text \<open>
  \<open>api.GeneratedArtifact\<close> is checked by its own \<open>Valid\<close>, which inspects the Go type the
  artifact is made for; the artifact is immutable, and \<open>generated_valid\<close> records that verdict.
\<close>

record generated_artifact =
  generated_ref :: nat
  generated_kind :: nat
  generated_key :: string
  generated_target_name :: string
  generated_package :: "go_package option"
  generated_valid :: bool

record artifact_owner =
  owner_source :: "go_object option"
  owner_initializer_package :: "go_package option"
  owner_initializer :: "initializer option"
  owner_assembly_package :: "go_package option"
  owner_generated :: "generated_artifact option"

definition no_owner :: artifact_owner where
  "no_owner = \<lparr>owner_source = None, owner_initializer_package = None, owner_initializer = None,
     owner_assembly_package = None, owner_generated = None\<rparr>"

definition packageScope :: "go_package \<Rightarrow> scope" where
  "packageScope p = PackageScope (package_ref p)"

definition validPackageInitializerTarget :: "go_package option \<Rightarrow> go_object option \<Rightarrow> bool" where
  "validPackageInitializerTarget sourcePackage variable =
     (case (sourcePackage, variable) of
        (Some p, Some v) \<Rightarrow>
          if object_package v \<noteq> Some p then False
          else if object_name v = ''_'' then object_parent v = None
          else object_parent v = Some (packageScope p)
      | _ \<Rightarrow> False)"

text \<open>\<open>ArtifactOwner.Valid\<close>: exactly one variant is present, and that variant is well formed.\<close>

definition validInitializerVariant :: "artifact_owner \<Rightarrow> bool" where
  "validInitializerVariant o' =
     (case (owner_initializer_package o', owner_initializer o') of
        (Some p, Some i) \<Rightarrow>
          initializer_rhs i \<noteq> None \<and> initializer_lhs i \<noteq> [] \<and>
          list_all (validPackageInitializerTarget (Some p)) (initializer_lhs i)
      | _ \<Rightarrow> False)"

definition ownerVariants :: "artifact_owner \<Rightarrow> nat" where
  "ownerVariants o' =
     (if owner_source o' \<noteq> None then 1 else 0) +
     (if owner_initializer_package o' \<noteq> None \<or> owner_initializer o' \<noteq> None then 1 else 0) +
     (if owner_generated o' \<noteq> None then 1 else 0) +
     (if owner_assembly_package o' \<noteq> None then 1 else 0)"

definition owner_Valid :: "artifact_owner \<Rightarrow> bool" where
  "owner_Valid o' =
     ((if owner_initializer_package o' \<noteq> None \<or> owner_initializer o' \<noteq> None
       then validInitializerVariant o' else True) \<and>
      (case owner_assembly_package o' of None \<Rightarrow> True | Some p \<Rightarrow> package_path p \<noteq> '''') \<and>
      ownerVariants o' = 1 \<and>
      (case owner_generated o' of None \<Rightarrow> True | Some g \<Rightarrow> generated_valid g))"

definition owner_Source :: "artifact_owner \<Rightarrow> go_object option" where
  "owner_Source o' = (if owner_Valid o' then owner_source o' else None)"

definition owner_PackageInitializer :: "artifact_owner \<Rightarrow> (go_package option \<times> initializer) option" where
  "owner_PackageInitializer o' =
     (if owner_Valid o' then map_option (\<lambda>i. (owner_initializer_package o', i)) (owner_initializer o')
      else None)"

definition owner_Generated :: "artifact_owner \<Rightarrow> generated_artifact option" where
  "owner_Generated o' = (if owner_Valid o' then owner_generated o' else None)"

definition owner_PackageAssembly :: "artifact_owner \<Rightarrow> go_package option" where
  "owner_PackageAssembly o' = (if owner_Valid o' then owner_assembly_package o' else None)"

definition owner_Package :: "artifact_owner \<Rightarrow> go_package option" where
  "owner_Package o' =
     (case owner_Source o' of Some s \<Rightarrow> object_package s
      | None \<Rightarrow> case owner_PackageInitializer o' of Some (p, _) \<Rightarrow> p
      | None \<Rightarrow> case owner_Generated o' of Some g \<Rightarrow> generated_package g
      | None \<Rightarrow> owner_PackageAssembly o')"

subsection \<open>Constructors\<close>

datatype root_request_error = RootRequestError string

definition PackageAssemblyArtifactOwner ::
    "go_package option \<Rightarrow> root_request_error + artifact_owner" where
  "PackageAssemblyArtifactOwner sourcePackage =
     (case sourcePackage of
        None \<Rightarrow> Inl (RootRequestError ''package assembly artifact owner is invalid'')
      | Some p \<Rightarrow>
          if package_path p = '''' then
            Inl (RootRequestError ''package assembly artifact owner is invalid'')
          else Inr (no_owner\<lparr>owner_assembly_package := Some p\<rparr>))"

definition PackageInitializerArtifactOwner ::
    "go_package option \<Rightarrow> initializer option \<Rightarrow> root_request_error + artifact_owner" where
  "PackageInitializerArtifactOwner sourcePackage initialiser =
     (case (sourcePackage, initialiser) of
        (Some p, Some i) \<Rightarrow>
          if initializer_rhs i = None \<or> initializer_lhs i = [] then
            Inl (RootRequestError ''package initializer artifact owner is invalid'')
          else if \<not> list_all (validPackageInitializerTarget (Some p)) (initializer_lhs i) then
            Inl (RootRequestError ''package initializer artifact owner has a foreign target'')
          else Inr (no_owner\<lparr>owner_initializer_package := Some p, owner_initializer := Some i\<rparr>)
      | _ \<Rightarrow> Inl (RootRequestError ''package initializer artifact owner is invalid''))"

definition SourceArtifactOwner :: "go_object option \<Rightarrow> root_request_error + artifact_owner" where
  "SourceArtifactOwner source =
     (case source of
        None \<Rightarrow> Inl (RootRequestError ''source artifact owner is nil'')
      | Some s \<Rightarrow> Inr (no_owner\<lparr>owner_source := Some s\<rparr>))"

definition GeneratedArtifactOwner ::
    "generated_artifact option \<Rightarrow> root_request_error + artifact_owner" where
  "GeneratedArtifactOwner generated =
     (case generated of
        None \<Rightarrow> Inl (RootRequestError ''generated artifact owner is invalid'')
      | Some g \<Rightarrow>
          if \<not> generated_valid g then
            Inl (RootRequestError ''generated artifact owner is invalid'')
          else Inr (no_owner\<lparr>owner_generated := Some g\<rparr>))"

lemmas owner_constructor_defs =
  PackageAssemblyArtifactOwner_def PackageInitializerArtifactOwner_def
  SourceArtifactOwner_def GeneratedArtifactOwner_def

lemmas owner_valid_defs =
  owner_Valid_def ownerVariants_def validInitializerVariant_def no_owner_def

lemma no_owner_invalid [simp]: "\<not> owner_Valid no_owner"
  by (simp add: owner_valid_defs)

text \<open>Every constructor returns a valid owner or an error.\<close>

lemma SourceArtifactOwner_valid: "SourceArtifactOwner s = Inr w \<Longrightarrow> owner_Valid w"
  by (auto simp: SourceArtifactOwner_def owner_valid_defs split: option.splits)

lemma PackageAssemblyArtifactOwner_valid: "PackageAssemblyArtifactOwner p = Inr w \<Longrightarrow> owner_Valid w"
  by (auto simp: PackageAssemblyArtifactOwner_def owner_valid_defs split: option.splits if_splits)

lemma PackageInitializerArtifactOwner_valid:
  "PackageInitializerArtifactOwner p i = Inr w \<Longrightarrow> owner_Valid w"
  by (auto simp: PackageInitializerArtifactOwner_def owner_valid_defs split: option.splits if_splits)

lemma GeneratedArtifactOwner_valid: "GeneratedArtifactOwner g = Inr w \<Longrightarrow> owner_Valid w"
  by (auto simp: GeneratedArtifactOwner_def owner_valid_defs split: option.splits if_splits)

text \<open>A valid owner shows exactly one of its four views.\<close>

lemma owner_views:
  assumes "owner_Valid w"
  shows "length (filter (\<lambda>b. b) [owner_Source w \<noteq> None, owner_PackageInitializer w \<noteq> None,
     owner_Generated w \<noteq> None, owner_PackageAssembly w \<noteq> None]) = 1"
  using assms
  by (auto simp: owner_Source_def owner_PackageInitializer_def owner_Generated_def
      owner_PackageAssembly_def owner_valid_defs split: if_splits option.splits)

lemma owner_views_invalid:
  "\<not> owner_Valid w \<Longrightarrow> owner_Source w = None \<and> owner_PackageInitializer w = None \<and>
     owner_Generated w = None \<and> owner_PackageAssembly w = None"
  by (simp add: owner_Source_def owner_PackageInitializer_def owner_Generated_def
      owner_PackageAssembly_def)

subsection \<open>Facets and dependencies\<close>

text \<open>\<open>ArtifactFacet\<close> is a \<open>uint8\<close> whose valid values are 1 to 8.\<close>

type_synonym artifact_facet = nat

definition ArtifactFacetInvalid :: artifact_facet where "ArtifactFacetInvalid = 0"
definition ArtifactFacetCallableSignature :: artifact_facet where "ArtifactFacetCallableSignature = 1"
definition ArtifactFacetConstructorSurface :: artifact_facet where "ArtifactFacetConstructorSurface = 2"
definition ArtifactFacetInstanceTypeSurface :: artifact_facet where "ArtifactFacetInstanceTypeSurface = 3"
definition ArtifactFacetStaticSurface :: artifact_facet where "ArtifactFacetStaticSurface = 4"
definition ArtifactFacetValueSurface :: artifact_facet where "ArtifactFacetValueSurface = 5"
definition ArtifactFacetImplementation :: artifact_facet where "ArtifactFacetImplementation = 6"
definition ArtifactFacetExportSurface :: artifact_facet where "ArtifactFacetExportSurface = 7"
definition ArtifactFacetCallableRecovery :: artifact_facet where "ArtifactFacetCallableRecovery = 8"
definition ArtifactFacetCount :: nat where "ArtifactFacetCount = 9"

lemmas facet_defs =
  ArtifactFacetInvalid_def ArtifactFacetCallableSignature_def ArtifactFacetConstructorSurface_def
  ArtifactFacetInstanceTypeSurface_def ArtifactFacetStaticSurface_def ArtifactFacetValueSurface_def
  ArtifactFacetImplementation_def ArtifactFacetExportSurface_def ArtifactFacetCallableRecovery_def
  ArtifactFacetCount_def

definition facet_Valid :: "artifact_facet \<Rightarrow> bool" where
  "facet_Valid f \<longleftrightarrow> ArtifactFacetCallableSignature \<le> f \<and> f \<le> ArtifactFacetCallableRecovery"

text \<open>The loop \<open>for facet := ArtifactFacetCallableSignature; facet < ArtifactFacetCount; facet++\<close>.\<close>

definition facet_range :: "artifact_facet list" where
  "facet_range = [ArtifactFacetCallableSignature ..< ArtifactFacetCount]"

lemma set_facet_range: "set facet_range = {f. facet_Valid f}"
  by (auto simp: facet_range_def facet_Valid_def facet_defs)

lemma distinct_facet_range [simp]: "distinct facet_range"
  by (simp add: facet_range_def)

definition facet_String :: "artifact_facet \<Rightarrow> string" where
  "facet_String f =
     (if f = ArtifactFacetCallableSignature then ''callable-signature''
      else if f = ArtifactFacetConstructorSurface then ''constructor-surface''
      else if f = ArtifactFacetInstanceTypeSurface then ''instance-type-surface''
      else if f = ArtifactFacetStaticSurface then ''static-surface''
      else if f = ArtifactFacetValueSurface then ''value-surface''
      else if f = ArtifactFacetExportSurface then ''export-surface''
      else if f = ArtifactFacetImplementation then ''implementation''
      else if f = ArtifactFacetCallableRecovery then ''callable-recovery''
      else ''artifact-facet('' @ itoa f @ '')'')"

record artifact_dependency =
  dependency_provider :: artifact_owner
  dependency_facet :: artifact_facet

definition dependency_Valid :: "artifact_dependency \<Rightarrow> bool" where
  "dependency_Valid d \<longleftrightarrow> owner_Valid (dependency_provider d) \<and> facet_Valid (dependency_facet d)"

definition NewArtifactDependency ::
    "artifact_owner \<Rightarrow> artifact_facet \<Rightarrow> root_request_error + artifact_dependency" where
  "NewArtifactDependency provider facet =
     (if \<not> owner_Valid provider then
        Inl (RootRequestError ''artifact dependency provider is invalid'')
      else if \<not> facet_Valid facet then
        Inl (RootRequestError ''artifact dependency facet is invalid'')
      else Inr \<lparr>dependency_provider = provider, dependency_facet = facet\<rparr>)"

lemma NewArtifactDependency_Inr [simp]:
  "NewArtifactDependency p f = Inr d \<longleftrightarrow>
     owner_Valid p \<and> facet_Valid f \<and> d = \<lparr>dependency_provider = p, dependency_facet = f\<rparr>"
  by (auto simp: NewArtifactDependency_def)

lemma NewArtifactDependency_valid: "NewArtifactDependency p f = Inr d \<Longrightarrow> dependency_Valid d"
  by (simp add: dependency_Valid_def)

end
