(* ===== verification/Contract.thy ===== *)
theory Contract
  imports Owners
begin

text \<open>
  Observable contracts of target artifacts (\<open>internal/emit/artifact/contract_value.go\<close>): one
  canonical byte encoding per facet, a presence mask and the exported binding names.

  The Go array \<open>facets\<close> is a list of \<open>ArtifactFacetCount\<close> byte strings; a nil slice is the empty
  list.  \<open>contract_view\<close> is the abstract value: the list of optional facet encodings.
\<close>

record contract =
  contract_facets :: "bytes list"
  contract_present :: "16 word"
  contract_exports :: "string list"
  contract_exportsSet :: bool
  contract_initialized :: bool

datatype contract_value_error = ContractValueError artifact_facet string

definition absent_contract :: contract where
  "absent_contract = \<lparr>contract_facets = replicate ArtifactFacetCount [], contract_present = 0,
     contract_exports = [], contract_exportsSet = False, contract_initialized = False\<rparr>"

definition facetBit :: "artifact_facet \<Rightarrow> 16 word" where
  "facetBit facet = push_bit facet 1"

definition contract_facet :: "contract \<Rightarrow> artifact_facet \<Rightarrow> bytes option" where
  "contract_facet c facet =
     (if \<not> facet_Valid facet \<or> and (contract_present c) (facetBit facet) = 0 then None
      else Some (contract_facets c ! facet))"

definition hasFacet :: "contract \<Rightarrow> artifact_facet \<Rightarrow> bool" where
  "hasFacet c facet = (contract_facet c facet \<noteq> None)"

definition NewContract :: contract where
  "NewContract = absent_contract\<lparr>contract_initialized := True\<rparr>"

definition WithFacet :: "contract \<Rightarrow> artifact_facet \<Rightarrow> bytes \<Rightarrow> contract_value_error + contract" where
  "WithFacet c facet encoded =
     (if \<not> contract_initialized c then Inl (ContractValueError facet ''base contract is absent'')
      else if \<not> facet_Valid facet then Inl (ContractValueError facet ''facet is invalid'')
      else if facet = ArtifactFacetExportSurface then
        Inl (ContractValueError facet ''export surface is owned by declaration projection'')
      else if length encoded = 0 then
        Inl (ContractValueError facet ''canonical encoding is empty'')
      else Inr (c\<lparr>contract_facets := (contract_facets c)[facet := encoded],
                  contract_present := or (contract_present c) (facetBit facet)\<rparr>))"

definition NewContractFacet :: "artifact_facet \<Rightarrow> bytes \<Rightarrow> contract_value_error + contract" where
  "NewContractFacet facet encoded = WithFacet NewContract facet encoded"

text \<open>The loop over the exported names, with the index of the name that follows.\<close>

fun checkExports :: "string option \<Rightarrow> string list \<Rightarrow> contract_value_error option" where
  "checkExports previous [] = None"
| "checkExports previous (name # rest) =
     (if name = '''' then
        Some (ContractValueError ArtifactFacetExportSurface ''export binding name is empty'')
      else if (case previous of None \<Rightarrow> False | Some p \<Rightarrow> name \<le> p) then
        Some (ContractValueError ArtifactFacetExportSurface ''export bindings are not unique and sorted'')
      else checkExports (Some name) rest)"

definition withOwnedExports :: "contract \<Rightarrow> string list \<Rightarrow> contract_value_error + contract" where
  "withOwnedExports c exports =
     (if \<not> hasFacet c ArtifactFacetExportSurface then
        Inl (ContractValueError ArtifactFacetExportSurface ''export surface facet is absent'')
      else case checkExports None exports of
        Some e \<Rightarrow> Inl e
      | None \<Rightarrow> Inr (c\<lparr>contract_exports := exports, contract_exportsSet := True\<rparr>))"

definition contract_ExportedBindings :: "contract \<Rightarrow> string list option" where
  "contract_ExportedBindings c =
     (if \<not> hasFacet c ArtifactFacetExportSurface \<or> \<not> contract_exportsSet c then None
      else Some (contract_exports c))"

definition withOwnedFacet :: "contract \<Rightarrow> artifact_facet \<Rightarrow> bytes \<Rightarrow> contract_value_error + contract" where
  "withOwnedFacet c facet encoded =
     (if \<not> contract_initialized c then Inl (ContractValueError facet ''base contract is absent'')
      else if \<not> facet_Valid facet then Inl (ContractValueError facet ''facet is invalid'')
      else if length encoded = 0 then
        Inl (ContractValueError facet ''canonical encoding is empty'')
      else Inr (c\<lparr>contract_facets := (contract_facets c)[facet := encoded],
                  contract_present := or (contract_present c) (facetBit facet)\<rparr>))"

definition withoutImplementation :: "contract \<Rightarrow> contract" where
  "withoutImplementation c =
     c\<lparr>contract_facets := (contract_facets c)[ArtifactFacetImplementation := []],
       contract_present := and (contract_present c) (not (facetBit ArtifactFacetImplementation))\<rparr>"

definition facet_bytes :: "contract \<Rightarrow> artifact_facet \<Rightarrow> bytes" where
  "facet_bytes c facet = (case contract_facet c facet of None \<Rightarrow> [] | Some b \<Rightarrow> b)"

definition changedArtifactFacets :: "contract \<Rightarrow> contract \<Rightarrow> artifact_facet list" where
  "changedArtifactFacets current next' =
     filter (\<lambda>facet. hasFacet current facet \<noteq> hasFacet next' facet \<or>
               facet_bytes current facet \<noteq> facet_bytes next' facet) facet_range"

definition equalArtifactContracts :: "contract \<Rightarrow> contract \<Rightarrow> bool" where
  "equalArtifactContracts left right \<longleftrightarrow>
     contract_initialized left = contract_initialized right \<and>
     contract_present left = contract_present right \<and>
     length (changedArtifactFacets left right) = 0"

subsection \<open>The bytes a fingerprint digests\<close>

definition bigEndian64 :: "nat \<Rightarrow> bytes" where
  "bigEndian64 n = map (\<lambda>i. word_of_nat (n div 256 ^ (7 - i))) [0..<8]"

definition byte_string :: "string \<Rightarrow> bytes" where
  "byte_string s = map (\<lambda>c. word_of_nat (of_char c)) s"

definition fingerprintBytes :: "bytes \<Rightarrow> bytes" where
  "fingerprintBytes value = bigEndian64 (length value) @ value"

definition fingerprintFacet :: "contract \<Rightarrow> artifact_facet \<Rightarrow> bytes" where
  "fingerprintFacet c facet =
     word_of_nat facet #
       (case contract_facet c facet of None \<Rightarrow> [0] | Some encoded \<Rightarrow> 1 # fingerprintBytes encoded)"

text \<open>\<open>Contract.Fingerprint\<close>; \<open>sha256hex\<close> stands for the digest of the bytes written, printed in hexadecimal.\<close>

definition fingerprintPayload :: "contract \<Rightarrow> bytes" where
  "fingerprintPayload c =
     concat (map (fingerprintFacet c) facet_range) @
     concat (map (\<lambda>e. fingerprintBytes (byte_string e)) (contract_exports c))"

definition Fingerprint :: "(bytes \<Rightarrow> string) \<Rightarrow> contract \<Rightarrow> string option" where
  "Fingerprint sha256hex c =
     (if \<not> contract_initialized c \<or> hasFacet c ArtifactFacetExportSurface \<noteq> contract_exportsSet c
      then None else Some (sha256hex (fingerprintPayload c)))"

subsection \<open>Facets and the presence mask\<close>

definition contract_wf :: "contract \<Rightarrow> bool" where
  "contract_wf c \<longleftrightarrow> length (contract_facets c) = ArtifactFacetCount \<and>
     (\<forall>n < 16. bit (contract_present c) n \<longrightarrow> facet_Valid n)"

definition contract_view :: "contract \<Rightarrow> bytes option list" where
  "contract_view c = map (contract_facet c) facet_range"

lemma facet_Valid_less: "facet_Valid f \<Longrightarrow> f < 16 \<and> f < ArtifactFacetCount"
  by (auto simp: facet_Valid_def facet_defs)

lemma bit_facetBit: "facet_Valid f \<Longrightarrow> bit (facetBit f) n \<longleftrightarrow> n = f"
  using facet_Valid_less [of f] by (auto simp: facetBit_def bit_simps)

lemma and_facetBit: "and w (facetBit f) = 0 \<longleftrightarrow> \<not> bit w f"
  unfolding facetBit_def push_bit_of_1 by (rule and_exp_eq_0_iff_not_bit)

lemma contract_facet_eq:
  "contract_facet c f = (if facet_Valid f \<and> bit (contract_present c) f then Some (contract_facets c ! f) else None)"
  by (auto simp: contract_facet_def and_facetBit)

lemma hasFacet_eq: "hasFacet c f \<longleftrightarrow> facet_Valid f \<and> bit (contract_present c) f"
  by (simp add: hasFacet_def contract_facet_eq)

lemma contract_facet_absent [simp]: "contract_facet absent_contract f = None"
  by (simp add: contract_facet_eq absent_contract_def)

lemma contract_wf_absent [simp]: "contract_wf absent_contract"
  by (simp add: contract_wf_def absent_contract_def)

lemma contract_wf_new [simp]: "contract_wf NewContract"
  by (simp add: contract_wf_def NewContract_def absent_contract_def)

lemma contract_view_facets:
  "contract_view c = contract_view d \<longleftrightarrow> (\<forall>f. facet_Valid f \<longrightarrow> contract_facet c f = contract_facet d f)"
  using set_facet_range by (auto simp: contract_view_def)

lemma contract_view_eqD: "contract_view c = contract_view d \<Longrightarrow> contract_facet c f = contract_facet d f"
  by (cases "facet_Valid f") (auto simp: contract_view_facets contract_facet_eq)

text \<open>Writing one facet.\<close>

lemma contract_facet_set:
  assumes "facet_Valid f" "length (contract_facets c) = ArtifactFacetCount"
  shows "contract_facet (c\<lparr>contract_facets := (contract_facets c)[f := b],
      contract_present := or (contract_present c) (facetBit f)\<rparr>) g =
    (if g = f then Some b else contract_facet c g)"
  using assms facet_Valid_less [of f] by (auto simp: contract_facet_eq bit_or_iff bit_facetBit)

lemma contract_facet_clear:
  assumes "facet_Valid f"
  shows "contract_facet (c\<lparr>contract_facets := (contract_facets c)[f := b],
      contract_present := and (contract_present c) (not (facetBit f))\<rparr>) g =
    (if g = f then None else contract_facet c g)"
  using assms facet_Valid_less [of g]
  by (auto simp: contract_facet_eq bit_and_iff bit_not_iff bit_facetBit possible_bit_def)

lemma contract_wf_set:
  "contract_wf c \<Longrightarrow> facet_Valid f \<Longrightarrow>
    contract_wf (c\<lparr>contract_facets := (contract_facets c)[f := b],
      contract_present := or (contract_present c) (facetBit f)\<rparr>)"
  by (auto simp: contract_wf_def bit_or_iff bit_facetBit)

lemma contract_wf_clear:
  "contract_wf c \<Longrightarrow>
    contract_wf (c\<lparr>contract_facets := (contract_facets c)[f := b],
      contract_present := and (contract_present c) (not (facetBit f))\<rparr>)"
  by (auto simp: contract_wf_def bit_and_iff)

lemma changed_facets:
  "f \<in> set (changedArtifactFacets c d) \<longleftrightarrow> facet_Valid f \<and> contract_facet c f \<noteq> contract_facet d f"
  by (auto simp: changedArtifactFacets_def set_facet_range hasFacet_def facet_bytes_def split: option.splits)

lemma distinct_changed [simp]: "distinct (changedArtifactFacets c d)"
  by (simp add: changedArtifactFacets_def)

lemma changed_Nil: "changedArtifactFacets c d = [] \<longleftrightarrow> contract_view c = contract_view d"
proof -
  have "changedArtifactFacets c d = [] \<longleftrightarrow> (\<forall>f. f \<notin> set (changedArtifactFacets c d))"
    by (cases "changedArtifactFacets c d") auto
  then show ?thesis by (auto simp: changed_facets contract_view_facets)
qed

lemma present_view:
  assumes "contract_wf c" "contract_wf d" "contract_view c = contract_view d"
  shows "contract_present c = contract_present d"
proof (rule bit_word_eqI)
  fix n assume "n < LENGTH(16)"
  then have n: "n < 16" by simp
  show "bit (contract_present c) n = bit (contract_present d) n"
  proof (cases "facet_Valid n")
    case True
    then show ?thesis using contract_view_eqD [OF assms(3), of n] by (auto simp: contract_facet_eq split: if_splits)
  next
    case False
    then show ?thesis using assms(1,2) n by (auto simp: contract_wf_def)
  qed
qed

lemma equal_contracts:
  "contract_wf c \<Longrightarrow> contract_wf d \<Longrightarrow>
    equalArtifactContracts c d \<longleftrightarrow>
      contract_initialized c = contract_initialized d \<and> contract_view c = contract_view d"
  by (auto simp: equalArtifactContracts_def changed_Nil dest: present_view)

lemma facet_bytes_view: "contract_view c = contract_view d \<Longrightarrow> facet_bytes c f = facet_bytes d f"
  using contract_view_eqD [of c d f] by (simp add: facet_bytes_def)

lemma withoutImplementation_facet:
  "contract_facet (withoutImplementation c) f =
     (if f = ArtifactFacetImplementation then None else contract_facet c f)"
  unfolding withoutImplementation_def
  by (rule contract_facet_clear) (simp add: facet_Valid_def facet_defs)

lemma WithFacet_Inr:
  assumes "WithFacet c f b = Inr d" "contract_wf c"
  shows "contract_wf d \<and> contract_initialized d \<and> facet_Valid f \<and> f \<noteq> ArtifactFacetExportSurface \<and> b \<noteq> [] \<and>
    (\<forall>g. contract_facet d g = (if g = f then Some b else contract_facet c g))"
  using assms contract_facet_set [of f c b] contract_wf_set [of c f b]
  by (auto simp: WithFacet_def contract_wf_def split: if_splits)

text \<open>An accepted export list is strictly sorted and has no empty name.\<close>

lemma checkExports_None:
  "checkExports p names = None \<longleftrightarrow>
     '''' \<notin> set names \<and> sorted_wrt (<) (case p of None \<Rightarrow> names | Some q \<Rightarrow> q # names)"
proof (induction names arbitrary: p)
  case Nil
  then show ?case by (cases p) auto
next
  case (Cons n names)
  then show ?case by (cases p) (auto simp: not_le intro: less_trans)
qed

subsection \<open>The fingerprint payload determines the contract\<close>

lemma length_bigEndian64 [simp]: "length (bigEndian64 n) = 8"
  by (simp add: bigEndian64_def)

definition read_bigEndian64 :: "bytes \<Rightarrow> nat" where
  "read_bigEndian64 bs = foldl (\<lambda>n b. 256 * n + unat b) 0 bs"

lemma read_bigEndian64 [simp]: "n < 2 ^ 64 \<Longrightarrow> read_bigEndian64 (bigEndian64 n) = n"
  using read_base256 [of n 7] by (simp add: read_bigEndian64_def bigEndian64_def)

lemma bigEndian64_inject:
  "m < 2 ^ 64 \<Longrightarrow> n < 2 ^ 64 \<Longrightarrow> bigEndian64 m = bigEndian64 n \<longleftrightarrow> m = n"
  by (metis read_bigEndian64)

interpretation fingerprint_code: prefix_code fingerprintBytes "\<lambda>b. length b < 2 ^ 64"
proof
  fix x y r s :: bytes
  assume l: "length x < 2 ^ 64" "length y < 2 ^ 64"
    and e: "fingerprintBytes x @ r = fingerprintBytes y @ s"
  then have "bigEndian64 (length x) = bigEndian64 (length y)" "x @ r = y @ s"
    by (auto simp: fingerprintBytes_def)
  then show "x = y \<and> r = s" using l by (auto simp: bigEndian64_inject)
qed (simp add: fingerprintBytes_def bigEndian64_def)

lemma byte_string_inject [simp]: "byte_string s = byte_string t \<longleftrightarrow> s = t"
proof
  assume "byte_string s = byte_string t"
  moreover have "inj (\<lambda>c :: char. word_of_nat (of_char c) :: 8 word)"
  proof (rule injI)
    fix c d :: char
    assume "(word_of_nat (of_char c) :: 8 word) = word_of_nat (of_char d)"
    then have "(of_char c :: nat) = of_char d"
      using nat_of_char_less_256 [of c] nat_of_char_less_256 [of d]
      by (simp add: word_of_nat_eq_iff take_bit_eq_mod)
    then show "c = d" by simp
  qed
  ultimately show "s = t" by (simp add: byte_string_def inj_map_eq_map)
qed simp

lemma fingerprintFacet_delimits:
  assumes "length (facet_bytes c f) < 2 ^ 64" "length (facet_bytes d f) < 2 ^ 64"
    and "fingerprintFacet c f @ r = fingerprintFacet d f @ s"
  shows "contract_facet c f = contract_facet d f \<and> r = s"
proof (cases "contract_facet c f")
  case None
  then show ?thesis using assms(3) by (cases "contract_facet d f") (auto simp: fingerprintFacet_def)
next
  case c: (Some x)
  then obtain y where d: "contract_facet d f = Some y"
    using assms(3) by (cases "contract_facet d f") (auto simp: fingerprintFacet_def)
  have "fingerprintBytes x @ r = fingerprintBytes y @ s"
    using assms(3) by (simp add: fingerprintFacet_def c d)
  then show ?thesis
    using fingerprint_code.enc_delimits [of x y r s] assms(1,2) by (simp add: facet_bytes_def c d)
qed

lemma fingerprintFacets_delimit:
  assumes "\<And>f. f \<in> set fs \<Longrightarrow> length (facet_bytes c f) < 2 ^ 64 \<and> length (facet_bytes d f) < 2 ^ 64"
    and "concat (map (fingerprintFacet c) fs) @ r = concat (map (fingerprintFacet d) fs) @ s"
  shows "(\<forall>f \<in> set fs. contract_facet c f = contract_facet d f) \<and> r = s"
  using assms
proof (induction fs)
  case Nil
  then show ?case by simp
next
  case (Cons f fs)
  have "contract_facet c f = contract_facet d f \<and>
      concat (map (fingerprintFacet c) fs) @ r = concat (map (fingerprintFacet d) fs) @ s"
    using Cons.prems by (intro fingerprintFacet_delimits) auto
  with Cons show ?case by simp
qed

definition payload_small :: "contract \<Rightarrow> bool" where
  "payload_small c \<longleftrightarrow> list_all (\<lambda>f. length (facet_bytes c f) < 2 ^ 64) facet_range \<and>
     list_all (\<lambda>e. length e < 2 ^ 64) (contract_exports c)"

lemma fingerprintPayload_view:
  assumes "payload_small c" "payload_small d" "fingerprintPayload c = fingerprintPayload d"
  shows "contract_view c = contract_view d \<and> contract_exports c = contract_exports d"
proof -
  have l: "length (byte_string e) = length e" for e by (simp add: byte_string_def)
  have f: "\<And>f. f \<in> set facet_range \<Longrightarrow> length (facet_bytes c f) < 2 ^ 64 \<and> length (facet_bytes d f) < 2 ^ 64"
    using assms(1,2) by (simp add: payload_small_def list_all_iff)
  have v: "(\<forall>f \<in> set facet_range. contract_facet c f = contract_facet d f) \<and>
      concat (map (\<lambda>e. fingerprintBytes (byte_string e)) (contract_exports c)) =
      concat (map (\<lambda>e. fingerprintBytes (byte_string e)) (contract_exports d))"
    using assms(3) by (intro fingerprintFacets_delimit f) (auto simp: fingerprintPayload_def)
  then have "map byte_string (contract_exports c) = map byte_string (contract_exports d)"
    using fingerprint_code.enc_list_inject [of "map byte_string (contract_exports c)"
        "map byte_string (contract_exports d)"] assms(1,2)
    by (simp add: payload_small_def list_all_iff l comp_def)
  then show ?thesis
    using v by (auto simp: contract_view_def inj_map_eq_map inj_def)
qed

end
