(* ===== verification/ContractHistory.thy ===== *)
theory ContractHistory
  imports Contract
begin

text \<open>
  The history of the contracts an artifact has published
  (\<open>internal/emit/artifact/contract_history.go\<close>).  The code keeps only the current contract; every
  older one is reached through a chain of reverse deltas (common prefix and suffix of each changed
  facet, and the middle part, compressed when that is shorter), and a fingerprint selects the
  candidates to restore.

  The refinement is \<open>history_rep h cs\<close>: the entries represent the list \<open>cs\<close> of all contracts in
  publication order.  The lemmas show that a delta restores the facets of the contract it was made
  from and that \<open>history_contains\<close> decides membership in that list.

  \<open>compress/flate\<close> is an argument (\<open>go_flate\<close>): a compressor, and a decompressor that returns the
  whole stream or fails.  Its documented law is \<open>flate_ok\<close>.  A panic is \<open>None\<close>.
\<close>

record go_flate =
  flate_deflate :: "bytes \<Rightarrow> bytes"
  flate_inflate :: "bytes \<Rightarrow> bytes option"

definition flate_ok :: "go_flate \<Rightarrow> bool" where
  "flate_ok fl \<longleftrightarrow> (\<forall>b. flate_inflate fl (flate_deflate fl b) = Some b)"

subsection \<open>Exact bytes\<close>

record exactHistoryBytes =
  exact_data :: bytes
  exact_rawLength :: nat
  exact_compressed :: bool

definition compressHistoryBytes :: "go_flate \<Rightarrow> bytes \<Rightarrow> exactHistoryBytes" where
  "compressHistoryBytes fl value =
     (if length value = 0 then \<lparr>exact_data = [], exact_rawLength = 0, exact_compressed = False\<rparr>
      else if length value < 256 then
        \<lparr>exact_data = value, exact_rawLength = length value, exact_compressed = False\<rparr>
      else
        let output = flate_deflate fl value in
        if length value \<le> length output then
          \<lparr>exact_data = value, exact_rawLength = length value, exact_compressed = False\<rparr>
        else \<lparr>exact_data = output, exact_rawLength = length value, exact_compressed = True\<rparr>)"

definition exact :: "go_flate \<Rightarrow> exactHistoryBytes \<Rightarrow> bytes option" where
  "exact fl b =
     (if exact_rawLength b = 0 then Some []
      else if \<not> exact_compressed b then Some (exact_data b)
      else case flate_inflate fl (exact_data b) of
        None \<Rightarrow> None
      | Some result \<Rightarrow> if length result = exact_rawLength b then Some result else None)"

subsection \<open>Deltas\<close>

fun commonPrefixLength :: "bytes \<Rightarrow> bytes \<Rightarrow> nat" where
  "commonPrefixLength (l # left) (r # right) =
     (if l = r then Suc (commonPrefixLength left right) else 0)"
| "commonPrefixLength left right = 0"

definition commonSuffixLength :: "bytes \<Rightarrow> bytes \<Rightarrow> nat" where
  "commonSuffixLength left right = commonPrefixLength (rev left) (rev right)"

record facetReverseDelta =
  delta_previousPresent :: bool
  delta_prefix :: nat
  delta_suffix :: nat
  delta_previousMiddle :: exactHistoryBytes

record contractReverseDelta =
  reverse_facets :: "facetReverseDelta list"
  reverse_changed :: "16 word"

definition no_facet_delta :: facetReverseDelta where
  "no_facet_delta = \<lparr>delta_previousPresent = False, delta_prefix = 0, delta_suffix = 0,
     delta_previousMiddle = \<lparr>exact_data = [], exact_rawLength = 0, exact_compressed = False\<rparr>\<rparr>"

definition no_delta :: contractReverseDelta where
  "no_delta = \<lparr>reverse_facets = replicate ArtifactFacetCount no_facet_delta, reverse_changed = 0\<rparr>"

definition facetDelta :: "go_flate \<Rightarrow> contract \<Rightarrow> contract \<Rightarrow> artifact_facet \<Rightarrow> facetReverseDelta" where
  "facetDelta fl previous next' facet =
     (let previousValue = facet_bytes previous facet;
          nextValue = facet_bytes next' facet;
          prefix = commonPrefixLength previousValue nextValue;
          suffix = commonSuffixLength (drop prefix previousValue) (drop prefix nextValue);
          previousEnd = length previousValue - suffix;
          d = \<lparr>delta_previousPresent = hasFacet previous facet, delta_prefix = prefix,
               delta_suffix = suffix,
               delta_previousMiddle =
                 compressHistoryBytes fl (drop prefix (take previousEnd previousValue))\<rparr>
      in if \<not> hasFacet next' facet then d\<lparr>delta_prefix := 0, delta_suffix := 0\<rparr> else d)"

definition recordFacetDelta ::
    "go_flate \<Rightarrow> contract \<Rightarrow> contract \<Rightarrow> artifact_facet \<Rightarrow> contractReverseDelta \<Rightarrow> contractReverseDelta" where
  "recordFacetDelta fl previous next' facet result =
     result\<lparr>reverse_facets := (reverse_facets result)[facet := facetDelta fl previous next' facet],
            reverse_changed := or (reverse_changed result) (facetBit facet)\<rparr>"

definition reverseContractDelta :: "go_flate \<Rightarrow> contract \<Rightarrow> contract \<Rightarrow> contractReverseDelta" where
  "reverseContractDelta fl previous next' =
     fold (recordFacetDelta fl previous next') (changedArtifactFacets previous next') no_delta"

text \<open>One facet of \<open>restore\<close>: it reads the next contract and writes the previous one.\<close>

definition restoreFacet ::
    "go_flate \<Rightarrow> contractReverseDelta \<Rightarrow> contract \<Rightarrow> artifact_facet \<Rightarrow> contract \<Rightarrow> contract option" where
  "restoreFacet fl d next' facet previous =
     (if and (reverse_changed d) (facetBit facet) = 0 then Some previous
      else
        let change = reverse_facets d ! facet;
            nextValue = (case contract_facet next' facet of None \<Rightarrow> [] | Some b \<Rightarrow> b)
        in if length nextValue < delta_prefix change + delta_suffix change then None
           else if delta_previousPresent change then
             (case exact fl (delta_previousMiddle change) of
                None \<Rightarrow> None
              | Some middle \<Rightarrow>
                  let value = take (delta_prefix change) nextValue @ middle @
                        drop (length nextValue - delta_suffix change) nextValue
                  in Some (previous\<lparr>contract_facets := (contract_facets previous)[facet := value],
                       contract_present := or (contract_present previous) (facetBit facet)\<rparr>))
           else Some (previous\<lparr>contract_facets := (contract_facets previous)[facet := []],
                  contract_present := and (contract_present previous) (not (facetBit facet))\<rparr>))"

fun restoreFacets ::
    "go_flate \<Rightarrow> contractReverseDelta \<Rightarrow> contract \<Rightarrow> artifact_facet list \<Rightarrow> contract \<Rightarrow> contract option" where
  "restoreFacets fl d next' [] previous = Some previous"
| "restoreFacets fl d next' (facet # rest) previous =
     (case restoreFacet fl d next' facet previous of
        None \<Rightarrow> None | Some p \<Rightarrow> restoreFacets fl d next' rest p)"

definition restore :: "go_flate \<Rightarrow> contractReverseDelta \<Rightarrow> contract \<Rightarrow> contract option" where
  "restore fl d next' = restoreFacets fl d next' facet_range next'"

subsection \<open>Fingerprints\<close>

type_synonym contractFingerprint = "64 word \<times> 64 word"

definition mix :: "8 word \<Rightarrow> contractFingerprint \<Rightarrow> contractFingerprint" where
  "mix value state =
     (let first = xor (fst state) (ucast value) * 1099511628211;
          second = xor (snd state) (ucast value) * 14029467366897019727
      in (first, xor second (drop_bit 29 second)))"

definition fingerprintInput :: "contract \<Rightarrow> artifact_facet \<Rightarrow> bytes" where
  "fingerprintInput contract facet =
     word_of_nat facet #
       (case contract_facet contract facet of
          None \<Rightarrow> [0]
        | Some value \<Rightarrow>
            1 # map (\<lambda>i. ucast (drop_bit (8 * i) (word_of_nat (length value) :: 64 word))) [0..<8] @ value)"

definition fingerprintContract :: "contract \<Rightarrow> contractFingerprint" where
  "fingerprintContract contract =
     fold mix
       (ucast (contract_present contract) # ucast (drop_bit 8 (contract_present contract)) #
        concat (map (fingerprintInput contract) facet_range))
       (14695981039346656037, 7809847782465536322)"

subsection \<open>The history\<close>

record contractHistoryEntry =
  entry_fingerprint :: contractFingerprint
  entry_previous :: contractReverseDelta

type_synonym contractHistory = "contractHistoryEntry list"

definition history_initialize :: "contract \<Rightarrow> contractHistory \<Rightarrow> contractHistory option" where
  "history_initialize contract h =
     (if length h \<noteq> 0 then None
      else Some (h @ [\<lparr>entry_fingerprint = fingerprintContract contract, entry_previous = no_delta\<rparr>]))"

definition history_append ::
    "go_flate \<Rightarrow> contract \<Rightarrow> contract \<Rightarrow> contractHistory \<Rightarrow> contractHistory option" where
  "history_append fl previous next' h =
     (if length h = 0 then None
      else Some (h @ [\<lparr>entry_fingerprint = fingerprintContract next',
                       entry_previous = reverseContractDelta fl previous next'\<rparr>]))"

text \<open>The inner loop: restore from the newest revision down to the one after \<open>index\<close>.\<close>

fun restoreTo :: "go_flate \<Rightarrow> contractHistory \<Rightarrow> nat \<Rightarrow> nat \<Rightarrow> contract \<Rightarrow> contract option" where
  "restoreTo fl h index revision historical =
     (if index < revision then
        (case restore fl (entry_previous (h ! revision)) historical of
           None \<Rightarrow> None | Some c \<Rightarrow> restoreTo fl h index (revision - 1) c)
      else Some historical)"

declare restoreTo.simps [simp del]

text \<open>The outer loop; \<open>n\<close> is one more than the index looked at.\<close>

fun containsFrom :: "go_flate \<Rightarrow> contractHistory \<Rightarrow> contract \<Rightarrow> contract \<Rightarrow> nat \<Rightarrow> bool option" where
  "containsFrom fl h current candidate 0 = Some False"
| "containsFrom fl h current candidate (Suc index) =
     (if entry_fingerprint (h ! index) \<noteq> fingerprintContract candidate
      then containsFrom fl h current candidate index
      else case restoreTo fl h index (length h - 1) current of
        None \<Rightarrow> None
      | Some historical \<Rightarrow>
          if equalArtifactContracts historical candidate then Some True
          else containsFrom fl h current candidate index)"

definition history_contains :: "go_flate \<Rightarrow> contractHistory \<Rightarrow> contract \<Rightarrow> contract \<Rightarrow> bool option" where
  "history_contains fl h current candidate = containsFrom fl h current candidate (length h)"

definition retainedPayloadBytes :: "contractHistory \<Rightarrow> nat" where
  "retainedPayloadBytes h =
     sum_list (map (\<lambda>entry. sum_list (map (\<lambda>facet.
       length (exact_data (delta_previousMiddle (reverse_facets (entry_previous entry) ! facet)))) facet_range)) h)"

subsection \<open>Exactness of the deltas\<close>

lemma exact_compress: "flate_ok fl \<Longrightarrow> exact fl (compressHistoryBytes fl b) = Some b"
  by (auto simp: exact_def compressHistoryBytes_def Let_def flate_ok_def)

lemma prefix_le: "commonPrefixLength a b \<le> length a \<and> commonPrefixLength a b \<le> length b"
  by (induction a b rule: commonPrefixLength.induct) auto

lemma prefix_take: "take (commonPrefixLength a b) a = take (commonPrefixLength a b) b"
  by (induction a b rule: commonPrefixLength.induct) auto

lemma suffix_le: "commonSuffixLength a b \<le> length a \<and> commonSuffixLength a b \<le> length b"
  using prefix_le [of "rev a" "rev b"] by (simp add: commonSuffixLength_def)

lemma suffix_drop:
  "drop (length a - commonSuffixLength a b) a = drop (length b - commonSuffixLength a b) b"
  using prefix_take [of "rev a" "rev b"]
  by (simp add: commonSuffixLength_def take_rev)

text \<open>Cutting out the middle and pasting it between the shared ends.\<close>

lemma splice:
  fixes p n :: bytes
  defines "pre \<equiv> commonPrefixLength p n"
  defines "suf \<equiv> commonSuffixLength (drop pre p) (drop pre n)"
  shows "pre + suf \<le> length n \<and> pre + suf \<le> length p \<and>
    take pre n @ drop pre (take (length p - suf) p) @ drop (length n - suf) n = p"
proof -
  have le: "pre \<le> length p" "pre \<le> length n" using prefix_le unfolding pre_def by auto
  have sl: "suf \<le> length p - pre" "suf \<le> length n - pre"
    using suffix_le [of "drop pre p" "drop pre n"] unfolding suf_def by auto
  have "drop (length p - suf) p = drop (length n - suf) n"
    using suffix_drop [of "drop pre p" "drop pre n"] le sl unfolding suf_def [symmetric] by simp
  moreover have "take pre n = take pre p" by (simp add: pre_def prefix_take)
  moreover have "take pre p @ drop pre (take (length p - suf) p) = take (length p - suf) p"
  proof -
    have "take pre p = take pre (take (length p - suf) p)" using sl le by (simp add: min_absorb1)
    then show ?thesis by (simp only: append_take_drop_id)
  qed
  ultimately have "take pre n @ drop pre (take (length p - suf) p) @ drop (length n - suf) n = p"
    by (metis append_assoc append_take_drop_id)
  moreover have "pre + suf \<le> length n" "pre + suf \<le> length p" using le sl by linarith+
  ultimately show ?thesis by blast
qed

lemma delta_fold:
  assumes "\<And>f. f \<in> set fs \<Longrightarrow> facet_Valid f" "length (reverse_facets d) = ArtifactFacetCount" "facet_Valid g"
  shows "(bit (reverse_changed (fold (recordFacetDelta fl p n) fs d)) g \<longleftrightarrow>
      bit (reverse_changed d) g \<or> g \<in> set fs) \<and>
    reverse_facets (fold (recordFacetDelta fl p n) fs d) ! g =
      (if g \<in> set fs then facetDelta fl p n g else reverse_facets d ! g)"
  using assms(1,2)
proof (induction fs arbitrary: d)
  case Nil
  then show ?case by simp
next
  case (Cons f fs)
  have f: "facet_Valid f" "f < ArtifactFacetCount" using Cons.prems(1) facet_Valid_less by auto
  show ?case
    using Cons.IH [of "recordFacetDelta fl p n f d"] Cons.prems f bit_facetBit [OF f(1), of g]
    by (auto simp: recordFacetDelta_def bit_or_iff)
qed

lemma reverse_delta_facets:
  assumes "facet_Valid f"
  shows "bit (reverse_changed (reverseContractDelta fl p n)) f \<longleftrightarrow> contract_facet p f \<noteq> contract_facet n f"
    and "contract_facet p f \<noteq> contract_facet n f \<Longrightarrow>
      reverse_facets (reverseContractDelta fl p n) ! f = facetDelta fl p n f"
  using delta_fold [of "changedArtifactFacets p n" no_delta f fl p n] assms
  by (simp_all add: changed_facets reverseContractDelta_def [symmetric]) (simp_all add: no_delta_def)

lemma restoreFacet_delta:
  assumes fl: "flate_ok fl" and f: "facet_Valid f" and wf: "contract_wf q"
    and v: "contract_facet n' f = contract_facet n f"
    and same: "contract_facet q f = contract_facet n' f"
  shows "\<exists>q'. restoreFacet fl (reverseContractDelta fl p n) n' f q = Some q' \<and> contract_wf q' \<and>
    contract_initialized q' = contract_initialized q \<and>
    (\<forall>g. contract_facet q' g = (if g = f then contract_facet p f else contract_facet q g))"
proof (cases "contract_facet p f = contract_facet n f")
  case True
  then show ?thesis
    using reverse_delta_facets(1) [OF f, of fl p n] wf same v
    by (auto simp: restoreFacet_def and_facetBit)
next
  case False
  let ?change = "facetDelta fl p n f"
  have len: "length (contract_facets q) = ArtifactFacetCount" using wf by (simp add: contract_wf_def)
  have ch: "and (reverse_changed (reverseContractDelta fl p n)) (facetBit f) \<noteq> 0"
    using reverse_delta_facets(1) [OF f, of fl p n] False by (simp add: and_facetBit)
  note rf = reverse_delta_facets(2) [OF f False, of fl]
  have nv: "(case contract_facet n' f of None \<Rightarrow> [] | Some b \<Rightarrow> b) = facet_bytes n f"
    by (simp add: facet_bytes_def v)
  note sp = splice [of "facet_bytes p f" "facet_bytes n f"]
  have bound: "delta_prefix ?change + delta_suffix ?change \<le> length (facet_bytes n f)"
    using sp by (simp add: facetDelta_def Let_def)
  show ?thesis
  proof (cases "contract_facet p f")
    case None
    then have pp: "\<not> delta_previousPresent ?change" by (simp add: facetDelta_def Let_def hasFacet_def)
    then show ?thesis
      using ch bound None contract_facet_clear [OF f, of q "[]"] contract_wf_clear [OF wf, of f "[]"]
      unfolding restoreFacet_def Let_def nv rf by (auto simp: not_less)
  next
    case (Some b)
    then have pp: "delta_previousPresent ?change" by (simp add: facetDelta_def Let_def hasFacet_def)
    have "take (delta_prefix ?change) (facet_bytes n f) @
        (drop (commonPrefixLength (facet_bytes p f) (facet_bytes n f))
           (take (length (facet_bytes p f) - commonSuffixLength
              (drop (commonPrefixLength (facet_bytes p f) (facet_bytes n f)) (facet_bytes p f))
              (drop (commonPrefixLength (facet_bytes p f) (facet_bytes n f)) (facet_bytes n f))) (facet_bytes p f))) @
        drop (length (facet_bytes n f) - delta_suffix ?change) (facet_bytes n f) = facet_bytes p f"
      using sp by (auto simp: facetDelta_def Let_def hasFacet_def facet_bytes_def)
    moreover have "exact fl (delta_previousMiddle ?change) =
        Some (drop (commonPrefixLength (facet_bytes p f) (facet_bytes n f))
           (take (length (facet_bytes p f) - commonSuffixLength
              (drop (commonPrefixLength (facet_bytes p f) (facet_bytes n f)) (facet_bytes p f))
              (drop (commonPrefixLength (facet_bytes p f) (facet_bytes n f)) (facet_bytes n f))) (facet_bytes p f)))"
      by (simp add: facetDelta_def Let_def exact_compress [OF fl])
    ultimately have "restoreFacet fl (reverseContractDelta fl p n) n' f q =
        Some (q\<lparr>contract_facets := (contract_facets q)[f := facet_bytes p f],
          contract_present := or (contract_present q) (facetBit f)\<rparr>)"
      using ch bound pp unfolding restoreFacet_def Let_def nv rf by (simp add: not_less)
    then show ?thesis
      using contract_facet_set [OF f len] contract_wf_set [OF wf f] Some
      by (simp add: facet_bytes_def)
  qed
qed

lemma restoreFacets_delta:
  assumes fl: "flate_ok fl" and v: "contract_view n' = contract_view n"
  shows "distinct fs \<Longrightarrow> (\<And>f. f \<in> set fs \<Longrightarrow> facet_Valid f \<and> contract_facet q f = contract_facet n' f) \<Longrightarrow>
    contract_wf q \<Longrightarrow>
    \<exists>q'. restoreFacets fl (reverseContractDelta fl p n) n' fs q = Some q' \<and> contract_wf q' \<and>
      contract_initialized q' = contract_initialized q \<and>
      (\<forall>g. contract_facet q' g = (if g \<in> set fs then contract_facet p g else contract_facet q g))"
proof (induction fs arbitrary: q)
  case Nil
  then show ?case by simp
next
  case (Cons f fs)
  obtain q1 where q1: "restoreFacet fl (reverseContractDelta fl p n) n' f q = Some q1" "contract_wf q1"
      "contract_initialized q1 = contract_initialized q"
      "\<And>g. contract_facet q1 g = (if g = f then contract_facet p f else contract_facet q g)"
    using restoreFacet_delta [OF fl, of f q n' n p] Cons.prems contract_view_eqD [OF v, of f] by auto
  have "\<And>g. g \<in> set fs \<Longrightarrow> facet_Valid g \<and> contract_facet q1 g = contract_facet n' g"
    using Cons.prems q1(4) by auto
  from Cons.IH [OF _ this q1(2)] Cons.prems(1) obtain q2
    where "restoreFacets fl (reverseContractDelta fl p n) n' fs q1 = Some q2" "contract_wf q2"
      "contract_initialized q2 = contract_initialized q1"
      "\<And>g. contract_facet q2 g = (if g \<in> set fs then contract_facet p g else contract_facet q1 g)"
    by auto
  with q1 Cons.prems(1) show ?case by auto
qed

lemma restore_delta:
  assumes "flate_ok fl" "contract_view n' = contract_view n" "contract_wf n'"
  shows "\<exists>q. restore fl (reverseContractDelta fl p n) n' = Some q \<and> contract_wf q \<and>
    contract_initialized q = contract_initialized n' \<and> contract_view q = contract_view p"
proof -
  obtain q where q: "restore fl (reverseContractDelta fl p n) n' = Some q" "contract_wf q"
      "contract_initialized q = contract_initialized n'"
      "\<And>g. contract_facet q g = (if g \<in> set facet_range then contract_facet p g else contract_facet n' g)"
    using restoreFacets_delta [OF assms(1,2) distinct_facet_range _ assms(3), of p]
    by (auto simp: restore_def set_facet_range)
  then have "contract_view q = contract_view p" by (simp add: contract_view_facets set_facet_range)
  with q show ?thesis by blast
qed

subsection \<open>The history represents the list of published contracts\<close>

definition published_ok :: "contract \<Rightarrow> bool" where
  "published_ok c \<longleftrightarrow> contract_wf c \<and> contract_initialized c"

definition history_rep :: "go_flate \<Rightarrow> contractHistory \<Rightarrow> contract list \<Rightarrow> bool" where
  "history_rep fl h cs \<longleftrightarrow> length h = length cs \<and> list_all published_ok cs \<and>
     (\<forall>i < length cs. entry_fingerprint (h ! i) = fingerprintContract (cs ! i)) \<and>
     (\<forall>i. Suc i < length cs \<longrightarrow>
        entry_previous (h ! Suc i) = reverseContractDelta fl (cs ! i) (cs ! Suc i))"

lemma history_rep_Nil [simp]: "history_rep fl [] cs \<longleftrightarrow> cs = []"
  by (auto simp: history_rep_def)

lemma history_rep_initialize:
  "published_ok c \<Longrightarrow> \<exists>h. history_initialize c [] = Some h \<and> history_rep fl h [c]"
  by (simp add: history_initialize_def history_rep_def)

lemma history_rep_append:
  assumes "history_rep fl h cs" "cs \<noteq> []" "published_ok c"
  shows "\<exists>h'. history_append fl (last cs) c h = Some h' \<and> history_rep fl h' (cs @ [c])"
proof -
  have l: "length h = length cs" "0 < length cs" using assms by (auto simp: history_rep_def)
  have last: "last cs = cs ! (length cs - 1)" using assms(2) by (simp add: last_conv_nth)
  show ?thesis
    using assms l
    by (auto simp: history_append_def history_rep_def nth_append last less_Suc_eq
        dest: arg_cong [of _ "length cs" "\<lambda>n. n - 1"])
qed

lemma fingerprint_view:
  assumes "published_ok c" "published_ok d" "contract_view c = contract_view d"
  shows "fingerprintContract c = fingerprintContract d"
proof -
  have "fingerprintInput c f = fingerprintInput d f" for f
    using contract_view_eqD [OF assms(3), of f] by (simp add: fingerprintInput_def)
  then have "fingerprintInput c = fingerprintInput d" by (rule ext)
  then show ?thesis
    using present_view [of c d] assms by (simp add: fingerprintContract_def published_ok_def)
qed

lemma restoreTo_rep:
  assumes fl: "flate_ok fl" and h: "history_rep fl h cs"
  shows "revision < length cs \<Longrightarrow> index \<le> revision \<Longrightarrow> published_ok c \<Longrightarrow>
    contract_view c = contract_view (cs ! revision) \<Longrightarrow>
    \<exists>q. restoreTo fl h index revision c = Some q \<and> published_ok q \<and> contract_view q = contract_view (cs ! index)"
proof (induction revision arbitrary: c)
  case 0
  then show ?case by (subst restoreTo.simps) auto
next
  case (Suc r)
  show ?case
  proof (cases "index = Suc r")
    case True
    then show ?thesis using Suc.prems by (subst restoreTo.simps) auto
  next
    case False
    have "entry_previous (h ! Suc r) = reverseContractDelta fl (cs ! r) (cs ! Suc r)"
      using h Suc.prems(1) by (simp add: history_rep_def)
    then obtain q where q: "restore fl (entry_previous (h ! Suc r)) c = Some q" "published_ok q"
        "contract_view q = contract_view (cs ! r)"
      using restore_delta [OF fl Suc.prems(4), of "cs ! r"] Suc.prems(3) by (auto simp: published_ok_def)
    with Suc.IH [of q] Suc.prems False show ?thesis by (subst restoreTo.simps) auto
  qed
qed

lemma containsFrom_rep:
  assumes fl: "flate_ok fl" and h: "history_rep fl h cs"
    and cur: "published_ok current" "cs \<noteq> []" "contract_view current = contract_view (last cs)"
    and cand: "published_ok candidate"
  shows "n \<le> length cs \<Longrightarrow> containsFrom fl h current candidate n =
    Some (\<exists>i < n. contract_view (cs ! i) = contract_view candidate)"
proof (induction n)
  case 0
  then show ?case by simp
next
  case (Suc n)
  have ok: "published_ok (cs ! n)" and fp: "entry_fingerprint (h ! n) = fingerprintContract (cs ! n)"
    using h Suc.prems by (auto simp: history_rep_def list_all_length)
  have l: "length h = length cs" using h by (simp add: history_rep_def)
  obtain q where q: "restoreTo fl h n (length h - 1) current = Some q" "published_ok q"
      "contract_view q = contract_view (cs ! n)"
    using restoreTo_rep [OF fl h, of "length h - 1" n current] Suc.prems cur l
    by (cases "length cs") (auto simp: last_conv_nth)
  have eq: "equalArtifactContracts q candidate \<longleftrightarrow> contract_view (cs ! n) = contract_view candidate"
    using q cand by (simp add: published_ok_def equal_contracts)
  have ex: "(\<exists>i < Suc n. contract_view (cs ! i) = contract_view candidate) \<longleftrightarrow>
      contract_view (cs ! n) = contract_view candidate \<or> (\<exists>i < n. contract_view (cs ! i) = contract_view candidate)"
    by (auto simp: less_Suc_eq)
  show ?case
  proof (cases "entry_fingerprint (h ! n) = fingerprintContract candidate")
    case True
    with q eq ex Suc show ?thesis by simp
  next
    case False
    then have "contract_view (cs ! n) \<noteq> contract_view candidate"
      using fp fingerprint_view [OF ok cand] by auto
    with False ex Suc show ?thesis by simp
  qed
qed

lemma history_contains_rep:
  assumes "flate_ok fl" "history_rep fl h cs" "cs \<noteq> []" "published_ok current"
    "contract_view current = contract_view (last cs)" "published_ok candidate"
  shows "history_contains fl h current candidate =
    Some (contract_view candidate \<in> contract_view ` set cs)"
proof -
  have "length h = length cs" using assms(2) by (simp add: history_rep_def)
  moreover have "(\<exists>i < length cs. contract_view (cs ! i) = contract_view candidate) \<longleftrightarrow>
      contract_view candidate \<in> contract_view ` set cs"
    by (metis (no_types, lifting) imageE image_eqI in_set_conv_nth)
  ultimately show ?thesis
    using containsFrom_rep [OF assms(1,2,4,3,5,6), of "length cs"] by (simp add: history_contains_def)
qed

end
