(* ===== verification/BinaryHeap.thy ===== *)
theory BinaryHeap
  imports Prelude
begin

text \<open>
  Array heaps, as lists.  Three places of the program keep one (the dirty queue of the artifact
  graph, the pending-owner queue of the requirement scheduler and the ready heap of the
  declaration order); each sifts an element along parent or child edges of the array.
  \<open>sift_up\<close> and \<open>sift_down\<close> are that movement on a list, by swaps; the lemmas show that they
  restore the heap order that one element may break, and keep the elements.
\<close>

definition swap_at :: "'a list \<Rightarrow> nat \<Rightarrow> nat \<Rightarrow> 'a list" where
  "swap_at xs i j = xs[i := xs ! j, j := xs ! i]"

abbreviation parent_of :: "nat \<Rightarrow> nat" where
  "parent_of i \<equiv> (i - 1) div 2"

lemma parent_of_less: "0 < i \<Longrightarrow> parent_of i < i"
  by simp

fun sift_up :: "('a \<Rightarrow> 'a \<Rightarrow> int) \<Rightarrow> 'a list \<Rightarrow> nat \<Rightarrow> 'a list" where
  "sift_up cmp xs i =
     (if 0 < i \<and> \<not> cmp (xs ! parent_of i) (xs ! i) \<le> 0
      then sift_up cmp (swap_at xs i (parent_of i)) (parent_of i) else xs)"

definition smaller_child :: "('a \<Rightarrow> 'a \<Rightarrow> int) \<Rightarrow> 'a list \<Rightarrow> nat \<Rightarrow> nat" where
  "smaller_child cmp xs i =
     (let left = i * 2 + 1; right = left + 1 in
      if right < length xs \<and> cmp (xs ! right) (xs ! left) < 0 then right else left)"

lemma length_swap_at [simp]: "length (swap_at xs i j) = length xs"
  by (simp add: swap_at_def)

lemma mset_swap_at [simp]: "i < length xs \<Longrightarrow> j < length xs \<Longrightarrow> mset (swap_at xs i j) = mset xs"
  by (simp add: swap_at_def mset_swap)

lemma set_swap_at [simp]: "i < length xs \<Longrightarrow> j < length xs \<Longrightarrow> set (swap_at xs i j) = set xs"
  by (metis mset_swap_at set_mset_mset)

lemma distinct_swap_at [simp]:
  "i < length xs \<Longrightarrow> j < length xs \<Longrightarrow> distinct (swap_at xs i j) = distinct xs"
  by (simp add: swap_at_def)

lemma nth_swap_at:
  "i < length xs \<Longrightarrow> j < length xs \<Longrightarrow> k < length xs \<Longrightarrow>
     swap_at xs i j ! k = (if k = j then xs ! i else if k = i then xs ! j else xs ! k)"
  by (simp add: swap_at_def nth_list_update)

lemma smaller_child_gt: "i < smaller_child cmp xs i"
  by (simp add: smaller_child_def Let_def)

function sift_down :: "('a \<Rightarrow> 'a \<Rightarrow> int) \<Rightarrow> 'a list \<Rightarrow> nat \<Rightarrow> 'a list" where
  "sift_down cmp xs i =
     (if i * 2 + 1 < length xs then
        let selected = smaller_child cmp xs i in
        if cmp (xs ! i) (xs ! selected) \<le> 0 then xs
        else sift_down cmp (swap_at xs i selected) selected
      else xs)"
  by pat_completeness auto
termination
proof (relation "measure (\<lambda>(cmp, xs, i). length xs - i)", goal_cases)
  case 1
  then show ?case by simp
next
  case (2 cmp xs i selected)
  then show ?case using smaller_child_gt [of i cmp xs] by auto
qed

declare sift_up.simps [simp del] sift_down.simps [simp del]

lemma smaller_child_less: "i * 2 + 1 < length xs \<Longrightarrow> smaller_child cmp xs i < length xs"
  by (simp add: smaller_child_def Let_def)

lemma smaller_child_parent: "parent_of (smaller_child cmp xs i) = i"
  by (auto simp: smaller_child_def Let_def)

lemma length_sift_up [simp]: "length (sift_up cmp xs i) = length xs"
proof (induction cmp xs i rule: sift_up.induct)
  case (1 cmp xs i)
  then show ?case by (subst sift_up.simps) auto
qed

lemma length_sift_down [simp]: "length (sift_down cmp xs i) = length xs"
proof (induction cmp xs i rule: sift_down.induct)
  case (1 cmp xs i)
  then show ?case by (subst sift_down.simps) (auto simp: Let_def)
qed

lemma mset_sift_up [simp]: "i < length xs \<Longrightarrow> mset (sift_up cmp xs i) = mset xs"
proof (induction cmp xs i rule: sift_up.induct)
  case (1 cmp xs i)
  then show ?case by (subst sift_up.simps) auto
qed

lemma mset_sift_down [simp]: "i < length xs \<Longrightarrow> mset (sift_down cmp xs i) = mset xs"
proof (induction cmp xs i rule: sift_down.induct)
  case (1 cmp xs i)
  then show ?case
    by (subst sift_down.simps) (auto simp: Let_def smaller_child_less)
qed

definition heap_edge :: "('a \<Rightarrow> 'a \<Rightarrow> int) \<Rightarrow> 'a list \<Rightarrow> nat \<Rightarrow> bool" where
  "heap_edge cmp xs i \<longleftrightarrow> cmp (xs ! parent_of i) (xs ! i) \<le> 0"

definition heap_ok :: "('a \<Rightarrow> 'a \<Rightarrow> int) \<Rightarrow> 'a list \<Rightarrow> bool" where
  "heap_ok cmp xs \<longleftrightarrow> (\<forall>i < length xs. 0 < i \<longrightarrow> heap_edge cmp xs i)"

text \<open>The order with one exception: at the edge above position \<open>k\<close>, or at the edges below it.
  In both cases the parent of \<open>k\<close> is still below the children of \<open>k\<close>.\<close>

definition bridge :: "('a \<Rightarrow> 'a \<Rightarrow> int) \<Rightarrow> 'a list \<Rightarrow> nat \<Rightarrow> bool" where
  "bridge cmp xs k \<longleftrightarrow>
     (\<forall>i < length xs. 0 < i \<longrightarrow> 0 < k \<longrightarrow> parent_of i = k \<longrightarrow> cmp (xs ! parent_of k) (xs ! i) \<le> 0)"

definition heap_but_up :: "('a \<Rightarrow> 'a \<Rightarrow> int) \<Rightarrow> 'a list \<Rightarrow> nat \<Rightarrow> bool" where
  "heap_but_up cmp xs k \<longleftrightarrow>
     (\<forall>i < length xs. 0 < i \<longrightarrow> i \<noteq> k \<longrightarrow> heap_edge cmp xs i) \<and> bridge cmp xs k"

definition heap_but_down :: "('a \<Rightarrow> 'a \<Rightarrow> int) \<Rightarrow> 'a list \<Rightarrow> nat \<Rightarrow> bool" where
  "heap_but_down cmp xs k \<longleftrightarrow>
     (\<forall>i < length xs. 0 < i \<longrightarrow> parent_of i \<noteq> k \<longrightarrow> heap_edge cmp xs i) \<and> bridge cmp xs k"

lemma heap_ok_Nil [simp]: "heap_ok cmp []"
  by (simp add: heap_ok_def)

lemma heap_but_up_done:
  "heap_but_up cmp xs k \<Longrightarrow> k = 0 \<or> heap_edge cmp xs k \<Longrightarrow> heap_ok cmp xs"
  by (auto simp: heap_but_up_def heap_ok_def)

context compare_preorder
begin

lemma sift_up_step:
  assumes h: "heap_but_up cmp xs k" and k: "0 < k" "k < length xs"
    and gt: "\<not> cmp (xs ! parent_of k) (xs ! k) \<le> 0"
  shows "heap_but_up cmp (swap_at xs k (parent_of k)) (parent_of k)"
proof -
  let ?p = "parent_of k"
  have p: "?p < k" "?p < length xs" using k by auto
  have lt: "cmp (xs ! k) (xs ! ?p) < 0" using gt by (simp only: cmp_not_le)
  have edge: "cmp (xs ! parent_of i) (xs ! i) \<le> 0" if "i < length xs" "0 < i" "i \<noteq> k" for i
    using h that by (auto simp: heap_but_up_def heap_edge_def)
  have br: "cmp (xs ! ?p) (xs ! i) \<le> 0" if "i < length xs" "0 < i" "parent_of i = k" for i
    using h that k by (auto simp: heap_but_up_def bridge_def)
  have nth: "swap_at xs k ?p ! i = (if i = ?p then xs ! k else if i = k then xs ! ?p else xs ! i)"
    if "i < length xs" for i
    using nth_swap_at [OF k(2) p(2) that] by simp
  have below: "cmp (xs ! ?p) (swap_at xs k ?p ! i) \<le> 0"
    if "i < length xs" "0 < i" "parent_of i = ?p" for i
  proof -
    have "i \<noteq> ?p" using that p by (cases k) auto
    then show ?thesis
      using edge [of i] nth [of i] that cmp_refl [of "xs ! ?p"] by (cases "i = k") auto
  qed
  have 1: "heap_edge cmp (swap_at xs k ?p) i" if i: "i < length xs" "0 < i" "i \<noteq> ?p" for i
  proof -
    have "parent_of i < length xs" using i by auto
    note n = nth [OF this] nth [OF i(1)]
    consider "i = k" | "i \<noteq> k" "parent_of i = k" | "i \<noteq> k" "parent_of i = ?p"
      | "i \<noteq> k" "parent_of i \<noteq> k" "parent_of i \<noteq> ?p" by blast
    then show ?thesis
    proof cases
      case 1
      then show ?thesis using lt n p by (auto simp: heap_edge_def)
    next
      case 2
      then show ?thesis using br [of i] n i p by (auto simp: heap_edge_def)
    next
      case 3
      then show ?thesis using cmp_less_trans [OF lt edge [of i, unfolded 3]] n i
        by (auto simp: heap_edge_def)
    next
      case 4
      then show ?thesis using edge [of i] n i by (auto simp: heap_edge_def)
    qed
  qed
  have 2: "bridge cmp (swap_at xs k ?p) ?p"
    unfolding bridge_def
  proof (intro allI impI)
    fix i assume i: "i < length (swap_at xs k ?p)" "0 < i" "0 < ?p" "parent_of i = ?p"
    have q: "parent_of ?p < ?p" using i(3) by (rule parent_of_less)
    have "parent_of ?p < length xs" "parent_of ?p \<noteq> ?p" "parent_of ?p \<noteq> k"
      using q p by linarith+
    then have n: "swap_at xs k ?p ! parent_of ?p = xs ! parent_of ?p" using nth by simp
    have e: "cmp (xs ! parent_of ?p) (xs ! ?p) \<le> 0" using edge [of ?p] i p by simp
    have "cmp (xs ! ?p) (swap_at xs k ?p ! i) \<le> 0" using below [of i] i by simp
    from cmp_trans [OF e this]
    show "cmp (swap_at xs k ?p ! parent_of ?p) (swap_at xs k ?p ! i) \<le> 0" by (simp only: n)
  qed
  from 1 2 show ?thesis by (simp add: heap_but_up_def)
qed

lemma heap_ok_sift_up:
  "heap_but_up cmp xs k \<Longrightarrow> k < length xs \<Longrightarrow> heap_ok cmp (sift_up cmp xs k)"
proof (induction k arbitrary: xs rule: less_induct)
  case (less k)
  show ?case
  proof (cases "0 < k \<and> \<not> cmp (xs ! parent_of k) (xs ! k) \<le> 0")
    case True
    then have "heap_but_up cmp (swap_at xs k (parent_of k)) (parent_of k)"
      using sift_up_step less.prems by blast
    then have "heap_ok cmp (sift_up cmp (swap_at xs k (parent_of k)) (parent_of k))"
      using True less.prems by (intro less.IH) auto
    with True show ?thesis by (subst sift_up.simps) simp
  next
    case False
    with less.prems have "heap_ok cmp xs"
      by (intro heap_but_up_done [of _ _ k]) (auto simp: heap_edge_def)
    then show ?thesis by (simp only: sift_up.simps [of cmp xs k] if_not_P [OF False])
  qed
qed

lemma smaller_child_le:
  assumes "k * 2 + 1 < length xs" "i < length xs" "0 < i" "parent_of i = k"
  shows "cmp (xs ! smaller_child cmp xs k) (xs ! i) \<le> 0"
proof -
  have "i = k * 2 + 1 \<or> i = k * 2 + 2" using assms(3,4) by (cases i) auto
  then show ?thesis
    using assms cmp_refl cmp_total [of "xs ! (k * 2 + 1)" "xs ! (k * 2 + 2)"]
      cmp_not_le [of "xs ! (k * 2 + 1)" "xs ! (k * 2 + 2)"]
    by (auto simp: smaller_child_def Let_def numeral_2_eq_2 dest: cmp_less_le)
qed

lemma sift_down_step:
  assumes h: "heap_but_down cmp xs k" and k: "k * 2 + 1 < length xs"
    and gt: "\<not> cmp (xs ! k) (xs ! smaller_child cmp xs k) \<le> 0"
  shows "heap_but_down cmp (swap_at xs k (smaller_child cmp xs k)) (smaller_child cmp xs k)"
proof -
  let ?c = "smaller_child cmp xs k"
  have c: "k < ?c" "?c < length xs" "parent_of ?c = k" "0 < ?c"
    using smaller_child_gt [of k cmp xs] smaller_child_less [OF k, of cmp]
      smaller_child_parent [of cmp xs k] by auto
  have lt: "cmp (xs ! ?c) (xs ! k) < 0" using gt by (simp only: cmp_not_le)
  have edge: "cmp (xs ! parent_of i) (xs ! i) \<le> 0" if "i < length xs" "0 < i" "parent_of i \<noteq> k" for i
    using h that by (auto simp: heap_but_down_def heap_edge_def)
  have br: "cmp (xs ! parent_of k) (xs ! i) \<le> 0"
    if "i < length xs" "0 < i" "parent_of i = k" "0 < k" for i
    using h that by (auto simp: heap_but_down_def bridge_def)
  have nth: "swap_at xs k ?c ! i = (if i = ?c then xs ! k else if i = k then xs ! ?c else xs ! i)"
    if "i < length xs" for i
    using nth_swap_at [of k xs ?c i] k c(2) that by simp
  have 1: "heap_edge cmp (swap_at xs k ?c) i" if i: "i < length xs" "0 < i" "parent_of i \<noteq> ?c" for i
  proof -
    have "parent_of i < length xs" using i by auto
    note n = nth [OF this] nth [OF i(1)]
    consider "i = ?c" | "i = k" | "i \<noteq> ?c" "i \<noteq> k" "parent_of i = k"
      | "i \<noteq> ?c" "i \<noteq> k" "parent_of i \<noteq> k" by blast
    then show ?thesis
    proof cases
      case 1
      then show ?thesis using lt n c by (auto simp: heap_edge_def)
    next
      case 2
      then have "parent_of i \<noteq> k" using i by (cases k) auto
      then show ?thesis using br [of ?c] n i c 2 by (auto simp: heap_edge_def)
    next
      case 3
      then show ?thesis using smaller_child_le [OF k i(1,2) 3(3)] n i c by (auto simp: heap_edge_def)
    next
      case 4
      then show ?thesis using edge [of i] n i by (auto simp: heap_edge_def)
    qed
  qed
  have 2: "bridge cmp (swap_at xs k ?c) ?c"
    unfolding bridge_def
  proof (intro allI impI)
    fix i assume i: "i < length (swap_at xs k ?c)" "0 < i" "0 < ?c" "parent_of i = ?c"
    have "i \<noteq> ?c" "i \<noteq> k" using i c by (cases "?c"; auto)+
    then have "swap_at xs k ?c ! i = xs ! i" "swap_at xs k ?c ! parent_of ?c = xs ! ?c"
      using nth [of i] nth [of k] i c k by auto
    moreover have "cmp (xs ! ?c) (xs ! i) \<le> 0" using edge [of i] i c by simp
    ultimately show "cmp (swap_at xs k ?c ! parent_of ?c) (swap_at xs k ?c ! i) \<le> 0" by simp
  qed
  from 1 2 show ?thesis by (simp add: heap_but_down_def)
qed

lemma heap_but_down_done:
  assumes h: "heap_but_down cmp xs k"
    and stop: "\<And>i. i < length xs \<Longrightarrow> 0 < i \<Longrightarrow> parent_of i = k \<Longrightarrow> cmp (xs ! k) (xs ! i) \<le> 0"
  shows "heap_ok cmp xs"
  unfolding heap_ok_def heap_edge_def
proof (intro allI impI)
  fix i assume i: "i < length xs" "0 < i"
  show "cmp (xs ! parent_of i) (xs ! i) \<le> 0"
    using h stop [OF i] i by (cases "parent_of i = k") (auto simp: heap_but_down_def heap_edge_def)
qed

lemma heap_ok_sift_down: "heap_but_down cmp xs k \<Longrightarrow> heap_ok cmp (sift_down cmp xs k)"
proof (induction "length xs - k" arbitrary: xs k rule: less_induct)
  case less
  show ?case
  proof (cases "k * 2 + 1 < length xs")
    case False
    then have "heap_ok cmp xs"
      using less.prems by (intro heap_but_down_done) auto
    with False show ?thesis by (subst sift_down.simps) simp
  next
    case in_range: True
    show ?thesis
    proof (cases "cmp (xs ! k) (xs ! smaller_child cmp xs k) \<le> 0")
      case True
      then have "heap_ok cmp xs"
        using less.prems smaller_child_le [OF in_range] cmp_trans
        by (intro heap_but_down_done) blast+
      with in_range True show ?thesis by (subst sift_down.simps) (simp add: Let_def)
    next
      case False
      have "heap_ok cmp (sift_down cmp (swap_at xs k (smaller_child cmp xs k)) (smaller_child cmp xs k))"
        using in_range smaller_child_gt [of k cmp xs] smaller_child_less [OF in_range]
          sift_down_step [OF less.prems in_range False]
        by (intro less.hyps) auto
      with in_range False show ?thesis by (subst sift_down.simps) (simp add: Let_def)
    qed
  qed
qed

text \<open>The three situations an array heap operation leaves to a sift.\<close>

lemma heap_but_up_append:
  "heap_ok cmp xs \<Longrightarrow> heap_but_up cmp (xs @ [x]) (length xs)"
  by (auto simp: heap_ok_def heap_but_up_def bridge_def heap_edge_def nth_append)

lemma heap_ok_butlast: "heap_ok cmp xs \<Longrightarrow> heap_ok cmp (butlast xs)"
  by (auto simp: heap_ok_def heap_edge_def nth_butlast)

lemma heap_replace:
  assumes h: "heap_ok cmp xs" and k: "k < length xs"
  shows "0 < k \<Longrightarrow> cmp x (xs ! parent_of k) \<le> 0 \<Longrightarrow> heap_but_up cmp (xs[k := x]) k"
    and "k = 0 \<or> cmp (xs ! parent_of k) x \<le> 0 \<Longrightarrow> heap_but_down cmp (xs[k := x]) k"
proof -
  have edge: "cmp (xs ! parent_of i) (xs ! i) \<le> 0" if "i < length xs" "0 < i" for i
    using h that by (auto simp: heap_ok_def heap_edge_def)
  have nk: "parent_of i \<noteq> i" if "0 < i" for i using that by (cases i) auto
  have "bridge cmp (xs[k := x]) k"
    unfolding bridge_def
  proof (intro allI impI)
    fix i assume i: "i < length (xs[k := x])" "0 < i" "0 < k" "parent_of i = k"
    then have "xs[k := x] ! i = xs ! i" "xs[k := x] ! parent_of k = xs ! parent_of k"
      using nk [of i] nk [of k] by auto
    then show "cmp (xs[k := x] ! parent_of k) (xs[k := x] ! i) \<le> 0"
      using edge [of i] edge [of k] i k cmp_trans [of "xs ! parent_of k" "xs ! k" "xs ! i"] by simp
  qed
  note br = this
  show "heap_but_up cmp (xs[k := x]) k" if "0 < k" "cmp x (xs ! parent_of k) \<le> 0"
    unfolding heap_but_up_def heap_edge_def
  proof (intro conjI allI impI)
    fix i assume i: "i < length (xs[k := x])" "0 < i" "i \<noteq> k"
    show "cmp (xs[k := x] ! parent_of i) (xs[k := x] ! i) \<le> 0"
    proof (cases "parent_of i = k")
      case True
      then have "cmp (xs ! parent_of k) (xs ! i) \<le> 0"
        using edge [of i] edge [of k] i k that cmp_trans [of "xs ! parent_of k" "xs ! k" "xs ! i"]
        by simp
      then have "cmp x (xs ! i) \<le> 0" using that(2) cmp_trans by blast
      then show ?thesis using True i k by simp
    next
      case False
      then show ?thesis using edge [of i] i by simp
    qed
  qed (rule br)
  show "heap_but_down cmp (xs[k := x]) k" if "k = 0 \<or> cmp (xs ! parent_of k) x \<le> 0"
    unfolding heap_but_down_def heap_edge_def
  proof (intro conjI allI impI)
    fix i assume i: "i < length (xs[k := x])" "0 < i" "parent_of i \<noteq> k"
    show "cmp (xs[k := x] ! parent_of i) (xs[k := x] ! i) \<le> 0"
      using edge [of i] i that k nk [of k] by (cases "i = k") auto
  qed (rule br)
qed

lemma heap_ok_root: "heap_ok cmp xs \<Longrightarrow> i < length xs \<Longrightarrow> cmp (xs ! 0) (xs ! i) \<le> 0"
proof (induction i rule: less_induct)
  case (less i)
  show ?case
  proof (cases "i = 0")
    case True
    then show ?thesis by (simp add: cmp_refl)
  next
    case False
    then have "cmp (xs ! 0) (xs ! parent_of i) \<le> 0" using less by auto
    moreover have "cmp (xs ! parent_of i) (xs ! i) \<le> 0"
      using less.prems False by (auto simp: heap_ok_def heap_edge_def)
    ultimately show ?thesis by (rule cmp_trans)
  qed
qed

lemma heap_ok_root_le: "heap_ok cmp xs \<Longrightarrow> y \<in> set xs \<Longrightarrow> cmp (xs ! 0) y \<le> 0"
  by (metis heap_ok_root in_set_conv_nth)

end

end
