(* ===== verification/Ordering.thy ===== *)
theory Ordering
  imports Owners
begin

text \<open>
  The compilation's ordering owner (\<open>internal/emit/ordering/owner.go\<close>): comparators on
  strings, basic kinds, objects and artifact owners.  \<open>types.TypeString\<close> is a parameter
  \<open>typeString\<close>, as it already is in \<open>compareObjects\<close>; no law of it is needed.
\<close>

definition compareStrings :: "string \<Rightarrow> string \<Rightarrow> int" where
  "compareStrings left right = (if left < right then -1 else if left > right then 1 else 0)"

definition compareInts :: "int \<Rightarrow> int \<Rightarrow> int" where
  "compareInts left right = (if left < right then -1 else if left > right then 1 else 0)"

definition CompareBasicKinds :: "nat \<Rightarrow> nat \<Rightarrow> int" where
  "CompareBasicKinds left right = (if left < right then -1 else if left > right then 1 else 0)"

definition typeStringOrEmpty :: "type_ref option \<Rightarrow> (type_ref \<Rightarrow> string) \<Rightarrow> string" where
  "typeStringOrEmpty source typeString = (case source of None \<Rightarrow> '''' | Some t \<Rightarrow> typeString t)"

fun receiverType :: "object_kind \<Rightarrow> type_ref option" where
  "receiverType (FuncObject receiver) = receiver"
| "receiverType _ = None"

fun objectKindOrder :: "object_kind \<Rightarrow> int" where
  "objectKindOrder PkgNameObject = 1"
| "objectKindOrder ConstObject = 2"
| "objectKindOrder TypeNameObject = 3"
| "objectKindOrder VarObject = 4"
| "objectKindOrder (FuncObject _) = 5"
| "objectKindOrder LabelObject = 6"
| "objectKindOrder BuiltinObject = 7"
| "objectKindOrder NilObject = 8"
| "objectKindOrder OtherObject = 9"

definition packagePathOrEmpty :: "go_object \<Rightarrow> string" where
  "packagePathOrEmpty x = (case object_package x of None \<Rightarrow> '''' | Some p \<Rightarrow> package_path p)"

definition compareObjects ::
    "(type_ref \<Rightarrow> string) \<Rightarrow> go_object option \<Rightarrow> go_object option \<Rightarrow> int" where
  "compareObjects typeString left right =
     (if left = right then 0
      else case (left, right) of
        (None, Some _) \<Rightarrow> -1
      | (Some _, None) \<Rightarrow> 1
      | (None, None) \<Rightarrow> 0
      | (Some l, Some r) \<Rightarrow>
          let order = compareStrings (packagePathOrEmpty l) (packagePathOrEmpty r) in
          if order \<noteq> 0 then order else
          let order = compareInts (objectKindOrder (object_kind l)) (objectKindOrder (object_kind r)) in
          if order \<noteq> 0 then order else
          let leftReceiver = receiverType (object_kind l); rightReceiver = receiverType (object_kind r);
              order = (if leftReceiver \<noteq> None \<or> rightReceiver \<noteq> None
                       then compareStrings (typeStringOrEmpty leftReceiver typeString)
                              (typeStringOrEmpty rightReceiver typeString)
                       else 0) in
          if order \<noteq> 0 then order else
          let order = compareStrings (object_name l) (object_name r) in
          if order \<noteq> 0 then order else
          let order = (if object_type l \<noteq> None \<or> object_type r \<noteq> None
                       then compareStrings (typeStringOrEmpty (object_type l) typeString)
                              (typeStringOrEmpty (object_type r) typeString)
                       else 0) in
          if order \<noteq> 0 then order
          else if object_pos l < object_pos r then -1
          else if object_pos l > object_pos r then 1
          else 0)"

text \<open>\<open>CompareArtifactOwners\<close>: sources, then initializers, then assemblies, then the rest.\<close>

definition compareInitializers ::
    "go_package option \<times> initializer \<Rightarrow> go_package option \<times> initializer \<Rightarrow> int" where
  "compareInitializers left right =
     (let path = (\<lambda>p. case fst p of None \<Rightarrow> '''' | Some q \<Rightarrow> package_path q);
          pos = (\<lambda>p. case initializer_rhs (snd p) of None \<Rightarrow> 0 | Some n \<Rightarrow> n) in
      if path left < path right then -1
      else if path left > path right then 1
      else if pos left < pos right then -1
      else if pos left > pos right then 1
      else 0)"

definition compareGenerated :: "generated_artifact \<Rightarrow> generated_artifact \<Rightarrow> int" where
  "compareGenerated left right =
     (if generated_kind left < generated_kind right then -1
      else if generated_kind left > generated_kind right then 1
      else if generated_key left < generated_key right then -1
      else if generated_key left > generated_key right then 1
      else 0)"

definition CompareArtifactOwners ::
    "(type_ref \<Rightarrow> string) \<Rightarrow> artifact_owner \<Rightarrow> artifact_owner \<Rightarrow> int" where
  "CompareArtifactOwners typeString left right =
     (if left = right then 0
      else case (owner_Source left, owner_Source right) of
        (Some l, Some r) \<Rightarrow> compareObjects typeString (Some l) (Some r)
      | (Some _, None) \<Rightarrow> -1
      | (None, Some _) \<Rightarrow> 1
      | (None, None) \<Rightarrow>
      (case (owner_PackageInitializer left, owner_PackageInitializer right) of
        (Some l, Some r) \<Rightarrow> compareInitializers l r
      | (Some _, None) \<Rightarrow> -1
      | (None, Some _) \<Rightarrow> 1
      | (None, None) \<Rightarrow>
      (case (owner_PackageAssembly left, owner_PackageAssembly right) of
        (Some l, Some r) \<Rightarrow>
          (if package_path l < package_path r then -1
           else if package_path l > package_path r then 1
           else 0)
      | (Some _, None) \<Rightarrow> -1
      | (None, Some _) \<Rightarrow> 1
      | (None, None) \<Rightarrow>
      (case (owner_Generated left, owner_Generated right) of
        (Some l, Some r) \<Rightarrow> compareGenerated l r
      | (Some _, None) \<Rightarrow> 1
      | (None, Some _) \<Rightarrow> -1
      | (None, None) \<Rightarrow> 0))))"

subsection \<open>The comparators are total preorders\<close>

text \<open>
  Each comparator compares a key lexicographically: \<open>objectKey\<close> and \<open>ownerKey\<close> are those
  keys, and the lemmas below say that the nested conditionals compute the comparison of keys.
\<close>

type_synonym object_key = "string \<times> int \<times> string \<times> string \<times> string \<times> int"

definition objectKey :: "(type_ref \<Rightarrow> string) \<Rightarrow> go_object \<Rightarrow> object_key" where
  "objectKey typeString x =
     (packagePathOrEmpty x, objectKindOrder (object_kind x),
      typeStringOrEmpty (receiverType (object_kind x)) typeString, object_name x,
      typeStringOrEmpty (object_type x) typeString, object_pos x)"

definition compareObjectKeys :: "object_key \<Rightarrow> object_key \<Rightarrow> int" where
  "compareObjectKeys a b =
     (case (a, b) of ((a1, a2, a3, a4, a5, a6), (b1, b2, b3, b4, b5, b6)) \<Rightarrow>
        cmp_then (ord_cmp a1 b1) (cmp_then (ord_cmp a2 b2) (cmp_then (ord_cmp a3 b3)
          (cmp_then (ord_cmp a4 b4) (cmp_then (ord_cmp a5 b5) (ord_cmp a6 b6))))))"

lemma compareStrings_ord [simp]: "compareStrings = ord_cmp"
  by (intro ext) (simp add: compareStrings_def ord_cmp_def)

lemma compareInts_ord [simp]: "compareInts = ord_cmp"
  by (intro ext) (simp add: compareInts_def ord_cmp_def)

lemma CompareBasicKinds_ord [simp]: "CompareBasicKinds = ord_cmp"
  by (intro ext) (simp add: CompareBasicKinds_def ord_cmp_def)

lemma compareObjectKeys_refl [simp]: "compareObjectKeys a a = 0"
  by (simp add: compareObjectKeys_def cmp_then_def split: prod.split)

lemma compareObjects_key:
  "compareObjects ts (Some l) (Some r) = compareObjectKeys (objectKey ts l) (objectKey ts r)"
proof (cases "l = r")
  case True
  then show ?thesis by (simp add: compareObjects_def)
next
  case False
  have e: "(if a \<noteq> None \<or> b \<noteq> None
      then ord_cmp (typeStringOrEmpty a ts) (typeStringOrEmpty b ts) else 0)
    = ord_cmp (typeStringOrEmpty a ts) (typeStringOrEmpty b ts)" for a b
    by (auto simp: typeStringOrEmpty_def)
  have p: "(if object_pos l < object_pos r then -1 else if object_pos r < object_pos l then 1 else 0)
    = ord_cmp (object_pos l) (object_pos r)"
    by (simp add: ord_cmp_def)
  show ?thesis
    unfolding compareObjects_def compareObjectKeys_def objectKey_def compareStrings_ord compareInts_ord
      prod.case option.case Let_def e p cmp_then_def
    using False by (simp only: option.inject if_False simp_thms)
qed

lemma compareObjectKeys_preorder: "compare_preorder (\<lambda>x y. compareObjectKeys (f x) (f y))"
proof -
  have "compareObjectKeys (f x) (f y) =
    cmp_then (ord_cmp (fst (f x)) (fst (f y)))
     (cmp_then (ord_cmp (fst (snd (f x))) (fst (snd (f y))))
     (cmp_then (ord_cmp (fst (snd (snd (f x)))) (fst (snd (snd (f y)))))
     (cmp_then (ord_cmp (fst (snd (snd (snd (f x))))) (fst (snd (snd (snd (f y))))))
     (cmp_then (ord_cmp (fst (snd (snd (snd (snd (f x)))))) (fst (snd (snd (snd (snd (f y)))))))
       (ord_cmp (snd (snd (snd (snd (snd (f x)))))) (snd (snd (snd (snd (snd (f y)))))))))))" for x y
    by (simp add: compareObjectKeys_def split: prod.split)
  then show ?thesis
    by (simp only:) (intro compare_preorder_lex compare_preorder_ord_key)
qed

datatype owner_key =
  is_source: SourceKey object_key | InitializerKey string int | AssemblyKey string | NoKey
  | GeneratedKey nat string

fun owner_key_rank :: "owner_key \<Rightarrow> nat" where
  "owner_key_rank (SourceKey _) = 0"
| "owner_key_rank (InitializerKey _ _) = 1"
| "owner_key_rank (AssemblyKey _) = 2"
| "owner_key_rank NoKey = 3"
| "owner_key_rank (GeneratedKey _ _) = 4"

fun owner_key_object :: "owner_key \<Rightarrow> object_key" where
  "owner_key_object (SourceKey k) = k"
| "owner_key_object _ = ('''', 0, '''', '''', '''', 0)"

fun owner_key_string :: "owner_key \<Rightarrow> string" where
  "owner_key_string (InitializerKey s _) = s"
| "owner_key_string (AssemblyKey s) = s"
| "owner_key_string _ = ''''"

fun owner_key_number :: "owner_key \<Rightarrow> int" where
  "owner_key_number (InitializerKey _ n) = n"
| "owner_key_number (GeneratedKey n _) = int n"
| "owner_key_number _ = 0"

fun owner_key_last :: "owner_key \<Rightarrow> string" where
  "owner_key_last (GeneratedKey _ s) = s"
| "owner_key_last _ = ''''"

definition compareOwnerKeys :: "owner_key \<Rightarrow> owner_key \<Rightarrow> int" where
  "compareOwnerKeys a b =
     cmp_then (ord_cmp (owner_key_rank a) (owner_key_rank b))
      (cmp_then (compareObjectKeys (owner_key_object a) (owner_key_object b))
      (cmp_then (ord_cmp (owner_key_string a) (owner_key_string b))
      (cmp_then (ord_cmp (owner_key_number a) (owner_key_number b))
        (ord_cmp (owner_key_last a) (owner_key_last b)))))"

definition ownerKey :: "(type_ref \<Rightarrow> string) \<Rightarrow> artifact_owner \<Rightarrow> owner_key" where
  "ownerKey ts w =
     (case owner_Source w of Some s \<Rightarrow> SourceKey (objectKey ts s)
      | None \<Rightarrow> case owner_PackageInitializer w of
          Some (p, i) \<Rightarrow> InitializerKey (case p of None \<Rightarrow> '''' | Some q \<Rightarrow> package_path q)
            (case initializer_rhs i of None \<Rightarrow> 0 | Some n \<Rightarrow> n)
      | None \<Rightarrow> case owner_PackageAssembly w of Some p \<Rightarrow> AssemblyKey (package_path p)
      | None \<Rightarrow> case owner_Generated w of Some g \<Rightarrow> GeneratedKey (generated_kind g) (generated_key g)
      | None \<Rightarrow> NoKey)"

lemma compareOwnerKeys_refl [simp]: "compareOwnerKeys a a = 0"
  by (simp add: compareOwnerKeys_def cmp_then_def)

lemma compareInitializers_ord:
  "compareInitializers l r = cmp_then
     (ord_cmp (case fst l of None \<Rightarrow> '''' | Some q \<Rightarrow> package_path q)
        (case fst r of None \<Rightarrow> '''' | Some q \<Rightarrow> package_path q))
     (ord_cmp (case initializer_rhs (snd l) of None \<Rightarrow> 0 | Some n \<Rightarrow> n)
        (case initializer_rhs (snd r) of None \<Rightarrow> 0 | Some n \<Rightarrow> n))"
  by (simp add: compareInitializers_def cmp_then_def ord_cmp_def Let_def)

lemma compareGenerated_ord:
  "compareGenerated l r = cmp_then (ord_cmp (int (generated_kind l)) (int (generated_kind r)))
     (ord_cmp (generated_key l) (generated_key r))"
  by (simp add: compareGenerated_def cmp_then_def ord_cmp_def)

lemma CompareArtifactOwners_key:
  "CompareArtifactOwners ts l r = compareOwnerKeys (ownerKey ts l) (ownerKey ts r)"
proof (cases "l = r")
  case True
  then show ?thesis by (simp add: CompareArtifactOwners_def)
next
  case False
  have a: "(if a < b then -1 else if b < a then 1 else 0) = ord_cmp a b" for a b :: string
    by (simp add: ord_cmp_def)
  have c: "cmp_then 0 x = x" "cmp_then x 0 = x" "cmp_then (-1) x = -1" "cmp_then 1 x = 1" for x
    by (simp_all add: cmp_then_def)
  have o: "ord_cmp x x = 0" for x :: "'b::linorder"
    by simp
  show ?thesis
    unfolding CompareArtifactOwners_def if_not_P [OF False] compareObjects_key a
      ownerKey_def compareInitializers_ord compareGenerated_ord
    by (auto simp: compareOwnerKeys_def c ord_cmp_def split: option.splits prod.splits)
qed

lemma CompareArtifactOwners_preorder: "compare_preorder (CompareArtifactOwners ts)"
proof -
  have "compare_preorder (\<lambda>x y. compareOwnerKeys (ownerKey ts x) (ownerKey ts y))"
    unfolding compareOwnerKeys_def
    by (intro compare_preorder_lex compare_preorder_ord_key compareObjectKeys_preorder)
  then show ?thesis
    by (simp add: CompareArtifactOwners_key [abs_def])
qed

interpretation owner_order: compare_preorder "CompareArtifactOwners ts"
  by (rule CompareArtifactOwners_preorder)

end
