(* ===== verification/OwnerQueue.thy ===== *)
theory OwnerQueue
  imports BinaryHeap Ordering
begin

text \<open>
  The dirty queue of the artifact graph (\<open>internal/emit/artifact/dirty_queue.go\<close>): an array
  heap of distinct owners with an index from every owner to its position, so that a pending
  owner is never queued twice and can be discarded from the middle.

  \<open>queue_inv\<close> is its representation invariant.  The interfaces \<open>min_queue\<close>,
  \<open>set_queue\<close> and \<open>bag_queue\<close> state what a client of a queue may rely on; the queue is an
  instance, with the multiset of its owners as abstract content.
\<close>

subsection \<open>Interfaces\<close>

locale min_queue = compare_preorder cmp
  for cmp :: "'o \<Rightarrow> 'o \<Rightarrow> int" +
  fixes empty :: 'q
    and push :: "'o \<Rightarrow> 'q \<Rightarrow> 'q"
    and pop :: "'q \<Rightarrow> 'o option \<times> 'q"
    and pending :: "'q \<Rightarrow> bool"
    and content :: "'q \<Rightarrow> 'o multiset"
    and inv :: "'q \<Rightarrow> bool"
  assumes inv_empty: "inv empty"
    and content_empty: "content empty = {#}"
    and inv_push: "inv q \<Longrightarrow> inv (push x q)"
    and pending_iff: "inv q \<Longrightarrow> pending q \<longleftrightarrow> content q \<noteq> {#}"
    and pop_empty: "inv q \<Longrightarrow> content q = {#} \<Longrightarrow> pop q = (None, q)"
    and pop_min: "inv q \<Longrightarrow> content q \<noteq> {#} \<Longrightarrow>
       \<exists>x q'. pop q = (Some x, q') \<and> inv q' \<and> content q = add_mset x (content q') \<and>
         (\<forall>y \<in># content q. cmp x y \<le> 0)"
begin

text \<open>Popping a number of times collects the owners that come out.\<close>

fun drain :: "nat \<Rightarrow> 'q \<Rightarrow> 'o list" where
  "drain 0 q = []"
| "drain (Suc n) q = (case pop q of (None, _) \<Rightarrow> [] | (Some x, q') \<Rightarrow> x # drain n q')"

lemma pop_some:
  assumes "inv q" "pop q = (Some x, q')"
  shows "inv q' \<and> content q = add_mset x (content q') \<and> (\<forall>y \<in># content q. cmp x y \<le> 0)"
  using assms pop_empty [of q] pop_min [of q] by (cases "content q = {#}") auto

lemma pop_none: "inv q \<Longrightarrow> pop q = (None, q') \<Longrightarrow> content q = {#} \<and> q' = q"
  using pop_empty [of q] pop_min [of q] by (cases "content q = {#}") auto

lemma drain_all:
  "inv q \<Longrightarrow> size (content q) \<le> n \<Longrightarrow>
     mset (drain n q) = content q \<and> sorted_wrt (\<lambda>x y. cmp x y \<le> 0) (drain n q)"
proof (induction n arbitrary: q)
  case 0
  then show ?case by simp
next
  case (Suc n)
  show ?case
  proof (cases "content q = {#}")
    case True
    with Suc.prems show ?thesis by (simp add: pop_empty)
  next
    case False
    then obtain x q' where pop: "pop q = (Some x, q')" and inv: "inv q'"
      and c: "content q = add_mset x (content q')" and le: "\<forall>y \<in># content q. cmp x y \<le> 0"
      using pop_min [OF Suc.prems(1)] by blast
    have ih: "mset (drain n q') = content q' \<and> sorted_wrt (\<lambda>x y. cmp x y \<le> 0) (drain n q')"
      using Suc.prems(2) c inv by (intro Suc.IH) auto
    then have "set (drain n q') = set_mset (content q')" by (metis set_mset_mset)
    with ih pop c le show ?thesis by simp
  qed
qed

end

locale set_queue = min_queue +
  assumes content_push: "inv q \<Longrightarrow>
    content (push x q) = (if x \<in># content q then content q else add_mset x (content q))"
begin

lemma set_content_push: "inv q \<Longrightarrow> set_mset (content (push x q)) = insert x (set_mset (content q))"
  by (simp add: content_push insert_absorb)

end

locale bag_queue = min_queue +
  assumes content_push: "inv q \<Longrightarrow> content (push x q) = add_mset x (content q)"
begin

lemma set_content_push: "inv q \<Longrightarrow> set_mset (content (push x q)) = insert x (set_mset (content q))"
  by (simp add: content_push)

end

subsection \<open>The dirty queue\<close>

record 'o owner_queue =
  queue_owners :: "'o list"
  queue_indices :: "('o, nat) gomap"
  queue_compare :: "'o \<Rightarrow> 'o \<Rightarrow> int"

definition newArtifactOwnerQueue :: "('o \<Rightarrow> 'o \<Rightarrow> int) \<Rightarrow> 'o owner_queue" where
  "newArtifactOwnerQueue compare =
     \<lparr>queue_owners = [], queue_indices = [], queue_compare = compare\<rparr>"

definition queue_swap :: "'o owner_queue \<Rightarrow> nat \<Rightarrow> nat \<Rightarrow> 'o owner_queue" where
  "queue_swap q left right =
     (let owners = (queue_owners q)[left := queue_owners q ! right, right := queue_owners q ! left];
          indices = gm_put (owners ! left) left (queue_indices q);
          indices = gm_put (owners ! right) right indices
      in q\<lparr>queue_owners := owners, queue_indices := indices\<rparr>)"

fun moveUp :: "'o owner_queue \<Rightarrow> nat \<Rightarrow> 'o owner_queue" where
  "moveUp q index =
     (if 0 < index then
        let parent = (index - 1) div 2 in
        if queue_compare q (queue_owners q ! parent) (queue_owners q ! index) \<le> 0 then q
        else moveUp (queue_swap q index parent) parent
      else q)"

lemma length_queue_swap [simp]: "length (queue_owners (queue_swap q i j)) = length (queue_owners q)"
  by (simp add: queue_swap_def Let_def)

function moveDown :: "'o owner_queue \<Rightarrow> nat \<Rightarrow> 'o owner_queue" where
  "moveDown q index =
     (let left = index * 2 + 1 in
      if length (queue_owners q) \<le> left then q
      else
        let right = left + 1;
            selected =
              (if right < length (queue_owners q) \<and>
                  queue_compare q (queue_owners q ! right) (queue_owners q ! left) < 0
               then right else left)
        in if queue_compare q (queue_owners q ! index) (queue_owners q ! selected) \<le> 0 then q
           else moveDown (queue_swap q index selected) selected)"
  by pat_completeness auto
termination
  by (relation "measure (\<lambda>(q, index). length (queue_owners q) - index)") (auto simp: Let_def)

declare moveUp.simps [simp del] moveDown.simps [simp del]

definition removeAt :: "'o owner_queue \<Rightarrow> nat \<Rightarrow> 'o owner_queue" where
  "removeAt q index =
     (let removed = queue_owners q ! index;
          lastIndex = length (queue_owners q) - 1;
          last' = queue_owners q ! lastIndex;
          q1 = q\<lparr>queue_owners := take lastIndex (queue_owners q),
                 queue_indices := gm_del removed (queue_indices q)\<rparr>
      in if index = lastIndex then q1
         else
           let q2 = q1\<lparr>queue_owners := (queue_owners q1)[index := last'],
                       queue_indices := gm_put last' index (queue_indices q1)\<rparr>
           in if 0 < index \<and>
                 queue_compare q2 (queue_owners q2 ! index) (queue_owners q2 ! ((index - 1) div 2)) < 0
              then moveUp q2 index
              else moveDown q2 index)"

definition queue_push :: "'o \<Rightarrow> 'o owner_queue \<Rightarrow> 'o owner_queue" where
  "queue_push owner q =
     (if gm_get (queue_indices q) owner \<noteq> None then q
      else
        let owners = queue_owners q @ [owner];
            index = length owners - 1
        in moveUp (q\<lparr>queue_owners := owners, queue_indices := gm_put owner index (queue_indices q)\<rparr>) index)"

definition queue_pop :: "'o owner_queue \<Rightarrow> 'o option \<times> 'o owner_queue" where
  "queue_pop q =
     (if length (queue_owners q) = 0 then (None, q)
      else (Some (queue_owners q ! 0), removeAt q 0))"

definition queue_discard :: "'o \<Rightarrow> 'o owner_queue \<Rightarrow> 'o owner_queue" where
  "queue_discard owner q =
     (case gm_get (queue_indices q) owner of None \<Rightarrow> q | Some index \<Rightarrow> removeAt q index)"

definition queue_pending :: "'o owner_queue \<Rightarrow> bool" where
  "queue_pending q \<longleftrightarrow> length (queue_owners q) \<noteq> 0"

subsection \<open>Representation invariant\<close>

definition index_ok :: "'o owner_queue \<Rightarrow> bool" where
  "index_ok q \<longleftrightarrow> distinct (queue_owners q) \<and> gm_wf (queue_indices q) \<and>
     fst ` set (queue_indices q) = set (queue_owners q) \<and>
     (\<forall>i < length (queue_owners q). gm_get (queue_indices q) (queue_owners q ! i) = Some i)"

definition queue_inv :: "'o owner_queue \<Rightarrow> bool" where
  "queue_inv q \<longleftrightarrow> index_ok q \<and> heap_ok (queue_compare q) (queue_owners q)"

lemma owners_queue_swap [simp]:
  "queue_owners (queue_swap q i j) = swap_at (queue_owners q) i j"
  by (simp add: queue_swap_def swap_at_def Let_def)

lemma compare_queue_swap [simp]: "queue_compare (queue_swap q i j) = queue_compare q"
  by (simp add: queue_swap_def Let_def)

lemma index_ok_swap:
  assumes q: "index_ok q" and ij: "i < length (queue_owners q)" "j < length (queue_owners q)"
  shows "index_ok (queue_swap q i j)"
proof -
  let ?xs = "queue_owners q" and ?ys = "swap_at (queue_owners q) i j"
  have d: "distinct ?xs" using q by (simp add: index_ok_def)
  have ind: "queue_indices (queue_swap q i j) =
      gm_put (?ys ! j) j (gm_put (?ys ! i) i (queue_indices q))"
    by (simp add: queue_swap_def swap_at_def Let_def)
  have nth: "?ys ! k = (if k = j then ?xs ! i else if k = i then ?xs ! j else ?xs ! k)"
    if "k < length ?xs" for k
    using nth_swap_at [OF ij that] .
  have "gm_get (queue_indices (queue_swap q i j)) (?ys ! k) = Some k" if k: "k < length ?xs" for k
    using q d k ij by (auto simp: ind nth index_ok_def nth_eq_iff_index_eq)
  moreover have "fst ` set (queue_indices (queue_swap q i j)) = set ?ys"
    using q ij nth [of i] nth [of j] by (auto simp: ind index_ok_def)
  moreover have "gm_wf (queue_indices (queue_swap q i j))"
    using q by (simp add: ind index_ok_def)
  ultimately show ?thesis
    using d ij by (simp add: index_ok_def)
qed

lemma moveUp_facts:
  assumes "index < length (queue_owners q)"
  shows "queue_owners (moveUp q index) = sift_up (queue_compare q) (queue_owners q) index \<and>
    queue_compare (moveUp q index) = queue_compare q \<and>
    (index_ok q \<longrightarrow> index_ok (moveUp q index))"
  using assms
proof (induction q index rule: moveUp.induct)
  case (1 q index)
  show ?case
    using 1 index_ok_swap [of q index "parent_of index"]
    by (auto simp: moveUp.simps [of q index] sift_up.simps [of _ _ index] Let_def)
qed

lemma moveDown_facts:
  assumes "index < length (queue_owners q)"
  shows "queue_owners (moveDown q index) = sift_down (queue_compare q) (queue_owners q) index \<and>
    queue_compare (moveDown q index) = queue_compare q \<and>
    (index_ok q \<longrightarrow> index_ok (moveDown q index))"
  using assms
proof (induction q index rule: moveDown.induct)
  case (1 q index)
  let ?xs = "queue_owners q" and ?s = "smaller_child (queue_compare q) (queue_owners q) index"
  have sel: "(if index * 2 + 1 + 1 < length ?xs \<and>
        queue_compare q (?xs ! (index * 2 + 1 + 1)) (?xs ! (index * 2 + 1)) < 0
      then index * 2 + 1 + 1 else index * 2 + 1) = ?s"
    by (simp add: smaller_child_def Let_def)
  show ?case
  proof (cases "index * 2 + 1 < length ?xs \<and> \<not> queue_compare q (?xs ! index) (?xs ! ?s) \<le> 0")
    case True
    have s: "?s < length ?xs" using True smaller_child_less by blast
    have m: "moveDown q index = moveDown (queue_swap q index ?s) ?s"
      using True by (subst moveDown.simps) (simp only: Let_def sel, auto)
    have sd: "sift_down (queue_compare q) ?xs index
        = sift_down (queue_compare q) (swap_at ?xs index ?s) ?s"
      using True by (subst sift_down.simps) (auto simp: Let_def)
    show ?thesis
      unfolding m sd
      using "1.IH" [OF refl _ refl refl, unfolded sel] True s index_ok_swap [of q index ?s] "1.prems"
      by (auto simp: not_le)
  next
    case False
    then have "moveDown q index = q" by (subst moveDown.simps) (simp only: Let_def sel, auto)
    moreover have "sift_down (queue_compare q) ?xs index = ?xs"
      using False by (subst sift_down.simps) (auto simp: Let_def)
    ultimately show ?thesis by simp
  qed
qed

lemma queue_inv_new [simp]: "queue_inv (newArtifactOwnerQueue cmp)"
  by (simp add: queue_inv_def index_ok_def newArtifactOwnerQueue_def)

lemma queue_compare_new [simp]: "queue_compare (newArtifactOwnerQueue cmp) = cmp"
  by (simp add: newArtifactOwnerQueue_def)

lemma queue_owners_new [simp]: "queue_owners (newArtifactOwnerQueue cmp) = []"
  by (simp add: newArtifactOwnerQueue_def)

lemma index_ok_member:
  "index_ok q \<Longrightarrow> gm_get (queue_indices q) x = None \<longleftrightarrow> x \<notin> set (queue_owners q)"
  by (simp add: index_ok_def gm_get_none)

lemma index_ok_position:
  assumes "index_ok q" "gm_get (queue_indices q) x = Some i"
  shows "i < length (queue_owners q) \<and> queue_owners q ! i = x"
proof -
  have "x \<in> set (queue_owners q)"
    using gm_get_key [OF assms(2)] assms(1) by (simp add: index_ok_def)
  then obtain k where "k < length (queue_owners q)" "queue_owners q ! k = x"
    by (auto simp: in_set_conv_nth)
  with assms show ?thesis by (auto simp: index_ok_def)
qed

text \<open>Pushing an owner.\<close>

lemma queue_compare_push [simp]: "queue_compare (queue_push x q) = queue_compare q"
  by (simp add: queue_push_def Let_def moveUp_facts)

lemma index_ok_append:
  assumes "index_ok q" "x \<notin> set (queue_owners q)"
  shows "index_ok (q\<lparr>queue_owners := queue_owners q @ [x],
     queue_indices := gm_put x (length (queue_owners q)) (queue_indices q)\<rparr>)"
  using assms by (auto simp: index_ok_def nth_append less_Suc_eq)

lemma queue_push_content:
  assumes "index_ok q"
  shows "mset (queue_owners (queue_push x q)) =
    (if x \<in> set (queue_owners q) then mset (queue_owners q) else add_mset x (mset (queue_owners q)))"
  using index_ok_member [OF assms, of x] by (simp add: queue_push_def Let_def moveUp_facts)

lemma queue_inv_push:
  assumes q: "queue_inv q" and c: "compare_preorder (queue_compare q)"
  shows "queue_inv (queue_push x q)"
proof (cases "x \<in> set (queue_owners q)")
  case True
  then have "queue_push x q = q"
    using q by (simp add: queue_push_def queue_inv_def index_ok_member)
  with q show ?thesis by simp
next
  case False
  let ?q = "q\<lparr>queue_owners := queue_owners q @ [x],
     queue_indices := gm_put x (length (queue_owners q)) (queue_indices q)\<rparr>"
  have "queue_push x q = moveUp ?q (length (queue_owners q))"
    using q False by (auto simp: queue_push_def queue_inv_def index_ok_member Let_def)
  moreover have "index_ok ?q"
    using q False by (intro index_ok_append) (auto simp: queue_inv_def)
  moreover have "heap_ok (queue_compare q)
      (sift_up (queue_compare q) (queue_owners q @ [x]) (length (queue_owners q)))"
    using q by (intro compare_preorder.heap_ok_sift_up [OF c] compare_preorder.heap_but_up_append [OF c])
      (auto simp: queue_inv_def)
  ultimately show ?thesis
    by (simp add: queue_inv_def moveUp_facts)
qed

text \<open>Removing the owner at a position.\<close>

lemma queue_compare_removeAt [simp]:
  assumes "i < length (queue_owners q)"
  shows "queue_compare (removeAt q i) = queue_compare q"
  using assms by (auto simp: removeAt_def Let_def moveUp_facts moveDown_facts)

definition without :: "'a list \<Rightarrow> nat \<Rightarrow> 'a list" where
  "without xs i = (butlast xs)[i := last xs]"

lemma mset_without:
  assumes "i < length xs"
  shows "add_mset (xs ! i) (mset (if i = length xs - 1 then butlast xs else without xs i)) = mset xs"
proof -
  have xs: "xs = butlast xs @ [last xs]" using assms by (cases xs rule: rev_cases) auto
  show ?thesis
  proof (cases "i = length xs - 1")
    case True
    then have "xs ! i = last xs" using assms by (cases xs rule: rev_cases) auto
    with True show ?thesis by (subst (3) xs) simp
  next
    case False
    then have i: "i < length (butlast xs)" using assms by simp
    have "xs ! i = butlast xs ! i" using i by (simp add: nth_butlast)
    then have "add_mset (xs ! i) (mset (without xs i)) = add_mset (last xs) (mset (butlast xs))"
      using i by (simp add: without_def mset_update)
    also have "\<dots> = mset xs" by (subst (3) xs) simp
    finally show ?thesis using False by simp
  qed
qed

lemma removeAt_last:
  assumes q: "index_ok q" and ne: "queue_owners q \<noteq> []" and i: "i = length (queue_owners q) - 1"
  shows "queue_owners (removeAt q i) = butlast (queue_owners q)" "index_ok (removeAt q i)"
proof -
  let ?xs = "queue_owners q"
  have xi: "?xs ! i = last ?xs" using ne i by (simp add: last_conv_nth)
  let ?q1 = "q\<lparr>queue_owners := butlast ?xs, queue_indices := gm_del (last ?xs) (queue_indices q)\<rparr>"
  have r: "removeAt q i = ?q1"
    using i xi by (simp add: removeAt_def Let_def butlast_conv_take)
  have xs: "?xs = butlast ?xs @ [last ?xs]" using ne by simp
  have "distinct (butlast ?xs @ [last ?xs])" using q xs by (simp add: index_ok_def)
  then have d: "distinct (butlast ?xs)" "last ?xs \<notin> set (butlast ?xs)" by auto
  have s: "set ?xs = insert (last ?xs) (set (butlast ?xs))" by (subst xs) simp
  have "gm_get (queue_indices ?q1) (butlast ?xs ! k) = Some k" if k: "k < length (butlast ?xs)" for k
  proof -
    have "butlast ?xs ! k = ?xs ! k" "k < length ?xs" using k by (auto simp: nth_butlast)
    moreover have "butlast ?xs ! k \<noteq> last ?xs" using d k nth_mem by metis
    ultimately show ?thesis using q by (simp add: index_ok_def)
  qed
  then show "index_ok (removeAt q i)"
    using q d s by (auto simp: r index_ok_def)
  show "queue_owners (removeAt q i) = butlast ?xs" by (simp add: r)
qed

lemma removeAt_middle:
  fixes q :: "'o owner_queue"
  defines "xs \<equiv> queue_owners q"
  assumes q: "index_ok q" and i: "i < length xs" "i \<noteq> length xs - 1"
  shows "queue_owners (removeAt q i) =
      (if 0 < i \<and> queue_compare q (last xs) (xs ! parent_of i) < 0
       then sift_up (queue_compare q) (without xs i) i else sift_down (queue_compare q) (without xs i) i)"
    "index_ok (removeAt q i)"
proof -
  let ?q2 = "q\<lparr>queue_owners := without xs i,
    queue_indices := gm_put (last xs) i (gm_del (xs ! i) (queue_indices q))\<rparr>"
  have ne: "xs \<noteq> []" using i by auto
  have ib: "i < length (butlast xs)" using i by simp
  have l: "xs ! (length xs - 1) = last xs" using ne by (simp add: last_conv_nth)
  have w: "without xs i ! i = last xs" "0 < i \<Longrightarrow> without xs i ! parent_of i = xs ! parent_of i"
    using ib parent_of_less [of i] by (auto simp: without_def nth_list_update nth_butlast)
  have r: "removeAt q i =
      (if 0 < i \<and> queue_compare q (last xs) (xs ! parent_of i) < 0 then moveUp ?q2 i else moveDown ?q2 i)"
    using i l w by (auto simp: removeAt_def Let_def xs_def without_def butlast_conv_take)
  have lw: "i < length (without xs i)" using ib by (simp add: without_def)
  have xs: "xs = butlast xs @ [last xs]" using ne by simp
  have "distinct (butlast xs @ [last xs])" using q xs by (simp add: index_ok_def xs_def)
  then have d: "distinct (butlast xs)" "last xs \<notin> set (butlast xs)" by auto
  have s: "set xs = insert (last xs) (set (butlast xs))" by (subst xs) simp
  have bi: "butlast xs ! i = xs ! i" using ib by (simp add: nth_butlast)
  then have li: "last xs \<noteq> xs ! i" using d ib nth_mem by metis
  have sw: "set (without xs i) = insert (last xs) (set xs - {xs ! i})"
    using d ib bi s li by (auto simp: without_def set_update_distinct)
  have dw: "distinct (without xs i)"
    using d by (auto simp: without_def intro: distinct_list_update)
  have "gm_get (queue_indices ?q2) (without xs i ! k) = Some k" if k: "k < length (without xs i)" for k
  proof (cases "k = i")
    case True
    then show ?thesis using w by simp
  next
    case False
    have kb: "k < length (butlast xs)" using k by (simp add: without_def)
    then have e: "without xs i ! k = xs ! k" "butlast xs ! k = xs ! k" "k < length xs"
      using False by (auto simp: without_def nth_butlast)
    then have "xs ! k \<noteq> last xs" using d kb nth_mem by metis
    moreover have "xs ! k \<noteq> xs ! i" using d(1) ib kb False e bi by (metis nth_eq_iff_index_eq)
    ultimately show ?thesis using q e by (simp add: index_ok_def xs_def)
  qed
  then have "index_ok ?q2"
    using q dw sw by (auto simp: index_ok_def xs_def)
  moreover have "i < length (queue_owners ?q2)" using lw by simp
  note up = moveUp_facts [OF this] and down = moveDown_facts [OF this]
  ultimately show "index_ok (removeAt q i)"
    using up down unfolding r by presburger
  show "queue_owners (removeAt q i) =
      (if 0 < i \<and> queue_compare q (last xs) (xs ! parent_of i) < 0
       then sift_up (queue_compare q) (without xs i) i else sift_down (queue_compare q) (without xs i) i)"
    using up down by (simp only: r if_distrib [of queue_owners] owner_queue.simps split: if_split) simp
qed

lemma removeAt_content:
  assumes "index_ok q" "i < length (queue_owners q)"
  shows "add_mset (queue_owners q ! i) (mset (queue_owners (removeAt q i))) = mset (queue_owners q)"
proof (cases "i = length (queue_owners q) - 1")
  case True
  moreover have "queue_owners q \<noteq> []" using assms(2) by auto
  ultimately show ?thesis
    using mset_without [OF assms(2)] removeAt_last [OF assms(1)] by simp
next
  case False
  have "i < length (without (queue_owners q) i)" using assms(2) False by (simp add: without_def)
  then show ?thesis
    using mset_without [OF assms(2)] removeAt_middle [OF assms False] False by simp
qed

lemma queue_inv_removeAt:
  assumes q: "queue_inv q" and c: "compare_preorder (queue_compare q)"
    and i: "i < length (queue_owners q)"
  shows "queue_inv (removeAt q i)"
proof -
  let ?xs = "queue_owners q" and ?c = "queue_compare q"
  have ok: "index_ok q" and h: "heap_ok ?c ?xs" using q by (auto simp: queue_inv_def)
  have hb: "heap_ok ?c (butlast ?xs)" by (rule compare_preorder.heap_ok_butlast [OF c h])
  show ?thesis
  proof (cases "i = length ?xs - 1")
    case True
    moreover have "?xs \<noteq> []" using i by auto
    ultimately have "queue_owners (removeAt q i) = butlast ?xs" "index_ok (removeAt q i)"
      using removeAt_last [OF ok] by blast+
    with hb i show ?thesis by (simp add: queue_inv_def)
  next
    case False
    then have ib: "i < length (butlast ?xs)" using i by simp
    have p: "butlast ?xs ! parent_of i = ?xs ! parent_of i" if "0 < i"
      using ib parent_of_less [OF that] by (simp add: nth_butlast)
    note rep = compare_preorder.heap_replace [OF c hb ib, of "last ?xs", folded without_def]
    have "heap_ok ?c (if 0 < i \<and> ?c (last ?xs) (?xs ! parent_of i) < 0
        then sift_up ?c (without ?xs i) i else sift_down ?c (without ?xs i) i)"
    proof (cases "0 < i \<and> ?c (last ?xs) (?xs ! parent_of i) < 0")
      case True
      then have "heap_but_up ?c (without ?xs i) i" using rep(1) p by simp
      then show ?thesis
        using True compare_preorder.heap_ok_sift_up [OF c] ib by (simp add: without_def)
    next
      case False
      have "i = 0 \<or> ?c (?xs ! parent_of i) (last ?xs) \<le> 0"
        using False compare_preorder.cmp_flip [OF c, of "last ?xs" "?xs ! parent_of i"] by linarith
      then have "heap_but_down ?c (without ?xs i) i" using rep(2) p by (cases "i = 0") auto
      then have "heap_ok ?c (sift_down ?c (without ?xs i) i)"
        by (rule compare_preorder.heap_ok_sift_down [OF c])
      then show ?thesis by (simp only: if_not_P [OF False])
    qed
    then have "heap_ok ?c (queue_owners (removeAt q i))"
      by (simp only: removeAt_middle(1) [OF ok i False])
    with removeAt_middle(2) [OF ok i False] i show ?thesis by (simp add: queue_inv_def)
  qed
qed

text \<open>Discarding an owner, and popping the least one.\<close>

lemma queue_compare_discard [simp]:
  "queue_inv q \<Longrightarrow> queue_compare (queue_discard x q) = queue_compare q"
  using index_ok_position [of q x]
  by (auto simp: queue_discard_def queue_inv_def split: option.split)

lemma queue_inv_discard:
  assumes "queue_inv q" "compare_preorder (queue_compare q)"
  shows "queue_inv (queue_discard x q)"
  using assms index_ok_position [of q x] queue_inv_removeAt [OF assms]
  by (auto simp: queue_discard_def queue_inv_def split: option.split)

lemma queue_discard_content:
  assumes q: "queue_inv q"
  shows "mset (queue_owners (queue_discard x q)) = mset (queue_owners q) - {#x#}"
proof (cases "gm_get (queue_indices q) x")
  case None
  have ok: "index_ok q" using q by (simp add: queue_inv_def)
  have "x \<notin># mset (queue_owners q)" using index_ok_member [OF ok, of x] None by simp
  then show ?thesis unfolding queue_discard_def None by (simp add: diff_single_trivial)
next
  case (Some i)
  have ok: "index_ok q" using q by (simp add: queue_inv_def)
  note pos = index_ok_position [OF ok Some]
  have "queue_discard x q = removeAt q i" unfolding queue_discard_def Some by simp
  then show ?thesis
    using removeAt_content [OF ok, of i] pos by (metis add_mset_remove_trivial)
qed

lemma queue_pop_min:
  assumes q: "queue_inv q" and c: "compare_preorder (queue_compare q)" and ne: "queue_owners q \<noteq> []"
  obtains x q' where "queue_pop q = (Some x, q')" "queue_inv q'" "queue_compare q' = queue_compare q"
    "mset (queue_owners q) = add_mset x (mset (queue_owners q'))"
    "\<forall>y \<in> set (queue_owners q). queue_compare q x y \<le> 0"
proof
  show "queue_pop q = (Some (queue_owners q ! 0), removeAt q 0)" using ne by (simp add: queue_pop_def)
  show "queue_inv (removeAt q 0)" using ne by (intro queue_inv_removeAt [OF q c]) simp
  show "queue_compare (removeAt q 0) = queue_compare q" using ne by simp
  show "mset (queue_owners q) = add_mset (queue_owners q ! 0) (mset (queue_owners (removeAt q 0)))"
    using removeAt_content [of q 0] q ne by (simp add: queue_inv_def)
  show "\<forall>y \<in> set (queue_owners q). queue_compare q (queue_owners q ! 0) y \<le> 0"
    using compare_preorder.heap_ok_root_le [OF c] q by (simp add: queue_inv_def)
qed

text \<open>The queue of the artifact graph is a set queue ordered by \<open>CompareArtifactOwners\<close>.\<close>

definition owner_queue_inv :: "(type_ref \<Rightarrow> string) \<Rightarrow> artifact_owner owner_queue \<Rightarrow> bool" where
  "owner_queue_inv ts q \<longleftrightarrow> queue_inv q \<and> queue_compare q = CompareArtifactOwners ts"

interpretation dq: set_queue "CompareArtifactOwners ts" "newArtifactOwnerQueue (CompareArtifactOwners ts)"
  queue_push queue_pop queue_pending "\<lambda>q. mset (queue_owners q)" "owner_queue_inv ts"
  for ts :: "type_ref \<Rightarrow> string"
proof unfold_locales
  fix q :: "artifact_owner owner_queue" and x
  show "owner_queue_inv ts (newArtifactOwnerQueue (CompareArtifactOwners ts))"
    by (simp add: owner_queue_inv_def)
  show "mset (queue_owners (newArtifactOwnerQueue (CompareArtifactOwners ts))) = {#}" by simp
  assume inv: "owner_queue_inv ts q"
  then have q: "queue_inv q" "compare_preorder (queue_compare q)"
    by (simp_all add: owner_queue_inv_def owner_order.compare_preorder_axioms)
  show "owner_queue_inv ts (queue_push x q)"
    using queue_inv_push [OF q] inv by (simp add: owner_queue_inv_def)
  show "queue_pending q \<longleftrightarrow> mset (queue_owners q) \<noteq> {#}" by (simp add: queue_pending_def)
  show "mset (queue_owners q) = {#} \<Longrightarrow> queue_pop q = (None, q)" by (simp add: queue_pop_def)
  show "mset (queue_owners (queue_push x q)) =
      (if x \<in># mset (queue_owners q) then mset (queue_owners q) else add_mset x (mset (queue_owners q)))"
    using queue_push_content [of q x] q(1) by (simp add: queue_inv_def)
  show "\<exists>x q'. queue_pop q = (Some x, q') \<and> owner_queue_inv ts q' \<and>
      mset (queue_owners q) = add_mset x (mset (queue_owners q')) \<and>
      (\<forall>y \<in># mset (queue_owners q). CompareArtifactOwners ts x y \<le> 0)"
    if "mset (queue_owners q) \<noteq> {#}"
    using queue_pop_min [OF q] that inv by (metis (mono_tags, lifting) mset_zero_iff owner_queue_inv_def set_mset_mset)
qed

end
