(* ===== verification/Graph.thy ===== *)
theory Graph
  imports ContractHistory OwnerQueue
begin

text \<open>
  The artifact graph (\<open>internal/emit/artifact/graph.go\<close> and \<open>owners.go\<close>): every published artifact
  has a record with its contract and the dependencies it observed; \<open>reverse\<close> is the index from a
  dependency to its consumers.  Committing a changed contract makes the consumers of each changed
  facet dirty, and refuses a contract the artifact had before, unless the commit is authorised.

  The graph is a value that every operation returns updated; Go's pointer to a record is the value
  under the owner's key.  An operation that panics is \<open>None\<close>.  The argument \<open>quote\<close> of the commit is
  \<open>strconv.QuoteToASCII\<close>, which the error evidence uses.
\<close>

record artifactRecord =
  record_baseContract :: contract
  record_contract :: contract
  record_history :: contractHistory
  record_dependencies :: "artifact_dependency list"
  record_facetRevisions :: "(artifact_facet, 64 word) gomap"

record graph =
  graph_records :: "(artifact_owner, artifactRecord) gomap"
  graph_reverse :: "(artifact_dependency, artifact_owner list) gomap"
  graph_dirty :: "artifact_owner owner_queue"
  graph_removalDirty :: "artifact_owner list"
  graph_compare :: "artifact_owner \<Rightarrow> artifact_owner \<Rightarrow> int"

record facetTransition =
  transition_facet :: artifact_facet
  transition_CurrentBytes :: nat
  transition_CandidateBytes :: nat
  transition_CommonPrefixBytes :: nat
  transition_CommonSuffixBytes :: nat
  transition_CurrentDifference :: string
  transition_CandidateDifference :: string

datatype graph_error =
    GraphError artifact_owner artifact_owner artifact_facet string
  | ConvergenceError artifact_owner "artifact_facet list" "facetTransition list"
  | DependencyError root_request_error

definition NewGraph :: "(artifact_owner \<Rightarrow> artifact_owner \<Rightarrow> int) \<Rightarrow> graph" where
  "NewGraph compare =
     \<lparr>graph_records = [], graph_reverse = [], graph_dirty = newArtifactOwnerQueue compare,
      graph_removalDirty = [], graph_compare = compare\<rparr>"

text \<open>\<open>validateArtifactContract\<close> of \<open>contract_value.go\<close>.\<close>

definition validateArtifactContract :: "artifact_owner \<Rightarrow> contract \<Rightarrow> graph_error + contract" where
  "validateArtifactContract owner c =
     (if \<not> contract_initialized c then
        Inl (GraphError owner no_owner ArtifactFacetInvalid ''target artifact observable contract is absent'')
      else if hasFacet c ArtifactFacetExportSurface \<noteq> contract_exportsSet c then
        Inl (GraphError owner no_owner ArtifactFacetInvalid
          ''target artifact export surface is not declaration-projected'')
      else Inr c)"

subsection \<open>Edges\<close>

definition consumers_of :: "graph \<Rightarrow> artifact_dependency \<Rightarrow> artifact_owner list" where
  "consumers_of g dependency =
     (case gm_get (graph_reverse g) dependency of None \<Rightarrow> [] | Some consumers \<Rightarrow> consumers)"

definition removeReverseEdge :: "artifact_owner \<Rightarrow> artifact_dependency \<Rightarrow> graph \<Rightarrow> graph" where
  "removeReverseEdge consumer dependency g =
     (let consumers = gs_delete consumer (consumers_of g dependency) in
      if length consumers = 0 then g\<lparr>graph_reverse := gm_del dependency (graph_reverse g)\<rparr>
      else g\<lparr>graph_reverse := gm_put dependency consumers (graph_reverse g)\<rparr>)"

definition removeReverseEdges :: "artifact_owner \<Rightarrow> artifact_dependency list \<Rightarrow> graph \<Rightarrow> graph" where
  "removeReverseEdges consumer dependencies = fold (removeReverseEdge consumer) dependencies"

definition addReverseEdge :: "artifact_owner \<Rightarrow> artifact_dependency \<Rightarrow> graph \<Rightarrow> graph" where
  "addReverseEdge consumer dependency g =
     g\<lparr>graph_reverse := gm_put dependency (gs_insert consumer (consumers_of g dependency)) (graph_reverse g)\<rparr>"

definition addReverseEdges :: "artifact_owner \<Rightarrow> artifact_dependency list \<Rightarrow> graph \<Rightarrow> graph" where
  "addReverseEdges consumer dependencies = fold (addReverseEdge consumer) dependencies"

definition markDirty :: "bool \<Rightarrow> artifact_owner \<Rightarrow> graph \<Rightarrow> graph" where
  "markDirty removalCaused consumer g =
     (let g = g\<lparr>graph_dirty := queue_push consumer (graph_dirty g)\<rparr> in
      if removalCaused then g\<lparr>graph_removalDirty := gs_insert consumer (graph_removalDirty g)\<rparr> else g)"

fun invalidateConsumers ::
    "artifact_owner \<Rightarrow> artifact_facet list \<Rightarrow> bool \<Rightarrow> graph \<Rightarrow> graph_error option \<times> graph" where
  "invalidateConsumers owner [] removalCaused g = (None, g)"
| "invalidateConsumers owner (facet # facets) removalCaused g =
     (case NewArtifactDependency owner facet of
        Inl e \<Rightarrow> (Some (DependencyError e), g)
      | Inr dependency \<Rightarrow>
          invalidateConsumers owner facets removalCaused
            (fold (markDirty removalCaused) (consumers_of g dependency) g))"

subsection \<open>Commit\<close>

definition quotedDifference :: "(bytes \<Rightarrow> string) \<Rightarrow> bytes \<Rightarrow> nat \<Rightarrow> string" where
  "quotedDifference quote value start =
     (if length value \<le> start then quote []
      else let end' = min (start + 96) (length value) in quote (drop start (take end' value)))"

definition artifactFacetTransitions ::
    "(bytes \<Rightarrow> string) \<Rightarrow> contract \<Rightarrow> contract \<Rightarrow> artifact_facet list \<Rightarrow> facetTransition list" where
  "artifactFacetTransitions quote current candidate facets =
     map (\<lambda>facet.
       let currentValue = facet_bytes current facet;
           candidateValue = facet_bytes candidate facet;
           prefix = commonPrefixLength currentValue candidateValue;
           suffix = commonSuffixLength (drop prefix currentValue) (drop prefix candidateValue)
       in \<lparr>transition_facet = facet,
           transition_CurrentBytes = length currentValue,
           transition_CandidateBytes = length candidateValue,
           transition_CommonPrefixBytes = prefix,
           transition_CommonSuffixBytes = suffix,
           transition_CurrentDifference = quotedDifference quote currentValue prefix,
           transition_CandidateDifference = quotedDifference quote candidateValue prefix\<rparr>) facets"

definition revise :: "artifact_facet list \<Rightarrow> (artifact_facet, 64 word) gomap \<Rightarrow> (artifact_facet, 64 word) gomap" where
  "revise facets revisions =
     fold (\<lambda>facet m. gm_put facet ((case gm_get m facet of None \<Rightarrow> 0 | Some r \<Rightarrow> r) + 1) m) facets revisions"

definition firstRevisions :: "contract \<Rightarrow> (artifact_facet, 64 word) gomap \<Rightarrow> (artifact_facet, 64 word) gomap" where
  "firstRevisions c revisions =
     fold (\<lambda>facet m. if hasFacet c facet then gm_put facet 1 m else m) facet_range revisions"

text \<open>
  The second half of the commit, after the checks: publish the contract, move the reverse edges,
  extend the history and make the consumers dirty.
\<close>

definition publish ::
    "go_flate \<Rightarrow> artifact_owner \<Rightarrow> contract \<Rightarrow> contract \<Rightarrow> artifact_dependency list \<Rightarrow> artifact_facet list \<Rightarrow>
     bool \<Rightarrow> graph \<Rightarrow> (graph_error option \<times> graph) option" where
  "publish fl owner contract nextContract nextDependencies changed historicalAuthorized g =
     (let (previousContract, current, g) =
        (case gm_get (graph_records g) owner of
           None \<Rightarrow>
             (absent_contract,
              \<lparr>record_baseContract = absent_contract, record_contract = absent_contract,
               record_history = [], record_dependencies = [], record_facetRevisions = []\<rparr>, g)
         | Some r \<Rightarrow> (record_contract r, r, removeReverseEdges owner (record_dependencies r) g));
        current = current\<lparr>record_baseContract := contract, record_dependencies := nextDependencies,
          record_contract := nextContract\<rparr>;
        g = addReverseEdges owner nextDependencies g
      in if length (record_history current) = 0 then
           (case history_initialize nextContract (record_history current) of
              None \<Rightarrow> None
            | Some h \<Rightarrow>
                let current = current\<lparr>record_history := h,
                      record_facetRevisions := firstRevisions nextContract (record_facetRevisions current)\<rparr>
                in Some (invalidateConsumers owner changed historicalAuthorized
                     (g\<lparr>graph_records := gm_put owner current (graph_records g)\<rparr>)))
         else if changed = [] then
           Some (None, g\<lparr>graph_records := gm_put owner current (graph_records g)\<rparr>)
         else
           (case history_append fl previousContract nextContract (record_history current) of
              None \<Rightarrow> None
            | Some h \<Rightarrow>
                let current = current\<lparr>record_history := h,
                      record_facetRevisions := revise changed (record_facetRevisions current)\<rparr>
                in Some (invalidateConsumers owner changed historicalAuthorized
                     (g\<lparr>graph_records := gm_put owner current (graph_records g)\<rparr>))))"

definition commit ::
    "go_flate \<Rightarrow> (bytes \<Rightarrow> string) \<Rightarrow> artifact_owner \<Rightarrow> contract \<Rightarrow> artifact_dependency list \<Rightarrow> bool \<Rightarrow>
     graph \<Rightarrow> (graph_error option \<times> graph) option" where
  "commit fl quote owner contract dependencies historicalReplacement g =
     (if \<not> owner_Valid owner then
        Some (Some (GraphError no_owner no_owner ArtifactFacetInvalid ''target artifact owner is invalid''), g)
      else case validateArtifactContract owner contract of
        Inl e \<Rightarrow> Some (Some e, g)
      | Inr nextContract \<Rightarrow>
          if \<not> list_all dependency_Valid dependencies then
            Some (Some (GraphError owner no_owner ArtifactFacetInvalid
              ''target artifact dependency is invalid''), g)
          else
            let nextDependencies = gs_of dependencies;
                historicalAuthorized =
                  (historicalReplacement \<or> owner \<in> set (graph_removalDirty g))
            in case gm_get (graph_records g) owner of
              None \<Rightarrow>
                publish fl owner contract nextContract nextDependencies
                  (changedArtifactFacets absent_contract nextContract) historicalAuthorized g
            | Some current \<Rightarrow>
                let changed = changedArtifactFacets (record_contract current) nextContract in
                if length changed \<noteq> 0 then
                  (case history_contains fl (record_history current) (record_contract current) nextContract of
                     None \<Rightarrow> None
                   | Some known \<Rightarrow>
                       if known \<and> \<not> historicalAuthorized then
                         Some (Some (ConvergenceError owner changed
                           (artifactFacetTransitions quote (record_contract current) nextContract changed)), g)
                       else publish fl owner contract nextContract nextDependencies changed
                              historicalAuthorized g)
                else publish fl owner contract nextContract nextDependencies changed historicalAuthorized g)"

definition Commit ::
    "go_flate \<Rightarrow> (bytes \<Rightarrow> string) \<Rightarrow> artifact_owner \<Rightarrow> contract \<Rightarrow> artifact_dependency list \<Rightarrow>
     graph \<Rightarrow> (graph_error option \<times> graph) option" where
  "Commit fl quote owner contract dependencies g = commit fl quote owner contract dependencies False g"

definition CommitHistoricalReplacement ::
    "go_flate \<Rightarrow> (bytes \<Rightarrow> string) \<Rightarrow> artifact_owner \<Rightarrow> contract \<Rightarrow> artifact_dependency list \<Rightarrow>
     graph \<Rightarrow> (graph_error option \<times> graph) option" where
  "CommitHistoricalReplacement fl quote owner contract dependencies g =
     commit fl quote owner contract dependencies True g"

subsection \<open>The dirty set and the queries\<close>

definition NextDirty :: "graph \<Rightarrow> artifact_owner option \<times> graph" where
  "NextDirty g = (let (selected, dirty) = queue_pop (graph_dirty g) in (selected, g\<lparr>graph_dirty := dirty\<rparr>))"

definition DiscardDirty :: "artifact_owner \<Rightarrow> graph \<Rightarrow> graph" where
  "DiscardDirty owner g =
     g\<lparr>graph_dirty := queue_discard owner (graph_dirty g),
       graph_removalDirty := gs_delete owner (graph_removalDirty g)\<rparr>"

definition HasPending :: "graph \<Rightarrow> bool" where
  "HasPending g = queue_pending (graph_dirty g)"

definition graph_Owners :: "graph \<Rightarrow> artifact_owner list" where
  "graph_Owners g = sort_by (graph_compare g) (gm_keys (graph_records g))"

definition compareDependencies ::
    "(artifact_owner \<Rightarrow> artifact_owner \<Rightarrow> int) \<Rightarrow> artifact_dependency \<Rightarrow> artifact_dependency \<Rightarrow> int" where
  "compareDependencies compare left right =
     cmp_then (compare (dependency_provider left) (dependency_provider right))
       (ord_cmp (dependency_facet left) (dependency_facet right))"

definition sortedDependencies :: "graph \<Rightarrow> artifactRecord \<Rightarrow> artifact_dependency list" where
  "sortedDependencies g r = sort_by (compareDependencies (graph_compare g)) (record_dependencies r)"

fun verifyDependencies ::
    "graph \<Rightarrow> artifact_owner \<Rightarrow> artifact_dependency list \<Rightarrow> graph_error option" where
  "verifyDependencies g consumer [] = None"
| "verifyDependencies g consumer (dependency # rest) =
     (case gm_get (graph_records g) (dependency_provider dependency) of
        None \<Rightarrow> Some (GraphError consumer (dependency_provider dependency) (dependency_facet dependency)
          ''artifact dependency provider was not published'')
      | Some provider \<Rightarrow>
          if \<not> hasFacet (record_contract provider) (dependency_facet dependency) then
            Some (GraphError consumer (dependency_provider dependency) (dependency_facet dependency)
              (''artifact dependency provider has no '' @ facet_String (dependency_facet dependency) @ '' facet''))
          else verifyDependencies g consumer rest)"

fun verifyConsumers :: "graph \<Rightarrow> artifact_owner list \<Rightarrow> graph_error option" where
  "verifyConsumers g [] = None"
| "verifyConsumers g (consumer # rest) =
     (case (case gm_get (graph_records g) consumer of
              None \<Rightarrow> None | Some r \<Rightarrow> verifyDependencies g consumer (sortedDependencies g r)) of
        Some e \<Rightarrow> Some e | None \<Rightarrow> verifyConsumers g rest)"

definition VerifyClosure :: "graph \<Rightarrow> graph_error option" where
  "VerifyClosure g = verifyConsumers g (sort_by (graph_compare g) (gm_keys (graph_records g)))"

definition edgeCount :: "graph \<Rightarrow> nat" where
  "edgeCount g = sum_list (map (\<lambda>(_, consumers). length consumers) (graph_reverse g))"

definition FacetRevision :: "graph \<Rightarrow> artifact_owner \<Rightarrow> artifact_facet \<Rightarrow> 64 word" where
  "FacetRevision g owner facet =
     (case gm_get (graph_records g) owner of
        None \<Rightarrow> 0
      | Some r \<Rightarrow> (case gm_get (record_facetRevisions r) facet of None \<Rightarrow> 0 | Some n \<Rightarrow> n))"

definition graph_ExportedBindings :: "graph \<Rightarrow> artifact_owner \<Rightarrow> string list option" where
  "graph_ExportedBindings g owner =
     (case gm_get (graph_records g) owner of
        None \<Rightarrow> None | Some r \<Rightarrow> contract_ExportedBindings (record_contract r))"

definition graph_Dependencies :: "graph \<Rightarrow> artifact_owner \<Rightarrow> artifact_dependency list option" where
  "graph_Dependencies g owner =
     (case gm_get (graph_records g) owner of
        None \<Rightarrow> None | Some r \<Rightarrow> Some (sortedDependencies g r))"

definition ObservableContract :: "graph \<Rightarrow> artifact_owner \<Rightarrow> graph_error + contract" where
  "ObservableContract g owner =
     (if \<not> owner_Valid owner then
        Inl (GraphError no_owner no_owner ArtifactFacetInvalid ''artifact contract owner is invalid'')
      else case gm_get (graph_records g) owner of
        None \<Rightarrow> Inl (GraphError owner no_owner ArtifactFacetInvalid ''artifact contract was not published'')
      | Some r \<Rightarrow> Inr (withoutImplementation (record_contract r)))"

end
