(* ===== verification/GraphInvariant.thy ===== *)
theory GraphInvariant
  imports Graph
begin

text \<open>
  The representation invariant of the artifact graph and what a commit does to it: the reverse
  index is exactly the inverse of the recorded dependencies, the history of every record represents
  the list of contracts it has published, and the dirty queue is a heap of published artifacts.
\<close>

definition depends :: "graph \<Rightarrow> artifact_owner \<Rightarrow> artifact_dependency \<Rightarrow> bool" where
  "depends g c d \<longleftrightarrow> (\<exists>r. gm_get (graph_records g) c = Some r \<and> d \<in> set (record_dependencies r))"

definition edges_rel :: "graph \<Rightarrow> (artifact_owner \<times> artifact_dependency) set \<Rightarrow> bool" where
  "edges_rel g E \<longleftrightarrow> gm_wf (graph_reverse g) \<and>
     (\<forall>d l. gm_get (graph_reverse g) d = Some l \<longrightarrow> l \<noteq> [] \<and> distinct l) \<and>
     (\<forall>c d. c \<in> set (consumers_of g d) \<longleftrightarrow> (c, d) \<in> E)"

definition record_rep :: "go_flate \<Rightarrow> artifactRecord \<Rightarrow> contract list \<Rightarrow> bool" where
  "record_rep fl r cs \<longleftrightarrow> history_rep fl (record_history r) cs \<and> cs \<noteq> [] \<and>
     published_ok (record_contract r) \<and> contract_view (last cs) = contract_view (record_contract r)"

definition record_ok :: "go_flate \<Rightarrow> artifactRecord \<Rightarrow> bool" where
  "record_ok fl r \<longleftrightarrow> (\<exists>cs. record_rep fl r cs) \<and> distinct (record_dependencies r) \<and>
     list_all dependency_Valid (record_dependencies r)"

definition graph_inv :: "go_flate \<Rightarrow> (type_ref \<Rightarrow> string) \<Rightarrow> graph \<Rightarrow> bool" where
  "graph_inv fl ts g \<longleftrightarrow> graph_compare g = CompareArtifactOwners ts \<and>
     owner_queue_inv ts (graph_dirty g) \<and>
     set (queue_owners (graph_dirty g)) \<subseteq> fst ` set (graph_records g) \<and>
     distinct (graph_removalDirty g) \<and> gm_wf (graph_records g) \<and>
     (\<forall>owner r. gm_get (graph_records g) owner = Some r \<longrightarrow> owner_Valid owner \<and> record_ok fl r) \<and>
     edges_rel g {(c, d). depends g c d}"

lemma graph_inv_new [simp]: "graph_inv fl ts (NewGraph (CompareArtifactOwners ts))"
  by (simp add: graph_inv_def NewGraph_def owner_queue_inv_def edges_rel_def depends_def consumers_of_def)

subsection \<open>Reverse edges\<close>

lemma consumers_of_put [simp]:
  "consumers_of (g\<lparr>graph_reverse := gm_put d l (graph_reverse g)\<rparr>) e = (if e = d then l else consumers_of g e)"
  by (simp add: consumers_of_def)

lemma consumers_of_del [simp]:
  "consumers_of (g\<lparr>graph_reverse := gm_del d (graph_reverse g)\<rparr>) e = (if e = d then [] else consumers_of g e)"
  by (simp add: consumers_of_def)

lemma consumers_of_frame [simp]:
  "consumers_of (g\<lparr>graph_records := x\<rparr>) e = consumers_of g e"
  "consumers_of (g\<lparr>graph_dirty := q\<rparr>) e = consumers_of g e"
  "consumers_of (g\<lparr>graph_removalDirty := s\<rparr>) e = consumers_of g e"
  by (simp_all add: consumers_of_def)

lemma edges_rel_consumers:
  assumes "edges_rel g E"
  shows "distinct (consumers_of g d)" "set (consumers_of g d) = {c. (c, d) \<in> E}"
proof -
  have "\<forall>l. gm_get (graph_reverse g) d = Some l \<longrightarrow> distinct l"
    using assms unfolding edges_rel_def by blast
  then show "distinct (consumers_of g d)"
    unfolding consumers_of_def by (cases "gm_get (graph_reverse g) d") auto
  show "set (consumers_of g d) = {c. (c, d) \<in> E}"
    using assms unfolding edges_rel_def by blast
qed

lemma edges_rel_remove:
  assumes "edges_rel g E"
  shows "edges_rel (removeReverseEdge c d g) (E - {(c, d)})"
proof -
  note cs = edges_rel_consumers [OF assms]
  show ?thesis
    using assms cs(1) [of d]
    by (auto simp: edges_rel_def removeReverseEdge_def Let_def gs_delete_eq_Nil split: if_splits)
qed

lemma edges_rel_add:
  assumes "edges_rel g E"
  shows "edges_rel (addReverseEdge c d g) (insert (c, d) E)"
proof -
  have "gs_insert c l \<noteq> []" for l by (auto simp: gs_insert_def)
  then show ?thesis
    using assms edges_rel_consumers [OF assms, of d]
    by (auto simp: edges_rel_def addReverseEdge_def split: if_splits)
qed

lemma reverse_frame:
  "graph_records (removeReverseEdges c ds g) = graph_records g"
  "graph_dirty (removeReverseEdges c ds g) = graph_dirty g"
  "graph_removalDirty (removeReverseEdges c ds g) = graph_removalDirty g"
  "graph_compare (removeReverseEdges c ds g) = graph_compare g"
  "graph_records (addReverseEdges c ds g) = graph_records g"
  "graph_dirty (addReverseEdges c ds g) = graph_dirty g"
  "graph_removalDirty (addReverseEdges c ds g) = graph_removalDirty g"
  "graph_compare (addReverseEdges c ds g) = graph_compare g"
  unfolding removeReverseEdges_def addReverseEdges_def
  by (induction ds arbitrary: g) (auto simp: removeReverseEdge_def addReverseEdge_def Let_def)

lemma edges_rel_removes: "edges_rel g E \<Longrightarrow> edges_rel (removeReverseEdges c ds g) (E - {c} \<times> set ds)"
proof (induction ds arbitrary: g E)
  case Nil
  then show ?case by (simp add: removeReverseEdges_def)
next
  case (Cons d ds)
  have "E - {c} \<times> set (d # ds) = E - {(c, d)} - {c} \<times> set ds" by auto
  with Cons.IH [OF edges_rel_remove [OF Cons.prems, of c d]] show ?case
    by (simp add: removeReverseEdges_def)
qed

lemma edges_rel_adds: "edges_rel g E \<Longrightarrow> edges_rel (addReverseEdges c ds g) (E \<union> {c} \<times> set ds)"
proof (induction ds arbitrary: g E)
  case Nil
  then show ?case by (simp add: addReverseEdges_def)
next
  case (Cons d ds)
  have "E \<union> {c} \<times> set (d # ds) = insert (c, d) E \<union> {c} \<times> set ds" by auto
  with Cons.IH [OF edges_rel_add [OF Cons.prems, of c d]] show ?case
    by (simp add: addReverseEdges_def)
qed

lemma edges_rel_frame:
  "graph_reverse g' = graph_reverse g \<Longrightarrow> edges_rel g' E = edges_rel g E"
  by (simp add: edges_rel_def consumers_of_def)

subsection \<open>Invalidation\<close>

text \<open>\<open>marked g ts cs rc g'\<close>: \<open>g'\<close> is \<open>g\<close> with the owners \<open>cs\<close> made dirty.\<close>

definition marked :: "(type_ref \<Rightarrow> string) \<Rightarrow> graph \<Rightarrow> artifact_owner set \<Rightarrow> bool \<Rightarrow> graph \<Rightarrow> bool" where
  "marked ts g cs rc g' \<longleftrightarrow>
     graph_records g' = graph_records g \<and> graph_reverse g' = graph_reverse g \<and>
     graph_compare g' = graph_compare g \<and> owner_queue_inv ts (graph_dirty g') \<and>
     set (queue_owners (graph_dirty g')) = set (queue_owners (graph_dirty g)) \<union> cs \<and>
     set (graph_removalDirty g') = set (graph_removalDirty g) \<union> (if rc then cs else {}) \<and>
     (distinct (graph_removalDirty g) \<longrightarrow> distinct (graph_removalDirty g'))"

lemma marked_refl: "owner_queue_inv ts (graph_dirty g) \<Longrightarrow> marked ts g {} rc g"
  by (simp add: marked_def)

lemma marked_trans: "marked ts g cs rc g1 \<Longrightarrow> marked ts g1 ds rc g2 \<Longrightarrow> marked ts g (cs \<union> ds) rc g2"
  by (auto simp: marked_def)

lemma marked_markDirty:
  "owner_queue_inv ts (graph_dirty g) \<Longrightarrow> marked ts g {c} rc (markDirty rc c g)"
  using dq.inv_push [of ts "graph_dirty g" c] dq.set_content_push [of ts "graph_dirty g" c]
  by (auto simp: marked_def markDirty_def Let_def)

lemma marked_fold:
  "owner_queue_inv ts (graph_dirty g) \<Longrightarrow> marked ts g (set cs) rc (fold (markDirty rc) cs g)"
proof (induction cs arbitrary: g)
  case Nil
  then show ?case by (simp add: marked_refl)
next
  case (Cons c cs)
  have m: "marked ts g {c} rc (markDirty rc c g)" using Cons.prems by (rule marked_markDirty)
  then have "owner_queue_inv ts (graph_dirty (markDirty rc c g))" by (simp add: marked_def)
  from marked_trans [OF m Cons.IH [OF this]] show ?case by simp
qed

lemma invalidate_marked:
  assumes "owner_Valid owner"
  shows "owner_queue_inv ts (graph_dirty g) \<Longrightarrow> (\<And>f. f \<in> set fs \<Longrightarrow> facet_Valid f) \<Longrightarrow>
    \<exists>g'. invalidateConsumers owner fs rc g = (None, g') \<and>
      marked ts g {c. \<exists>f \<in> set fs. c \<in> set (consumers_of g \<lparr>dependency_provider = owner, dependency_facet = f\<rparr>)} rc g'"
proof (induction fs arbitrary: g)
  case Nil
  then show ?case by (simp add: marked_refl)
next
  case (Cons f fs)
  let ?d = "\<lparr>dependency_provider = owner, dependency_facet = f\<rparr>"
  let ?g = "fold (markDirty rc) (consumers_of g ?d) g"
  have d: "NewArtifactDependency owner f = Inr ?d" using assms Cons.prems by simp
  have m: "marked ts g (set (consumers_of g ?d)) rc ?g" using Cons.prems by (intro marked_fold)
  then have q: "owner_queue_inv ts (graph_dirty ?g)" and same: "consumers_of ?g e = consumers_of g e" for e
    by (simp_all add: marked_def consumers_of_def)
  obtain g' where g': "invalidateConsumers owner fs rc ?g = (None, g')"
    "marked ts ?g {c. \<exists>f \<in> set fs. c \<in> set (consumers_of g \<lparr>dependency_provider = owner, dependency_facet = f\<rparr>)} rc g'"
    using Cons.IH [OF q] Cons.prems by (auto simp: same)
  have "set (consumers_of g ?d) \<union>
      {c. \<exists>f \<in> set fs. c \<in> set (consumers_of g \<lparr>dependency_provider = owner, dependency_facet = f\<rparr>)} =
      {c. \<exists>f \<in> set (f # fs). c \<in> set (consumers_of g \<lparr>dependency_provider = owner, dependency_facet = f\<rparr>)}"
    by auto
  with marked_trans [OF m g'(2)] g'(1) show ?case
    by (simp only: invalidateConsumers.simps d sum.case) blast
qed

subsection \<open>Publishing\<close>

lemma reverse_delta_view:
  assumes "contract_view p = contract_view q"
  shows "reverseContractDelta fl p n = reverseContractDelta fl q n"
proof -
  have "hasFacet p f = hasFacet q f" "facet_bytes p f = facet_bytes q f" for f
    using contract_view_eqD [OF assms, of f] by (simp_all add: hasFacet_def facet_bytes_def)
  then have "facetDelta fl p n = facetDelta fl q n"
      "changedArtifactFacets p n = changedArtifactFacets q n"
    by (auto simp: facetDelta_def changedArtifactFacets_def fun_eq_iff)
  then show ?thesis by (simp add: reverseContractDelta_def recordFacetDelta_def [abs_def])
qed

lemma record_rep_append:
  assumes "record_rep fl r cs" "published_ok c"
  shows "\<exists>h. history_append fl (record_contract r) c (record_history r) = Some h \<and> history_rep fl h (cs @ [c])"
proof -
  have "history_append fl (record_contract r) c (record_history r) =
      history_append fl (last cs) c (record_history r)"
    using assms(1) reverse_delta_view [of "record_contract r" "last cs" fl c]
    by (simp add: history_append_def record_rep_def)
  then show ?thesis
    using assms history_rep_append [of fl "record_history r" cs c] by (simp add: record_rep_def)
qed

lemma graph_inv_marked:
  assumes g: "graph_inv fl ts g" and m: "marked ts g cs rc g'" and cs: "cs \<subseteq> fst ` set (graph_records g)"
  shows "graph_inv fl ts g'"
proof -
  have "depends g' = depends g" using m by (simp add: depends_def marked_def fun_eq_iff)
  then show ?thesis
    using g m cs edges_rel_frame [of g' g] by (auto simp: graph_inv_def marked_def)
qed

definition detach :: "artifact_owner \<Rightarrow> graph \<Rightarrow> graph" where
  "detach owner g =
     (case gm_get (graph_records g) owner of None \<Rightarrow> g
      | Some r \<Rightarrow> removeReverseEdges owner (record_dependencies r) g)"

lemma detach_frame [simp]:
  "graph_records (detach owner g) = graph_records g" "graph_dirty (detach owner g) = graph_dirty g"
  "graph_removalDirty (detach owner g) = graph_removalDirty g" "graph_compare (detach owner g) = graph_compare g"
  by (simp_all add: detach_def reverse_frame split: option.split)

definition rebind :: "artifact_owner \<Rightarrow> artifactRecord \<Rightarrow> graph \<Rightarrow> graph" where
  "rebind owner r g = (addReverseEdges owner (record_dependencies r) (detach owner g))
     \<lparr>graph_records := gm_put owner r (graph_records g)\<rparr>"

lemma rebind_frame [simp]:
  "graph_records (rebind owner r g) = gm_put owner r (graph_records g)"
  "graph_dirty (rebind owner r g) = graph_dirty g"
  "graph_removalDirty (rebind owner r g) = graph_removalDirty g"
  "graph_compare (rebind owner r g) = graph_compare g"
  by (simp_all add: rebind_def reverse_frame)

lemma depends_rebind:
  "depends (rebind owner r g) c d \<longleftrightarrow> (if c = owner then d \<in> set (record_dependencies r) else depends g c d)"
  by (simp add: depends_def)

lemma edges_rel_rebind:
  assumes "edges_rel g {(c, d). depends g c d}"
  shows "edges_rel (rebind owner r g) {(c, d). depends (rebind owner r g) c d}"
proof -
  have detached: "edges_rel (detach owner g) {(c, d). depends g c d \<and> c \<noteq> owner}"
  proof (cases "gm_get (graph_records g) owner")
    case None
    then have "{(c, d). depends g c d \<and> c \<noteq> owner} = {(c, d). depends g c d}"
      by (auto simp: depends_def)
    then show ?thesis using None assms by (simp add: detach_def)
  next
    case (Some old)
    then have "{(c, d). depends g c d \<and> c \<noteq> owner} =
        {(c, d). depends g c d} - {owner} \<times> set (record_dependencies old)"
      by (auto simp: depends_def)
    then show ?thesis using Some edges_rel_removes [OF assms] by (simp add: detach_def)
  qed
  have "{(c, d). depends (rebind owner r g) c d} =
      {(c, d). depends g c d \<and> c \<noteq> owner} \<union> {owner} \<times> set (record_dependencies r)"
    by (auto simp: depends_rebind split: if_splits)
  with edges_rel_adds [OF detached, of owner "record_dependencies r"] show ?thesis
    by (simp add: rebind_def edges_rel_frame [of "_\<lparr>graph_records := _\<rparr>"])
qed

lemma graph_inv_rebind:
  assumes "graph_inv fl ts g" "owner_Valid owner" "record_ok fl r"
  shows "graph_inv fl ts (rebind owner r g)"
  using assms edges_rel_rebind [of g owner r] by (auto simp: graph_inv_def)

text \<open>The contract a commit compares with: the recorded one, or the absent contract.\<close>

definition current_contract :: "graph \<Rightarrow> artifact_owner \<Rightarrow> contract" where
  "current_contract g owner =
     (case gm_get (graph_records g) owner of None \<Rightarrow> absent_contract | Some r \<Rightarrow> record_contract r)"

text \<open>The effect of a successful commit, as a relation between the graphs before and after.\<close>

definition published :: "go_flate \<Rightarrow> artifact_owner \<Rightarrow> contract \<Rightarrow> artifact_dependency list \<Rightarrow>
    artifact_facet list \<Rightarrow> bool \<Rightarrow> graph \<Rightarrow> graph \<Rightarrow> artifactRecord \<Rightarrow> bool" where
  "published fl owner c deps changed rc g g' r \<longleftrightarrow>
     (\<forall>k. gm_get (graph_records g') k = (if k = owner then Some r else gm_get (graph_records g) k)) \<and>
     record_contract r = c \<and> record_dependencies r = deps \<and>
     (case gm_get (graph_records g) owner of
        None \<Rightarrow> record_rep fl r [c] \<and> record_facetRevisions r = firstRevisions c []
      | Some old \<Rightarrow> (\<forall>cs. record_rep fl old cs \<longrightarrow> record_rep fl r (if changed = [] then cs else cs @ [c])) \<and>
          record_facetRevisions r = revise changed (record_facetRevisions old)) \<and>
     set (queue_owners (graph_dirty g')) = set (queue_owners (graph_dirty g)) \<union>
       {k. \<exists>f \<in> set changed. depends g' k \<lparr>dependency_provider = owner, dependency_facet = f\<rparr>} \<and>
     set (graph_removalDirty g') = set (graph_removalDirty g) \<union>
       (if rc then {k. \<exists>f \<in> set changed. depends g' k \<lparr>dependency_provider = owner, dependency_facet = f\<rparr>} else {})"

lemma invalidate_rebind:
  assumes inv: "graph_inv fl ts g" and "owner_Valid owner" "\<And>f. f \<in> set fs \<Longrightarrow> facet_Valid f"
  shows "\<exists>g'. invalidateConsumers owner fs rc g = (None, g') \<and> graph_inv fl ts g' \<and>
    graph_records g' = graph_records g \<and>
    set (queue_owners (graph_dirty g')) = set (queue_owners (graph_dirty g)) \<union>
      {k. \<exists>f \<in> set fs. depends g' k \<lparr>dependency_provider = owner, dependency_facet = f\<rparr>} \<and>
    set (graph_removalDirty g') = set (graph_removalDirty g) \<union>
      (if rc then {k. \<exists>f \<in> set fs. depends g' k \<lparr>dependency_provider = owner, dependency_facet = f\<rparr>} else {})"
proof -
  have q: "owner_queue_inv ts (graph_dirty g)" and e: "edges_rel g {(c, d). depends g c d}"
    using inv by (auto simp: graph_inv_def)
  have cs: "k \<in> set (consumers_of g d) \<longleftrightarrow> depends g k d" for k d
    using edges_rel_consumers(2) [OF e, of d] by simp
  obtain g' where g': "invalidateConsumers owner fs rc g = (None, g')"
      "marked ts g {k. \<exists>f \<in> set fs. depends g k \<lparr>dependency_provider = owner, dependency_facet = f\<rparr>} rc g'"
    using invalidate_marked [OF assms(2) q assms(3), of fs rc] by (auto simp: cs)
  have "{k. \<exists>f \<in> set fs. depends g k \<lparr>dependency_provider = owner, dependency_facet = f\<rparr>}
      \<subseteq> fst ` set (graph_records g)"
    by (auto simp: depends_def dest: gm_get_key)
  then have "graph_inv fl ts g'" using graph_inv_marked [OF inv g'(2)] by blast
  moreover have "depends g' = depends g" using g'(2) by (simp add: depends_def marked_def fun_eq_iff)
  ultimately show ?thesis using g' by (auto simp: marked_def)
qed

lemma rebind_unfold:
  "record_dependencies r = deps \<Longrightarrow>
   (addReverseEdges owner deps (detach owner g))\<lparr>graph_records :=
      gm_put owner r (graph_records (addReverseEdges owner deps (detach owner g)))\<rparr> = rebind owner r g"
  by (simp add: rebind_def reverse_frame)

lemma publish_published:
  assumes inv: "graph_inv fl ts g" and valid: "owner_Valid owner" and ok: "published_ok c"
    and deps: "distinct deps" "list_all dependency_Valid deps"
    and changed: "changed = changedArtifactFacets (current_contract g owner) c"
  shows "\<exists>g' r. publish fl owner c c deps changed rc g = Some (None, g') \<and> graph_inv fl ts g' \<and>
    published fl owner c deps changed rc g g' r"
proof (cases "gm_get (graph_records g) owner")
  case None
  obtain h where h: "history_initialize c [] = Some h" "history_rep fl h [c]"
    using history_rep_initialize [OF ok] by blast
  define r where "r = \<lparr>record_baseContract = c, record_contract = c, record_history = h,
    record_dependencies = deps, record_facetRevisions = firstRevisions c []\<rparr>"
  have rep: "record_rep fl r [c]" using h ok by (simp add: record_rep_def r_def)
  then have rok: "record_ok fl r" using deps by (auto simp: record_ok_def r_def)
  have "detach owner g = g" by (simp add: detach_def None)
  then have pub: "publish fl owner c c deps changed rc g =
      Some (invalidateConsumers owner changed rc (rebind owner r g))"
    using rebind_unfold [of r deps owner g] None h(1) by (simp add: publish_def r_def Let_def)
  obtain g' where g': "invalidateConsumers owner changed rc (rebind owner r g) = (None, g')"
      "graph_inv fl ts g'" "graph_records g' = graph_records (rebind owner r g)"
      "set (queue_owners (graph_dirty g')) = set (queue_owners (graph_dirty (rebind owner r g))) \<union>
        {k. \<exists>f \<in> set changed. depends g' k \<lparr>dependency_provider = owner, dependency_facet = f\<rparr>}"
      "set (graph_removalDirty g') = set (graph_removalDirty (rebind owner r g)) \<union>
        (if rc then {k. \<exists>f \<in> set changed. depends g' k \<lparr>dependency_provider = owner, dependency_facet = f\<rparr>} else {})"
    using invalidate_rebind [OF graph_inv_rebind [OF inv valid rok] valid, of changed rc]
    by (auto simp: changed changed_facets)
  have "published fl owner c deps changed rc g g' r"
    unfolding published_def using g'(3-5) None rep by (simp add: r_def)
  with pub g' show ?thesis by auto
next
  case (Some old)
  have oldok: "record_ok fl old" using inv Some by (auto simp: graph_inv_def)
  then obtain cs where cs: "record_rep fl old cs" by (auto simp: record_ok_def)
  then have hne: "record_history old \<noteq> []" by (auto simp: record_rep_def history_rep_def)
  have d: "removeReverseEdges owner (record_dependencies old) g = detach owner g"
    by (simp add: detach_def Some)
  have ch: "changed = changedArtifactFacets (record_contract old) c"
    using changed by (simp add: current_contract_def Some)
  show ?thesis
  proof (cases "changed = []")
    case True
    define r where "r = old\<lparr>record_baseContract := c, record_dependencies := deps, record_contract := c\<rparr>"
    have view: "contract_view (record_contract old) = contract_view c"
      using True ch by (simp add: changed_Nil)
    have rep: "record_rep fl r ds" if "record_rep fl old ds" for ds
      using that ok view by (simp add: record_rep_def r_def)
    then have rok: "record_ok fl r" using cs deps by (auto simp: record_ok_def r_def)
    have pub: "publish fl owner c c deps changed rc g = Some (None, rebind owner r g)"
      using rebind_unfold [of r deps owner g] Some hne True
      by (simp add: publish_def r_def Let_def d)
    have "published fl owner c deps changed rc g (rebind owner r g) r"
      unfolding published_def using Some rep True by (simp add: r_def revise_def)
    with pub graph_inv_rebind [OF inv valid rok] show ?thesis by auto
  next
    case False
    obtain h where h: "history_append fl (record_contract old) c (record_history old) = Some h"
      "history_rep fl h (cs @ [c])"
      using record_rep_append [OF cs ok] by blast
    define r where "r = old\<lparr>record_baseContract := c, record_dependencies := deps, record_contract := c,
      record_history := h, record_facetRevisions := revise changed (record_facetRevisions old)\<rparr>"
    have rep: "record_rep fl r (ds @ [c])" if "record_rep fl old ds" for ds
      using record_rep_append [OF that ok] h(1) ok by (auto simp: record_rep_def r_def)
    then have rok: "record_ok fl r" using cs deps by (auto simp: record_ok_def r_def)
    have pub: "publish fl owner c c deps changed rc g =
        Some (invalidateConsumers owner changed rc (rebind owner r g))"
      using rebind_unfold [of r deps owner g] Some hne False h(1)
      by (simp add: publish_def r_def Let_def d)
    obtain g' where g': "invalidateConsumers owner changed rc (rebind owner r g) = (None, g')"
        "graph_inv fl ts g'" "graph_records g' = graph_records (rebind owner r g)"
        "set (queue_owners (graph_dirty g')) = set (queue_owners (graph_dirty (rebind owner r g))) \<union>
          {k. \<exists>f \<in> set changed. depends g' k \<lparr>dependency_provider = owner, dependency_facet = f\<rparr>}"
        "set (graph_removalDirty g') = set (graph_removalDirty (rebind owner r g)) \<union>
          (if rc then {k. \<exists>f \<in> set changed. depends g' k \<lparr>dependency_provider = owner, dependency_facet = f\<rparr>} else {})"
      using invalidate_rebind [OF graph_inv_rebind [OF inv valid rok] valid, of changed rc]
      by (auto simp: changed changed_facets)
    have "published fl owner c deps changed rc g g' r"
      unfolding published_def using g'(3-5) Some rep False by (simp add: r_def)
    with pub g' show ?thesis by auto
  qed
qed

subsection \<open>Commit, by outcome\<close>

definition contract_accepted :: "contract \<Rightarrow> bool" where
  "contract_accepted c \<longleftrightarrow> contract_initialized c \<and>
     hasFacet c ArtifactFacetExportSurface = contract_exportsSet c"

definition oscillates :: "go_flate \<Rightarrow> graph \<Rightarrow> artifact_owner \<Rightarrow> contract \<Rightarrow> bool" where
  "oscillates fl g owner c \<longleftrightarrow>
     (\<exists>r cs. gm_get (graph_records g) owner = Some r \<and> record_rep fl r cs \<and>
        contract_view c \<noteq> contract_view (last cs) \<and> contract_view c \<in> contract_view ` set cs)"

lemma validateArtifactContract_Inr:
  "validateArtifactContract owner c = (if contract_accepted c then Inr c else
     Inl (GraphError owner no_owner ArtifactFacetInvalid
       (if contract_initialized c then ''target artifact export surface is not declaration-projected''
        else ''target artifact observable contract is absent'')))"
  by (auto simp: validateArtifactContract_def contract_accepted_def)

lemma record_rep_contains:
  assumes "flate_ok fl" "record_rep fl r cs" "published_ok c"
  shows "history_contains fl (record_history r) (record_contract r) c =
    Some (contract_view c \<in> contract_view ` set cs)"
  using assms history_contains_rep [OF assms(1), of "record_history r" cs "record_contract r" c]
  by (simp add: record_rep_def)

lemma commit_accepted:
  assumes fl: "flate_ok fl" and inv: "graph_inv fl ts g" and wf: "contract_wf c"
    and acc: "owner_Valid owner" "contract_accepted c" "list_all dependency_Valid deps"
    and free: "auth \<or> owner \<in> set (graph_removalDirty g) \<or> \<not> oscillates fl g owner c"
  shows "\<exists>g' r. commit fl quote owner c deps auth g = Some (None, g') \<and> graph_inv fl ts g' \<and>
    published fl owner c (gs_of deps) (changedArtifactFacets (current_contract g owner) c)
      (auth \<or> owner \<in> set (graph_removalDirty g)) g g' r"
proof -
  let ?auth = "auth \<or> owner \<in> set (graph_removalDirty g)"
  have ok: "published_ok c" using wf acc(2) by (simp add: published_ok_def contract_accepted_def)
  have d: "list_all dependency_Valid (gs_of deps)" using acc(3) by (simp add: list_all_iff)
  have "commit fl quote owner c deps auth g =
      publish fl owner c c (gs_of deps) (changedArtifactFacets (current_contract g owner) c) ?auth g"
  proof (cases "gm_get (graph_records g) owner")
    case None
    then show ?thesis using acc
      by (simp add: commit_def validateArtifactContract_Inr current_contract_def Let_def)
  next
    case (Some r)
    then obtain cs where cs: "record_rep fl r cs"
      using inv unfolding graph_inv_def record_ok_def by blast
    note has = record_rep_contains [OF fl cs ok]
    have view: "changedArtifactFacets (record_contract r) c \<noteq> [] \<longleftrightarrow> contract_view c \<noteq> contract_view (last cs)"
      using cs by (auto simp: record_rep_def changed_Nil)
    have "?auth \<or> \<not> (contract_view c \<noteq> contract_view (last cs) \<and> contract_view c \<in> contract_view ` set cs)"
      using free cs Some by (auto simp: oscillates_def)
    then show ?thesis using acc Some has view
      by (auto simp: commit_def validateArtifactContract_Inr current_contract_def Let_def)
  qed
  then show ?thesis
    using publish_published [OF inv acc(1) ok distinct_gs_of d refl, of ?auth] by simp
qed

lemma commit_oscillates:
  assumes fl: "flate_ok fl" and inv: "graph_inv fl ts g" and wf: "contract_wf c"
    and acc: "owner_Valid owner" "contract_accepted c" "list_all dependency_Valid deps"
    and bound: "\<not> auth" "owner \<notin> set (graph_removalDirty g)" "oscillates fl g owner c"
  shows "commit fl quote owner c deps auth g = Some (Some (ConvergenceError owner
      (changedArtifactFacets (current_contract g owner) c)
      (artifactFacetTransitions quote (current_contract g owner) c
        (changedArtifactFacets (current_contract g owner) c))), g)"
proof -
  have ok: "published_ok c" using wf acc(2) by (simp add: published_ok_def contract_accepted_def)
  obtain r cs where r: "gm_get (graph_records g) owner = Some r" "record_rep fl r cs"
    and v: "contract_view c \<noteq> contract_view (last cs)" "contract_view c \<in> contract_view ` set cs"
    using bound(3) by (auto simp: oscillates_def)
  have "changedArtifactFacets (record_contract r) c \<noteq> []"
    using r(2) v(1) by (auto simp: record_rep_def changed_Nil)
  then show ?thesis
    using acc bound(1,2) r(1) v(2) record_rep_contains [OF fl r(2) ok]
    by (simp add: commit_def validateArtifactContract_Inr current_contract_def Let_def)
qed

lemma commit_rejected:
  assumes "\<not> owner_Valid owner \<or> \<not> contract_accepted c \<or> \<not> list_all dependency_Valid deps"
  shows "\<exists>e. commit fl quote owner c deps auth g = Some (Some e, g)"
  using assms by (auto simp: commit_def validateArtifactContract_Inr)

lemma graph_inv_commit:
  assumes "flate_ok fl" "graph_inv fl ts g" "contract_wf c"
  shows "\<exists>e g'. commit fl quote owner c deps auth g = Some (e, g') \<and> graph_inv fl ts g'"
proof (cases "owner_Valid owner \<and> contract_accepted c \<and> list_all dependency_Valid deps")
  case True
  then show ?thesis
    using commit_accepted [OF assms, of owner deps auth quote]
      commit_oscillates [OF assms, of owner deps auth quote] assms(2)
    by (cases "auth \<or> owner \<in> set (graph_removalDirty g) \<or> \<not> oscillates fl g owner c") blast+
next
  case False
  then show ?thesis using commit_rejected [of owner c deps fl quote auth g] assms(2) by blast
qed

subsection \<open>The other operations\<close>

lemma graph_inv_DiscardDirty:
  assumes "graph_inv fl ts g"
  shows "graph_inv fl ts (DiscardDirty owner g)"
proof -
  have q: "queue_inv (graph_dirty g)" "queue_compare (graph_dirty g) = CompareArtifactOwners ts"
    using assms by (auto simp: graph_inv_def owner_queue_inv_def)
  have "set (queue_owners (queue_discard owner (graph_dirty g))) \<subseteq> set (queue_owners (graph_dirty g))"
    using queue_discard_content [OF q(1), of owner] by (metis diff_subset_eq_self set_mset_mono set_mset_mset)
  moreover have "owner_queue_inv ts (queue_discard owner (graph_dirty g))"
    using queue_inv_discard [OF q(1)] q by (simp add: owner_queue_inv_def owner_order.compare_preorder_axioms)
  moreover have "depends (DiscardDirty owner g) = depends g"
    by (simp add: depends_def DiscardDirty_def fun_eq_iff)
  ultimately show ?thesis
    using assms edges_rel_frame [of "DiscardDirty owner g" g "{(c, d). depends g c d}"]
    by (auto simp: graph_inv_def DiscardDirty_def)
qed

lemma graph_inv_NextDirty:
  assumes inv: "graph_inv fl ts g" and nx: "NextDirty g = (w, g')"
  shows "graph_inv fl ts g'"
proof -
  obtain q where p: "queue_pop (graph_dirty g) = (w, q)" and g': "g' = g\<lparr>graph_dirty := q\<rparr>"
    using nx by (auto simp: NextDirty_def split: prod.splits)
  have qi: "owner_queue_inv ts (graph_dirty g)" using inv by (simp add: graph_inv_def)
  have "owner_queue_inv ts q \<and> set (queue_owners q) \<subseteq> set (queue_owners (graph_dirty g))"
  proof (cases w)
    case None
    then show ?thesis using dq.pop_none [OF qi, of q] p qi by auto
  next
    case (Some x)
    then show ?thesis using dq.pop_some [OF qi, of x q] p
      by (metis insert_iff set_mset_add_mset_insert set_mset_mset subsetI)
  qed
  moreover have "depends g' = depends g" by (simp add: depends_def g' fun_eq_iff)
  ultimately show ?thesis
    using inv edges_rel_frame [of g' g "{(c, d). depends g c d}"] by (auto simp: graph_inv_def g')
qed

text \<open>The graphs the program can reach by calls of the exported operations.\<close>

inductive graph_reachable :: "go_flate \<Rightarrow> (bytes \<Rightarrow> string) \<Rightarrow> (type_ref \<Rightarrow> string) \<Rightarrow> graph \<Rightarrow> bool"
  for fl quote ts where
  reach_new: "graph_reachable fl quote ts (NewGraph (CompareArtifactOwners ts))"
| reach_commit: "graph_reachable fl quote ts g \<Longrightarrow> contract_wf c \<Longrightarrow>
    commit fl quote owner c deps auth g = Some (e, g') \<Longrightarrow> graph_reachable fl quote ts g'"
| reach_next: "graph_reachable fl quote ts g \<Longrightarrow> NextDirty g = (w, g') \<Longrightarrow> graph_reachable fl quote ts g'"
| reach_discard: "graph_reachable fl quote ts g \<Longrightarrow> graph_reachable fl quote ts (DiscardDirty owner g)"

lemma reachable_inv:
  assumes "graph_reachable fl quote ts g" "flate_ok fl"
  shows "graph_inv fl ts g"
  using assms(1)
proof (induction rule: graph_reachable.induct)
  case reach_new
  then show ?case by simp
next
  case (reach_commit g c owner deps auth e g')
  then show ?case using graph_inv_commit [OF assms(2), of ts g c quote owner deps auth] by auto
next
  case (reach_next g w g')
  then show ?case by (blast intro: graph_inv_NextDirty)
next
  case (reach_discard g owner)
  then show ?case by (blast intro: graph_inv_DiscardDirty)
qed

subsection \<open>Closure\<close>

definition dependency_met :: "graph \<Rightarrow> artifact_dependency \<Rightarrow> bool" where
  "dependency_met g d \<longleftrightarrow> (\<exists>p. gm_get (graph_records g) (dependency_provider d) = Some p \<and>
     hasFacet (record_contract p) (dependency_facet d))"

lemma verifyDependencies_None:
  "verifyDependencies g c ds = None \<longleftrightarrow> (\<forall>d \<in> set ds. dependency_met g d)"
  by (induction ds) (auto simp: dependency_met_def split: option.split)

lemma verifyDependencies_Some:
  "verifyDependencies g c ds = Some e \<Longrightarrow>
     \<exists>d \<in> set ds. \<not> dependency_met g d \<and>
       (\<exists>why. e = GraphError c (dependency_provider d) (dependency_facet d) why)"
  by (induction ds) (auto simp: dependency_met_def split: option.splits if_splits)

lemma verifyConsumers_None:
  "verifyConsumers g cs = None \<longleftrightarrow> (\<forall>c \<in> set cs. \<forall>d. depends g c d \<longrightarrow> dependency_met g d)"
proof (induction cs)
  case Nil
  then show ?case by simp
next
  case (Cons c cs)
  let ?v = "case gm_get (graph_records g) c of None \<Rightarrow> None
    | Some r \<Rightarrow> verifyDependencies g c (sortedDependencies g r)"
  have v: "?v = None \<longleftrightarrow> (\<forall>d. depends g c d \<longrightarrow> dependency_met g d)"
    by (auto simp: depends_def sortedDependencies_def verifyDependencies_None split: option.split)
  show ?case
  proof (cases ?v)
    case None
    with v Cons.IH show ?thesis by simp
  next
    case (Some e)
    with v show ?thesis by auto
  qed
qed

lemma verifyConsumers_Some:
  "verifyConsumers g cs = Some e \<Longrightarrow>
     \<exists>c \<in> set cs. \<exists>d. depends g c d \<and> \<not> dependency_met g d \<and>
       (\<exists>why. e = GraphError c (dependency_provider d) (dependency_facet d) why)"
proof (induction cs)
  case Nil
  then show ?case by simp
next
  case (Cons c cs)
  show ?case
  proof (cases "gm_get (graph_records g) c")
    case None
    with Cons show ?thesis by auto
  next
    case (Some r)
    show ?thesis
    proof (cases "verifyDependencies g c (sortedDependencies g r)")
      case None
      with Some Cons show ?thesis by auto
    next
      case (Some e')
      with \<open>gm_get (graph_records g) c = Some r\<close> Cons.prems verifyDependencies_Some [OF Some]
      show ?thesis by (auto simp: depends_def sortedDependencies_def)
    qed
  qed
qed

lemma VerifyClosure_iff:
  "VerifyClosure g = None \<longleftrightarrow> (\<forall>c d. depends g c d \<longrightarrow> dependency_met g d)"
proof -
  have "c \<in> set (gm_keys (graph_records g))" if "depends g c d" for c d
    using that gm_get_key unfolding depends_def set_map by metis
  then show ?thesis unfolding VerifyClosure_def verifyConsumers_None set_sort_by by blast
qed

lemma VerifyClosure_evidence:
  "VerifyClosure g = Some e \<Longrightarrow> \<exists>c d why. depends g c d \<and> \<not> dependency_met g d \<and>
     e = GraphError c (dependency_provider d) (dependency_facet d) why"
  unfolding VerifyClosure_def by (drule verifyConsumers_Some) blast

subsection \<open>Revisions and edges\<close>

lemma revise_get:
  "distinct fs \<Longrightarrow> (case gm_get (revise fs m) f of None \<Rightarrow> 0 | Some n \<Rightarrow> n) =
     (case gm_get m f of None \<Rightarrow> 0 | Some n \<Rightarrow> n) + (if f \<in> set fs then 1 else 0)"
  by (induction fs arbitrary: m) (auto simp: revise_def split: option.split)

lemma firstRevisions_fold:
  "gm_get (fold (\<lambda>facet m. if hasFacet c facet then gm_put facet 1 m else m) fs m) f =
     (if f \<in> set fs \<and> hasFacet c f then Some 1 else gm_get m f)"
  by (induction fs arbitrary: m) auto

lemma firstRevisions_get:
  "gm_get (firstRevisions c m) f = (if hasFacet c f then Some 1 else gm_get m f)"
  using firstRevisions_fold [of c facet_range m f]
  by (auto simp: firstRevisions_def set_facet_range hasFacet_def contract_facet_eq)

lemma revision_published:
  assumes "published fl owner c deps changed rc g g' r" "changed = changedArtifactFacets (current_contract g owner) c"
  shows "FacetRevision g' k f = FacetRevision g k f + (if k = owner \<and> f \<in> set changed then 1 else 0)"
proof (cases "gm_get (graph_records g) owner")
  case None
  then show ?thesis using assms
    by (auto simp: published_def FacetRevision_def firstRevisions_get current_contract_def changed_facets
        hasFacet_def) (auto simp: contract_facet_eq split: if_splits)
next
  case (Some old)
  then show ?thesis using assms revise_get [of changed "record_facetRevisions old" f]
    by (auto simp: published_def FacetRevision_def)
qed

end
