(* ===== verification/DirtyBatch.thy ===== *)
theory DirtyBatch
  imports GraphInvariant
begin

text \<open>
  The order in which a batch of dirty artifacts is reconstructed
  (\<open>internal/emit/artifact/dirty_batch.go\<close>): providers before their consumers where the
  dependencies among the pending owners are acyclic; an owner of a cycle is taken in comparator
  order when nothing is ready.
\<close>

record batch =
  batch_pending :: "artifact_owner list"
  batch_indegree :: "(artifact_owner, int) gomap"
  batch_consumers :: "(artifact_owner, artifact_owner list) gomap"
  batch_remaining :: "artifact_owner owner_queue"
  batch_ready :: "artifact_owner owner_queue"

lemma length_moveDown [simp]: "length (queue_owners (moveDown q i)) = length (queue_owners q)"
proof (induction q i rule: moveDown.induct)
  case (1 q i)
  then show ?case by (subst moveDown.simps) (auto simp: Let_def)
qed

lemma length_moveUp [simp]: "length (queue_owners (moveUp q i)) = length (queue_owners q)"
proof (induction q i rule: moveUp.induct)
  case (1 q i)
  then show ?case by (subst moveUp.simps) (auto simp: Let_def)
qed

lemma queue_pop_shorter:
  "queue_pop q = (Some x, q') \<Longrightarrow> length (queue_owners q') < length (queue_owners q)"
  by (auto simp: queue_pop_def removeAt_def Let_def split: if_splits)

function popPendingOwner ::
    "artifact_owner owner_queue \<Rightarrow> artifact_owner list \<Rightarrow> artifact_owner option \<times> artifact_owner owner_queue" where
  "popPendingOwner queue pending =
     (case queue_pop queue of
        (None, queue) \<Rightarrow> (None, queue)
      | (Some owner, queue) \<Rightarrow>
          if owner \<in> set pending then (Some owner, queue) else popPendingOwner queue pending)"
  by pat_completeness auto
termination
  by (relation "measure (\<lambda>(q, _). length (queue_owners q))") (auto dest: queue_pop_shorter [OF sym])

declare popPendingOwner.simps [simp del]

text \<open>The distinct providers of a consumer that are pending themselves.\<close>

definition pendingProviders :: "graph \<Rightarrow> artifact_owner list \<Rightarrow> artifact_owner \<Rightarrow> artifact_owner list" where
  "pendingProviders g pending consumer =
     (case gm_get (graph_records g) consumer of
        None \<Rightarrow> []
      | Some r \<Rightarrow> gs_of (filter (\<lambda>p. p \<in> set pending) (map dependency_provider (record_dependencies r))))"

definition addConsumer :: "artifact_owner \<Rightarrow> artifact_owner \<Rightarrow> batch \<Rightarrow> batch" where
  "addConsumer consumer provider b =
     b\<lparr>batch_consumers := gm_put provider (value_or [] (batch_consumers b) provider @ [consumer])
        (batch_consumers b)\<rparr>"

definition countProviders :: "graph \<Rightarrow> artifact_owner \<Rightarrow> batch \<Rightarrow> batch" where
  "countProviders g consumer b =
     (if gm_get (graph_records g) consumer = None then b
      else
        let providers = pendingProviders g (batch_pending b) consumer;
            b = b\<lparr>batch_indegree := gm_put consumer (int (length providers)) (batch_indegree b)\<rparr>
        in fold (addConsumer consumer) providers b)"

definition batch_start :: "graph \<Rightarrow> batch" where
  "batch_start g =
     (let pending = gm_keys (queue_indices (graph_dirty g));
          b = \<lparr>batch_pending = pending, batch_indegree = [], batch_consumers = [],
               batch_remaining = fold queue_push pending (newArtifactOwnerQueue (graph_compare g)),
               batch_ready = newArtifactOwnerQueue (graph_compare g)\<rparr>;
          b = fold (countProviders g) pending b
      in b\<lparr>batch_ready :=
            fold queue_push (filter (\<lambda>owner. value_or 0 (batch_indegree b) owner = 0) pending) (batch_ready b)\<rparr>)"

definition releaseConsumer :: "artifact_owner \<Rightarrow> batch \<Rightarrow> batch" where
  "releaseConsumer consumer b =
     (if consumer \<notin> set (batch_pending b) then b
      else
        let degree = value_or 0 (batch_indegree b) consumer - 1;
            b = b\<lparr>batch_indegree := gm_put consumer degree (batch_indegree b)\<rparr>
        in if degree = 0 then b\<lparr>batch_ready := queue_push consumer (batch_ready b)\<rparr> else b)"

definition selectOwner :: "batch \<Rightarrow> (artifact_owner \<times> batch) option" where
  "selectOwner b =
     (case popPendingOwner (batch_ready b) (batch_pending b) of
        (Some selected, ready) \<Rightarrow> Some (selected, b\<lparr>batch_ready := ready\<rparr>)
      | (None, ready) \<Rightarrow>
          (case popPendingOwner (batch_remaining b) (batch_pending b) of
             (Some selected, remaining) \<Rightarrow>
               Some (selected, b\<lparr>batch_ready := ready, batch_remaining := remaining\<rparr>)
           | (None, _) \<Rightarrow> None))"

definition takeOwner :: "artifact_owner \<Rightarrow> batch \<Rightarrow> batch" where
  "takeOwner selected b =
     (let b = b\<lparr>batch_pending := gs_delete selected (batch_pending b)\<rparr>
      in fold releaseConsumer (value_or [] (batch_consumers b) selected) b)"

lemma popPendingOwner_pending:
  "popPendingOwner q pending = (Some x, q') \<Longrightarrow> x \<in> set pending"
proof (induction q pending rule: popPendingOwner.induct)
  case (1 q pending)
  show ?case
    using "1.prems" "1.IH" unfolding popPendingOwner.simps [of q pending]
    by (auto split: prod.splits option.splits if_splits)
qed

lemma releaseConsumer_pending [simp]: "batch_pending (releaseConsumer c b) = batch_pending b"
  by (simp add: releaseConsumer_def Let_def)

lemma fold_release_pending [simp]: "batch_pending (fold releaseConsumer cs b) = batch_pending b"
  by (induction cs arbitrary: b) auto

lemma takeOwner_pending [simp]: "batch_pending (takeOwner x b) = gs_delete x (batch_pending b)"
  by (simp add: takeOwner_def Let_def)

lemma selectOwner_pending:
  "selectOwner b = Some (x, b') \<Longrightarrow> x \<in> set (batch_pending b) \<and> batch_pending b' = batch_pending b"
  by (auto simp: selectOwner_def split: prod.splits option.splits dest: popPendingOwner_pending)

lemma length_gs_delete: "x \<in> set xs \<Longrightarrow> length (gs_delete x xs) < length xs"
  by (auto simp: gs_delete_def intro: length_filter_less)

text \<open>The main loop; \<open>None\<close> is the panic \<open>dirty artifact batch lost its pending owner\<close>.\<close>

function drainBatch :: "batch \<Rightarrow> artifact_owner list option" where
  "drainBatch b =
     (if length (batch_pending b) = 0 then Some []
      else case selectOwner b of
        None \<Rightarrow> None
      | Some (selected, b) \<Rightarrow>
          (case drainBatch (takeOwner selected b) of
             None \<Rightarrow> None | Some result \<Rightarrow> Some (selected # result)))"
  by pat_completeness auto
termination
  by (relation "measure (\<lambda>b. length (batch_pending b))")
    (auto dest!: selectOwner_pending intro: length_gs_delete)

declare drainBatch.simps [simp del]

definition graph_DirtyBatch :: "graph \<Rightarrow> artifact_owner list option" where
  "graph_DirtyBatch g =
     (if \<not> queue_pending (graph_dirty g) then Some [] else drainBatch (batch_start g))"

subsection \<open>Popping and releasing\<close>

lemma popPendingOwner_facts:
  assumes "owner_queue_inv ts q"
  shows "case popPendingOwner q pending of
      (None, q') \<Rightarrow> owner_queue_inv ts q' \<and> queue_owners q' = [] \<and> set (queue_owners q) \<inter> set pending = {}
    | (Some x, q') \<Rightarrow> owner_queue_inv ts q' \<and> x \<in> set (queue_owners q) \<and> x \<in> set pending \<and>
        set (queue_owners q) \<inter> set pending - {x} \<subseteq> set (queue_owners q') \<and>
        set (queue_owners q') \<subseteq> set (queue_owners q)"
  using assms
proof (induction q pending rule: popPendingOwner.induct)
  case (1 q pending)
  obtain w q1 where pop: "queue_pop q = (w, q1)" by (cases "queue_pop q")
  show ?case
  proof (cases w)
    case None
    then show ?thesis
      using pop dq.pop_none [OF "1.prems", of q1] "1.prems"
      by (subst popPendingOwner.simps) simp
  next
    case (Some x)
    note f = dq.pop_some [OF "1.prems", of x q1, unfolded pop [unfolded Some] simp_thms]
    have "mset (queue_owners q) = add_mset x (mset (queue_owners q1))" using f pop Some by blast
    then have s: "set (queue_owners q) = insert x (set (queue_owners q1))"
      by (metis set_mset_add_mset_insert set_mset_mset)
    have inv: "owner_queue_inv ts q1" using f pop Some by blast
    show ?thesis
    proof (cases "x \<in> set pending")
      case True
      then show ?thesis using pop Some s inv by (subst popPendingOwner.simps) auto
    next
      case False
      have "popPendingOwner q pending = popPendingOwner q1 pending"
        using pop Some False by (subst popPendingOwner.simps) simp
      moreover note "1.IH" [OF pop [symmetric, unfolded Some] refl False inv]
      ultimately show ?thesis using s False by (auto split: prod.splits option.splits)
    qed
  qed
qed

lemma releaseConsumer_facts:
  assumes "owner_queue_inv ts (batch_ready b)"
  shows "owner_queue_inv ts (batch_ready (releaseConsumer c b)) \<and>
    batch_consumers (releaseConsumer c b) = batch_consumers b \<and>
    batch_remaining (releaseConsumer c b) = batch_remaining b \<and>
    (\<forall>k. value_or 0 (batch_indegree (releaseConsumer c b)) k =
       value_or 0 (batch_indegree b) k - (if k = c \<and> c \<in> set (batch_pending b) then 1 else 0)) \<and>
    set (queue_owners (batch_ready (releaseConsumer c b))) = set (queue_owners (batch_ready b)) \<union>
       (if c \<in> set (batch_pending b) \<and> value_or 0 (batch_indegree b) c = 1 then {c} else {})"
  using dq.inv_push [OF assms, of c] dq.set_content_push [OF assms, of c] assms
  by (auto simp: releaseConsumer_def Let_def)

lemma fold_release_facts:
  "distinct cs \<Longrightarrow> owner_queue_inv ts (batch_ready b) \<Longrightarrow>
    owner_queue_inv ts (batch_ready (fold releaseConsumer cs b)) \<and>
    batch_consumers (fold releaseConsumer cs b) = batch_consumers b \<and>
    batch_remaining (fold releaseConsumer cs b) = batch_remaining b \<and>
    (\<forall>k. value_or 0 (batch_indegree (fold releaseConsumer cs b)) k =
       value_or 0 (batch_indegree b) k - (if k \<in> set cs \<and> k \<in> set (batch_pending b) then 1 else 0)) \<and>
    set (queue_owners (batch_ready (fold releaseConsumer cs b))) = set (queue_owners (batch_ready b)) \<union>
       {c \<in> set cs. c \<in> set (batch_pending b) \<and> value_or 0 (batch_indegree b) c = 1}"
proof (induction cs arbitrary: b)
  case Nil
  then show ?case by simp
next
  case (Cons c cs)
  have d: "distinct cs" "c \<notin> set cs" using Cons.prems by auto
  note r = releaseConsumer_facts [OF Cons.prems(2), of c]
  note ih = Cons.IH [OF d(1), of "releaseConsumer c b"]
  have "\<forall>k \<in> set cs. value_or 0 (batch_indegree (releaseConsumer c b)) k = value_or 0 (batch_indegree b) k"
    using r d(2) by auto
  with r ih show ?case by (auto simp: d)
qed

definition batch_inv ::
    "(type_ref \<Rightarrow> string) \<Rightarrow> artifact_owner set \<Rightarrow> (artifact_owner \<Rightarrow> artifact_owner set) \<Rightarrow> batch \<Rightarrow> bool" where
  "batch_inv ts P0 prov b \<longleftrightarrow>
     distinct (batch_pending b) \<and> set (batch_pending b) \<subseteq> P0 \<and>
     owner_queue_inv ts (batch_remaining b) \<and> owner_queue_inv ts (batch_ready b) \<and>
     set (batch_pending b) \<subseteq> set (queue_owners (batch_remaining b)) \<and>
     (\<forall>c \<in> set (batch_pending b).
        value_or 0 (batch_indegree b) c = int (card (prov c \<inter> set (batch_pending b)))) \<and>
     (\<forall>c \<in> set (batch_pending b).
        c \<in> set (queue_owners (batch_ready b)) \<longleftrightarrow> prov c \<inter> set (batch_pending b) = {}) \<and>
     (\<forall>p \<in> P0. distinct (value_or [] (batch_consumers b) p) \<and>
        set (value_or [] (batch_consumers b) p) = {c \<in> P0. p \<in> prov c})"

definition chosen_inv ::
    "(type_ref \<Rightarrow> string) \<Rightarrow> (artifact_owner \<Rightarrow> artifact_owner set) \<Rightarrow> artifact_owner \<Rightarrow> batch \<Rightarrow> batch \<Rightarrow> bool" where
  "chosen_inv ts prov x b b' \<longleftrightarrow>
     x \<in> set (batch_pending b) \<and> batch_pending b' = batch_pending b \<and>
     batch_indegree b' = batch_indegree b \<and> batch_consumers b' = batch_consumers b \<and>
     owner_queue_inv ts (batch_remaining b') \<and> owner_queue_inv ts (batch_ready b') \<and>
     set (batch_pending b) - {x} \<subseteq> set (queue_owners (batch_remaining b')) \<and>
     (\<forall>c \<in> set (batch_pending b) - {x}.
        c \<in> set (queue_owners (batch_ready b')) \<longleftrightarrow> c \<in> set (queue_owners (batch_ready b))) \<and>
     ((\<exists>c \<in> set (batch_pending b). prov c \<inter> set (batch_pending b) = {}) \<longrightarrow>
        prov x \<inter> set (batch_pending b) = {})"

lemma selectOwner_chosen:
  assumes inv: "batch_inv ts P0 prov b" and ne: "batch_pending b \<noteq> []"
  shows "\<exists>x b'. selectOwner b = Some (x, b') \<and> chosen_inv ts prov x b b'"
proof -
  let ?P = "batch_pending b"
  have q: "owner_queue_inv ts (batch_ready b)" "owner_queue_inv ts (batch_remaining b)"
    and rem: "set ?P \<subseteq> set (queue_owners (batch_remaining b))"
    and rdy: "\<And>c. c \<in> set ?P \<Longrightarrow> c \<in> set (queue_owners (batch_ready b)) \<longleftrightarrow> prov c \<inter> set ?P = {}"
    using inv by (auto simp: batch_inv_def)
  obtain w r1 where p1: "popPendingOwner (batch_ready b) ?P = (w, r1)" by fastforce
  note f1 = popPendingOwner_facts [OF q(1), of ?P, unfolded p1]
  show ?thesis
  proof (cases w)
    case (Some x)
    then have "selectOwner b = Some (x, b\<lparr>batch_ready := r1\<rparr>)" using p1 by (simp add: selectOwner_def)
    moreover have "chosen_inv ts prov x b (b\<lparr>batch_ready := r1\<rparr>)"
      using f1 Some q(2) rem rdy by (auto simp: chosen_inv_def)
    ultimately show ?thesis by blast
  next
    case None
    obtain v r2 where p2: "popPendingOwner (batch_remaining b) ?P = (v, r2)" by fastforce
    note f2 = popPendingOwner_facts [OF q(2), of ?P, unfolded p2]
    have "v \<noteq> None" using f2 rem ne by (cases v; cases ?P) auto
    then obtain x where v: "v = Some x" by blast
    then have "selectOwner b = Some (x, b\<lparr>batch_ready := r1, batch_remaining := r2\<rparr>)"
      using p1 p2 None by (simp add: selectOwner_def)
    moreover have "chosen_inv ts prov x b (b\<lparr>batch_ready := r1, batch_remaining := r2\<rparr>)"
      using f1 f2 None v rem rdy by (auto simp: chosen_inv_def)
    ultimately show ?thesis by blast
  qed
qed

lemma takeOwner_inv:
  assumes inv: "batch_inv ts P0 prov b" and ch: "chosen_inv ts prov x b b'"
    and fin: "\<And>c. finite (prov c)"
  shows "batch_inv ts P0 prov (takeOwner x b')"
proof -
  let ?P = "set (batch_pending b)" and ?b = "b'\<lparr>batch_pending := gs_delete x (batch_pending b)\<rparr>"
  let ?cs = "value_or [] (batch_consumers b) x"
  have x: "x \<in> ?P" "x \<in> P0" using inv ch by (auto simp: batch_inv_def chosen_inv_def)
  have cs: "distinct ?cs" "set ?cs = {c \<in> P0. x \<in> prov c}" using inv x by (auto simp: batch_inv_def)
  have t: "takeOwner x b' = fold releaseConsumer ?cs ?b"
    using ch by (simp add: takeOwner_def chosen_inv_def Let_def)
  have same: "batch_indegree b' = batch_indegree b" "batch_consumers b' = batch_consumers b"
    using ch by (auto simp: chosen_inv_def)
  have rq: "owner_queue_inv ts (batch_ready ?b)" using ch by (simp add: chosen_inv_def)
  note f = fold_release_facts [OF cs(1) rq]
  have pend: "set (batch_pending (takeOwner x b')) = ?P - {x}"
    using ch by (simp add: chosen_inv_def)
  have split: "card (prov c \<inter> ?P) = card (prov c \<inter> (?P - {x})) + (if x \<in> prov c then 1 else 0)" for c
  proof (cases "x \<in> prov c")
    case True
    then have "prov c \<inter> ?P = insert x (prov c \<inter> (?P - {x}))" using x by auto
    then show ?thesis using True fin by simp
  next
    case False
    then have "prov c \<inter> ?P = prov c \<inter> (?P - {x})" by auto
    then show ?thesis using False by simp
  qed
  have deg: "value_or 0 (batch_indegree b) c = int (card (prov c \<inter> ?P))" if "c \<in> ?P" for c
    using inv that by (auto simp: batch_inv_def)
  have mem: "c \<in> set ?cs \<longleftrightarrow> x \<in> prov c" if "c \<in> ?P" for c
    using that cs inv by (auto simp: batch_inv_def)
  have P: "set (batch_pending ?b) = ?P - {x}" by simp
  have ready: "c \<in> set (queue_owners (batch_ready (takeOwner x b'))) \<longleftrightarrow> prov c \<inter> (?P - {x}) = {}"
    if c: "c \<in> ?P - {x}" for c
  proof -
    have "c \<in> set (queue_owners (batch_ready (takeOwner x b'))) \<longleftrightarrow>
        prov c \<inter> ?P = {} \<or> x \<in> prov c \<and> card (prov c \<inter> ?P) = 1"
      using f c ch inv deg [of c] mem [of c] by (auto simp: t same batch_inv_def chosen_inv_def)
    also have "\<dots> \<longleftrightarrow> prov c \<inter> (?P - {x}) = {}"
      using split [of c] fin [of c] x by (auto simp: card_eq_0_iff)
    finally show ?thesis .
  qed
  have "value_or 0 (batch_indegree (takeOwner x b')) c = int (card (prov c \<inter> (?P - {x})))"
    if c: "c \<in> ?P - {x}" for c
    using f c deg [of c] mem [of c] split [of c] by (auto simp: t same)
  with ready show ?thesis
    unfolding batch_inv_def pend
    using f inv ch by (auto simp: t same batch_inv_def chosen_inv_def)
qed

text \<open>The loop ends with a permutation of the pending owners, in dependency order when there is one.\<close>

lemma drainBatch_facts:
  assumes "batch_inv ts P0 prov b" "\<And>c. finite (prov c)"
  shows "\<exists>rs. drainBatch b = Some rs \<and> distinct rs \<and> set rs = set (batch_pending b) \<and>
    ((\<forall>Q. Q \<subseteq> set (batch_pending b) \<longrightarrow> Q \<noteq> {} \<longrightarrow> (\<exists>c \<in> Q. prov c \<inter> Q = {})) \<longrightarrow>
      (\<forall>i < length rs. prov (rs ! i) \<inter> set (batch_pending b) \<subseteq> set (take i rs)))"
  using assms(1)
proof (induction b rule: drainBatch.induct)
  case (1 b)
  let ?P = "set (batch_pending b)"
  show ?case
  proof (cases "batch_pending b = []")
    case True
    then show ?thesis by (subst drainBatch.simps) simp
  next
    case False
    obtain x b' where sel: "selectOwner b = Some (x, b')" and ch: "chosen_inv ts prov x b b'"
      using selectOwner_chosen [OF "1.prems" False] by blast
    have inv': "batch_inv ts P0 prov (takeOwner x b')" by (rule takeOwner_inv [OF "1.prems" ch assms(2)])
    have pend: "set (batch_pending (takeOwner x b')) = ?P - {x}" using ch by (simp add: chosen_inv_def)
    have x: "x \<in> ?P" using ch by (simp add: chosen_inv_def)
    obtain rs where rs: "drainBatch (takeOwner x b') = Some rs" "distinct rs" "set rs = ?P - {x}"
      and ord: "(\<forall>Q. Q \<subseteq> ?P - {x} \<longrightarrow> Q \<noteq> {} \<longrightarrow> (\<exists>c \<in> Q. prov c \<inter> Q = {})) \<Longrightarrow>
        \<forall>i < length rs. prov (rs ! i) \<inter> (?P - {x}) \<subseteq> set (take i rs)"
      using "1.IH" [of "(x, b')" x b'] False sel inv' pend by auto
    have d: "drainBatch b = Some (x # rs)"
      using sel rs(1) False by (subst drainBatch.simps) simp
    have "prov ((x # rs) ! i) \<inter> ?P \<subseteq> set (take i (x # rs))"
      if ac: "\<forall>Q. Q \<subseteq> ?P \<longrightarrow> Q \<noteq> {} \<longrightarrow> (\<exists>c \<in> Q. prov c \<inter> Q = {})" and i: "i < length (x # rs)" for i
    proof (cases i)
      case 0
      have "\<exists>c \<in> ?P. prov c \<inter> ?P = {}" using ac x by blast
      then show ?thesis using ch 0 by (simp add: chosen_inv_def)
    next
      case (Suc j)
      have "\<forall>Q. Q \<subseteq> ?P - {x} \<longrightarrow> Q \<noteq> {} \<longrightarrow> (\<exists>c \<in> Q. prov c \<inter> Q = {})" using ac by blast
      then have "prov (rs ! j) \<inter> (?P - {x}) \<subseteq> set (take j rs)" using ord i Suc by simp
      then show ?thesis using Suc by auto
    qed
    with d rs x show ?thesis by auto
  qed
qed

subsection \<open>The start of a batch\<close>

definition pending_prov :: "graph \<Rightarrow> artifact_owner set \<Rightarrow> artifact_owner \<Rightarrow> artifact_owner set" where
  "pending_prov g P c = {p \<in> P. \<exists>d. depends g c d \<and> dependency_provider d = p}"

lemma pendingProviders_set:
  "set (pendingProviders g pending c) = pending_prov g (set pending) c"
  by (cases "gm_get (graph_records g) c") (auto simp: pendingProviders_def pending_prov_def depends_def)

lemma distinct_pendingProviders [simp]: "distinct (pendingProviders g pending c)"
  by (simp add: pendingProviders_def split: option.split)

lemma fold_queue_push:
  "owner_queue_inv ts q \<Longrightarrow> owner_queue_inv ts (fold queue_push xs q) \<and>
     set (queue_owners (fold queue_push xs q)) = set (queue_owners q) \<union> set xs"
proof (induction xs arbitrary: q)
  case Nil
  then show ?case by simp
next
  case (Cons x xs)
  show ?case
    using Cons.IH [OF dq.inv_push [OF Cons.prems, of x]] dq.set_content_push [OF Cons.prems, of x] by auto
qed

lemma fold_addConsumer:
  "distinct ps \<Longrightarrow>
    batch_pending (fold (addConsumer c) ps b) = batch_pending b \<and>
    batch_indegree (fold (addConsumer c) ps b) = batch_indegree b \<and>
    batch_remaining (fold (addConsumer c) ps b) = batch_remaining b \<and>
    batch_ready (fold (addConsumer c) ps b) = batch_ready b \<and>
    (\<forall>p. value_or [] (batch_consumers (fold (addConsumer c) ps b)) p =
       value_or [] (batch_consumers b) p @ (if p \<in> set ps then [c] else []))"
  by (induction ps arbitrary: b) (auto simp: addConsumer_def)

lemma countProviders_facts:
  "batch_pending (countProviders g c b) = batch_pending b \<and>
    batch_remaining (countProviders g c b) = batch_remaining b \<and>
    batch_ready (countProviders g c b) = batch_ready b \<and>
    (c \<notin> fst ` set (batch_indegree b) \<longrightarrow> value_or 0 (batch_indegree (countProviders g c b)) c =
       int (length (pendingProviders g (batch_pending b) c))) \<and>
    (\<forall>k. k \<noteq> c \<longrightarrow> value_or 0 (batch_indegree (countProviders g c b)) k = value_or 0 (batch_indegree b) k) \<and>
    fst ` set (batch_indegree (countProviders g c b)) \<subseteq> insert c (fst ` set (batch_indegree b)) \<and>
    (\<forall>p. value_or [] (batch_consumers (countProviders g c b)) p = value_or [] (batch_consumers b) p @
       (if p \<in> set (pendingProviders g (batch_pending b) c) then [c] else []))"
proof (cases "gm_get (graph_records g) c")
  case None
  then show ?thesis
    by (auto simp: countProviders_def pendingProviders_def value_or_def gm_get_none [symmetric])
next
  case (Some r)
  have d: "distinct (pendingProviders g (batch_pending b) c)" by simp
  show ?thesis using fold_addConsumer [OF d, of c] Some
    by (auto simp: countProviders_def Let_def)
qed

lemma fold_countProviders:
  "distinct cs \<Longrightarrow> set cs \<inter> fst ` set (batch_indegree b) = {} \<Longrightarrow>
    batch_pending (fold (countProviders g) cs b) = batch_pending b \<and>
    batch_remaining (fold (countProviders g) cs b) = batch_remaining b \<and>
    batch_ready (fold (countProviders g) cs b) = batch_ready b \<and>
    (\<forall>k. value_or 0 (batch_indegree (fold (countProviders g) cs b)) k =
       (if k \<in> set cs then int (length (pendingProviders g (batch_pending b) k))
        else value_or 0 (batch_indegree b) k)) \<and>
    (\<forall>p. value_or [] (batch_consumers (fold (countProviders g) cs b)) p = value_or [] (batch_consumers b) p @
       filter (\<lambda>c. p \<in> set (pendingProviders g (batch_pending b) c)) cs)"
proof (induction cs arbitrary: b)
  case Nil
  then show ?case by simp
next
  case (Cons c cs)
  note f = countProviders_facts [of g c b]
  have "fst ` set (batch_indegree (countProviders g c b)) \<subseteq> insert c (fst ` set (batch_indegree b))"
    using f by blast
  moreover have "c \<notin> set cs" "set cs \<inter> fst ` set (batch_indegree b) = {}"
    using Cons.prems by auto
  ultimately have "set cs \<inter> fst ` set (batch_indegree (countProviders g c b)) = {}" by blast
  with Cons.IH [of "countProviders g c b"] Cons.prems f show ?case by auto
qed

lemma batch_start_inv:
  assumes inv: "graph_inv fl ts g"
  defines "P \<equiv> set (queue_owners (graph_dirty g))"
  shows "batch_inv ts P (pending_prov g P) (batch_start g)" "set (batch_pending (batch_start g)) = P"
proof -
  let ?pending = "gm_keys (queue_indices (graph_dirty g))"
  let ?b = "\<lparr>batch_pending = ?pending, batch_indegree = [], batch_consumers = [],
    batch_remaining = fold queue_push ?pending (newArtifactOwnerQueue (graph_compare g)),
    batch_ready = newArtifactOwnerQueue (graph_compare g)\<rparr>"
  have io: "index_ok (graph_dirty g)" and cmp: "graph_compare g = CompareArtifactOwners ts"
    using inv by (auto simp: graph_inv_def owner_queue_inv_def queue_inv_def)
  have pend: "distinct ?pending" "set ?pending = P" using io by (auto simp: index_ok_def P_def)
  have new: "owner_queue_inv ts (newArtifactOwnerQueue (graph_compare g))"
    using dq.inv_empty cmp by simp
  note f = fold_countProviders [OF pend(1), of ?b g, simplified, folded set_map]
  let ?c = "fold (countProviders g) ?pending ?b"
  have ind: "value_or 0 (batch_indegree ?c) c = int (card (pending_prov g P c \<inter> P))" if "c \<in> P" for c
  proof -
    have "card (pending_prov g P c) = length (pendingProviders g ?pending c)"
      using pendingProviders_set [of g ?pending c] distinct_card [OF distinct_pendingProviders, of g ?pending c]
      by (simp only: pend)
    moreover have "pending_prov g P c \<inter> P = pending_prov g P c" by (auto simp: pending_prov_def)
    ultimately show ?thesis using f that pend by simp
  qed
  have start: "batch_start g = ?c\<lparr>batch_ready := fold queue_push
      (filter (\<lambda>owner. value_or 0 (batch_indegree ?c) owner = 0) ?pending) (batch_ready ?c)\<rparr>"
    by (simp add: batch_start_def Let_def)
  have fin: "finite (pending_prov g P c)" for c by (simp add: pending_prov_def P_def)
  note rem = fold_queue_push [OF new, of ?pending]
  have rd: "batch_ready ?c = newArtifactOwnerQueue (graph_compare g)" using f by simp
  note rdy = fold_queue_push [OF new, of "filter (\<lambda>owner. value_or 0 (batch_indegree ?c) owner = 0) ?pending"]
  have "distinct (batch_pending (batch_start g))" "set (batch_pending (batch_start g)) = P"
    using f pend by (simp_all add: start)
  moreover have "owner_queue_inv ts (batch_remaining (batch_start g))"
      "set (queue_owners (batch_remaining (batch_start g))) = P"
    using f rem pend by (simp_all add: start)
  moreover have "owner_queue_inv ts (batch_ready (batch_start g))"
      "\<And>c. c \<in> P \<Longrightarrow> c \<in> set (queue_owners (batch_ready (batch_start g))) \<longleftrightarrow> pending_prov g P c \<inter> P = {}"
  proof -
    show "owner_queue_inv ts (batch_ready (batch_start g))" using rdy by (simp add: start rd)
    fix c assume c: "c \<in> P"
    have "c \<in> set (queue_owners (batch_ready (batch_start g))) \<longleftrightarrow> value_or 0 (batch_indegree ?c) c = 0"
      using rdy c pend(2) by (auto simp: start rd)
    then show "c \<in> set (queue_owners (batch_ready (batch_start g))) \<longleftrightarrow> pending_prov g P c \<inter> P = {}"
      using ind [OF c] fin [of c] by (simp add: card_eq_0_iff)
  qed
  moreover have "value_or 0 (batch_indegree (batch_start g)) c = int (card (pending_prov g P c \<inter> P))" if "c \<in> P" for c
    using ind [OF that] by (simp add: start)
  moreover have "value_or [] (batch_consumers (batch_start g)) p =
      filter (\<lambda>c. p \<in> pending_prov g P c) ?pending" for p
    using f pendingProviders_set [of g ?pending] pend by (simp add: start)
  ultimately show "batch_inv ts P (pending_prov g P) (batch_start g)" "set (batch_pending (batch_start g)) = P"
    using pend by (auto simp: batch_inv_def)
qed

text \<open>
  A batch of a reachable graph never panics; it holds every dirty owner once, and if the
  dependencies among the dirty owners are well founded, providers come before consumers.
\<close>

definition dirty_acyclic :: "graph \<Rightarrow> bool" where
  "dirty_acyclic g \<longleftrightarrow> (\<forall>Q. Q \<subseteq> set (queue_owners (graph_dirty g)) \<longrightarrow> Q \<noteq> {} \<longrightarrow>
     (\<exists>c \<in> Q. \<forall>d. depends g c d \<longrightarrow> dependency_provider d \<notin> Q))"

lemma DirtyBatch_facts:
  assumes "graph_inv fl ts g"
  shows "\<exists>rs. graph_DirtyBatch g = Some rs \<and> mset rs = mset (queue_owners (graph_dirty g)) \<and>
    (dirty_acyclic g \<longrightarrow> (\<forall>i < length rs. \<forall>d. depends g (rs ! i) d \<longrightarrow>
       dependency_provider d \<in> set (queue_owners (graph_dirty g)) \<longrightarrow> dependency_provider d \<in> set (take i rs)))"
proof (cases "queue_owners (graph_dirty g)")
  case Nil
  then show ?thesis by (simp add: graph_DirtyBatch_def queue_pending_def)
next
  case (Cons x xs)
  let ?P = "set (queue_owners (graph_dirty g))"
  note st = batch_start_inv [OF assms]
  have "finite (pending_prov g ?P c)" for c by (simp add: pending_prov_def)
  from drainBatch_facts [OF st(1) this] obtain rs where rs: "drainBatch (batch_start g) = Some rs"
      "distinct rs" "set rs = ?P"
    and ord: "(\<forall>Q. Q \<subseteq> ?P \<longrightarrow> Q \<noteq> {} \<longrightarrow> (\<exists>c \<in> Q. pending_prov g ?P c \<inter> Q = {})) \<longrightarrow>
      (\<forall>i < length rs. pending_prov g ?P (rs ! i) \<inter> ?P \<subseteq> set (take i rs))"
    unfolding st(2) by blast
  have "graph_DirtyBatch g = Some rs" using rs Cons by (simp add: graph_DirtyBatch_def queue_pending_def)
  moreover have "distinct (queue_owners (graph_dirty g))"
    using assms by (simp add: graph_inv_def owner_queue_inv_def queue_inv_def index_ok_def)
  then have "mset rs = mset (queue_owners (graph_dirty g))"
    using rs(2,3) by (simp add: set_eq_iff_mset_eq_distinct [symmetric])
  moreover have "\<forall>i < length rs. \<forall>d. depends g (rs ! i) d \<longrightarrow> dependency_provider d \<in> ?P \<longrightarrow>
      dependency_provider d \<in> set (take i rs)" if ac: "dirty_acyclic g"
  proof -
    have "\<exists>c \<in> Q. pending_prov g ?P c \<inter> Q = {}" if "Q \<subseteq> ?P" "Q \<noteq> {}" for Q
    proof -
      from ac [unfolded dirty_acyclic_def, THEN spec, THEN mp, THEN mp, OF that]
      obtain c where "c \<in> Q" "\<forall>d. depends g c d \<longrightarrow> dependency_provider d \<notin> Q" by (elim bexE)
      then show ?thesis by (auto simp: pending_prov_def)
    qed
    then have sub: "\<forall>i < length rs. pending_prov g ?P (rs ! i) \<inter> ?P \<subseteq> set (take i rs)" using ord by blast
    show ?thesis
    proof (intro allI impI)
      fix i d assume "i < length rs" "depends g (rs ! i) d" "dependency_provider d \<in> ?P"
      then have "dependency_provider d \<in> pending_prov g ?P (rs ! i) \<inter> ?P"
        unfolding pending_prov_def by blast
      then show "dependency_provider d \<in> set (take i rs)" using sub \<open>i < length rs\<close> by blast
    qed
  qed
  ultimately show ?thesis by blast
qed

end
