(* ===== verification/ArtifactProperties.thy ===== *)
theory ArtifactProperties
  imports DirtyBatch
begin

text \<open>
  What the artifact graph guarantees: the properties of the queue, the contract history, the commit,
  the closure check and the dirty batch, each with a concrete instance where it has hypotheses.
\<close>

subsection \<open>A concrete graph\<close>

text \<open>A compressor that shortens one block and is otherwise the identity behind a marker byte.\<close>

definition demo_flate :: go_flate where
  "demo_flate =
     \<lparr>flate_deflate = (\<lambda>b. if b = replicate 300 7 then [1] else 0 # b),
      flate_inflate = (\<lambda>b. case b of [] \<Rightarrow> None | x # rest \<Rightarrow>
         if x = 1 then Some (replicate 300 7) else Some rest)\<rparr>"

lemma demo_flate_ok: "flate_ok demo_flate"
  by (simp add: flate_ok_def demo_flate_def)

definition demo_owner :: "nat \<Rightarrow> artifact_owner" where
  "demo_owner n = no_owner\<lparr>owner_source := Some \<lparr>object_ref = n, object_package = None, object_parent = None,
     object_kind = VarObject, object_name = itoa n, object_type = None, object_pos = int n\<rparr>\<rparr>"

definition demo_contract :: "8 word \<Rightarrow> contract" where
  "demo_contract b = NewContract\<lparr>contract_facets := [[], [b], [], [], [], [], [], [], []],
     contract_present := 2\<rparr>"

definition demo_dependency :: "nat \<Rightarrow> artifact_dependency" where
  "demo_dependency n = \<lparr>dependency_provider = demo_owner n, dependency_facet = 1\<rparr>"

definition demo_commit :: "nat \<Rightarrow> 8 word \<Rightarrow> artifact_dependency list \<Rightarrow> graph \<Rightarrow> graph" where
  "demo_commit n b deps g =
     snd (the (commit demo_flate (\<lambda>_. []) (demo_owner n) (demo_contract b) deps False g))"

definition demo_new :: graph where
  "demo_new = NewGraph (CompareArtifactOwners (\<lambda>_. []))"

text \<open>Artifact 2 observes the signature of artifact 1, which is then published a second time.\<close>

definition demo_graph :: graph where
  "demo_graph = demo_commit 2 5 [demo_dependency 1] (demo_commit 1 5 [] demo_new)"

lemma demo_contract_ok: "contract_wf (demo_contract b)" "contract_accepted (demo_contract b)"
  by (simp_all add: contract_wf_def demo_contract_def NewContract_def absent_contract_def facet_defs
      facet_Valid_def bit_simps contract_accepted_def hasFacet_eq)

lemma demo_owner_ok: "owner_Valid (demo_owner n)"
  by (simp add: demo_owner_def owner_valid_defs)

lemma demo_dependency_ok: "dependency_Valid (demo_dependency n)"
  by (simp add: demo_dependency_def dependency_Valid_def demo_owner_ok facet_Valid_def facet_defs)

abbreviation demo_reachable :: "graph \<Rightarrow> bool" where
  "demo_reachable \<equiv> graph_reachable demo_flate (\<lambda>_. []) (\<lambda>_. [])"

lemma demo_reachable_commit: "demo_reachable g \<Longrightarrow> demo_reachable (demo_commit n b deps g)"
proof -
  assume g: "demo_reachable g"
  obtain e g' where "commit demo_flate (\<lambda>_. []) (demo_owner n) (demo_contract b) deps False g = Some (e, g')"
    using graph_inv_commit [OF demo_flate_ok reachable_inv [OF g demo_flate_ok] demo_contract_ok(1)] by blast
  with reach_commit [OF g demo_contract_ok(1) this] show ?thesis by (simp add: demo_commit_def)
qed

lemma demo_graph_reachable: "demo_reachable demo_new" "demo_reachable demo_graph"
  by (auto simp: demo_graph_def demo_new_def intro!: demo_reachable_commit reach_new)

lemma demo_inv: "graph_inv demo_flate (\<lambda>_. []) demo_graph"
  by (rule reachable_inv [OF demo_graph_reachable(2) demo_flate_ok])

lemma demo_commit_published:
  assumes "demo_reachable g" "\<not> oscillates demo_flate g (demo_owner n) (demo_contract b)"
    "list_all dependency_Valid deps"
  shows "\<exists>r. published demo_flate (demo_owner n) (demo_contract b) (gs_of deps)
    (changedArtifactFacets (current_contract g (demo_owner n)) (demo_contract b))
    (demo_owner n \<in> set (graph_removalDirty g)) g (demo_commit n b deps g) r"
proof -
  have "False \<or> demo_owner n \<in> set (graph_removalDirty g) \<or>
      \<not> oscillates demo_flate g (demo_owner n) (demo_contract b)"
    using assms(2) by blast
  from commit_accepted [OF demo_flate_ok reachable_inv [OF assms(1) demo_flate_ok] demo_contract_ok(1)
      demo_owner_ok demo_contract_ok(2) assms(3) this, of "\<lambda>_. []"]
  show ?thesis unfolding demo_commit_def by fastforce
qed

lemma demo_owner_inject [simp]: "demo_owner m = demo_owner n \<longleftrightarrow> m = n"
  by (auto simp: demo_owner_def no_owner_def)

lemma oscillates_new: "gm_get (graph_records g) w = None \<Longrightarrow> \<not> oscillates fl g w c"
  by (simp add: oscillates_def)

text \<open>Nothing in the demonstration is authorised to return to an older contract.\<close>

lemma demo_removal:
  "graph_removalDirty g = [] \<Longrightarrow> demo_reachable g \<Longrightarrow>
     graph_removalDirty (demo_commit n b deps g) = []"
proof -
  assume none: "graph_removalDirty g = []" and g: "demo_reachable g"
  have inv: "graph_inv demo_flate (\<lambda>_. []) g" by (rule reachable_inv [OF g demo_flate_ok])
  obtain w g' where c: "commit demo_flate (\<lambda>_. []) (demo_owner n) (demo_contract b) deps False g = Some (w, g')"
    using graph_inv_commit [OF demo_flate_ok inv demo_contract_ok(1)] by blast
  show ?thesis
  proof (cases "list_all dependency_Valid deps \<and> \<not> oscillates demo_flate g (demo_owner n) (demo_contract b)")
    case True
    then show ?thesis
      using demo_commit_published [OF g, of n b deps] none by (auto simp: published_def)
  next
    case False
    then have "\<exists>e. commit demo_flate (\<lambda>_. []) (demo_owner n) (demo_contract b) deps False g = Some (Some e, g)"
      using commit_rejected [of "demo_owner n" "demo_contract b" deps demo_flate "\<lambda>_. []" False g]
        commit_oscillates [OF demo_flate_ok inv demo_contract_ok(1) demo_owner_ok demo_contract_ok(2), of deps False n b]
        none by fastforce
    then show ?thesis using none by (auto simp: demo_commit_def)
  qed
qed

text \<open>What is known of the demonstration graph: the two records and the edge between them.\<close>

lemma demo_graph_facts:
  "\<exists>r. gm_get (graph_records demo_graph) (demo_owner 1) = Some r \<and> record_rep demo_flate r [demo_contract 5]"
  "depends demo_graph (demo_owner 2) (demo_dependency 1)"
proof -
  let ?g = "demo_commit 1 5 [] demo_new"
  have new: "gm_get (graph_records demo_new) k = None" for k by (simp add: demo_new_def NewGraph_def)
  obtain r where r: "published demo_flate (demo_owner 1) (demo_contract 5) (gs_of [])
      (changedArtifactFacets (current_contract demo_new (demo_owner 1)) (demo_contract 5))
      (demo_owner 1 \<in> set (graph_removalDirty demo_new)) demo_new ?g r"
    using demo_commit_published [OF demo_graph_reachable(1) oscillates_new [OF new], where n = 1 and b = 5 and deps = "[]"]
    by auto
  have 2: "gm_get (graph_records ?g) (demo_owner 2) = None" using r new by (simp add: published_def)
  obtain s where s: "published demo_flate (demo_owner 2) (demo_contract 5) (gs_of [demo_dependency 1])
      (changedArtifactFacets (current_contract ?g (demo_owner 2)) (demo_contract 5))
      (demo_owner 2 \<in> set (graph_removalDirty ?g)) ?g demo_graph s"
    using demo_commit_published [OF demo_reachable_commit [OF demo_graph_reachable(1)] oscillates_new [OF 2],
        where b = 5 and deps = "[demo_dependency 1]"] demo_dependency_ok by (auto simp: demo_graph_def)
  show "\<exists>r. gm_get (graph_records demo_graph) (demo_owner 1) = Some r \<and> record_rep demo_flate r [demo_contract 5]"
    using r s new by (simp add: published_def)
  show "depends demo_graph (demo_owner 2) (demo_dependency 1)"
    using s by (auto simp: published_def depends_def)
qed

subsection \<open>The dirty queue\<close>

datatype queue_op = PushOp artifact_owner | PopOp | DiscardOp artifact_owner

fun apply_queue_op :: "queue_op \<Rightarrow> artifact_owner owner_queue \<Rightarrow> artifact_owner owner_queue" where
  "apply_queue_op (PushOp w) q = queue_push w q"
| "apply_queue_op PopOp q = snd (queue_pop q)"
| "apply_queue_op (DiscardOp w) q = queue_discard w q"

definition run_queue :: "(type_ref \<Rightarrow> string) \<Rightarrow> queue_op list \<Rightarrow> artifact_owner owner_queue" where
  "run_queue ts ops = fold apply_queue_op ops (newArtifactOwnerQueue (CompareArtifactOwners ts))"

lemma queue_op_inv: "owner_queue_inv ts q \<Longrightarrow> owner_queue_inv ts (apply_queue_op w q)"
proof (induction w q rule: apply_queue_op.induct)
  case (1 w q)
  then show ?case by (simp add: dq.inv_push)
next
  case (2 q)
  obtain x q' where p: "queue_pop q = (x, q')" by fastforce
  then show ?case using dq.pop_none [OF 2, of q'] dq.pop_some [OF 2, of _ q'] 2
    by (cases x) auto
next
  case (3 w q)
  then show ?case
    using queue_inv_discard [of q w] by (simp add: owner_queue_inv_def owner_order.compare_preorder_axioms)
qed

lemma run_queue_inv: "owner_queue_inv ts (run_queue ts ops)"
proof -
  have "owner_queue_inv ts q \<Longrightarrow> owner_queue_inv ts (fold apply_queue_op ops q)" for q
    by (induction ops arbitrary: q) (auto simp: queue_op_inv)
  then show ?thesis using dq.inv_empty by (simp add: run_queue_def)
qed

text \<open>C8: After any sequence of pushes, pops and discards, the dirty queue holds every pending
  owner once, its index maps each owner to its position, and popping it until it is empty yields
  the pending owners in \<open>CompareArtifactOwners\<close> order.\<close>

theorem queue_drains_in_order:
  "let q = run_queue ts ops; out = dq.drain (length (queue_owners q)) q in
     mset out = mset (queue_owners q) \<and> distinct out \<and>
     sorted_wrt (\<lambda>x y. CompareArtifactOwners ts x y \<le> 0) out \<and>
     map (gm_get (queue_indices q)) (queue_owners q) = map Some [0..<length (queue_owners q)] \<and>
     mset (queue_owners (queue_discard w q)) = mset (queue_owners q) - {#w#}"
proof -
  let ?q = "run_queue ts ops"
  have inv: "owner_queue_inv ts ?q" by (rule run_queue_inv)
  then have q: "queue_inv ?q" by (simp add: owner_queue_inv_def)
  then have io: "index_ok ?q" by (simp add: queue_inv_def)
  let ?out = "dq.drain (length (queue_owners ?q)) ?q"
  have "mset ?out = mset (queue_owners ?q) \<and> sorted_wrt (\<lambda>x y. CompareArtifactOwners ts x y \<le> 0) ?out"
    by (rule dq.drain_all [OF inv]) simp
  then have m: "mset ?out = mset (queue_owners ?q)"
    and s: "sorted_wrt (\<lambda>x y. CompareArtifactOwners ts x y \<le> 0) ?out" by (rule conjunct1, rule conjunct2)
  have "distinct (queue_owners ?q)" using io by (simp add: index_ok_def)
  then have d: "distinct ?out" by (simp only: mset_eq_imp_distinct_iff [OF m])
  have p: "map (gm_get (queue_indices ?q)) (queue_owners ?q) = map Some [0..<length (queue_owners ?q)]"
  proof -
    have "\<forall>i < length (queue_owners ?q). gm_get (queue_indices ?q) (queue_owners ?q ! i) = Some i"
      using io unfolding index_ok_def by blast
    then show ?thesis by (intro nth_equalityI) auto
  qed
  show ?thesis
    unfolding Let_def
    by (rule conjI [OF m conjI [OF d conjI [OF s conjI [OF p queue_discard_content [OF q]]]]])
qed

subsection \<open>The contract history\<close>

text \<open>C7: Restoring a reverse delta on top of the newer contract gives back every facet of the older
  contract exactly, whatever the compressor does with the changed middle parts, as long as
  decompression inverts compression.\<close>

theorem restore_reverses_delta:
  assumes "flate_ok fl" "contract_wf older" "contract_wf newer"
  shows "\<exists>restored. restore fl (reverseContractDelta fl older newer) newer = Some restored \<and>
    contract_present restored = contract_present older \<and>
    map (contract_facet restored) facet_range = map (contract_facet older) facet_range"
  using restore_delta [OF assms(1) refl assms(3), of older] present_view [OF _ assms(2)]
  by (fastforce simp: contract_view_def)

theorem restore_reverses_delta_witness:
  "\<exists>restored. restore demo_flate (reverseContractDelta demo_flate (demo_contract 5) NewContract) NewContract
      = Some restored \<and> contract_present restored = 2 \<and>
    map (contract_facet restored) facet_range = map (contract_facet (demo_contract 5)) facet_range"
  using restore_reverses_delta [OF demo_flate_ok demo_contract_ok(1) [of 5] contract_wf_new]
  by (simp add: demo_contract_def)

text \<open>C4: The history, which stores only fingerprints and compressed reverse deltas, decides
  membership in the full list of published contracts: the check never panics and is true exactly
  when some published contract has the same facets as the candidate.\<close>

theorem history_contains_exact:
  assumes "flate_ok fl" "history_rep fl h cs" "cs \<noteq> []" "published_ok current"
    "contract_view current = contract_view (last cs)" "published_ok candidate"
  shows "history_contains fl h current candidate =
    Some (contract_view candidate \<in> contract_view ` set cs)"
  by (rule history_contains_rep [OF assms])

theorem history_contains_exact_witness:
  "\<exists>h. history_initialize (demo_contract 5) [] = Some h \<and>
     history_contains demo_flate h (demo_contract 5) (demo_contract 5) = Some True"
proof -
  have ok: "published_ok (demo_contract 5)"
    using demo_contract_ok by (simp add: published_ok_def contract_accepted_def)
  obtain h where "history_initialize (demo_contract 5) [] = Some h" "history_rep demo_flate h [demo_contract 5]"
    using history_rep_initialize [OF ok] by blast
  with history_contains_exact [OF demo_flate_ok this(2) _ ok _ ok] show ?thesis by simp
qed

lemma demo_small: "payload_small (demo_contract b)"
  by (simp add: payload_small_def facet_bytes_def contract_facet_eq demo_contract_def NewContract_def
      absent_contract_def facet_range_def facet_defs facet_Valid_def bit_simps upt_rec)

text \<open>C9: The bytes that \<open>Fingerprint\<close> digests determine the contract: two accepted contracts with
  the same payload have the same facets and the same exported names.\<close>

theorem fingerprint_payload_injective:
  assumes "payload_small c" "payload_small d" "fingerprintPayload c = fingerprintPayload d"
  shows "map (contract_facet c) facet_range = map (contract_facet d) facet_range \<and>
    contract_exports c = contract_exports d"
  using fingerprintPayload_view [OF assms] by (simp add: contract_view_def)

theorem fingerprint_payload_injective_witness:
  "let c = demo_contract 5; d = c\<lparr>contract_facets := (contract_facets c)[3 := [9]]\<rparr> in
     c \<noteq> d \<and> map (contract_facet c) facet_range = map (contract_facet d) facet_range \<and>
     contract_exports c = contract_exports d"
proof -
  let ?c = "demo_contract 5"
  let ?d = "?c\<lparr>contract_facets := (contract_facets ?c)[3 := [9]]\<rparr>"
  have f: "contract_facet ?d f = contract_facet ?c f" for f
    by (auto simp: contract_facet_eq demo_contract_def bit_2_iff)
  have "payload_small ?d"
    using demo_small [of 5] by (simp add: payload_small_def list_all_iff facet_bytes_def f)
  moreover have "fingerprintPayload ?c = fingerprintPayload ?d"
    by (simp add: fingerprintPayload_def fingerprintFacet_def [abs_def] f)
  ultimately have "map (contract_facet ?c) facet_range = map (contract_facet ?d) facet_range \<and>
      contract_exports ?c = contract_exports ?d"
    by (rule fingerprint_payload_injective [OF demo_small])
  moreover have "contract_facets ?c \<noteq> contract_facets ?d" by (simp add: demo_contract_def)
  then have "?c \<noteq> ?d" by metis
  ultimately show ?thesis unfolding Let_def by blast
qed

subsection \<open>Commits\<close>

lemma commit_success_published:
  assumes fl: "flate_ok fl" and inv: "graph_inv fl ts g" and wf: "contract_wf c"
    and com: "commit fl quote owner c deps auth g = Some (None, g')"
  shows "graph_inv fl ts g' \<and> (\<exists>r. published fl owner c (gs_of deps)
    (changedArtifactFacets (current_contract g owner) c) (auth \<or> owner \<in> set (graph_removalDirty g)) g g' r)"
proof -
  have acc: "owner_Valid owner" "contract_accepted c" "list_all dependency_Valid deps"
    using commit_rejected [of owner c deps fl quote auth g] com by fastforce+
  have free: "auth \<or> owner \<in> set (graph_removalDirty g) \<or> \<not> oscillates fl g owner c"
    using commit_oscillates [OF fl inv wf acc, of auth quote] com by fastforce
  from commit_accepted [OF fl inv wf acc free, of quote] com show ?thesis by auto
qed

lemma edge_count_dependencies:
  assumes "graph_inv fl ts g"
  shows "edgeCount g = (\<Sum>(_, r) \<leftarrow> graph_records g. length (record_dependencies r))"
proof -
  let ?E = "{(c, d). depends g c d}"
  have e: "edges_rel g ?E" and wf: "gm_wf (graph_records g)" using assms by (auto simp: graph_inv_def)
  have wfr: "gm_wf (graph_reverse g)" using e by (simp add: edges_rel_def)
  note cs = edges_rel_consumers [OF e]
  have keyed: "sum_list (map (\<lambda>(k, v). h v) m) = (\<Sum>k \<in> fst ` set m. h (the (gm_get m k)))"
    if "gm_wf m" for m :: "('x, 'y) gomap" and h :: "'y \<Rightarrow> nat"
  proof -
    have "sum_list (map (\<lambda>(k, v). h v) m) = sum_list (map (\<lambda>k. h (the (gm_get m k))) (gm_keys m))"
      using that by (intro arg_cong [of _ _ sum_list]) (auto simp: map_of_eq_Some_iff)
    also have "\<dots> = (\<Sum>k \<in> set (gm_keys m). h (the (gm_get m k)))"
      by (rule sum_list_distinct_conv_sum_set [OF that])
    finally show ?thesis by (simp only: set_map)
  qed
  have rev: "edgeCount g = card (SIGMA d:fst ` set (graph_reverse g). {c. depends g c d})"
  proof -
    have "length (the (gm_get (graph_reverse g) d)) = card {c. depends g c d}"
      if "d \<in> fst ` set (graph_reverse g)" for d
      using gm_key_get [OF that] cs [of d] distinct_card [OF cs(1) [of d]] by (auto simp: consumers_of_def)
    moreover have "finite {c. depends g c d}" for d
      using cs(2) [of d] by (metis (mono_tags, lifting) List.finite_set mem_Collect_eq case_prod_conv Collect_cong)
    ultimately show ?thesis
      using keyed [OF wfr, of length] by (simp add: edgeCount_def card_SigmaI)
  qed
  have recs: "(\<Sum>(_, r) \<leftarrow> graph_records g. length (record_dependencies r)) =
      card (SIGMA c:fst ` set (graph_records g). {d. depends g c d})"
  proof -
    have "length (record_dependencies (the (gm_get (graph_records g) c))) = card {d. depends g c d} \<and>
        finite {d. depends g c d}"
      if "c \<in> fst ` set (graph_records g)" for c
    proof -
      from gm_key_get [OF that] obtain r where r: "gm_get (graph_records g) c = Some r" by blast
      have "distinct (record_dependencies r)"
        using assms r unfolding graph_inv_def record_ok_def by blast
      moreover have "{d. depends g c d} = set (record_dependencies r)" using r by (auto simp: depends_def)
      ultimately show ?thesis using r distinct_card by fastforce
    qed
    then show ?thesis
      using keyed [OF wf, of "\<lambda>r. length (record_dependencies r)"] by (simp add: card_SigmaI)
  qed
  have "(SIGMA d:fst ` set (graph_reverse g). {c. depends g c d}) = {(d, c). depends g c d}"
  proof -
    have "d \<in> fst ` set (graph_reverse g)" if "depends g c d" for c d
    proof (rule ccontr)
      assume "d \<notin> fst ` set (graph_reverse g)"
      then have "consumers_of g d = []" by (simp add: consumers_of_def gm_get_none [symmetric])
      then show False using cs(2) [of d] that by auto
    qed
    then show ?thesis by auto
  qed
  moreover have "(SIGMA c:fst ` set (graph_records g). {d. depends g c d}) = ?E"
  proof -
    have "c \<in> fst ` set (graph_records g)" if "depends g c d" for c d
      using that gm_get_key unfolding depends_def by metis
    then show ?thesis by auto
  qed
  moreover have "card {(d, c). depends g c d} = card ?E"
    by (rule bij_betw_same_card [of prod.swap]) (auto simp: bij_betw_def inj_on_def image_iff)
  ultimately show ?thesis by (simp add: rev recs)
qed

text \<open>C1: In every graph that commits, pops and discards can produce, the reverse index is exactly
  the inverse of the recorded dependencies, without duplicates or empty entries, the edge count is the
  number of recorded dependencies, only published artifacts are dirty, and no commit panics.\<close>

theorem reachable_graph_consistent:
  assumes "graph_reachable fl quote ts g" "flate_ok fl" "contract_wf c"
  shows "set (consumers_of g d) = {k. depends g k d} \<and> distinct (consumers_of g d) \<and>
    edgeCount g = (\<Sum>(_, r) \<leftarrow> graph_records g. length (record_dependencies r)) \<and>
    set (queue_owners (graph_dirty g)) \<subseteq> set (gm_keys (graph_records g)) \<and>
    commit fl quote owner c deps auth g \<noteq> None"
proof -
  have inv: "graph_inv fl ts g" by (rule reachable_inv [OF assms(1,2)])
  then have e: "edges_rel g {(c, d). depends g c d}" by (simp add: graph_inv_def)
  obtain w g' where "commit fl quote owner c deps auth g = Some (w, g')"
    using graph_inv_commit [OF assms(2) inv assms(3)] by blast
  then show ?thesis
    using edges_rel_consumers [OF e, of d] edge_count_dependencies [OF inv] inv by (simp add: graph_inv_def)
qed

theorem reachable_graph_consistent_witness:
  "demo_owner 2 \<in> set (consumers_of demo_graph (demo_dependency 1)) \<and>
   commit demo_flate (\<lambda>_. []) (demo_owner 1) (demo_contract 6) [] False demo_graph \<noteq> None"
  using reachable_graph_consistent [OF demo_graph_reachable(2) demo_flate_ok demo_contract_ok(1) [of 6],
      of "demo_dependency 1" "demo_owner 1" "[]" False] demo_graph_facts(2)
  by blast

text \<open>C2: A successful commit publishes the contract and the dependencies, leaves every other record
  alone, and adds to the dirty set exactly the artifacts that observe a facet whose encoding changed;
  they are also marked as removal-caused when the commit was authorised.\<close>

theorem commit_marks_consumers:
  assumes "graph_reachable fl quote ts g" "flate_ok fl" "contract_wf c"
    and "commit fl quote owner c deps auth g = Some (None, g')"
  shows "map_option record_contract (gm_get (graph_records g') owner) = Some c \<and>
    (\<forall>d. depends g' owner d \<longleftrightarrow> d \<in> set deps) \<and>
    (\<forall>k. k = owner \<or> gm_get (graph_records g') k = gm_get (graph_records g) k) \<and>
    set (queue_owners (graph_dirty g')) = set (queue_owners (graph_dirty g)) \<union>
      {k. \<exists>d. depends g' k d \<and> dependency_provider d = owner \<and>
         contract_facet (current_contract g owner) (dependency_facet d) \<noteq> contract_facet c (dependency_facet d)} \<and>
    set (graph_removalDirty g') = set (graph_removalDirty g) \<union>
      (if auth \<or> owner \<in> set (graph_removalDirty g)
       then set (queue_owners (graph_dirty g')) \<inter> {k. \<exists>d. depends g' k d \<and> dependency_provider d = owner \<and>
         contract_facet (current_contract g owner) (dependency_facet d) \<noteq> contract_facet c (dependency_facet d)}
       else {})"
proof -
  have inv: "graph_inv fl ts g" by (rule reachable_inv [OF assms(1,2)])
  obtain r where p: "published fl owner c (gs_of deps) (changedArtifactFacets (current_contract g owner) c)
      (auth \<or> owner \<in> set (graph_removalDirty g)) g g' r"
    using commit_success_published [OF assms(2) inv assms(3,4)] by blast
  let ?K = "{k. \<exists>d. depends g' k d \<and> dependency_provider d = owner \<and>
     contract_facet (current_contract g owner) (dependency_facet d) \<noteq> contract_facet c (dependency_facet d)}"
  have K: "{k. \<exists>f \<in> set (changedArtifactFacets (current_contract g owner) c).
      depends g' k \<lparr>dependency_provider = owner, dependency_facet = f\<rparr>} = ?K" (is "?L = _")
  proof
    show "?L \<subseteq> ?K"
    proof
      fix k assume "k \<in> ?L"
      then obtain f where "f \<in> set (changedArtifactFacets (current_contract g owner) c)"
        "depends g' k \<lparr>dependency_provider = owner, dependency_facet = f\<rparr>" by blast
      then show "k \<in> ?K"
        by (intro CollectI exI [of _ "\<lparr>dependency_provider = owner, dependency_facet = f\<rparr>"])
          (simp add: changed_facets)
    qed
    show "?K \<subseteq> ?L"
    proof
      fix k assume "k \<in> ?K"
      then obtain d where d: "depends g' k d" "dependency_provider d = owner"
        "contract_facet (current_contract g owner) (dependency_facet d) \<noteq> contract_facet c (dependency_facet d)"
        by blast
      have "d = \<lparr>dependency_provider = owner, dependency_facet = dependency_facet d\<rparr>" using d(2) by simp
      moreover have "facet_Valid (dependency_facet d)" using d(3) by (auto simp: contract_facet_eq split: if_splits)
      ultimately show "k \<in> ?L" using d changed_facets by (metis (mono_tags, lifting) mem_Collect_eq)
    qed
  qed
  show ?thesis
  proof (intro conjI allI)
    show "map_option record_contract (gm_get (graph_records g') owner) = Some c"
      using p by (simp add: published_def)
    fix d show "depends g' owner d \<longleftrightarrow> d \<in> set deps" using p by (auto simp: published_def depends_def)
  next
    fix k show "k = owner \<or> gm_get (graph_records g') k = gm_get (graph_records g) k"
      using p by (auto simp: published_def)
  next
    show q: "set (queue_owners (graph_dirty g')) = set (queue_owners (graph_dirty g)) \<union> ?K"
      using p unfolding published_def K by blast
    show "set (graph_removalDirty g') = set (graph_removalDirty g) \<union>
        (if auth \<or> owner \<in> set (graph_removalDirty g) then set (queue_owners (graph_dirty g')) \<inter> ?K else {})"
      using p unfolding published_def K q by auto
  qed
qed

lemma demo_view: "contract_view (demo_contract a) = contract_view (demo_contract b) \<longleftrightarrow> a = b"
proof
  assume "contract_view (demo_contract a) = contract_view (demo_contract b)"
  then have "contract_facet (demo_contract a) 1 = contract_facet (demo_contract b) 1" by (rule contract_view_eqD)
  then show "a = b" by (simp add: contract_facet_eq demo_contract_def bit_2_iff facet_Valid_def facet_defs)
qed simp

lemma rep_single:
  assumes "record_rep fl r [c]" "record_rep fl r cs"
  shows "\<exists>d. cs = [d] \<and> contract_view d = contract_view c"
  using assms by (cases cs) (auto simp: record_rep_def history_rep_def)

lemma demo_free: "\<not> oscillates demo_flate demo_graph (demo_owner 1) (demo_contract 6)"
proof -
  obtain r where r: "gm_get (graph_records demo_graph) (demo_owner 1) = Some r" "record_rep demo_flate r [demo_contract 5]"
    using demo_graph_facts(1) by blast
  have "\<not> (contract_view (demo_contract 6) \<noteq> contract_view (last cs) \<and>
      contract_view (demo_contract 6) \<in> contract_view ` set cs)"
    if "record_rep demo_flate r cs" for cs
  proof -
    from rep_single [OF r(2) that] obtain d where "cs = [d]" by blast
    then show ?thesis by simp
  qed
  then show ?thesis using r(1) by (simp add: oscillates_def)
qed

lemma demo_recommit:
  "commit demo_flate (\<lambda>_. []) (demo_owner 1) (demo_contract 6) [] False demo_graph =
     Some (None, demo_commit 1 6 [] demo_graph)"
proof -
  have "False \<or> demo_owner 1 \<in> set (graph_removalDirty demo_graph) \<or>
      \<not> oscillates demo_flate demo_graph (demo_owner 1) (demo_contract 6)" using demo_free by blast
  from commit_accepted [OF demo_flate_ok demo_inv demo_contract_ok(1) demo_owner_ok demo_contract_ok(2) _ this,
      of "[]" "\<lambda>_. []"]
  show ?thesis by (auto simp: demo_commit_def)
qed

lemma demo_current: "contract_view (current_contract demo_graph (demo_owner 1)) = contract_view (demo_contract 5)"
  using demo_graph_facts(1) by (auto simp: current_contract_def record_rep_def)

lemma demo_changed:
  "contract_facet (current_contract demo_graph (demo_owner 1)) 1 \<noteq> contract_facet (demo_contract 6) 1"
  using contract_view_eqD [OF demo_current, of 1]
  by (simp add: contract_facet_eq demo_contract_def bit_2_iff facet_Valid_def facet_defs)

lemma demo_dirty: "demo_owner 2 \<in> set (queue_owners (graph_dirty (demo_commit 1 6 [] demo_graph)))"
proof -
  obtain r where p: "published demo_flate (demo_owner 1) (demo_contract 6) (gs_of [])
      (changedArtifactFacets (current_contract demo_graph (demo_owner 1)) (demo_contract 6))
      (False \<or> demo_owner 1 \<in> set (graph_removalDirty demo_graph)) demo_graph (demo_commit 1 6 [] demo_graph) r"
    using commit_success_published [OF demo_flate_ok demo_inv demo_contract_ok(1) demo_recommit] by blast
  then have "depends (demo_commit 1 6 [] demo_graph) (demo_owner 2) (demo_dependency 1)"
    using demo_graph_facts(2) by (simp add: depends_def published_def)
  then have "\<exists>f \<in> set (changedArtifactFacets (current_contract demo_graph (demo_owner 1)) (demo_contract 6)).
      depends (demo_commit 1 6 [] demo_graph) (demo_owner 2) \<lparr>dependency_provider = demo_owner 1, dependency_facet = f\<rparr>"
    using demo_changed by (intro bexI [of _ 1]) (simp_all add: demo_dependency_def changed_facets facet_Valid_def facet_defs)
  with p show ?thesis unfolding published_def by blast
qed

theorem commit_marks_consumers_witness:
  "demo_owner 2 \<in> set (queue_owners (graph_dirty (demo_commit 1 6 [] demo_graph)))"
proof -
  note m = commit_marks_consumers [OF demo_graph_reachable(2) demo_flate_ok demo_contract_ok(1) demo_recommit]
  have "gm_get (graph_records (demo_commit 1 6 [] demo_graph)) (demo_owner 2) =
      gm_get (graph_records demo_graph) (demo_owner 2)"
    using conjunct1 [OF conjunct2 [OF conjunct2 [OF m]], THEN spec, of "demo_owner 2"] by simp
  then have "depends (demo_commit 1 6 [] demo_graph) (demo_owner 2) (demo_dependency 1)"
    using demo_graph_facts(2) by (simp add: depends_def)
  then show ?thesis
    using m demo_changed by (force simp: demo_dependency_def)
qed

text \<open>The contracts an artifact has published, oldest first; none before its first commit.\<close>

definition published_contracts :: "go_flate \<Rightarrow> graph \<Rightarrow> artifact_owner \<Rightarrow> contract list \<Rightarrow> bool" where
  "published_contracts fl g owner cs \<longleftrightarrow>
     (case gm_get (graph_records g) owner of None \<Rightarrow> cs = [] | Some r \<Rightarrow> record_rep fl r cs)"

text \<open>A contract that has been published and replaced by another one.\<close>

definition superseded :: "contract \<Rightarrow> contract list \<Rightarrow> bool" where
  "superseded c cs \<longleftrightarrow> contract_view c \<in> contract_view ` set (butlast cs) \<and> contract_view c \<noteq> contract_view (last cs)"

lemma oscillates_superseded:
  assumes "flate_ok fl" "published_ok c" "published_contracts fl g owner cs"
  shows "oscillates fl g owner c \<longleftrightarrow> superseded c cs"
proof (cases "gm_get (graph_records g) owner")
  case None
  then show ?thesis using assms(3) by (simp add: published_contracts_def oscillates_def superseded_def)
next
  case (Some r)
  then have rep: "record_rep fl r cs" using assms(3) by (simp add: published_contracts_def)
  then have "cs \<noteq> []" by (simp add: record_rep_def)
  then have mem: "contract_view c \<in> contract_view ` set cs \<longleftrightarrow>
      contract_view c \<in> contract_view ` set (butlast cs) \<or> contract_view c = contract_view (last cs)"
    by (cases cs rule: rev_cases) auto
  have same: "contract_view (last ds) = contract_view (last cs) \<and>
      (contract_view c \<in> contract_view ` set ds \<longleftrightarrow> contract_view c \<in> contract_view ` set cs)"
    if "record_rep fl r ds" for ds
    using record_rep_contains [OF assms(1) that assms(2)] record_rep_contains [OF assms(1) rep assms(2)] that rep
    by (simp add: record_rep_def)
  have "oscillates fl g owner c \<longleftrightarrow> contract_view c \<noteq> contract_view (last cs) \<and> contract_view c \<in> contract_view ` set cs"
    using same rep Some unfolding oscillates_def by (metis option.inject)
  then show ?thesis using mem by (auto simp: superseded_def)
qed

text \<open>C3: What a commit does, for first and later, authorised and unauthorised commits. A commit with an invalid owner, contract or dependency is refused. A commit of a contract that the artifact has published before and replaced since is refused with the convergence error that names the changed facets, unless the caller authorises it or the artifact is dirty because of a removal. A refused commit changes nothing. Every other commit succeeds and adds the contract to the published ones, if it differs from the current one.\<close>

theorem commit_refuses_oscillation:
  assumes "graph_reachable fl quote ts g" "flate_ok fl" "contract_wf c" "published_contracts fl g owner cs"
  shows "if \<not> owner_Valid owner \<or> \<not> contract_accepted c \<or> \<not> list_all dependency_Valid deps
    then \<exists>e. commit fl quote owner c deps auth g = Some (Some e, g)
    else if superseded c cs \<and> \<not> auth \<and> owner \<notin> set (graph_removalDirty g)
    then commit fl quote owner c deps auth g = Some (Some (ConvergenceError owner
        (changedArtifactFacets (current_contract g owner) c)
        (artifactFacetTransitions quote (current_contract g owner) c
          (changedArtifactFacets (current_contract g owner) c))), g)
    else \<exists>g'. commit fl quote owner c deps auth g = Some (None, g') \<and>
        published_contracts fl g' owner (if cs \<noteq> [] \<and> contract_view c = contract_view (last cs) then cs else cs @ [c])"
proof (cases "\<not> owner_Valid owner \<or> \<not> contract_accepted c \<or> \<not> list_all dependency_Valid deps")
  case True
  then show ?thesis using commit_rejected [OF True] by (simp only: if_True)
next
  case False
  then have acc: "owner_Valid owner" "contract_accepted c" "list_all dependency_Valid deps" by simp_all
  have inv: "graph_inv fl ts g" by (rule reachable_inv [OF assms(1,2)])
  have ok: "published_ok c" using assms(3) acc(2) by (simp add: published_ok_def contract_accepted_def)
  note osc = oscillates_superseded [OF assms(2) ok assms(4)]
  show ?thesis
  proof (cases "superseded c cs \<and> \<not> auth \<and> owner \<notin> set (graph_removalDirty g)")
    case True
    then have "commit fl quote owner c deps auth g = Some (Some (ConvergenceError owner
        (changedArtifactFacets (current_contract g owner) c)
        (artifactFacetTransitions quote (current_contract g owner) c
          (changedArtifactFacets (current_contract g owner) c))), g)"
      using osc by (intro commit_oscillates [OF assms(2) inv assms(3) acc]) blast+
    then show ?thesis unfolding if_not_P [OF False] if_P [OF True] .
  next
    case unbound: False
    then have "auth \<or> owner \<in> set (graph_removalDirty g) \<or> \<not> oscillates fl g owner c" using osc by blast
    from commit_accepted [OF assms(2) inv assms(3) acc this, of quote] obtain g' r' where
      g': "commit fl quote owner c deps auth g = Some (None, g')" and
      p: "published fl owner c (gs_of deps) (changedArtifactFacets (current_contract g owner) c)
          (auth \<or> owner \<in> set (graph_removalDirty g)) g g' r'" by blast
    have get: "gm_get (graph_records g') owner = Some r'" using p by (simp add: published_def)
    have "record_rep fl r' (if cs \<noteq> [] \<and> contract_view c = contract_view (last cs) then cs else cs @ [c])"
    proof (cases "gm_get (graph_records g) owner")
      case None
      then show ?thesis using p assms(4) by (simp add: published_def published_contracts_def)
    next
      case (Some r)
      then have rep: "record_rep fl r cs" "current_contract g owner = record_contract r"
        using assms(4) by (simp_all add: published_contracts_def current_contract_def)
      then have "changedArtifactFacets (record_contract r) c = [] \<longleftrightarrow> cs \<noteq> [] \<and> contract_view c = contract_view (last cs)"
        by (auto simp: changed_Nil record_rep_def)
      then show ?thesis using p Some rep by (simp add: published_def)
    qed
    then have "published_contracts fl g' owner (if cs \<noteq> [] \<and> contract_view c = contract_view (last cs) then cs else cs @ [c])"
      by (simp add: published_contracts_def get)
    then show ?thesis unfolding if_not_P [OF False] if_not_P [OF unbound] using g' by blast
  qed
qed

theorem commit_refuses_oscillation_witness:
  "fst (the (commit demo_flate (\<lambda>_. []) (demo_owner 1) (demo_contract 6) [] False demo_graph)) = None \<and>
   (\<exists>e. commit demo_flate (\<lambda>_. []) (demo_owner 1) (demo_contract 5) [] False (demo_commit 1 6 [] demo_graph)
      = Some (Some e, demo_commit 1 6 [] demo_graph)) \<and>
   (\<exists>g. commit demo_flate (\<lambda>_. []) (demo_owner 1) (demo_contract 5) [] True (demo_commit 1 6 [] demo_graph) = Some (None, g) \<and>
      published_contracts demo_flate g (demo_owner 1) [demo_contract 5, demo_contract 6, demo_contract 5])"
proof -
  let ?g = "demo_commit 1 6 [] demo_graph"
  obtain r where r: "gm_get (graph_records demo_graph) (demo_owner 1) = Some r" "record_rep demo_flate r [demo_contract 5]"
    using demo_graph_facts(1) by blast
  note deps = list.pred_inject(1) [of dependency_Valid]
  obtain s where s: "published demo_flate (demo_owner 1) (demo_contract 6) (gs_of [])
      (changedArtifactFacets (current_contract demo_graph (demo_owner 1)) (demo_contract 6))
      (demo_owner 1 \<in> set (graph_removalDirty demo_graph)) demo_graph ?g s"
    using demo_commit_published [OF demo_graph_reachable(2) demo_free deps] by blast
  have "changedArtifactFacets (current_contract demo_graph (demo_owner 1)) (demo_contract 6) \<noteq> []"
    using demo_current by (simp add: changed_Nil demo_view)
  then have "\<forall>cs. record_rep demo_flate r cs \<longrightarrow> record_rep demo_flate s (cs @ [demo_contract 6])"
    using s r(1) by (simp add: published_def)
  from this [THEN spec, THEN mp, OF r(2)]
  have rep: "record_rep demo_flate s [demo_contract 5, demo_contract 6]" by simp
  have "graph_removalDirty demo_graph = []"
    unfolding demo_graph_def by (intro demo_removal demo_reachable_commit demo_graph_reachable(1))
      (simp add: demo_new_def NewGraph_def)
  then have clean: "set (graph_removalDirty ?g) = {}"
    using demo_removal [OF _ demo_graph_reachable(2)] by simp
  have "gm_get (graph_records ?g) (demo_owner 1) = Some s" using s by (simp add: published_def)
  then have "published_contracts demo_flate ?g (demo_owner 1) [demo_contract 5, demo_contract 6]"
    using rep by (simp add: published_contracts_def)
  note c = commit_refuses_oscillation [OF demo_reachable_commit [OF demo_graph_reachable(2)] demo_flate_ok
      demo_contract_ok(1) this, of 5 "[]"]
  have "superseded (demo_contract 5) [demo_contract 5, demo_contract 6]" by (simp add: superseded_def demo_view)
  then show ?thesis
    using c [of False] c [of True] clean demo_recommit demo_owner_ok demo_contract_ok(2) [of 5] by (simp add: demo_view)
qed

text \<open>C6: The closure check passes exactly when every recorded dependency names a published artifact
  that has the observed facet, and a failure names a consumer, a provider and a facet that violate this.\<close>

theorem closure_check_exact:
  "(VerifyClosure g = None \<longleftrightarrow> (\<forall>c d. depends g c d \<longrightarrow>
      (\<exists>p. gm_get (graph_records g) (dependency_provider d) = Some p \<and>
         hasFacet (record_contract p) (dependency_facet d)))) \<and>
   (VerifyClosure g = Some e \<longrightarrow> (\<exists>c d why. depends g c d \<and>
      e = GraphError c (dependency_provider d) (dependency_facet d) why \<and>
      \<not> (\<exists>p. gm_get (graph_records g) (dependency_provider d) = Some p \<and>
         hasFacet (record_contract p) (dependency_facet d))))"
  using VerifyClosure_iff [of g] VerifyClosure_evidence [of g e] unfolding dependency_met_def by blast

theorem closure_check_exact_witness:
  "VerifyClosure (demo_commit 2 5 [demo_dependency 1] demo_new) \<noteq> None \<and>
   (\<exists>c d why. VerifyClosure (demo_commit 2 5 [demo_dependency 1] demo_new) =
     Some (GraphError c (dependency_provider d) (dependency_facet d) why) \<and>
     depends (demo_commit 2 5 [demo_dependency 1] demo_new) c d)"
proof -
  let ?g = "demo_commit 2 5 [demo_dependency 1] demo_new"
  have new: "gm_get (graph_records demo_new) k = None" for k by (simp add: demo_new_def NewGraph_def)
  obtain r where r: "published demo_flate (demo_owner 2) (demo_contract 5) (gs_of [demo_dependency 1])
      (changedArtifactFacets (current_contract demo_new (demo_owner 2)) (demo_contract 5))
      (demo_owner 2 \<in> set (graph_removalDirty demo_new)) demo_new ?g r"
    using demo_commit_published [OF demo_graph_reachable(1) oscillates_new [OF new], of "[demo_dependency 1]" 2 5]
      demo_dependency_ok by auto
  have d: "depends ?g (demo_owner 2) (demo_dependency 1)" using r by (auto simp: published_def depends_def)
  have "gm_get (graph_records ?g) (demo_owner 1) = None" using r new by (simp add: published_def)
  then have "VerifyClosure ?g \<noteq> None"
    using conjunct1 [OF closure_check_exact [of ?g undefined]] d by (force simp: demo_dependency_def)
  then show ?thesis using conjunct2 [OF closure_check_exact [of ?g]] by (metis not_None_eq)
qed

text \<open>A successful commit advances the revision of exactly the facets whose encoding changed, by
  one (modulo \<open>2 ^ 64\<close>), and of no facet of another artifact; a first commit starts its facets at 1.\<close>

theorem commit_advances_revisions:
  assumes "graph_reachable fl quote ts g" "flate_ok fl" "contract_wf c"
    and "commit fl quote owner c deps auth g = Some (None, g')"
  shows "FacetRevision g' k f = FacetRevision g k f +
    (if k = owner \<and> contract_facet (current_contract g owner) f \<noteq> contract_facet c f then 1 else 0)"
proof -
  obtain r where "published fl owner c (gs_of deps) (changedArtifactFacets (current_contract g owner) c)
      (auth \<or> owner \<in> set (graph_removalDirty g)) g g' r"
    using commit_success_published [OF assms(2) reachable_inv [OF assms(1,2)] assms(3,4)] by blast
  moreover have "contract_facet (current_contract g owner) f \<noteq> contract_facet c f \<Longrightarrow> facet_Valid f"
    by (auto simp: contract_facet_eq split: if_splits)
  ultimately show ?thesis using revision_published [OF _ refl] by (auto simp: changed_facets)
qed

theorem commit_advances_revisions_witness:
  "FacetRevision (demo_commit 1 6 [] demo_graph) (demo_owner 1) 1 = FacetRevision demo_graph (demo_owner 1) 1 + 1 \<and>
   FacetRevision (demo_commit 1 6 [] demo_graph) (demo_owner 2) 1 = FacetRevision demo_graph (demo_owner 2) 1"
  using commit_advances_revisions [OF demo_graph_reachable(2) demo_flate_ok demo_contract_ok(1) demo_recommit]
    demo_changed by simp

text \<open>C5: The dirty batch never panics and is a permutation of the dirty artifacts; when the
  dependencies among them are well founded, every artifact comes after the dirty artifacts it observes.\<close>

theorem dirty_batch_ordered:
  assumes "graph_reachable fl quote ts g" "flate_ok fl"
  shows "\<exists>batch. graph_DirtyBatch g = Some batch \<and> mset batch = mset (queue_owners (graph_dirty g)) \<and>
    (dirty_acyclic g \<longrightarrow> (\<forall>i < length batch. \<forall>d. depends g (batch ! i) d \<longrightarrow>
       dependency_provider d \<in> set (queue_owners (graph_dirty g)) \<longrightarrow> dependency_provider d \<in> set (take i batch)))"
  by (rule DirtyBatch_facts [OF reachable_inv [OF assms]])

theorem dirty_batch_ordered_witness:
  "\<exists>batch. graph_DirtyBatch (demo_commit 1 6 [] demo_graph) = Some batch \<and> demo_owner 2 \<in> set batch"
proof -
  obtain batch where "graph_DirtyBatch (demo_commit 1 6 [] demo_graph) = Some batch"
      "mset batch = mset (queue_owners (graph_dirty (demo_commit 1 6 [] demo_graph)))"
    using dirty_batch_ordered [OF demo_reachable_commit [OF demo_graph_reachable(2)] demo_flate_ok] by blast
  then show ?thesis using demo_dirty by (metis set_mset_mset)
qed

end
