(* ===== verification/RootRequests.thy ===== *)
theory RootRequests
  imports Owners
begin

text \<open>
  Root requests (\<open>internal/emit/api/root_request.go\<close> and \<open>type_evidence_request_walk.go\<close>): immutable
  payloads and persistent sequence nodes that several consumers share.

  A Go request is a pair of pointers.  Here a request is a tree whose nodes carry the address they
  are allocated at; \<open>coherent\<close> says that an address determines its node, which makes equality of
  trees the pointer equality of the code.  A sequence node keeps the union of the kinds below it as
  a bit mask.  The selection walks the shared structure once per node (a memo table keyed by
  address) and the properties compare it with filtering the flat list of payloads.

  A declaration requirement is its owner and the reference number of the rest of the comparable
  value; the remaining fields of a payload do not matter to this part of the program.
\<close>

record declaration_requirement =
  requirement_owner :: artifact_owner
  requirement_detail :: nat

datatype request_payload =
    InvalidPayload
  | ImportPayload
  | RequirementPayload declaration_requirement
  | DependencyPayload artifact_dependency

datatype root_request =
    NoRequest
  | PayloadRequest nat request_payload
  | SequenceRequest nat "8 word" "root_request list"

definition RootRequestInvalid :: nat where "RootRequestInvalid = 0"
definition RootRequestImport :: nat where "RootRequestImport = 1"
definition RootRequestDeclarationRequirement :: nat where "RootRequestDeclarationRequirement = 2"
definition RootRequestArtifactDependency :: nat where "RootRequestArtifactDependency = 3"

lemmas request_kind_defs = RootRequestInvalid_def RootRequestImport_def
  RootRequestDeclarationRequirement_def RootRequestArtifactDependency_def

fun request_Kind :: "root_request \<Rightarrow> nat" where
  "request_Kind (PayloadRequest _ ImportPayload) = RootRequestImport"
| "request_Kind (PayloadRequest _ (RequirementPayload _)) = RootRequestDeclarationRequirement"
| "request_Kind (PayloadRequest _ (DependencyPayload _)) = RootRequestArtifactDependency"
| "request_Kind _ = RootRequestInvalid"

fun request_DeclarationRequirement :: "root_request \<Rightarrow> declaration_requirement option" where
  "request_DeclarationRequirement (PayloadRequest _ (RequirementPayload q)) = Some q"
| "request_DeclarationRequirement _ = None"

fun request_ArtifactDependency :: "root_request \<Rightarrow> artifact_dependency option" where
  "request_ArtifactDependency (PayloadRequest _ (DependencyPayload d)) = Some d"
| "request_ArtifactDependency _ = None"

definition invalidRequestKindMask :: "8 word" where
  "invalidRequestKindMask = push_bit RootRequestInvalid 1"
definition declarationRequestKindMask :: "8 word" where
  "declarationRequestKindMask = push_bit RootRequestDeclarationRequirement 1"
definition nonDeclarationRequestKindMask :: "8 word" where
  "nonDeclarationRequestKindMask =
     or (push_bit RootRequestImport 1) (push_bit RootRequestArtifactDependency 1)"

lemmas request_mask_defs = invalidRequestKindMask_def declarationRequestKindMask_def
  nonDeclarationRequestKindMask_def

fun rootRequestKinds :: "root_request \<Rightarrow> 8 word" where
  "rootRequestKinds (SequenceRequest _ kinds _) = kinds"
| "rootRequestKinds r = push_bit (request_Kind r) 1"

fun NestedRequests :: "root_request \<Rightarrow> root_request list option" where
  "NestedRequests (SequenceRequest _ _ children) = Some children"
| "NestedRequests _ = None"

text \<open>A new sequence node is allocated at the address the caller passes.\<close>

definition combineRootRequests :: "nat \<Rightarrow> root_request list list \<Rightarrow> root_request list" where
  "combineRootRequests address groups =
     (let children = concat groups in
      if length children = 0 then []
      else if length children = 1 then children
      else [SequenceRequest address (fold (\<lambda>r kinds. or kinds (rootRequestKinds r)) children 0) children])"

subsection \<open>Selection\<close>

type_synonym selection = "root_request option"

record selection_state =
  sel_memo :: "(nat, selection) gomap"
  sel_next :: nat
  sel_work :: "64 word"

text \<open>
  \<open>selectRootRequest\<close>, with the loop over the children as \<open>selectChildren\<close>, which returns the selected
  children and whether nothing changed.
\<close>

fun selectRootRequest ::
    "8 word \<Rightarrow> root_request \<Rightarrow> selection_state \<Rightarrow> (root_request_error + selection) \<times> selection_state"
  and selectChildren ::
    "8 word \<Rightarrow> root_request list \<Rightarrow> selection_state \<Rightarrow>
       (root_request_error + root_request list \<times> bool) \<times> selection_state" where
  "selectRootRequest selectedKinds NoRequest st =
     (Inl (RootRequestError ''root request is invalid''), st\<lparr>sel_work := sel_work st + 1\<rparr>)"
| "selectRootRequest selectedKinds (PayloadRequest a p) st =
     (let st = st\<lparr>sel_work := sel_work st + 1\<rparr>; request = PayloadRequest a p in
      if request_Kind request = RootRequestInvalid then
        (Inl (RootRequestError ''root request is invalid''), st)
      else (Inr (if and (rootRequestKinds request) selectedKinds \<noteq> 0 then Some request else None), st))"
| "selectRootRequest selectedKinds (SequenceRequest a kinds children) st =
     (let st = st\<lparr>sel_work := sel_work st + 1\<rparr>; request = SequenceRequest a kinds children in
      case gm_get (sel_memo st) a of
        Some selection \<Rightarrow> (Inr selection, st)
      | None \<Rightarrow>
          if length children = 0 then
            (Inl (RootRequestError ''root request sequence is empty''), st)
          else if and kinds invalidRequestKindMask = 0 \<and> and kinds (not selectedKinds) = 0 then
            (Inr (Some request), st\<lparr>sel_memo := gm_put a (Some request) (sel_memo st)\<rparr>)
          else if and kinds selectedKinds = 0 \<and> and kinds invalidRequestKindMask = 0 then
            (Inr None, st\<lparr>sel_memo := gm_put a None (sel_memo st)\<rparr>)
          else
            (case selectChildren selectedKinds children st of
               (Inl e, st) \<Rightarrow> (Inl e, st)
             | (Inr (selected, unchanged), st) \<Rightarrow>
                 let (selection, st) =
                   (if length selected = 0 then (None, st)
                    else if unchanged \<and> length selected = length children then (Some request, st)
                    else (Some (hd (combineRootRequests (sel_next st) [selected])),
                          st\<lparr>sel_next := sel_next st + 1\<rparr>))
                 in (Inr selection, st\<lparr>sel_memo := gm_put a selection (sel_memo st)\<rparr>)))"
| "selectChildren selectedKinds [] st = (Inr ([], True), st)"
| "selectChildren selectedKinds (child # rest) st =
     (case selectRootRequest selectedKinds child st of
        (Inl e, st) \<Rightarrow> (Inl e, st)
      | (Inr selection, st) \<Rightarrow>
          (case selectChildren selectedKinds rest st of
             (Inl e, st) \<Rightarrow> (Inl e, st)
           | (Inr (selected, unchanged), st) \<Rightarrow>
               (Inr (case selection of
                   None \<Rightarrow> (selected, False)
                 | Some r \<Rightarrow> (r # selected, unchanged \<and> r = child)), st)))"

fun selectRoots ::
    "8 word \<Rightarrow> root_request list \<Rightarrow> selection_state \<Rightarrow>
       (root_request_error + root_request list) \<times> selection_state" where
  "selectRoots selectedKinds [] st = (Inr [], st)"
| "selectRoots selectedKinds (request # rest) st =
     (case selectRootRequest selectedKinds request st of
        (Inl e, st) \<Rightarrow> (Inl e, st)
      | (Inr selection, st) \<Rightarrow>
          (case selectRoots selectedKinds rest st of
             (Inl e, st) \<Rightarrow> (Inl e, st)
           | (Inr selected, st) \<Rightarrow>
               (Inr (case selection of None \<Rightarrow> selected | Some r \<Rightarrow> r # selected), st)))"

text \<open>\<open>next\<close> is the first address that is free; the second result is the next one after the call.\<close>

definition selectRootRequests ::
    "8 word \<Rightarrow> root_request list \<Rightarrow> nat \<Rightarrow> (root_request_error + root_request list) \<times> nat" where
  "selectRootRequests selectedKinds requests next' =
     (case selectRoots selectedKinds requests \<lparr>sel_memo = [], sel_next = next', sel_work = 0\<rparr> of
        (result, st) \<Rightarrow> (result, sel_next st))"

definition SelectDeclarationRequests ::
    "root_request list \<Rightarrow> nat \<Rightarrow> (root_request_error + root_request list) \<times> nat" where
  "SelectDeclarationRequests = selectRootRequests declarationRequestKindMask"

definition SelectNonDeclarationRequests ::
    "root_request list \<Rightarrow> nat \<Rightarrow> (root_request_error + root_request list) \<times> nat" where
  "SelectNonDeclarationRequests = selectRootRequests nonDeclarationRequestKindMask"

subsection \<open>Walking\<close>

text \<open>
  \<open>walkRootRequestPayloads\<close> with the visitor that collects what it is given.  A frame is the part of
  its request list not visited yet; the last Go frame is the first one here.
\<close>

record walk_state =
  walk_frames :: "root_request list list"
  walk_sequences :: "nat list"
  walk_payloads :: "nat list"

function walkRequests :: "bool \<Rightarrow> walk_state \<Rightarrow> root_request_error + root_request list" where
  "walkRequests unique w =
     (case walk_frames w of
        [] \<Rightarrow> Inr []
      | [] # frames \<Rightarrow> walkRequests unique (w\<lparr>walk_frames := frames\<rparr>)
      | (request # rest) # frames \<Rightarrow>
          (case request of
             SequenceRequest a kinds children \<Rightarrow>
               if length children = 0 then Inl (RootRequestError ''root request sequence is empty'')
               else if a \<in> set (walk_sequences w) then
                 walkRequests unique (w\<lparr>walk_frames := rest # frames\<rparr>)
               else
                 walkRequests unique (w\<lparr>walk_frames := children # rest # frames,
                   walk_sequences := (if unique then gs_insert a (walk_sequences w) else walk_sequences w)\<rparr>)
           | NoRequest \<Rightarrow> Inl (RootRequestError ''root request is invalid'')
           | PayloadRequest a p \<Rightarrow>
               if request_Kind request = RootRequestInvalid then
                 Inl (RootRequestError ''root request is invalid'')
               else if a \<in> set (walk_payloads w) then
                 walkRequests unique (w\<lparr>walk_frames := rest # frames\<rparr>)
               else
                 (case walkRequests unique (w\<lparr>walk_frames := rest # frames,
                     walk_payloads := (if unique then gs_insert a (walk_payloads w) else walk_payloads w)\<rparr>) of
                    Inl e \<Rightarrow> Inl e | Inr visited \<Rightarrow> Inr (request # visited))))"
  by pat_completeness auto
termination
  by (relation "measure (\<lambda>(_, w). sum_list (map (\<lambda>f. Suc (size_list size f)) (walk_frames w)))") auto

declare walkRequests.simps [simp del]

definition WalkRootRequests :: "root_request list \<Rightarrow> root_request_error + root_request list" where
  "WalkRootRequests requests =
     walkRequests False \<lparr>walk_frames = [requests], walk_sequences = [], walk_payloads = []\<rparr>"

definition WalkUniqueRootRequestPayloads ::
    "root_request list \<Rightarrow> root_request_error + root_request list" where
  "WalkUniqueRootRequestPayloads requests =
     walkRequests True \<lparr>walk_frames = [requests], walk_sequences = [], walk_payloads = []\<rparr>"

subsection \<open>The payloads of a request\<close>

fun leaves :: "root_request \<Rightarrow> root_request list" where
  "leaves NoRequest = []"
| "leaves (PayloadRequest a p) = [PayloadRequest a p]"
| "leaves (SequenceRequest a kinds children) = concat (map leaves children)"

text \<open>Well-formed requests: no invalid payload, no empty sequence, exact kind masks.\<close>

fun request_ok :: "root_request \<Rightarrow> bool" where
  "request_ok NoRequest = False"
| "request_ok (PayloadRequest a p) = (p \<noteq> InvalidPayload)"
| "request_ok (SequenceRequest a kinds children) =
     (children \<noteq> [] \<and> list_all request_ok children \<and>
      kinds = fold (\<lambda>r kinds. or kinds (rootRequestKinds r)) children 0)"

text \<open>One heap: an address determines the sequence node (or payload) allocated there.\<close>

fun coherent :: "(nat \<Rightarrow> root_request) \<Rightarrow> root_request \<Rightarrow> bool" where
  "coherent h NoRequest = True"
| "coherent h (PayloadRequest a p) = (h a = PayloadRequest a p)"
| "coherent h (SequenceRequest a kinds children) =
     (h a = SequenceRequest a kinds children \<and> list_all (coherent h) children)"

definition selected_kind :: "8 word \<Rightarrow> root_request \<Rightarrow> bool" where
  "selected_kind kmask r \<longleftrightarrow> and (rootRequestKinds r) kmask \<noteq> 0"

lemma leaf_ok:
  "request_ok r \<Longrightarrow> l \<in> set (leaves r) \<Longrightarrow>
     request_ok l \<and> leaves l = [l] \<and> request_Kind l \<in> {1, 2, 3} \<and> (\<exists>a p. l = PayloadRequest a p)"
proof (induction r arbitrary: l)
  case (PayloadRequest a p)
  then show ?case by (cases p) (auto simp: request_kind_defs)
next
  case (SequenceRequest a kinds children)
  then obtain c where c: "c \<in> set children" "l \<in> set (leaves c)" by auto
  moreover have "request_ok c" using SequenceRequest.prems c(1) by (simp add: list_all_iff)
  ultimately show ?case by (intro SequenceRequest.IH)
qed simp

lemma leaves_nonempty: "request_ok r \<Longrightarrow> leaves r \<noteq> []"
proof (induction r)
  case (SequenceRequest a kinds children)
  then obtain c cs where "children = c # cs" by (cases children) auto
  with SequenceRequest show ?case by auto
qed auto

lemma bit_fold_kinds:
  "bit (fold (\<lambda>r kinds. or kinds (rootRequestKinds r)) rs k) n \<longleftrightarrow>
     bit k n \<or> (\<exists>r \<in> set rs. bit (rootRequestKinds r) n)"
  by (induction rs arbitrary: k) (auto simp: bit_or_iff)

lemma kinds_leaves:
  "request_ok r \<Longrightarrow> n < 8 \<Longrightarrow> bit (rootRequestKinds r) n \<longleftrightarrow> (\<exists>l \<in> set (leaves r). request_Kind l = n)"
proof (induction r)
  case (PayloadRequest a p)
  then show ?case by (auto simp: push_bit_of_1 bit_exp_iff)
next
  case (SequenceRequest a kinds children)
  then have "\<And>c. c \<in> set children \<Longrightarrow>
      bit (rootRequestKinds c) n \<longleftrightarrow> (\<exists>l \<in> set (leaves c). request_Kind l = n)"
    by (auto simp: list_all_iff)
  with SequenceRequest.prems show ?case by (auto simp: bit_fold_kinds)
qed auto

lemma word_eq_0_bits: "w = 0 \<longleftrightarrow> (\<forall>n < 8. \<not> bit w n)" for w :: "8 word"
proof
  assume "\<forall>n < 8. \<not> bit w n"
  then show "w = 0" by (intro bit_word_eqI) simp
qed simp

lemma selected_kind_leaf:
  assumes "request_ok r" "l \<in> set (leaves r)"
  shows "selected_kind kmask l \<longleftrightarrow> bit kmask (request_Kind l)"
proof -
  have "\<exists>a p. l = PayloadRequest a p" using leaf_ok [OF assms] by blast
  moreover have "request_Kind l < 8" using leaf_ok [OF assms] by auto
  ultimately show ?thesis
    by (auto simp: selected_kind_def push_bit_of_1 and.commute [of _ kmask] and_exp_eq_0_iff_not_bit)
qed

lemma kinds_not_selected:
  assumes "request_ok r" "and (rootRequestKinds r) kmask = 0"
  shows "filter (selected_kind kmask) (leaves r) = []"
proof -
  have "\<not> selected_kind kmask l" if l: "l \<in> set (leaves r)" for l
  proof -
    have k: "request_Kind l < 8" using leaf_ok [OF assms(1) l] by auto
    then have "bit (rootRequestKinds r) (request_Kind l)" using kinds_leaves [OF assms(1) k] l by blast
    then have "\<not> bit kmask (request_Kind l)"
      using assms(2) k unfolding word_eq_0_bits by (auto simp: bit_and_iff)
    then show ?thesis using selected_kind_leaf [OF assms(1) l] by simp
  qed
  then show ?thesis by (simp add: filter_empty_conv)
qed

lemma kinds_all_selected:
  assumes "request_ok r" "and (rootRequestKinds r) (not kmask) = 0"
  shows "filter (selected_kind kmask) (leaves r) = leaves r"
proof -
  have "selected_kind kmask l" if l: "l \<in> set (leaves r)" for l
  proof -
    have k: "request_Kind l < 8" using leaf_ok [OF assms(1) l] by auto
    then have "bit (rootRequestKinds r) (request_Kind l)" using kinds_leaves [OF assms(1) k] l by blast
    then have "bit kmask (request_Kind l)"
      using assms(2) k unfolding word_eq_0_bits by (auto simp: bit_and_iff bit_not_iff)
    then show ?thesis using selected_kind_leaf [OF assms(1) l] by simp
  qed
  then show ?thesis by (simp add: filter_id_conv)
qed

subsection \<open>Selection is filtering\<close>

definition selection_of :: "8 word \<Rightarrow> root_request \<Rightarrow> selection \<Rightarrow> bool" where
  "selection_of kmask r sel \<longleftrightarrow>
     (case sel of None \<Rightarrow> filter (selected_kind kmask) (leaves r) = []
      | Some q \<Rightarrow> leaves q = filter (selected_kind kmask) (leaves r) \<and> request_ok q)"

definition memo_ok :: "8 word \<Rightarrow> (nat \<Rightarrow> root_request) \<Rightarrow> selection_state \<Rightarrow> bool" where
  "memo_ok kmask h st \<longleftrightarrow> (\<forall>a sel. gm_get (sel_memo st) a = Some sel \<longrightarrow> selection_of kmask (h a) sel)"

lemma memo_ok_put:
  "memo_ok kmask h st \<Longrightarrow> selection_of kmask (h a) sel \<Longrightarrow>
     memo_ok kmask h (st\<lparr>sel_memo := gm_put a sel (sel_memo st)\<rparr>)"
  by (simp add: memo_ok_def)

lemma memo_ok_frame [simp]:
  "memo_ok kmask h (st\<lparr>sel_work := w\<rparr>) = memo_ok kmask h st"
  "memo_ok kmask h (st\<lparr>sel_next := n\<rparr>) = memo_ok kmask h st"
  by (simp_all add: memo_ok_def)

lemma combine_leaves:
  assumes "qs \<noteq> []" "list_all request_ok qs"
  shows "leaves (hd (combineRootRequests a [qs])) = concat (map leaves qs) \<and>
    request_ok (hd (combineRootRequests a [qs]))"
proof (cases "length qs = 1")
  case True
  then obtain q where "qs = [q]" by (cases qs) auto
  with assms show ?thesis by (simp add: combineRootRequests_def)
next
  case False
  with assms show ?thesis by (simp add: combineRootRequests_def Let_def)
qed

lemma select_filters:
  "request_ok r \<Longrightarrow> coherent h r \<Longrightarrow> memo_ok kmask h st \<Longrightarrow>
     \<exists>sel st'. selectRootRequest kmask r st = (Inr sel, st') \<and> memo_ok kmask h st' \<and> selection_of kmask r sel"
  "list_all request_ok rs \<Longrightarrow> list_all (coherent h) rs \<Longrightarrow> memo_ok kmask h st \<Longrightarrow>
     \<exists>qs unchanged st'. selectChildren kmask rs st = (Inr (qs, unchanged), st') \<and> memo_ok kmask h st' \<and>
       concat (map leaves qs) = filter (selected_kind kmask) (concat (map leaves rs)) \<and>
       list_all request_ok qs \<and> (unchanged \<and> length qs = length rs \<longrightarrow> qs = rs)"
proof (induction kmask r st and kmask rs st rule: selectRootRequest_selectChildren.induct)
  case (1 kmask st)
  then show ?case by simp
next
  case (2 kmask a p st)
  then show ?case
    by (cases p) (auto simp: selection_of_def selected_kind_def request_kind_defs)
next
  case (3 kmask a kinds children st)
  let ?r = "SequenceRequest a kinds children" and ?st = "st\<lparr>sel_work := sel_work st + 1\<rparr>"
  have h: "h a = ?r" and ok: "request_ok ?r" using 3 by auto
  have ch: "children \<noteq> []" using ok by simp
  show ?case
  proof (cases "gm_get (sel_memo st) a")
    case (Some sel)
    have "memo_ok kmask h st" using 3 by simp
    then have "selection_of kmask (h a) sel" using Some unfolding memo_ok_def by blast
    then have "selection_of kmask ?r sel" by (simp only: h)
    moreover have "selectRootRequest kmask ?r st = (Inr sel, ?st)" using Some by (simp add: Let_def)
    moreover have "memo_ok kmask h ?st" using 3 by simp
    ultimately show ?thesis by blast
  next
    case None
    consider (all) "and kinds invalidRequestKindMask = 0" "and kinds (not kmask) = 0"
      | (none) "\<not> (and kinds invalidRequestKindMask = 0 \<and> and kinds (not kmask) = 0)"
          "and kinds kmask = 0" "and kinds invalidRequestKindMask = 0"
      | (some) "\<not> (and kinds invalidRequestKindMask = 0 \<and> and kinds (not kmask) = 0)"
          "\<not> (and kinds kmask = 0 \<and> and kinds invalidRequestKindMask = 0)" by blast
    then show ?thesis
    proof cases
      case all
      then have sel: "selection_of kmask ?r (Some ?r)"
        using kinds_all_selected [OF ok, of kmask] ok by (simp add: selection_of_def)
      then have "selectRootRequest kmask ?r st = (Inr (Some ?r), ?st\<lparr>sel_memo := gm_put a (Some ?r) (sel_memo ?st)\<rparr>)"
        using None all ch by (simp add: Let_def)
      moreover have "memo_ok kmask h (?st\<lparr>sel_memo := gm_put a (Some ?r) (sel_memo ?st)\<rparr>)"
        using 3(4) h sel by (intro memo_ok_put) auto
      ultimately show ?thesis using sel by blast
    next
      case none
      then have sel: "selection_of kmask ?r None" using kinds_not_selected [OF ok, of kmask] by (simp add: selection_of_def)
      then have "selectRootRequest kmask ?r st = (Inr None, ?st\<lparr>sel_memo := gm_put a None (sel_memo ?st)\<rparr>)"
        using None none ch by (simp add: Let_def)
      moreover have "memo_ok kmask h (?st\<lparr>sel_memo := gm_put a None (sel_memo ?st)\<rparr>)"
        using 3(4) h sel by (intro memo_ok_put) auto
      ultimately show ?thesis using sel by blast
    next
      case some
      have "\<exists>qs unchanged st'. selectChildren kmask children ?st = (Inr (qs, unchanged), st') \<and> memo_ok kmask h st' \<and>
          concat (map leaves qs) = filter (selected_kind kmask) (concat (map leaves children)) \<and>
          list_all request_ok qs \<and> (unchanged \<and> length qs = length children \<longrightarrow> qs = children)"
        using 3 None ch some by (intro "3.IH") auto
      then obtain qs unchanged st' where sel: "selectChildren kmask children ?st = (Inr (qs, unchanged), st')"
        and m: "memo_ok kmask h st'" and l: "concat (map leaves qs) = filter (selected_kind kmask) (leaves ?r)"
        and qok: "list_all request_ok qs" and same: "unchanged \<and> length qs = length children \<longrightarrow> qs = children"
        by auto
      define selection where "selection = (if length qs = 0 then None
        else if unchanged \<and> length qs = length children then Some ?r
        else Some (hd (combineRootRequests (sel_next st') [qs])))"
      define st'' where "st'' = (if length qs = 0 then st' else if unchanged \<and> length qs = length children then st'
        else st'\<lparr>sel_next := sel_next st' + 1\<rparr>)"
      have "selectRootRequest kmask ?r st = (Inr selection, st''\<lparr>sel_memo := gm_put a selection (sel_memo st'')\<rparr>)"
        using None ch some sel unfolding selection_def st''_def by (auto simp: Let_def)
      moreover have so: "selection_of kmask ?r selection"
        using l same qok combine_leaves [of qs "sel_next st'"] ok by (auto simp: selection_of_def selection_def)
      moreover have "memo_ok kmask h (st''\<lparr>sel_memo := gm_put a selection (sel_memo st'')\<rparr>)"
        using m so h by (intro memo_ok_put) (auto simp: st''_def)
      ultimately show ?thesis by blast
    qed
  qed
next
  case (4 kmask st)
  then show ?case by auto
next
  case (5 kmask child rest st)
  obtain sel st1 where s: "selectRootRequest kmask child st = (Inr sel, st1)" "memo_ok kmask h st1"
      "selection_of kmask child sel"
    using 5 by auto
  have "\<exists>qs unchanged st'. selectChildren kmask rest st1 = (Inr (qs, unchanged), st') \<and> memo_ok kmask h st' \<and>
       concat (map leaves qs) = filter (selected_kind kmask) (concat (map leaves rest)) \<and>
       list_all request_ok qs \<and> (unchanged \<and> length qs = length rest \<longrightarrow> qs = rest)"
    using 5 s by auto
  then obtain qs unchanged st2 where q: "selectChildren kmask rest st1 = (Inr (qs, unchanged), st2)"
      "memo_ok kmask h st2" "concat (map leaves qs) = filter (selected_kind kmask) (concat (map leaves rest))"
      "list_all request_ok qs" "unchanged \<and> length qs = length rest \<longrightarrow> qs = rest" by blast
  show ?case
    using s q by (cases sel) (auto simp: selection_of_def)
qed

lemma selectRoots_filters:
  "list_all request_ok rs \<Longrightarrow> list_all (coherent h) rs \<Longrightarrow> memo_ok kmask h st \<Longrightarrow>
     \<exists>qs st'. selectRoots kmask rs st = (Inr qs, st') \<and>
       concat (map leaves qs) = filter (selected_kind kmask) (concat (map leaves rs)) \<and> list_all request_ok qs"
proof (induction rs arbitrary: st)
  case Nil
  then show ?case by simp
next
  case (Cons r rs)
  obtain sel st1 where s: "selectRootRequest kmask r st = (Inr sel, st1)" "memo_ok kmask h st1"
      "selection_of kmask r sel"
    using select_filters(1) [of r h kmask st] Cons.prems by auto
  obtain qs st2 where "selectRoots kmask rs st1 = (Inr qs, st2)"
      "concat (map leaves qs) = filter (selected_kind kmask) (concat (map leaves rs))" "list_all request_ok qs"
    using Cons.IH [OF _ _ s(2)] Cons.prems by auto
  with s show ?case by (cases sel) (auto simp: selection_of_def)
qed

subsection \<open>Walking visits the payloads\<close>

definition frame_leaves :: "root_request list list \<Rightarrow> root_request list" where
  "frame_leaves frames = concat (map leaves (concat frames))"

lemma frame_leaves_simps [simp]:
  "frame_leaves [] = []" "frame_leaves ([] # frames) = frame_leaves frames"
  "frame_leaves ((r # rest) # frames) = leaves r @ frame_leaves (rest # frames)"
  "frame_leaves (children # frames) = concat (map leaves children) @ frame_leaves frames"
  by (simp_all add: frame_leaves_def)

lemma walk_all:
  assumes "list_all request_ok (concat (walk_frames w))" "walk_sequences w = []" "walk_payloads w = []"
  shows "walkRequests False w = Inr (frame_leaves (walk_frames w))"
  using assms
proof (induction False w rule: walkRequests.induct)
  case (1 w)
  show ?case
  proof (cases "walk_frames w")
    case Nil
    then show ?thesis by (subst walkRequests.simps) simp
  next
    case (Cons f frames)
    show ?thesis
    proof (cases f)
      case Nil
      with 1 Cons show ?thesis by (subst walkRequests.simps) simp
    next
      case rest: (Cons r rest)
      show ?thesis
      proof (cases r)
        case NoRequest
        then show ?thesis using 1 Cons rest by simp
      next
        case (PayloadRequest a p)
        moreover have "request_Kind r \<noteq> RootRequestInvalid"
          using 1 Cons rest PayloadRequest by (cases p) (auto simp: request_kind_defs)
        ultimately show ?thesis using 1 Cons rest by (subst walkRequests.simps) simp
      next
        case (SequenceRequest a kinds children)
        then show ?thesis using 1 Cons rest by (subst walkRequests.simps) simp
      qed
    qed
  qed
qed

text \<open>
  The unique walk: every sequence node visited so far is either finished, or its remaining children
  are in the frames above some depth, all of whose requests are smaller than the node.
\<close>

definition walk_inv :: "(nat \<Rightarrow> root_request) \<Rightarrow> walk_state \<Rightarrow> bool" where
  "walk_inv h w \<longleftrightarrow>
     (\<forall>a \<in> set (walk_sequences w). \<exists>k.
        set (leaves (h a)) \<subseteq> h ` set (walk_payloads w) \<union> set (frame_leaves (take k (walk_frames w))) \<and>
        (\<forall>r \<in> set (concat (take k (walk_frames w))). size r < size (h a)))"

lemma size_child: "c \<in> set cs \<Longrightarrow> size c < size (SequenceRequest a k cs)"
  by (simp add: less_Suc_eq_le size_list_estimation')

lemma walk_inv_pop:
  assumes "walk_inv h w" "walk_frames w = [] # frames"
  shows "walk_inv h (w\<lparr>walk_frames := frames\<rparr>)"
  unfolding walk_inv_def
proof
  fix a assume "a \<in> set (walk_sequences (w\<lparr>walk_frames := frames\<rparr>))"
  then obtain k where "set (leaves (h a)) \<subseteq> h ` set (walk_payloads w) \<union> set (frame_leaves (take k ([] # frames)))"
      "\<forall>r \<in> set (concat (take k ([] # frames))). size r < size (h a)"
    using assms by (auto simp: walk_inv_def)
  then show "\<exists>k. set (leaves (h a)) \<subseteq> h ` set (walk_payloads (w\<lparr>walk_frames := frames\<rparr>)) \<union>
        set (frame_leaves (take k (walk_frames (w\<lparr>walk_frames := frames\<rparr>)))) \<and>
      (\<forall>r \<in> set (concat (take k (walk_frames (w\<lparr>walk_frames := frames\<rparr>)))). size r < size (h a))"
    by (intro exI [of _ "k - 1"]) (cases k; simp)
qed

text \<open>Dropping the first request of the top frame, once its payloads are among the visited ones.\<close>

lemma walk_inv_advance:
  assumes inv: "walk_inv h w" and f: "walk_frames w = (r # rest) # frames"
    and seen: "set (leaves r) \<subseteq> h ` set (walk_payloads w')"
    and w': "walk_frames w' = rest # frames" "walk_sequences w' = walk_sequences w"
      "set (walk_payloads w) \<subseteq> set (walk_payloads w')"
  shows "walk_inv h w'"
  unfolding walk_inv_def
proof
  fix a assume "a \<in> set (walk_sequences w')"
  then obtain k where k: "set (leaves (h a)) \<subseteq> h ` set (walk_payloads w) \<union> set (frame_leaves (take k ((r # rest) # frames)))"
      "\<forall>r \<in> set (concat (take k ((r # rest) # frames))). size r < size (h a)"
    using inv f w' by (auto simp: walk_inv_def)
  have sub: "h ` set (walk_payloads w) \<subseteq> h ` set (walk_payloads w')" using w'(3) by (rule image_mono)
  show "\<exists>k. set (leaves (h a)) \<subseteq> h ` set (walk_payloads w') \<union> set (frame_leaves (take k (walk_frames w'))) \<and>
      (\<forall>r \<in> set (concat (take k (walk_frames w'))). size r < size (h a))"
  proof (cases k)
    case 0
    then have "set (leaves (h a)) \<subseteq> h ` set (walk_payloads w)" using k(1) by simp
    then have "set (leaves (h a)) \<subseteq> h ` set (walk_payloads w')" using sub by (rule order_trans)
    then show ?thesis by (intro exI [of _ 0]) simp
  next
    case (Suc j)
    have "set (leaves (h a)) \<subseteq> h ` set (walk_payloads w') \<union> set (frame_leaves (rest # take j frames))"
    proof -
      have "set (leaves (h a)) \<subseteq> h ` set (walk_payloads w) \<union> (set (leaves r) \<union> set (frame_leaves (rest # take j frames)))"
        using k(1) by (simp only: Suc take_Suc_Cons frame_leaves_simps(3) set_append)
      with sub seen show ?thesis by blast
    qed
    moreover have "\<forall>q \<in> set (concat (rest # take j frames)). size q < size (h a)"
      using k(2) unfolding Suc take_Suc_Cons by simp
    ultimately show ?thesis unfolding w'(1) by (intro exI [of _ "Suc j"]) (simp only: take_Suc_Cons)
  qed
qed

lemma walk_inv_enter:
  assumes inv: "walk_inv h w" and f: "walk_frames w = (r # rest) # frames"
    and r: "r = SequenceRequest a kinds children" "h a = r"
  shows "walk_inv h (w\<lparr>walk_frames := children # rest # frames,
    walk_sequences := gs_insert a (walk_sequences w)\<rparr>)" (is "walk_inv h ?w")
  unfolding walk_inv_def
proof
  fix b assume "b \<in> set (walk_sequences ?w)"
  then consider "b = a" | "b \<in> set (walk_sequences w)" by auto
  then show "\<exists>k. set (leaves (h b)) \<subseteq> h ` set (walk_payloads ?w) \<union> set (frame_leaves (take k (walk_frames ?w))) \<and>
      (\<forall>r \<in> set (concat (take k (walk_frames ?w))). size r < size (h b))"
  proof cases
    case 1
    then show ?thesis using r size_child [of _ children a kinds] by (intro exI [of _ 1]) auto
  next
    case 2
    then obtain k where k: "set (leaves (h b)) \<subseteq> h ` set (walk_payloads w) \<union> set (frame_leaves (take k ((r # rest) # frames)))"
        "\<forall>r \<in> set (concat (take k ((r # rest) # frames))). size r < size (h b)"
      using inv f by (auto simp: walk_inv_def)
    show ?thesis
    proof (cases k)
      case 0
      with k show ?thesis by (intro exI [of _ 0]) simp
    next
      case (Suc j)
      have "size c < size (h b)" if "c \<in> set children" for c
        using size_child [OF that, of a kinds] k(2) r Suc by fastforce
      with k r Suc show ?thesis by (intro exI [of _ "Suc k"]) (auto simp: take_Cons')
    qed
  qed
qed

lemma walk_inv_visited:
  assumes "walk_inv h w" "walk_frames w = (r # rest) # frames" "a \<in> set (walk_sequences w)" "h a = r"
  shows "set (leaves r) \<subseteq> h ` set (walk_payloads w)"
proof -
  obtain k where k: "set (leaves r) \<subseteq> h ` set (walk_payloads w) \<union> set (frame_leaves (take k ((r # rest) # frames)))"
      "\<forall>q \<in> set (concat (take k ((r # rest) # frames))). size q < size r"
    using assms by (auto simp: walk_inv_def)
  then show ?thesis by (cases k) auto
qed

definition walk_measure :: "walk_state \<Rightarrow> nat" where
  "walk_measure w = sum_list (map (\<lambda>f. Suc (size_list size f)) (walk_frames w))"

lemma walk_unique:
  assumes "list_all request_ok (concat (walk_frames w))" "list_all (coherent h) (concat (walk_frames w))"
    "walk_inv h w" "\<forall>b \<in> set (walk_payloads w). \<exists>p. h b = PayloadRequest b p"
  shows "\<exists>out. walkRequests True w = Inr out \<and> distinct out \<and>
    set out = set (frame_leaves (walk_frames w)) - h ` set (walk_payloads w)"
  using assms
proof (induction "walk_measure w" arbitrary: w rule: less_induct)
  case less
  note prems = less.prems
  show ?case
  proof (cases "walk_frames w")
    case Nil
    then show ?thesis by (subst walkRequests.simps) simp
  next
    case (Cons f frames)
    show ?thesis
    proof (cases f)
      case Nil
      let ?w = "w\<lparr>walk_frames := frames\<rparr>"
      have "walk_inv h ?w" using walk_inv_pop prems Cons Nil by simp
      then have "\<exists>out. walkRequests True ?w = Inr out \<and> distinct out \<and>
          set out = set (frame_leaves (walk_frames ?w)) - h ` set (walk_payloads ?w)"
        using prems Cons Nil by (intro less.hyps) (auto simp: walk_measure_def)
      with Cons Nil show ?thesis by (subst walkRequests.simps) simp
    next
      case rest: (Cons r rest)
      have fr: "walk_frames w = (r # rest) # frames" using Cons rest by simp
      have ok: "request_ok r" "coherent h r" using prems fr by auto
      have frest: "list_all request_ok (concat (rest # frames))" "list_all (coherent h) (concat (rest # frames))"
        using prems fr by auto
      show ?thesis
      proof (cases r)
        case NoRequest
        then show ?thesis using ok by simp
      next
        case (PayloadRequest a p)
        have ha: "h a = r" and k: "request_Kind r \<noteq> RootRequestInvalid"
          using ok PayloadRequest by (cases p; simp add: request_kind_defs)+
        define w' where "w' = w\<lparr>walk_frames := rest # frames, walk_payloads := gs_insert a (walk_payloads w)\<rparr>"
        have "walk_inv h w'"
          by (rule walk_inv_advance [OF prems(3) fr]) (use ha PayloadRequest in \<open>auto simp: w'_def\<close>)
        then obtain out where out: "walkRequests True w' = Inr out" "distinct out"
            "set out = set (frame_leaves (rest # frames)) - h ` insert a (set (walk_payloads w))"
          using less.hyps [of w'] prems frest fr ha PayloadRequest by (auto simp: walk_measure_def w'_def)
        show ?thesis
        proof (cases "a \<in> set (walk_payloads w)")
          case True
          then have "w' = w\<lparr>walk_frames := rest # frames\<rparr>" by (simp add: w'_def gs_insert_def)
          then have "walkRequests True w = Inr out"
            using out(1) fr PayloadRequest k True by (subst walkRequests.simps) simp
          moreover have "r \<in> h ` set (walk_payloads w)" using True ha by (metis image_eqI)
          then have "set out = set (frame_leaves (walk_frames w)) - h ` set (walk_payloads w)"
            using out(3) True PayloadRequest by (auto simp: fr insert_absorb)
          ultimately show ?thesis using out(2) by blast
        next
          case False
          have new: "r \<notin> h ` set (walk_payloads w)" using prems(4) False PayloadRequest by fastforce
          have "walkRequests True w = Inr (r # out)"
            using out(1) fr PayloadRequest k False by (subst walkRequests.simps) (simp add: w'_def)
          moreover have "set (r # out) = set (frame_leaves (walk_frames w)) - h ` set (walk_payloads w)"
            using out(3) new ha PayloadRequest by (auto simp: fr)
          moreover have "distinct (r # out)" using out(2,3) ha by simp
          ultimately show ?thesis by blast
        qed
      next
        case (SequenceRequest a kinds children)
        have ha: "h a = r" and ne: "children \<noteq> []" using ok SequenceRequest by auto
        show ?thesis
        proof (cases "a \<in> set (walk_sequences w)")
          case True
          let ?w = "w\<lparr>walk_frames := rest # frames\<rparr>"
          have seen: "set (leaves r) \<subseteq> h ` set (walk_payloads w)"
            by (rule walk_inv_visited [OF prems(3) fr True ha])
          have "walk_inv h ?w" by (rule walk_inv_advance [OF prems(3) fr]) (use seen in auto)
          then have "\<exists>out. walkRequests True ?w = Inr out \<and> distinct out \<and>
              set out = set (frame_leaves (walk_frames ?w)) - h ` set (walk_payloads ?w)"
            using prems frest fr by (intro less.hyps) (auto simp: walk_measure_def)
          moreover have "walkRequests True w = walkRequests True ?w"
            using fr SequenceRequest ne True by (subst walkRequests.simps) simp
          ultimately show ?thesis using seen by (auto simp: fr)
        next
          case False
          let ?w = "w\<lparr>walk_frames := children # rest # frames, walk_sequences := gs_insert a (walk_sequences w)\<rparr>"
          have "walk_inv h ?w" by (rule walk_inv_enter [OF prems(3) fr SequenceRequest ha])
          then have "\<exists>out. walkRequests True ?w = Inr out \<and> distinct out \<and>
              set out = set (frame_leaves (walk_frames ?w)) - h ` set (walk_payloads ?w)"
            using prems fr SequenceRequest ok by (intro less.hyps) (auto simp: walk_measure_def)
          moreover have "walkRequests True w = walkRequests True ?w"
            using fr SequenceRequest ne False by (subst walkRequests.simps) simp
          ultimately show ?thesis using SequenceRequest by (auto simp: fr)
        qed
      qed
    qed
  qed
qed

lemma WalkUnique_leaves:
  assumes "list_all request_ok rs" "list_all (coherent h) rs"
  shows "\<exists>out. WalkUniqueRootRequestPayloads rs = Inr out \<and> distinct out \<and>
    set out = set (concat (map leaves rs))"
  using walk_unique [of "\<lparr>walk_frames = [rs], walk_sequences = [], walk_payloads = []\<rparr>" h] assms
  by (simp add: walk_inv_def WalkUniqueRootRequestPayloads_def frame_leaves_def)

end
