(* ===== verification/Ledger.thy ===== *)
theory Ledger
  imports RootRequests OwnerQueue
begin

text \<open>
  The ledgers and the pending-owner queue of the requirement scheduler
  (\<open>internal/emit/requirements/ledger.go\<close>).  A ledger is a set of declaration requirements grouped by
  owner; \<open>ledger_set\<close> is its abstract value.  The queue is an array heap that moves a hole instead
  of swapping; \<open>holeUp_sift\<close> and \<open>holeDown_sift\<close> show that it computes the sifts of
  \<open>BinaryHeap\<close>, and it is an instance of the interface \<open>bag_queue\<close>.
\<close>

type_synonym ledger = "(artifact_owner, declaration_requirement list) gomap"

definition newLedger :: ledger where "newLedger = []"

definition ledger_contains :: "ledger \<Rightarrow> declaration_requirement \<Rightarrow> bool" where
  "ledger_contains l requirement =
     (case gm_get l (requirement_owner requirement) of
        None \<Rightarrow> False | Some requirements \<Rightarrow> requirement \<in> set requirements)"

definition ledger_containsOwner :: "ledger \<Rightarrow> artifact_owner \<Rightarrow> bool" where
  "ledger_containsOwner l owner = (length (value_or [] l owner) \<noteq> 0)"

definition ledger_add :: "declaration_requirement \<Rightarrow> ledger \<Rightarrow> ledger" where
  "ledger_add requirement l =
     gm_put (requirement_owner requirement)
       (gs_insert requirement (value_or [] l (requirement_owner requirement))) l"

definition ledger_remove :: "declaration_requirement \<Rightarrow> ledger \<Rightarrow> ledger" where
  "ledger_remove requirement l =
     (let owner = requirement_owner requirement;
          requirements = gs_delete requirement (value_or [] l owner)
      in if length requirements = 0 then gm_del owner l else gm_put owner requirements l)"

definition ledger_replaceOwner :: "artifact_owner \<Rightarrow> declaration_requirement list \<Rightarrow> ledger \<Rightarrow> ledger" where
  "ledger_replaceOwner owner requirements l = fold ledger_add requirements (gm_del owner l)"

definition ledger_forOwner ::
    "artifact_owner \<Rightarrow> (declaration_requirement \<Rightarrow> declaration_requirement \<Rightarrow> int) \<Rightarrow> ledger \<Rightarrow>
     declaration_requirement list \<times> nat" where
  "ledger_forOwner owner compare l =
     (let selected = value_or [] l owner in (sort_by compare selected, length selected))"

definition ledger_empty :: "ledger \<Rightarrow> bool" where
  "ledger_empty l \<longleftrightarrow> length l = 0"

definition group_ok :: "artifact_owner \<Rightarrow> declaration_requirement list \<Rightarrow> bool" where
  "group_ok owner qs \<longleftrightarrow> qs \<noteq> [] \<and> distinct qs \<and> (\<forall>q \<in> set qs. requirement_owner q = owner)"

definition ledger_wf :: "ledger \<Rightarrow> bool" where
  "ledger_wf l \<longleftrightarrow> gm_wf l \<and> (\<forall>owner qs. gm_get l owner = Some qs \<longrightarrow> group_ok owner qs)"

definition ledger_set :: "ledger \<Rightarrow> declaration_requirement set" where
  "ledger_set l = {q. ledger_contains l q}"

lemma ledger_contains_set [simp]: "ledger_contains l q \<longleftrightarrow> q \<in> ledger_set l"
  by (simp add: ledger_set_def)

lemma ledger_set_value: "q \<in> ledger_set l \<longleftrightarrow> q \<in> set (value_or [] l (requirement_owner q))"
  unfolding ledger_set_def ledger_contains_def value_or_def by (simp split: option.split)

lemma ledger_value:
  assumes "ledger_wf l"
  shows "distinct (value_or [] l owner)" "set (value_or [] l owner) = {q \<in> ledger_set l. requirement_owner q = owner}"
proof -
  have "distinct (value_or [] l owner) \<and> (\<forall>q \<in> set (value_or [] l owner). requirement_owner q = owner)"
  proof (cases "gm_get l owner")
    case None
    then show ?thesis by (simp add: value_or_def)
  next
    case (Some qs)
    then have "group_ok owner qs" using assms by (simp add: ledger_wf_def)
    moreover have "value_or [] l owner = qs" by (simp add: value_or_def Some)
    ultimately show ?thesis by (simp add: group_ok_def)
  qed
  note both = this
  show "distinct (value_or [] l owner)" by (rule conjunct1 [OF both])
  have "q \<in> set (value_or [] l owner) \<longleftrightarrow> q \<in> ledger_set l \<and> requirement_owner q = owner" for q
    using conjunct2 [OF both] ledger_set_value [of q l] by metis
  then show "set (value_or [] l owner) = {q \<in> ledger_set l. requirement_owner q = owner}" by blast
qed

lemma ledger_wf_new [simp]: "ledger_wf newLedger"
  by (simp add: ledger_wf_def newLedger_def)

lemma ledger_set_new [simp]: "ledger_set newLedger = {}"
  unfolding ledger_set_def ledger_contains_def newLedger_def by simp

lemma ledger_wf_put: "ledger_wf l \<Longrightarrow> group_ok owner qs \<Longrightarrow> ledger_wf (gm_put owner qs l)"
  by (simp add: ledger_wf_def)

lemma ledger_wf_del: "ledger_wf l \<Longrightarrow> ledger_wf (gm_del owner l)"
  by (simp add: ledger_wf_def)

lemma ledger_wf_add [simp]:
  assumes "ledger_wf l"
  shows "ledger_wf (ledger_add q l)"
proof -
  have "group_ok (requirement_owner q) (gs_insert q (value_or [] l (requirement_owner q)))"
    unfolding group_ok_def using ledger_value [OF assms, of "requirement_owner q"]
    by (auto simp: gs_insert_def)
  then show ?thesis unfolding ledger_add_def by (rule ledger_wf_put [OF assms])
qed

lemma ledger_set_add [simp]: "ledger_set (ledger_add q l) = insert q (ledger_set l)"
  by (auto simp: ledger_set_value ledger_add_def split: if_splits)

lemma ledger_wf_remove [simp]:
  assumes "ledger_wf l"
  shows "ledger_wf (ledger_remove q l)"
  using ledger_value [OF assms, of "requirement_owner q"]
  by (auto simp: ledger_remove_def Let_def group_ok_def intro!: ledger_wf_put [OF assms] ledger_wf_del [OF assms])

lemma ledger_set_remove [simp]: "ledger_set (ledger_remove q l) = ledger_set l - {q}"
proof -
  have "value_or [] (ledger_remove q l) w = (if w = requirement_owner q
      then gs_delete q (value_or [] l (requirement_owner q)) else value_or [] l w)" for w
    by (simp add: ledger_remove_def Let_def)
  then show ?thesis by (auto simp: ledger_set_value split: if_splits)
qed

lemma ledger_fold_add:
  "ledger_wf l \<Longrightarrow> ledger_wf (fold ledger_add qs l) \<and> ledger_set (fold ledger_add qs l) = ledger_set l \<union> set qs"
  by (induction qs arbitrary: l) auto

lemma ledger_set_del: "ledger_set (gm_del owner l) = {q \<in> ledger_set l. requirement_owner q \<noteq> owner}"
  by (auto simp: ledger_set_value split: if_splits)

lemma ledger_replaceOwner_facts:
  assumes "ledger_wf l"
  shows "ledger_wf (ledger_replaceOwner owner qs l)"
    "ledger_set (ledger_replaceOwner owner qs l) = {q \<in> ledger_set l. requirement_owner q \<noteq> owner} \<union> set qs"
  using ledger_fold_add [OF ledger_wf_del [OF assms], of qs owner]
  by (simp_all add: ledger_replaceOwner_def ledger_set_del)

lemma ledger_forOwner_facts:
  assumes "ledger_wf l"
  shows "set (fst (ledger_forOwner owner cmp l)) = {q \<in> ledger_set l. requirement_owner q = owner}"
    "distinct (fst (ledger_forOwner owner cmp l))"
    "snd (ledger_forOwner owner cmp l) = card {q \<in> ledger_set l. requirement_owner q = owner}"
  using ledger_value [OF assms, of owner] distinct_card [OF ledger_value(1) [OF assms, of owner]]
  by (simp_all add: ledger_forOwner_def Let_def)

lemma ledger_empty_set:
  assumes "ledger_wf l"
  shows "ledger_empty l \<longleftrightarrow> ledger_set l = {}"
proof (cases l)
  case Nil
  then show ?thesis using ledger_set_new by (simp add: newLedger_def ledger_empty_def)
next
  case (Cons p rest)
  then have get: "gm_get l (fst p) = Some (snd p)" by simp
  then have "group_ok (fst p) (snd p)" using assms by (simp add: ledger_wf_def)
  then obtain q where "q \<in> set (snd p)" "requirement_owner q = fst p"
    by (cases "snd p") (auto simp: group_ok_def)
  then have "q \<in> ledger_set l" using get by (simp add: ledger_set_value value_or_def)
  then show ?thesis using Cons by (auto simp: ledger_empty_def)
qed

subsection \<open>The queue of pending owners\<close>

record 'o ownerQueue =
  oq_owners :: "'o list"
  oq_compare :: "'o \<Rightarrow> 'o \<Rightarrow> int"

fun holeUp :: "('o \<Rightarrow> 'o \<Rightarrow> int) \<Rightarrow> 'o \<Rightarrow> 'o list \<Rightarrow> nat \<Rightarrow> 'o list" where
  "holeUp cmp owner owners index =
     (if 0 < index then
        let parent = (index - 1) div 2 in
        if cmp (owners ! parent) owner \<le> 0 then owners[index := owner]
        else holeUp cmp owner (owners[index := owners ! parent]) parent
      else owners[index := owner])"

declare holeUp.simps [simp del]

definition oq_push :: "'o \<Rightarrow> 'o ownerQueue \<Rightarrow> 'o ownerQueue" where
  "oq_push owner q =
     (let owners = oq_owners q @ [owner]
      in q\<lparr>oq_owners := holeUp (oq_compare q) owner owners (length owners - 1)\<rparr>)"

function holeDown :: "('o \<Rightarrow> 'o \<Rightarrow> int) \<Rightarrow> 'o \<Rightarrow> 'o list \<Rightarrow> nat \<Rightarrow> 'o list" where
  "holeDown cmp last' owners index =
     (let left = index * 2 + 1 in
      if length owners \<le> left then owners[index := last']
      else
        let right = left + 1;
            next' = (if right < length owners \<and> cmp (owners ! right) (owners ! left) < 0 then right else left)
        in if cmp last' (owners ! next') \<le> 0 then owners[index := last']
           else holeDown cmp last' (owners[index := owners ! next']) next')"
  by pat_completeness auto
termination
  by (relation "measure (\<lambda>(_, _, owners, index). length owners - index)") auto

declare holeDown.simps [simp del]

definition oq_pop :: "'o ownerQueue \<Rightarrow> 'o option \<times> 'o ownerQueue" where
  "oq_pop q =
     (if length (oq_owners q) = 0 then (None, q)
      else
        let selected = oq_owners q ! 0;
            lastIndex = length (oq_owners q) - 1;
            last' = oq_owners q ! lastIndex;
            owners = take lastIndex (oq_owners q)
        in if length owners = 0 then (Some selected, q\<lparr>oq_owners := owners\<rparr>)
           else (Some selected, q\<lparr>oq_owners := holeDown (oq_compare q) last' owners 0\<rparr>))"

definition oq_pending :: "'o ownerQueue \<Rightarrow> bool" where
  "oq_pending q \<longleftrightarrow> oq_owners q \<noteq> []"

lemma holeUp_sift: "i < length xs \<Longrightarrow> holeUp cmp x xs i = sift_up cmp (xs[i := x]) i"
proof (induction cmp x xs i rule: holeUp.induct)
  case (1 cmp x xs i)
  show ?case
  proof (cases "0 < i \<and> \<not> cmp (xs ! parent_of i) x \<le> 0")
    case True
    then have p: "parent_of i < i" "parent_of i < length xs" using 1 by auto
    have "swap_at (xs[i := x]) i (parent_of i) = xs[i := xs ! parent_of i, parent_of i := x]"
      using p 1 by (auto simp: swap_at_def)
    moreover have "holeUp cmp x (xs[i := xs ! parent_of i]) (parent_of i) =
        sift_up cmp (xs[i := xs ! parent_of i, parent_of i := x]) (parent_of i)"
      using 1 True p by auto
    ultimately show ?thesis
      using True p 1 by (simp add: holeUp.simps [of cmp x xs i] sift_up.simps [of cmp _ i] Let_def)
  next
    case False
    then show ?thesis
      using 1 by (auto simp: holeUp.simps [of cmp x xs i] sift_up.simps [of cmp _ i] Let_def)
  qed
qed

lemma holeDown_sift: "i < length xs \<Longrightarrow> holeDown cmp x xs i = sift_down cmp (xs[i := x]) i"
proof (induction cmp x xs i rule: holeDown.induct)
  case (1 cmp x xs i)
  let ?s = "if i * 2 + 1 + 1 < length xs \<and> cmp (xs ! (i * 2 + 1 + 1)) (xs ! (i * 2 + 1)) < 0
    then i * 2 + 1 + 1 else i * 2 + 1"
  have s: "smaller_child cmp (xs[i := x]) i = ?s"
    by (simp add: smaller_child_def Let_def nth_list_update)
  show ?case
  proof (cases "i * 2 + 1 < length xs \<and> \<not> cmp x (xs ! ?s) \<le> 0")
    case True
    have lt: "i < ?s" "?s < length xs" using True by auto
    then have "swap_at (xs[i := x]) i ?s = xs[i := xs ! ?s, ?s := x]" by (simp add: swap_at_def)
    moreover have "holeDown cmp x (xs[i := xs ! ?s]) ?s = sift_down cmp (xs[i := xs ! ?s, ?s := x]) ?s"
      using "1.IH" [OF refl _ refl refl] True lt by auto
    moreover have "holeDown cmp x xs i = holeDown cmp x (xs[i := xs ! ?s]) ?s"
      using True by (subst holeDown.simps) (simp only: Let_def, simp)
    moreover have "sift_down cmp (xs[i := x]) i = sift_down cmp (swap_at (xs[i := x]) i ?s) ?s"
      using True lt by (subst sift_down.simps) (simp only: Let_def s, simp)
    ultimately show ?thesis by simp
  next
    case False
    then have "holeDown cmp x xs i = xs[i := x]"
      by (subst holeDown.simps) (simp only: Let_def, auto)
    moreover have "sift_down cmp (xs[i := x]) i = xs[i := x]"
      using False "1.prems" by (subst sift_down.simps) (simp only: Let_def s, auto)
    ultimately show ?thesis by simp
  qed
qed

definition oq_inv :: "(type_ref \<Rightarrow> string) \<Rightarrow> artifact_owner ownerQueue \<Rightarrow> bool" where
  "oq_inv ts q \<longleftrightarrow> heap_ok (oq_compare q) (oq_owners q) \<and> oq_compare q = CompareArtifactOwners ts"

definition oq_new :: "('o \<Rightarrow> 'o \<Rightarrow> int) \<Rightarrow> 'o ownerQueue" where
  "oq_new compare = \<lparr>oq_owners = [], oq_compare = compare\<rparr>"

lemma oq_pop_cases:
  assumes "oq_owners q \<noteq> []"
  shows "\<exists>rest. oq_pop q = (Some (hd (oq_owners q)), q\<lparr>oq_owners := rest\<rparr>) \<and>
    rest = (if length (oq_owners q) = 1 then []
      else sift_down (oq_compare q) ((butlast (oq_owners q))[0 := last (oq_owners q)]) 0) \<and>
    add_mset (hd (oq_owners q)) (mset rest) = mset (oq_owners q)"
proof (cases "length (oq_owners q) = 1")
  case True
  then obtain x where "oq_owners q = [x]" by (cases "oq_owners q") auto
  then show ?thesis by (simp add: oq_pop_def Let_def)
next
  case False
  let ?xs = "oq_owners q"
  have l: "0 < length (butlast ?xs)" using False assms by (cases ?xs) auto
  have "?xs ! (length ?xs - 1) = last ?xs" "take (length ?xs - 1) ?xs = butlast ?xs" "?xs ! 0 = hd ?xs"
    using assms by (simp_all add: last_conv_nth butlast_conv_take hd_conv_nth)
  then have "oq_pop q = (Some (hd ?xs), q\<lparr>oq_owners := sift_down (oq_compare q) ((butlast ?xs)[0 := last ?xs]) 0\<rparr>)"
    using assms l holeDown_sift [OF l, of "oq_compare q" "last ?xs"] by (simp add: oq_pop_def Let_def)
  moreover have "add_mset (hd ?xs) (mset (sift_down (oq_compare q) ((butlast ?xs)[0 := last ?xs]) 0)) = mset ?xs"
    using mset_without [of 0 ?xs] l assms False by (simp add: without_def hd_conv_nth)
  ultimately show ?thesis using False by simp
qed

interpretation pq: bag_queue "CompareArtifactOwners ts" "oq_new (CompareArtifactOwners ts)"
  oq_push oq_pop oq_pending "\<lambda>q. mset (oq_owners q)" "oq_inv ts"
  for ts :: "type_ref \<Rightarrow> string"
proof unfold_locales
  fix q :: "artifact_owner ownerQueue" and x
  show "oq_inv ts (oq_new (CompareArtifactOwners ts))" by (simp add: oq_inv_def oq_new_def)
  show "mset (oq_owners (oq_new (CompareArtifactOwners ts))) = {#}" by (simp add: oq_new_def)
  assume inv: "oq_inv ts q"
  then have c: "oq_compare q = CompareArtifactOwners ts" by (simp add: oq_inv_def)
  have h: "heap_ok (CompareArtifactOwners ts) (oq_owners q)"
    using inv unfolding oq_inv_def c by blast
  have up: "oq_owners (oq_push x q) = sift_up (oq_compare q) (oq_owners q @ [x]) (length (oq_owners q))"
    by (simp add: oq_push_def holeUp_sift)
  show "oq_inv ts (oq_push x q)"
    using compare_preorder.heap_ok_sift_up [OF owner_order.compare_preorder_axioms
          compare_preorder.heap_but_up_append [OF owner_order.compare_preorder_axioms h]] up c
    by (simp add: oq_inv_def) (simp add: oq_push_def)
  show "mset (oq_owners (oq_push x q)) = add_mset x (mset (oq_owners q))" by (simp add: up)
  show "oq_pending q \<longleftrightarrow> mset (oq_owners q) \<noteq> {#}" by (simp add: oq_pending_def)
  show "mset (oq_owners q) = {#} \<Longrightarrow> oq_pop q = (None, q)" by (simp add: oq_pop_def)
  show "\<exists>x q'. oq_pop q = (Some x, q') \<and> oq_inv ts q' \<and> mset (oq_owners q) = add_mset x (mset (oq_owners q')) \<and>
      (\<forall>y \<in># mset (oq_owners q). CompareArtifactOwners ts x y \<le> 0)"
    if "mset (oq_owners q) \<noteq> {#}"
  proof -
    have ne: "oq_owners q \<noteq> []" using that by simp
    obtain rest where rest: "oq_pop q = (Some (hd (oq_owners q)), q\<lparr>oq_owners := rest\<rparr>)"
      "rest = (if length (oq_owners q) = 1 then []
        else sift_down (oq_compare q) ((butlast (oq_owners q))[0 := last (oq_owners q)]) 0)"
      "add_mset (hd (oq_owners q)) (mset rest) = mset (oq_owners q)"
      using oq_pop_cases [OF ne] by blast
    have "heap_ok (CompareArtifactOwners ts) rest"
    proof (cases "length (oq_owners q) = 1")
      case False
      then have l: "0 < length (butlast (oq_owners q))" using ne by (cases "oq_owners q") auto
      show ?thesis
        using False rest(2) c
          compare_preorder.heap_ok_sift_down [OF owner_order.compare_preorder_axioms
            compare_preorder.heap_replace(2) [OF owner_order.compare_preorder_axioms
              compare_preorder.heap_ok_butlast [OF owner_order.compare_preorder_axioms h] l]]
        by simp
    qed (simp add: rest(2))
    then show ?thesis
      using rest c compare_preorder.heap_ok_root_le [OF owner_order.compare_preorder_axioms h] ne
      by (intro exI [of _ "hd (oq_owners q)"] exI [of _ "q\<lparr>oq_owners := rest\<rparr>"])
        (simp add: oq_inv_def hd_conv_nth)
  qed
qed

end
