(* ===== verification/Scheduler.thy ===== *)
theory Scheduler
  imports Ledger
begin

text \<open>
  The requirement scheduler (\<open>internal/emit/requirements/scheduler.go\<close>): which declaration
  requirements are live, because a consumer's requests demand them or because they are roots, and
  which owners have to be rebuilt since their set of requirements changed.

  Requests are shared trees, so liveness is reference counted: a request node is retained by the
  consumers that list it and by the live sequence nodes it is a child of.  Counts are natural numbers
  (a Go \<open>uint64\<close> that counts stored references cannot wrap).  A panic is \<open>None\<close>; the lemmas show
  that none is reachable.
\<close>

record scheduler =
  sch_pendingOwners :: "artifact_owner ownerQueue"
  sch_pending :: "artifact_owner list"
  sch_removed :: "artifact_owner list"
  sch_orphaned :: "declaration_requirement list"
  sch_certified :: ledger
  sch_roots :: ledger
  sch_byConsumer :: "(artifact_owner, root_request list) gomap"
  sch_requestRefs :: "(root_request, nat) gomap"
  sch_requirementRefs :: "(declaration_requirement, nat) gomap"
  sch_active :: ledger
  sch_applied :: ledger
  sch_compare :: "declaration_requirement \<Rightarrow> declaration_requirement \<Rightarrow> int"

definition scheduler_New ::
    "(artifact_owner \<Rightarrow> artifact_owner \<Rightarrow> int) \<Rightarrow>
     (declaration_requirement \<Rightarrow> declaration_requirement \<Rightarrow> int) \<Rightarrow> scheduler" where
  "scheduler_New compareOwners compareRequirements =
     \<lparr>sch_pendingOwners = oq_new compareOwners, sch_pending = [], sch_removed = [], sch_orphaned = [],
      sch_certified = newLedger, sch_roots = newLedger, sch_byConsumer = [], sch_requestRefs = [],
      sch_requirementRefs = [], sch_active = newLedger, sch_applied = newLedger,
      sch_compare = compareRequirements\<rparr>"

definition enqueueOwner :: "artifact_owner \<Rightarrow> scheduler \<Rightarrow> scheduler" where
  "enqueueOwner owner s =
     (if owner \<in> set (sch_pending s) then s
      else s\<lparr>sch_pending := gs_insert owner (sch_pending s),
             sch_pendingOwners := oq_push owner (sch_pendingOwners s)\<rparr>)"

definition activate :: "declaration_requirement \<Rightarrow> scheduler \<Rightarrow> scheduler" where
  "activate requirement s =
     enqueueOwner (requirement_owner requirement)
       (s\<lparr>sch_active := ledger_add requirement (sch_active s)\<rparr>)"

definition scheduler_Enqueue :: "declaration_requirement \<Rightarrow> scheduler \<Rightarrow> scheduler" where
  "scheduler_Enqueue requirement s =
     (if ledger_contains (sch_roots s) requirement then s
      else
        let s = s\<lparr>sch_roots := ledger_add requirement (sch_roots s)\<rparr> in
        if \<not> ledger_contains (sch_active s) requirement then activate requirement s else s)"

definition NextBatch ::
    "scheduler \<Rightarrow> (artifact_owner \<times> declaration_requirement list \<times> bool) option \<times> scheduler" where
  "NextBatch s =
     (case oq_pop (sch_pendingOwners s) of
        (None, _) \<Rightarrow> (None, s)
      | (Some owner, queue) \<Rightarrow>
          let removed = (owner \<in> set (sch_removed s));
              requirements = fst (ledger_forOwner owner (sch_compare s) (sch_active s))
          in (Some (owner, requirements, removed),
              s\<lparr>sch_pendingOwners := queue, sch_pending := gs_delete owner (sch_pending s),
                sch_removed := gs_delete owner (sch_removed s),
                sch_applied := ledger_replaceOwner owner requirements (sch_applied s)\<rparr>))"

definition scheduler_HasPending :: "scheduler \<Rightarrow> bool" where
  "scheduler_HasPending s \<longleftrightarrow> length (sch_pending s) \<noteq> 0 \<or> length (sch_orphaned s) \<noteq> 0"

definition WasApplied :: "declaration_requirement \<Rightarrow> scheduler \<Rightarrow> bool" where
  "WasApplied requirement s = ledger_contains (sch_applied s) requirement"

definition AppliedForWithWork :: "artifact_owner \<Rightarrow> scheduler \<Rightarrow> declaration_requirement list \<times> nat" where
  "AppliedForWithWork owner s = ledger_forOwner owner (sch_compare s) (sch_applied s)"

definition AppliedFor :: "artifact_owner \<Rightarrow> scheduler \<Rightarrow> declaration_requirement list" where
  "AppliedFor owner s = fst (ledger_forOwner owner (sch_compare s) (sch_applied s))"

definition WasSelected :: "declaration_requirement \<Rightarrow> scheduler \<Rightarrow> bool" where
  "WasSelected requirement s \<longleftrightarrow> ledger_contains (sch_certified s) requirement \<or> WasApplied requirement s"

text \<open>The merge loop on the remaining parts of the two lists.\<close>

fun mergeFrom :: "('a \<Rightarrow> 'a \<Rightarrow> int) \<Rightarrow> 'a list \<Rightarrow> 'a list \<Rightarrow> 'a list" where
  "mergeFrom compare (l # left) (r # right) =
     (let order = compare l r in
      if order < 0 then l # mergeFrom compare left (r # right)
      else if 0 < order then r # mergeFrom compare (l # left) right
      else l # mergeFrom compare left right)"
| "mergeFrom compare left right = left @ right"

definition merge_requirements :: "('a \<Rightarrow> 'a \<Rightarrow> int) \<Rightarrow> 'a list \<Rightarrow> 'a list \<Rightarrow> 'a list" where
  "merge_requirements compare left right =
     (if length left = 0 then right else if length right = 0 then left
      else mergeFrom compare left right)"

definition SelectedFor :: "artifact_owner \<Rightarrow> scheduler \<Rightarrow> declaration_requirement list" where
  "SelectedFor owner s =
     merge_requirements (sch_compare s)
       (fst (ledger_forOwner owner (sch_compare s) (sch_certified s))) (AppliedFor owner s)"

definition consumed :: "scheduler \<Rightarrow> artifact_owner \<Rightarrow> root_request list" where
  "consumed s consumer = value_or [] (sch_byConsumer s) consumer"

definition ConsumedBy :: "artifact_owner \<Rightarrow> scheduler \<Rightarrow> declaration_requirement list option" where
  "ConsumedBy owner s =
     (case WalkUniqueRootRequestPayloads (consumed s owner) of
        Inl _ \<Rightarrow> None
      | Inr visited \<Rightarrow>
          Some (sort_by (sch_compare s) (gs_of (List.map_filter request_DeclarationRequirement visited))))"

definition ConsumedRequestsBy :: "artifact_owner \<Rightarrow> scheduler \<Rightarrow> root_request list" where
  "ConsumedRequestsBy owner s = consumed s owner"

subsection \<open>Reference counting\<close>

definition retainRequirement :: "declaration_requirement \<Rightarrow> scheduler \<Rightarrow> scheduler" where
  "retainRequirement requirement s =
     (let references = value_or 0 (sch_requirementRefs s) requirement;
          s = s\<lparr>sch_requirementRefs := gm_put requirement (references + 1) (sch_requirementRefs s)\<rparr>
      in if references \<noteq> 0 then s
         else
           let orphaned = (requirement \<in> set (sch_orphaned s));
               s = s\<lparr>sch_orphaned := gs_delete requirement (sch_orphaned s)\<rparr>
           in if \<not> orphaned \<and> \<not> ledger_contains (sch_active s) requirement then activate requirement s else s)"

definition releaseRequirement :: "declaration_requirement \<Rightarrow> scheduler \<Rightarrow> scheduler option" where
  "releaseRequirement requirement s =
     (let references = value_or 0 (sch_requirementRefs s) requirement in
      if references = 0 then None
      else if references \<noteq> 1 then
        Some (s\<lparr>sch_requirementRefs := gm_put requirement (references - 1) (sch_requirementRefs s)\<rparr>)
      else
        let s = s\<lparr>sch_requirementRefs := gm_del requirement (sch_requirementRefs s)\<rparr> in
        if \<not> ledger_contains (sch_roots s) requirement
        then Some (s\<lparr>sch_orphaned := gs_insert requirement (sch_orphaned s)\<rparr>) else Some s)"

fun retainRequest :: "root_request \<Rightarrow> scheduler \<Rightarrow> scheduler option"
  and retainRequests :: "root_request list \<Rightarrow> scheduler \<Rightarrow> scheduler option" where
  "retainRequest NoRequest s = (if value_or 0 (sch_requestRefs s) NoRequest \<noteq> 0
     then Some (s\<lparr>sch_requestRefs := gm_put NoRequest (value_or 0 (sch_requestRefs s) NoRequest + 1) (sch_requestRefs s)\<rparr>)
     else None)"
| "retainRequest (PayloadRequest a p) s =
     (let request = PayloadRequest a p; references = value_or 0 (sch_requestRefs s) request;
          s = s\<lparr>sch_requestRefs := gm_put request (references + 1) (sch_requestRefs s)\<rparr>
      in if references \<noteq> 0 then Some s
         else case request_DeclarationRequirement request of
           None \<Rightarrow> None | Some requirement \<Rightarrow> Some (retainRequirement requirement s))"
| "retainRequest (SequenceRequest a kinds children) s =
     (let request = SequenceRequest a kinds children; references = value_or 0 (sch_requestRefs s) request;
          s = s\<lparr>sch_requestRefs := gm_put request (references + 1) (sch_requestRefs s)\<rparr>
      in if references \<noteq> 0 then Some s else retainRequests children s)"
| "retainRequests [] s = Some s"
| "retainRequests (request # rest) s =
     (case retainRequest request s of None \<Rightarrow> None | Some s \<Rightarrow> retainRequests rest s)"

fun releaseRequest :: "root_request \<Rightarrow> scheduler \<Rightarrow> scheduler option"
  and releaseRequests :: "root_request list \<Rightarrow> scheduler \<Rightarrow> scheduler option" where
  "releaseRequest NoRequest s =
     (let references = value_or 0 (sch_requestRefs s) NoRequest in
      if references = 0 then None
      else if references \<noteq> 1 then
        Some (s\<lparr>sch_requestRefs := gm_put NoRequest (references - 1) (sch_requestRefs s)\<rparr>)
      else None)"
| "releaseRequest (PayloadRequest a p) s =
     (let request = PayloadRequest a p; references = value_or 0 (sch_requestRefs s) request in
      if references = 0 then None
      else if references \<noteq> 1 then
        Some (s\<lparr>sch_requestRefs := gm_put request (references - 1) (sch_requestRefs s)\<rparr>)
      else
        let s = s\<lparr>sch_requestRefs := gm_del request (sch_requestRefs s)\<rparr> in
        case request_DeclarationRequirement request of
          None \<Rightarrow> None | Some requirement \<Rightarrow> releaseRequirement requirement s)"
| "releaseRequest (SequenceRequest a kinds children) s =
     (let request = SequenceRequest a kinds children; references = value_or 0 (sch_requestRefs s) request in
      if references = 0 then None
      else if references \<noteq> 1 then
        Some (s\<lparr>sch_requestRefs := gm_put request (references - 1) (sch_requestRefs s)\<rparr>)
      else releaseRequests children (s\<lparr>sch_requestRefs := gm_del request (sch_requestRefs s)\<rparr>))"
| "releaseRequests [] s = Some s"
| "releaseRequests (request # rest) s =
     (case releaseRequest request s of None \<Rightarrow> None | Some s \<Rightarrow> releaseRequests rest s)"

text \<open>Keeping the first occurrence of every request.\<close>

definition canonicalRoots :: "root_request list \<Rightarrow> nat \<Rightarrow> (root_request_error + root_request list) \<times> nat" where
  "canonicalRoots requests next' =
     (case SelectDeclarationRequests requests next' of
        (Inl e, n) \<Rightarrow> (Inl e, n)
      | (Inr selected, n) \<Rightarrow> (Inr (rev (fold (\<lambda>r rs. if r \<in> set rs then rs else r # rs) selected [])), n))"

text \<open>
  \<open>Replace\<close>; \<open>next'\<close> is the first free address of the heap of requests.  The request sets of the code
  are the canonical lists themselves, which have no duplicates.
\<close>

definition scheduler_Replace ::
    "artifact_owner \<Rightarrow> root_request list \<Rightarrow> nat \<Rightarrow> scheduler \<Rightarrow>
     (root_request_error option \<times> scheduler \<times> nat) option" where
  "scheduler_Replace consumer requests next' s =
     (case canonicalRoots requests next' of
        (Inl e, n) \<Rightarrow> Some (Some e, s, n)
      | (Inr selected, n) \<Rightarrow>
          let current = consumed s consumer in
          (case retainRequests (filter (\<lambda>r. r \<notin> set current) selected) s of
             None \<Rightarrow> None
           | Some s \<Rightarrow>
               (case releaseRequests (filter (\<lambda>r. r \<notin> set selected) current) s of
                  None \<Rightarrow> None
                | Some s \<Rightarrow>
                    Some (None,
                      (if length selected = 0
                       then s\<lparr>sch_byConsumer := gm_del consumer (sch_byConsumer s)\<rparr>
                       else s\<lparr>sch_byConsumer := gm_put consumer selected (sch_byConsumer s)\<rparr>), n))))"

subsection \<open>Removals and the certified requirements\<close>

definition removeOrphan ::
    "declaration_requirement \<Rightarrow> scheduler \<times> artifact_owner list \<Rightarrow> scheduler \<times> artifact_owner list" where
  "removeOrphan requirement = (\<lambda>(s, owners).
     let s = s\<lparr>sch_orphaned := gs_delete requirement (sch_orphaned s)\<rparr> in
     if ledger_contains (sch_roots s) requirement \<or> value_or 0 (sch_requirementRefs s) requirement \<noteq> 0
     then (s, owners)
     else (s\<lparr>sch_active := ledger_remove requirement (sch_active s)\<rparr>,
           gs_insert (requirement_owner requirement) owners))"

definition FinalizeRemovals :: "scheduler \<Rightarrow> (bool \<times> scheduler) option" where
  "FinalizeRemovals s =
     (if length (sch_pending s) \<noteq> 0 then None
      else if length (sch_orphaned s) = 0 then Some (False, s)
      else
        let (s, owners) = fold removeOrphan (sch_orphaned s) (s, []);
            s = fold (\<lambda>owner s. enqueueOwner owner (s\<lparr>sch_removed := gs_insert owner (sch_removed s)\<rparr>)) owners s
        in Some (length owners \<noteq> 0, s))"

definition CertifiedEmpty :: "scheduler \<Rightarrow> bool" where
  "CertifiedEmpty s = ledger_empty (sch_certified s)"

definition CertifiedContains :: "declaration_requirement \<Rightarrow> scheduler \<Rightarrow> bool" where
  "CertifiedContains requirement s = ledger_contains (sch_certified s) requirement"

fun installFrom :: "declaration_requirement list \<Rightarrow> ledger \<Rightarrow> ledger option" where
  "installFrom [] selected = Some selected"
| "installFrom (requirement # rest) selected =
     (if ledger_contains selected requirement then None
      else installFrom rest (ledger_add requirement selected))"

definition InstallCertified :: "declaration_requirement list \<Rightarrow> scheduler \<Rightarrow> bool \<times> scheduler" where
  "InstallCertified requirements s =
     (if \<not> ledger_empty (sch_certified s) then (False, s)
      else case installFrom requirements newLedger of
        None \<Rightarrow> (False, s)
      | Some selected \<Rightarrow> (True, s\<lparr>sch_certified := selected\<rparr>))"

end
