(* ===== verification/SchedulerInvariant.thy ===== *)
theory SchedulerInvariant
  imports Scheduler
begin

text \<open>
  The invariant of the requirement scheduler.  \<open>balanced E D X s\<close> is the book-keeping equation of the
  reference counts: \<open>E\<close> are the references the consumers hold, \<open>D\<close> those still to be added and \<open>X\<close>
  those still to be taken away, in the middle of a replacement.
\<close>

definition refs :: "scheduler \<Rightarrow> root_request \<Rightarrow> nat" where
  "refs s r = value_or 0 (sch_requestRefs s) r"

definition reqrefs :: "scheduler \<Rightarrow> declaration_requirement \<Rightarrow> nat" where
  "reqrefs s q = value_or 0 (sch_requirementRefs s) q"

definition live :: "scheduler \<Rightarrow> root_request set" where
  "live s = fst ` set (sch_requestRefs s)"

definition childs :: "root_request \<Rightarrow> root_request list" where
  "childs r = (case NestedRequests r of None \<Rightarrow> [] | Some cs \<Rightarrow> cs)"

lemma childs_simps [simp]:
  "childs NoRequest = []" "childs (PayloadRequest a p) = []" "childs (SequenceRequest a k cs) = cs"
  by (simp_all add: childs_def)

text \<open>Requests that hold declaration requirements only.\<close>

fun declares :: "root_request \<Rightarrow> bool" where
  "declares NoRequest = False"
| "declares (PayloadRequest a p) = (request_DeclarationRequirement (PayloadRequest a p) \<noteq> None)"
| "declares (SequenceRequest a k cs) = list_all declares cs"

definition counted :: "scheduler \<Rightarrow> bool" where
  "counted s \<longleftrightarrow> gm_wf (sch_requestRefs s) \<and> 0 \<notin> snd ` set (sch_requestRefs s) \<and> (\<forall>r \<in> live s. declares r)"

definition balanced :: "root_request multiset \<Rightarrow> root_request multiset \<Rightarrow> root_request multiset \<Rightarrow> scheduler \<Rightarrow> bool" where
  "balanced E D X s \<longleftrightarrow> counted s \<and>
     (\<forall>r. refs s r + count D r = count E r + count X r + (\<Sum>p \<in> live s. count (mset (childs p)) r))"

text \<open>Requirement counts, the active set and the orphans.\<close>

definition demands :: "scheduler \<Rightarrow> declaration_requirement \<Rightarrow> root_request set" where
  "demands s q = {r \<in> live s. request_DeclarationRequirement r = Some q}"

definition activity_ok :: "scheduler \<Rightarrow> bool" where
  "activity_ok s \<longleftrightarrow> (\<forall>q. reqrefs s q = card (demands s q)) \<and>
     ledger_wf (sch_active s) \<and> ledger_wf (sch_roots s) \<and> ledger_wf (sch_applied s) \<and> ledger_wf (sch_certified s) \<and>
     distinct (sch_orphaned s) \<and>
     (\<forall>q. q \<in> ledger_set (sch_active s) \<longleftrightarrow>
        q \<in> ledger_set (sch_roots s) \<or> 0 < reqrefs s q \<or> q \<in> set (sch_orphaned s)) \<and>
     (\<forall>q \<in> set (sch_orphaned s). reqrefs s q = 0)"

definition pending_ok :: "(type_ref \<Rightarrow> string) \<Rightarrow> scheduler \<Rightarrow> bool" where
  "pending_ok ts s \<longleftrightarrow> oq_inv ts (sch_pendingOwners s) \<and> distinct (sch_pending s) \<and>
     mset (oq_owners (sch_pendingOwners s)) = mset (sch_pending s) \<and>
     set (sch_removed s) \<subseteq> set (sch_pending s) \<and>
     (\<forall>q. requirement_owner q \<notin> set (sch_pending s) \<longrightarrow>
        (q \<in> ledger_set (sch_applied s) \<longleftrightarrow> q \<in> ledger_set (sch_active s)))"

subsection \<open>Entries of the reference map\<close>

lemma finite_live [simp]: "finite (live s)"
  by (simp add: live_def)

lemma live_refs: "counted s \<Longrightarrow> r \<in> live s \<longleftrightarrow> 0 < refs s r"
proof -
  assume c: "counted s"
  show ?thesis
  proof (cases "gm_get (sch_requestRefs s) r")
    case None
    then show ?thesis by (simp add: live_def refs_def value_or_def gm_get_none [symmetric])
  next
    case (Some n)
    then have "(r, n) \<in> set (sch_requestRefs s)" using map_of_SomeD by metis
    then have "n \<noteq> 0" using c by (force simp: counted_def)
    then show ?thesis using Some gm_get_key [OF Some] by (simp add: live_def refs_def value_or_def)
  qed
qed

lemma counted_put:
  assumes "counted s" "declares r" "0 < n"
  shows "counted (s\<lparr>sch_requestRefs := gm_put r n (sch_requestRefs s)\<rparr>)"
    "live (s\<lparr>sch_requestRefs := gm_put r n (sch_requestRefs s)\<rparr>) = insert r (live s)"
    "refs (s\<lparr>sch_requestRefs := gm_put r n (sch_requestRefs s)\<rparr>) = (refs s)(r := n)"
proof -
  have wf: "gm_wf (gm_put r n (sch_requestRefs s))" using assms by (simp add: counted_def)
  have nz: "m \<noteq> 0" if "(k, m) \<in> set (gm_put r n (sch_requestRefs s))" for k m
  proof -
    have "gm_get (gm_put r n (sch_requestRefs s)) k = Some m" by (rule map_of_is_SomeI [OF wf that])
    then have "k = r \<and> m = n \<or> gm_get (sch_requestRefs s) k = Some m" by (simp split: if_splits)
    then show ?thesis using assms 
      by (auto simp: counted_def dest!: map_of_SomeD) (metis image_eqI snd_conv not_gr_zero)
  qed
  have "0 \<notin> snd ` set (gm_put r n (sch_requestRefs s))"
  proof
    assume "0 \<in> snd ` set (gm_put r n (sch_requestRefs s))"
    then obtain k where "(k, 0) \<in> set (gm_put r n (sch_requestRefs s))" by auto
    from nz [OF this] show False by simp
  qed
  then show "counted (s\<lparr>sch_requestRefs := gm_put r n (sch_requestRefs s)\<rparr>)"
    using assms wf by (simp add: counted_def live_def)
  show "live (s\<lparr>sch_requestRefs := gm_put r n (sch_requestRefs s)\<rparr>) = insert r (live s)" by (simp add: live_def)
  show "refs (s\<lparr>sch_requestRefs := gm_put r n (sch_requestRefs s)\<rparr>) = (refs s)(r := n)"
    by (simp add: refs_def fun_eq_iff)
qed

lemma counted_del:
  assumes "counted s"
  shows "counted (s\<lparr>sch_requestRefs := gm_del r (sch_requestRefs s)\<rparr>)"
    "live (s\<lparr>sch_requestRefs := gm_del r (sch_requestRefs s)\<rparr>) = live s - {r}"
    "refs (s\<lparr>sch_requestRefs := gm_del r (sch_requestRefs s)\<rparr>) = (refs s)(r := 0)"
proof -
  have "set (gm_del r (sch_requestRefs s)) \<subseteq> set (sch_requestRefs s)" by (auto simp: AList.delete_eq)
  then show "counted (s\<lparr>sch_requestRefs := gm_del r (sch_requestRefs s)\<rparr>)"
    using assms by (fastforce simp: counted_def live_def)
  show "live (s\<lparr>sch_requestRefs := gm_del r (sch_requestRefs s)\<rparr>) = live s - {r}" by (simp add: live_def)
  show "refs (s\<lparr>sch_requestRefs := gm_del r (sch_requestRefs s)\<rparr>) = (refs s)(r := 0)"
    by (simp add: refs_def fun_eq_iff)
qed

text \<open>The equation under the four changes of a count.\<close>

definition edges_to :: "scheduler \<Rightarrow> root_request \<Rightarrow> nat" where
  "edges_to s r = (\<Sum>p \<in> live s. count (mset (childs p)) r)"

lemma balanced_at:
  "balanced E D X s \<longleftrightarrow> counted s \<and> (\<forall>r. refs s r + count D r = count E r + count X r + edges_to s r)"
  by (simp add: balanced_def edges_to_def)

lemma balanced_counted: "balanced E D X s \<Longrightarrow> counted s"
  by (simp add: balanced_def)

lemma counted_live: "counted s \<Longrightarrow> 0 < refs s r \<Longrightarrow> r \<in> live s \<and> declares r"
  using live_refs [of s r] unfolding counted_def by blast

lemma balanced_bump:
  assumes b: "balanced E D X s" and D: "r \<in># D" and pos: "0 < refs s r"
  shows "balanced E (D - {#r#}) X (s\<lparr>sch_requestRefs := gm_put r (refs s r + 1) (sch_requestRefs s)\<rparr>)"
    (is "balanced _ _ _ ?t")
proof -
  have c: "counted s" by (rule balanced_counted [OF b])
  have r: "r \<in> live s" "declares r" using counted_live [OF c, of r] pos by simp_all
  note p = counted_put [OF c r(2), of "refs s r + 1"]
  have e: "edges_to ?t x = edges_to s x" for x using p(2) r(1) by (simp add: edges_to_def insert_absorb)
  have f: "refs ?t x = (if x = r then refs s r + 1 else refs s x)" for x using p(3) by simp
  have eq: "refs s x + count D x = count E x + count X x + edges_to s x" for x using b by (simp add: balanced_at)
  have "refs ?t x + count (D - {#r#}) x = count E x + count X x + edges_to ?t x" for x
    using eq [of x] D unfolding e f by (cases "x = r") (simp_all flip: count_greater_zero_iff)
  with p(1) show ?thesis unfolding balanced_at by simp
qed

lemma balanced_start:
  assumes b: "balanced E D X s" and D: "r \<in># D" and zero: "refs s r = 0" and d: "declares r"
  shows "balanced E (D - {#r#} + mset (childs r)) X (s\<lparr>sch_requestRefs := gm_put r 1 (sch_requestRefs s)\<rparr>)"
    (is "balanced _ _ _ ?t")
proof -
  have c: "counted s" by (rule balanced_counted [OF b])
  have r: "r \<notin> live s" using live_refs [OF c, of r] zero by simp
  note p = counted_put [OF c d, of 1]
  have e: "edges_to ?t x = count (mset (childs r)) x + edges_to s x" for x
    using p(2) r by (simp add: edges_to_def)
  have f: "refs ?t x = (if x = r then 1 else refs s x)" for x using p(3) by simp
  have eq: "refs s x + count D x = count E x + count X x + edges_to s x" for x using b by (simp add: balanced_at)
  have "refs ?t x + count (D - {#r#} + mset (childs r)) x = count E x + count X x + edges_to ?t x" for x
    using eq [of x] D zero unfolding e f by (cases "x = r") (simp_all flip: count_greater_zero_iff)
  with p(1) show ?thesis unfolding balanced_at by simp
qed

lemma balanced_drop:
  assumes b: "balanced E {#} X s" and X: "r \<in># X" and pos: "1 < refs s r"
  shows "balanced E {#} (X - {#r#}) (s\<lparr>sch_requestRefs := gm_put r (refs s r - 1) (sch_requestRefs s)\<rparr>)"
    (is "balanced _ _ _ ?t")
proof -
  have c: "counted s" by (rule balanced_counted [OF b])
  have r: "r \<in> live s" "declares r" using counted_live [OF c, of r] pos by simp_all
  note p = counted_put [OF c r(2), of "refs s r - 1"]
  have e: "edges_to ?t x = edges_to s x" for x using p(2) r(1) pos by (simp add: edges_to_def insert_absorb)
  have f: "refs ?t x = (if x = r then refs s r - 1 else refs s x)" for x using p(3) pos by simp
  have eq: "refs s x = count E x + count X x + edges_to s x" for x using b by (simp add: balanced_at)
  have "refs ?t x + count {#} x = count E x + count (X - {#r#}) x + edges_to ?t x" for x
    using eq [of x] X pos unfolding e f by (cases "x = r") (simp_all flip: count_greater_zero_iff)
  with p(1) pos show ?thesis unfolding balanced_at by simp
qed

lemma balanced_stop:
  assumes b: "balanced E {#} X s" and X: "r \<in># X" and one: "refs s r = 1"
  shows "balanced E {#} (X - {#r#} + mset (childs r)) (s\<lparr>sch_requestRefs := gm_del r (sch_requestRefs s)\<rparr>)"
    (is "balanced _ _ _ ?t")
proof -
  have c: "counted s" by (rule balanced_counted [OF b])
  have r: "r \<in> live s" using live_refs [OF c, of r] one by simp
  note p = counted_del [OF c, of r]
  have e: "edges_to s x = count (mset (childs r)) x + edges_to ?t x" for x
    unfolding edges_to_def p(2) using r by (simp add: sum.remove)
  have f: "refs ?t x = (if x = r then 0 else refs s x)" for x using p(3) by simp
  have eq: "refs s x = count E x + count X x + edges_to s x" for x using b by (simp add: balanced_at)
  have "refs ?t x + count {#} x = count E x + count (X - {#r#} + mset (childs r)) x + edges_to ?t x" for x
    using eq [of x] X one unfolding e f by (cases "x = r") (simp_all flip: count_greater_zero_iff)
  with p(1) show ?thesis unfolding balanced_at by simp
qed

lemma balanced_refs: "balanced E {#} X s \<Longrightarrow> r \<in># X \<Longrightarrow> 0 < refs s r"
  unfolding balanced_at by (metis add_gr_0 count_empty count_greater_zero_iff add_0_right)

lemma balanced_frame:
  "sch_requestRefs t = sch_requestRefs s \<Longrightarrow> balanced E D X t = balanced E D X s"
  by (simp add: balanced_def counted_def live_def refs_def)

subsection \<open>Requirements\<close>

definition activity :: "(declaration_requirement \<Rightarrow> nat) \<Rightarrow> scheduler \<Rightarrow> bool" where
  "activity c s \<longleftrightarrow> (\<forall>q. reqrefs s q = c q) \<and>
     ledger_wf (sch_active s) \<and> ledger_wf (sch_roots s) \<and> ledger_wf (sch_applied s) \<and> ledger_wf (sch_certified s) \<and>
     distinct (sch_orphaned s) \<and>
     (\<forall>q. q \<in> ledger_set (sch_active s) \<longleftrightarrow>
        q \<in> ledger_set (sch_roots s) \<or> 0 < reqrefs s q \<or> q \<in> set (sch_orphaned s)) \<and>
     (\<forall>q \<in> set (sch_orphaned s). reqrefs s q = 0)"

lemma activity_ok_activity: "activity_ok s = activity (\<lambda>q. card (demands s q)) s"
  by (simp add: activity_ok_def activity_def)

text \<open>What the reference counting leaves alone.\<close>

definition frame :: "scheduler \<Rightarrow> scheduler \<Rightarrow> bool" where
  "frame s t \<longleftrightarrow> sch_byConsumer t = sch_byConsumer s \<and> sch_roots t = sch_roots s \<and>
     sch_certified t = sch_certified s \<and> sch_applied t = sch_applied s \<and> sch_compare t = sch_compare s"

lemma frame_refl [simp]: "frame s s"
  by (simp add: frame_def)

lemma frame_trans: "frame s t \<Longrightarrow> frame t u \<Longrightarrow> frame s u"
  by (simp add: frame_def)

lemma frame_refs [simp]: "frame s (s\<lparr>sch_requestRefs := m\<rparr>)"
  by (simp add: frame_def)

lemma enqueueOwner_frame [simp]:
  "sch_active (enqueueOwner w s) = sch_active s" "sch_roots (enqueueOwner w s) = sch_roots s"
  "sch_certified (enqueueOwner w s) = sch_certified s" "sch_applied (enqueueOwner w s) = sch_applied s"
  "sch_byConsumer (enqueueOwner w s) = sch_byConsumer s" "sch_compare (enqueueOwner w s) = sch_compare s"
  "sch_orphaned (enqueueOwner w s) = sch_orphaned s" "sch_removed (enqueueOwner w s) = sch_removed s"
  "sch_requestRefs (enqueueOwner w s) = sch_requestRefs s"
  "sch_requirementRefs (enqueueOwner w s) = sch_requirementRefs s"
  by (simp_all add: enqueueOwner_def)

lemma enqueueOwner_pending [simp]: "set (sch_pending (enqueueOwner w s)) = insert w (set (sch_pending s))"
  by (auto simp: enqueueOwner_def)

definition queue_ok :: "(type_ref \<Rightarrow> string) \<Rightarrow> scheduler \<Rightarrow> bool" where
  "queue_ok ts s \<longleftrightarrow> oq_inv ts (sch_pendingOwners s) \<and> distinct (sch_pending s) \<and>
     mset (oq_owners (sch_pendingOwners s)) = mset (sch_pending s)"

definition settled :: "scheduler \<Rightarrow> bool" where
  "settled s \<longleftrightarrow> (\<forall>q. requirement_owner q \<notin> set (sch_pending s) \<longrightarrow>
     (q \<in> ledger_set (sch_applied s) \<longleftrightarrow> q \<in> ledger_set (sch_active s)))"

lemma pending_ok_parts:
  "pending_ok ts s \<longleftrightarrow> queue_ok ts s \<and> set (sch_removed s) \<subseteq> set (sch_pending s) \<and> settled s"
  by (auto simp: pending_ok_def queue_ok_def settled_def)

lemma queue_ok_enqueue: "queue_ok ts s \<Longrightarrow> queue_ok ts (enqueueOwner w s)"
  using pq.inv_push [of ts "sch_pendingOwners s" w] pq.content_push [of ts "sch_pendingOwners s" w]
  by (auto simp: queue_ok_def enqueueOwner_def gs_insert_def)

lemma queue_ok_frame:
  "sch_pendingOwners t = sch_pendingOwners s \<Longrightarrow> sch_pending t = sch_pending s \<Longrightarrow> queue_ok ts t = queue_ok ts s"
  by (simp add: queue_ok_def)

lemma pending_ok_update [simp]:
  "pending_ok ts (s\<lparr>sch_requirementRefs := a\<rparr>) = pending_ok ts s"
  "pending_ok ts (s\<lparr>sch_requestRefs := b\<rparr>) = pending_ok ts s"
  "pending_ok ts (s\<lparr>sch_orphaned := c\<rparr>) = pending_ok ts s"
  "pending_ok ts (s\<lparr>sch_roots := d\<rparr>) = pending_ok ts s"
  "pending_ok ts (s\<lparr>sch_certified := d\<rparr>) = pending_ok ts s"
  "pending_ok ts (s\<lparr>sch_byConsumer := e\<rparr>) = pending_ok ts s"
  by (simp_all add: pending_ok_def)

lemma reqrefs_update [simp]:
  "reqrefs (s\<lparr>sch_orphaned := c\<rparr>) = reqrefs s" "reqrefs (s\<lparr>sch_requestRefs := b\<rparr>) = reqrefs s"
  "reqrefs (s\<lparr>sch_roots := d\<rparr>) = reqrefs s" "reqrefs (s\<lparr>sch_byConsumer := e\<rparr>) = reqrefs s"
  "reqrefs (s\<lparr>sch_requirementRefs := gm_put q n (sch_requirementRefs s)\<rparr>) = (reqrefs s)(q := n)"
  "reqrefs (s\<lparr>sch_requirementRefs := gm_del q (sch_requirementRefs s)\<rparr>) = (reqrefs s)(q := 0)"
  "reqrefs (activate p s) = reqrefs s"
  by (simp_all add: reqrefs_def fun_eq_iff activate_def)

lemma pending_ok_frame:
  "sch_pendingOwners t = sch_pendingOwners s \<Longrightarrow> sch_pending t = sch_pending s \<Longrightarrow> sch_removed t = sch_removed s \<Longrightarrow>
    sch_applied t = sch_applied s \<Longrightarrow> sch_active t = sch_active s \<Longrightarrow> pending_ok ts t = pending_ok ts s"
  by (simp add: pending_ok_def)

lemma activate_facts [simp]:
  "sch_roots (activate q s) = sch_roots s" "sch_certified (activate q s) = sch_certified s"
  "sch_applied (activate q s) = sch_applied s" "sch_byConsumer (activate q s) = sch_byConsumer s"
  "sch_compare (activate q s) = sch_compare s" "sch_orphaned (activate q s) = sch_orphaned s"
  "sch_requestRefs (activate q s) = sch_requestRefs s" "sch_requirementRefs (activate q s) = sch_requirementRefs s"
  "sch_active (activate q s) = ledger_add q (sch_active s)"
  by (simp_all add: activate_def)

lemma pending_ok_activate:
  assumes "pending_ok ts s"
  shows "pending_ok ts (activate q s)"
proof -
  let ?s = "s\<lparr>sch_active := ledger_add q (sch_active s)\<rparr>"
  have "queue_ok ts ?s" using assms by (simp add: pending_ok_parts queue_ok_frame [of ?s s])
  then have "queue_ok ts (activate q s)" by (simp add: activate_def queue_ok_enqueue)
  then show ?thesis using assms by (auto simp: pending_ok_parts settled_def activate_def)
qed

lemma retainRequirement_facts:
  assumes act: "activity c s" and pend: "pending_ok ts s"
  shows "activity (c(q := c q + 1)) (retainRequirement q s)" "pending_ok ts (retainRequirement q s)"
    "frame s (retainRequirement q s)" "sch_requestRefs (retainRequirement q s) = sch_requestRefs s"
proof -
  let ?s = "s\<lparr>sch_requirementRefs := gm_put q (reqrefs s q + 1) (sch_requirementRefs s)\<rparr>"
  let ?t = "?s\<lparr>sch_orphaned := gs_delete q (sch_orphaned s)\<rparr>"
  have cases: "retainRequirement q s = (if reqrefs s q \<noteq> 0 then ?s
      else if q \<notin> set (sch_orphaned s) \<and> q \<notin> ledger_set (sch_active s) then activate q ?t else ?t)"
    by (simp add: retainRequirement_def Let_def reqrefs_def)
  show "pending_ok ts (retainRequirement q s)" using pend by (simp add: cases pending_ok_activate)
  show "frame s (retainRequirement q s)" by (simp add: cases frame_def)
  show "sch_requestRefs (retainRequirement q s) = sch_requestRefs s" by (simp add: cases)
  show "activity (c(q := c q + 1)) (retainRequirement q s)"
    using act by (auto simp: cases activity_def)
qed

lemma releaseRequirement_facts:
  assumes act: "activity c s" and pend: "pending_ok ts s" and pos: "0 < c q"
  shows "\<exists>t. releaseRequirement q s = Some t \<and> activity (c(q := c q - 1)) t \<and> pending_ok ts t \<and>
    frame s t \<and> sch_requestRefs t = sch_requestRefs s"
proof -
  have rq: "value_or 0 (sch_requirementRefs s) q = reqrefs s q" "reqrefs s q = c q"
    using act by (simp_all add: activity_def reqrefs_def)
  show ?thesis
  proof (cases "c q = 1")
    case False
    let ?t = "s\<lparr>sch_requirementRefs := gm_put q (c q - 1) (sch_requirementRefs s)\<rparr>"
    have "releaseRequirement q s = Some ?t"
      unfolding releaseRequirement_def rq using False pos by (simp add: Let_def)
    moreover have "activity (c(q := c q - 1)) ?t"
      using act False pos by (auto simp: activity_def)
    ultimately show ?thesis using pend by (simp add: frame_def)
  next
    case True
    let ?s = "s\<lparr>sch_requirementRefs := gm_del q (sch_requirementRefs s)\<rparr>"
    let ?t = "if q \<notin> ledger_set (sch_roots s) then ?s\<lparr>sch_orphaned := gs_insert q (sch_orphaned s)\<rparr> else ?s"
    have "releaseRequirement q s = Some ?t"
      unfolding releaseRequirement_def rq using True by (simp add: Let_def)
    moreover have "activity (c(q := c q - 1)) ?t"
      using act True by (auto simp: activity_def)
    moreover have "pending_ok ts ?t" "frame s ?t" "sch_requestRefs ?t = sch_requestRefs s"
      using pend by (simp_all add: frame_def)
    ultimately show ?thesis by blast
  qed
qed

subsection \<open>Requests\<close>

definition good :: "(type_ref \<Rightarrow> string) \<Rightarrow> scheduler \<Rightarrow> bool" where
  "good ts s \<longleftrightarrow> activity_ok s \<and> pending_ok ts s"

lemma demands_put:
  assumes "live t = insert r (live s)" "r \<notin> live s"
  shows "card (demands t q) = card (demands s q) + (if request_DeclarationRequirement r = Some q then 1 else 0)"
proof -
  have "demands t q = (if request_DeclarationRequirement r = Some q then insert r (demands s q) else demands s q)"
    using assms(1) by (auto simp: demands_def)
  moreover have "finite (demands s q)" "r \<notin> demands s q" using assms(2) by (simp_all add: demands_def)
  ultimately show ?thesis by simp
qed

lemma demands_same: "live t = live s \<Longrightarrow> demands t = demands s"
  by (simp add: demands_def fun_eq_iff)

lemma activity_requestRefs: "activity c (s\<lparr>sch_requestRefs := m\<rparr>) = activity c s"
  by (simp add: activity_def reqrefs_def)

lemma good_refs:
  assumes "good ts s" "live (s\<lparr>sch_requestRefs := m\<rparr>) = live s"
  shows "good ts (s\<lparr>sch_requestRefs := m\<rparr>)"
  using assms demands_same [OF assms(2)] pending_ok_frame [of "s\<lparr>sch_requestRefs := m\<rparr>" s ts]
  by (simp add: good_def activity_ok_activity activity_requestRefs)

lemma retain_facts:
  "declares r \<Longrightarrow> balanced E D X s \<Longrightarrow> r \<in># D \<Longrightarrow> good ts s \<Longrightarrow>
     \<exists>t. retainRequest r s = Some t \<and> balanced E (D - {#r#}) X t \<and> good ts t \<and> frame s t"
  "list_all declares rs \<Longrightarrow> balanced E D X s \<Longrightarrow> mset rs \<subseteq># D \<Longrightarrow> good ts s \<Longrightarrow>
     \<exists>t. retainRequests rs s = Some t \<and> balanced E (D - mset rs) X t \<and> good ts t \<and> frame s t"
proof (induction r s and rs s arbitrary: D and D rule: retainRequest_retainRequests.induct)
  case (1 s)
  then show ?case by simp
next
  case (2 a p s)
  let ?r = "PayloadRequest a p" and ?t = "s\<lparr>sch_requestRefs := gm_put (PayloadRequest a p) (refs s (PayloadRequest a p) + 1) (sch_requestRefs s)\<rparr>"
  have c: "counted s" by (rule balanced_counted [OF 2(2)])
  note put = counted_put [OF c 2(1), of "refs s ?r + 1"]
  show ?case
  proof (cases "refs s ?r = 0")
    case False
    then have live: "live ?t = live s" using put counted_live [OF c, of ?r] by (simp add: insert_absorb)
    have "retainRequest ?r s = Some ?t" using False by (simp add: refs_def Let_def)
    moreover have "balanced E (D - {#?r#}) X ?t" using balanced_bump [OF 2(2,3)] False by simp
    moreover have "good ts ?t" by (rule good_refs [OF 2(4) live])
    ultimately show ?thesis by simp
  next
    case True
    obtain q where q: "request_DeclarationRequirement ?r = Some q" using 2(1) by auto
    have r: "?r \<notin> live s" using live_refs [OF c, of ?r] True by simp
    have t1: "?t = s\<lparr>sch_requestRefs := gm_put ?r 1 (sch_requestRefs s)\<rparr>" using True by simp
    have ret: "retainRequest ?r s = Some (retainRequirement q ?t)" using True q by (simp add: refs_def Let_def)
    have act: "activity (\<lambda>q. card (demands s q)) ?t" and pend: "pending_ok ts ?t"
      using 2(4) pending_ok_frame [of ?t s ts] by (simp_all add: good_def activity_ok_activity activity_requestRefs)
    note rf = retainRequirement_facts [OF act pend, of q]
    have live: "live (retainRequirement q ?t) = insert ?r (live s)" using rf(4) put(2) by (simp add: live_def)
    have dem: "(\<lambda>q. card (demands s q))(q := card (demands s q) + 1) = (\<lambda>p. card (demands (retainRequirement q ?t) p))"
      using demands_put [OF live r] q by (auto simp: fun_eq_iff)
    have "good ts (retainRequirement q ?t)"
      using rf(1,2) unfolding good_def activity_ok_activity dem [symmetric] by simp
    moreover have "balanced E (D - {#?r#}) X (retainRequirement q ?t)"
      using balanced_start [OF 2(2,3) True 2(1)] balanced_frame [OF rf(4)] t1 by simp
    moreover have "frame s (retainRequirement q ?t)" by (rule frame_trans [OF frame_refs rf(3)])
    ultimately show ?thesis using ret by blast
  qed
next
  case (3 a k cs s)
  let ?r = "SequenceRequest a k cs" and ?t = "s\<lparr>sch_requestRefs := gm_put (SequenceRequest a k cs) (refs s (SequenceRequest a k cs) + 1) (sch_requestRefs s)\<rparr>"
  have c: "counted s" by (rule balanced_counted [OF 3(3)])
  note put = counted_put [OF c 3(2), of "refs s ?r + 1"]
  show ?case
  proof (cases "refs s ?r = 0")
    case False
    then have live: "live ?t = live s" using put counted_live [OF c, of ?r] by (simp add: insert_absorb)
    have "retainRequest ?r s = Some ?t" using False by (simp add: refs_def Let_def)
    moreover have "balanced E (D - {#?r#}) X ?t" using balanced_bump [OF 3(3,4)] False by simp
    moreover have "good ts ?t" by (rule good_refs [OF 3(5) live])
    ultimately show ?thesis by simp
  next
    case True
    have r: "?r \<notin> live s" using live_refs [OF c, of ?r] True by simp
    have ret: "retainRequest ?r s = retainRequests cs ?t" using True by (simp add: refs_def Let_def)
    have live: "live ?t = insert ?r (live s)" using put by simp
    have dem: "(\<lambda>p. card (demands ?t p)) = (\<lambda>p. card (demands s p))"
      using demands_put [OF live r] by (simp add: fun_eq_iff)
    have g: "good ts ?t"
      using 3(5) pending_ok_frame [of ?t s ts]
      unfolding good_def activity_ok_activity dem by (simp add: activity_requestRefs)
    have b: "balanced E (D - {#?r#} + mset cs) X ?t" using balanced_start [OF 3(3,4) True 3(2)] True by simp
    have "\<exists>t. retainRequests cs ?t = Some t \<and> balanced E (D - {#?r#} + mset cs - mset cs) X t \<and> good ts t \<and> frame ?t t"
      using 3(1) [OF refl refl refl, of "D - {#?r#} + mset cs"] True 3(2) b g by (simp add: refs_def)
    then show ?thesis using ret frame_trans [OF frame_refs] by auto
  qed
next
  case (4 s)
  then show ?case by simp
next
  case (5 r rs s)
  have rD: "r \<in># D" using 5(5) by (auto simp: insert_subset_eq_iff)
  obtain t where t: "retainRequest r s = Some t" "balanced E (D - {#r#}) X t" "good ts t" "frame s t"
    using 5(1) [OF _ 5(4) rD 5(6)] 5(3) by auto
  have "mset rs \<subseteq># D - {#r#}" using 5(5) by (simp add: insert_subset_eq_iff)
  then obtain u where "retainRequests rs t = Some u" "balanced E (D - {#r#} - mset rs) X u" "good ts u" "frame t u"
    using 5(2) [OF t(1) _ t(2) _ t(3)] 5(3) by auto
  with t frame_trans [OF t(4)] show ?case by auto
qed

lemma demands_del:
  assumes "live t = live s - {r}" "r \<in> live s"
  shows "card (demands s q) = card (demands t q) + (if request_DeclarationRequirement r = Some q then 1 else 0)"
proof -
  have "live s = insert r (live t)" "r \<notin> live t" using assms by auto
  from demands_put [OF this] show ?thesis .
qed

lemma release_facts:
  "declares r \<Longrightarrow> balanced E {#} X s \<Longrightarrow> r \<in># X \<Longrightarrow> good ts s \<Longrightarrow>
     \<exists>t. releaseRequest r s = Some t \<and> balanced E {#} (X - {#r#}) t \<and> good ts t \<and> frame s t"
  "list_all declares rs \<Longrightarrow> balanced E {#} X s \<Longrightarrow> mset rs \<subseteq># X \<Longrightarrow> good ts s \<Longrightarrow>
     \<exists>t. releaseRequests rs s = Some t \<and> balanced E {#} (X - mset rs) t \<and> good ts t \<and> frame s t"
proof (induction r s and rs s arbitrary: X and X rule: releaseRequest_releaseRequests.induct)
  case (1 s)
  then show ?case by simp
next
  case (2 a p s)
  let ?r = "PayloadRequest a p"
  have c: "counted s" by (rule balanced_counted [OF 2(2)])
  have pos: "0 < refs s ?r" by (rule balanced_refs [OF 2(2,3)])
  show ?case
  proof (cases "refs s ?r = 1")
    case False
    let ?t = "s\<lparr>sch_requestRefs := gm_put ?r (refs s ?r - 1) (sch_requestRefs s)\<rparr>"
    have "live ?t = live s"
      using counted_put(2) [OF c 2(1), of "refs s ?r - 1"] counted_live [OF c pos] pos False by (simp add: insert_absorb)
    then have "good ts ?t" by (rule good_refs [OF 2(4)])
    moreover have "releaseRequest ?r s = Some ?t" using False pos by (simp add: refs_def Let_def)
    moreover have "balanced E {#} (X - {#?r#}) ?t" using balanced_drop [OF 2(2,3)] False pos by simp
    ultimately show ?thesis by simp
  next
    case True
    let ?t = "s\<lparr>sch_requestRefs := gm_del ?r (sch_requestRefs s)\<rparr>"
    obtain q where q: "request_DeclarationRequirement ?r = Some q" using 2(1) by auto
    have r: "?r \<in> live s" using live_refs [OF c, of ?r] pos by simp
    have live: "live ?t = live s - {?r}" by (rule counted_del(2) [OF c])
    have rel: "releaseRequest ?r s = releaseRequirement q ?t" using True q by (simp add: refs_def Let_def)
    have act: "activity (\<lambda>q. card (demands s q)) ?t" and pend: "pending_ok ts ?t"
      using 2(4) by (simp_all add: good_def activity_ok_activity activity_requestRefs)
    have "0 < card (demands s q)" using demands_del [OF live r, of q] q by simp
    from releaseRequirement_facts [OF act pend this] obtain t where t: "releaseRequirement q ?t = Some t"
      "activity ((\<lambda>q. card (demands s q))(q := card (demands s q) - 1)) t" "pending_ok ts t" "frame ?t t"
      "sch_requestRefs t = sch_requestRefs ?t" by blast
    have "live t = live s - {?r}" using t(5) live by (simp add: live_def)
    then have dem: "(\<lambda>q. card (demands s q))(q := card (demands s q) - 1) = (\<lambda>p. card (demands t p))"
      using demands_del [OF _ r, of t] q by (auto simp: fun_eq_iff)
    have "good ts t" using t(2,3) unfolding good_def activity_ok_activity dem by simp
    moreover have "balanced E {#} (X - {#?r#}) t"
      using balanced_stop [OF 2(2,3) True] balanced_frame [OF t(5)] by simp
    moreover have "frame s t" by (rule frame_trans [OF frame_refs t(4)])
    ultimately show ?thesis using rel t(1) by simp
  qed
next
  case (3 a k cs s)
  let ?r = "SequenceRequest a k cs"
  have c: "counted s" by (rule balanced_counted [OF 3(3)])
  have pos: "0 < refs s ?r" by (rule balanced_refs [OF 3(3,4)])
  show ?case
  proof (cases "refs s ?r = 1")
    case False
    let ?t = "s\<lparr>sch_requestRefs := gm_put ?r (refs s ?r - 1) (sch_requestRefs s)\<rparr>"
    have "live ?t = live s"
      using counted_put(2) [OF c 3(2), of "refs s ?r - 1"] counted_live [OF c pos] pos False by (simp add: insert_absorb)
    then have "good ts ?t" by (rule good_refs [OF 3(5)])
    moreover have "releaseRequest ?r s = Some ?t" using False pos by (simp add: refs_def Let_def)
    moreover have "balanced E {#} (X - {#?r#}) ?t" using balanced_drop [OF 3(3,4)] False pos by simp
    ultimately show ?thesis by simp
  next
    case True
    let ?t = "s\<lparr>sch_requestRefs := gm_del ?r (sch_requestRefs s)\<rparr>"
    have r: "?r \<in> live s" using live_refs [OF c, of ?r] pos by simp
    have live: "live ?t = live s - {?r}" by (rule counted_del(2) [OF c])
    have rel: "releaseRequest ?r s = releaseRequests cs ?t" using True by (simp add: refs_def Let_def)
    have dem: "(\<lambda>p. card (demands ?t p)) = (\<lambda>p. card (demands s p))"
      using demands_del [OF live r] by (simp add: fun_eq_iff)
    have g: "good ts ?t"
      using 3(5) unfolding good_def activity_ok_activity dem by (simp add: activity_requestRefs)
    have b: "balanced E {#} (X - {#?r#} + mset cs) ?t" using balanced_stop [OF 3(3,4) True] by simp
    have "\<exists>t. releaseRequests cs ?t = Some t \<and> balanced E {#} (X - {#?r#} + mset cs - mset cs) t \<and> good ts t \<and> frame ?t t"
      using 3(1) [OF refl refl _ _, of "X - {#?r#} + mset cs"] True 3(2) b g by (simp add: refs_def)
    then show ?thesis using rel frame_trans [OF frame_refs] by auto
  qed
next
  case (4 s)
  then show ?case by simp
next
  case (5 r rs s)
  have rX: "r \<in># X" using 5(5) by (auto simp: insert_subset_eq_iff)
  obtain t where t: "releaseRequest r s = Some t" "balanced E {#} (X - {#r#}) t" "good ts t" "frame s t"
    using 5(1) [OF _ 5(4) rX 5(6)] 5(3) by auto
  have "mset rs \<subseteq># X - {#r#}" using 5(5) by (simp add: insert_subset_eq_iff)
  then obtain u where "releaseRequests rs t = Some u" "balanced E {#} (X - {#r#} - mset rs) u" "good ts u" "frame t u"
    using 5(2) [OF t(1) _ t(2) _ t(3)] 5(3) by auto
  with t frame_trans [OF t(4)] show ?case by auto
qed

subsection \<open>The invariant of the scheduler\<close>

definition held :: "scheduler \<Rightarrow> root_request multiset" where
  "held s = (\<Sum>c \<in> fst ` set (sch_byConsumer s). mset (consumed s c))"

definition consumers_ok :: "scheduler \<Rightarrow> bool" where
  "consumers_ok s \<longleftrightarrow> gm_wf (sch_byConsumer s) \<and>
     (\<forall>c. distinct (consumed s c) \<and> list_all declares (consumed s c))"

definition sched_inv :: "(type_ref \<Rightarrow> string) \<Rightarrow> scheduler \<Rightarrow> bool" where
  "sched_inv ts s \<longleftrightarrow> good ts s \<and> balanced (held s) {#} {#} s \<and> consumers_ok s"

lemma sched_inv_new [simp]: "sched_inv ts (scheduler_New (CompareArtifactOwners ts) cmp)"
  using pq.inv_empty [of ts]
  by (simp add: sched_inv_def good_def activity_ok_def pending_ok_def scheduler_New_def balanced_def counted_def
      live_def refs_def held_def consumers_ok_def consumed_def reqrefs_def demands_def oq_new_def)

lemma held_change:
  assumes "\<And>k. consumed t k = (if k = c then new else consumed s k)"
    and keys: "fst ` set (sch_byConsumer t) \<union> {c} = fst ` set (sch_byConsumer s) \<union> {c}"
  shows "held t + mset (consumed s c) = held s + mset new"
proof -
  have total: "held u = (\<Sum>k \<in> fst ` set (sch_byConsumer u) \<union> {c}. mset (consumed u k))" for u
  proof -
    have "consumed u c = []" if "c \<notin> fst ` set (sch_byConsumer u)"
      using that gm_get_none [of "sch_byConsumer u" c] by (simp add: consumed_def value_or_def)
    then show ?thesis unfolding held_def by (intro sum.mono_neutral_left) auto
  qed
  let ?K = "fst ` set (sch_byConsumer s) \<union> {c}"
  have split: "(\<Sum>k \<in> ?K. f k) = f c + (\<Sum>k \<in> ?K - {c}. f k)" for f :: "artifact_owner \<Rightarrow> root_request multiset"
    by (rule sum.remove) auto
  have "held t = mset new + (\<Sum>k \<in> ?K - {c}. mset (consumed s k))"
    unfolding total [of t] keys split using assms(1) by simp
  moreover have "held s = mset (consumed s c) + (\<Sum>k \<in> ?K - {c}. mset (consumed s k))"
    unfolding total [of s] split by simp
  ultimately show ?thesis by simp
qed

text \<open>\<open>canonicalRoots\<close> of requests that select well.\<close>

definition roots_ok :: "root_request list \<Rightarrow> bool" where
  "roots_ok rs \<longleftrightarrow> list_all declares rs \<and> distinct rs"

lemma fold_first_occurrences:
  "distinct (fold (\<lambda>r rs. if r \<in> set rs then rs else r # rs) xs acc) = distinct acc \<and>
   set (fold (\<lambda>r rs. if r \<in> set rs then rs else r # rs) xs acc) = set acc \<union> set xs"
  by (induction xs arbitrary: acc) auto

lemma declares_leaves:
  "request_ok r \<Longrightarrow> (\<forall>l \<in> set (leaves r). request_Kind l = 2) \<Longrightarrow> declares r"
proof (induction r)
  case (PayloadRequest a p)
  then show ?case by (cases p) (auto simp: request_kind_defs)
next
  case (SequenceRequest a k cs)
  then show ?case by (auto simp: list_all_iff)
qed simp

lemma bit_declaration_mask: "bit declarationRequestKindMask n \<longleftrightarrow> n = 2"
  unfolding declarationRequestKindMask_def push_bit_of_1 bit_exp_iff RootRequestDeclarationRequirement_def
  by auto

lemma canonicalRoots_ok:
  assumes "list_all request_ok rs" "list_all (coherent h) rs"
  shows "\<exists>selected n. canonicalRoots rs next' = (Inr selected, n) \<and> roots_ok selected \<and>
    set (concat (map leaves selected)) = {l \<in> set (concat (map leaves rs)). request_Kind l = 2}"
proof -
  obtain qs st where q: "selectRoots declarationRequestKindMask rs \<lparr>sel_memo = [], sel_next = next', sel_work = 0\<rparr> = (Inr qs, st)"
      "concat (map leaves qs) = filter (selected_kind declarationRequestKindMask) (concat (map leaves rs))"
      "list_all request_ok qs"
    using selectRoots_filters [OF assms, of declarationRequestKindMask "\<lparr>sel_memo = [], sel_next = next', sel_work = 0\<rparr>"]
    by (auto simp: memo_ok_def)
  let ?sel = "rev (fold (\<lambda>r rs. if r \<in> set rs then rs else r # rs) qs [])"
  have sel: "set ?sel = set qs" "distinct ?sel" using fold_first_occurrences [of qs "[]"] by auto
  have kind: "selected_kind declarationRequestKindMask l \<longleftrightarrow> request_Kind l = 2"
    if l: "l \<in> set (concat (map leaves rs))" for l
  proof -
    obtain r where "r \<in> set rs" "l \<in> set (leaves r)" using l by auto
    moreover have "request_ok r" using \<open>r \<in> set rs\<close> assms(1) by (simp add: list_all_iff)
    ultimately show ?thesis
      using selected_kind_leaf [of r l declarationRequestKindMask]
      by (simp add: bit_declaration_mask)
  qed
  have lv: "set (concat (map leaves qs)) = {l \<in> set (concat (map leaves rs)). request_Kind l = 2}"
    unfolding q(2) using kind by auto
  have "declares r" if "r \<in> set qs" for r
    using declares_leaves [of r] that q(3) lv by (auto simp: list_all_iff)
  then have "roots_ok ?sel" using sel by (simp add: roots_ok_def list_all_iff)
  moreover have "canonicalRoots rs next' = (Inr ?sel, sel_next st)"
    by (simp add: canonicalRoots_def SelectDeclarationRequests_def selectRootRequests_def q(1))
  moreover have "set (concat (map leaves ?sel)) = {l \<in> set (concat (map leaves rs)). request_Kind l = 2}"
    using lv sel(1) by simp
  ultimately show ?thesis by blast
qed

lemma mset_swap:
  assumes "distinct xs" "distinct ys"
  shows "mset ys + mset (filter (\<lambda>r. r \<notin> set ys) xs) = mset xs + mset (filter (\<lambda>r. r \<notin> set xs) ys)"
  using assms by (intro multiset_eqI) (auto simp: distinct_count_atmost_1)

lemma mset_balance:
  fixes h :: "'a multiset"
  assumes "h + c = s + d" "d + x = c + n"
  shows "h = s + n - x"
proof -
  have "h + x + c = s + (d + x)" using assms(1) by (metis add.assoc add.commute)
  also have "\<dots> = s + n + c" unfolding assms(2) by (simp add: ac_simps)
  finally have "h + x = s + n" by simp
  then show ?thesis by (metis add_diff_cancel_right')
qed

lemma good_consumer: "good ts (s\<lparr>sch_byConsumer := m\<rparr>) = good ts s"
proof -
  have "demands (s\<lparr>sch_byConsumer := m\<rparr>) = demands s" by (rule demands_same) (simp add: live_def)
  then show ?thesis by (simp add: good_def activity_ok_def)
qed

lemma scheduler_Replace_inv:
  assumes inv: "sched_inv ts s" and can: "canonicalRoots rs n = (Inr selected, n')" and ok: "roots_ok selected"
  shows "\<exists>t. scheduler_Replace c rs n s = Some (None, t, n') \<and> sched_inv ts t \<and>
    (\<forall>k. consumed t k = (if k = c then selected else consumed s k)) \<and> sch_roots t = sch_roots s"
proof -
  let ?cur = "consumed s c"
  let ?N = "filter (\<lambda>r. r \<notin> set ?cur) selected" and ?X = "filter (\<lambda>r. r \<notin> set selected) ?cur"
  have cons: "consumers_ok s" and g: "good ts s" and b: "balanced (held s) {#} {#} s"
    using inv by (simp_all add: sched_inv_def)
  have dcur: "distinct ?cur" "list_all declares ?cur" using cons by (simp_all add: consumers_ok_def)
  have "balanced (held s + mset ?N) (mset ?N) {#} s" using b by (simp add: balanced_at)
  moreover have "list_all declares ?N" using ok by (auto simp: roots_ok_def list_all_iff)
  ultimately obtain t where t: "retainRequests ?N s = Some t" "balanced (held s + mset ?N) {#} {#} t" "good ts t" "frame s t"
    using retain_facts(2) [of ?N "held s + mset ?N" "mset ?N" "{#}" s ts] g by auto
  have "mset ?X \<subseteq># held s"
  proof -
    have "c \<in> fst ` set (sch_byConsumer s)" if "?cur \<noteq> []"
      using that gm_get_none [of "sch_byConsumer s" c] by (auto simp: consumed_def value_or_def)
    then have "mset ?cur \<subseteq># held s"
      by (cases "?cur = []") (auto simp: held_def sum.remove)
    then show ?thesis using multiset_filter_subset subset_mset.order_trans by (metis mset_filter)
  qed
  then have sub: "mset ?X \<subseteq># held s + mset ?N"
    by (rule subset_mset.order_trans [OF _ mset_subset_eq_add_left])
  have "count (held s + mset ?N) r = count (held s + mset ?N - mset ?X) r + count (mset ?X) r" for r
    using mset_subset_eq_count [OF sub, of r] unfolding count_diff by linarith
  then have "balanced (held s + mset ?N - mset ?X) {#} (mset ?X) t"
    using t(2) unfolding balanced_at by simp
  moreover have "list_all declares ?X" using dcur(2) by (auto simp: list_all_iff)
  ultimately obtain u where u: "releaseRequests ?X t = Some u" "balanced (held s + mset ?N - mset ?X) {#} {#} u"
      "good ts u" "frame t u"
    using release_facts(2) [of ?X "held s + mset ?N - mset ?X" "mset ?X" t ts] t(3) by auto
  let ?v = "if length selected = 0 then u\<lparr>sch_byConsumer := gm_del c (sch_byConsumer u)\<rparr>
    else u\<lparr>sch_byConsumer := gm_put c selected (sch_byConsumer u)\<rparr>"
  have fr: "frame s u" by (rule frame_trans [OF t(4) u(4)])
  have rep: "scheduler_Replace c rs n s = Some (None, ?v, n')"
    by (simp add: scheduler_Replace_def can t(1) u(1) Let_def)
  have cv: "consumed ?v k = (if k = c then selected else consumed s k)" for k
    using fr by (simp add: consumed_def frame_def)
  have "held ?v + mset ?cur = held s + mset selected"
    by (rule held_change [OF cv]) (use fr in \<open>auto simp: frame_def\<close>)
  moreover have "mset selected + mset ?X = mset ?cur + mset ?N"
    by (rule mset_swap) (use ok dcur(1) in \<open>simp_all add: roots_ok_def\<close>)
  ultimately have "held ?v = held s + mset ?N - mset ?X" by (rule mset_balance)
  then have bv: "balanced (held ?v) {#} {#} ?v" using u(2) balanced_frame [of ?v u] by simp
  have "good ts ?v" using u(3) by (simp add: good_consumer)
  moreover have "consumers_ok ?v"
    unfolding consumers_ok_def cv using cons fr ok by (auto simp: consumers_ok_def frame_def roots_ok_def)
  moreover have "sch_roots ?v = sch_roots s" using fr by (simp add: frame_def)
  ultimately show ?thesis using rep bv cv unfolding sched_inv_def by blast
qed

end
