(* ===== verification/SchedulerOps.thy ===== *)
theory SchedulerOps
  imports SchedulerInvariant
begin

text \<open>
  Every operation of the requirement scheduler preserves its invariant; what the operations do to the
  sets of active, applied and root requirements; and the meaning of the reference counts: a
  requirement is counted exactly if some consumer's requests demand it.
\<close>

subsection \<open>Demanded requirements\<close>

definition demanded :: "scheduler \<Rightarrow> declaration_requirement \<Rightarrow> bool" where
  "demanded s q \<longleftrightarrow> (\<exists>c. \<exists>r \<in> set (consumed s c). \<exists>l \<in> set (leaves r). request_DeclarationRequirement l = Some q)"

lemma held_consumed:
  assumes "consumers_ok s"
  shows "r \<in># held s \<longleftrightarrow> (\<exists>c. r \<in> set (consumed s c))"
proof -
  have "consumed s c = []" if "c \<notin> fst ` set (sch_byConsumer s)" for c
    using that gm_get_none [of "sch_byConsumer s" c] by (auto simp: consumed_def value_or_def)
  then show ?thesis by (fastforce simp: held_def set_mset_sum)
qed

lemma childs_size: "r \<in> set (childs p) \<Longrightarrow> size r < size p"
  by (cases p) (auto simp: less_Suc_eq_le intro!: trans_le_add1 trans_le_add2 elim: size_list_estimation')

lemma edges_pos: "0 < edges_to s r \<longleftrightarrow> (\<exists>p \<in> live s. r \<in> set (childs p))"
proof -
  have "edges_to s r = 0 \<longleftrightarrow> (\<forall>p \<in> live s. r \<notin> set (childs p))"
    by (simp add: edges_to_def count_eq_zero_iff)
  then show ?thesis by auto
qed

lemma leaves_child: "r \<in> set (childs p) \<Longrightarrow> set (leaves r) \<subseteq> set (leaves p)"
  by (cases p) auto

lemma live_iff:
  assumes "balanced E {#} {#} s"
  shows "r \<in> live s \<longleftrightarrow> r \<in># E \<or> (\<exists>p \<in> live s. r \<in> set (childs p))"
proof -
  have "refs s r = count E r + edges_to s r" using assms by (simp add: balanced_at)
  then show ?thesis using live_refs [OF balanced_counted [OF assms], of r] edges_pos [of s r]
    by (auto simp: count_greater_zero_iff)
qed

lemma live_leaves:
  assumes "balanced E {#} {#} s"
  shows "r \<in> live s \<Longrightarrow> set (leaves r) \<subseteq> live s"
proof (induction r)
  case (SequenceRequest a k cs)
  have "c \<in> live s" if "c \<in> set cs" for c
    using live_iff [OF assms, of c] SequenceRequest.prems that by force
  then show ?case using SequenceRequest.IH by fastforce
qed auto

lemma live_below:
  assumes "balanced E {#} {#} s"
  shows "r \<in> live s \<Longrightarrow> \<exists>e. e \<in># E \<and> set (leaves r) \<subseteq> set (leaves e)"
proof (induction r rule: measure_induct_rule [where f = "\<lambda>r. card {p \<in> live s. size r < size p}"])
  case (less r)
  show ?case
  proof (cases "r \<in># E")
    case False
    then obtain p where p: "p \<in> live s" "r \<in> set (childs p)" using live_iff [OF assms] less.prems by blast
    have "{x \<in> live s. size p < size x} \<subset> {x \<in> live s. size r < size x}"
      using childs_size [OF p(2)] p(1) by (auto intro: less_trans)
    then have "card {x \<in> live s. size p < size x} < card {x \<in> live s. size r < size x}"
      by (intro psubset_card_mono) simp_all
    from less.IH [OF this p(1)] show ?thesis using leaves_child [OF p(2)] by blast
  qed auto
qed

lemma demands_leaf: "r \<in> demands s q \<Longrightarrow> leaves r = [r]"
  by (cases r) (auto simp: demands_def)

theorem reqrefs_demanded:
  assumes "sched_inv ts s"
  shows "0 < reqrefs s q \<longleftrightarrow> demanded s q"
proof -
  have b: "balanced (held s) {#} {#} s" and c: "consumers_ok s" and a: "reqrefs s q = card (demands s q)"
    using assms by (simp_all add: sched_inv_def good_def activity_ok_def)
  have "0 < reqrefs s q \<longleftrightarrow> demands s q \<noteq> {}" by (simp add: a card_gt_0_iff demands_def)
  also have "\<dots> \<longleftrightarrow> demanded s q"
  proof
    assume "demands s q \<noteq> {}"
    then obtain r where r: "r \<in> demands s q" by blast
    then have l: "r \<in> live s" "request_DeclarationRequirement r = Some q" "leaves r = [r]"
      using demands_leaf by (auto simp: demands_def)
    from live_below [OF b l(1)] obtain e where "e \<in># held s" "r \<in> set (leaves e)" using l(3) by auto
    then show "demanded s q" using l(2) held_consumed [OF c] by (auto simp: demanded_def)
  next
    assume "demanded s q"
    then obtain k r l where d: "r \<in> set (consumed s k)" "l \<in> set (leaves r)"
      "request_DeclarationRequirement l = Some q" by (auto simp: demanded_def)
    then have "r \<in> live s" using live_iff [OF b] held_consumed [OF c] by blast
    from live_leaves [OF b this] show "demands s q \<noteq> {}" using d by (auto simp: demands_def)
  qed
  finally show ?thesis .
qed

subsection \<open>The remaining operations\<close>

lemma sched_inv_frame:
  assumes "sched_inv ts s" "sch_byConsumer t = sch_byConsumer s" "sch_requestRefs t = sch_requestRefs s"
    "activity (\<lambda>q. card (demands s q)) t" "pending_ok ts t"
  shows "sched_inv ts t"
proof -
  have c: "consumed t = consumed s" using assms(2) by (simp add: consumed_def fun_eq_iff)
  then have "held t = held s" by (simp add: held_def assms(2))
  moreover have "demands t = demands s" by (rule demands_same) (simp add: live_def assms(3))
  ultimately show ?thesis
    using assms balanced_frame [OF assms(3), of "held s" "{#}" "{#}"] c
    by (simp add: sched_inv_def good_def activity_ok_activity consumers_ok_def)
qed

lemma sched_inv_parts:
  assumes "sched_inv ts s"
  shows "activity (\<lambda>q. card (demands s q)) s" "pending_ok ts s" "queue_ok ts s" "settled s"
    "set (sch_removed s) \<subseteq> set (sch_pending s)"
  using assms by (simp_all add: sched_inv_def good_def activity_ok_activity pending_ok_parts)

lemma demanded_frame: "sch_byConsumer t = sch_byConsumer s \<Longrightarrow> demanded t = demanded s"
  by (simp add: demanded_def consumed_def fun_eq_iff)

lemma activity_active:
  assumes "sched_inv ts s"
  shows "q \<in> ledger_set (sch_active s) \<longleftrightarrow>
    q \<in> ledger_set (sch_roots s) \<or> demanded s q \<or> q \<in> set (sch_orphaned s)"
  using sched_inv_parts(1) [OF assms] reqrefs_demanded [OF assms, of q] by (auto simp: activity_def)

lemma scheduler_Enqueue_inv:
  assumes inv: "sched_inv ts s"
  shows "sched_inv ts (scheduler_Enqueue q s)"
    "ledger_set (sch_roots (scheduler_Enqueue q s)) = insert q (ledger_set (sch_roots s))"
    "ledger_set (sch_active (scheduler_Enqueue q s)) = insert q (ledger_set (sch_active s))"
    "sch_byConsumer (scheduler_Enqueue q s) = sch_byConsumer s"
    "sch_applied (scheduler_Enqueue q s) = sch_applied s"
proof -
  let ?s = "s\<lparr>sch_roots := ledger_add q (sch_roots s)\<rparr>"
  have cases: "scheduler_Enqueue q s = (if q \<in> ledger_set (sch_roots s) then s
      else if q \<notin> ledger_set (sch_active s) then activate q ?s else ?s)"
    by (simp add: scheduler_Enqueue_def Let_def)
  note parts = sched_inv_parts [OF inv]
  have sub: "q \<in> ledger_set (sch_roots s) \<Longrightarrow> q \<in> ledger_set (sch_active s)"
    using activity_active [OF inv, of q] by simp
  show "ledger_set (sch_roots (scheduler_Enqueue q s)) = insert q (ledger_set (sch_roots s))"
    "ledger_set (sch_active (scheduler_Enqueue q s)) = insert q (ledger_set (sch_active s))"
    "sch_byConsumer (scheduler_Enqueue q s) = sch_byConsumer s"
    "sch_applied (scheduler_Enqueue q s) = sch_applied s"
    using sub by (auto simp: cases)
  show "sched_inv ts (scheduler_Enqueue q s)"
  proof (rule sched_inv_frame [OF inv])
    show "sch_requestRefs (scheduler_Enqueue q s) = sch_requestRefs s"
      "sch_byConsumer (scheduler_Enqueue q s) = sch_byConsumer s" by (simp_all add: cases)
    show "pending_ok ts (scheduler_Enqueue q s)" using parts(2) by (simp add: cases pending_ok_activate)
    show "activity (\<lambda>q. card (demands s q)) (scheduler_Enqueue q s)"
      using parts(1) by (auto simp: cases activity_def)
  qed
qed

lemma activity_frame:
  assumes "activity c s" "sch_requirementRefs t = sch_requirementRefs s" "sch_active t = sch_active s"
    "sch_roots t = sch_roots s" "sch_orphaned t = sch_orphaned s"
    "ledger_wf (sch_applied t)" "ledger_wf (sch_certified t)"
  shows "activity c t"
proof -
  have eq: "reqrefs t = reqrefs s" by (simp add: reqrefs_def assms(2) fun_eq_iff)
  show ?thesis using assms(1,6,7) unfolding activity_def assms(3-5) eq
    by - (elim conjE, intro conjI; assumption)
qed

lemma mset_gs_delete: "distinct xs \<Longrightarrow> x \<in> set xs \<Longrightarrow> mset (gs_delete x xs) = mset xs - {#x#}"
  by (intro multiset_eqI) (auto simp: gs_delete_def distinct_count_atmost_1)

lemma NextBatch_none:
  assumes "sched_inv ts s" "sch_pending s = []"
  shows "NextBatch s = (None, s)"
proof -
  have "mset (oq_owners (sch_pendingOwners s)) = {#}" using sched_inv_parts(3) [OF assms(1)] assms(2) by (simp add: queue_ok_def)
  then show ?thesis by (simp add: NextBatch_def oq_pop_def)
qed

lemma NextBatch_some:
  assumes inv: "sched_inv ts s" and ne: "sch_pending s \<noteq> []"
  shows "\<exists>owner requirements removed t. NextBatch s = (Some (owner, requirements, removed), t) \<and>
    sched_inv ts t \<and> owner \<in> set (sch_pending s) \<and>
    (\<forall>w \<in> set (sch_pending s). CompareArtifactOwners ts owner w \<le> 0) \<and>
    set (sch_pending t) = set (sch_pending s) - {owner} \<and>
    requirements = fst (ledger_forOwner owner (sch_compare s) (sch_active s)) \<and>
    removed = (owner \<in> set (sch_removed s)) \<and>
    ledger_set (sch_applied t) = {q \<in> ledger_set (sch_applied s). requirement_owner q \<noteq> owner} \<union> set requirements \<and>
    sch_active t = sch_active s \<and> sch_roots t = sch_roots s \<and> sch_byConsumer t = sch_byConsumer s \<and>
    sch_orphaned t = sch_orphaned s \<and> sch_certified t = sch_certified s"
proof -
  note parts = sched_inv_parts [OF inv]
  have oq: "oq_inv ts (sch_pendingOwners s)" "mset (oq_owners (sch_pendingOwners s)) = mset (sch_pending s)"
    "distinct (sch_pending s)" using parts(3) by (simp_all add: queue_ok_def)
  then have "mset (oq_owners (sch_pendingOwners s)) \<noteq> {#}" using ne by simp
  from pq.pop_min [OF oq(1) this] obtain w r where pop: "oq_pop (sch_pendingOwners s) = (Some w, r)" "oq_inv ts r"
      "mset (oq_owners (sch_pendingOwners s)) = add_mset w (mset (oq_owners r))"
      "\<forall>y \<in># mset (oq_owners (sch_pendingOwners s)). CompareArtifactOwners ts w y \<le> 0" by blast
  let ?q = "fst (ledger_forOwner w (sch_compare s) (sch_active s))"
  let ?t = "s\<lparr>sch_pendingOwners := r, sch_pending := gs_delete w (sch_pending s),
    sch_removed := gs_delete w (sch_removed s), sch_applied := ledger_replaceOwner w ?q (sch_applied s)\<rparr>"
  have nb: "NextBatch s = (Some (w, ?q, w \<in> set (sch_removed s)), ?t)" by (simp add: NextBatch_def pop(1) Let_def)
  have wf: "ledger_wf (sch_active s)" "ledger_wf (sch_applied s)" using parts(1) by (simp_all add: activity_def)
  note app = ledger_replaceOwner_facts [OF wf(2), of w ?q]
  have reqs: "set ?q = {q \<in> ledger_set (sch_active s). requirement_owner q = w}" by (rule ledger_forOwner_facts(1) [OF wf(1)])
  have mem: "set_mset (mset (oq_owners (sch_pendingOwners s))) = set (sch_pending s)" by (simp only: oq(2) set_mset_mset)
  then have w: "w \<in> set (sch_pending s)" using pop(3) by auto
  have "mset (oq_owners r) = mset (gs_delete w (sch_pending s))"
    using pop(3) oq(2) mset_gs_delete [OF oq(3) w] by (metis add_mset_remove_trivial)
  then have "queue_ok ts ?t" using pop(2) oq(3) by (simp add: queue_ok_def)
  moreover have "settled ?t" using parts(4) unfolding settled_def by (auto simp: app(2) reqs)
  ultimately have "pending_ok ts ?t" using parts(5) by (auto simp: pending_ok_parts)
  moreover have "activity (\<lambda>q. card (demands s q)) ?t"
    by (rule activity_frame [OF parts(1)]) (use parts(1) app(1) in \<open>simp_all add: activity_def\<close>)
  ultimately have "sched_inv ts ?t" by (intro sched_inv_frame [OF inv]) simp_all
  moreover have "\<forall>y \<in> set (sch_pending s). CompareArtifactOwners ts w y \<le> 0" using pop(4) unfolding mem .
  ultimately show ?thesis using nb app(2) w
    by (intro exI [of _ w] exI [of _ ?q] exI [of _ "w \<in> set (sch_removed s)"] exI [of _ ?t]) simp
qed

subsection \<open>Removals\<close>

definition dropped :: "scheduler \<Rightarrow> declaration_requirement \<Rightarrow> bool" where
  "dropped s q \<longleftrightarrow> q \<notin> ledger_set (sch_roots s) \<and> reqrefs s q = 0"

lemma removeOrphan_fold:
  "\<exists>left active ws'. fold removeOrphan qs (s, ws) = (s\<lparr>sch_orphaned := left, sch_active := active\<rparr>, ws') \<and>
     set left = set (sch_orphaned s) - set qs \<and>
     (ledger_wf (sch_active s) \<longrightarrow> ledger_wf active) \<and>
     ledger_set active = ledger_set (sch_active s) - {q \<in> set qs. dropped s q} \<and>
     set ws' = set ws \<union> requirement_owner ` {q \<in> set qs. dropped s q}"
proof (induction qs arbitrary: s ws)
  case Nil
  then show ?case by (intro exI [of _ "sch_orphaned s"] exI [of _ "sch_active s"] exI [of _ ws]) simp
next
  case (Cons q qs)
  let ?s = "s\<lparr>sch_orphaned := gs_delete q (sch_orphaned s)\<rparr>"
  let ?t = "if dropped s q then ?s\<lparr>sch_active := ledger_remove q (sch_active s)\<rparr> else ?s"
  let ?ws = "if dropped s q then gs_insert (requirement_owner q) ws else ws"
  have step: "removeOrphan q (s, ws) = (?t, ?ws)"
    by (simp add: removeOrphan_def Let_def dropped_def reqrefs_def)
  have d: "dropped ?t = dropped s" by (simp add: dropped_def reqrefs_def fun_eq_iff)
  obtain left active ws' where f: "fold removeOrphan qs (?t, ?ws) = (?t\<lparr>sch_orphaned := left, sch_active := active\<rparr>, ws')"
      "set left = set (sch_orphaned ?t) - set qs" "ledger_wf (sch_active ?t) \<longrightarrow> ledger_wf active"
      "ledger_set active = ledger_set (sch_active ?t) - {q \<in> set qs. dropped s q}"
      "set ws' = set ?ws \<union> requirement_owner ` {q \<in> set qs. dropped s q}"
    using Cons.IH [of ?t ?ws] unfolding d by blast
  have eq: "?t\<lparr>sch_orphaned := left, sch_active := active\<rparr> = s\<lparr>sch_orphaned := left, sch_active := active\<rparr>" by simp
  have "set left = set (sch_orphaned s) - set (q # qs)" using f(2) by auto
  moreover have "ledger_wf (sch_active s) \<longrightarrow> ledger_wf active" using f(3) by simp
  moreover have "ledger_set active = ledger_set (sch_active s) - {p \<in> set (q # qs). dropped s p}"
    using f(4) by auto
  moreover have "set ws' = set ws \<union> requirement_owner ` {p \<in> set (q # qs). dropped s p}"
    using f(5) by auto
  ultimately show ?case using f(1) eq by (auto simp: step)
qed

definition markRemoved :: "artifact_owner \<Rightarrow> scheduler \<Rightarrow> scheduler" where
  "markRemoved owner s = enqueueOwner owner (s\<lparr>sch_removed := gs_insert owner (sch_removed s)\<rparr>)"

lemma markRemoved_fold:
  "\<exists>queue pending removed. fold markRemoved ws s =
     s\<lparr>sch_pendingOwners := queue, sch_pending := pending, sch_removed := removed\<rparr> \<and>
     (queue_ok ts s \<longrightarrow> queue_ok ts (fold markRemoved ws s)) \<and>
     set pending = set (sch_pending s) \<union> set ws \<and> set removed = set (sch_removed s) \<union> set ws"
proof (induction ws arbitrary: s)
  case Nil
  then show ?case
    by (intro exI [of _ "sch_pendingOwners s"] exI [of _ "sch_pending s"] exI [of _ "sch_removed s"]) simp
next
  case (Cons w ws)
  let ?s = "s\<lparr>sch_removed := gs_insert w (sch_removed s)\<rparr>"
  have t: "markRemoved w s = s\<lparr>sch_pendingOwners := sch_pendingOwners (markRemoved w s),
      sch_pending := sch_pending (markRemoved w s), sch_removed := gs_insert w (sch_removed s)\<rparr>"
    by (simp add: markRemoved_def enqueueOwner_def)
  have p: "set (sch_pending (markRemoved w s)) = insert w (set (sch_pending s))" by (simp add: markRemoved_def)
  have "queue_ok ts ?s = queue_ok ts s" by (rule queue_ok_frame) simp_all
  then have "queue_ok ts s \<longrightarrow> queue_ok ts (markRemoved w s)" by (simp add: markRemoved_def queue_ok_enqueue)
  moreover obtain queue pending removed where f: "fold markRemoved ws (markRemoved w s) =
      (markRemoved w s)\<lparr>sch_pendingOwners := queue, sch_pending := pending, sch_removed := removed\<rparr>"
      "queue_ok ts (markRemoved w s) \<longrightarrow> queue_ok ts (fold markRemoved ws (markRemoved w s))"
      "set pending = set (sch_pending (markRemoved w s)) \<union> set ws"
      "set removed = set (sch_removed (markRemoved w s)) \<union> set ws"
    using Cons.IH [of "markRemoved w s"] by blast
  moreover have "(markRemoved w s)\<lparr>sch_pendingOwners := queue, sch_pending := pending, sch_removed := removed\<rparr> =
      s\<lparr>sch_pendingOwners := queue, sch_pending := pending, sch_removed := removed\<rparr>"
    by (subst t) simp
  moreover have "set (sch_removed (markRemoved w s)) = insert w (set (sch_removed s))" by (subst t) simp
  ultimately show ?case
    by (intro exI [of _ queue] exI [of _ pending] exI [of _ removed]) (simp add: p)
qed

lemma FinalizeRemovals_markRemoved:
  "FinalizeRemovals s =
     (if sch_pending s \<noteq> [] then None
      else if sch_orphaned s = [] then Some (False, s)
      else let (t, owners) = fold removeOrphan (sch_orphaned s) (s, []) in Some (owners \<noteq> [], fold markRemoved owners t))"
  by (simp add: FinalizeRemovals_def markRemoved_def [abs_def] split_beta)

lemma settled_active:
  assumes "sched_inv ts s" "sch_pending s = []"
  shows "ledger_set (sch_applied s) = ledger_set (sch_active s)"
  using sched_inv_parts(4) [OF assms(1)] assms(2) by (auto simp: settled_def)

lemma orphan_dropped:
  assumes "sched_inv ts s" "q \<in> set (sch_orphaned s)"
  shows "dropped s q \<longleftrightarrow> q \<notin> ledger_set (sch_roots s)" "\<not> demanded s q" "q \<in> ledger_set (sch_active s)"
proof -
  have "reqrefs s q = 0" using sched_inv_parts(1) [OF assms(1)] assms(2) unfolding activity_def by blast
  then show "dropped s q \<longleftrightarrow> q \<notin> ledger_set (sch_roots s)" "\<not> demanded s q"
    using reqrefs_demanded [OF assms(1), of q] by (simp_all add: dropped_def)
  show "q \<in> ledger_set (sch_active s)" using activity_active [OF assms(1)] assms(2) by blast
qed

lemma FinalizeRemovals_inv:
  assumes inv: "sched_inv ts s" and none: "sch_pending s = []"
  shows "\<exists>again t. FinalizeRemovals s = Some (again, t) \<and> sched_inv ts t \<and> sch_orphaned t = [] \<and>
    ledger_set (sch_active t) = ledger_set (sch_roots s) \<union> {q. demanded s q} \<and>
    set (sch_pending t) = requirement_owner ` (ledger_set (sch_applied s) - ledger_set (sch_active t)) \<and>
    set (sch_removed t) = set (sch_pending t) \<and> again = (sch_pending t \<noteq> []) \<and>
    sch_applied t = sch_applied s \<and> sch_roots t = sch_roots s \<and> sch_byConsumer t = sch_byConsumer s"
proof -
  note parts = sched_inv_parts [OF inv]
  note app = settled_active [OF inv none]
  have r0: "sch_removed s = []" using parts(5) none by simp
  have act: "ledger_set (sch_active s) - {q \<in> set (sch_orphaned s). dropped s q} =
      ledger_set (sch_roots s) \<union> {q. demanded s q}"
    using activity_active [OF inv] orphan_dropped [OF inv] by auto
  show ?thesis
  proof (cases "sch_orphaned s = []")
    case True
    then show ?thesis using inv none r0 act app
      by (intro exI [of _ False] exI [of _ s]) (simp add: FinalizeRemovals_def)
  next
    case False
    obtain left active ws where f: "fold removeOrphan (sch_orphaned s) (s, []) = (s\<lparr>sch_orphaned := left, sch_active := active\<rparr>, ws)"
      "set left = set (sch_orphaned s) - set (sch_orphaned s)" "ledger_wf (sch_active s) \<longrightarrow> ledger_wf active"
      "ledger_set active = ledger_set (sch_active s) - {q \<in> set (sch_orphaned s). dropped s q}"
      "set ws = set [] \<union> requirement_owner ` {q \<in> set (sch_orphaned s). dropped s q}"
      using removeOrphan_fold [of "sch_orphaned s" s "[]"] by blast
    let ?s = "s\<lparr>sch_orphaned := [], sch_active := active\<rparr>"
    have left: "left = []" using f(2) by simp
    obtain queue pending removed where g: "fold markRemoved ws ?s =
        ?s\<lparr>sch_pendingOwners := queue, sch_pending := pending, sch_removed := removed\<rparr>"
        "queue_ok ts ?s \<longrightarrow> queue_ok ts (fold markRemoved ws ?s)"
        "set pending = set (sch_pending ?s) \<union> set ws" "set removed = set (sch_removed ?s) \<union> set ws"
      using markRemoved_fold [of ws ?s ts] by blast
    let ?t = "?s\<lparr>sch_pendingOwners := queue, sch_pending := pending, sch_removed := removed\<rparr>"
    have pend: "set pending = set ws" "set removed = set ws" using g(3,4) none r0 by simp_all
    have res: "FinalizeRemovals s = Some (ws \<noteq> [], ?t)"
      using False none by (simp add: FinalizeRemovals_markRemoved f(1) left g(1))
    have gone: "{q \<in> set (sch_orphaned s). dropped s q} = ledger_set (sch_applied s) - ledger_set active"
      unfolding app f(4) using orphan_dropped(3) [OF inv] by blast
    have "queue_ok ts ?s" using parts(3) by (simp add: queue_ok_frame [of ?s s])
    then have "queue_ok ts ?t" using g(1,2) by simp
    moreover have "settled ?t" unfolding settled_def using f(4,5) pend app by auto
    ultimately have "pending_ok ts ?t" using pend by (simp add: pending_ok_parts)
    moreover have "activity (\<lambda>q. card (demands s q)) ?t"
      using parts(1) f(3) act f(4) reqrefs_demanded [OF inv] by (auto simp: activity_def reqrefs_def)
    ultimately have t: "sched_inv ts ?t" by (intro sched_inv_frame [OF inv]) simp_all
    have "(ws \<noteq> []) = (pending \<noteq> [])" using pend(1) by (metis set_empty)
    moreover have "set pending = requirement_owner ` (ledger_set (sch_applied s) - ledger_set active)"
      unfolding pend(1) f(5) gone by simp
    ultimately show ?thesis using act f(4) pend(2)
      by (intro exI [of _ "ws \<noteq> []"] exI [of _ ?t] conjI res t) (simp_all add: pend(1))
  qed
qed

lemma installFrom_facts:
  "ledger_wf l \<Longrightarrow> installFrom qs l = Some m \<Longrightarrow> ledger_wf m \<and> ledger_set m = ledger_set l \<union> set qs"
proof (induction qs arbitrary: l)
  case (Cons q qs)
  then have "installFrom qs (ledger_add q l) = Some m" by (simp split: if_splits)
  from Cons.IH [OF _ this] Cons.prems(1) show ?case by simp
qed simp

lemma installFrom_some:
  "distinct qs \<Longrightarrow> set qs \<inter> ledger_set l = {} \<longleftrightarrow> installFrom qs l \<noteq> None"
proof (induction qs arbitrary: l)
  case (Cons q qs)
  then show ?case using Cons.IH [of "ledger_add q l"] by auto
qed simp

lemma InstallCertified_inv:
  assumes "sched_inv ts s"
  shows "sched_inv ts (snd (InstallCertified qs s))"
proof (cases "ledger_empty (sch_certified s)")
  case True
  then show ?thesis
  proof (cases "installFrom qs newLedger")
    case (Some l)
    have "snd (InstallCertified qs s) = s\<lparr>sch_certified := l\<rparr>" by (simp add: InstallCertified_def True Some)
    moreover have "activity (\<lambda>q. card (demands s q)) (s\<lparr>sch_certified := l\<rparr>)"
      by (rule activity_frame [OF sched_inv_parts(1) [OF assms]])
        (use sched_inv_parts(1) [OF assms] installFrom_facts [OF ledger_wf_new Some] in \<open>simp_all add: activity_def\<close>)
    ultimately show ?thesis
      using sched_inv_frame [OF assms, of "s\<lparr>sch_certified := l\<rparr>"] sched_inv_parts(2) [OF assms] by simp
  qed (use assms in \<open>simp add: InstallCertified_def\<close>)
qed (use assms in \<open>simp add: InstallCertified_def\<close>)

subsection \<open>Reachable states\<close>

inductive scheduler_reachable :: "(type_ref \<Rightarrow> string) \<Rightarrow> scheduler \<Rightarrow> bool" for ts where
  New: "scheduler_reachable ts (scheduler_New (CompareArtifactOwners ts) compare)"
| Enqueue: "scheduler_reachable ts s \<Longrightarrow> scheduler_reachable ts (scheduler_Enqueue requirement s)"
| Batch: "scheduler_reachable ts s \<Longrightarrow> scheduler_reachable ts (snd (NextBatch s))"
| Replace: "scheduler_reachable ts s \<Longrightarrow> list_all request_ok requests \<Longrightarrow> list_all (coherent heap) requests \<Longrightarrow>
    scheduler_Replace consumer requests next' s = Some (e, t, n) \<Longrightarrow> scheduler_reachable ts t"
| Finalize: "scheduler_reachable ts s \<Longrightarrow> FinalizeRemovals s = Some (again, t) \<Longrightarrow> scheduler_reachable ts t"
| Install: "scheduler_reachable ts s \<Longrightarrow> scheduler_reachable ts (snd (InstallCertified requirements s))"

lemma scheduler_reachable_inv: "scheduler_reachable ts s \<Longrightarrow> sched_inv ts s"
proof (induction rule: scheduler_reachable.induct)
  case (Enqueue s q)
  then show ?case by (simp add: scheduler_Enqueue_inv(1))
next
  case (Batch s)
  then show ?case using NextBatch_none [OF Batch.IH] NextBatch_some [OF Batch.IH] by (cases "sch_pending s = []") auto
next
  case (Replace s requests heap consumer n e t n')
  from canonicalRoots_ok [OF Replace.hyps(2,3)] obtain selected m
    where "canonicalRoots requests n = (Inr selected, m)" "roots_ok selected" by blast
  from scheduler_Replace_inv [OF Replace.IH this, of consumer] obtain u
    where "scheduler_Replace consumer requests n s = Some (None, u, m)" "sched_inv ts u" by blast
  then show ?case using Replace.hyps(4) by simp
next
  case (Finalize s again t)
  then show ?case using FinalizeRemovals_inv [OF Finalize.IH] by (cases "sch_pending s = []") (auto simp: FinalizeRemovals_def)
next
  case (Install s qs)
  then show ?case by (simp add: InstallCertified_inv)
qed simp

end
