(* ===== verification/RequirementProperties.thy ===== *)
theory RequirementProperties
  imports SchedulerOps
begin

text \<open>
  What the requirement scheduler guarantees: the selection and the walk over shared requests, the
  exactness of the reference counts, the order of the batches, and the pruning of requirements that
  nobody demands any more.
\<close>

subsection \<open>A concrete run\<close>

definition demo_requirement :: "nat \<Rightarrow> declaration_requirement" where
  "demo_requirement n =
     \<lparr>requirement_owner = no_owner\<lparr>owner_source := Some \<lparr>object_ref = n, object_package = None,
        object_parent = None, object_kind = VarObject, object_name = itoa n, object_type = None,
        object_pos = int n\<rparr>\<rparr>, requirement_detail = 0\<rparr>"

definition demo_leaf :: "nat \<Rightarrow> root_request" where
  "demo_leaf n = PayloadRequest n (RequirementPayload (demo_requirement n))"

definition demo_import :: root_request where
  "demo_import = PayloadRequest 9 ImportPayload"

text \<open>A sequence of two requirements and an import; the requirement 1 is shared.\<close>

definition demo_request :: root_request where
  "demo_request = SequenceRequest 7 6 [demo_leaf 1, demo_leaf 2, demo_import]"

definition demo_heap :: "nat \<Rightarrow> root_request" where
  "demo_heap a = (if a = 7 then demo_request else if a = 9 then demo_import else demo_leaf a)"

definition demo_consumer :: "nat \<Rightarrow> artifact_owner" where
  "demo_consumer n = requirement_owner (demo_requirement n)"

definition demo_compare :: "declaration_requirement \<Rightarrow> declaration_requirement \<Rightarrow> int" where
  "demo_compare p q = ord_cmp (requirement_detail p) (requirement_detail q)"

definition demo_empty :: scheduler where
  "demo_empty = scheduler_New (CompareArtifactOwners (\<lambda>_. [])) demo_compare"

definition demo_replace :: "nat \<Rightarrow> root_request list \<Rightarrow> scheduler \<Rightarrow> scheduler" where
  "demo_replace c rs s = fst (snd (the (scheduler_Replace (demo_consumer c) rs 10 s)))"

lemma demo_request_ok: "request_ok demo_request" "coherent demo_heap demo_request"
  "request_ok (demo_leaf n)" "n < 7 \<Longrightarrow> coherent demo_heap (demo_leaf n)"
  by (simp_all add: demo_request_def demo_leaf_def demo_import_def demo_heap_def request_kind_defs)

abbreviation demo_sched_reachable :: "scheduler \<Rightarrow> bool" where
  "demo_sched_reachable \<equiv> scheduler_reachable (\<lambda>_. [])"

lemma demo_empty_reachable: "demo_sched_reachable demo_empty"
  unfolding demo_empty_def by (rule scheduler_reachable.New)

subsection \<open>Properties\<close>

definition demanded_by :: "scheduler \<Rightarrow> artifact_owner \<Rightarrow> declaration_requirement \<Rightarrow> bool" where
  "demanded_by s consumer q \<longleftrightarrow>
     (\<exists>r \<in> set (consumed s consumer). \<exists>l \<in> set (leaves r). request_DeclarationRequirement l = Some q)"

lemma demanded_by_some: "demanded s q \<longleftrightarrow> (\<exists>c. demanded_by s c q)"
  by (simp add: demanded_def demanded_by_def)

lemma requirement_kind: "request_DeclarationRequirement l = Some q \<Longrightarrow> request_Kind l = 2"
  by (cases l rule: request_DeclarationRequirement.cases) (auto simp: request_kind_defs)

lemma replace_exact:
  assumes "scheduler_reachable ts s" "list_all request_ok rs" "list_all (coherent h) rs"
  shows "\<exists>t n'. scheduler_Replace c rs n s = Some (None, t, n') \<and> scheduler_reachable ts t \<and>
    (\<forall>q. demanded_by t c q \<longleftrightarrow> (\<exists>r \<in> set rs. \<exists>l \<in> set (leaves r). request_DeclarationRequirement l = Some q)) \<and>
    (\<forall>k. k \<noteq> c \<longrightarrow> demanded_by t k = demanded_by s k) \<and> sch_roots t = sch_roots s"
proof -
  obtain sel n' where sel: "canonicalRoots rs n = (Inr sel, n')" "roots_ok sel"
      "set (concat (map leaves sel)) = {l \<in> set (concat (map leaves rs)). request_Kind l = 2}"
    using canonicalRoots_ok [OF assms(2,3)] by blast
  obtain t where t: "scheduler_Replace c rs n s = Some (None, t, n')"
      "\<forall>k. consumed t k = (if k = c then sel else consumed s k)" "sch_roots t = sch_roots s"
    using scheduler_Replace_inv [OF scheduler_reachable_inv [OF assms(1)] sel(1,2), of c] by blast
  have "scheduler_reachable ts t" by (rule scheduler_reachable.Replace [OF assms t(1)])
  moreover have "demanded_by t c q \<longleftrightarrow> (\<exists>l \<in> set (concat (map leaves sel)). request_DeclarationRequirement l = Some q)" for q
    using t(2) by (auto simp: demanded_by_def)
  then have "demanded_by t c q \<longleftrightarrow> (\<exists>l \<in> set (concat (map leaves rs)). request_DeclarationRequirement l = Some q)" for q
    unfolding sel(3) using requirement_kind by blast
  then have "demanded_by t c q \<longleftrightarrow> (\<exists>r \<in> set rs. \<exists>l \<in> set (leaves r). request_DeclarationRequirement l = Some q)" for q
    by auto
  moreover have "k \<noteq> c \<Longrightarrow> demanded_by t k = demanded_by s k" for k
    using t(2) by (simp add: demanded_by_def fun_eq_iff)
  ultimately show ?thesis using t(1,3) by blast
qed

lemma demo_replace_facts:
  assumes "demo_sched_reachable s" "list_all request_ok rs" "list_all (coherent demo_heap) rs"
  shows "demo_sched_reachable (demo_replace c rs s)"
    "demanded_by (demo_replace c rs s) (demo_consumer c) q \<longleftrightarrow>
       (\<exists>r \<in> set rs. \<exists>l \<in> set (leaves r). request_DeclarationRequirement l = Some q)"
    "k \<noteq> demo_consumer c \<Longrightarrow> demanded_by (demo_replace c rs s) k = demanded_by s k"
    "sch_roots (demo_replace c rs s) = sch_roots s"
  using replace_exact [OF assms, of "demo_consumer c" 10] by (auto simp: demo_replace_def)

definition demo_sched :: scheduler where
  "demo_sched = demo_replace 5 [demo_request] demo_empty"

lemma demo_ok: "list_all request_ok [demo_request]" "list_all (coherent demo_heap) [demo_request]"
  by (simp_all add: demo_request_ok)

lemma demo_sched_facts:
  "demo_sched_reachable demo_sched" "demanded_by demo_sched (demo_consumer 5) (demo_requirement 2)"
proof -
  note f = demo_replace_facts [OF demo_empty_reachable demo_ok, where c = 5, folded demo_sched_def]
  show "demo_sched_reachable demo_sched" by (rule f(1))
  show "demanded_by demo_sched (demo_consumer 5) (demo_requirement 2)"
    unfolding f(2) by (simp add: demo_request_def demo_leaf_def)
qed

text \<open>C10: Replacing the requests of a consumer never hits a reference-count panic and never fails on
  well-formed requests; afterwards exactly the requirements named by the new requests are demanded on
  behalf of that consumer, and every other consumer's demands are what they were.\<close>

theorem replace_total_and_exact:
  assumes "scheduler_reachable ts s" "list_all request_ok rs" "list_all (coherent h) rs"
  shows "\<exists>t n'. scheduler_Replace c rs n s = Some (None, t, n') \<and> scheduler_reachable ts t \<and>
    (\<forall>q. demanded_by t c q \<longleftrightarrow> (\<exists>r \<in> set rs. \<exists>l \<in> set (leaves r). request_DeclarationRequirement l = Some q)) \<and>
    (\<forall>k. k \<noteq> c \<longrightarrow> demanded_by t k = demanded_by s k) \<and> sch_roots t = sch_roots s"
  using assms by (rule replace_exact)

theorem replace_total_and_exact_witness:
  "\<exists>t n'. scheduler_Replace (demo_consumer 5) [demo_request] 10 demo_empty = Some (None, t, n') \<and>
     demanded_by t (demo_consumer 5) (demo_requirement 2)"
proof -
  from replace_total_and_exact [OF demo_empty_reachable demo_ok, of "demo_consumer 5" 10]
  obtain t n' where t: "scheduler_Replace (demo_consumer 5) [demo_request] 10 demo_empty = Some (None, t, n')"
      "\<forall>q. demanded_by t (demo_consumer 5) q \<longleftrightarrow>
        (\<exists>r \<in> set [demo_request]. \<exists>l \<in> set (leaves r). request_DeclarationRequirement l = Some q)" by blast
  have "demanded_by t (demo_consumer 5) (demo_requirement 2)"
    unfolding t(2) [rule_format] by (simp add: demo_request_def demo_leaf_def)
  with t(1) show ?thesis by blast
qed

text \<open>C11: In every reachable state the active requirements are exactly the roots, those some consumer
  demands, and orphans waiting for removal; an orphan is demanded by nobody, and the reference count of
  a requirement is positive exactly if a consumer demands it.\<close>

theorem active_are_live:
  assumes "scheduler_reachable ts s"
  shows "(q \<in> ledger_set (sch_active s) \<longleftrightarrow>
      q \<in> ledger_set (sch_roots s) \<or> (\<exists>c. demanded_by s c q) \<or> q \<in> set (sch_orphaned s)) \<and>
    (q \<in> set (sch_orphaned s) \<longrightarrow> \<not> demanded_by s c q) \<and>
    (value_or 0 (sch_requirementRefs s) q > 0 \<longleftrightarrow> (\<exists>c. demanded_by s c q))"
  using scheduler_reachable_inv [OF assms, THEN activity_active, of q]
    orphan_dropped(2) [OF scheduler_reachable_inv [OF assms], of q]
    reqrefs_demanded [OF scheduler_reachable_inv [OF assms], of q]
  by (auto simp: demanded_by_some reqrefs_def)

theorem active_are_live_witness:
  "demo_requirement 2 \<in> ledger_set (sch_active demo_sched) \<and>
   value_or 0 (sch_requirementRefs demo_sched) (demo_requirement 2) > 0"
  using active_are_live [OF demo_sched_facts(1), of "demo_requirement 2"] demo_sched_facts(2) by blast

text \<open>C14: While owners are pending, the next batch is the least of them.  It carries the active
  requirements of that owner, once each and sorted, and whether a removal caused it; afterwards exactly
  these are recorded as applied for the owner, and nothing else changes.\<close>

theorem next_batch_applies_least:
  assumes "scheduler_reachable ts s" "sch_pending s \<noteq> []"
  shows "\<exists>owner requirements removed t. NextBatch s = (Some (owner, requirements, removed), t) \<and>
    scheduler_reachable ts t \<and> owner \<in> set (sch_pending s) \<and>
    (\<forall>w \<in> set (sch_pending s). CompareArtifactOwners ts owner w \<le> 0) \<and>
    set (sch_pending t) = set (sch_pending s) - {owner} \<and>
    set requirements = {q \<in> ledger_set (sch_active s). requirement_owner q = owner} \<and> distinct requirements \<and>
    (compare_preorder (sch_compare s) \<longrightarrow> sorted_wrt (\<lambda>p q. sch_compare s p q \<le> 0) requirements) \<and>
    removed = (owner \<in> set (sch_removed s)) \<and>
    ledger_set (sch_applied t) = {q \<in> ledger_set (sch_applied s). requirement_owner q \<noteq> owner} \<union> set requirements \<and>
    sch_active t = sch_active s"
proof -
  have inv: "sched_inv ts s" by (rule scheduler_reachable_inv [OF assms(1)])
  obtain owner removed t where b: "NextBatch s = (Some (owner, fst (ledger_forOwner owner (sch_compare s) (sch_active s)), removed), t)"
    and f: "owner \<in> set (sch_pending s)" "\<forall>w \<in> set (sch_pending s). CompareArtifactOwners ts owner w \<le> 0"
      "set (sch_pending t) = set (sch_pending s) - {owner}" "removed = (owner \<in> set (sch_removed s))"
      "ledger_set (sch_applied t) = {q \<in> ledger_set (sch_applied s). requirement_owner q \<noteq> owner} \<union>
         set (fst (ledger_forOwner owner (sch_compare s) (sch_active s)))" "sch_active t = sch_active s"
    using NextBatch_some [OF inv assms(2)] by blast
  let ?q = "fst (ledger_forOwner owner (sch_compare s) (sch_active s))"
  have "ledger_wf (sch_active s)" using sched_inv_parts(1) [OF inv] by (simp add: activity_def)
  note q = ledger_forOwner_facts [OF this, of owner "sch_compare s"]
  have "compare_preorder (sch_compare s) \<longrightarrow> sorted_wrt (\<lambda>p q. sch_compare s p q \<le> 0) ?q"
    using compare_preorder.sorted_sort_by by (auto simp: ledger_forOwner_def Let_def)
  moreover have "scheduler_reachable ts t" using scheduler_reachable.Batch [OF assms(1)] b by simp
  ultimately show ?thesis using b f q(1,2)
    by (intro exI [of _ owner] exI [of _ ?q] exI [of _ removed] exI [of _ t] conjI) simp_all
qed

lemma demo_sched_pending: "sch_pending demo_sched = [demo_consumer 1, demo_consumer 2]"
  by code_simp

theorem next_batch_applies_least_witness:
  "\<exists>owner requirements removed t. NextBatch demo_sched = (Some (owner, requirements, removed), t) \<and>
     owner \<in> {demo_consumer 1, demo_consumer 2} \<and>
     set requirements = {q \<in> ledger_set (sch_active demo_sched). requirement_owner q = owner}"
proof -
  have "sch_pending demo_sched \<noteq> []" by (simp add: demo_sched_pending)
  from next_batch_applies_least [OF demo_sched_facts(1) this] show ?thesis
    unfolding demo_sched_pending by fastforce
qed

fun batches :: "nat \<Rightarrow> scheduler \<Rightarrow> (artifact_owner \<times> declaration_requirement list \<times> bool) list \<times> scheduler" where
  "batches 0 s = ([], s)"
| "batches (Suc n) s =
     (case NextBatch s of
        (None, t) \<Rightarrow> ([], t)
      | (Some b, t) \<Rightarrow> (b # fst (batches n t), snd (batches n t)))"

lemma batches_drain:
  "sched_inv ts s \<Longrightarrow> card (set (sch_pending s)) = n \<Longrightarrow>
     sch_pending (snd (batches n s)) = [] \<and> sched_inv ts (snd (batches n s)) \<and>
     sch_active (snd (batches n s)) = sch_active s \<and>
     set (map fst (fst (batches n s))) = set (sch_pending s) \<and> distinct (map fst (fst (batches n s))) \<and>
     sorted_wrt (\<lambda>x y. CompareArtifactOwners ts x y \<le> 0) (map fst (fst (batches n s)))"
proof (induction n arbitrary: s)
  case 0
  then show ?case by simp
next
  case (Suc n)
  then have ne: "sch_pending s \<noteq> []" by auto
  obtain owner requirements removed t where b: "NextBatch s = (Some (owner, requirements, removed), t)"
      "sched_inv ts t" "owner \<in> set (sch_pending s)"
      "\<forall>w \<in> set (sch_pending s). CompareArtifactOwners ts owner w \<le> 0"
      "set (sch_pending t) = set (sch_pending s) - {owner}" "sch_active t = sch_active s"
    using NextBatch_some [OF Suc.prems(1) ne] by blast
  have "card (set (sch_pending t)) = n" using b(3,5) Suc.prems(2) by simp
  from Suc.IH [OF b(2) this] show ?case using b by auto
qed

text \<open>C13: Taking batches until none is left terminates after as many batches as owners were pending,
  visits every pending owner once in ascending order, and leaves what has been applied equal to what is
  active.\<close>

theorem batches_settle:
  assumes "scheduler_reachable ts s"
  shows "let (bs, t) = batches (length (sch_pending s)) s in
    NextBatch t = (None, t) \<and> set (map fst bs) = set (sch_pending s) \<and> length bs = length (sch_pending s) \<and>
    sorted_wrt (\<lambda>x y. CompareArtifactOwners ts x y \<le> 0) (map fst bs) \<and>
    ledger_set (sch_applied t) = ledger_set (sch_active t) \<and> sch_active t = sch_active s"
proof -
  have inv: "sched_inv ts s" by (rule scheduler_reachable_inv [OF assms])
  have d: "distinct (sch_pending s)" using sched_inv_parts(3) [OF inv] by (simp add: queue_ok_def)
  let ?r = "batches (length (sch_pending s)) s"
  have r: "sch_pending (snd ?r) = []" "sched_inv ts (snd ?r)" "sch_active (snd ?r) = sch_active s"
      "set (map fst (fst ?r)) = set (sch_pending s)" "distinct (map fst (fst ?r))"
      "sorted_wrt (\<lambda>x y. CompareArtifactOwners ts x y \<le> 0) (map fst (fst ?r))"
    using batches_drain [OF inv distinct_card [OF d]] by blast+
  have "length (fst ?r) = length (sch_pending s)" using r(4,5) d by (metis distinct_card length_map)
  then show ?thesis
    using r NextBatch_none [OF r(2,1)] settled_active [OF r(2,1)] by (simp add: split_beta Let_def)
qed

theorem batches_settle_witness:
  "NextBatch (snd (batches 2 demo_sched)) = (None, snd (batches 2 demo_sched)) \<and>
   map fst (fst (batches 2 demo_sched)) = [demo_consumer 1, demo_consumer 2]"
proof -
  have l: "length (sch_pending demo_sched) = 2" by (simp add: demo_sched_pending)
  have "NextBatch (snd (batches 2 demo_sched)) = (None, snd (batches 2 demo_sched))"
    using batches_settle [OF demo_sched_facts(1)] l by (auto simp: split_beta Let_def simp del: batches.simps)
  moreover have "map fst (fst (batches 2 demo_sched)) = [demo_consumer 1, demo_consumer 2]" by code_simp
  ultimately show ?thesis by blast
qed

text \<open>C12: Finalizing the removals is refused while owners are pending.  Otherwise it makes the active
  requirements exactly the roots and the demanded ones, and marks as removed and pending exactly the
  owners that lose a requirement; it reports whether there are any.\<close>

theorem finalize_prunes_undemanded:
  assumes "scheduler_reachable ts s"
  shows "(sch_pending s \<noteq> [] \<longrightarrow> FinalizeRemovals s = None) \<and>
    (sch_pending s = [] \<longrightarrow> (\<exists>again t. FinalizeRemovals s = Some (again, t) \<and> scheduler_reachable ts t \<and>
       ledger_set (sch_active t) = ledger_set (sch_roots s) \<union> {q. \<exists>c. demanded_by s c q} \<and>
       set (sch_pending t) = requirement_owner ` (ledger_set (sch_active s) - ledger_set (sch_active t)) \<and>
       set (sch_removed t) = set (sch_pending t) \<and> again = (sch_pending t \<noteq> []) \<and> sch_orphaned t = [] \<and>
       demanded_by t = demanded_by s))"
proof (intro conjI impI)
  have inv: "sched_inv ts s" by (rule scheduler_reachable_inv [OF assms])
  assume p: "sch_pending s = []"
  obtain again t where t: "FinalizeRemovals s = Some (again, t)" "sch_orphaned t = []"
      "ledger_set (sch_active t) = ledger_set (sch_roots s) \<union> {q. demanded s q}"
      "set (sch_pending t) = requirement_owner ` (ledger_set (sch_applied s) - ledger_set (sch_active t))"
      "set (sch_removed t) = set (sch_pending t)" "again = (sch_pending t \<noteq> [])"
      "sch_byConsumer t = sch_byConsumer s"
    using FinalizeRemovals_inv [OF inv p] by blast
  have "demanded_by t = demanded_by s" by (simp add: demanded_by_def consumed_def t(7) fun_eq_iff)
  then show "\<exists>again t. FinalizeRemovals s = Some (again, t) \<and> scheduler_reachable ts t \<and>
       ledger_set (sch_active t) = ledger_set (sch_roots s) \<union> {q. \<exists>c. demanded_by s c q} \<and>
       set (sch_pending t) = requirement_owner ` (ledger_set (sch_active s) - ledger_set (sch_active t)) \<and>
       set (sch_removed t) = set (sch_pending t) \<and> again = (sch_pending t \<noteq> []) \<and> sch_orphaned t = [] \<and>
       demanded_by t = demanded_by s"
    using t scheduler_reachable.Finalize [OF assms t(1)] settled_active [OF inv p]
    by (intro exI [of _ again] exI [of _ t] conjI) (simp_all add: demanded_by_some)
qed (simp add: FinalizeRemovals_def)

text \<open>The consumer drops its requests once everything is applied.\<close>

definition demo_dropped :: scheduler where
  "demo_dropped = demo_replace 5 [] (snd (batches 2 demo_sched))"

lemma demo_dropped_reachable: "demo_sched_reachable demo_dropped" "sch_pending demo_dropped = []"
proof -
  have "demo_sched_reachable (snd (batches n s))" if "demo_sched_reachable s" for n s
    using that by (induction n arbitrary: s)
      (auto split: prod.split option.split dest: scheduler_reachable.Batch)
  from demo_replace_facts(1) [OF this [OF demo_sched_facts(1)], of "[]"]
  show "demo_sched_reachable demo_dropped" by (simp add: demo_dropped_def)
  show "sch_pending demo_dropped = []" by code_simp
qed

theorem finalize_prunes_undemanded_witness:
  "\<exists>again t. FinalizeRemovals demo_dropped = Some (again, t) \<and> sch_orphaned t = [] \<and>
     FinalizeRemovals demo_sched = None"
proof -
  have "FinalizeRemovals demo_sched = None"
    using finalize_prunes_undemanded [OF demo_sched_facts(1)] by (simp add: demo_sched_pending)
  then show ?thesis using finalize_prunes_undemanded [OF demo_dropped_reachable(1)] demo_dropped_reachable(2) by blast
qed

subsection \<open>Requests\<close>

text \<open>C15: Selecting requests by kind, which walks the shared structure once and reuses unchanged nodes,
  fails on no well-formed request and yields requests whose payloads are exactly those payloads of the
  input, in order and with their multiplicity, whose kind is selected.\<close>

theorem selection_is_filtering:
  assumes "list_all request_ok rs" "list_all (coherent h) rs"
  shows "\<exists>qs n'. selectRootRequests kmask rs n = (Inr qs, n') \<and> list_all request_ok qs \<and>
    concat (map leaves qs) = filter (selected_kind kmask) (concat (map leaves rs))"
proof -
  let ?st = "\<lparr>sel_memo = [], sel_next = n, sel_work = 0\<rparr>"
  obtain qs st where "selectRoots kmask rs ?st = (Inr qs, st)" "list_all request_ok qs"
      "concat (map leaves qs) = filter (selected_kind kmask) (concat (map leaves rs))"
    using selectRoots_filters [OF assms, of kmask ?st] by (auto simp: memo_ok_def)
  then show ?thesis by (simp add: selectRootRequests_def)
qed

theorem selection_is_filtering_witness:
  "\<exists>qs n'. selectRootRequests declarationRequestKindMask [demo_request] 10 = (Inr qs, n') \<and>
     concat (map leaves qs) = [demo_leaf 1, demo_leaf 2]"
proof -
  have k: "filter (selected_kind declarationRequestKindMask) (concat (map leaves [demo_request])) =
      [demo_leaf 1, demo_leaf 2]" by code_simp
  show ?thesis using selection_is_filtering [OF demo_ok, of declarationRequestKindMask 10] unfolding k by blast
qed

text \<open>C16: The unique walk over requests that share structure terminates without error and visits every
  payload exactly once, although it skips every sequence node it has entered before; the plain walk lists
  the payloads in order with their multiplicity.\<close>

theorem unique_walk_visits_once:
  assumes "list_all request_ok rs" "list_all (coherent h) rs"
  shows "\<exists>out. WalkUniqueRootRequestPayloads rs = Inr out \<and> distinct out \<and>
    set out = set (concat (map leaves rs)) \<and> WalkRootRequests rs = Inr (concat (map leaves rs))"
  using WalkUnique_leaves [OF assms] assms(1)
    walk_all [of "\<lparr>walk_frames = [rs], walk_sequences = [], walk_payloads = []\<rparr>"]
  by (simp add: WalkRootRequests_def frame_leaves_def)

theorem unique_walk_visits_once_witness:
  "WalkUniqueRootRequestPayloads [demo_request, demo_leaf 1, demo_request] = Inr [demo_leaf 1, demo_leaf 2, demo_import] \<and>
   (\<exists>out. WalkUniqueRootRequestPayloads [demo_request, demo_leaf 1, demo_request] = Inr out \<and> distinct out)"
proof -
  have "list_all request_ok [demo_request, demo_leaf 1, demo_request]"
    "list_all (coherent demo_heap) [demo_request, demo_leaf 1, demo_request]" by (simp_all add: demo_request_ok)
  from unique_walk_visits_once [OF this] have "\<exists>out. WalkUniqueRootRequestPayloads [demo_request, demo_leaf 1, demo_request] = Inr out \<and> distinct out"
    by blast
  moreover have "WalkUniqueRootRequestPayloads [demo_request, demo_leaf 1, demo_request] = Inr [demo_leaf 1, demo_leaf 2, demo_import]"
    by code_simp
  ultimately show ?thesis by blast
qed

text \<open>Strictly sorted lists, and the merge of two of them.\<close>

context compare_preorder
begin

lemma mergeFrom_set:
  "(\<forall>x \<in> set xs. \<forall>y \<in> set ys. cmp x y = 0 \<longrightarrow> x = y) \<Longrightarrow> set (mergeFrom cmp xs ys) = set xs \<union> set ys"
proof (induction "length xs + length ys" arbitrary: xs ys rule: less_induct)
  case less
  show ?case
  proof (cases "xs = [] \<or> ys = []")
    case False
    then obtain l left r right where xy: "xs = l # left" "ys = r # right" by (meson neq_Nil_conv)
    then show ?thesis
      using less.hyps [of left ys] less.hyps [of xs right] less.hyps [of left right] less.prems
      by (auto simp: Let_def split: if_splits)
  qed (cases xs; auto)
qed

lemma mergeFrom_sorted:
  "sorted_wrt (\<lambda>x y. cmp x y < 0) xs \<Longrightarrow> sorted_wrt (\<lambda>x y. cmp x y < 0) ys \<Longrightarrow>
     \<forall>x \<in> set xs. \<forall>y \<in> set ys. cmp x y = 0 \<longrightarrow> x = y \<Longrightarrow>
     sorted_wrt (\<lambda>x y. cmp x y < 0) (mergeFrom cmp xs ys)"
proof (induction "length xs + length ys" arbitrary: xs ys rule: less_induct)
  case less
  show ?case
  proof (cases "xs = [] \<or> ys = []")
    case False
    then obtain l left r right where xy: "xs = l # left" "ys = r # right" by (meson neq_Nil_conv)
    have s: "sorted_wrt (\<lambda>x y. cmp x y < 0) left" "sorted_wrt (\<lambda>x y. cmp x y < 0) right"
      "\<forall>x \<in> set left. cmp l x < 0" "\<forall>y \<in> set right. cmp r y < 0" using less.prems xy by simp_all
    consider "cmp l r < 0" | "0 < cmp l r" | "cmp l r = 0" by linarith
    then show ?thesis
    proof cases
      case 1
      have "\<forall>y \<in> set (mergeFrom cmp left ys). cmp l y < 0"
        using mergeFrom_set [of left ys] less.prems(3) xy 1 s cmp_less_trans [of l r] cmp_less_le by auto
      then show ?thesis using less.hyps [of left ys] less.prems xy 1 s by (simp add: Let_def)
    next
      case 2
      then have r: "cmp r l < 0" using cmp_flip by blast
      have "\<forall>y \<in> set (mergeFrom cmp xs right). cmp r y < 0"
        using mergeFrom_set [of xs right] less.prems(3) xy r s cmp_less_trans [of r l] cmp_less_le by auto
      then show ?thesis using less.hyps [of xs right] less.prems xy 2 s by (simp add: Let_def)
    next
      case 3
      then have "l = r" using less.prems(3) xy by simp
      then have "\<forall>y \<in> set (mergeFrom cmp left right). cmp l y < 0"
        using mergeFrom_set [of left right] less.prems(3) xy s by auto
      then show ?thesis using less.hyps [of left right] less.prems xy 3 s by (simp add: Let_def)
    qed
  qed (use less.prems in \<open>cases xs; auto\<close>)
qed

lemma merge_requirements_facts:
  assumes "sorted_wrt (\<lambda>x y. cmp x y < 0) xs" "sorted_wrt (\<lambda>x y. cmp x y < 0) ys"
    "\<forall>x \<in> set xs. \<forall>y \<in> set ys. cmp x y = 0 \<longrightarrow> x = y"
  shows "set (merge_requirements cmp xs ys) = set xs \<union> set ys"
    "sorted_wrt (\<lambda>x y. cmp x y < 0) (merge_requirements cmp xs ys)"
  using mergeFrom_set [OF assms(3)] mergeFrom_sorted [OF assms] assms(1,2)
  by (simp_all add: merge_requirements_def)

lemma sorted_strict:
  "sorted_wrt (\<lambda>x y. cmp x y \<le> 0) xs \<Longrightarrow> distinct xs \<Longrightarrow>
     \<forall>x \<in> set xs. \<forall>y \<in> set xs. cmp x y = 0 \<longrightarrow> x = y \<Longrightarrow> sorted_wrt (\<lambda>x y. cmp x y < 0) xs"
  by (induction xs) (force simp: order_le_less)+

end

text \<open>The requirements selected for an owner are the certified and the applied ones together, each once
  and in ascending order, provided the comparison tells requirements of one owner apart.\<close>

theorem selected_is_sorted_union:
  assumes "scheduler_reachable ts s" "compare_preorder (sch_compare s)"
    and "\<And>p q. requirement_owner p = owner \<Longrightarrow> requirement_owner q = owner \<Longrightarrow> sch_compare s p q = 0 \<Longrightarrow> p = q"
  shows "set (SelectedFor owner s) =
      {q. (CertifiedContains q s \<or> WasApplied q s) \<and> requirement_owner q = owner} \<and>
    sorted_wrt (\<lambda>p q. sch_compare s p q < 0) (SelectedFor owner s)"
proof -
  let ?cmp = "sch_compare s"
  note act = sched_inv_parts(1) [OF scheduler_reachable_inv [OF assms(1)]]
  have part: "sorted_wrt (\<lambda>p q. ?cmp p q < 0) (fst (ledger_forOwner owner ?cmp l)) \<and>
      set (fst (ledger_forOwner owner ?cmp l)) = {q \<in> ledger_set l. requirement_owner q = owner}"
    if l: "ledger_wf l" for l
  proof -
    have "sorted_wrt (\<lambda>p q. ?cmp p q \<le> 0) (fst (ledger_forOwner owner ?cmp l))"
      using compare_preorder.sorted_sort_by [OF assms(2)] by (simp add: ledger_forOwner_def Let_def)
    moreover note ledger_forOwner_facts(1,2) [OF l, of owner ?cmp]
    ultimately show ?thesis using compare_preorder.sorted_strict [OF assms(2)] assms(3) by fastforce
  qed
  have "ledger_wf (sch_certified s)" "ledger_wf (sch_applied s)" using act by (simp_all add: activity_def)
  note c = part [OF this(1)] and a = part [OF this(2)]
  have "\<forall>x \<in> set (fst (ledger_forOwner owner ?cmp (sch_certified s))).
      \<forall>y \<in> set (fst (ledger_forOwner owner ?cmp (sch_applied s))). ?cmp x y = 0 \<longrightarrow> x = y"
    using c a assms(3) by blast
  note merge_facts = compare_preorder.merge_requirements_facts [OF assms(2) conjunct1 [OF c] conjunct1 [OF a] this]
  have "set (SelectedFor owner s) = {q. (CertifiedContains q s \<or> WasApplied q s) \<and> requirement_owner q = owner}"
    unfolding SelectedFor_def AppliedFor_def merge_facts(1) using c a
    by (auto simp: CertifiedContains_def WasApplied_def)
  then show ?thesis using merge_facts(2) by (simp add: SelectedFor_def AppliedFor_def)
qed

theorem selected_is_sorted_union_witness:
  "set (SelectedFor (demo_consumer 1) (snd (InstallCertified [demo_requirement 1] demo_sched))) =
     {q. (CertifiedContains q (snd (InstallCertified [demo_requirement 1] demo_sched)) \<or>
          WasApplied q (snd (InstallCertified [demo_requirement 1] demo_sched))) \<and>
         requirement_owner q = demo_consumer 1}"
proof -
  let ?s = "snd (InstallCertified [demo_requirement 1] demo_sched)"
  have r: "demo_sched_reachable ?s" by (rule scheduler_reachable.Install [OF demo_sched_facts(1)])
  have c: "sch_compare ?s = demo_compare" by (intro ext) code_simp
  have "compare_preorder (sch_compare ?s)"
    unfolding c demo_compare_def [abs_def] by (rule compare_preorder_ord_key)
  moreover have "requirement_owner p = w \<Longrightarrow> requirement_owner q = w \<Longrightarrow> sch_compare ?s p q = 0 \<Longrightarrow> p = q" for p q w
    unfolding c demo_compare_def by simp
  ultimately show ?thesis using selected_is_sorted_union [OF r] by blast
qed

end
