(* ===== verification/Wire.thy ===== *)
theory Wire
  imports Prelude
begin

text \<open>
  The bytes of the external syntax-tree protocol of TS-Go: little-endian 32-bit words and the
  MessagePack values of the structured section (\<open>internal/target/tsgo/msgpack.go\<close>), with the
  constants of \<open>protocol_generated.go\<close>.

  A Go string is the list of its bytes.  The encoders append to a buffer; \<open>*_append\<close> lemmas separate
  what is appended from the buffer, and the interpretations of \<open>prefix_code\<close> state that a reader can
  tell where a value stops.
\<close>

subsection \<open>The protocol\<close>

definition protocolVersion :: "32 word" where "protocolVersion = 5"
definition headerOffsetMetadata :: nat where "headerOffsetMetadata = 0"
definition headerOffsetStringTableOffsets :: nat where "headerOffsetStringTableOffsets = 24"
definition headerOffsetStringTable :: nat where "headerOffsetStringTable = 28"
definition headerOffsetExtendedData :: nat where "headerOffsetExtendedData = 32"
definition headerOffsetStructuredData :: nat where "headerOffsetStructuredData = 36"
definition headerOffsetNodes :: nat where "headerOffsetNodes = 40"
definition headerSize :: nat where "headerSize = 44"
definition nodeLen :: nat where "nodeLen = 28"
definition nodeOffsetKind :: nat where "nodeOffsetKind = 0"
definition nodeOffsetParent :: nat where "nodeOffsetParent = 16"
definition nodeOffsetData :: nat where "nodeOffsetData = 20"
definition kindNodeList :: "32 word" where "kindNodeList = 4294967295"
definition nodeDataTypeChildren :: "32 word" where "nodeDataTypeChildren = 0"
definition nodeDataTypeString :: "32 word" where "nodeDataTypeString = 1073741824"
definition nodeDataTypeExtended :: "32 word" where "nodeDataTypeExtended = 2147483648"
definition nodeStringIndexMask :: "32 word" where "nodeStringIndexMask = 16777215"
definition nodeExtendedDataMask :: "32 word" where "nodeExtendedDataMask = 16777215"

lemmas protocol_defs = protocolVersion_def headerOffsetMetadata_def headerOffsetStringTableOffsets_def
  headerOffsetStringTable_def headerOffsetExtendedData_def headerOffsetStructuredData_def
  headerOffsetNodes_def headerSize_def nodeLen_def nodeOffsetKind_def nodeOffsetParent_def nodeOffsetData_def

subsection \<open>Little-endian words\<close>

definition le32 :: "32 word \<Rightarrow> bytes" where
  "le32 w = [ucast w, ucast (drop_bit 8 w), ucast (drop_bit 16 w), ucast (drop_bit 24 w)]"

text \<open>\<open>binary.LittleEndian.Uint32\<close> of the bytes from an offset; every use checks the length first.\<close>

definition get32 :: "bytes \<Rightarrow> nat \<Rightarrow> 32 word" where
  "get32 bs offset =
     or (ucast (bs ! offset))
       (or (push_bit 8 (ucast (bs ! (offset + 1))))
         (or (push_bit 16 (ucast (bs ! (offset + 2)))) (push_bit 24 (ucast (bs ! (offset + 3))))))"

text \<open>\<open>binary.LittleEndian.PutUint32\<close>.\<close>

definition put32 :: "nat \<Rightarrow> 32 word \<Rightarrow> bytes \<Rightarrow> bytes" where
  "put32 offset w bs = take offset bs @ le32 w @ drop (offset + 4) bs"

definition appendUint32s :: "bytes \<Rightarrow> 32 word list \<Rightarrow> bytes" where
  "appendUint32s destination values = fold (\<lambda>w destination. destination @ le32 w) values destination"

lemma length_le32 [simp]: "length (le32 w) = 4"
  by (simp add: le32_def)

lemma appendUint32s_append: "appendUint32s bs ws = bs @ concat (map le32 ws)"
  unfolding appendUint32s_def by (induction ws arbitrary: bs) simp_all

lemma length_concat_le32 [simp]: "length (concat (map le32 ws)) = 4 * length ws"
  by (induction ws) simp_all

lemma get32_le32 [simp]: "get32 (le32 w @ rest) 0 = w"
proof (rule bit_word_eqI)
  fix n assume "n < LENGTH(32)"
  then consider "n < 8" | "8 \<le> n" "n < 16" | "16 \<le> n" "n < 24" | "24 \<le> n" "n < 32" by fastforce
  then show "bit (get32 (le32 w @ rest) 0) n = bit w n" by cases (auto simp: get32_def le32_def bit_simps)
qed

lemma get32_append: "get32 (pre @ bs) (length pre + k) = get32 bs k"
  by (simp add: get32_def nth_append add.assoc)

lemma get32_at: "offset = length pre \<Longrightarrow> get32 (pre @ le32 w @ rest) offset = w"
  using get32_append [of pre "le32 w @ rest" 0] by simp

lemma get32_prefix: "offset + 4 \<le> length bs \<Longrightarrow> get32 (bs @ rest) offset = get32 bs offset"
  by (simp add: get32_def nth_append)

lemma get32_words: "i < length ws \<Longrightarrow> get32 (concat (map le32 ws) @ rest) (4 * i) = ws ! i"
proof -
  assume i: "i < length ws"
  have "concat (map le32 ws) = concat (map le32 (take i ws)) @ le32 (ws ! i) @ concat (map le32 (drop (Suc i) ws))"
    using i by (subst id_take_nth_drop [OF i]) simp
  then show ?thesis using i get32_at [of "4 * i" "concat (map le32 (take i ws))"] by simp
qed

lemma le32_inject [simp]: "le32 v = le32 w \<longleftrightarrow> v = w"
  by (metis append_Nil2 get32_le32)

subsection \<open>MessagePack\<close>

definition appendArrayHeader :: "bytes \<Rightarrow> nat \<Rightarrow> bytes" where
  "appendArrayHeader data len =
     (if len \<le> 15 then data @ [or 0x90 (of_nat len)]
      else if len \<le> 65535 then data @ [0xdc, of_nat (drop_bit 8 len), of_nat len]
      else data @ [0xdd, of_nat (drop_bit 24 len), of_nat (drop_bit 16 len), of_nat (drop_bit 8 len), of_nat len])"

definition appendMessagePackUint :: "bytes \<Rightarrow> 32 word \<Rightarrow> bytes" where
  "appendMessagePackUint data v =
     (if v \<le> 0x7f then data @ [ucast v]
      else if v \<le> 255 then data @ [0xcc, ucast v]
      else if v \<le> 65535 then data @ [0xcd, ucast (drop_bit 8 v), ucast v]
      else data @ [0xce, ucast (drop_bit 24 v), ucast (drop_bit 16 v), ucast (drop_bit 8 v), ucast v])"

text \<open>A string that is too long is a panic.\<close>

definition appendMessagePackString :: "bytes \<Rightarrow> bytes \<Rightarrow> bytes option" where
  "appendMessagePackString data s =
     (let len = length s in
      if len \<le> 31 then Some (data @ [or 0xa0 (of_nat len)] @ s)
      else if len \<le> 255 then Some (data @ [0xd9, of_nat len] @ s)
      else if len \<le> 65535 then Some (data @ [0xda, of_nat (drop_bit 8 len), of_nat len] @ s)
      else if len \<le> 4294967295 then
        Some (data @ [0xdb, of_nat (drop_bit 24 len), of_nat (drop_bit 16 len), of_nat (drop_bit 8 len), of_nat len] @ s)
      else None)"

definition appendMessagePackBool :: "bytes \<Rightarrow> bool \<Rightarrow> bytes" where
  "appendMessagePackBool data v = data @ [if v then 0xc3 else 0xc2]"

subsection \<open>Reading the lengths back\<close>

text \<open>The big-endian bytes of a number determine it.\<close>

definition read_be :: "bytes \<Rightarrow> nat" where
  "read_be bs = foldl (\<lambda>n b. 256 * n + unat b) 0 bs"

lemma read_be_bytes:
  "n < 256 \<Longrightarrow> read_be [of_nat n] = n"
  "n < 65536 \<Longrightarrow> read_be [of_nat (drop_bit 8 n), of_nat n] = n"
  "n < 4294967296 \<Longrightarrow>
     read_be [of_nat (drop_bit 24 n), of_nat (drop_bit 16 n), of_nat (drop_bit 8 n), of_nat n] = n"
  using read_base256 [of n 0] read_base256 [of n 1] read_base256 [of n 3]
  by (simp_all add: read_be_def drop_bit_eq_div upt_rec)

lemma word_bytes:
  fixes v :: "32 word"
  shows "(ucast v :: 8 word) = of_nat (unat v)"
    "(ucast (drop_bit k v) :: 8 word) = of_nat (drop_bit k (unat v))"
  by (simp_all add: unat_drop_bit_eq [symmetric])

subsection \<open>A reader\<close>

text \<open>
  What a MessagePack reader makes of the formats used here: the first byte selects the width of the
  number or length that follows.
\<close>

definition read_width :: "nat \<Rightarrow> bytes \<Rightarrow> nat \<times> bytes" where
  "read_width k bs = (read_be (take k bs), drop k bs)"

fun read_uint :: "bytes \<Rightarrow> (nat \<times> bytes) option" where
  "read_uint [] = None"
| "read_uint (b # bs) =
     (if b \<le> 0x7f then Some (unat b, bs)
      else if b = 0xcc then Some (read_width 1 bs)
      else if b = 0xcd then Some (read_width 2 bs)
      else if b = 0xce then Some (read_width 4 bs) else None)"

fun read_array_header :: "bytes \<Rightarrow> (nat \<times> bytes) option" where
  "read_array_header [] = None"
| "read_array_header (b # bs) =
     (if and b 0xf0 = 0x90 then Some (unat (and b 0x0f), bs)
      else if b = 0xdc then Some (read_width 2 bs)
      else if b = 0xdd then Some (read_width 4 bs) else None)"

definition split_string :: "nat \<times> bytes \<Rightarrow> bytes \<times> bytes" where
  "split_string = (\<lambda>(n, bs). (take n bs, drop n bs))"

fun read_string :: "bytes \<Rightarrow> (bytes \<times> bytes) option" where
  "read_string [] = None"
| "read_string (b # bs) =
     (if and b 0xe0 = 0xa0 then Some (split_string (unat (and b 0x1f), bs))
      else if b = 0xd9 then Some (split_string (read_width 1 bs))
      else if b = 0xda then Some (split_string (read_width 2 bs))
      else if b = 0xdb then Some (split_string (read_width 4 bs)) else None)"

fun read_bool :: "bytes \<Rightarrow> (bool \<times> bytes) option" where
  "read_bool [] = None"
| "read_bool (b # bs) = (if b = 0xc3 then Some (True, bs) else if b = 0xc2 then Some (False, bs) else None)"

text \<open>What each function appends.\<close>

definition enc_uint :: "32 word \<Rightarrow> bytes" where "enc_uint v = appendMessagePackUint [] v"
definition enc_header :: "nat \<Rightarrow> bytes" where "enc_header n = appendArrayHeader [] n"
definition enc_bool :: "bool \<Rightarrow> bytes" where "enc_bool v = appendMessagePackBool [] v"
definition enc_string :: "bytes \<Rightarrow> bytes option" where "enc_string s = appendMessagePackString [] s"

lemma uint_append: "appendMessagePackUint data v = data @ enc_uint v"
  by (simp add: enc_uint_def appendMessagePackUint_def)

lemma header_append: "appendArrayHeader data n = data @ enc_header n"
  by (simp add: enc_header_def appendArrayHeader_def)

lemma bool_append: "appendMessagePackBool data v = data @ enc_bool v"
  by (simp add: enc_bool_def appendMessagePackBool_def)

lemma string_append: "appendMessagePackString data s = map_option ((@) data) (enc_string s)"
  by (simp add: enc_string_def appendMessagePackString_def Let_def)

lemmas message_pack_append = uint_append header_append bool_append string_append

lemma read_width_bytes [simp]:
  "n < 256 \<Longrightarrow> read_width (Suc 0) (of_nat n # bs) = (n, bs)"
  "n < 65536 \<Longrightarrow> read_width 2 (of_nat (drop_bit 8 n) # of_nat n # bs) = (n, bs)"
  "n < 4294967296 \<Longrightarrow>
     read_width 4 (of_nat (drop_bit 24 n) # of_nat (drop_bit 16 n) # of_nat (drop_bit 8 n) # of_nat n # bs) = (n, bs)"
  using read_be_bytes [of n] by (simp_all add: read_width_def)

definition enc_nat :: "nat \<Rightarrow> bytes" where
  "enc_nat n =
     (if n \<le> 127 then [of_nat n]
      else if n \<le> 255 then [0xcc, of_nat n]
      else if n \<le> 65535 then [0xcd, of_nat (drop_bit 8 n), of_nat n]
      else [0xce, of_nat (drop_bit 24 n), of_nat (drop_bit 16 n), of_nat (drop_bit 8 n), of_nat n])"

lemma enc_uint_nat: "enc_uint v = enc_nat (unat v)"
  by (simp add: enc_uint_def appendMessagePackUint_def enc_nat_def word_le_nat_alt word_bytes(2) [symmetric])

lemma read_uint_nat:
  assumes "n < 4294967296"
  shows "read_uint (enc_nat n @ bs) = Some (n, bs)"
proof (cases "n \<le> 127")
  case True
  then have "unat (of_nat n :: 8 word) = n" by (simp add: unat_of_nat)
  then show ?thesis using True by (simp add: enc_nat_def word_le_nat_alt)
next
  case False
  then show ?thesis using assms by (auto simp: enc_nat_def)
qed

lemma read_uint [simp]: "read_uint (enc_uint v @ bs) = Some (unat v, bs)"
  unfolding enc_uint_nat by (rule read_uint_nat) (use unsigned_less [of v, where ?'a = nat] in simp)

text \<open>A length below 2 to the k in the low k bits of the first byte.\<close>

lemma low_bits:
  "n \<le> 15 \<Longrightarrow> and (or 0x90 (of_nat n)) 0xf0 = (0x90 :: 8 word) \<and> unat (and (or 0x90 (of_nat n)) 0x0f :: 8 word) = n"
  "n \<le> 31 \<Longrightarrow> and (or 0xa0 (of_nat n)) 0xe0 = (0xa0 :: 8 word) \<and> unat (and (or 0xa0 (of_nat n)) 0x1f :: 8 word) = n"
proof -
  have "\<forall>n \<in> {..<16}. and (or 0x90 (of_nat n)) 0xf0 = (0x90 :: 8 word) \<and> unat (and (or 0x90 (of_nat n)) 0x0f :: 8 word) = n"
    by code_simp
  then show "n \<le> 15 \<Longrightarrow> and (or 0x90 (of_nat n)) 0xf0 = (0x90 :: 8 word) \<and> unat (and (or 0x90 (of_nat n)) 0x0f :: 8 word) = n"
    by auto
  have "\<forall>n \<in> {..<32}. and (or 0xa0 (of_nat n)) 0xe0 = (0xa0 :: 8 word) \<and> unat (and (or 0xa0 (of_nat n)) 0x1f :: 8 word) = n"
    by code_simp
  then show "n \<le> 31 \<Longrightarrow> and (or 0xa0 (of_nat n)) 0xe0 = (0xa0 :: 8 word) \<and> unat (and (or 0xa0 (of_nat n)) 0x1f :: 8 word) = n"
    by auto
qed

lemma read_array_header [simp]:
  assumes "n < 4294967296"
  shows "read_array_header (enc_header n @ bs) = Some (n, bs)"
  using assms low_bits(1) [of n] by (auto simp: enc_header_def appendArrayHeader_def)

lemma read_string [simp]:
  assumes "enc_string s = Some e"
  shows "read_string (e @ bs) = Some (s, bs)"
  using assms low_bits(2) [of "length s"]
  by (auto simp: enc_string_def appendMessagePackString_def Let_def split_string_def split: if_splits)

lemma read_bool [simp]: "read_bool (enc_bool v @ bs) = Some (v, bs)"
  by (simp add: enc_bool_def appendMessagePackBool_def)

subsection \<open>File references\<close>

record file_reference =
  reference_Pos :: "32 word"
  reference_End :: "32 word"
  reference_FileName :: bytes
  reference_ResolutionMode :: "32 word"
  reference_Preserve :: bool

definition noStructuredData :: "32 word" where "noStructuredData = 4294967295"

definition appendFileReference :: "file_reference \<Rightarrow> bytes \<Rightarrow> bytes option" where
  "appendFileReference r data =
     (let data = appendArrayHeader data 5;
          data = appendMessagePackUint data (reference_Pos r);
          data = appendMessagePackUint data (reference_End r)
      in case appendMessagePackString data (reference_FileName r) of
           None \<Rightarrow> None
         | Some data \<Rightarrow>
             Some (appendMessagePackBool (appendMessagePackUint data (reference_ResolutionMode r)) (reference_Preserve r)))"

fun appendEachReference :: "file_reference list \<Rightarrow> bytes \<Rightarrow> bytes option" where
  "appendEachReference [] data = Some data"
| "appendEachReference (r # rs) data =
     (case appendFileReference r data of None \<Rightarrow> None | Some data \<Rightarrow> appendEachReference rs data)"

definition read_reference :: "bytes \<Rightarrow> (file_reference \<times> bytes) option" where
  "read_reference bs =
     (case read_array_header bs of None \<Rightarrow> None | Some (n, bs) \<Rightarrow>
      case read_uint bs of None \<Rightarrow> None | Some (p, bs) \<Rightarrow>
      case read_uint bs of None \<Rightarrow> None | Some (e, bs) \<Rightarrow>
      case read_string bs of None \<Rightarrow> None | Some (f, bs) \<Rightarrow>
      case read_uint bs of None \<Rightarrow> None | Some (m, bs) \<Rightarrow>
      case read_bool bs of None \<Rightarrow> None | Some (v, bs) \<Rightarrow>
        if n = 5 then Some (\<lparr>reference_Pos = of_nat p, reference_End = of_nat e, reference_FileName = f,
          reference_ResolutionMode = of_nat m, reference_Preserve = v\<rparr>, bs) else None)"

fun read_each :: "nat \<Rightarrow> bytes \<Rightarrow> (file_reference list \<times> bytes) option" where
  "read_each 0 bs = Some ([], bs)"
| "read_each (Suc n) bs =
     (case read_reference bs of None \<Rightarrow> None | Some (r, bs) \<Rightarrow>
      case read_each n bs of None \<Rightarrow> None | Some (rs, bs) \<Rightarrow> Some (r # rs, bs))"

definition read_references :: "bytes \<Rightarrow> (file_reference list \<times> bytes) option" where
  "read_references bs = (case read_array_header bs of None \<Rightarrow> None | Some (n, bs) \<Rightarrow> read_each n bs)"

definition enc_reference :: "file_reference \<Rightarrow> bytes option" where
  "enc_reference r =
     map_option (\<lambda>f. enc_header 5 @ enc_uint (reference_Pos r) @ enc_uint (reference_End r) @ f @
       enc_uint (reference_ResolutionMode r) @ enc_bool (reference_Preserve r)) (enc_string (reference_FileName r))"

lemma reference_append: "appendFileReference r data = map_option ((@) data) (enc_reference r)"
  by (cases "enc_string (reference_FileName r)")
    (simp_all add: appendFileReference_def enc_reference_def message_pack_append)

lemma read_reference [simp]: "enc_reference r = Some e \<Longrightarrow> read_reference (e @ bs) = Some (r, bs)"
  by (auto simp: enc_reference_def read_reference_def)

fun enc_each :: "file_reference list \<Rightarrow> bytes option" where
  "enc_each [] = Some []"
| "enc_each (r # rs) =
     (case enc_reference r of None \<Rightarrow> None | Some e \<Rightarrow> map_option ((@) e) (enc_each rs))"

lemma each_append: "appendEachReference rs data = map_option ((@) data) (enc_each rs)"
proof (induction rs arbitrary: data)
  case (Cons r rs)
  show ?case
    by (cases "enc_reference r"; cases "enc_each rs") (simp_all add: reference_append Cons.IH)
qed simp

lemma read_each [simp]: "enc_each rs = Some e \<Longrightarrow> read_each (length rs) (e @ bs) = Some (rs, bs)"
  by (induction rs arbitrary: e) (auto split: option.splits)

end
