(* ===== verification/Encoder.thy ===== *)
theory Encoder
  imports Wire
begin

text \<open>
  The encoder of syntax trees for the TS-Go process (\<open>internal/target/tsgo/encoder.go\<close>, with the node
  descriptions of \<open>node.go\<close>).

  A node is an object on the heap that other nodes point to; the heap is a list of nodes, a pointer is
  an index or \<open>None\<close> for nil, and a pointer that is in no heap is treated as nil.  What the generated
  code of a node kind says about its fields is data of the node (\<open>node_encoding\<close>).  The set of nodes
  on the current path, which the code keeps in the state and restores on return, is an argument.
\<close>

datatype encode_error = EncodeError "32 word" string string | EncodePanic string

definition SyntaxKindSourceFile :: "32 word" where "SyntaxKindSourceFile = 307"

definition nodeDataChildren :: "8 word" where "nodeDataChildren = 0"
definition nodeDataString :: "8 word" where "nodeDataString = 1"
definition nodeDataExtended :: "8 word" where "nodeDataExtended = 2"

definition extendedLiteral :: "8 word" where "extendedLiteral = 1"
definition extendedTemplate :: "8 word" where "extendedTemplate = 2"
definition extendedSourceFile :: "8 word" where "extendedSourceFile = 3"
definition extendedUnsupported :: "8 word" where "extendedUnsupported = 4"

lemmas node_data_defs = nodeDataChildren_def nodeDataString_def nodeDataExtended_def
lemmas extended_defs = extendedLiteral_def extendedTemplate_def extendedSourceFile_def extendedUnsupported_def

type_synonym node_ref = "nat option"

record child_encoding =
  child_name :: string
  child_present :: bool
  child_required :: bool
  child_raw :: bool
  child_node :: node_ref
  child_nodes :: "node_ref list option"

record source_file_data =
  source_Text :: bytes
  source_FileName :: bytes
  source_Path :: bytes
  source_LanguageVariant :: "32 word"
  source_ScriptKind :: "32 word"
  source_ReferencedFiles :: "file_reference list"
  source_TypeReferenceDirectives :: "file_reference list"
  source_LibReferenceDirectives :: "file_reference list"

record node_encoding =
  encoding_dataType :: "8 word"
  encoding_commonData :: "32 word"
  encoding_children :: "child_encoding list"
  encoding_text :: bytes
  encoding_extended :: "8 word"
  encoding_tokenFlags :: "32 word"
  encoding_rawText :: bytes
  encoding_sourceFile :: source_file_data

text \<open>The position and end of a node are signed; \<open>node_official\<close> is the encoding of an opaque official file.\<close>

record ast_node =
  node_Kind :: "32 word"
  node_Pos :: "32 word"
  node_End :: "32 word"
  node_Flags :: "32 word"
  node_official :: "bytes option"
  node_targetEncoding :: node_encoding

type_synonym ast_heap = "ast_node list"

definition node_at :: "ast_heap \<Rightarrow> node_ref \<Rightarrow> ast_node option" where
  "node_at heap r = (case r of None \<Rightarrow> None | Some a \<Rightarrow> if a < length heap then Some (heap ! a) else None)"

definition list_of :: "'a list option \<Rightarrow> 'a list" where
  "list_of xs = (case xs of None \<Rightarrow> [] | Some xs \<Rightarrow> xs)"

subsection \<open>The encoder state\<close>

record string_table =
  table_offsets :: "32 word list"
  table_data :: bytes

definition newStringTable :: string_table where
  "newStringTable = \<lparr>table_offsets = [], table_data = []\<rparr>"

definition table_add :: "bytes \<Rightarrow> string_table \<Rightarrow> encode_error + 32 word \<times> string_table" where
  "table_add value' t =
     (if length (table_offsets t) > 4294967293 then Inl (EncodeError 0 [] ''too many protocol strings'')
      else if int (length (table_data t)) > 4294967295 - int (length value') then
        Inl (EncodeError 0 [] ''protocol string table exceeds uint32 size'')
      else
        let index = of_nat (length (table_offsets t));
            start = of_nat (length (table_data t));
            data = table_data t @ value'
        in Inr (index, \<lparr>table_offsets = table_offsets t @ [start, of_nat (length data)], table_data = data\<rparr>))"

definition table_encode :: "string_table \<Rightarrow> bytes \<times> bytes" where
  "table_encode t = (appendUint32s [] (table_offsets t), table_data t)"

record encoder_state =
  enc_strings :: string_table
  enc_extendedData :: bytes
  enc_structuredData :: bytes
  enc_nodeValues :: "32 word list"
  enc_nodeCount :: "32 word"
  enc_parentIndex :: "32 word"
  enc_previousIndex :: "32 word"

definition encoder_new :: encoder_state where
  "encoder_new = \<lparr>enc_strings = newStringTable, enc_extendedData = [], enc_structuredData = [],
     enc_nodeValues = replicate (nodeLen div 4) 0, enc_nodeCount = 0, enc_parentIndex = 0, enc_previousIndex = 0\<rparr>"

definition encodedPosition :: "32 word \<Rightarrow> 32 word" where
  "encodedPosition v = (if sint v < 0 then 0 else v)"

definition childMask :: "child_encoding list \<Rightarrow> 32 word" where
  "childMask children =
     fold (\<lambda>(index, child) result. if child_present child then or result (push_bit index 1) else result)
       (enumerate 0 children) 0"

definition appendNodeRow :: "ast_node \<Rightarrow> 32 word \<Rightarrow> 32 word \<Rightarrow> encoder_state \<Rightarrow> encoder_state" where
  "appendNodeRow node parent data s =
     s\<lparr>enc_nodeValues := enc_nodeValues s @
         [node_Kind node, encodedPosition (node_Pos node), encodedPosition (node_End node), 0, parent, data,
          node_Flags node]\<rparr>"

definition linkPrevious :: "32 word \<Rightarrow> encoder_state \<Rightarrow> encoder_state" where
  "linkPrevious current s =
     (if enc_previousIndex s = 0 then s
      else s\<lparr>enc_nodeValues :=
        (enc_nodeValues s)[unat (enc_previousIndex s) * (nodeLen div 4) + 3 := current]\<rparr>)"

definition appendFileReferences :: "bytes \<Rightarrow> file_reference list \<Rightarrow> encode_error + bytes \<times> 32 word" where
  "appendFileReferences data references =
     (if length references = 0 then Inr (data, noStructuredData)
      else if length data > 4294967295 then Inl (EncodeError 0 [] ''structured data exceeds uint32 size'')
      else
        (case appendEachReference references (appendArrayHeader data (length references)) of
           None \<Rightarrow> Inl (EncodePanic ''message-pack string exceeds uint32 size'')
         | Some result \<Rightarrow> Inr (result, of_nat (length data))))"

definition path_valid :: "bytes \<Rightarrow> bool" where
  "path_valid path \<longleftrightarrow> path \<noteq> []"

definition add_string :: "bytes \<Rightarrow> encoder_state \<Rightarrow> encode_error + 32 word \<times> encoder_state" where
  "add_string text s =
     (case table_add text (enc_strings s) of
        Inl e \<Rightarrow> Inl e | Inr (index, t) \<Rightarrow> Inr (index, s\<lparr>enc_strings := t\<rparr>))"

definition add_references :: "file_reference list \<Rightarrow> encoder_state \<Rightarrow> encode_error + 32 word \<times> encoder_state" where
  "add_references references s =
     (case appendFileReferences (enc_structuredData s) references of
        Inl e \<Rightarrow> Inl e | Inr (data, offset) \<Rightarrow> Inr (offset, s\<lparr>enc_structuredData := data\<rparr>))"

definition appendSourceFile :: "source_file_data \<Rightarrow> encoder_state \<Rightarrow> encode_error + encoder_state" where
  "appendSourceFile source s =
     (if \<not> path_valid (source_FileName source) then
        Inl (EncodeError SyntaxKindSourceFile ''FileName'' ''normalized absolute path is absent'')
      else if \<not> path_valid (source_Path source) then
        Inl (EncodeError SyntaxKindSourceFile ''Path'' ''normalized absolute path is absent'')
      else case add_string (source_Text source) s of Inl e \<Rightarrow> Inl e | Inr (textIndex, s) \<Rightarrow>
      case add_string (source_FileName source) s of Inl e \<Rightarrow> Inl e | Inr (fileNameIndex, s) \<Rightarrow>
      case add_string (source_Path source) s of Inl e \<Rightarrow> Inl e | Inr (pathIndex, s) \<Rightarrow>
      case add_references (source_ReferencedFiles source) s of Inl e \<Rightarrow> Inl e | Inr (references, s) \<Rightarrow>
      case add_references (source_TypeReferenceDirectives source) s of Inl e \<Rightarrow> Inl e | Inr (typeReferences, s) \<Rightarrow>
      case add_references (source_LibReferenceDirectives source) s of Inl e \<Rightarrow> Inl e | Inr (libReferences, s) \<Rightarrow>
        Inr (s\<lparr>enc_extendedData := appendUint32s (enc_extendedData s)
          [textIndex, fileNameIndex, pathIndex, source_LanguageVariant source, source_ScriptKind source,
           references, typeReferences, libReferences, noStructuredData, noStructuredData, noStructuredData, 0]\<rparr>))"

definition appendExtended :: "ast_node \<Rightarrow> node_encoding \<Rightarrow> encoder_state \<Rightarrow> encode_error + encoder_state" where
  "appendExtended node encoding s =
     (if encoding_extended encoding = extendedLiteral then
        (case add_string (encoding_text encoding) s of Inl e \<Rightarrow> Inl e | Inr (textIndex, s) \<Rightarrow>
           Inr (s\<lparr>enc_extendedData := appendUint32s (enc_extendedData s) [textIndex, encoding_tokenFlags encoding]\<rparr>))
      else if encoding_extended encoding = extendedTemplate then
        (case add_string (encoding_text encoding) s of Inl e \<Rightarrow> Inl e | Inr (textIndex, s) \<Rightarrow>
         case add_string (encoding_rawText encoding) s of Inl e \<Rightarrow> Inl e | Inr (rawTextIndex, s) \<Rightarrow>
           Inr (s\<lparr>enc_extendedData := appendUint32s (enc_extendedData s)
             [textIndex, rawTextIndex, encoding_tokenFlags encoding]\<rparr>))
      else if encoding_extended encoding = extendedSourceFile then appendSourceFile (encoding_sourceFile encoding) s
      else if encoding_extended encoding = extendedUnsupported then
        Inl (EncodeError (node_Kind node) [] ''node is not encodable by TS-Go'')
      else Inl (EncodeError (node_Kind node) [] ''missing extended-data owner''))"

definition nodeData :: "ast_node \<Rightarrow> encoder_state \<Rightarrow> encode_error + 32 word \<times> encoder_state" where
  "nodeData node s =
     (let encoding = node_targetEncoding node in
      if node_official node \<noteq> None then
        Inl (EncodePanic ''official source file must use its official TS-Go encoding'')
      else if encoding_dataType encoding = nodeDataChildren then
        Inr (or nodeDataTypeChildren (or (encoding_commonData encoding) (childMask (encoding_children encoding))), s)
      else if encoding_dataType encoding = nodeDataString then
        (case add_string (encoding_text encoding) s of Inl e \<Rightarrow> Inl e | Inr (index, s) \<Rightarrow>
           if index > nodeStringIndexMask then
             Inl (EncodeError (node_Kind node) [] ''string index exceeds protocol width'')
           else Inr (or nodeDataTypeString (or (encoding_commonData encoding) index), s))
      else if encoding_dataType encoding = nodeDataExtended then
        (let offset = of_nat (length (enc_extendedData s)) in
         if offset > nodeExtendedDataMask then
           Inl (EncodeError (node_Kind node) [] ''extended-data offset exceeds protocol width'')
         else case appendExtended node encoding s of Inl e \<Rightarrow> Inl e | Inr s \<Rightarrow>
           Inr (or nodeDataTypeExtended (or (encoding_commonData encoding) offset), s))
      else Inl (EncodeError (node_Kind node) [] ''unknown node data type''))"

subsection \<open>Visiting\<close>

definition enterNode :: "encoder_state \<Rightarrow> encoder_state" where
  "enterNode s =
     (let s = s\<lparr>enc_nodeCount := enc_nodeCount s + 1\<rparr> in linkPrevious (enc_nodeCount s) s)"

text \<open>
  \<open>visitNodes\<close> is the loop over a slice of nodes, \<open>visitEach\<close> the loop of \<open>visitChildren\<close> over the
  children of a node of the given kind.
\<close>

function (sequential) visitNode ::
    "ast_heap \<Rightarrow> nat list \<Rightarrow> node_ref \<Rightarrow> encoder_state \<Rightarrow> encode_error + encoder_state"
  and visitNodes ::
    "ast_heap \<Rightarrow> nat list \<Rightarrow> node_ref list \<Rightarrow> encoder_state \<Rightarrow> encode_error + encoder_state"
  and visitNodeList ::
    "ast_heap \<Rightarrow> nat list \<Rightarrow> node_ref list \<Rightarrow> encoder_state \<Rightarrow> encode_error + encoder_state"
  and visitEach ::
    "ast_heap \<Rightarrow> nat list \<Rightarrow> 32 word \<Rightarrow> child_encoding list \<Rightarrow> encoder_state \<Rightarrow> encode_error + encoder_state" where
  "visitNode heap active r s =
     (case (r, node_at heap r) of
        (Some a, Some node) \<Rightarrow>
          if a \<in> set active then Inl (EncodeError (node_Kind node) [] ''cycle in target AST'')
          else
            let s = enterNode s; current = enc_nodeCount s in
            (case nodeData node s of Inl e \<Rightarrow> Inl e | Inr (data, s) \<Rightarrow>
               let s = appendNodeRow node (enc_parentIndex s) data s;
                   savedParent = enc_parentIndex s
               in case visitEach heap (a # active) (node_Kind node) (encoding_children (node_targetEncoding node))
                    (s\<lparr>enc_parentIndex := current, enc_previousIndex := 0\<rparr>) of
                    Inl e \<Rightarrow> Inl e
                  | Inr s \<Rightarrow> Inr (s\<lparr>enc_previousIndex := current, enc_parentIndex := savedParent\<rparr>))
      | _ \<Rightarrow> Inl (EncodeError 0 [] ''present child is nil''))"
| "visitNodes heap active [] s = Inr s"
| "visitNodes heap active (r # rs) s =
     (case visitNode heap active r s of Inl e \<Rightarrow> Inl e | Inr s \<Rightarrow> visitNodes heap active rs s)"
| "visitNodeList heap active rs s =
     (let s = enterNode s; current = enc_nodeCount s;
          s = s\<lparr>enc_nodeValues := enc_nodeValues s @
            [kindNodeList, 0, 0, 0, enc_parentIndex s, of_nat (length rs), 0]\<rparr>;
          savedParent = enc_parentIndex s
      in case visitNodes heap active rs (s\<lparr>enc_parentIndex := current, enc_previousIndex := 0\<rparr>) of
           Inl e \<Rightarrow> Inl e
         | Inr s \<Rightarrow> Inr (s\<lparr>enc_previousIndex := current, enc_parentIndex := savedParent\<rparr>))"
| "visitEach heap active kind [] s = Inr s"
| "visitEach heap active kind (child # children) s =
     (if \<not> child_present child then
        if child_required child then Inl (EncodeError kind (child_name child) ''required child is absent'')
        else visitEach heap active kind children s
      else
        (case (if child_raw child then visitNodes heap active (list_of (child_nodes child)) s
               else if child_nodes child \<noteq> None \<or> child_node child = None
                 then visitNodeList heap active (list_of (child_nodes child)) s
               else visitNode heap active (child_node child) s) of
           Inl e \<Rightarrow> Inl e | Inr s \<Rightarrow> visitEach heap active kind children s))"
  by pat_completeness auto

definition free_nodes :: "ast_heap \<Rightarrow> nat list \<Rightarrow> nat" where
  "free_nodes heap active = card ({..<length heap} - set active)"

lemma free_nodes_enter:
  "node_at heap (Some a) = Some node \<Longrightarrow> a \<notin> set active \<Longrightarrow> free_nodes heap (a # active) < free_nodes heap active"
  unfolding free_nodes_def by (intro psubset_card_mono) (auto simp: node_at_def split: if_splits)

definition child_weight :: "child_encoding \<Rightarrow> nat" where
  "child_weight c = 4 + length (list_of (child_nodes c))"

text \<open>
  A visit enters a node only if it is not on the path, so the nodes of the heap that are not on the
  path bound its depth: encoding ends on every heap, cyclic ones included.
\<close>

termination visitNode
  by (relation "measures
      [\<lambda>x. case x of
         Inl (Inl (heap, active, _)) \<Rightarrow> free_nodes heap active
       | Inl (Inr (heap, active, _)) \<Rightarrow> free_nodes heap active
       | Inr (Inl (heap, active, _)) \<Rightarrow> free_nodes heap active
       | Inr (Inr (heap, active, _)) \<Rightarrow> free_nodes heap active,
       \<lambda>x. case x of
         Inl (Inl _) \<Rightarrow> 0
       | Inl (Inr (_, _, rs, _)) \<Rightarrow> 1 + length rs
       | Inr (Inl (_, _, rs, _)) \<Rightarrow> 2 + length rs
       | Inr (Inr (_, _, _, cs, _)) \<Rightarrow> 1 + sum_list (map child_weight cs)]")
    (auto simp: child_weight_def intro: free_nodes_enter [OF sym] split: option.splits)

declare visitNode.simps [simp del] visitNodeList.simps [simp del]

definition visitChildren ::
    "ast_heap \<Rightarrow> nat list \<Rightarrow> ast_node \<Rightarrow> encoder_state \<Rightarrow> encode_error + encoder_state" where
  "visitChildren heap active node s =
     visitEach heap active (node_Kind node) (encoding_children (node_targetEncoding node)) s"

definition appendRoot :: "ast_heap \<Rightarrow> ast_node \<Rightarrow> encoder_state \<Rightarrow> encode_error + encoder_state" where
  "appendRoot heap root s =
     (case nodeData root (s\<lparr>enc_nodeCount := 1\<rparr>) of Inl e \<Rightarrow> Inl e | Inr (data, s) \<Rightarrow>
        visitChildren heap [] root
          ((appendNodeRow root 0 data s)\<lparr>enc_parentIndex := 1, enc_previousIndex := 0\<rparr>))"

subsection \<open>The encoded file\<close>

definition finish :: "encoder_state \<Rightarrow> encode_error + bytes" where
  "finish s =
     (let (stringOffsets, stringData) = table_encode (enc_strings s);
          nodes = appendUint32s [] (enc_nodeValues s);
          offsetStringOffsets = headerSize;
          offsetStringData = offsetStringOffsets + length stringOffsets;
          offsetExtendedData = offsetStringData + length stringData;
          offsetStructuredData = offsetExtendedData + length (enc_extendedData s);
          offsetNodes = offsetStructuredData + length (enc_structuredData s)
      in if int offsetNodes > 4294967295 - int (length nodes) then
           Inl (EncodeError 0 [] ''encoded node exceeds uint32 protocol size'')
         else
           let header = replicate headerSize 0;
               header = put32 headerOffsetMetadata (push_bit 24 protocolVersion) header;
               header = put32 headerOffsetStringTableOffsets (of_nat offsetStringOffsets) header;
               header = put32 headerOffsetStringTable (of_nat offsetStringData) header;
               header = put32 headerOffsetExtendedData (of_nat offsetExtendedData) header;
               header = put32 headerOffsetStructuredData (of_nat offsetStructuredData) header;
               header = put32 headerOffsetNodes (of_nat offsetNodes) header
           in Inr (header @ stringOffsets @ stringData @ enc_extendedData s @ enc_structuredData s @ nodes))"

definition EncodeNode :: "ast_heap \<Rightarrow> node_ref \<Rightarrow> encode_error + bytes" where
  "EncodeNode heap root =
     (case node_at heap root of
        None \<Rightarrow> Inl (EncodeError 0 [] ''root is nil'')
      | Some node \<Rightarrow>
          (case node_official node of
             Some wire \<Rightarrow> Inr wire
           | None \<Rightarrow>
               (case appendRoot heap node encoder_new of Inl e \<Rightarrow> Inl e | Inr s \<Rightarrow> finish s)))"

definition EncodeSourceFile :: "ast_heap \<Rightarrow> node_ref \<Rightarrow> encode_error + bytes" where
  "EncodeSourceFile heap sourceFile = EncodeNode heap sourceFile"

text \<open>The loop over the node table of an encoded file, from the given offset.\<close>

function countSyntaxNodes :: "bytes \<Rightarrow> nat \<Rightarrow> nat" where
  "countSyntaxNodes encoded offset =
     (if offset < length encoded then
        (if get32 encoded (offset + nodeOffsetKind) \<noteq> kindNodeList then 1 else 0) +
          countSyntaxNodes encoded (offset + nodeLen)
      else 0)"
  by pat_completeness auto
termination by (relation "measure (\<lambda>(encoded, offset). length encoded - offset)") (auto simp: nodeLen_def)

declare countSyntaxNodes.simps [simp del]

definition EncodedSyntaxNodeCount :: "ast_heap \<Rightarrow> node_ref \<Rightarrow> encode_error + nat" where
  "EncodedSyntaxNodeCount heap root =
     (case EncodeNode heap root of Inl e \<Rightarrow> Inl e | Inr encoded \<Rightarrow>
        if length encoded < headerSize then Inl (EncodeError 0 [] ''encoded node header is truncated'')
        else
          let nodesOffset = unat (get32 encoded headerOffsetNodes) in
          if nodesOffset < headerSize \<or> length encoded < nodesOffset \<or>
             length encoded - nodesOffset < nodeLen \<or> (length encoded - nodesOffset) mod nodeLen \<noteq> 0 then
            Inl (EncodeError 0 [] ''encoded node table is invalid'')
          else Inr (countSyntaxNodes encoded (nodesOffset + nodeLen)))"

end
