(* ===== verification/NodeTable.thy ===== *)
theory NodeTable
  imports Encoder
begin

text \<open>
  The node table as the layout of a tree.  A row holds the kind, the range, the row of the next sibling
  or zero, the row of the parent, the data word and the flags of a node.  \<open>tree_rows\<close> lists the rows of
  a tree in preorder from a given row on; \<open>visit_layout\<close> shows that the encoder, which patches the
  sibling link of a row only when it meets the next sibling, produces exactly this table.
\<close>

record node_row =
  row_kind :: "32 word"
  row_pos :: "32 word"
  row_end :: "32 word"
  row_next :: "32 word"
  row_parent :: "32 word"
  row_data :: "32 word"
  row_flags :: "32 word"

definition row_words :: "node_row \<Rightarrow> 32 word list" where
  "row_words r = [row_kind r, row_pos r, row_end r, row_next r, row_parent r, row_data r, row_flags r]"

definition no_row :: node_row where
  "no_row = \<lparr>row_kind = 0, row_pos = 0, row_end = 0, row_next = 0, row_parent = 0, row_data = 0, row_flags = 0\<rparr>"

definition table_words :: "node_row list \<Rightarrow> 32 word list" where
  "table_words rows = concat (map row_words rows)"

record wire_head =
  head_kind :: "32 word"
  head_pos :: "32 word"
  head_end :: "32 word"
  head_data :: "32 word"
  head_flags :: "32 word"

datatype wire_tree = WireTree wire_head "wire_tree list"

definition head_row :: "nat \<Rightarrow> nat \<Rightarrow> wire_head \<Rightarrow> node_row" where
  "head_row parent next' h =
     \<lparr>row_kind = head_kind h, row_pos = head_pos h, row_end = head_end h, row_next = of_nat next',
      row_parent = of_nat parent, row_data = head_data h, row_flags = head_flags h\<rparr>"

fun tree_size :: "wire_tree \<Rightarrow> nat"
  and forest_size :: "wire_tree list \<Rightarrow> nat" where
  "tree_size (WireTree h ts) = 1 + forest_size ts"
| "forest_size [] = 0"
| "forest_size (t # ts) = tree_size t + forest_size ts"

fun tree_rows :: "nat \<Rightarrow> nat \<Rightarrow> nat \<Rightarrow> wire_tree \<Rightarrow> node_row list"
  and forest_rows :: "nat \<Rightarrow> nat \<Rightarrow> nat \<Rightarrow> wire_tree list \<Rightarrow> node_row list" where
  "tree_rows parent index next' (WireTree h ts) =
     head_row parent next' h # forest_rows index (index + 1) 0 ts"
| "forest_rows parent index next' [] = []"
| "forest_rows parent index next' (t # ts) =
     tree_rows parent index (if ts = [] then next' else index + tree_size t) t @
     forest_rows parent (index + tree_size t) next' ts"

text \<open>The row of the last tree of a forest.\<close>

fun last_row :: "nat \<Rightarrow> wire_tree list \<Rightarrow> nat" where
  "last_row index [] = 0"
| "last_row index (t # ts) = (if ts = [] then index else last_row (index + tree_size t) ts)"

definition link :: "nat \<Rightarrow> nat \<Rightarrow> node_row list \<Rightarrow> node_row list" where
  "link previous current rows =
     (if previous = 0 then rows else rows[previous := (rows ! previous)\<lparr>row_next := of_nat current\<rparr>])"

lemma length_row_words [simp]: "length (row_words r) = 7"
  by (simp add: row_words_def)

lemma length_table_words [simp]: "length (table_words rows) = 7 * length rows"
  unfolding table_words_def by (induction rows) simp_all

lemma table_words_append [simp]: "table_words (xs @ ys) = table_words xs @ table_words ys"
  by (simp add: table_words_def)

lemma table_words_Cons: "table_words (r # rows) = row_words r @ table_words rows"
  by (simp add: table_words_def)

lemma table_words_Nil [simp]: "table_words [] = []"
  by (simp add: table_words_def)

lemma table_words_next:
  "p < length rows \<Longrightarrow> (table_words rows)[p * 7 + 3 := c] = table_words (rows[p := (rows ! p)\<lparr>row_next := c\<rparr>])"
proof (induction rows arbitrary: p)
  case (Cons r rows)
  show ?case
  proof (cases p)
    case 0
    then show ?thesis by (simp add: table_words_Cons row_words_def)
  next
    case (Suc q)
    then show ?thesis using Cons.IH [of q] Cons.prems
      by (simp add: table_words_Cons list_update_append add.commute [of _ 3])
  qed
qed simp

lemma length_tree_rows [simp]:
  "length (tree_rows parent index next' t) = tree_size t"
  "length (forest_rows parent index next' ts) = forest_size ts"
  by (induction t and ts arbitrary: parent index next' and parent index next' rule: tree_size_forest_size.induct)
    simp_all

lemma tree_size_pos [simp]: "0 < tree_size t"
  by (cases t) simp

lemma forest_size_append [simp]: "forest_size (ts @ us) = forest_size ts + forest_size us"
  by (induction ts) simp_all

lemma length_link [simp]: "length (link p c rows) = length rows"
  by (simp add: link_def)

lemma link_zero [simp]: "link 0 c rows = rows"
  by (simp add: link_def)

lemma link_append: "p < length xs \<Longrightarrow> link p c (xs @ ys) = link p c xs @ ys"
  by (simp add: link_def list_update_append nth_append)

lemma last_row_range: "ts \<noteq> [] \<Longrightarrow> index \<le> last_row index ts \<and> last_row index ts < index + forest_size ts"
proof (induction ts arbitrary: index)
  case (Cons t ts)
  show ?case
  proof (cases "ts = []")
    case False
    from Cons.IH [OF this, of "index + tree_size t"] show ?thesis using False by simp
  qed simp
qed simp

lemma link_tree: "i = length xs \<Longrightarrow> 0 < i \<Longrightarrow> link i c (xs @ tree_rows p i n t @ ys) = xs @ tree_rows p i c t @ ys"
  by (cases t) (simp add: link_def head_row_def nth_append list_update_append)

text \<open>Linking the last tree of a forest is what changes when another tree follows.\<close>

lemma link_forest:
  "ts \<noteq> [] \<Longrightarrow> i = length xs \<Longrightarrow> 0 < i \<Longrightarrow>
     link (last_row i ts) c (xs @ forest_rows p i n ts) = xs @ forest_rows p i c ts"
proof (induction ts arbitrary: xs i)
  case (Cons t ts)
  show ?case
  proof (cases "ts = []")
    case True
    then show ?thesis using Cons.prems link_tree [of i xs c p n t "[]"] by simp
  next
    case False
    let ?xs = "xs @ tree_rows p i (i + tree_size t) t"
    have "link (last_row (i + tree_size t) ts) c (?xs @ forest_rows p (i + tree_size t) n ts) =
        ?xs @ forest_rows p (i + tree_size t) c ts"
      using Cons.prems False by (intro Cons.IH) simp_all
    then show ?thesis using False by simp
  qed
qed simp

lemma forest_rows_append:
  "us \<noteq> [] \<Longrightarrow> forest_rows p i n (ts @ us) =
     forest_rows p i (i + forest_size ts) ts @ forest_rows p (i + forest_size ts) n us"
  by (induction ts arbitrary: i) (auto simp: add.assoc)

lemma last_row_append: "us \<noteq> [] \<Longrightarrow> last_row i (ts @ us) = last_row (i + forest_size ts) us"
  by (induction ts arbitrary: i) (auto simp: add.assoc)

subsection \<open>What the encoder visits\<close>

datatype slot = SingleSlot node_ref | ListSlot "node_ref list"

definition child_slot :: "child_encoding \<Rightarrow> slot list" where
  "child_slot c =
     (if \<not> child_present c then []
      else if child_raw c then map SingleSlot (list_of (child_nodes c))
      else if child_nodes c \<noteq> None \<or> child_node c = None then [ListSlot (list_of (child_nodes c))]
      else [SingleSlot (child_node c)])"

definition child_slots :: "child_encoding list \<Rightarrow> slot list" where
  "child_slots cs = concat (map child_slot cs)"

definition head_of :: "ast_node \<Rightarrow> wire_head \<Rightarrow> bool" where
  "head_of n h \<longleftrightarrow> head_kind h = node_Kind n \<and> head_pos h = encodedPosition (node_Pos n) \<and>
     head_end h = encodedPosition (node_End n) \<and> head_flags h = node_Flags n"

definition list_head :: "nat \<Rightarrow> wire_head" where
  "list_head n = \<lparr>head_kind = kindNodeList, head_pos = 0, head_end = 0, head_data = of_nat n, head_flags = 0\<rparr>"

text \<open>The tree that unfolds the heap from a slot: present children in order, a slice as a list node.\<close>

fun mirrors :: "ast_heap \<Rightarrow> slot \<Rightarrow> wire_tree \<Rightarrow> bool"
  and mirrors_all :: "ast_heap \<Rightarrow> slot list \<Rightarrow> wire_tree list \<Rightarrow> bool" where
  "mirrors heap (SingleSlot r) (WireTree h ts) =
     (case node_at heap r of
        None \<Rightarrow> False
      | Some n \<Rightarrow> head_of n h \<and> mirrors_all heap (child_slots (encoding_children (node_targetEncoding n))) ts)"
| "mirrors heap (ListSlot rs) (WireTree h ts) =
     (h = list_head (length rs) \<and> mirrors_all heap (map SingleSlot rs) ts)"
| "mirrors_all heap [] [] = True"
| "mirrors_all heap (x # xs) (t # ts) = (mirrors heap x t \<and> mirrors_all heap xs ts)"
| "mirrors_all heap _ _ = False"

lemma mirrors_all_append:
  "mirrors_all heap xs ts \<Longrightarrow> mirrors_all heap ys us \<Longrightarrow> mirrors_all heap (xs @ ys) (ts @ us)"
proof (induction xs arbitrary: ts)
  case (Cons x xs)
  then show ?case by (cases ts) auto
qed (case_tac ts; simp)

lemma mirrors_all_Nil [simp]: "mirrors_all heap [] ts \<longleftrightarrow> ts = []"
  by (cases ts) simp_all

text \<open>A property of every node of the tree and its data word.\<close>

fun data_tree :: "ast_heap \<Rightarrow> (ast_node \<Rightarrow> 32 word \<Rightarrow> bool) \<Rightarrow> slot \<Rightarrow> wire_tree \<Rightarrow> bool"
  and data_trees :: "ast_heap \<Rightarrow> (ast_node \<Rightarrow> 32 word \<Rightarrow> bool) \<Rightarrow> slot list \<Rightarrow> wire_tree list \<Rightarrow> bool" where
  "data_tree heap P (SingleSlot r) (WireTree h ts) =
     (case node_at heap r of
        None \<Rightarrow> False
      | Some n \<Rightarrow> P n (head_data h) \<and> data_trees heap P (child_slots (encoding_children (node_targetEncoding n))) ts)"
| "data_tree heap P (ListSlot rs) (WireTree h ts) = data_trees heap P (map SingleSlot rs) ts"
| "data_trees heap P [] [] = True"
| "data_trees heap P (x # xs) (t # ts) = (data_tree heap P x t \<and> data_trees heap P xs ts)"
| "data_trees heap P _ _ = False"

lemma data_tree_mono:
  "data_tree heap P x t \<Longrightarrow> (\<And>n d. P n d \<Longrightarrow> Q n d) \<Longrightarrow> data_tree heap Q x t"
  "data_trees heap P xs ts \<Longrightarrow> (\<And>n d. P n d \<Longrightarrow> Q n d) \<Longrightarrow> data_trees heap Q xs ts"
  by (induction heap P x t and heap P xs ts rule: data_tree_data_trees.induct) (auto split: option.splits)

text \<open>The rows once a forest has been visited below \<open>parent\<close>, after the sibling \<open>p\<close>, and the last sibling.\<close>

definition place :: "nat \<Rightarrow> node_row list \<Rightarrow> nat \<Rightarrow> wire_tree list \<Rightarrow> node_row list" where
  "place p rows parent ts =
     (if ts = [] then rows else link p (length rows) rows @ forest_rows parent (length rows) 0 ts)"

definition place_last :: "nat \<Rightarrow> node_row list \<Rightarrow> wire_tree list \<Rightarrow> nat" where
  "place_last p rows ts = (if ts = [] then p else last_row (length rows) ts)"

lemma length_place [simp]: "length (place p rows parent ts) = length rows + forest_size ts"
  by (simp add: place_def)

lemma place_Nil [simp]: "place p rows parent [] = rows" "place_last p rows [] = p"
  by (simp_all add: place_def place_last_def)

lemma place_append:
  assumes "rows \<noteq> []"
  shows "place (place_last p rows ts) (place p rows parent ts) parent us = place p rows parent (ts @ us)"
    "place_last (place_last p rows ts) (place p rows parent ts) us = place_last p rows (ts @ us)"
proof -
  show "place (place_last p rows ts) (place p rows parent ts) parent us = place p rows parent (ts @ us)"
  proof (cases "ts = [] \<or> us = []")
    case False
    have "link (last_row (length rows) ts) (length rows + forest_size ts)
        (link p (length rows) rows @ forest_rows parent (length rows) 0 ts) =
        link p (length rows) rows @ forest_rows parent (length rows) (length rows + forest_size ts) ts"
      using False assms by (intro link_forest) simp_all
    then show ?thesis using False by (simp add: place_def place_last_def forest_rows_append)
  qed (auto simp: place_def place_last_def)
  show "place_last (place_last p rows ts) (place p rows parent ts) us = place_last p rows (ts @ us)"
    by (simp add: place_last_def last_row_append)
qed

lemma place_last_less: "p < length rows \<Longrightarrow> place_last p rows ts < length (place p rows parent ts)"
  using last_row_range [of ts "length rows"] by (simp add: place_last_def place_def)

subsection \<open>The encoder fills the table\<close>

definition at_rows :: "encoder_state \<Rightarrow> node_row list \<Rightarrow> nat \<Rightarrow> nat \<Rightarrow> bool" where
  "at_rows s rows p parent \<longleftrightarrow> enc_nodeValues s = table_words rows \<and> rows \<noteq> [] \<and>
     enc_nodeCount s = of_nat (length rows - 1) \<and> enc_previousIndex s = of_nat p \<and>
     enc_parentIndex s = of_nat parent \<and> p < length rows"

definition grown :: "encoder_state \<Rightarrow> encoder_state \<Rightarrow> bool" where
  "grown s t \<longleftrightarrow> (\<exists>a. table_offsets (enc_strings t) = table_offsets (enc_strings s) @ a) \<and>
     (\<exists>a. table_data (enc_strings t) = table_data (enc_strings s) @ a) \<and>
     (\<exists>a. enc_extendedData t = enc_extendedData s @ a) \<and> (\<exists>a. enc_structuredData t = enc_structuredData s @ a)"

lemma grown_refl [simp]: "grown s s"
  by (simp add: grown_def)

lemma grown_trans: "grown s t \<Longrightarrow> grown t u \<Longrightarrow> grown s u"
  unfolding grown_def by (metis append.assoc)

text \<open>What computing the data word of a node leaves alone.\<close>

definition data_frame :: "encoder_state \<Rightarrow> encoder_state \<Rightarrow> bool" where
  "data_frame s t \<longleftrightarrow> enc_nodeValues t = enc_nodeValues s \<and> enc_nodeCount t = enc_nodeCount s \<and>
     enc_parentIndex t = enc_parentIndex s \<and> enc_previousIndex t = enc_previousIndex s \<and> grown s t"

lemma data_frame_refl [simp]: "data_frame s s"
  by (simp add: data_frame_def)

lemma data_frame_trans: "data_frame s t \<Longrightarrow> data_frame t u \<Longrightarrow> data_frame s u"
  using grown_trans by (auto simp: data_frame_def)

lemma add_string_frame: "add_string text s = Inr (i, t) \<Longrightarrow> data_frame s t"
  by (auto simp: add_string_def table_add_def Let_def data_frame_def grown_def split: if_splits)

lemma add_references_frame: "add_references rs s = Inr (i, t) \<Longrightarrow> data_frame s t"
  by (auto simp: add_references_def appendFileReferences_def each_append header_append data_frame_def grown_def
      split: if_splits option.splits)

lemma extended_frame: "data_frame s (s\<lparr>enc_extendedData := appendUint32s (enc_extendedData s) ws\<rparr>)"
  by (simp add: data_frame_def grown_def appendUint32s_append)

lemma appendSourceFile_frame: "appendSourceFile f s = Inr t \<Longrightarrow> data_frame s t"
  unfolding appendSourceFile_def
  by (auto split: if_splits sum.splits prod.splits dest!: add_string_frame add_references_frame)
    (elim data_frame_trans, rule extended_frame)

lemma appendExtended_frame: "appendExtended n e s = Inr t \<Longrightarrow> data_frame s t"
  unfolding appendExtended_def
  by (auto split: if_splits sum.splits prod.splits dest!: add_string_frame appendSourceFile_frame
      intro: data_frame_trans extended_frame)

lemma nodeData_frame: "nodeData n s = Inr (d, t) \<Longrightarrow> data_frame s t"
  unfolding nodeData_def Let_def
  by (auto split: if_splits sum.splits prod.splits dest: add_string_frame appendExtended_frame)

lemma enterNode_values:
  "enc_nodeValues (enterNode s) = (if enc_previousIndex s = 0 then enc_nodeValues s
     else (enc_nodeValues s)[unat (enc_previousIndex s) * 7 + 3 := enc_nodeCount s + 1])"
  "enc_nodeCount (enterNode s) = enc_nodeCount s + 1" "enc_parentIndex (enterNode s) = enc_parentIndex s"
  "enc_strings (enterNode s) = enc_strings s" "enc_extendedData (enterNode s) = enc_extendedData s"
  "enc_structuredData (enterNode s) = enc_structuredData s"
  by (simp_all add: enterNode_def linkPrevious_def Let_def nodeLen_def)

text \<open>
  Successful visits as a relation between states: the recursion of the encoder without its error
  branches, over slots instead of child descriptions.
\<close>

definition descend :: "32 word \<Rightarrow> encoder_state \<Rightarrow> encoder_state" where
  "descend current s = s\<lparr>enc_parentIndex := current, enc_previousIndex := 0\<rparr>"

definition ascend :: "encoder_state \<Rightarrow> encoder_state \<Rightarrow> encoder_state" where
  "ascend s t = t\<lparr>enc_previousIndex := enc_nodeCount (enterNode s), enc_parentIndex := enc_parentIndex s\<rparr>"

definition appendListRow :: "nat \<Rightarrow> encoder_state \<Rightarrow> encoder_state" where
  "appendListRow n s = s\<lparr>enc_nodeValues := enc_nodeValues s @
     [kindNodeList, 0, 0, 0, enc_parentIndex s, of_nat n, 0]\<rparr>"

inductive visits :: "ast_heap \<Rightarrow> slot \<Rightarrow> encoder_state \<Rightarrow> encoder_state \<Rightarrow> bool"
  and visits_all :: "ast_heap \<Rightarrow> slot list \<Rightarrow> encoder_state \<Rightarrow> encoder_state \<Rightarrow> bool"
  for heap :: ast_heap where
  single: "node_at heap r = Some node \<Longrightarrow> nodeData node (enterNode s) = Inr (d, u) \<Longrightarrow>
    visits_all heap (child_slots (encoding_children (node_targetEncoding node)))
      (descend (enc_nodeCount (enterNode s)) (appendNodeRow node (enc_parentIndex s) d u)) t \<Longrightarrow>
    visits heap (SingleSlot r) s (ascend s t)"
| list: "visits_all heap (map SingleSlot rs)
      (descend (enc_nodeCount (enterNode s)) (appendListRow (length rs) (enterNode s))) t \<Longrightarrow>
    visits heap (ListSlot rs) s (ascend s t)"
| finished: "visits_all heap [] s s"
| more: "visits heap x s t \<Longrightarrow> visits_all heap xs t u \<Longrightarrow> visits_all heap (x # xs) s u"

lemma visits_all_append:
  "visits_all heap xs s t \<Longrightarrow> visits_all heap ys t u \<Longrightarrow> visits_all heap (xs @ ys) s u"
proof (induction xs arbitrary: s)
  case Nil
  then show ?case by (auto elim: visits_all.cases)
next
  case (Cons x xs)
  from Cons.prems(1) obtain v where "visits heap x s v" "visits_all heap xs v t" by (auto elim: visits_all.cases)
  then show ?case using Cons.IH Cons.prems(2) by (auto intro: visits_visits_all.more)
qed

lemma visits_one: "visits heap x s t \<Longrightarrow> visits_all heap [x] s t"
  by (blast intro: visits_visits_all.more visits_visits_all.finished)

lemma visit_visits:
  "visitNode heap active r s = Inr t \<Longrightarrow> visits heap (SingleSlot r) s t"
  "visitNodes heap active rs s = Inr t \<Longrightarrow> visits_all heap (map SingleSlot rs) s t"
  "visitNodeList heap active rs s = Inr t \<Longrightarrow> visits heap (ListSlot rs) s t"
  "visitEach heap active k cs s = Inr t \<Longrightarrow> visits_all heap (child_slots cs) s t"
proof (induction heap active r s and heap active rs s and heap active rs s and heap active k cs s
    arbitrary: t and t and t and t rule: visitNode_visitNodes_visitNodeList_visitEach.induct)
  case (1 heap active r s)
  obtain a node d u v where v: "(Some a, Some node) = (r, node_at heap r)" "a \<notin> set active"
      "nodeData node (enterNode s) = Inr (d, u)"
      "visitEach heap (a # active) (node_Kind node) (encoding_children (node_targetEncoding node))
        ((appendNodeRow node (enc_parentIndex u) d u)\<lparr>enc_parentIndex := enc_nodeCount (enterNode s),
          enc_previousIndex := 0\<rparr>) = Inr v"
      "t = v\<lparr>enc_previousIndex := enc_nodeCount (enterNode s), enc_parentIndex := enc_parentIndex (appendNodeRow node (enc_parentIndex u) d u)\<rparr>"
    using 1(2) by (subst (asm) visitNode.simps) (auto simp: Let_def split: option.splits if_splits sum.splits prod.splits)
  have p: "enc_parentIndex u = enc_parentIndex s"
    using nodeData_frame [OF v(3)] by (simp add: data_frame_def enterNode_values)
  from 1(1) [OF v(1) refl refl v(2) refl refl v(3) refl refl refl v(4)] v(3)
  have "visits heap (SingleSlot r) s (ascend s v)"
    using v(1) by (intro visits_visits_all.single) (auto simp: descend_def p)
  then show ?case using v(5) p by (simp add: ascend_def appendNodeRow_def)
next
  case (3 heap active r rs s)
  then show ?case by (auto split: sum.splits intro: visits_visits_all.more)
next
  case (4 heap active rs s)
  obtain v where v: "visitNodes heap active rs ((appendListRow (length rs) (enterNode s))\<lparr>enc_parentIndex := enc_nodeCount (enterNode s),
      enc_previousIndex := 0\<rparr>) = Inr v"
    "t = v\<lparr>enc_previousIndex := enc_nodeCount (enterNode s), enc_parentIndex := enc_parentIndex s\<rparr>"
    using 4(2) by (subst (asm) visitNodeList.simps)
      (auto simp: Let_def appendListRow_def enterNode_values split: sum.splits)
  have "visits_all heap (map SingleSlot rs)
      (descend (enc_nodeCount (enterNode s)) (appendListRow (length rs) (enterNode s))) v"
    using 4(1) [OF refl refl refl refl, of v] v(1) by (simp add: descend_def appendListRow_def)
  moreover have "t = ascend s v" using v(2) by (simp add: ascend_def)
  ultimately show ?case by (auto intro: visits_visits_all.list)
next
  case (6 heap active k c cs s)
  show ?case
  proof (cases "child_present c")
    case False
    then show ?thesis using 6 by (auto simp: child_slots_def child_slot_def split: if_splits)
  next
    case True
    from 6(6) obtain u where u: "(if child_raw c then visitNodes heap active (list_of (child_nodes c)) s
        else if child_nodes c \<noteq> None \<or> child_node c = None then visitNodeList heap active (list_of (child_nodes c)) s
        else visitNode heap active (child_node c) s) = Inr u" "visitEach heap active k cs u = Inr t"
      using True by (auto split: sum.splits)
    have "visits_all heap (child_slot c) s u"
      using u(1) True 6(2-4) by (auto simp: child_slot_def intro: visits_one split: if_splits)
    moreover have "visits_all heap (child_slots cs) u t" using 6(5) u True by blast
    ultimately show ?thesis by (simp add: child_slots_def visits_all_append)
  qed
qed (auto simp: child_slots_def intro: visits_visits_all.finished)

lemma enterNode_rows:
  assumes at: "at_rows s rows p parent" and small: "length rows < 2 ^ 32"
  shows "enc_nodeValues (enterNode s) = table_words (link p (length rows) rows)"
    "enc_nodeCount (enterNode s) = of_nat (length rows)"
    "enc_parentIndex (enterNode s) = of_nat parent" "grown s (enterNode s)"
proof -
  have p: "p < 2 ^ 32" "p < length rows" using at small by (auto simp: at_rows_def)
  then have up: "unat (of_nat p :: 32 word) = p" by (simp add: unat_of_nat take_bit_eq_mod)
  then have zero: "(of_nat p :: 32 word) = 0 \<longleftrightarrow> p = 0" by auto
  show count: "enc_nodeCount (enterNode s) = of_nat (length rows)"
    using at by (cases rows) (auto simp: enterNode_values at_rows_def)
  then have "enc_nodeCount s + 1 = of_nat (length rows)" by (simp add: enterNode_values)
  then show "enc_nodeValues (enterNode s) = table_words (link p (length rows) rows)"
    using at p up zero table_words_next [of p rows "of_nat (length rows)"]
    by (simp add: enterNode_values at_rows_def link_def)
  show "enc_parentIndex (enterNode s) = of_nat parent" using at by (simp add: enterNode_values at_rows_def)
  show "grown s (enterNode s)" by (simp add: grown_def enterNode_values)
qed

lemma length_enterNode [simp]: "length (enc_nodeValues (enterNode s)) = length (enc_nodeValues s)"
  by (simp add: enterNode_values)

lemma visits_grows:
  "visits heap x s t \<Longrightarrow> length (enc_nodeValues s) + 7 \<le> length (enc_nodeValues t)"
  "visits_all heap xs s t \<Longrightarrow> length (enc_nodeValues s) \<le> length (enc_nodeValues t)"
proof (induction rule: visits_visits_all.inducts)
  case (single r node s d u t)
  then show ?case using nodeData_frame [OF single(4)]
    by (simp add: data_frame_def descend_def ascend_def appendNodeRow_def)
qed (simp_all add: descend_def ascend_def appendListRow_def)

text \<open>Below a row that has just been appended.\<close>

lemma row_entered:
  assumes "at_rows s rows p parent" "length rows < 2 ^ 32"
    and "enc_nodeValues u = enc_nodeValues (enterNode s) @ row_words (head_row parent 0 h)"
    and "enc_nodeCount u = enc_nodeCount (enterNode s)"
  shows "at_rows (descend (enc_nodeCount (enterNode s)) u)
    (link p (length rows) rows @ [head_row parent 0 h]) 0 (length rows)"
  using enterNode_rows [OF assms(1,2)] assms(3,4)
  by (simp add: at_rows_def descend_def table_words_Cons)

lemma row_left:
  assumes "at_rows s rows p parent" "length rows < 2 ^ 32"
    and "at_rows t (link p (length rows) rows @ tree_rows parent (length rows) 0 tree) q (length rows)"
  shows "at_rows (ascend s t) (place p rows parent [tree]) (place_last p rows [tree]) parent"
  using enterNode_rows [OF assms(1,2)] assms
  by (simp add: at_rows_def ascend_def place_def place_last_def)

lemma place_below:
  "place 0 (rows @ [r]) i ts = rows @ r # forest_rows i (length rows + 1) 0 ts"
  by (simp add: place_def)

text \<open>A data word that was computed on the way to a state.\<close>

definition emitted :: "encoder_state \<Rightarrow> ast_node \<Rightarrow> 32 word \<Rightarrow> bool" where
  "emitted t n d \<longleftrightarrow> (\<exists>s s0. nodeData n s = Inr (d, s0) \<and> grown s0 t)"

lemma emitted_grown: "grown t u \<Longrightarrow> emitted t n d \<Longrightarrow> emitted u n d"
  using grown_trans by (fastforce simp: emitted_def)

lemma emitted_ascend [simp]: "emitted (ascend s t) = emitted t"
  by (intro ext) (simp add: emitted_def grown_def ascend_def)

lemma visits_layout:
  "visits heap x s t \<Longrightarrow> at_rows s rows p parent \<Longrightarrow> length (enc_nodeValues t) < 7 * 2 ^ 32 \<Longrightarrow>
     \<exists>tree. mirrors heap x tree \<and> data_tree heap (emitted t) x tree \<and> grown s t \<and> at_rows t (place p rows parent [tree]) (place_last p rows [tree]) parent"
  "visits_all heap xs s t \<Longrightarrow> at_rows s rows p parent \<Longrightarrow> length (enc_nodeValues t) < 7 * 2 ^ 32 \<Longrightarrow>
     \<exists>ts. mirrors_all heap xs ts \<and> data_trees heap (emitted t) xs ts \<and> grown s t \<and> at_rows t (place p rows parent ts) (place_last p rows ts) parent"
proof (induction arbitrary: rows p parent and rows p parent rule: visits_visits_all.inducts)
  case (single r node s d u t)
  have f: "data_frame (enterNode s) u" by (rule nodeData_frame [OF single(4)])
  have "7 * length rows + 7 \<le> length (enc_nodeValues t)"
    using visits_grows(2) [OF single(2)] f single.prems(1)
    by (simp add: data_frame_def descend_def appendNodeRow_def at_rows_def)
  moreover have lt: "length (enc_nodeValues t) < 7 * 2 ^ 32" using single.prems(2) by (simp add: ascend_def)
  ultimately have small: "length rows < 2 ^ 32" by linarith
  note e = enterNode_rows [OF single.prems(1) small]
  let ?h = "\<lparr>head_kind = node_Kind node, head_pos = encodedPosition (node_Pos node),
    head_end = encodedPosition (node_End node), head_data = d, head_flags = node_Flags node\<rparr>"
  let ?u = "appendNodeRow node (enc_parentIndex s) d u"
  let ?rows = "link p (length rows) rows @ [head_row parent 0 ?h]"
  have "enc_parentIndex s = of_nat parent" using single.prems(1) by (simp add: at_rows_def)
  then have "at_rows (descend (enc_nodeCount (enterNode s)) ?u) ?rows 0 (length rows)"
    using f by (intro row_entered [OF single.prems(1) small])
      (simp_all add: appendNodeRow_def data_frame_def row_words_def head_row_def)
  from single(3) [OF this lt] obtain ts where ts:
      "mirrors_all heap (child_slots (encoding_children (node_targetEncoding node))) ts"
      "data_trees heap (emitted t) (child_slots (encoding_children (node_targetEncoding node))) ts"
      "grown (descend (enc_nodeCount (enterNode s)) ?u) t"
      "at_rows t (place 0 ?rows (length rows) ts) (place_last 0 ?rows ts) (length rows)" by blast
  have "mirrors heap (SingleSlot r) (WireTree ?h ts)" using single(1) ts(1) by (simp add: head_of_def)
  moreover have "data_tree heap (emitted (ascend s t)) (SingleSlot r) (WireTree ?h ts)"
  proof -
    have "grown u t" using ts(3) by (simp add: grown_def descend_def appendNodeRow_def)
    then have "emitted t node d" using single(4) unfolding emitted_def by blast
    then show ?thesis using single(1) ts(2) by simp
  qed
  moreover have "grown s (ascend s t)"
  proof -
    have "grown (enterNode s) u" using f by (simp add: data_frame_def)
    moreover have "grown u t" using ts(3) by (simp add: grown_def descend_def appendNodeRow_def)
    ultimately have "grown s t" using e(4) grown_trans by blast
    then show ?thesis by (simp add: grown_def ascend_def)
  qed
  moreover have "at_rows (ascend s t) (place p rows parent [WireTree ?h ts]) (place_last p rows [WireTree ?h ts]) parent"
    by (rule row_left [OF single.prems(1) small, where q = "place_last 0 ?rows ts"])
      (use ts(4) in \<open>simp add: place_below\<close>)
  ultimately show ?case by blast
next
  case (list rs s t)
  have "7 * length rows + 7 \<le> length (enc_nodeValues t)"
    using visits_grows(2) [OF list(1)] list.prems(1)
    by (simp add: descend_def appendListRow_def at_rows_def)
  moreover have lt: "length (enc_nodeValues t) < 7 * 2 ^ 32" using list.prems(2) by (simp add: ascend_def)
  ultimately have small: "length rows < 2 ^ 32" by linarith
  note e = enterNode_rows [OF list.prems(1) small]
  let ?h = "list_head (length rs)"
  let ?rows = "link p (length rows) rows @ [head_row parent 0 ?h]"
  have "at_rows (descend (enc_nodeCount (enterNode s)) (appendListRow (length rs) (enterNode s))) ?rows 0 (length rows)"
    by (rule row_entered [OF list.prems(1) small])
      (simp_all add: appendListRow_def row_words_def head_row_def list_head_def e(3))
  from list(2) [OF this lt] obtain ts where ts: "mirrors_all heap (map SingleSlot rs) ts"
      "data_trees heap (emitted t) (map SingleSlot rs) ts" "grown (descend (enc_nodeCount (enterNode s)) (appendListRow (length rs) (enterNode s))) t"
      "at_rows t (place 0 ?rows (length rows) ts) (place_last 0 ?rows ts) (length rows)" by blast
  have "grown (enterNode s) t" using ts(3) by (simp add: grown_def descend_def appendListRow_def)
  then have "grown s t" using e(4) grown_trans by blast
  then have "grown s (ascend s t)" by (simp add: grown_def ascend_def)
  moreover have "mirrors heap (ListSlot rs) (WireTree ?h ts)" using ts(1) by simp
  moreover have "data_tree heap (emitted (ascend s t)) (ListSlot rs) (WireTree ?h ts)" using ts(2) by simp
  moreover have "at_rows (ascend s t) (place p rows parent [WireTree ?h ts]) (place_last p rows [WireTree ?h ts]) parent"
    by (rule row_left [OF list.prems(1) small, where q = "place_last 0 ?rows ts"])
      (use ts(4) in \<open>simp add: place_below\<close>)
  ultimately show ?case by blast
next
  case (finished s)
  then show ?case by (intro exI [of _ "[]"]) simp
next
  case (more x s t xs u)
  have "length (enc_nodeValues t) < 7 * 2 ^ 32"
    using visits_grows(2) [OF more(3)] more.prems(2) by linarith
  from more(2) [OF more.prems(1) this] obtain tree where tree: "mirrors heap x tree" "data_tree heap (emitted t) x tree" "grown s t"
      "at_rows t (place p rows parent [tree]) (place_last p rows [tree]) parent" by blast
  from more(4) [OF tree(4) more.prems(2)] obtain ts where ts: "mirrors_all heap xs ts"
      "data_trees heap (emitted u) xs ts" "grown t u"
      "at_rows u (place (place_last p rows [tree]) (place p rows parent [tree]) parent ts)
        (place_last (place_last p rows [tree]) (place p rows parent [tree]) ts) parent" by blast
  have "rows \<noteq> []" using more.prems(1) by (simp add: at_rows_def)
  from ts(4) [unfolded place_append [OF this]]
  have "at_rows u (place p rows parent (tree # ts)) (place_last p rows (tree # ts)) parent" by simp
  moreover have "mirrors_all heap (x # xs) (tree # ts)" using tree(1) ts(1) by simp
  moreover have "data_trees heap (emitted u) (x # xs) (tree # ts)"
    using data_tree_mono(1) [OF tree(2) emitted_grown [OF ts(3)]] ts(2) by simp
  ultimately show ?case using grown_trans [OF tree(3) ts(3)] by blast
qed

end
