(* ===== verification/SourceEvidence.thy ===== *)
theory SourceEvidence
  imports NodeTable
begin

text \<open>
  Reading an encoded source file back (\<open>internal/target/tsgo/project_source_evidence.go\<close> and
  \<open>project_node_evidence.go\<close>): the node table and the source text, the questions asked of the table, and
  node handles.

  Base64 decoding is an argument.  An error keeps the reason; the numbers it prints are its fields.
\<close>

datatype evidence_error =
    DecodeFailed
  | HeaderTruncated nat
  | VersionMismatch "32 word"
  | NodeRegionInvalid
  | NoSourceNode
  | InvalidParent nat "32 word"
  | NoExtendedData
  | SectionsInvalid
  | TextOutsideExtendedData
  | TextIndexInvalid
  | TextRangeInvalid
  | TextNotUtf8
  | InvalidHandle
  | HandleMismatch

record node_evidence =
  evidence_kind :: "32 word"
  evidence_parent :: "32 word"
  evidence_data :: "32 word"

record source_evidence =
  evidence_nodes :: "node_evidence list"
  evidence_text :: bytes
  evidence_wire :: bytes

text \<open>\<open>utf8.Valid\<close>.\<close>

definition continuation :: "8 word \<Rightarrow> bool" where
  "continuation b \<longleftrightarrow> 0x80 \<le> b \<and> b \<le> 0xbf"

text \<open>The range of the second byte that the first byte of a longer sequence asks for, and the length.\<close>

definition utf8_second :: "8 word \<Rightarrow> (8 word \<times> 8 word \<times> nat) option" where
  "utf8_second b =
     (if 0xc2 \<le> b \<and> b \<le> 0xdf then Some (0x80, 0xbf, 2)
      else if b = 0xe0 then Some (0xa0, 0xbf, 3)
      else if b = 0xed then Some (0x80, 0x9f, 3)
      else if 0xe1 \<le> b \<and> b \<le> 0xef then Some (0x80, 0xbf, 3)
      else if b = 0xf0 then Some (0x90, 0xbf, 4)
      else if 0xf1 \<le> b \<and> b \<le> 0xf3 then Some (0x80, 0xbf, 4)
      else if b = 0xf4 then Some (0x80, 0x8f, 4) else None)"

function utf8_valid :: "bytes \<Rightarrow> bool" where
  "utf8_valid [] = True"
| "utf8_valid (b # bs) =
     (if b < 0x80 then utf8_valid bs
      else case utf8_second b of
          None \<Rightarrow> False
        | Some (low, high, n) \<Rightarrow>
            n - 1 \<le> length bs \<and> low \<le> hd bs \<and> hd bs \<le> high \<and>
            list_all continuation (take (n - 2) (tl bs)) \<and> utf8_valid (drop (n - 1) bs))"
  by pat_completeness auto
termination by (relation "measure length") auto

definition decodeOfficialSourceText :: "bytes \<Rightarrow> node_evidence list \<Rightarrow> evidence_error + bytes" where
  "decodeOfficialSourceText raw nodes =
     (if length nodes < 2 \<or> evidence_kind (nodes ! 1) \<noteq> SyntaxKindSourceFile \<or>
         drop_bit 30 (evidence_data (nodes ! 1)) \<noteq> 2 then Inl NoExtendedData
      else
        let stringOffsets = unat (get32 raw headerOffsetStringTableOffsets);
            stringData = unat (get32 raw headerOffsetStringTable);
            extendedData = unat (get32 raw headerOffsetExtendedData);
            structuredData = unat (get32 raw headerOffsetStructuredData);
            nodesOffset = unat (get32 raw headerOffsetNodes)
        in if stringOffsets < headerSize \<or> stringData < stringOffsets \<or> extendedData < stringData \<or>
              structuredData < extendedData \<or> nodesOffset < structuredData \<or> length raw < nodesOffset
           then Inl SectionsInvalid
           else
             let extendedOffset = extendedData + unat (and (evidence_data (nodes ! 1)) nodeExtendedDataMask) in
             if extendedOffset < extendedData \<or> structuredData < extendedOffset + 4 then Inl TextOutsideExtendedData
             else
               let textIndex = unat (get32 raw extendedOffset);
                   offsetEntry = stringOffsets + textIndex * 4
               in if offsetEntry < stringOffsets \<or> stringData < offsetEntry + 8 then Inl TextIndexInvalid
                  else
                    let start = unat (get32 raw offsetEntry);
                        end' = unat (get32 raw (offsetEntry + 4));
                        stringBytes = extendedData - stringData
                    in if end' < start \<or> stringBytes < end' then Inl TextRangeInvalid
                       else
                         let text = take (end' - start) (drop (stringData + start) raw) in
                         if \<not> utf8_valid text then Inl TextNotUtf8 else Inr text)"

text \<open>The loop over the node table.\<close>

definition decodeNode :: "bytes \<Rightarrow> nat \<Rightarrow> node_evidence" where
  "decodeNode raw offset =
     \<lparr>evidence_kind = get32 raw (offset + nodeOffsetKind), evidence_parent = get32 raw (offset + nodeOffsetParent),
      evidence_data = get32 raw (offset + nodeOffsetData)\<rparr>"

fun decodeNodes :: "bytes \<Rightarrow> nat \<Rightarrow> nat \<Rightarrow> nat list \<Rightarrow> evidence_error + node_evidence list" where
  "decodeNodes raw nodesOffset nodeCount [] = Inr []"
| "decodeNodes raw nodesOffset nodeCount (index # rest) =
     (let node = decodeNode raw (nodesOffset + index * nodeLen) in
      if of_nat nodeCount \<le> evidence_parent node then Inl (InvalidParent index (evidence_parent node))
      else case decodeNodes raw nodesOffset nodeCount rest of
          Inl e \<Rightarrow> Inl e | Inr nodes \<Rightarrow> Inr (node # nodes))"

definition decodeProjectSourceEvidence ::
    "(string \<Rightarrow> bytes option) \<Rightarrow> string \<Rightarrow> evidence_error + source_evidence" where
  "decodeProjectSourceEvidence base64 encoded =
     (case base64 encoded of
        None \<Rightarrow> Inl DecodeFailed
      | Some raw \<Rightarrow>
          if length raw < headerSize then Inl (HeaderTruncated (length raw))
          else if drop_bit 24 (get32 raw headerOffsetMetadata) \<noteq> protocolVersion then
            Inl (VersionMismatch (drop_bit 24 (get32 raw headerOffsetMetadata)))
          else
            let nodesOffset = unat (get32 raw headerOffsetNodes) in
            if nodesOffset < headerSize \<or> length raw < nodesOffset \<or> (length raw - nodesOffset) mod nodeLen \<noteq> 0
            then Inl NodeRegionInvalid
            else
              let nodeCount = (length raw - nodesOffset) div nodeLen in
              if nodeCount < 2 then Inl NoSourceNode
              else case decodeNodes raw nodesOffset nodeCount [0..<nodeCount] of
                  Inl e \<Rightarrow> Inl e
                | Inr nodes \<Rightarrow>
                    (case decodeOfficialSourceText raw nodes of
                       Inl e \<Rightarrow> Inl e
                     | Inr text \<Rightarrow>
                         Inr \<lparr>evidence_nodes = nodes, evidence_text = text, evidence_wire = raw\<rparr>))"

subsection \<open>Questions to the node table\<close>

definition SyntaxKindPrivateIdentifier :: "32 word" where "SyntaxKindPrivateIdentifier = 80"
definition SyntaxKindPrivateKeyword :: "32 word" where "SyntaxKindPrivateKeyword = 122"
definition SyntaxKindProtectedKeyword :: "32 word" where "SyntaxKindProtectedKeyword = 123"
definition SyntaxKindTypeParameter :: "32 word" where "SyntaxKindTypeParameter = 169"

datatype member_access = ProjectMemberAccessInvalid | ProjectMemberAccessPublic | ProjectMemberAccessNonPublic

definition identifies :: "node_evidence list \<Rightarrow> 32 word \<Rightarrow> 32 word \<Rightarrow> bool" where
  "identifies nodes index kind \<longleftrightarrow> \<not> of_nat (length nodes) \<le> index \<and> evidence_kind (nodes ! unat index) = kind"

fun accessFrom :: "node_evidence list \<Rightarrow> 32 word \<Rightarrow> (nat \<times> node_evidence) list \<Rightarrow> member_access" where
  "accessFrom nodes index [] = ProjectMemberAccessPublic"
| "accessFrom nodes index ((childIndex, child) # rest) =
     (if evidence_parent child \<noteq> index then accessFrom nodes index rest
      else if evidence_kind child = SyntaxKindPrivateIdentifier then ProjectMemberAccessNonPublic
      else if evidence_kind child \<noteq> kindNodeList then accessFrom nodes index rest
      else if list_ex (\<lambda>modifier. evidence_parent modifier = of_nat childIndex \<and>
          (evidence_kind modifier = SyntaxKindPrivateKeyword \<or> evidence_kind modifier = SyntaxKindProtectedKeyword)) nodes
        then ProjectMemberAccessNonPublic
      else accessFrom nodes index rest)"

definition declarationAccess :: "32 word \<Rightarrow> 32 word \<Rightarrow> source_evidence \<Rightarrow> evidence_error + member_access" where
  "declarationAccess index kind s =
     (if \<not> identifies (evidence_nodes s) index kind then Inl HandleMismatch
      else Inr (accessFrom (evidence_nodes s) index (enumerate 0 (evidence_nodes s))))"

definition declarationTypeParameterCount :: "32 word \<Rightarrow> 32 word \<Rightarrow> source_evidence \<Rightarrow> evidence_error + nat" where
  "declarationTypeParameterCount index kind s =
     (let nodes = evidence_nodes s in
      if \<not> identifies nodes index kind then Inl HandleMismatch
      else Inr (sum_list (map (\<lambda>(listIndex, list).
        if evidence_parent list \<noteq> index \<or> evidence_kind list \<noteq> kindNodeList then 0
        else length (filter (\<lambda>child. evidence_parent child = of_nat listIndex \<and>
          evidence_kind child = SyntaxKindTypeParameter) nodes)) (enumerate 0 nodes))))"

definition directChildren :: "32 word \<Rightarrow> source_evidence \<Rightarrow> nat list" where
  "directChildren parent s =
     filter (\<lambda>index. evidence_parent (evidence_nodes s ! index) = parent) [1..<length (evidence_nodes s)]"

fun firstIndex :: "(nat \<Rightarrow> bool) \<Rightarrow> nat list \<Rightarrow> nat" where
  "firstIndex P [] = 0"
| "firstIndex P (i # is) = (if P i then i else firstIndex P is)"

definition firstChild :: "32 word \<Rightarrow> source_evidence \<Rightarrow> nat" where
  "firstChild parent s =
     firstIndex (\<lambda>index. evidence_parent (evidence_nodes s ! index) = parent) [1..<length (evidence_nodes s)]"

definition evidence_node :: "32 word \<Rightarrow> 32 word \<Rightarrow> source_evidence \<Rightarrow> node_evidence option" where
  "evidence_node index kind s =
     (if index = 0 \<or> \<not> identifies (evidence_nodes s) index kind then None
      else Some (evidence_nodes s ! unat index))"

subsection \<open>Node handles\<close>

definition projectNodeHandle :: "string \<Rightarrow> 32 word \<Rightarrow> 32 word \<Rightarrow> string" where
  "projectNodeHandle sourcePath index kind = itoa (unat index) @ ''.'' @ itoa (unat kind) @ ''.'' @ sourcePath"

text \<open>\<open>strings.IndexByte\<close> splits a string at the first occurrence of a character.\<close>

definition cut_at :: "char \<Rightarrow> string \<Rightarrow> (string \<times> string) option" where
  "cut_at c s = (if c \<in> set s then Some (takeWhile (\<lambda>x. x \<noteq> c) s, tl (dropWhile (\<lambda>x. x \<noteq> c) s)) else None)"

text \<open>\<open>strconv.ParseUint\<close> in base ten for 32 bits.\<close>

definition parse_uint32 :: "string \<Rightarrow> 32 word option" where
  "parse_uint32 s =
     (if s = [] \<or> \<not> list_all is_digit s \<or> 4294967295 < atoi s then None else Some (of_nat (atoi s)))"

definition parseProjectNodeHandle :: "string \<Rightarrow> evidence_error + 32 word \<times> 32 word \<times> string" where
  "parseProjectNodeHandle handle =
     (case cut_at CHR ''.'' handle of
        None \<Rightarrow> Inl InvalidHandle
      | Some (first, rest) \<Rightarrow>
          if first = [] then Inl InvalidHandle
          else case cut_at CHR ''.'' rest of
              None \<Rightarrow> Inl InvalidHandle
            | Some (second, sourcePath) \<Rightarrow>
                if second = [] then Inl InvalidHandle
                else case (parse_uint32 first, parse_uint32 second) of
                    (Some index, Some kind) \<Rightarrow>
                      if index = 0 \<or> sourcePath = [] then Inl InvalidHandle else Inr (index, kind, sourcePath)
                  | _ \<Rightarrow> Inl InvalidHandle)"

end
