(* ===== verification/EncoderRoundTrip.thy ===== *)
theory EncoderRoundTrip
  imports SourceEvidence
begin

text \<open>
  The sections of an encoded file, and what the decoder reads back from them.
\<close>

subsection \<open>The header\<close>

lemma length_put32 [simp]: "offset + 4 \<le> length bs \<Longrightarrow> length (put32 offset w bs) = length bs"
  by (simp add: put32_def)

lemma get32_put32_same [simp]: "offset + 4 \<le> length bs \<Longrightarrow> get32 (put32 offset w bs) offset = w"
  by (simp add: put32_def get32_at)

lemma get32_put32_other:
  "offset + 4 \<le> length bs \<Longrightarrow> k + 4 \<le> offset \<or> offset + 4 \<le> k \<Longrightarrow> get32 (put32 offset w bs) k = get32 bs k"
  by (auto simp: put32_def get32_def nth_append add.commute [of 3])

text \<open>Where the sections of a finished file are.\<close>

definition sections :: "encoder_state \<Rightarrow> bytes \<Rightarrow> bool" where
  "sections s wire \<longleftrightarrow>
     (let so = concat (map le32 (table_offsets (enc_strings s))); sd = table_data (enc_strings s);
          ed = enc_extendedData s; st = enc_structuredData s; ns = concat (map le32 (enc_nodeValues s));
          a = 44 + length so; b = a + length sd; c = b + length ed; d = c + length st
      in d + length ns < 2 ^ 32 \<and>
         (\<exists>header. wire = header @ so @ sd @ ed @ st @ ns \<and> length header = 44) \<and>
         get32 wire 0 = push_bit 24 5 \<and> get32 wire 24 = 44 \<and> get32 wire 28 = of_nat a \<and>
         get32 wire 32 = of_nat b \<and> get32 wire 36 = of_nat c \<and> get32 wire 40 = of_nat d)"

lemma finish_sections:
  assumes "finish s = Inr wire"
  shows "sections s wire"
proof -
  let ?so = "concat (map le32 (table_offsets (enc_strings s)))" and ?sd = "table_data (enc_strings s)"
  let ?ns = "concat (map le32 (enc_nodeValues s))"
  let ?a = "44 + length ?so"
  let ?b = "?a + length ?sd"
  let ?c = "?b + length (enc_extendedData s)"
  let ?d = "?c + length (enc_structuredData s)"
  let ?h0 = "put32 0 (push_bit 24 5) (replicate 44 0)"
  let ?h1 = "put32 24 44 ?h0"
  let ?h2 = "put32 28 (of_nat ?a) ?h1"
  let ?h3 = "put32 32 (of_nat ?b) ?h2"
  let ?h4 = "put32 36 (of_nat ?c) ?h3"
  let ?h5 = "put32 40 (of_nat ?d) ?h4"
  have w: "wire = ?h5 @ ?so @ ?sd @ enc_extendedData s @ enc_structuredData s @ ?ns"
    and small: "?d + length ?ns < 2 ^ 32"
    using assms by (auto simp: finish_def table_encode_def appendUint32s_append Let_def protocol_defs split: if_splits)
  have len: "length ?h0 = 44" "length ?h1 = 44" "length ?h2 = 44" "length ?h3 = 44" "length ?h4 = 44" "length ?h5 = 44"
    by simp_all
  have g: "get32 ?h5 0 = push_bit 24 5" "get32 ?h5 24 = 44" "get32 ?h5 28 = of_nat ?a" "get32 ?h5 32 = of_nat ?b"
    "get32 ?h5 36 = of_nat ?c" "get32 ?h5 40 = of_nat ?d"
    by (simp_all add: get32_put32_other)
  have pre: "k + 4 \<le> 44 \<Longrightarrow> get32 wire k = get32 ?h5 k" for k
    unfolding w using get32_prefix [of k ?h5] len(6) by simp
  show ?thesis
    unfolding sections_def Let_def using w small g pre [of 0] pre [of 24] pre [of 28] pre [of 32] pre [of 36] pre [of 40] len(6)
    by (intro conjI exI [of _ ?h5]) simp_all
qed

subsection \<open>The table of an encoded tree\<close>

definition encoded_table :: "ast_heap \<Rightarrow> node_ref \<Rightarrow> wire_tree \<Rightarrow> bytes \<Rightarrow> bool" where
  "encoded_table heap r tree wire \<longleftrightarrow>
     (\<exists>s n s0 d. mirrors heap (SingleSlot r) tree \<and> data_tree heap (emitted s) (SingleSlot r) tree \<and> node_at heap r = Some n \<and>
        nodeData n (encoder_new\<lparr>enc_nodeCount := 1\<rparr>) = Inr (d, s0) \<and> (\<exists>h ts. tree = WireTree h ts \<and> head_data h = d) \<and>
        grown s0 s \<and> sections s wire \<and> enc_nodeValues s = table_words (no_row # tree_rows 0 1 0 tree))"

lemma table_words_zero: "table_words [no_row] = replicate 7 0"
  by (simp add: table_words_def row_words_def no_row_def numeral_eq_Suc)

lemma EncodeNode_layout:
  assumes "EncodeNode heap r = Inr wire" "node_at heap r = Some n" "node_official n = None"
  shows "\<exists>tree. encoded_table heap r tree wire"
proof -
  let ?new = "encoder_new\<lparr>enc_nodeCount := 1\<rparr>"
  obtain d s0 s where d: "nodeData n ?new = Inr (d, s0)"
    and v: "visitEach heap [] (node_Kind n) (encoding_children (node_targetEncoding n))
      ((appendNodeRow n 0 d s0)\<lparr>enc_parentIndex := 1, enc_previousIndex := 0\<rparr>) = Inr s"
    and f: "finish s = Inr wire"
    using assms by (auto simp: EncodeNode_def appendRoot_def visitChildren_def split: sum.splits)
  let ?h = "\<lparr>head_kind = node_Kind n, head_pos = encodedPosition (node_Pos n),
    head_end = encodedPosition (node_End n), head_data = d, head_flags = node_Flags n\<rparr>"
  let ?rows = "[no_row, head_row 0 0 ?h]"
  have fr: "enc_nodeValues s0 = table_words [no_row]" "enc_nodeCount s0 = 1"
    using nodeData_frame [OF d] by (simp_all add: data_frame_def encoder_new_def table_words_zero nodeLen_def)
  let ?s1 = "(appendNodeRow n 0 d s0)\<lparr>enc_parentIndex := 1, enc_previousIndex := 0\<rparr>"
  have at: "at_rows ?s1 ?rows 0 1"
    using fr by (simp add: at_rows_def appendNodeRow_def table_words_Cons row_words_def head_row_def)
  have sec: "sections s wire" by (rule finish_sections [OF f])
  have "length (concat (map le32 (enc_nodeValues s))) < 2 ^ 32"
    using sec unfolding sections_def Let_def by linarith
  then have "length (enc_nodeValues s) < 7 * 2 ^ 32" by simp
  from visits_layout(2) [OF visit_visits(4) [OF v] at this] obtain ts where
    ts: "mirrors_all heap (child_slots (encoding_children (node_targetEncoding n))) ts"
      "data_trees heap (emitted s) (child_slots (encoding_children (node_targetEncoding n))) ts" "grown ?s1 s"
      "at_rows s (place 0 ?rows 1 ts) (place_last 0 ?rows ts) 1" by blast
  have "place 0 ?rows 1 ts = no_row # tree_rows 0 1 0 (WireTree ?h ts)" by (simp add: place_def)
  then have "enc_nodeValues s = table_words (no_row # tree_rows 0 1 0 (WireTree ?h ts))"
    using ts(4) by (simp add: at_rows_def)
  moreover have "grown s0 s" using ts(3) by (simp add: grown_def appendNodeRow_def)
  moreover from this have "data_tree heap (emitted s) (SingleSlot r) (WireTree ?h ts)"
    using ts(2) assms(2) d by (auto simp: emitted_def)
  moreover have "mirrors heap (SingleSlot r) (WireTree ?h ts)" using ts(1) assms(2) by (simp add: head_of_def)
  ultimately show ?thesis using d sec assms(2) unfolding encoded_table_def
    by (intro exI [of _ "WireTree ?h ts"] exI [of _ s] exI [of _ n] exI [of _ s0] exI [of _ d] conjI exI [of _ ?h] exI [of _ ts])
      simp_all
qed

subsection \<open>Reading the table\<close>

definition row_evidence :: "node_row \<Rightarrow> node_evidence" where
  "row_evidence r = \<lparr>evidence_kind = row_kind r, evidence_parent = row_parent r, evidence_data = row_data r\<rparr>"

lemma table_words_nth: "i < length rows \<Longrightarrow> j < 7 \<Longrightarrow> table_words rows ! (i * 7 + j) = row_words (rows ! i) ! j"
proof (induction rows arbitrary: i)
  case (Cons r rows)
  then show ?case by (cases i) (auto simp: table_words_Cons nth_append)
qed simp

lemma get32_table:
  assumes "i < length rows" "j < 7" "length pre = base"
  shows "get32 (pre @ concat (map le32 (table_words rows))) (base + i * nodeLen + 4 * j) = row_words (rows ! i) ! j"
proof -
  have "i * 7 + j < length (table_words rows)" using assms by auto
  from get32_words [OF this, of "[]"]
  have "get32 (pre @ concat (map le32 (table_words rows))) (base + i * nodeLen + 4 * j) = table_words rows ! (i * 7 + j)"
    using get32_append [of pre "concat (map le32 (table_words rows))" "4 * (i * 7 + j)"] assms(3)
    by (simp add: nodeLen_def algebra_simps)
  then show ?thesis by (simp only: table_words_nth [OF assms(1,2)])
qed

lemma decodeNode_row:
  assumes "i < length rows" "length pre = base"
  shows "decodeNode (pre @ concat (map le32 (table_words rows))) (base + i * nodeLen) = row_evidence (rows ! i)"
  using get32_table [OF assms(1) _ assms(2), of 0] get32_table [OF assms(1) _ assms(2), of 4]
    get32_table [OF assms(1) _ assms(2), of 5]
  by (simp add: decodeNode_def row_evidence_def protocol_defs row_words_def)

lemma decodeNodes_rows:
  assumes "length pre = base" "list_all (\<lambda>i. i < length rows) idx"
    "list_all (\<lambda>r. row_parent r < of_nat n) rows"
  shows "decodeNodes (pre @ concat (map le32 (table_words rows))) base n idx =
    Inr (map (\<lambda>i. row_evidence (rows ! i)) idx)"
  using assms(2)
proof (induction idx)
  case (Cons i idx)
  then have "row_parent (rows ! i) < of_nat n" using assms(3) by (simp add: list_all_iff)
  then show ?case using Cons decodeNode_row [of i rows pre base] assms(1)
    by (simp add: row_evidence_def Let_def not_le)
qed simp

text \<open>The parent of a row precedes it.\<close>

lemma rows_parents:
  "parent < index \<Longrightarrow> index + tree_size t \<le> n \<Longrightarrow> n < 2 ^ 32 \<Longrightarrow>
     list_all (\<lambda>r. row_parent r < of_nat n) (tree_rows parent index next' t)"
  "parent < index \<Longrightarrow> index + forest_size ts \<le> n \<Longrightarrow> n < 2 ^ 32 \<Longrightarrow>
     list_all (\<lambda>r. row_parent r < of_nat n) (forest_rows parent index next' ts)"
proof (induction t and ts arbitrary: parent index next' and parent index next' rule: tree_size_forest_size.induct)
  case (1 h ts)
  then show ?case by (auto simp: head_row_def of_nat_word_less_iff take_bit_eq_mod)
qed auto

subsection \<open>The source text\<close>

text \<open>What the generated code of a source file says: extended data without flags.\<close>

definition source_root :: "ast_node \<Rightarrow> bool" where
  "source_root n \<longleftrightarrow> node_Kind n = SyntaxKindSourceFile \<and> node_official n = None \<and>
     encoding_dataType (node_targetEncoding n) = nodeDataExtended \<and>
     encoding_extended (node_targetEncoding n) = extendedSourceFile \<and>
     encoding_commonData (node_targetEncoding n) = 0"

lemma add_first_string:
  assumes "add_string text s = Inr (i, t)" "enc_strings s = newStringTable"
  shows "i = 0 \<and> length text < 2 ^ 32 \<and> enc_extendedData t = enc_extendedData s \<and>
    enc_strings t = \<lparr>table_offsets = [0, of_nat (length text)], table_data = text\<rparr>"
  using assms by (auto simp: add_string_def table_add_def newStringTable_def Let_def split: if_splits)

lemma add_extended:
  "add_string text s = Inr (i, t) \<Longrightarrow> enc_extendedData t = enc_extendedData s"
  "add_references rs s = Inr (i, t) \<Longrightarrow> enc_extendedData t = enc_extendedData s"
  by (auto simp: add_string_def add_references_def split: sum.splits)

lemma source_root_data:
  assumes root: "source_root n" and d: "nodeData n s = Inr (d, t)"
    and new: "enc_strings s = newStringTable" "enc_extendedData s = []"
  shows "d = 0x80000000" "length (source_Text (encoding_sourceFile (node_targetEncoding n))) < 2 ^ 32"
    "\<exists>a. table_offsets (enc_strings t) =
       0 # of_nat (length (source_Text (encoding_sourceFile (node_targetEncoding n)))) # a"
    "\<exists>a. table_data (enc_strings t) = source_Text (encoding_sourceFile (node_targetEncoding n)) @ a"
    "\<exists>a. enc_extendedData t = le32 0 @ a"
proof -
  let ?f = "encoding_sourceFile (node_targetEncoding n)"
  have "nodeData n s = (case appendSourceFile ?f s of Inl e \<Rightarrow> Inl e | Inr s \<Rightarrow> Inr (0x80000000, s))"
    using root new(2)
    by (auto simp: nodeData_def Let_def source_root_def node_data_defs extended_defs appendExtended_def
        nodeDataTypeExtended_def split: sum.split)
  then have a: "appendSourceFile ?f s = Inr t" and dd: "d = 0x80000000" using d by (auto split: sum.splits)
  show "d = 0x80000000" by (rule dd)
  obtain i1 s1 i2 s2 i3 s3 i4 s4 i5 s5 i6 s6 where
    s: "add_string (source_Text ?f) s = Inr (i1, s1)" "add_string (source_FileName ?f) s1 = Inr (i2, s2)"
      "add_string (source_Path ?f) s2 = Inr (i3, s3)" "add_references (source_ReferencedFiles ?f) s3 = Inr (i4, s4)"
      "add_references (source_TypeReferenceDirectives ?f) s4 = Inr (i5, s5)"
      "add_references (source_LibReferenceDirectives ?f) s5 = Inr (i6, s6)"
      "t = s6\<lparr>enc_extendedData := appendUint32s (enc_extendedData s6)
          [i1, i2, i3, source_LanguageVariant ?f, source_ScriptKind ?f,
           i4, i5, i6, noStructuredData, noStructuredData, noStructuredData, 0]\<rparr>"
    using a unfolding appendSourceFile_def by (auto split: if_splits sum.splits prod.splits)
  note first = add_first_string [OF s(1) new(1)]
  have ext: "enc_extendedData s6 = []"
    using add_extended(1) [OF s(2)] add_extended(1) [OF s(3)] add_extended(2) [OF s(4)] add_extended(2) [OF s(5)]
      add_extended(2) [OF s(6)] first new(2) by simp
  have "data_frame s1 s6"
    by (rule data_frame_trans [OF add_string_frame [OF s(2)]] data_frame_trans [OF add_string_frame [OF s(3)]]
        data_frame_trans [OF add_references_frame [OF s(4)]] data_frame_trans [OF add_references_frame [OF s(5)]]
        add_references_frame [OF s(6)])+
  then have g: "grown s1 s6" by (simp add: data_frame_def)
  show "length (source_Text ?f) < 2 ^ 32" using first by blast
  show "\<exists>a. table_offsets (enc_strings t) = 0 # of_nat (length (source_Text ?f)) # a"
    "\<exists>a. table_data (enc_strings t) = source_Text ?f @ a"
    using g first s(7) by (auto simp: grown_def)
  show "\<exists>a. enc_extendedData t = le32 0 @ a" using first s(7) ext by (simp add: appendUint32s_append)
qed

lemma unat32: "n < 2 ^ 32 \<Longrightarrow> unat (of_nat n :: 32 word) = n"
  by (simp add: unat_of_nat take_bit_eq_mod)

lemma decode_text:
  assumes sec: "sections s wire" and table: "2 \<le> length nodes" "evidence_kind (nodes ! 1) = SyntaxKindSourceFile"
      "evidence_data (nodes ! 1) = 0x80000000"
    and so: "table_offsets (enc_strings s) = 0 # of_nat (length text) # a"
    and sd: "table_data (enc_strings s) = text @ b" and ed: "enc_extendedData s = le32 0 @ c"
    and valid: "utf8_valid text"
  shows "decodeOfficialSourceText wire nodes = Inr text"
proof -
  let ?so = "concat (map le32 (table_offsets (enc_strings s)))"
  let ?a = "44 + length ?so"
  let ?b = "?a + length (table_data (enc_strings s))"
  let ?c = "?b + length (enc_extendedData s)"
  let ?d = "?c + length (enc_structuredData s)"
  obtain header where w: "wire = header @ ?so @ table_data (enc_strings s) @ enc_extendedData s @
      enc_structuredData s @ concat (map le32 (enc_nodeValues s))" "length header = 44"
    and small: "?d + length (concat (map le32 (enc_nodeValues s))) < 2 ^ 32"
    and g: "get32 wire 24 = 44" "get32 wire 28 = of_nat ?a" "get32 wire 32 = of_nat ?b" "get32 wire 36 = of_nat ?c"
      "get32 wire 40 = of_nat ?d"
    using sec unfolding sections_def Let_def by blast
  have u: "unat (of_nat ?a :: 32 word) = ?a" "unat (of_nat ?b :: 32 word) = ?b" "unat (of_nat ?c :: 32 word) = ?c"
    "unat (of_nat ?d :: 32 word) = ?d" "unat (44 :: 32 word) = 44"
    using small by - ((rule unat32, linarith)+, simp)
  have lt: "unat (of_nat (length text) :: 32 word) = length text"
    by (rule unat32) (use small in \<open>simp add: sd\<close>)
  have text0: "get32 wire ?b = 0"
    unfolding w(1) ed using get32_at [of ?b "header @ ?so @ table_data (enc_strings s)" 0] w(2) by (simp add: ed)
  have first: "get32 wire 44 = 0"
    unfolding w(1) so using get32_at [of 44 header 0] w(2) by simp
  have last: "get32 wire 48 = of_nat (length text)"
    unfolding w(1) so using get32_at [of 48 "header @ le32 0" "of_nat (length text)"] w(2) by simp
  have shown: "take (length text) (drop ?a wire) = text"
    unfolding w(1) sd using w(2) by simp
  have b: "drop_bit 30 (0x80000000 :: 32 word) = 2" "and (0x80000000 :: 32 word) 0xffffff = 0" by simp_all
  have so8: "8 \<le> length ?so" by (simp add: so)
  have lens: "4 \<le> length (enc_extendedData s)" "length text \<le> length (table_data (enc_strings s))"
    by (simp_all add: ed sd)
  have wl: "?d \<le> length wire" unfolding w(1) using w(2) by simp
  show ?thesis
    unfolding decodeOfficialSourceText_def Let_def table(2,3) protocol_defs nodeExtendedDataMask_def g u b unat_0 add_0_right text0
      mult_0 first
    using table(1) so8 lens wl last lt shown valid by (simp add: g u)
qed

end
