(* ===== verification/TableQueries.thy ===== *)
theory TableQueries
  imports EncoderRoundTrip
begin

text \<open>
  The questions asked of a node table, answered on the tree it lays out: a row's children are found by
  scanning for its number in the parent column.
\<close>

fun tree_nodes :: "nat \<Rightarrow> wire_tree \<Rightarrow> (nat \<times> wire_tree) list"
  and forest_nodes :: "nat \<Rightarrow> wire_tree list \<Rightarrow> (nat \<times> wire_tree) list" where
  "tree_nodes i (WireTree h ts) = (i, WireTree h ts) # forest_nodes (i + 1) ts"
| "forest_nodes i [] = []"
| "forest_nodes i (t # ts) = tree_nodes i t @ forest_nodes (i + tree_size t) ts"

fun tree_kind :: "wire_tree \<Rightarrow> 32 word" where "tree_kind (WireTree h ts) = head_kind h"
fun tree_children :: "wire_tree \<Rightarrow> wire_tree list" where "tree_children (WireTree h ts) = ts"

text \<open>The rows and kinds of the trees of a forest.\<close>

fun child_rows :: "nat \<Rightarrow> wire_tree list \<Rightarrow> (nat \<times> 32 word) list" where
  "child_rows i [] = []"
| "child_rows i (t # ts) = (i, tree_kind t) # child_rows (i + tree_size t) ts"


text \<open>The numbers, counted from \<open>i\<close>, and the kinds of the rows that satisfy a predicate.\<close>

definition rows_where :: "(node_row \<Rightarrow> bool) \<Rightarrow> nat \<Rightarrow> node_row list \<Rightarrow> (nat \<times> 32 word) list" where
  "rows_where P i rows = map (\<lambda>(j, r). (j, row_kind r)) (filter (\<lambda>(j, r). P r) (enumerate i rows))"

definition below :: "nat \<Rightarrow> node_row \<Rightarrow> bool" where
  "below q r \<longleftrightarrow> row_parent r = of_nat q"

lemma rows_where_simps [simp]:
  "rows_where P i [] = []" "rows_where P i (r # rs) = (if P r then (i, row_kind r) # rows_where P (Suc i) rs else rows_where P (Suc i) rs)"
  by (simp_all add: rows_where_def)

lemma rows_where_append: "rows_where P i (xs @ ys) = rows_where P i xs @ rows_where P (i + length xs) ys"
  by (induction xs arbitrary: i) simp_all

lemma row_kind_head [simp]: "row_kind (head_row p n h) = head_kind h"
  by (simp add: head_row_def)

lemma below_head: "p < 2 ^ 32 \<Longrightarrow> q < 2 ^ 32 \<Longrightarrow> below q (head_row p n h) \<longleftrightarrow> p = q"
  by (simp add: below_def head_row_def word_of_nat_eq_iff take_bit_eq_mod)

lemma tree_nodes_range:
  "(q, u) \<in> set (tree_nodes i t) \<Longrightarrow> i \<le> q \<and> q + tree_size u \<le> i + tree_size t"
  "(q, u) \<in> set (forest_nodes i ts) \<Longrightarrow> i \<le> q \<and> q + tree_size u \<le> i + forest_size ts"
proof (induction t and ts arbitrary: i and i rule: tree_size_forest_size.induct)
  case (1 h ts)
  then show ?case by fastforce
next
  case (3 t ts)
  then show ?case by fastforce
qed simp

text \<open>Rows below a node outside a tree are not in the tree, except its root.\<close>

lemma rows_outside:
  "p < 2 ^ 32 \<Longrightarrow> q < 2 ^ 32 \<Longrightarrow> p \<noteq> q \<Longrightarrow> q < i \<or> i + tree_size t \<le> q \<Longrightarrow> i + tree_size t < 2 ^ 32 \<Longrightarrow>
     rows_where (below q) i (tree_rows p i n t) = []"
  "p < 2 ^ 32 \<Longrightarrow> q < 2 ^ 32 \<Longrightarrow> p \<noteq> q \<Longrightarrow> q < i \<or> i + forest_size ts \<le> q \<Longrightarrow> i + forest_size ts < 2 ^ 32 \<Longrightarrow>
     rows_where (below q) i (forest_rows p i n ts) = []"
proof (induction t and ts arbitrary: p i n and p i n rule: tree_size_forest_size.induct)
  case (1 h ts)
  then show ?case using "1.IH" [of i "i + 1" 0] by (auto simp: below_head)
next
  case (3 t ts)
  have "q < i \<or> i + tree_size t \<le> q" "q < i + tree_size t \<or> i + tree_size t + forest_size ts \<le> q"
    "i + tree_size t < 2 ^ 32" "i + tree_size t + forest_size ts < 2 ^ 32"
    using "3.prems"(4,5) by auto
  then show ?case using "3.IH" [OF "3.prems"(1-3)] by (simp add: rows_where_append)
qed simp

lemma rows_of_parent:
  "p < i \<Longrightarrow> i + forest_size ts < 2 ^ 32 \<Longrightarrow> rows_where (below p) i (forest_rows p i n ts) = child_rows i ts"
proof (induction ts arbitrary: i n)
  case (Cons t ts)
  have "rows_where (below p) i (tree_rows p i m t) = [(i, tree_kind t)]" for m
    using Cons.prems by (cases t) (simp add: below_head rows_outside)
  then show ?case using Cons by (simp add: rows_where_append)
qed simp

lemma rows_below:
  "(q, WireTree h us) \<in> set (tree_nodes i t) \<Longrightarrow> p < i \<Longrightarrow> i + tree_size t < 2 ^ 32 \<Longrightarrow>
     rows_where (below q) i (tree_rows p i n t) = child_rows (q + 1) us"
  "(q, WireTree h us) \<in> set (forest_nodes i ts) \<Longrightarrow> p < i \<Longrightarrow> i + forest_size ts < 2 ^ 32 \<Longrightarrow>
     rows_where (below q) i (forest_rows p i n ts) = child_rows (q + 1) us"
proof (induction t and ts arbitrary: p i n and p i n rule: tree_size_forest_size.induct)
  case (1 k ts)
  show ?case
  proof (cases "q = i")
    case True
    then have "ts = us" using "1.prems"(1) tree_nodes_range(2) [of i "WireTree h us" "i + 1" ts] by auto
    then show ?thesis using "1.prems" True by (simp add: below_head rows_of_parent)
  next
    case False
    then have m: "(q, WireTree h us) \<in> set (forest_nodes (i + 1) ts)" using "1.prems"(1) by simp
    then have "i < q" "q < 2 ^ 32" using tree_nodes_range(2) [OF m] "1.prems"(3) by auto
    then show ?thesis using "1.IH" [OF m, of i 0] "1.prems"(2,3) by (simp add: below_head)
  qed
next
  case (3 t ts)
  show ?case
  proof (cases "(q, WireTree h us) \<in> set (tree_nodes i t)")
    case True
    have r: "i \<le> q" "q < i + tree_size t"
      using tree_nodes_range(1) [OF True] tree_size_pos [of "WireTree h us"] by linarith+
    have "rows_where (below q) (i + tree_size t) (forest_rows p (i + tree_size t) n ts) = []"
      using r "3.prems"(2,3) by (intro rows_outside(2)) auto
    then show ?thesis using "3.IH"(1) [OF True "3.prems"(2)] "3.prems"(3) by (simp add: rows_where_append)
  next
    case False
    then have m: "(q, WireTree h us) \<in> set (forest_nodes (i + tree_size t) ts)" using "3.prems"(1) by simp
    have r: "i + tree_size t \<le> q" "q < 2 ^ 32" using tree_nodes_range(2) [OF m] "3.prems"(3) by auto
    have "rows_where (below q) i (tree_rows p i k t) = []" for k
      using r "3.prems"(2,3) by (intro rows_outside(1)) auto
    then show ?thesis using "3.IH"(2) [OF m] "3.prems"(2,3) by (simp add: rows_where_append)
  qed
qed simp

text \<open>The kind found in the row of a node.\<close>

lemma row_of_node:
  "(q, u) \<in> set (tree_nodes i t) \<Longrightarrow> row_kind (tree_rows p i n t ! (q - i)) = tree_kind u"
  "(q, u) \<in> set (forest_nodes i ts) \<Longrightarrow> row_kind (forest_rows p i n ts ! (q - i)) = tree_kind u"
proof (induction t and ts arbitrary: p i n and p i n rule: tree_size_forest_size.induct)
  case (1 h ts)
  show ?case
  proof (cases "(q, u) = (i, WireTree h ts)")
    case True
    then show ?thesis by (simp add: head_row_def)
  next
    case False
    then have m: "(q, u) \<in> set (forest_nodes (i + 1) ts)" using "1.prems" by auto
    then have "q - i = Suc (q - (i + 1))" using tree_nodes_range(2) [OF m] by auto
    then show ?thesis using "1.IH" [OF m, of i 0] by simp
  qed
next
  case (3 t ts)
  show ?case
  proof (cases "(q, u) \<in> set (tree_nodes i t)")
    case True
    have "q - i < tree_size t" using tree_nodes_range(1) [OF True] tree_size_pos [of u] by linarith
    then show ?thesis using "3.IH"(1) [OF True] by (simp add: nth_append)
  next
    case False
    then have m: "(q, u) \<in> set (forest_nodes (i + tree_size t) ts)" using "3.prems" by simp
    then have "\<not> q - i < tree_size t" "q - i - tree_size t = q - (i + tree_size t)"
      using tree_nodes_range(2) [OF m] by auto
    then show ?thesis using "3.IH"(2) [OF m] by (simp add: nth_append)
  qed
qed simp

lemma nodes_closed:
  "(q, WireTree h us) \<in> set (tree_nodes i t) \<Longrightarrow> set (forest_nodes (q + 1) us) \<subseteq> set (tree_nodes i t)"
  "(q, WireTree h us) \<in> set (forest_nodes i ts) \<Longrightarrow> set (forest_nodes (q + 1) us) \<subseteq> set (forest_nodes i ts)"
  by (induction t and ts arbitrary: i and i rule: tree_size_forest_size.induct) auto

subsection \<open>Scans of the whole table\<close>

definition whole_table :: "wire_tree \<Rightarrow> node_row list" where
  "whole_table t = no_row # tree_rows 0 1 0 t"

lemma whole_below:
  assumes "(q, WireTree h us) \<in> set (tree_nodes 1 t)" "tree_size t + 1 < 2 ^ 32"
  shows "rows_where (below q) 0 (whole_table t) = child_rows (q + 1) us"
proof -
  have "0 < q" "q < 2 ^ 32" using tree_nodes_range(1) [OF assms(1)] assms(2) by auto
  then have "\<not> below q no_row" by (simp add: below_def no_row_def unat32 word_unat_eq_iff)
  then show ?thesis using rows_below(1) [OF assms(1), of 0 0] assms(2) by (simp add: whole_table_def)
qed

lemma filter_rows_where:
  "length (filter (\<lambda>r. P r \<and> row_kind r = k) rows) = length (filter (\<lambda>(j, l). l = k) (rows_where P i rows))"
  by (induction rows arbitrary: i) simp_all

lemma sum_rows_where:
  "sum_list (map (\<lambda>(j, r). if \<not> P r \<or> row_kind r \<noteq> k then 0 else g j) (enumerate i rows)) =
   sum_list (map (\<lambda>(j, l). if l \<noteq> k then 0 else g j) (rows_where P i rows) :: nat list)"
  by (induction rows arbitrary: i) auto

lemma upt_rows_where:
  "filter (\<lambda>j. P (rows ! (j - i))) [i..<i + length rows] = map fst (rows_where P i rows)"
proof (induction rows rule: rev_induct)
  case (snoc r rows)
  have "filter (\<lambda>j. P ((rows @ [r]) ! (j - i))) [i..<i + length rows] =
      filter (\<lambda>j. P (rows ! (j - i))) [i..<i + length rows]"
    by (rule filter_cong) (auto simp: nth_append)
  then show ?case using snoc.IH by (simp add: rows_where_append)
qed simp

lemma firstIndex_filter: "firstIndex P xs = (case filter P xs of [] \<Rightarrow> 0 | x # _ \<Rightarrow> x)"
  by (induction xs) simp_all

lemma children_nodes: "t \<in> set ts \<Longrightarrow> \<exists>j. (j, tree_kind t) \<in> set (child_rows i ts) \<and> (j, t) \<in> set (forest_nodes i ts)"
proof (induction ts arbitrary: i)
  case (Cons u ts)
  show ?case
  proof (cases "t = u")
    case True
    then show ?thesis by (cases u) auto
  next
    case False
    then show ?thesis using Cons.IH [of "i + tree_size u"] Cons.prems by auto
  qed
qed simp

text \<open>The elements of the lists among the children of a node.\<close>

definition list_elements :: "wire_tree list \<Rightarrow> wire_tree list" where
  "list_elements ts = concat (map tree_children (filter (\<lambda>t. tree_kind t = kindNodeList) ts))"

lemma count_child_rows: "length (filter (\<lambda>(j, l). l = k) (child_rows i ts)) = length (filter (\<lambda>t. tree_kind t = k) ts)"
  by (induction ts arbitrary: i) simp_all

lemma sum_elements:
  "(\<And>j h us. (j, WireTree h us) \<in> set (forest_nodes i ts) \<Longrightarrow>
      g j = length (filter (\<lambda>t. tree_kind t = k) us)) \<Longrightarrow>
   sum_list (map (\<lambda>(j, l). if l \<noteq> kindNodeList then 0 else g j) (child_rows i ts)) =
     length (filter (\<lambda>t. tree_kind t = k) (list_elements ts))"
proof (induction ts arbitrary: i)
  case (Cons t ts)
  obtain h us where t: "t = WireTree h us" by (cases t)
  have "g i = length (filter (\<lambda>t. tree_kind t = k) us)" using Cons.prems [of i h us] t by simp
  moreover have "sum_list (map (\<lambda>(j, l). if l \<noteq> kindNodeList then 0 else g j) (child_rows (i + tree_size t) ts)) =
      length (filter (\<lambda>t. tree_kind t = k) (list_elements ts))"
    using Cons.prems by (intro Cons.IH) auto
  ultimately show ?case using t by (simp add: list_elements_def)
qed (simp add: list_elements_def)

end
