(* ===== verification/DataWords.thy ===== *)
theory DataWords
  imports EncoderRoundTrip
begin

text \<open>
  What the data word of a node says to a reader of the encoded file: the children that are present, the
  index of a string, or the offset of a record in the section of extended data, whose words are again
  indices of strings, flags and offsets of file references.  \<open>data_read\<close> reads them from the bytes of the
  file; \<open>emitted_read\<close> shows that it finds the fields of the node.
\<close>

unbundle bit_operations_syntax

subsection \<open>Reading\<close>

definition wire_section :: "bytes \<Rightarrow> nat \<Rightarrow> nat" where
  "wire_section wire header = unat (get32 wire header)"

definition wire_string :: "bytes \<Rightarrow> 32 word \<Rightarrow> bytes" where
  "wire_string wire i =
     (let entry = wire_section wire headerOffsetStringTableOffsets + 4 * unat i;
          start = unat (get32 wire entry);
          end' = unat (get32 wire (entry + 4))
      in take (end' - start) (drop (wire_section wire headerOffsetStringTable + start) wire))"

definition extended_words :: "bytes \<Rightarrow> nat \<Rightarrow> nat \<Rightarrow> 32 word list" where
  "extended_words wire offset n =
     map (\<lambda>k. get32 wire (wire_section wire headerOffsetExtendedData + offset + 4 * k)) [0..<n]"

definition references_read :: "bytes \<Rightarrow> 32 word \<Rightarrow> file_reference list \<Rightarrow> bool" where
  "references_read wire i rs \<longleftrightarrow>
     (if rs = [] then i = noStructuredData
      else \<exists>rest. read_references (drop (wire_section wire headerOffsetStructuredData + unat i) wire) = Some (rs, rest))"

definition extended_read :: "bytes \<Rightarrow> nat \<Rightarrow> node_encoding \<Rightarrow> bool" where
  "extended_read wire offset e \<longleftrightarrow>
     (if encoding_extended e = extendedLiteral then
        \<exists>i. extended_words wire offset 2 = [i, encoding_tokenFlags e] \<and> wire_string wire i = encoding_text e
      else if encoding_extended e = extendedTemplate then
        \<exists>i j. extended_words wire offset 3 = [i, j, encoding_tokenFlags e] \<and>
          wire_string wire i = encoding_text e \<and> wire_string wire j = encoding_rawText e
      else encoding_extended e = extendedSourceFile \<and>
        (let f = encoding_sourceFile e in
         \<exists>i j k x y z. extended_words wire offset 12 = [i, j, k, source_LanguageVariant f, source_ScriptKind f, x, y, z,
             noStructuredData, noStructuredData, noStructuredData, 0] \<and>
           wire_string wire i = source_Text f \<and> wire_string wire j = source_FileName f \<and>
           wire_string wire k = source_Path f \<and> references_read wire x (source_ReferencedFiles f) \<and>
           references_read wire y (source_TypeReferenceDirectives f) \<and>
           references_read wire z (source_LibReferenceDirectives f)))"

definition data_read :: "bytes \<Rightarrow> ast_node \<Rightarrow> 32 word \<Rightarrow> bool" where
  "data_read wire n d \<longleftrightarrow>
     (let e = node_targetEncoding n; cs = encoding_children e in
      if encoding_dataType e = nodeDataChildren then
        \<forall>b < 32. bit d b \<longleftrightarrow> bit (encoding_commonData e) b \<or> (b < length cs \<and> child_present (cs ! b))
      else if encoding_dataType e = nodeDataString then
        \<exists>i \<le> nodeStringIndexMask. d = (nodeDataTypeString OR encoding_commonData e OR i) \<and>
          wire_string wire i = encoding_text e
      else encoding_dataType e = nodeDataExtended \<and>
        (\<exists>offset \<le> nodeExtendedDataMask. d = (nodeDataTypeExtended OR encoding_commonData e OR offset) \<and>
          extended_read wire (unat offset) e))"

subsection \<open>The sections\<close>

lemma sections_wire:
  assumes "sections s wire"
  obtains header where
    "wire = header @ concat (map le32 (table_offsets (enc_strings s))) @ table_data (enc_strings s) @ enc_extendedData s @
       enc_structuredData s @ concat (map le32 (enc_nodeValues s))" "length header = 44"
    "wire_section wire headerOffsetStringTableOffsets = 44"
    "wire_section wire headerOffsetStringTable = 44 + 4 * length (table_offsets (enc_strings s))"
    "wire_section wire headerOffsetExtendedData =
       44 + 4 * length (table_offsets (enc_strings s)) + length (table_data (enc_strings s))"
    "wire_section wire headerOffsetStructuredData =
       44 + 4 * length (table_offsets (enc_strings s)) + length (table_data (enc_strings s)) + length (enc_extendedData s)"
    "44 + 4 * length (table_offsets (enc_strings s)) + length (table_data (enc_strings s)) + length (enc_extendedData s) +
       length (enc_structuredData s) < 2 ^ 32"
proof -
  let ?a = "44 + 4 * length (table_offsets (enc_strings s))"
  let ?b = "?a + length (table_data (enc_strings s))"
  let ?c = "?b + length (enc_extendedData s)"
  obtain header where w: "wire = header @ concat (map le32 (table_offsets (enc_strings s))) @ table_data (enc_strings s) @
      enc_extendedData s @ enc_structuredData s @ concat (map le32 (enc_nodeValues s))" "length header = 44"
    and small: "?c + length (enc_structuredData s) + length (concat (map le32 (enc_nodeValues s))) < 2 ^ 32"
    and g: "get32 wire 24 = 44" "get32 wire 28 = of_nat ?a" "get32 wire 32 = of_nat ?b" "get32 wire 36 = of_nat ?c"
    using assms unfolding sections_def Let_def length_concat_le32 by blast
  have u: "unat (of_nat ?a :: 32 word) = ?a" "unat (of_nat ?b :: 32 word) = ?b" "unat (of_nat ?c :: 32 word) = ?c"
    using small by - (rule unat32, linarith)+
  show thesis
  proof (rule that [OF w])
    show "wire_section wire headerOffsetStringTableOffsets = 44"
      by (simp add: wire_section_def headerOffsetStringTableOffsets_def g(1))
    show "wire_section wire headerOffsetStringTable = ?a"
      unfolding wire_section_def headerOffsetStringTable_def g(2) by (rule u(1))
    show "wire_section wire headerOffsetExtendedData = ?b"
      unfolding wire_section_def headerOffsetExtendedData_def g(3) by (rule u(2))
    show "wire_section wire headerOffsetStructuredData = ?c"
      unfolding wire_section_def headerOffsetStructuredData_def g(4) by (rule u(3))
    show "?c + length (enc_structuredData s) < 2 ^ 32" using small by linarith
  qed
qed

lemma string_read:
  assumes "add_string text s0 = Inr (i, s1)" "grown s1 s" "sections s wire"
  shows "wire_string wire i = text"
proof -
  let ?os = "table_offsets (enc_strings s0)" and ?ds = "table_data (enc_strings s0)"
  let ?a = "length ?ds" and ?b = "length ?ds + length text"
  have t: "i = of_nat (length ?os)" "table_offsets (enc_strings s1) = ?os @ [of_nat ?a, of_nat ?b]"
    "table_data (enc_strings s1) = ?ds @ text"
    using assms(1) by (auto simp: add_string_def table_add_def Let_def split: if_splits)
  obtain os where os: "table_offsets (enc_strings s) = ?os @ [of_nat ?a, of_nat ?b] @ os"
    using assms(2) t(2) by (auto simp: grown_def)
  obtain ds where ds: "table_data (enc_strings s) = ?ds @ text @ ds" using assms(2) t(3) by (auto simp: grown_def)
  obtain header where w: "wire = header @ concat (map le32 (table_offsets (enc_strings s))) @ table_data (enc_strings s) @
      enc_extendedData s @ enc_structuredData s @ concat (map le32 (enc_nodeValues s))" "length header = 44"
    and sec: "wire_section wire headerOffsetStringTableOffsets = 44"
      "wire_section wire headerOffsetStringTable = 44 + 4 * length (table_offsets (enc_strings s))"
    and small: "44 + 4 * length (table_offsets (enc_strings s)) + length (table_data (enc_strings s)) + length (enc_extendedData s) +
       length (enc_structuredData s) < 2 ^ 32"
    using assms(3) by (rule sections_wire)
  have lens: "4 * length ?os < 2 ^ 32" "?b < 2 ^ 32" using small by (simp_all add: os ds)
  have u: "unat i = length ?os" "unat (of_nat ?a :: 32 word) = ?a" "unat (of_nat ?b :: 32 word) = ?b"
    unfolding t(1) using lens by - (rule unat32, linarith)+
  have word: "get32 wire (44 + 4 * k) = table_offsets (enc_strings s) ! k" if "k < length (table_offsets (enc_strings s))" for k
    using get32_append [of header "concat (map le32 (table_offsets (enc_strings s))) @ table_data (enc_strings s) @
        enc_extendedData s @ enc_structuredData s @ concat (map le32 (enc_nodeValues s))" "4 * k"] get32_words [OF that] w by simp
  have start: "get32 wire (44 + 4 * length ?os) = of_nat ?a" using word [of "length ?os"] by (simp add: os nth_append)
  have stop: "get32 wire (48 + 4 * length ?os) = of_nat ?b"
    using word [of "Suc (length ?os)"] by (simp add: os nth_append del: of_nat_add)
  have "drop (44 + 4 * length (table_offsets (enc_strings s)) + ?a) wire = text @ ds @ enc_extendedData s @
      enc_structuredData s @ concat (map le32 (enc_nodeValues s))"
    unfolding w(1) using w(2) by (simp add: ds)
  then show ?thesis by (simp add: wire_string_def Let_def sec u start stop del: of_nat_add)
qed

lemma words_read:
  assumes "enc_extendedData s1 = appendUint32s pre ws" "grown s1 s" "sections s wire" "length ws = n"
  shows "extended_words wire (length pre) n = ws"
proof -
  obtain rest where e: "enc_extendedData s = pre @ concat (map le32 ws) @ rest"
    using assms(1,2) by (auto simp: grown_def appendUint32s_append)
  obtain header where w: "wire = header @ concat (map le32 (table_offsets (enc_strings s))) @ table_data (enc_strings s) @
      enc_extendedData s @ enc_structuredData s @ concat (map le32 (enc_nodeValues s))" "length header = 44"
    and sec: "wire_section wire headerOffsetExtendedData =
       44 + 4 * length (table_offsets (enc_strings s)) + length (table_data (enc_strings s))"
    using assms(3) by (rule sections_wire)
  let ?pre = "header @ concat (map le32 (table_offsets (enc_strings s))) @ table_data (enc_strings s) @ pre"
  let ?rest = "rest @ enc_structuredData s @ concat (map le32 (enc_nodeValues s))"
  have "get32 wire (wire_section wire headerOffsetExtendedData + length pre + 4 * k) = ws ! k" if "k < length ws" for k
    using get32_append [of ?pre "concat (map le32 ws) @ ?rest" "4 * k"] get32_words [OF that, of ?rest] w sec e
    by (simp add: add.assoc)
  then show ?thesis unfolding extended_words_def assms(4) [symmetric] by (intro nth_equalityI) simp_all
qed

lemma enc_each_length: "enc_each rs = Some e \<Longrightarrow> length rs \<le> length e"
proof (induction rs arbitrary: e)
  case (Cons r rs)
  then obtain a b where ab: "enc_reference r = Some a" "enc_each rs = Some b" "e = a @ b" by (auto split: option.splits)
  have "a \<noteq> []" using ab(1) by (auto simp: enc_reference_def enc_header_def appendArrayHeader_def)
  then have "1 \<le> length a" by (cases a) simp_all
  then show ?case using Cons.IH [OF ab(2)] ab(3) by simp
qed simp

lemma references_read_back:
  assumes "add_references rs s0 = Inr (i, s1)" "grown s1 s" "sections s wire"
  shows "references_read wire i rs"
proof (cases "rs = []")
  case True
  then show ?thesis using assms(1) by (auto simp: references_read_def add_references_def appendFileReferences_def)
next
  case False
  let ?st = "enc_structuredData s0"
  obtain e where e: "enc_each rs = Some e" "i = of_nat (length ?st)"
      "enc_structuredData s1 = ?st @ enc_header (length rs) @ e"
    using assms(1) False
    by (auto simp: add_references_def appendFileReferences_def each_append header_append split: if_splits option.splits)
  obtain rest where st: "enc_structuredData s = ?st @ enc_header (length rs) @ e @ rest"
    using assms(2) e(3) by (auto simp: grown_def)
  obtain header where w: "wire = header @ concat (map le32 (table_offsets (enc_strings s))) @ table_data (enc_strings s) @
      enc_extendedData s @ enc_structuredData s @ concat (map le32 (enc_nodeValues s))" "length header = 44"
    and sec: "wire_section wire headerOffsetStructuredData =
       44 + 4 * length (table_offsets (enc_strings s)) + length (table_data (enc_strings s)) + length (enc_extendedData s)"
    and small: "44 + 4 * length (table_offsets (enc_strings s)) + length (table_data (enc_strings s)) + length (enc_extendedData s) +
       length (enc_structuredData s) < 2 ^ 32"
    using assms(3) by (rule sections_wire)
  have lens: "length ?st < 2 ^ 32" "length rs < 2 ^ 32" using small enc_each_length [OF e(1)] by (simp_all add: st)
  have "drop (wire_section wire headerOffsetStructuredData + unat i) wire =
      enc_header (length rs) @ e @ rest @ concat (map le32 (enc_nodeValues s))"
    unfolding sec e(2) unat32 [OF lens(1)] unfolding w(1) using w(2) by (simp add: st)
  then show ?thesis using False lens(2) e(1) by (simp add: references_read_def read_references_def)
qed

subsection \<open>The data words\<close>

lemma bit_childMask: "b < 32 \<Longrightarrow> bit (childMask cs) b \<longleftrightarrow> b < length cs \<and> child_present (cs ! b)"
proof -
  have "bit (fold (\<lambda>(index, child) result. if child_present child then result OR push_bit index 1 else result)
      (enumerate i cs) w :: 32 word) b \<longleftrightarrow> bit w b \<or> (i \<le> b \<and> b < i + length cs \<and> child_present (cs ! (b - i)))"
    if "b < 32" for i w
  proof (induction cs arbitrary: i w)
    case (Cons c cs)
    have one: "bit (push_bit i 1 :: 32 word) b \<longleftrightarrow> b = i" using \<open>b < 32\<close> by (auto simp: bit_simps)
    have "bit (fold (\<lambda>(index, child) result. if child_present child then result OR push_bit index 1 else result)
        (enumerate i (c # cs)) w :: 32 word) b \<longleftrightarrow>
        bit (if child_present c then w OR push_bit i 1 else w) b \<or>
        (Suc i \<le> b \<and> b < Suc i + length cs \<and> child_present (cs ! (b - Suc i)))"
      by (simp only: enumerate_simps fold.simps comp_apply case_prod_conv Cons.IH)
    also have "bit (if child_present c then w OR push_bit i 1 else w) b \<longleftrightarrow> bit w b \<or> (b = i \<and> child_present c)"
      using one by (auto simp: bit_or_iff)
    finally have fold: "bit (fold (\<lambda>(index, child) result. if child_present child then result OR push_bit index 1 else result)
        (enumerate i (c # cs)) w :: 32 word) b \<longleftrightarrow> (bit w b \<or> (b = i \<and> child_present c)) \<or>
        (Suc i \<le> b \<and> b < Suc i + length cs \<and> child_present (cs ! (b - Suc i)))" .
    show ?case
    proof (cases "Suc i \<le> b")
      case True
      then have "b - i = Suc (b - Suc i)" by simp
      then show ?thesis unfolding fold using True by auto
    next
      case False
      then show ?thesis unfolding fold by auto
    qed
  qed auto
  from this [of 0 0] show "b < 32 \<Longrightarrow> ?thesis" by (simp add: childMask_def)
qed

lemma source_file_read:
  assumes "appendSourceFile f s0 = Inr s1" "grown s1 s" "sections s wire"
  shows "\<exists>i j k x y z. extended_words wire (length (enc_extendedData s0)) 12 =
      [i, j, k, source_LanguageVariant f, source_ScriptKind f, x, y, z, noStructuredData, noStructuredData, noStructuredData, 0] \<and>
    wire_string wire i = source_Text f \<and> wire_string wire j = source_FileName f \<and> wire_string wire k = source_Path f \<and>
    references_read wire x (source_ReferencedFiles f) \<and> references_read wire y (source_TypeReferenceDirectives f) \<and>
    references_read wire z (source_LibReferenceDirectives f)"
proof -
  obtain i a j b k c x p y q z r where
    a: "add_string (source_Text f) s0 = Inr (i, a)" and b: "add_string (source_FileName f) a = Inr (j, b)" and
    c: "add_string (source_Path f) b = Inr (k, c)" and p: "add_references (source_ReferencedFiles f) c = Inr (x, p)" and
    q: "add_references (source_TypeReferenceDirectives f) p = Inr (y, q)" and
    r: "add_references (source_LibReferenceDirectives f) q = Inr (z, r)" and
    t: "s1 = r\<lparr>enc_extendedData := appendUint32s (enc_extendedData r)
          [i, j, k, source_LanguageVariant f, source_ScriptKind f,
           x, y, z, noStructuredData, noStructuredData, noStructuredData, 0]\<rparr>"
    using assms(1) unfolding appendSourceFile_def by (auto split: if_splits sum.splits prod.splits)
  have ext: "enc_extendedData r = enc_extendedData s0"
    using add_extended(1) [OF a] add_extended(1) [OF b] add_extended(1) [OF c] add_extended(2) [OF p]
      add_extended(2) [OF q] add_extended(2) [OF r] by simp
  have gr: "grown r s" using assms(2) extended_frame [of r] unfolding t by (auto simp: data_frame_def intro: grown_trans)
  have gq: "grown q s" using grown_trans [OF _ gr] add_references_frame [OF r] by (simp add: data_frame_def)
  have gp: "grown p s" using grown_trans [OF _ gq] add_references_frame [OF q] by (simp add: data_frame_def)
  have gc: "grown c s" using grown_trans [OF _ gp] add_references_frame [OF p] by (simp add: data_frame_def)
  have gb: "grown b s" using grown_trans [OF _ gc] add_string_frame [OF c] by (simp add: data_frame_def)
  have ga: "grown a s" using grown_trans [OF _ gb] add_string_frame [OF b] by (simp add: data_frame_def)
  have "extended_words wire (length (enc_extendedData s0)) 12 =
      [i, j, k, source_LanguageVariant f, source_ScriptKind f, x, y, z, noStructuredData, noStructuredData, noStructuredData, 0]"
    using words_read [OF _ assms(2,3), of "enc_extendedData s0"
        "[i, j, k, source_LanguageVariant f, source_ScriptKind f, x, y, z, noStructuredData, noStructuredData, noStructuredData, 0]" 12]
    by (simp add: t ext)
  then show ?thesis
    using string_read [OF a ga assms(3)] string_read [OF b gb assms(3)] string_read [OF c gc assms(3)]
      references_read_back [OF p gp assms(3)] references_read_back [OF q gq assms(3)] references_read_back [OF r gr assms(3)]
    by (intro exI conjI)
qed

lemma extended_read_back:
  assumes "appendExtended n e s0 = Inr s1" "grown s1 s" "sections s wire"
  shows "extended_read wire (length (enc_extendedData s0)) e"
proof -
  consider (literal) "encoding_extended e = extendedLiteral"
    | (template) "encoding_extended e = extendedTemplate"
    | (source) "encoding_extended e = extendedSourceFile"
    using assms(1) by (auto simp: appendExtended_def split: if_splits)
  then show ?thesis
  proof cases
    case literal
    then obtain i a where a: "add_string (encoding_text e) s0 = Inr (i, a)"
      and t: "s1 = a\<lparr>enc_extendedData := appendUint32s (enc_extendedData a) [i, encoding_tokenFlags e]\<rparr>"
      using assms(1) by (auto simp: appendExtended_def split: sum.splits)
    have "grown a s" using assms(2) extended_frame [of a] unfolding t by (auto simp: data_frame_def intro: grown_trans)
    then show ?thesis
      using literal string_read [OF a _ assms(3)]
        words_read [OF _ assms(2,3), of "enc_extendedData s0" "[i, encoding_tokenFlags e]" 2] add_extended(1) [OF a]
      by (simp add: extended_read_def t)
  next
    case template
    then obtain i a j b where a: "add_string (encoding_text e) s0 = Inr (i, a)" and b: "add_string (encoding_rawText e) a = Inr (j, b)"
      and t: "s1 = b\<lparr>enc_extendedData := appendUint32s (enc_extendedData b) [i, j, encoding_tokenFlags e]\<rparr>"
      using assms(1) by (auto simp: appendExtended_def extended_defs split: sum.splits)
    have gb: "grown b s" using assms(2) extended_frame [of b] unfolding t by (auto simp: data_frame_def intro: grown_trans)
    have ga: "grown a s" using grown_trans [OF _ gb] add_string_frame [OF b] by (simp add: data_frame_def)
    show ?thesis
      using template string_read [OF a ga assms(3)] string_read [OF b gb assms(3)]
        words_read [OF _ assms(2,3), of "enc_extendedData s0" "[i, j, encoding_tokenFlags e]" 3]
        add_extended(1) [OF a] add_extended(1) [OF b]
      by (simp add: extended_read_def extended_defs t)
  next
    case source
    then have "appendSourceFile (encoding_sourceFile e) s0 = Inr s1"
      using assms(1) by (simp add: appendExtended_def extended_defs)
    from source_file_read [OF this assms(2,3)] source show ?thesis
      by (simp only: extended_read_def Let_def extended_defs) simp
  qed
qed

text \<open>Whatever is encoded later: the data word of a node says what the node has.\<close>

lemma emitted_read:
  assumes "emitted s n d" "sections s wire"
  shows "data_read wire n d"
proof -
  let ?e = "node_targetEncoding n"
  obtain s0 s1 where d: "nodeData n s0 = Inr (d, s1)" and g: "grown s1 s" using assms(1) by (auto simp: emitted_def)
  consider (children) "encoding_dataType ?e = nodeDataChildren" | (string) "encoding_dataType ?e = nodeDataString"
    | (extended) "encoding_dataType ?e = nodeDataExtended"
    using d by (auto simp: nodeData_def Let_def split: if_splits)
  then show ?thesis
  proof cases
    case children
    then have "d = nodeDataTypeChildren OR encoding_commonData ?e OR childMask (encoding_children ?e)"
      using d by (simp add: nodeData_def Let_def split: if_splits)
    then show ?thesis using children bit_childMask by (auto simp: data_read_def Let_def nodeDataTypeChildren_def bit_or_iff)
  next
    case string
    then obtain i where i: "add_string (encoding_text ?e) s0 = Inr (i, s1)" "i \<le> nodeStringIndexMask"
      "d = nodeDataTypeString OR encoding_commonData ?e OR i"
      using d by (auto simp: nodeData_def Let_def node_data_defs split: if_splits sum.splits)
    then show ?thesis using string string_read [OF i(1) g assms(2)]
      by (auto simp: data_read_def Let_def node_data_defs)
  next
    case extended
    let ?o = "of_nat (length (enc_extendedData s0)) :: 32 word"
    have o: "?o \<le> nodeExtendedDataMask" "appendExtended n ?e s0 = Inr s1" "d = nodeDataTypeExtended OR encoding_commonData ?e OR ?o"
      using d extended by (auto simp: nodeData_def Let_def node_data_defs not_less split: if_splits sum.splits)
    have "grown s0 s" using grown_trans [OF _ g] appendExtended_frame [OF o(2)] by (simp add: data_frame_def)
    then have "length (enc_extendedData s0) \<le> length (enc_extendedData s)" by (auto simp: grown_def)
    moreover have "length (enc_extendedData s) < 2 ^ 32" by (rule sections_wire [OF assms(2)]) linarith
    ultimately have "unat ?o = length (enc_extendedData s0)" by (intro unat32) linarith
    then show ?thesis using extended o extended_read_back [OF o(2) g assms(2)]
      unfolding data_read_def Let_def
      by (simp add: node_data_defs) (rule exI [of _ ?o], simp)
  qed
qed

end
