(* ===== verification/EncoderProperties.thy ===== *)
theory EncoderProperties
  imports TableQueries DataWords
begin

text \<open>
  What the encoder of syntax trees guarantees, and what the reader of encoded files makes of its output.
\<close>

subsection \<open>Answers on the tree\<close>

lemma evidence_identifies:
  assumes "(q, u) \<in> set (tree_nodes 1 t)" "tree_size t + 1 < 2 ^ 32"
  shows "identifies (map row_evidence (whole_table t)) (of_nat q) (tree_kind u)"
proof -
  have r: "1 \<le> q" "q < tree_size t + 1"
    using tree_nodes_range(1) [OF assms(1)] tree_size_pos [of u] by linarith+
  have uq: "unat (of_nat q :: 32 word) = q" "unat (of_nat (tree_size t + 1) :: 32 word) = tree_size t + 1"
    using assms(2) r by - (rule unat32, linarith)+
  have "(of_nat q :: 32 word) < of_nat (tree_size t + 1)" using r(2) uq by (simp only: word_less_nat_alt)
  moreover have "whole_table t ! q = tree_rows 0 1 0 t ! (q - 1)" using r by (simp add: whole_table_def)
  ultimately show ?thesis
    using row_of_node(1) [OF assms(1), of 0 0] r uq
    by (simp add: identifies_def row_evidence_def not_le whole_table_def del: of_nat_Suc)
qed

lemma parent_evidence [simp]: "evidence_parent (row_evidence r) = of_nat q \<longleftrightarrow> below q r"
  by (simp add: row_evidence_def below_def)

lemma kind_evidence [simp]: "evidence_kind (row_evidence r) = row_kind r"
  by (simp add: row_evidence_def)

definition tree_evidence :: "wire_tree \<Rightarrow> source_evidence \<Rightarrow> bool" where
  "tree_evidence t s \<longleftrightarrow> evidence_nodes s = map row_evidence (whole_table t) \<and> tree_size t + 1 < 2 ^ 32"

lemma directChildren_tree:
  assumes "tree_evidence t s" "(q, WireTree h us) \<in> set (tree_nodes 1 t)"
  shows "directChildren (of_nat q) s = map fst (child_rows (q + 1) us)"
proof -
  have e: "evidence_nodes s = map row_evidence (whole_table t)" "tree_size t + 1 < 2 ^ 32"
    using assms(1) by (simp_all add: tree_evidence_def)
  have "directChildren (of_nat q) s =
      filter (\<lambda>j. below q (tree_rows 0 1 0 t ! (j - 1))) [1..<1 + length (tree_rows 0 1 0 t)]"
    unfolding directChildren_def e(1)
    by (rule filter_cong) (auto simp: whole_table_def nth_Cons')
  also have "\<dots> = map fst (rows_where (below q) 1 (tree_rows 0 1 0 t))" by (rule upt_rows_where)
  also have "rows_where (below q) 1 (tree_rows 0 1 0 t) = child_rows (q + 1) us"
    using assms(2) e(2) by (intro rows_below(1)) simp_all
  finally show ?thesis .
qed

lemma firstChild_tree:
  assumes "tree_evidence t s" "(q, WireTree h us) \<in> set (tree_nodes 1 t)"
  shows "firstChild (of_nat q) s = (if us = [] then 0 else q + 1)"
  using directChildren_tree [OF assms] unfolding firstChild_def directChildren_def firstIndex_filter
  by (cases us) simp_all

lemma enumerate_map: "enumerate i (map f xs) = map (\<lambda>(j, x). (j, f x)) (enumerate i xs)"
  by (induction xs arbitrary: i) simp_all

lemma typeParameters_tree:
  assumes "tree_evidence t s" "(q, WireTree h us) \<in> set (tree_nodes 1 t)"
  shows "declarationTypeParameterCount (of_nat q) (head_kind h) s =
    Inr (length (filter (\<lambda>u. tree_kind u = SyntaxKindTypeParameter) (list_elements us)))"
proof -
  have e: "evidence_nodes s = map row_evidence (whole_table t)" "tree_size t + 1 < 2 ^ 32"
    using assms(1) by (simp_all add: tree_evidence_def)
  let ?g = "\<lambda>j. length (filter (\<lambda>r. below j r \<and> row_kind r = SyntaxKindTypeParameter) (whole_table t))"
  have "identifies (evidence_nodes s) (of_nat q) (head_kind h)"
    using evidence_identifies [OF assms(2) e(2)] by (simp add: e(1))
  moreover have "length (filter (\<lambda>child. evidence_parent child = of_nat j \<and> evidence_kind child = SyntaxKindTypeParameter)
      (map row_evidence (whole_table t))) = ?g j" for j
    by (simp add: filter_map comp_def)
  ultimately have "declarationTypeParameterCount (of_nat q) (head_kind h) s = Inr (sum_list (map (\<lambda>(j, r).
      if \<not> below q r \<or> row_kind r \<noteq> kindNodeList then 0 else ?g j) (enumerate 0 (whole_table t))))"
    by (simp add: declarationTypeParameterCount_def Let_def e(1) enumerate_map comp_def case_prod_unfold cong: if_cong)
  also have "\<dots> = Inr (sum_list (map (\<lambda>(j, l). if l \<noteq> kindNodeList then 0 else ?g j) (child_rows (q + 1) us)))"
    by (simp only: sum_rows_where whole_below [OF assms(2) e(2)])
  also have "sum_list (map (\<lambda>(j, l). if l \<noteq> kindNodeList then 0 else ?g j) (child_rows (q + 1) us)) =
      length (filter (\<lambda>u. tree_kind u = SyntaxKindTypeParameter) (list_elements us))"
  proof (rule sum_elements)
    fix j k vs assume "(j, WireTree k vs) \<in> set (forest_nodes (q + 1) us)"
    then have "(j, WireTree k vs) \<in> set (tree_nodes 1 t)" using nodes_closed(1) [OF assms(2)] by blast
    then show "?g j = length (filter (\<lambda>u. tree_kind u = SyntaxKindTypeParameter) vs)"
      by (simp only: filter_rows_where [where i = 0] whole_below [OF _ e(2)] count_child_rows)
  qed
  finally show ?thesis .
qed

definition access_hidden :: "wire_tree list \<Rightarrow> bool" where
  "access_hidden us \<longleftrightarrow> (\<exists>u \<in> set us. tree_kind u = SyntaxKindPrivateIdentifier) \<or>
     (\<exists>u \<in> set (list_elements us). tree_kind u = SyntaxKindPrivateKeyword \<or> tree_kind u = SyntaxKindProtectedKeyword)"

lemma accessFrom_rows:
  "accessFrom nodes (of_nat q) (enumerate i (map row_evidence rows)) =
     (if \<exists>(j, k) \<in> set (rows_where (below q) i rows). k = SyntaxKindPrivateIdentifier \<or>
        k = kindNodeList \<and> list_ex (\<lambda>m. evidence_parent m = of_nat j \<and>
          (evidence_kind m = SyntaxKindPrivateKeyword \<or> evidence_kind m = SyntaxKindProtectedKeyword)) nodes
      then ProjectMemberAccessNonPublic else ProjectMemberAccessPublic)"
  by (induction rows arbitrary: i) auto

lemma ex_rows_where:
  "(\<exists>r \<in> set rows. P r \<and> Q (row_kind r)) \<longleftrightarrow> (\<exists>(j, k) \<in> set (rows_where P i rows). Q k)"
  by (induction rows arbitrary: i) auto

lemma kinds_child_rows: "(\<exists>(j, k) \<in> set (child_rows i ts). Q k) \<longleftrightarrow> (\<exists>t \<in> set ts. Q (tree_kind t))"
  by (induction ts arbitrary: i) auto

lemma ex_elements:
  "(\<And>j h us. (j, WireTree h us) \<in> set (forest_nodes i ts) \<Longrightarrow> P j \<longleftrightarrow> (\<exists>u \<in> set us. Q u)) \<Longrightarrow>
   (\<exists>(j, k) \<in> set (child_rows i ts). k = kindNodeList \<and> P j) \<longleftrightarrow> (\<exists>u \<in> set (list_elements ts). Q u)"
proof (induction ts arbitrary: i)
  case (Cons t ts)
  obtain h us where t: "t = WireTree h us" by (cases t)
  have "P i \<longleftrightarrow> (\<exists>u \<in> set us. Q u)" using Cons.prems [of i h us] t by simp
  moreover have "(\<exists>(j, k) \<in> set (child_rows (i + tree_size t) ts). k = kindNodeList \<and> P j) \<longleftrightarrow>
      (\<exists>u \<in> set (list_elements ts). Q u)"
    using Cons.prems by (intro Cons.IH) auto
  ultimately show ?case using t by (auto simp: list_elements_def)
qed (simp add: list_elements_def)

lemma access_tree:
  assumes "tree_evidence t s" "(q, WireTree h us) \<in> set (tree_nodes 1 t)"
  shows "declarationAccess (of_nat q) (head_kind h) s =
    Inr (if access_hidden us then ProjectMemberAccessNonPublic else ProjectMemberAccessPublic)"
proof -
  have e: "evidence_nodes s = map row_evidence (whole_table t)" "tree_size t + 1 < 2 ^ 32"
    using assms(1) by (simp_all add: tree_evidence_def)
  let ?Q = "\<lambda>k. k = SyntaxKindPrivateKeyword \<or> k = SyntaxKindProtectedKeyword"
  let ?P = "\<lambda>j. list_ex (\<lambda>m. evidence_parent m = of_nat j \<and> ?Q (evidence_kind m)) (map row_evidence (whole_table t))"
  have P: "?P j \<longleftrightarrow> (\<exists>v \<in> set vs. ?Q (tree_kind v))" if "(j, WireTree k vs) \<in> set (forest_nodes (q + 1) us)" for j k vs
  proof -
    have "(j, WireTree k vs) \<in> set (tree_nodes 1 t)" using nodes_closed(1) [OF assms(2)] that by blast
    then have "(\<exists>r \<in> set (whole_table t). below j r \<and> ?Q (row_kind r)) \<longleftrightarrow> (\<exists>v \<in> set vs. ?Q (tree_kind v))"
      using ex_rows_where [of "whole_table t" "below j" ?Q 0] kinds_child_rows [of "j + 1" vs ?Q]
      by (simp only: whole_below [OF _ e(2)])
    then show ?thesis by (auto simp: list_ex_iff)
  qed
  have "identifies (evidence_nodes s) (of_nat q) (head_kind h)"
    using evidence_identifies [OF assms(2) e(2)] by (simp add: e(1))
  then have "declarationAccess (of_nat q) (head_kind h) s =
      Inr (if \<exists>(j, k) \<in> set (child_rows (q + 1) us). k = SyntaxKindPrivateIdentifier \<or> k = kindNodeList \<and> ?P j
        then ProjectMemberAccessNonPublic else ProjectMemberAccessPublic)"
    unfolding declarationAccess_def e(1) accessFrom_rows whole_below [OF assms(2) e(2)] by simp
  moreover have "(\<exists>(j, k) \<in> set (child_rows (q + 1) us). k = SyntaxKindPrivateIdentifier \<or> k = kindNodeList \<and> ?P j) \<longleftrightarrow>
      (\<exists>(j, k) \<in> set (child_rows (q + 1) us). k = SyntaxKindPrivateIdentifier) \<or>
      (\<exists>(j, k) \<in> set (child_rows (q + 1) us). k = kindNodeList \<and> ?P j)" by auto
  moreover have "(\<exists>(j, k) \<in> set (child_rows (q + 1) us). k = kindNodeList \<and> ?P j) \<longleftrightarrow>
      (\<exists>u \<in> set (list_elements us). ?Q (tree_kind u))"
    by (rule ex_elements) (rule P)
  ultimately show ?thesis
    using kinds_child_rows [of "q + 1" us "\<lambda>k. k = SyntaxKindPrivateIdentifier"] by (simp only: access_hidden_def)
qed

subsection \<open>A concrete file\<close>

definition demo_encoding :: node_encoding where
  "demo_encoding = \<lparr>encoding_dataType = nodeDataChildren, encoding_commonData = 0, encoding_children = [],
     encoding_text = [], encoding_extended = 0, encoding_tokenFlags = 0, encoding_rawText = [],
     encoding_sourceFile = \<lparr>source_Text = [], source_FileName = [], source_Path = [], source_LanguageVariant = 0,
       source_ScriptKind = 0, source_ReferencedFiles = [], source_TypeReferenceDirectives = [],
       source_LibReferenceDirectives = []\<rparr>\<rparr>"

definition demo_node :: "32 word \<Rightarrow> node_encoding \<Rightarrow> ast_node" where
  "demo_node kind e = \<lparr>node_Kind = kind, node_Pos = -1, node_End = -1, node_Flags = 0, node_official = None,
     node_targetEncoding = e\<rparr>"

definition demo_child :: "node_ref \<Rightarrow> node_ref list option \<Rightarrow> child_encoding" where
  "demo_child node nodes = \<lparr>child_name = ''child'', child_present = True, child_required = True, child_raw = False,
     child_node = node, child_nodes = nodes\<rparr>"

text \<open>A file with the text \<open>hi\<close>, one statement with one type parameter, and the end of the file.\<close>

definition demo_ast :: ast_heap where
  "demo_ast =
     [demo_node 307 (demo_encoding\<lparr>encoding_dataType := nodeDataExtended, encoding_extended := extendedSourceFile,
        encoding_children := [demo_child None (Some [Some 1]), demo_child (Some 3) None],
        encoding_sourceFile := (encoding_sourceFile demo_encoding)\<lparr>source_Text := [0x68, 0x69],
          source_FileName := [0x2f, 0x61], source_Path := [0x2f, 0x61]\<rparr>\<rparr>),
      demo_node 263 (demo_encoding\<lparr>encoding_children := [demo_child None (Some [Some 2])]\<rparr>),
      demo_node 169 demo_encoding,
      demo_node 1 demo_encoding]"

lemmas demo_ast_defs = demo_ast_def demo_node_def demo_child_def demo_encoding_def

definition demo_wire :: bytes where
  "demo_wire = (case EncodeNode demo_ast (Some 0) of Inl _ \<Rightarrow> [] | Inr wire \<Rightarrow> wire)"

lemma demo_encodes: "EncodeNode demo_ast (Some 0) = Inr demo_wire"
proof -
  have "case EncodeNode demo_ast (Some 0) of Inl _ \<Rightarrow> False | Inr _ \<Rightarrow> True"
    by (simp add: EncodeNode_def appendRoot_def visitChildren_def demo_ast_defs nodeData_def appendExtended_def
      appendSourceFile_def add_string_def table_add_def add_references_def appendFileReferences_def node_data_defs
      extended_defs encoder_new_def newStringTable_def Let_def node_at_def visitNode.simps visitNodeList.simps
      list_of_def enterNode_def linkPrevious_def appendNodeRow_def path_valid_def finish_def table_encode_def
      appendUint32s_append protocol_defs)
  then show ?thesis by (simp add: demo_wire_def split: sum.splits)
qed

definition demo_root :: ast_node where "demo_root = demo_ast ! 0"

lemma demo_root_at: "node_at demo_ast (Some 0) = Some demo_root"
  by (simp add: node_at_def demo_root_def demo_ast_def)

lemma demo_root_source: "source_root demo_root" "node_official demo_root = None"
  "source_Text (encoding_sourceFile (node_targetEncoding demo_root)) = [0x68, 0x69]"
  "utf8_valid (source_Text (encoding_sourceFile (node_targetEncoding demo_root)))"
  by (simp_all add: demo_root_def demo_ast_defs source_root_def SyntaxKindSourceFile_def)

subsection \<open>Decoding what was encoded\<close>

lemma encoded_rows:
  assumes "encoded_table heap r tree wire"
  shows "\<exists>pre. wire = pre @ concat (map le32 (table_words (whole_table tree))) \<and>
    length pre = unat (get32 wire headerOffsetNodes) \<and> headerSize \<le> length pre \<and>
    length wire = length pre + (tree_size tree + 1) * nodeLen \<and> length wire < 2 ^ 32 \<and>
    get32 wire headerOffsetMetadata = push_bit 24 5"
proof -
  obtain s where sec: "sections s wire" and v: "enc_nodeValues s = table_words (whole_table tree)"
    using assms by (auto simp: encoded_table_def whole_table_def)
  let ?so = "concat (map le32 (table_offsets (enc_strings s)))"
  let ?d = "44 + length ?so + length (table_data (enc_strings s)) + length (enc_extendedData s) + length (enc_structuredData s)"
  obtain header where w: "wire = header @ ?so @ table_data (enc_strings s) @ enc_extendedData s @
      enc_structuredData s @ concat (map le32 (enc_nodeValues s))" "length header = 44"
    and small: "?d + length (concat (map le32 (enc_nodeValues s))) < 2 ^ 32"
    and g: "get32 wire 0 = push_bit 24 5" "get32 wire 40 = of_nat ?d"
    using sec unfolding sections_def Let_def by blast
  let ?pre = "header @ ?so @ table_data (enc_strings s) @ enc_extendedData s @ enc_structuredData s"
  have "unat (of_nat ?d :: 32 word) = ?d" by (rule unat32) (use small in linarith)
  then have "length ?pre = unat (get32 wire headerOffsetNodes)"
    using w(2) by (simp add: headerOffsetNodes_def g(2))
  moreover have "wire = ?pre @ concat (map le32 (table_words (whole_table tree)))" using w(1) v by simp
  moreover from this have "length wire = length ?pre + (tree_size tree + 1) * nodeLen"
    by (simp add: nodeLen_def whole_table_def)
  moreover have "length wire = ?d + length (concat (map le32 (enc_nodeValues s)))"
    unfolding w(1) using w(2) by simp
  ultimately show ?thesis
    using small w(2) g(1) by (intro exI [of _ ?pre]) (simp add: headerSize_def headerOffsetMetadata_def)
qed

lemma encoded_small: "encoded_table heap r tree wire \<Longrightarrow> tree_size tree + 1 < 2 ^ 32"
proof -
  assume t: "encoded_table heap r tree wire"
  obtain pre :: bytes where "length wire = length pre + (tree_size tree + 1) * nodeLen" "length wire < 2 ^ 32"
    using encoded_rows [OF t] by blast
  then show ?thesis by (simp add: nodeLen_def)
qed

text \<open>C18: Encoding a node yields a file whose node table is the preorder listing of a tree that unfolds the
  heap from the node: every row holds the fields of its node, the row of its parent and the row of its next
  sibling, or zero if there is none, although the encoder learns of the sibling only later.\<close>

theorem encoded_table_layout:
  assumes "EncodeNode heap r = Inr wire" "node_at heap r = Some n" "node_official n = None"
  shows "\<exists>tree. mirrors heap (SingleSlot r) tree \<and>
    length wire = unat (get32 wire headerOffsetNodes) + (tree_size tree + 1) * nodeLen \<and>
    (\<forall>i < tree_size tree + 1. \<forall>j < 7. get32 wire (unat (get32 wire headerOffsetNodes) + i * nodeLen + 4 * j) =
       row_words ((no_row # tree_rows 0 1 0 tree) ! i) ! j)"
proof -
  obtain tree where t: "encoded_table heap r tree wire" using EncodeNode_layout [OF assms] by blast
  obtain pre where pre: "wire = pre @ concat (map le32 (table_words (whole_table tree)))"
    "length pre = unat (get32 wire headerOffsetNodes)"
    "length wire = length pre + (tree_size tree + 1) * nodeLen"
    using encoded_rows [OF t] by blast
  have "get32 wire (length pre + i * nodeLen + 4 * j) = row_words (whole_table tree ! i) ! j"
    if "i < tree_size tree + 1" "j < 7" for i j
    unfolding pre(1) using that by (intro get32_table) (simp_all add: whole_table_def)
  moreover have "mirrors heap (SingleSlot r) tree" using t by (auto simp: encoded_table_def)
  ultimately show ?thesis using pre(2,3) unfolding whole_table_def by (intro exI [of _ tree]) simp
qed

theorem encoded_table_layout_witness:
  "\<exists>tree. mirrors demo_ast (SingleSlot (Some 0)) tree \<and>
     length demo_wire = unat (get32 demo_wire headerOffsetNodes) + (tree_size tree + 1) * nodeLen"
  using encoded_table_layout [OF demo_encodes demo_root_at demo_root_source(2)] by blast

lemma decode_encoded:
  assumes t: "encoded_table heap r tree wire" and n: "node_at heap r = Some n" "source_root n"
    and valid: "utf8_valid (source_Text (encoding_sourceFile (node_targetEncoding n)))" and "unbase encoded = Some wire"
  shows "decodeProjectSourceEvidence unbase encoded = Inr \<lparr>evidence_nodes = map row_evidence (whole_table tree),
    evidence_text = source_Text (encoding_sourceFile (node_targetEncoding n)), evidence_wire = wire\<rparr>"
proof -
  let ?text = "source_Text (encoding_sourceFile (node_targetEncoding n))"
  let ?nodes = "map row_evidence (whole_table tree)"
  obtain pre where pre: "wire = pre @ concat (map le32 (table_words (whole_table tree)))"
    "length pre = unat (get32 wire headerOffsetNodes)" "headerSize \<le> length pre"
    "length wire = length pre + (tree_size tree + 1) * nodeLen" "get32 wire headerOffsetMetadata = push_bit 24 5"
    using encoded_rows [OF t] by blast
  let ?m = "tree_size tree + 1"
  note small = encoded_small [OF t]
  have len: "length (whole_table tree) = ?m" by (simp add: whole_table_def)
  have parents: "list_all (\<lambda>r. row_parent r < of_nat ?m) (whole_table tree)"
  proof -
    have "unat (of_nat ?m :: 32 word) = ?m" by (rule unat32 [OF small])
    then have "(0 :: 32 word) < of_nat ?m" by (simp only: word_less_nat_alt) simp
    moreover have "row_parent no_row = 0" by (simp add: no_row_def)
    ultimately show ?thesis using rows_parents(1) [of 0 1 tree ?m 0] small
      by (simp add: whole_table_def)
  qed
  have "decodeNodes wire (length pre) ?m [0..<?m] = Inr (map (\<lambda>i. row_evidence (whole_table tree ! i)) [0..<?m])"
    unfolding pre(1) using parents len by (intro decodeNodes_rows) (simp_all add: list_all_iff)
  moreover have "map (\<lambda>i. row_evidence (whole_table tree ! i)) [0..<?m] = ?nodes"
    by (rule nth_equalityI) (simp_all add: len del: upt_Suc)
  ultimately have nodes: "decodeNodes wire (length pre) ?m [0..<?m] = Inr ?nodes" by simp
  obtain s s0 d h ts where e: "sections s wire" "grown s0 s" "nodeData n (encoder_new\<lparr>enc_nodeCount := 1\<rparr>) = Inr (d, s0)"
      "tree = WireTree h ts" "head_data h = d" "mirrors heap (SingleSlot r) tree"
    using t n(1) by (auto simp: encoded_table_def)
  note root = source_root_data [OF n(2) e(3)]
  have new: "enc_strings (encoder_new\<lparr>enc_nodeCount := 1\<rparr>) = newStringTable"
    "enc_extendedData (encoder_new\<lparr>enc_nodeCount := 1\<rparr>) = []" by (simp_all add: encoder_new_def)
  obtain a where a: "table_offsets (enc_strings s) = 0 # of_nat (length ?text) # a"
    using root(3) [OF new] e(2) by (auto simp: grown_def)
  obtain b where b: "table_data (enc_strings s) = ?text @ b" using root(4) [OF new] e(2) by (auto simp: grown_def)
  obtain c where c: "enc_extendedData s = le32 0 @ c" using root(5) [OF new] e(2) by (auto simp: grown_def)
  have k: "head_kind h = SyntaxKindSourceFile" using e(4,6) n by (simp add: head_of_def source_root_def)
  have "?nodes ! 1 = row_evidence (head_row 0 0 h)" by (simp add: whole_table_def e(4))
  then have "evidence_kind (?nodes ! 1) = SyntaxKindSourceFile" "evidence_data (?nodes ! 1) = 0x80000000"
    using k e(5) root(1) [OF new] by (simp_all add: row_evidence_def head_row_def)
  moreover have "2 \<le> length ?nodes" by (simp add: whole_table_def) (use tree_size_pos [of tree] in linarith)
  ultimately have "decodeOfficialSourceText wire ?nodes = Inr ?text"
    by (intro decode_text [OF e(1) _ _ _ a b c valid])
  moreover have "drop_bit 24 (get32 wire headerOffsetMetadata) = protocolVersion"
    unfolding pre(5) by (simp add: protocolVersion_def)
  moreover have "headerSize \<le> length wire" using pre(3,4) by linarith
  moreover have "(length wire - length pre) mod nodeLen = 0" "(length wire - length pre) div nodeLen = ?m"
    using pre(4) by (simp_all add: nodeLen_def)
  moreover have "\<not> ?m < 2" using tree_size_pos [of tree] by linarith
  ultimately show ?thesis
    using assms(5) pre(2) [symmetric] pre(3,4) nodes unfolding decodeProjectSourceEvidence_def
    by (simp add: Let_def del: upt_Suc)
qed

text \<open>C17: A source file that is encoded and read back yields its text, and a table with the kinds and parents
  of the nodes of the tree.  The data words of the table give back the data of the nodes: the bits of the
  children that are present; the text of an identifier or another node with a string, found through its index
  in the string table; and for literals, templates and source files the texts, flags and file references that
  the record of extended data leads to.\<close>

theorem decode_encoded_source:
  assumes "EncodeNode heap r = Inr wire" "node_at heap r = Some n" "source_root n"
    and "utf8_valid (source_Text (encoding_sourceFile (node_targetEncoding n)))" "unbase encoded = Some wire"
  shows "\<exists>tree s. mirrors heap (SingleSlot r) tree \<and> decodeProjectSourceEvidence unbase encoded = Inr s \<and>
    evidence_text s = source_Text (encoding_sourceFile (node_targetEncoding n)) \<and> evidence_wire s = wire \<and>
    evidence_nodes s = map row_evidence (no_row # tree_rows 0 1 0 tree) \<and>
    data_tree heap (data_read wire) (SingleSlot r) tree"
proof -
  have "node_official n = None" using assms(3) by (simp add: source_root_def)
  then obtain tree where t: "encoded_table heap r tree wire" using EncodeNode_layout [OF assms(1,2)] by blast
  then obtain state where state: "data_tree heap (emitted state) (SingleSlot r) tree" "sections state wire"
    "mirrors heap (SingleSlot r) tree" by (auto simp: encoded_table_def)
  have "data_tree heap (data_read wire) (SingleSlot r) tree"
    using data_tree_mono(1) [OF state(1)] emitted_read [OF _ state(2)] by blast
  then show ?thesis
    using decode_encoded [where unbase = unbase, OF t assms(2-5)] state(3)
    by (intro exI [of _ tree]) (simp add: whole_table_def)
qed

lemma demo_data:
  assumes "mirrors demo_ast (SingleSlot (Some 0)) tree" "data_tree demo_ast P (SingleSlot (Some 0)) tree"
  shows "\<exists>d. row_data (tree_rows 0 1 0 tree ! 0) = d \<and> P demo_root d"
  using assms by (cases tree) (auto simp: demo_root_at head_row_def)

theorem decode_encoded_source_witness:
  "\<exists>s. decodeProjectSourceEvidence (\<lambda>_. Some demo_wire) [] = Inr s \<and> evidence_text s = [0x68, 0x69] \<and>
     data_read demo_wire demo_root (evidence_data (evidence_nodes s ! 1)) \<and>
     (\<exists>offset i words. extended_words demo_wire offset 12 = i # words \<and> wire_string demo_wire i = [0x68, 0x69])"
proof -
  obtain tree s where t: "mirrors demo_ast (SingleSlot (Some 0)) tree"
      "decodeProjectSourceEvidence (\<lambda>_. Some demo_wire) [] = Inr s" "evidence_text s = [0x68, 0x69]"
      "evidence_nodes s = map row_evidence (no_row # tree_rows 0 1 0 tree)"
      "data_tree demo_ast (data_read demo_wire) (SingleSlot (Some 0)) tree"
    using decode_encoded_source [OF demo_encodes demo_root_at demo_root_source(1,4), of "\<lambda>_. Some demo_wire" "[]"]
    unfolding demo_root_source(3) by blast
  have "0 < length (tree_rows 0 1 0 tree)" by simp
  then have "evidence_data (evidence_nodes s ! 1) = row_data (tree_rows 0 1 0 tree ! 0)"
    by (simp add: t(4) row_evidence_def)
  then have d: "data_read demo_wire demo_root (evidence_data (evidence_nodes s ! 1))"
    using demo_data [OF t(1,5)] by auto
  have "encoding_dataType (node_targetEncoding demo_root) = nodeDataExtended"
    "encoding_extended (node_targetEncoding demo_root) = extendedSourceFile"
    using demo_root_source(1) by (simp_all add: source_root_def)
  then have "\<exists>offset i words. extended_words demo_wire offset 12 = i # words \<and> wire_string demo_wire i = [0x68, 0x69]"
    using d demo_root_source(3) by (fastforce simp: data_read_def extended_read_def Let_def node_data_defs extended_defs)
  then show ?thesis using t(2,3) d by blast
qed

text \<open>C20: Asked about any node of an encoded source file, the reader gives the answers of the tree: the
  children of the node, its first child, the number of type parameters in its lists, and whether it is hidden
  by a private name or a private or protected modifier.\<close>

theorem queries_answer_the_tree:
  assumes "EncodeNode heap r = Inr wire" "node_at heap r = Some n" "source_root n"
    and "utf8_valid (source_Text (encoding_sourceFile (node_targetEncoding n)))" "unbase encoded = Some wire"
  shows "\<exists>tree s. mirrors heap (SingleSlot r) tree \<and> decodeProjectSourceEvidence unbase encoded = Inr s \<and>
    (\<forall>q h us. (q, WireTree h us) \<in> set (tree_nodes 1 tree) \<longrightarrow>
       directChildren (of_nat q) s = map fst (child_rows (q + 1) us) \<and>
       firstChild (of_nat q) s = (if us = [] then 0 else q + 1) \<and>
       declarationTypeParameterCount (of_nat q) (head_kind h) s =
         Inr (length (filter (\<lambda>u. tree_kind u = SyntaxKindTypeParameter) (list_elements us))) \<and>
       declarationAccess (of_nat q) (head_kind h) s =
         Inr (if access_hidden us then ProjectMemberAccessNonPublic else ProjectMemberAccessPublic))"
proof -
  have "node_official n = None" using assms(3) by (simp add: source_root_def)
  then obtain tree where t: "encoded_table heap r tree wire" using EncodeNode_layout [OF assms(1,2)] by blast
  let ?s = "\<lparr>evidence_nodes = map row_evidence (whole_table tree),
    evidence_text = source_Text (encoding_sourceFile (node_targetEncoding n)), evidence_wire = wire\<rparr>"
  have "tree_evidence tree ?s" using encoded_small [OF t] by (simp add: tree_evidence_def)
  note q = directChildren_tree [OF this] firstChild_tree [OF this] typeParameters_tree [OF this] access_tree [OF this]
  have "mirrors heap (SingleSlot r) tree" using t by (auto simp: encoded_table_def)
  then show ?thesis using decode_encoded [where unbase = unbase, OF t assms(2-5)] q by (intro exI [of _ tree] exI [of _ ?s]) simp
qed

theorem queries_answer_the_tree_witness:
  "\<exists>tree s. mirrors demo_ast (SingleSlot (Some 0)) tree \<and>
     decodeProjectSourceEvidence (\<lambda>_. Some demo_wire) [] = Inr s \<and>
     directChildren 1 s = map fst (child_rows 2 (tree_children tree))"
proof -
  have "\<exists>tree s. mirrors demo_ast (SingleSlot (Some 0)) tree \<and>
      decodeProjectSourceEvidence (\<lambda>_. Some demo_wire) [] = Inr s \<and>
      (\<forall>q h us. (q, WireTree h us) \<in> set (tree_nodes 1 tree) \<longrightarrow>
         directChildren (of_nat q) s = map fst (child_rows (q + 1) us) \<and> True)"
    by (rule ex_forward [OF queries_answer_the_tree [OF demo_encodes demo_root_at demo_root_source(1,4),
      of "\<lambda>_. Some demo_wire" "[]", OF refl]], rule ex_forward, assumption) simp
  then obtain tree s where t: "mirrors demo_ast (SingleSlot (Some 0)) tree"
      "decodeProjectSourceEvidence (\<lambda>_. Some demo_wire) [] = Inr s"
      "\<forall>q h us. (q, WireTree h us) \<in> set (tree_nodes 1 tree) \<longrightarrow>
         directChildren (of_nat q) s = map fst (child_rows (q + 1) us)" by auto
  obtain h us where u: "tree = WireTree h us" by (cases tree)
  then have "directChildren (of_nat 1) s = map fst (child_rows (1 + 1) us)" using t(3) by simp
  with t(1,2) u show ?thesis by (intro exI [of _ tree] exI [of _ s]) (simp add: numeral_2_eq_2)
qed

subsection \<open>The node count\<close>

lemma countSyntaxNodes_rows:
  "length pre = base \<Longrightarrow> i \<le> length rows \<Longrightarrow>
     countSyntaxNodes (pre @ concat (map le32 (table_words rows))) (base + i * nodeLen) =
       length (filter (\<lambda>r. row_kind r \<noteq> kindNodeList) (drop i rows))"
proof (induction "length rows - i" arbitrary: i)
  case 0
  then show ?case by (subst countSyntaxNodes.simps) (simp add: nodeLen_def)
next
  case (Suc k)
  let ?w = "pre @ concat (map le32 (table_words rows))"
  have i: "i < length rows" using Suc.hyps(2) by simp
  have "get32 ?w (base + i * nodeLen + nodeOffsetKind) = row_kind (rows ! i)"
    using get32_table [OF i _ Suc.prems(1), of 0] by (simp add: nodeOffsetKind_def row_words_def)
  moreover have "base + i * nodeLen < length ?w" using i Suc.prems(1) by (simp add: nodeLen_def)
  moreover have "countSyntaxNodes ?w (base + Suc i * nodeLen) =
      length (filter (\<lambda>r. row_kind r \<noteq> kindNodeList) (drop (Suc i) rows))"
    using Suc.hyps(2) Suc.prems i by (intro Suc.hyps(1)) simp_all
  moreover have "drop i rows = rows ! i # drop (Suc i) rows" by (rule Cons_nth_drop_Suc [OF i, symmetric])
  ultimately show ?case by (subst countSyntaxNodes.simps) (simp add: algebra_simps)
qed

lemma row_kinds:
  "map row_kind (tree_rows p i n t) = map (\<lambda>(j, u). tree_kind u) (tree_nodes i t)"
  "map row_kind (forest_rows p i n ts) = map (\<lambda>(j, u). tree_kind u) (forest_nodes i ts)"
  by (induction t and ts arbitrary: p i n and p i n rule: tree_size_forest_size.induct) simp_all

lemma filter_kinds:
  "map k xs = map l ys \<Longrightarrow> length (filter (\<lambda>x. k x \<noteq> c) xs) = length (filter (\<lambda>y. l y \<noteq> c) ys)"
  by (induction xs arbitrary: ys) auto

text \<open>The number of syntax nodes of an encoded tree is the number of its nodes that are not lists; the
  count never fails on what the encoder produced.\<close>

theorem syntax_node_count:
  assumes "EncodeNode heap r = Inr wire" "node_at heap r = Some n" "node_official n = None"
  shows "\<exists>tree. mirrors heap (SingleSlot r) tree \<and> EncodedSyntaxNodeCount heap r =
    Inr (length (filter (\<lambda>(j, u). tree_kind u \<noteq> kindNodeList) (tree_nodes 1 tree)))"
proof -
  obtain tree where t: "encoded_table heap r tree wire" using EncodeNode_layout [OF assms] by blast
  obtain pre where pre: "wire = pre @ concat (map le32 (table_words (whole_table tree)))"
    "length pre = unat (get32 wire headerOffsetNodes)" "headerSize \<le> length pre"
    "length wire = length pre + (tree_size tree + 1) * nodeLen"
    using encoded_rows [OF t] by blast
  have "countSyntaxNodes wire (length pre + 1 * nodeLen) =
      length (filter (\<lambda>r. row_kind r \<noteq> kindNodeList) (drop 1 (whole_table tree)))"
    unfolding pre(1) by (rule countSyntaxNodes_rows) (simp_all add: whole_table_def)
  also have "\<dots> = length (filter (\<lambda>(j, u). tree_kind u \<noteq> kindNodeList) (tree_nodes 1 tree))"
    using filter_kinds [OF row_kinds(1) [of 0 1 0 tree], of kindNodeList] by (simp add: whole_table_def case_prod_unfold)
  finally have count: "countSyntaxNodes wire (length pre + nodeLen) =
      length (filter (\<lambda>(j, u). tree_kind u \<noteq> kindNodeList) (tree_nodes 1 tree))" by simp
  have "EncodedSyntaxNodeCount heap r = Inr (countSyntaxNodes wire (length pre + nodeLen))"
    using pre(3,4) by (simp add: EncodedSyntaxNodeCount_def assms(1) pre(2) [symmetric] nodeLen_def)
  then show ?thesis using count t by (auto simp: encoded_table_def)
qed

theorem syntax_node_count_witness:
  "\<exists>tree. mirrors demo_ast (SingleSlot (Some 0)) tree \<and> EncodedSyntaxNodeCount demo_ast (Some 0) =
     Inr (length (filter (\<lambda>(j, u). tree_kind u \<noteq> kindNodeList) (tree_nodes 1 tree)))"
  using syntax_node_count [OF demo_encodes demo_root_at demo_root_source(2)] by blast

subsection \<open>Cycles\<close>

definition child_ref :: "ast_heap \<Rightarrow> nat \<Rightarrow> nat \<Rightarrow> bool" where
  "child_ref heap a b \<longleftrightarrow> (\<exists>n. node_at heap (Some a) = Some n \<and>
     (\<exists>x \<in> set (child_slots (encoding_children (node_targetEncoding n))).
        x = SingleSlot (Some b) \<or> (\<exists>rs. x = ListSlot rs \<and> Some b \<in> set rs)))"

lemma mirrors_all_member:
  "mirrors_all heap xs ts \<Longrightarrow> x \<in> set xs \<Longrightarrow> \<exists>t \<in> set ts. mirrors heap x t"
proof (induction xs arbitrary: ts)
  case (Cons y xs)
  then show ?case by (cases ts) auto
qed simp

lemma member_size: "t \<in> set ts \<Longrightarrow> tree_size t \<le> forest_size ts"
  by (induction ts) auto

lemma mirrors_child:
  assumes "mirrors heap (SingleSlot (Some a)) t" "child_ref heap a b"
  shows "\<exists>u. mirrors heap (SingleSlot (Some b)) u \<and> tree_size u < tree_size t"
proof -
  obtain n x where x: "node_at heap (Some a) = Some n" "x \<in> set (child_slots (encoding_children (node_targetEncoding n)))"
      "x = SingleSlot (Some b) \<or> (\<exists>rs. x = ListSlot rs \<and> Some b \<in> set rs)"
    using assms(2) by (auto simp: child_ref_def)
  obtain h ts where t: "t = WireTree h ts" by (cases t)
  then have "mirrors_all heap (child_slots (encoding_children (node_targetEncoding n))) ts" using assms(1) x(1) by simp
  from mirrors_all_member [OF this x(2)] obtain u where u: "u \<in> set ts" "mirrors heap x u" by blast
  have lu: "tree_size u < tree_size t" using member_size [OF u(1)] t by simp
  from x(3) show ?thesis
  proof
    assume "\<exists>rs. x = ListSlot rs \<and> Some b \<in> set rs"
    then obtain rs k us where rs: "x = ListSlot rs" "Some b \<in> set rs" "u = WireTree k us" by (cases u) auto
    then have "mirrors_all heap (map SingleSlot rs) us" "SingleSlot (Some b) \<in> set (map SingleSlot rs)"
      using u(2) by auto
    from mirrors_all_member [OF this] obtain v where v: "v \<in> set us" "mirrors heap (SingleSlot (Some b)) v" by blast
    have "tree_size v < tree_size u" using member_size [OF v(1)] rs(3) by simp
    then show ?thesis using v(2) lu by (intro exI [of _ v]) simp
  qed (use u lu in blast)
qed

lemma mirrors_reach:
  "(child_ref heap)\<^sup>+\<^sup>+ a b \<Longrightarrow> mirrors heap (SingleSlot (Some a)) t \<Longrightarrow>
     \<exists>u. mirrors heap (SingleSlot (Some b)) u \<and> tree_size u < tree_size t"
proof (induction rule: tranclp_induct)
  case (base b)
  then show ?case using mirrors_child by blast
next
  case (step b c)
  then show ?case using mirrors_child less_trans by blast
qed

lemma mirrors_acyclic: "mirrors heap (SingleSlot (Some a)) t \<Longrightarrow> \<not> (child_ref heap)\<^sup>+\<^sup>+ a a"
proof (induction "tree_size t" arbitrary: t rule: less_induct)
  case less
  then show ?case using mirrors_reach by blast
qed

text \<open>C19: A cycle below the root is always an error: the encoder, which ends on every heap, never encodes a
  node from which a node on a cycle of present children can be reached.\<close>

theorem cycles_are_rejected:
  assumes "node_at heap (Some root) = Some n" "node_official n = None"
    and "(child_ref heap)\<^sup>*\<^sup>* root a" "(child_ref heap)\<^sup>+\<^sup>+ a a"
  shows "\<exists>e. EncodeNode heap (Some root) = Inl e"
proof (rule ccontr)
  assume "\<nexists>e. EncodeNode heap (Some root) = Inl e"
  then obtain wire where "EncodeNode heap (Some root) = Inr wire" by (cases "EncodeNode heap (Some root)") auto
  from EncodeNode_layout [OF this assms(1,2)] obtain tree where "mirrors heap (SingleSlot (Some root)) tree"
    by (auto simp: encoded_table_def)
  moreover have "(child_ref heap)\<^sup>+\<^sup>+ root a"  if "root \<noteq> a" using assms(3) that by (metis rtranclpD)
  ultimately obtain u where "mirrors heap (SingleSlot (Some a)) u" using mirrors_reach by blast
  then show False using mirrors_acyclic assms(4) by blast
qed

definition demo_cycle :: ast_heap where
  "demo_cycle = [demo_node 1 (demo_encoding\<lparr>encoding_children := [demo_child (Some 0) None]\<rparr>)]"

theorem cycles_are_rejected_witness:
  "\<exists>e. EncodeNode demo_cycle (Some 0) = Inl e"
proof -
  have "node_at demo_cycle (Some 0) = Some (demo_cycle ! 0)" "node_official (demo_cycle ! 0) = None"
    by (simp_all add: node_at_def demo_cycle_def demo_node_def)
  moreover have "child_ref demo_cycle 0 0"
    by (simp add: child_ref_def node_at_def demo_cycle_def demo_node_def demo_child_def child_slots_def child_slot_def)
  ultimately show ?thesis using cycles_are_rejected [of demo_cycle 0 "demo_cycle ! 0" 0] by blast
qed

subsection \<open>File references and handles\<close>

text \<open>The MessagePack section of a list of file references can be read back, whatever was in the buffer
  before and whatever follows.\<close>

theorem file_references_roundtrip:
  assumes "appendFileReferences data refs = Inr (result, offset)" "refs \<noteq> []" "length refs < 2 ^ 32"
  shows "take (length data) result = data \<and> offset = of_nat (length data) \<and>
    read_references (drop (length data) result @ rest) = Some (refs, rest)"
proof -
  obtain e where e: "enc_each refs = Some e" "result = data @ enc_header (length refs) @ e" "offset = of_nat (length data)"
    using assms(1,2) by (auto simp: appendFileReferences_def each_append header_append split: if_splits option.splits)
  have "read_references ((enc_header (length refs) @ e) @ rest) = Some (refs, rest)"
    using assms(3) read_each [OF e(1), of rest] by (simp add: read_references_def)
  then show ?thesis using e(2,3) by simp
qed

definition demo_references :: "file_reference list" where
  "demo_references = [\<lparr>reference_Pos = 200, reference_End = 70000, reference_FileName = [0x61],
     reference_ResolutionMode = 1, reference_Preserve = True\<rparr>]"

theorem file_references_roundtrip_witness:
  "\<exists>result offset. appendFileReferences [1, 2] demo_references = Inr (result, offset) \<and>
     read_references (drop 2 result @ [3]) = Some (demo_references, [3])"
proof -
  obtain result offset where r: "appendFileReferences [1, 2] demo_references = Inr (result, offset)"
    by (auto simp: appendFileReferences_def demo_references_def each_append enc_reference_def enc_string_def
        appendMessagePackString_def)
  have "demo_references \<noteq> []" "length demo_references < 2 ^ 32" by (simp_all add: demo_references_def)
  from file_references_roundtrip [OF r this, of "[3]"] r show ?thesis by (simp add: numeral_2_eq_2)
qed

lemma itoa_no_dot: "CHR ''.'' \<notin> set (itoa n)"
  using itoa_digits [of n] by (auto simp: list_all_iff is_digit_def)

lemma cut_at_first: "c \<notin> set s \<Longrightarrow> cut_at c (s @ c # t) = Some (s, t)"
  by (induction s) (auto simp: cut_at_def)

lemma parse_itoa: "parse_uint32 (itoa (unat w)) = Some w"
  using unsigned_less [of w, where ?'a = nat] by (simp add: parse_uint32_def itoa_digits itoa_nonempty)

text \<open>C21: A node handle parses back to the node it was made for; a handle without a node or without a path is
  refused.\<close>

theorem node_handle_roundtrip:
  "parseProjectNodeHandle (projectNodeHandle path index kind) =
     (if index = 0 \<or> path = [] then Inl InvalidHandle else Inr (index, kind, path))"
proof -
  have "cut_at CHR ''.'' (projectNodeHandle path index kind) = Some (itoa (unat index), itoa (unat kind) @ ''.'' @ path)"
    using cut_at_first [OF itoa_no_dot, of "unat index" "itoa (unat kind) @ ''.'' @ path"] by (simp add: projectNodeHandle_def)
  moreover have "cut_at CHR ''.'' (itoa (unat kind) @ ''.'' @ path) = Some (itoa (unat kind), path)"
    using cut_at_first [OF itoa_no_dot, of "unat kind" path] by simp
  ultimately show ?thesis by (simp add: parseProjectNodeHandle_def itoa_nonempty parse_itoa)
qed

end
