(* ===== verification/DeclOrder.thy ===== *)
theory DeclOrder
  imports OwnerQueue
begin

text \<open>
  The order of the declarations of a target file (\<open>internal/emit/declaration/order/order.go\<close>):
  Kahn's algorithm over the eager dependencies, with a \<open>container/heap\<close> of the declarations whose
  dependencies are out.  A declaration is known by its position in the list; \<open>indegree\<close> is kept
  signed as in the code.

  \<open>heap.Push\<close> and \<open>heap.Pop\<close> of Go's library sift with swaps, as \<open>sift_up\<close> and \<open>sift_down\<close> do; the
  ready heap is an instance of the queue interface that the other two queues of the program satisfy.
\<close>

subsection \<open>\<open>container/heap\<close>\<close>

definition heap_Push :: "('a \<Rightarrow> 'a \<Rightarrow> int) \<Rightarrow> 'a \<Rightarrow> 'a list \<Rightarrow> 'a list" where
  "heap_Push cmp x h = sift_up cmp (h @ [x]) (length h)"

definition heap_Pop :: "('a \<Rightarrow> 'a \<Rightarrow> int) \<Rightarrow> 'a list \<Rightarrow> 'a option \<times> 'a list" where
  "heap_Pop cmp h =
     (if length h = 0 then (None, h)
      else
        let n = length h - 1; h = swap_at h 0 n
        in (Some (h ! n), sift_down cmp (take n h) 0))"

lemma heap_Push_mset [simp]: "mset (heap_Push cmp x h) = add_mset x (mset h)"
  by (simp add: heap_Push_def)

lemma heap_Pop_cases:
  assumes "h \<noteq> []"
  shows "\<exists>rest. heap_Pop cmp h = (Some (hd h), rest) \<and>
    rest = (if length h = 1 then [] else sift_down cmp ((butlast h)[0 := last h]) 0) \<and>
    add_mset (hd h) (mset rest) = mset h"
proof (cases "length h = 1")
  case True
  then obtain x where "h = [x]" by (cases h) auto
  then show ?thesis by (simp add: heap_Pop_def swap_at_def sift_down.simps [of _ "[]"])
next
  case False
  then have l: "0 < length (butlast h)" using assms by (cases h) auto
  have "swap_at h 0 (length h - 1) ! (length h - 1) = hd h"
    using assms by (simp add: swap_at_def hd_conv_nth)
  moreover have "take (length h - 1) (swap_at h 0 (length h - 1)) = (butlast h)[0 := last h]"
    using assms by (simp add: swap_at_def last_conv_nth butlast_conv_take take_update_swap list_update_beyond)
  moreover have "add_mset (hd h) (mset ((butlast h)[0 := last h])) = mset h"
    using mset_without [of 0 h] l assms by (simp add: without_def hd_conv_nth)
  ultimately show ?thesis using False l assms by (simp add: heap_Pop_def Let_def)
qed

text \<open>The heap over any total preorder is a queue that holds a bag of elements.\<close>

lemma heap_bag_queue:
  assumes c: "compare_preorder cmp"
  shows "bag_queue cmp [] (heap_Push cmp) (heap_Pop cmp) (\<lambda>h. length h \<noteq> 0) mset (heap_ok cmp)"
proof -
  note heap_Pop_min = compare_preorder.heap_ok_root_le [OF c]
  show ?thesis
  proof (intro bag_queue.intro min_queue.intro c min_queue_axioms.intro bag_queue_axioms.intro)
    fix h :: "'a list" and x
    assume h: "heap_ok cmp h"
    show "heap_ok cmp (heap_Push cmp x h)"
      unfolding heap_Push_def
      by (rule compare_preorder.heap_ok_sift_up [OF c compare_preorder.heap_but_up_append [OF c h]]) simp
    assume ne: "mset h \<noteq> {#}"
    obtain rest where rest: "heap_Pop cmp h = (Some (hd h), rest)"
      "rest = (if length h = 1 then [] else sift_down cmp ((butlast h)[0 := last h]) 0)"
      "add_mset (hd h) (mset rest) = mset h"
      using heap_Pop_cases [of h cmp] ne by auto
    have "heap_ok cmp rest"
    proof (cases "length h = 1")
      case False
      then have l: "0 < length (butlast h)" using ne by (cases h) auto
      show ?thesis
        using False rest(2) compare_preorder.heap_ok_sift_down [OF c
            compare_preorder.heap_replace(2) [OF c compare_preorder.heap_ok_butlast [OF c h] l]]
        by simp
    qed (simp add: rest(2))
    then show "\<exists>x q'. heap_Pop cmp h = (Some x, q') \<and> heap_ok cmp q' \<and> mset h = add_mset x (mset q') \<and>
        (\<forall>y \<in># mset h. cmp x y \<le> 0)"
      using rest heap_Pop_min [OF h] ne by (auto simp: hd_conv_nth)
  qed (auto simp: heap_Pop_def)
qed

subsection \<open>Declarations\<close>

record target_declaration =
  decl_Owner :: artifact_owner
  decl_Name :: string
  decl_SourcePath :: string
  decl_Position :: int
  decl_EagerDependencies :: "artifact_owner list"

datatype order_error = SourcePositionError string | CycleError string

definition NoPos :: int where "NoPos = 0"

definition declarationLess :: "(type_ref \<Rightarrow> string) \<Rightarrow> target_declaration \<Rightarrow> target_declaration \<Rightarrow> bool" where
  "declarationLess typeString left right =
     (if decl_SourcePath left \<noteq> decl_SourcePath right then decl_SourcePath left < decl_SourcePath right
      else if decl_Position left \<noteq> decl_Position right then decl_Position left < decl_Position right
      else if decl_Name left \<noteq> decl_Name right then decl_Name left < decl_Name right
      else CompareArtifactOwners typeString (decl_Owner left) (decl_Owner right) < 0)"

text \<open>The heap compares positions; \<open>readyCompare\<close> turns its \<open>Less\<close> into a comparator.\<close>

definition readyCompare :: "(type_ref \<Rightarrow> string) \<Rightarrow> target_declaration list \<Rightarrow> nat \<Rightarrow> nat \<Rightarrow> int" where
  "readyCompare typeString declarations left right =
     (if declarationLess typeString (declarations ! left) (declarations ! right) then -1
      else if declarationLess typeString (declarations ! right) (declarations ! left) then 1
      else 0)"

fun indexOwners ::
    "target_declaration list \<Rightarrow> nat \<Rightarrow> (artifact_owner, nat) gomap \<Rightarrow> order_error + (artifact_owner, nat) gomap" where
  "indexOwners [] index indexByOwner = Inr indexByOwner"
| "indexOwners (d # ds) index indexByOwner =
     (if owner_Source (decl_Owner d) \<noteq> None \<and> (decl_SourcePath d = '''' \<or> decl_Position d = NoPos) then
        Inl (SourcePositionError (decl_Name d))
      else indexOwners ds (index + 1) (gm_put (decl_Owner d) index indexByOwner))"

record order_graph =
  og_edges :: "(nat \<times> nat) list"
  og_dependents :: "nat list list"
  og_indegree :: "int list"

definition addEdge :: "(artifact_owner, nat) gomap \<Rightarrow> nat \<Rightarrow> artifact_owner \<Rightarrow> order_graph \<Rightarrow> order_graph" where
  "addEdge indexByOwner consumer dependency g =
     (case gm_get indexByOwner dependency of
        None \<Rightarrow> g
      | Some provider \<Rightarrow>
          if provider = consumer then g
          else if (provider, consumer) \<in> set (og_edges g) then g
          else g\<lparr>og_edges := (provider, consumer) # og_edges g,
                 og_dependents := (og_dependents g)[provider := og_dependents g ! provider @ [consumer]],
                 og_indegree := (og_indegree g)[consumer := og_indegree g ! consumer + 1]\<rparr>)"

definition linkConsumer ::
    "(artifact_owner, nat) gomap \<Rightarrow> target_declaration list \<Rightarrow> nat \<Rightarrow> order_graph \<Rightarrow> order_graph" where
  "linkConsumer indexByOwner declarations consumer g =
     fold (addEdge indexByOwner consumer) (decl_EagerDependencies (declarations ! consumer)) g"

definition linkDeclarations :: "(artifact_owner, nat) gomap \<Rightarrow> target_declaration list \<Rightarrow> order_graph" where
  "linkDeclarations indexByOwner declarations =
     (let n = length declarations in
      fold (linkConsumer indexByOwner declarations) [0..<n]
        \<lparr>og_edges = [], og_dependents = replicate n [], og_indegree = replicate n 0\<rparr>)"

definition initialReady :: "(nat \<Rightarrow> nat \<Rightarrow> int) \<Rightarrow> int list \<Rightarrow> nat list" where
  "initialReady cmp indegree =
     fold (\<lambda>index ready. if indegree ! index = 0 then heap_Push cmp index ready else ready)
       [0..<length indegree] []"

text \<open>
  \<open>dependents\<close> holds positions of declarations only, so the bound check of Go's indexing, which
  would panic, always succeeds; it is written out because the loop below ends thanks to it.
\<close>

definition releaseDependent ::
    "(nat \<Rightarrow> nat \<Rightarrow> int) \<Rightarrow> nat \<Rightarrow> nat list \<times> int list \<Rightarrow> nat list \<times> int list" where
  "releaseDependent cmp consumer s =
     (case s of (ready, indegree) \<Rightarrow>
        if consumer < length indegree then
          let indegree = indegree[consumer := indegree ! consumer - 1]
          in if indegree ! consumer = 0 then (heap_Push cmp consumer ready, indegree) else (ready, indegree)
        else (ready, indegree))"

definition positives :: "int list \<Rightarrow> nat" where
  "positives xs = length (filter (\<lambda>x. 0 < x) xs)"

lemma heap_Pop_length: "heap_Pop cmp h = (Some x, h') \<Longrightarrow> length h = Suc (length h')"
  by (auto simp: heap_Pop_def Let_def split: if_splits)

lemma positives_update:
  "i < length xs \<Longrightarrow> positives (xs[i := x]) + (if 0 < xs ! i then 1 else 0) = positives xs + (if 0 < x then 1 else 0)"
proof (induction xs arbitrary: i)
  case (Cons y ys)
  then show ?case by (cases i) (auto simp: positives_def)
qed simp

lemma releaseDependent_measure:
  "length (fst (releaseDependent cmp c s)) + positives (snd (releaseDependent cmp c s)) \<le>
     length (fst s) + positives (snd s)"
proof (cases s)
  case (Pair ready indegree)
  show ?thesis
  proof (cases "c < length indegree")
    case True
    have l: "length (heap_Push cmp c ready) = Suc (length ready)" by (simp add: heap_Push_def)
    show ?thesis
      using positives_update [OF True, of "indegree ! c - 1"] True l
      by (cases "indegree ! c = 1") (auto simp: Pair releaseDependent_def Let_def split: if_splits)
  qed (simp add: Pair releaseDependent_def)
qed

lemma releases_measure:
  "length (fst (fold (releaseDependent cmp) cs s)) + positives (snd (fold (releaseDependent cmp) cs s)) \<le>
     length (fst s) + positives (snd s)"
proof (induction cs arbitrary: s)
  case (Cons c cs)
  show ?case using Cons [of "releaseDependent cmp c s"] releaseDependent_measure [of cmp c s] by simp
qed simp

function drainReady ::
    "(nat \<Rightarrow> nat \<Rightarrow> int) \<Rightarrow> nat list list \<Rightarrow> nat list \<Rightarrow> int list \<Rightarrow> nat list \<Rightarrow> nat list \<times> int list" where
  "drainReady cmp dependents ready indegree ordered =
     (case heap_Pop cmp ready of
        (None, _) \<Rightarrow> (ordered, indegree)
      | (Some provider, ready) \<Rightarrow>
          let (ready, indegree) = fold (releaseDependent cmp) (dependents ! provider) (ready, indegree)
          in drainReady cmp dependents ready indegree (ordered @ [provider]))"
  by pat_completeness auto
termination drainReady
proof (relation "measure (\<lambda>(_, _, ready, indegree, _). length ready + positives indegree)", goal_cases)
  case 1
  then show ?case by simp
next
  case (2 cmp dependents ready indegree ordered x rest provider s ready' indegree')
  then show ?case
    using releases_measure [of cmp "dependents ! provider" "(rest, indegree)"] heap_Pop_length [of cmp ready provider rest]
    by (metis (no_types, lifting) add_Suc fst_conv in_measure less_Suc_eq_le old.prod.case snd_conv)
qed

declare drainReady.simps [simp del]

definition Indices :: "(type_ref \<Rightarrow> string) \<Rightarrow> target_declaration list \<Rightarrow> order_error + nat list" where
  "Indices typeString declarations =
     (case indexOwners declarations 0 [] of
        Inl e \<Rightarrow> Inl e
      | Inr indexByOwner \<Rightarrow>
          let g = linkDeclarations indexByOwner declarations;
              cmp = readyCompare typeString declarations;
              (ordered, indegree) =
                drainReady cmp (og_dependents g) (initialReady cmp (og_indegree g)) (og_indegree g) []
          in if length ordered = length declarations then Inr ordered
             else
               let cycle = map (\<lambda>index. decl_Name (declarations ! index))
                     (filter (\<lambda>index. indegree ! index \<noteq> 0) [0..<length indegree])
               in Inl (CycleError (hd (sort cycle))))"

subsection \<open>The comparator\<close>

lemma compare_preorder_sign:
  assumes c: "compare_preorder c"
  shows "compare_preorder (\<lambda>x y. if c x y < 0 then -1 else if c y x < 0 then 1 else 0 :: int)"
proof -
  note flip = compare_preorder.cmp_flip [OF c]
  let ?s = "\<lambda>x y. if c x y < 0 then -1 else if c y x < 0 then 1 else 0 :: int"
  have s: "?s x y \<le> 0 \<longleftrightarrow> c x y \<le> 0" "?s x y < 0 \<longleftrightarrow> c x y < 0" "0 < ?s x y \<longleftrightarrow> 0 < c x y" for x y
    using flip [of x y] flip [of y x] by auto
  show ?thesis
  proof
    fix x y z
    show "?s x x = 0" by (simp add: compare_preorder.cmp_refl [OF c])
    show "?s x y < 0 \<longleftrightarrow> 0 < ?s y x" unfolding s by (rule flip)
    show "?s x y \<le> 0 \<Longrightarrow> ?s y z \<le> 0 \<Longrightarrow> ?s x z \<le> 0"
      unfolding s by (rule compare_preorder.cmp_trans [OF c])
  qed
qed

definition compareDeclarations :: "(type_ref \<Rightarrow> string) \<Rightarrow> target_declaration \<Rightarrow> target_declaration \<Rightarrow> int" where
  "compareDeclarations ts l r =
     cmp_then (ord_cmp (decl_SourcePath l) (decl_SourcePath r))
      (cmp_then (ord_cmp (decl_Position l) (decl_Position r))
      (cmp_then (ord_cmp (decl_Name l) (decl_Name r))
        (CompareArtifactOwners ts (decl_Owner l) (decl_Owner r))))"

lemma compareDeclarations_preorder: "compare_preorder (compareDeclarations ts)"
proof -
  have "compare_preorder (\<lambda>l r. CompareArtifactOwners ts (decl_Owner l) (decl_Owner r))"
    by (rule compare_preorder_key [OF CompareArtifactOwners_preorder])
  then show ?thesis
    unfolding compareDeclarations_def by (intro compare_preorder_lex compare_preorder_ord_key)
qed

interpretation declaration_order: compare_preorder "compareDeclarations ts"
  by (rule compareDeclarations_preorder)

lemma declarationLess_compare: "declarationLess ts l r \<longleftrightarrow> compareDeclarations ts l r < 0"
  by (auto simp: declarationLess_def compareDeclarations_def cmp_then_def)

lemma readyCompare_le: "readyCompare ts ds i j \<le> 0 \<longleftrightarrow> \<not> declarationLess ts (ds ! j) (ds ! i)"
  using declaration_order.cmp_flip [of ts "ds ! i" "ds ! j"]
  by (auto simp: readyCompare_def declarationLess_compare)

lemma readyCompare_preorder: "compare_preorder (readyCompare ts ds)"
  unfolding readyCompare_def declarationLess_compare
  by (rule compare_preorder_sign [OF compare_preorder_key [OF compareDeclarations_preorder]])

interpretation ready: bag_queue "readyCompare ts ds" "[]" "heap_Push (readyCompare ts ds)"
  "heap_Pop (readyCompare ts ds)" "\<lambda>h. length h \<noteq> 0" mset "heap_ok (readyCompare ts ds)"
  for ts :: "type_ref \<Rightarrow> string" and ds :: "target_declaration list"
  by (rule heap_bag_queue [OF readyCompare_preorder])

subsection \<open>The eager dependency graph\<close>

text \<open>
  The specification of the graph: a declaration provides an owner when it is the last one of that
  owner, and an edge leads from the provider of an eager dependency to the declaration that has it.
\<close>

definition unplaced :: "target_declaration \<Rightarrow> bool" where
  "unplaced d \<longleftrightarrow> owner_Source (decl_Owner d) \<noteq> None \<and> (decl_SourcePath d = '''' \<or> decl_Position d = NoPos)"

definition decl_provider :: "target_declaration list \<Rightarrow> artifact_owner \<Rightarrow> nat \<Rightarrow> bool" where
  "decl_provider ds w p \<longleftrightarrow> p < length ds \<and> decl_Owner (ds ! p) = w \<and>
     (\<forall>q < length ds. p < q \<longrightarrow> decl_Owner (ds ! q) \<noteq> w)"

definition eager_edge :: "target_declaration list \<Rightarrow> nat \<Rightarrow> nat \<Rightarrow> bool" where
  "eager_edge ds p c \<longleftrightarrow> c < length ds \<and> p \<noteq> c \<and>
     (\<exists>w \<in> set (decl_EagerDependencies (ds ! c)). decl_provider ds w p)"

definition eager_edges :: "target_declaration list \<Rightarrow> (nat \<times> nat) set" where
  "eager_edges ds = {(p, c). eager_edge ds p c}"

lemma indexOwners_error:
  "indexOwners ds i m = Inl e \<longleftrightarrow> (\<exists>d. find unplaced ds = Some d \<and> e = SourcePositionError (decl_Name d))"
  by (induction ds i m rule: indexOwners.induct) (auto simp: unplaced_def)

lemma decl_provider_Nil [simp]: "\<not> decl_provider [] w p"
  by (simp add: decl_provider_def)

lemma decl_provider_Cons:
  "decl_provider (d # ds) w p \<longleftrightarrow>
     (case p of 0 \<Rightarrow> decl_Owner d = w \<and> w \<notin> decl_Owner ` set ds | Suc k \<Rightarrow> decl_provider ds w k)"
proof (cases p)
  case 0
  have "(\<forall>q < Suc (length ds). 0 < q \<longrightarrow> decl_Owner ((d # ds) ! q) \<noteq> w) \<longleftrightarrow> w \<notin> decl_Owner ` set ds"
    by (auto simp: image_iff Bex_def in_set_conv_nth less_Suc_eq_0_disj)
  with 0 show ?thesis by (simp add: decl_provider_def)
next
  case (Suc k)
  have "(\<forall>q < Suc (length ds). Suc k < q \<longrightarrow> decl_Owner ((d # ds) ! q) \<noteq> w) \<longleftrightarrow>
      (\<forall>q < length ds. k < q \<longrightarrow> decl_Owner (ds ! q) \<noteq> w)"
    by (auto simp: less_Suc_eq_0_disj)
  with Suc show ?thesis by (simp add: decl_provider_def)
qed

lemma decl_provider_owner: "decl_provider ds w p \<Longrightarrow> w \<in> decl_Owner ` set ds"
  by (auto simp: decl_provider_def)

lemma decl_provider_unique: "decl_provider ds w p \<Longrightarrow> decl_provider ds w q \<Longrightarrow> p = q"
  unfolding decl_provider_def by (metis linorder_neqE_nat)

lemma indexOwners_provider:
  "indexOwners ds i m = Inr m' \<Longrightarrow>
     gm_get m' w = Some p \<longleftrightarrow>
       (\<exists>k. decl_provider ds w k \<and> p = i + k) \<or> w \<notin> decl_Owner ` set ds \<and> gm_get m w = Some p"
proof (induction ds i m rule: indexOwners.induct)
  case (2 d ds i m)
  then have ih: "gm_get m' w = Some p \<longleftrightarrow>
       (\<exists>k. decl_provider ds w k \<and> p = i + 1 + k) \<or>
       w \<notin> decl_Owner ` set ds \<and> gm_get (gm_put (decl_Owner d) i m) w = Some p"
    by (auto split: if_splits)
  have "(\<exists>k. decl_provider (d # ds) w k \<and> p = i + k) \<longleftrightarrow>
      decl_Owner d = w \<and> w \<notin> decl_Owner ` set ds \<and> p = i \<or> (\<exists>k. decl_provider ds w k \<and> p = i + 1 + k)"
    (is "?l \<longleftrightarrow> ?r")
  proof
    assume ?l
    then obtain k where "decl_provider (d # ds) w k" "p = i + k" by blast
    then show ?r by (cases k) (auto simp: decl_provider_Cons)
  next
    assume ?r
    then show ?l
    proof
      assume "decl_Owner d = w \<and> w \<notin> decl_Owner ` set ds \<and> p = i"
      then show ?l by (intro exI [of _ 0]) (simp add: decl_provider_Cons)
    next
      assume "\<exists>k. decl_provider ds w k \<and> p = i + 1 + k"
      then obtain k where "decl_provider ds w k" "p = i + 1 + k" by blast
      then show ?l by (intro exI [of _ "Suc k"]) (simp add: decl_provider_Cons)
    qed
  qed
  with ih show ?case by auto
qed simp

lemma indexOwners_lookup:
  "indexOwners ds 0 [] = Inr m \<Longrightarrow> gm_get m w = Some p \<longleftrightarrow> decl_provider ds w p"
  by (simp add: indexOwners_provider)

text \<open>What the three tables hold when the edges \<open>E\<close> have been added.\<close>

definition graph_of :: "nat \<Rightarrow> (nat \<times> nat) set \<Rightarrow> order_graph \<Rightarrow> bool" where
  "graph_of n E g \<longleftrightarrow> E \<subseteq> {..<n} \<times> {..<n} \<and> set (og_edges g) = E \<and>
     length (og_dependents g) = n \<and> length (og_indegree g) = n \<and>
     (\<forall>p < n. distinct (og_dependents g ! p) \<and> set (og_dependents g ! p) = {c. (p, c) \<in> E}) \<and>
     (\<forall>c < n. og_indegree g ! c = int (card {p. (p, c) \<in> E}))"

lemma finite_providers: "E \<subseteq> {..<n::nat} \<times> {..<n} \<Longrightarrow> finite {p. (p, c) \<in> E}"
  by (rule finite_subset [of _ "{..<n}"]) auto

lemma graph_of_insert:
  assumes g: "graph_of n E g" and e: "(p, c) \<notin> E" "p < n" "c < n"
  shows "graph_of n (insert (p, c) E)
    (g\<lparr>og_edges := (p, c) # og_edges g,
       og_dependents := (og_dependents g)[p := og_dependents g ! p @ [c]],
       og_indegree := (og_indegree g)[c := og_indegree g ! c + 1]\<rparr>)"
proof -
  have "{q. (q, c) \<in> insert (p, c) E} = insert p {q. (q, c) \<in> E}" by auto
  moreover have "{q. (q, x) \<in> insert (p, c) E} = {q. (q, x) \<in> E}" if "x \<noteq> c" for x using that by auto
  moreover have "finite {q. (q, c) \<in> E}" using g unfolding graph_of_def by (blast intro: finite_providers)
  ultimately have "\<forall>x < n. ((og_indegree g)[c := og_indegree g ! c + 1]) ! x =
      int (card {q. (q, x) \<in> insert (p, c) E})"
    using g e by (simp add: graph_of_def nth_list_update)
  moreover have "\<forall>x < n. distinct (((og_dependents g)[p := og_dependents g ! p @ [c]]) ! x) \<and>
      set (((og_dependents g)[p := og_dependents g ! p @ [c]]) ! x) = {d. (x, d) \<in> insert (p, c) E}"
    using g e by (auto simp: graph_of_def nth_list_update)
  ultimately show ?thesis using g e by (simp add: graph_of_def)
qed

lemma graph_of_addEdge:
  assumes g: "graph_of n E g" and c: "c < n" and m: "\<And>p. gm_get m w = Some p \<Longrightarrow> p < n"
  shows "graph_of n (E \<union> {(p, c) | p. gm_get m w = Some p \<and> p \<noteq> c}) (addEdge m c w g)"
proof (cases "gm_get m w")
  case None
  then show ?thesis using g by (simp add: addEdge_def)
next
  case (Some p)
  have e: "set (og_edges g) = E" using g by (simp add: graph_of_def)
  have "E \<union> {(p, c) | p. gm_get m w = Some p \<and> p \<noteq> c} =
      (if p = c \<or> (p, c) \<in> E then E else insert (p, c) E)"
    using Some by auto
  then show ?thesis
    using graph_of_insert [OF g, of p c] g c m [OF Some] Some by (auto simp: addEdge_def e)
qed

lemma graph_of_edges:
  assumes g: "graph_of n E g" and c: "c < n" and m: "\<And>w p. gm_get m w = Some p \<Longrightarrow> p < n"
  shows "graph_of n (E \<union> {(p, c) | p. \<exists>w \<in> set ws. gm_get m w = Some p \<and> p \<noteq> c}) (fold (addEdge m c) ws g)"
  using g
proof (induction ws arbitrary: E g)
  case (Cons w ws)
  have "E \<union> {(p, c) | p. gm_get m w = Some p \<and> p \<noteq> c} \<union>
      {(p, c) | p. \<exists>w \<in> set ws. gm_get m w = Some p \<and> p \<noteq> c} =
    E \<union> {(p, c) | p. \<exists>v \<in> set (w # ws). gm_get m v = Some p \<and> p \<noteq> c}"
    by auto
  with Cons.IH [OF graph_of_addEdge [OF Cons.prems c, of m w, OF m]] show ?case by simp
qed simp

lemma graph_of_consumers:
  assumes g: "graph_of n E g" and m: "\<And>w p. gm_get m w = Some p \<Longrightarrow> p < n" and cs: "set cs \<subseteq> {..<n}"
  shows "graph_of n (E \<union> {(p, c) | p c. c \<in> set cs \<and>
      (\<exists>w \<in> set (decl_EagerDependencies (ds ! c)). gm_get m w = Some p \<and> p \<noteq> c)})
    (fold (linkConsumer m ds) cs g)"
  using g cs
proof (induction cs arbitrary: E g)
  case (Cons c cs)
  let ?e = "\<lambda>cs. {(p, c) | p c. c \<in> set cs \<and>
      (\<exists>w \<in> set (decl_EagerDependencies (ds ! c)). gm_get m w = Some p \<and> p \<noteq> c)}"
  have "E \<union> {(p, c) | p. \<exists>w \<in> set (decl_EagerDependencies (ds ! c)). gm_get m w = Some p \<and> p \<noteq> c} \<union> ?e cs =
      E \<union> ?e (c # cs)"
    by auto
  moreover have "graph_of n (E \<union> {(p, c) | p. \<exists>w \<in> set (decl_EagerDependencies (ds ! c)).
      gm_get m w = Some p \<and> p \<noteq> c}) (linkConsumer m ds c g)"
    using graph_of_edges [OF Cons.prems(1) _ m] Cons.prems(2) by (simp add: linkConsumer_def)
  ultimately show ?case using Cons.IH Cons.prems(2) by fastforce
qed simp

lemma linkDeclarations_graph:
  assumes "indexOwners ds 0 [] = Inr m"
  shows "graph_of (length ds) (eager_edges ds) (linkDeclarations m ds)"
proof -
  have get: "gm_get m w = Some p \<longleftrightarrow> decl_provider ds w p" for w p
    using indexOwners_lookup [OF assms] .
  have "graph_of (length ds) {} \<lparr>og_edges = [], og_dependents = replicate (length ds) [],
      og_indegree = replicate (length ds) 0\<rparr>"
    by (simp add: graph_of_def)
  then have "graph_of (length ds) ({} \<union> {(p, c) | p c. c \<in> set [0..<length ds] \<and>
      (\<exists>w \<in> set (decl_EagerDependencies (ds ! c)). gm_get m w = Some p \<and> p \<noteq> c)})
      (linkDeclarations m ds)"
    unfolding linkDeclarations_def Let_def
    by (rule graph_of_consumers) (auto simp: get decl_provider_def)
  moreover have "{} \<union> {(p, c) | p c. c \<in> set [0..<length ds] \<and>
      (\<exists>w \<in> set (decl_EagerDependencies (ds ! c)). gm_get m w = Some p \<and> p \<noteq> c)} = eager_edges ds"
    by (auto simp: eager_edges_def eager_edge_def get)
  ultimately show ?thesis by simp
qed

subsection \<open>The loop\<close>

text \<open>
  A declaration is available after \<open>xs\<close> when it is not in \<open>xs\<close> and everything it depends on is.
  A greedy order takes a least available declaration at each step.
\<close>

definition available :: "nat \<Rightarrow> (nat \<times> nat) set \<Rightarrow> nat set \<Rightarrow> nat \<Rightarrow> bool" where
  "available n E X j \<longleftrightarrow> j < n \<and> j \<notin> X \<and> {p. (p, j) \<in> E} \<subseteq> X"

definition greedy :: "(nat \<Rightarrow> nat \<Rightarrow> int) \<Rightarrow> nat \<Rightarrow> (nat \<times> nat) set \<Rightarrow> nat list \<Rightarrow> bool" where
  "greedy cmp n E xs \<longleftrightarrow>
     (\<forall>k < length xs. available n E (set (take k xs)) (xs ! k) \<and>
        (\<forall>j. available n E (set (take k xs)) j \<longrightarrow> cmp (xs ! k) j \<le> 0))"

lemma greedy_snoc:
  "greedy cmp n E (xs @ [x]) \<longleftrightarrow>
     greedy cmp n E xs \<and> available n E (set xs) x \<and> (\<forall>j. available n E (set xs) j \<longrightarrow> cmp x j \<le> 0)"
  by (auto simp: greedy_def nth_append less_Suc_eq)

lemma greedy_closed:
  "greedy cmp n E xs \<Longrightarrow> set xs \<subseteq> {..<n} \<and> distinct xs \<and> (\<forall>c \<in> set xs. {p. (p, c) \<in> E} \<subseteq> set xs)"
proof (induction xs rule: rev_induct)
  case (snoc x xs)
  then show ?case unfolding greedy_snoc available_def by auto
qed simp

definition drain_inv ::
    "(nat \<Rightarrow> nat \<Rightarrow> int) \<Rightarrow> nat \<Rightarrow> (nat \<times> nat) set \<Rightarrow> nat set \<Rightarrow> nat set \<Rightarrow> nat list \<Rightarrow> int list \<Rightarrow> bool" where
  "drain_inv cmp n E X C ready indegree \<longleftrightarrow>
     heap_ok cmp ready \<and> distinct ready \<and> length indegree = n \<and>
     (\<forall>c < n. indegree ! c = int (card ({p. (p, c) \<in> E} - X)) + (if c \<in> C then 1 else 0)) \<and>
     set ready = {c. c < n \<and> c \<notin> X \<and> indegree ! c = 0}"

text \<open>\<open>X\<close> is the set of declarations that are out and \<open>C\<close> the dependents still to be released.\<close>

lemma drain_inv_release:
  assumes cmp: "compare_preorder cmp" and inv: "drain_inv cmp n E X (insert c C) ready indegree"
    and c: "c < n" "c \<notin> X" "c \<notin> C"
    and r: "releaseDependent cmp c (ready, indegree) = (ready', indegree')"
  shows "drain_inv cmp n E X C ready' indegree'"
proof -
  let ?d = "indegree[c := indegree ! c - 1]"
  have deg: "\<forall>x < n. indegree ! x = int (card ({p. (p, x) \<in> E} - X)) + (if x \<in> insert c C then 1 else 0)"
    and ready: "set ready = {x. x < n \<and> x \<notin> X \<and> indegree ! x = 0}"
    and h: "heap_ok cmp ready" and len: "length indegree = n" and d: "distinct ready"
    using inv by (simp_all add: drain_inv_def)
  have dc: "indegree ! c = int (card ({p. (p, c) \<in> E} - X)) + 1" using deg c(1) by simp
  have deg': "\<forall>x < n. ?d ! x = int (card ({p. (p, x) \<in> E} - X)) + (if x \<in> C then 1 else 0)"
    using deg c len by (simp add: nth_list_update)
  have new: "c \<notin> set ready" using ready dc by simp
  have set': "{x. x < n \<and> x \<notin> X \<and> ?d ! x = 0} = (if ?d ! c = 0 then insert c (set ready) else set ready)"
    using ready new c len by (auto simp: nth_list_update)
  have "ready' = (if ?d ! c = 0 then heap_Push cmp c ready else ready)" "indegree' = ?d"
    using r c len by (auto simp: releaseDependent_def Let_def split: if_splits)
  moreover have "heap_ok cmp (heap_Push cmp c ready)"
    using heap_bag_queue [OF cmp] h by (rule min_queue.inv_push [OF bag_queue.axioms(1)])
  moreover have "set (heap_Push cmp c ready) = insert c (set ready)" "distinct (heap_Push cmp c ready)"
    using mset_eq_setD [of "heap_Push cmp c ready" "c # ready"]
      mset_eq_imp_distinct_iff [of "heap_Push cmp c ready" "c # ready"] d new by auto
  ultimately show ?thesis using deg' set' h d len by (simp add: drain_inv_def)
qed

lemma drain_inv_releases:
  assumes cmp: "compare_preorder cmp"
  shows "drain_inv cmp n E X (set cs) ready indegree \<Longrightarrow> distinct cs \<Longrightarrow> set cs \<subseteq> {..<n} - X \<Longrightarrow>
    fold (releaseDependent cmp) cs (ready, indegree) = (ready', indegree') \<Longrightarrow>
    drain_inv cmp n E X {} ready' indegree'"
proof (induction cs arbitrary: ready indegree)
  case (Cons c cs)
  obtain ready1 indegree1 where r: "releaseDependent cmp c (ready, indegree) = (ready1, indegree1)"
    by fastforce
  have "drain_inv cmp n E X (set cs) ready1 indegree1"
    using drain_inv_release [OF cmp _ _ _ _ r] Cons.prems by simp
  then show ?case using Cons.IH Cons.prems r by simp
qed simp

lemma available_ready:
  assumes "E \<subseteq> {..<n} \<times> {..<n}" "drain_inv cmp n E X {} ready indegree"
  shows "set ready = {j. available n E X j}"
proof -
  have "card ({p. (p, j) \<in> E} - X) = 0 \<longleftrightarrow> {p. (p, j) \<in> E} \<subseteq> X" for j
    using finite_providers [OF assms(1), of j] by auto
  then show ?thesis using assms(2) by (auto simp: drain_inv_def available_def)
qed

lemma drain_inv_pop:
  assumes cmp: "compare_preorder cmp" and E: "E \<subseteq> {..<n} \<times> {..<n}" and irr: "(x, x) \<notin> E"
    and dep: "distinct cs" "set cs = {c. (x, c) \<in> E}"
    and inv: "drain_inv cmp n E X {} ready indegree" and X: "\<forall>c \<in> X. {p. (p, c) \<in> E} \<subseteq> X"
    and pop: "heap_Pop cmp ready = (Some x, rest)"
    and fold: "fold (releaseDependent cmp) cs (rest, indegree) = (ready', indegree')"
  shows "drain_inv cmp n E (insert x X) {} ready' indegree' \<and> available n E X x \<and>
    (\<forall>j. available n E X j \<longrightarrow> cmp x j \<le> 0)"
proof -
  have h: "heap_ok cmp ready" and d: "distinct ready" and len: "length indegree = n"
    and deg: "\<forall>c < n. indegree ! c = int (card ({p. (p, c) \<in> E} - X))"
    using inv by (simp_all add: drain_inv_def)
  have avail: "set ready = {j. available n E X j}" by (rule available_ready [OF E inv])
  have rest: "heap_ok cmp rest" "mset ready = add_mset x (mset rest)" "\<forall>y \<in># mset ready. cmp x y \<le> 0"
    using min_queue.pop_some [OF bag_queue.axioms(1) [OF heap_bag_queue [OF cmp]] h pop] by blast+
  then have set_rest: "set ready = insert x (set rest)" by (metis set_mset_add_mset_insert set_mset_mset)
  have xr: "x \<notin> set rest" "distinct rest"
    using d rest(2) mset_eq_imp_distinct_iff [of ready "x # rest"] by auto
  have ax: "available n E X x" using avail set_rest by auto
  then have x: "x < n" "x \<notin> X" by (simp_all add: available_def)
  have deg': "indegree ! c = int (card ({p. (p, c) \<in> E} - insert x X)) + (if c \<in> set cs then 1 else 0)"
    if c: "c < n" for c
  proof (cases "(x, c) \<in> E")
    case True
    then have "{p. (p, c) \<in> E} - X = insert x ({p. (p, c) \<in> E} - insert x X)" using x(2) by blast
    moreover have "finite ({p. (p, c) \<in> E} - insert x X)" using finite_providers [OF E, of c] by (rule finite_Diff)
    ultimately have "card ({p. (p, c) \<in> E} - X) = Suc (card ({p. (p, c) \<in> E} - insert x X))"
      by (metis Diff_iff card_insert_disjoint insertI1)
    then show ?thesis using deg c True dep(2) by simp
  next
    case False
    then have "{p. (p, c) \<in> E} - X = {p. (p, c) \<in> E} - insert x X" by blast
    then show ?thesis using deg c False dep(2) by simp
  qed
  have "set rest = {c. c < n \<and> c \<notin> insert x X \<and> indegree ! c = 0}"
    using inv set_rest xr(1) by (auto simp: drain_inv_def)
  then have "drain_inv cmp n E (insert x X) (set cs) rest indegree"
    using rest(1) xr(2) len deg' by (simp add: drain_inv_def)
  moreover have "set cs \<subseteq> {..<n} - insert x X"
    using dep(2) E X x irr by auto
  ultimately have "drain_inv cmp n E (insert x X) {} ready' indegree'"
    using drain_inv_releases [OF cmp _ dep(1) _ fold] by blast
  then show ?thesis using ax rest(3) avail by auto
qed

lemma drainReady_greedy:
  "compare_preorder cmp \<Longrightarrow> E \<subseteq> {..<n} \<times> {..<n} \<Longrightarrow>
    \<forall>p < n. distinct (dependents ! p) \<and> set (dependents ! p) = {c. (p, c) \<in> E} \<Longrightarrow>
    \<forall>p. (p, p) \<notin> E \<Longrightarrow> drain_inv cmp n E (set ordered) {} ready indegree \<Longrightarrow> greedy cmp n E ordered \<Longrightarrow>
    \<exists>out indegree'. drainReady cmp dependents ready indegree ordered = (out, indegree') \<and>
      greedy cmp n E out \<and> drain_inv cmp n E (set out) {} [] indegree'"
proof (induction cmp dependents ready indegree ordered rule: drainReady.induct)
  case (1 cmp dependents ready indegree ordered)
  show ?case
  proof (cases "heap_Pop cmp ready")
    case (Pair popped rest)
    show ?thesis
    proof (cases popped)
      case None
      then have "ready = []" using Pair by (auto simp: heap_Pop_def Let_def split: if_splits)
      then show ?thesis using 1 Pair None by (simp add: drainReady.simps)
    next
      case (Some x)
      obtain ready' indegree' where f:
        "fold (releaseDependent cmp) (dependents ! x) (rest, indegree) = (ready', indegree')" by fastforce
      have pop: "heap_Pop cmp ready = (Some x, rest)" using Pair Some by simp
      have "x \<in> set ready" using pop heap_Pop_cases [of ready cmp]
        by (cases "ready = []") (auto simp: heap_Pop_def)
      then have "x < n" using "1.prems"(5) by (simp add: drain_inv_def)
      then have dep: "distinct (dependents ! x)" "set (dependents ! x) = {c. (x, c) \<in> E}"
        using "1.prems"(3) by auto
      note step = drain_inv_pop [OF "1.prems"(1,2) _ dep "1.prems"(5) _ pop f]
      have "drain_inv cmp n E (insert x (set ordered)) {} ready' indegree' \<and>
          available n E (set ordered) x \<and> (\<forall>j. available n E (set ordered) j \<longrightarrow> cmp x j \<le> 0)"
        using step "1.prems"(4) greedy_closed [OF "1.prems"(6)] by blast
      then have "\<exists>out indegree''. drainReady cmp dependents ready' indegree' (ordered @ [x]) = (out, indegree'') \<and>
          greedy cmp n E out \<and> drain_inv cmp n E (set out) {} [] indegree''"
        using "1.prems" by (intro "1.IH" [OF pop [symmetric] refl f [symmetric] refl]) (auto simp: greedy_snoc)
      moreover have "drainReady cmp dependents ready indegree ordered =
          drainReady cmp dependents ready' indegree' (ordered @ [x])"
        by (subst drainReady.simps) (simp add: pop f)
      ultimately show ?thesis by simp
    qed
  qed
qed

lemma initialReady_inv:
  assumes cmp: "compare_preorder cmp" and len: "length indegree = n"
    and deg: "\<forall>c < n. indegree ! c = int (card {p. (p, c) \<in> E})"
  shows "drain_inv cmp n E {} {} (initialReady cmp indegree) indegree"
proof -
  note queue = heap_bag_queue [OF cmp]
  let ?step = "\<lambda>index ready. if indegree ! index = 0 then heap_Push cmp index ready else ready"
  have "heap_ok cmp (fold ?step is q) \<and> distinct (fold ?step is q) \<and>
      set (fold ?step is q) = set q \<union> {i \<in> set is. indegree ! i = 0}"
    if "heap_ok cmp q" "distinct (q @ is)" for "is" and q :: "nat list"
    using that
  proof (induction "is" arbitrary: q)
    case (Cons i "is")
    have "heap_ok cmp (heap_Push cmp i q)"
      by (rule min_queue.inv_push [OF bag_queue.axioms(1) [OF queue] Cons.prems(1)])
    moreover have "set (heap_Push cmp i q) = insert i (set q)" "distinct (heap_Push cmp i q)"
      using mset_eq_setD [of "heap_Push cmp i q" "i # q"]
        mset_eq_imp_distinct_iff [of "heap_Push cmp i q" "i # q"] Cons.prems(2) by auto
    ultimately show ?case
      using Cons.IH [of "heap_Push cmp i q"] Cons.IH [of q] Cons.prems by auto
  qed simp
  from this [of "[]" "[0..<n]"] show ?thesis
    using len deg by (auto simp: drain_inv_def initialReady_def)
qed

text \<open>A set that contains a predecessor of each of its elements, when it is finite, is fed by a cycle.\<close>

lemma fed_by_cycle:
  assumes fin: "finite U" and pred: "\<And>c. c \<in> U \<Longrightarrow> \<exists>p \<in> U. (p, c) \<in> E" and c: "c \<in> U"
  shows "\<exists>x. (x, x) \<in> E\<^sup>+ \<and> (x, c) \<in> E\<^sup>*"
proof (rule ccontr)
  assume no: "\<not> ?thesis"
  let ?A = "{x \<in> U. (x, c) \<in> E\<^sup>*}" and ?R = "E \<inter> {x \<in> U. (x, c) \<in> E\<^sup>*} \<times> {x \<in> U. (x, c) \<in> E\<^sup>*}"
  have "acyclic ?R"
  proof (rule acyclicI, intro allI notI)
    fix x assume x: "(x, x) \<in> ?R\<^sup>+"
    then have "x \<in> ?A" by (auto dest: tranclD)
    moreover have "(x, x) \<in> E\<^sup>+" using trancl_mono [OF x, of E] by blast
    ultimately show False using no by blast
  qed
  then have "wf ?R" using fin by (intro finite_acyclic_wf) auto
  then obtain z where z: "z \<in> ?A" "\<And>y. (y, z) \<in> ?R \<Longrightarrow> y \<notin> ?A"
    using c wfE_min [of ?R c ?A] by blast
  obtain p where "p \<in> U" "(p, z) \<in> E" using pred z(1) by blast
  moreover have "(p, c) \<in> E\<^sup>*" using \<open>(p, z) \<in> E\<close> z(1) by (auto intro: converse_rtrancl_into_rtrancl)
  ultimately show False using z by blast
qed

subsection \<open>What the function returns\<close>

lemma Indices_unplaced:
  "find unplaced ds = Some d \<Longrightarrow> Indices ts ds = Inl (SourcePositionError (decl_Name d))"
  using indexOwners_error [of ds 0 "[]" "SourcePositionError (decl_Name d)"] by (simp add: Indices_def)

lemma eager_edges_range: "eager_edges ds \<subseteq> {..<length ds} \<times> {..<length ds}"
  by (auto simp: eager_edges_def eager_edge_def decl_provider_def)

lemma eager_edges_irrefl: "(p, p) \<notin> eager_edges ds"
  by (simp add: eager_edges_def eager_edge_def)

lemma Indices_greedy:
  assumes "find unplaced ds = None"
  obtains out where "greedy (readyCompare ts ds) (length ds) (eager_edges ds) out"
    "\<And>j. \<not> available (length ds) (eager_edges ds) (set out) j"
    "Indices ts ds = (if length out = length ds then Inr out
       else Inl (CycleError (hd (sort (map (\<lambda>i. decl_Name (ds ! i)) (filter (\<lambda>i. i \<notin> set out) [0..<length ds]))))))"
proof -
  let ?n = "length ds" and ?E = "eager_edges ds" and ?cmp = "readyCompare ts ds"
  obtain m where m: "indexOwners ds 0 [] = Inr m"
    using assms indexOwners_error [of ds 0 "[]"] by (cases "indexOwners ds 0 []") auto
  define g where "g = linkDeclarations m ds"
  have g: "graph_of ?n ?E g" unfolding g_def by (rule linkDeclarations_graph [OF m])
  have inv: "drain_inv ?cmp ?n ?E (set []) {} (initialReady ?cmp (og_indegree g)) (og_indegree g)"
    using initialReady_inv [OF readyCompare_preorder] g by (simp add: graph_of_def)
  have dep: "\<forall>p < ?n. distinct (og_dependents g ! p) \<and> set (og_dependents g ! p) = {c. (p, c) \<in> ?E}"
    using g by (simp add: graph_of_def)
  obtain out indegree where out:
    "drainReady ?cmp (og_dependents g) (initialReady ?cmp (og_indegree g)) (og_indegree g) [] = (out, indegree)"
    "greedy ?cmp ?n ?E out" "drain_inv ?cmp ?n ?E (set out) {} [] indegree"
    using drainReady_greedy [OF readyCompare_preorder eager_edges_range dep _ inv] eager_edges_irrefl
    by (auto simp: greedy_def)
  have none: "\<not> available ?n ?E (set out) j" for j
    using available_ready [OF eager_edges_range out(3)] by auto
  have "indegree ! c \<noteq> 0 \<longleftrightarrow> c \<notin> set out" if c: "c < ?n" for c
  proof
    assume "indegree ! c \<noteq> 0"
    then have "card ({p. (p, c) \<in> ?E} - set out) \<noteq> 0" using out(3) c by (simp add: drain_inv_def)
    then have "\<not> {p. (p, c) \<in> ?E} \<subseteq> set out" by (metis Diff_eq_empty_iff card.empty)
    moreover have "\<forall>c \<in> set out. {p. (p, c) \<in> ?E} \<subseteq> set out" using greedy_closed [OF out(2)] by (elim conjE)
    ultimately show "c \<notin> set out" by (elim contrapos_nn) (rule bspec)
  qed (use out(3) c in \<open>auto simp: drain_inv_def\<close>)
  moreover have "length indegree = ?n" using out(3) by (simp add: drain_inv_def)
  ultimately have "filter (\<lambda>i. indegree ! i \<noteq> 0) [0..<length indegree] = filter (\<lambda>i. i \<notin> set out) [0..<?n]"
    by (auto intro: filter_cong)
  then have "Indices ts ds = (if length out = ?n then Inr out
       else Inl (CycleError (hd (sort (map (\<lambda>i. decl_Name (ds ! i)) (filter (\<lambda>i. i \<notin> set out) [0..<?n]))))))"
    by (simp add: Indices_def m Let_def out(1) flip: g_def)
  with out(2) none show ?thesis by (rule that)
qed

lemma greedy_all:
  assumes "greedy cmp n E out"
  shows "length out \<le> n \<and> (length out = n \<longleftrightarrow> set out = {..<n})"
proof -
  have c: "set out \<subseteq> {..<n}" "distinct out" using greedy_closed [OF assms] by auto
  then have "card (set out) = length out" by (simp add: distinct_card)
  moreover have "card (set out) \<le> n" using card_mono [OF finite_lessThan c(1)] by simp
  moreover have "card (set out) = n \<longleftrightarrow> set out = {..<n}"
    using card_subset_eq [OF finite_lessThan c(1)] by (metis card_lessThan)
  ultimately show ?thesis by simp
qed

lemma Indices_Inr:
  assumes "Indices ts ds = Inr order"
  shows "greedy (readyCompare ts ds) (length ds) (eager_edges ds) order \<and> set order = {..<length ds} \<and>
    distinct order \<and> find unplaced ds = None"
proof -
  have none: "find unplaced ds = None" using assms Indices_unplaced [of ds] by (cases "find unplaced ds") auto
  obtain out where out: "greedy (readyCompare ts ds) (length ds) (eager_edges ds) out"
      "Indices ts ds = (if length out = length ds then Inr out
       else Inl (CycleError (hd (sort (map (\<lambda>i. decl_Name (ds ! i)) (filter (\<lambda>i. i \<notin> set out) [0..<length ds]))))))"
    using Indices_greedy [OF none] by metis
  then have "out = order" "length out = length ds" using assms by (auto split: if_splits)
  then show ?thesis using out(1) greedy_all [OF out(1)] greedy_closed [OF out(1)] none by auto
qed

text \<open>What is left when nothing is available: the declarations that depend on a cycle.\<close>

lemma greedy_stuck:
  assumes g: "greedy cmp n E out" and none: "\<And>j. \<not> available n E (set out) j"
    and E: "E \<subseteq> {..<n} \<times> {..<n}"
  shows "{..<n} - set out = {c. c < n \<and> (\<exists>x. (x, x) \<in> E\<^sup>+ \<and> (x, c) \<in> E\<^sup>*)}"
proof (intro equalityI subsetI)
  fix c assume c: "c \<in> {..<n} - set out"
  have "\<exists>p \<in> {..<n} - set out. (p, d) \<in> E" if "d \<in> {..<n} - set out" for d
    using none [of d] that E by (auto simp: available_def)
  from fed_by_cycle [OF _ this c] c show "c \<in> {c. c < n \<and> (\<exists>x. (x, x) \<in> E\<^sup>+ \<and> (x, c) \<in> E\<^sup>*)}"
    by simp
next
  fix c assume "c \<in> {c. c < n \<and> (\<exists>x. (x, x) \<in> E\<^sup>+ \<and> (x, c) \<in> E\<^sup>*)}"
  then obtain x where c: "c < n" and x: "(x, x) \<in> E\<^sup>+" "(x, c) \<in> E\<^sup>*" by blast
  have earlier: "j < k" if "(p, out ! k) \<in> E" "k < length out" "j < length out" "out ! j = p" for p j k
  proof -
    have "p \<in> set (take k out)" using g that by (auto simp: greedy_def available_def)
    then obtain i where "i < k" "i < length out" "out ! i = p" by (auto simp: in_set_conv_nth)
    moreover have "distinct out" using greedy_closed [OF g] by blast
    ultimately show ?thesis using that by (metis nth_eq_iff_index_eq)
  qed
  have up: "\<exists>j < length out. out ! j = p \<and> j < k" if "(p, q) \<in> E\<^sup>+" "k < length out" "q = out ! k" for p q k
    using that
  proof (induction arbitrary: k rule: trancl_induct)
    case (base q)
    then have "p \<in> set out" using greedy_closed [OF g] by auto
    then show ?case using earlier base by (metis in_set_conv_nth)
  next
    case (step q r)
    then have "q \<in> set out" using greedy_closed [OF g] by auto
    then obtain j where j: "j < length out" "out ! j = q" by (auto simp: in_set_conv_nth)
    then have "j < k" using earlier step.hyps(2) step.prems by auto
    then show ?case using step.IH [OF j(1) j(2) [symmetric]] by auto
  qed
  have "c \<notin> set out"
  proof
    assume "c \<in> set out"
    have "x \<in> set out"
      using x(2) \<open>c \<in> set out\<close>
    proof (induction rule: converse_rtrancl_induct)
      case (step y z)
      then show ?case using greedy_closed [OF g] by auto
    qed
    then obtain k where "k < length out" "out ! k = x" by (auto simp: in_set_conv_nth)
    then obtain j where "j < length out" "out ! j = x" "j < k" using up [OF x(1)] by auto
    moreover have "distinct out" using greedy_closed [OF g] by blast
    ultimately show False using \<open>k < length out\<close> \<open>out ! k = x\<close> by (metis nth_eq_iff_index_eq less_irrefl)
  qed
  with c show "c \<in> {..<n} - set out" by simp
qed

lemma hd_sort_Min: "xs \<noteq> [] \<Longrightarrow> hd (sort xs) = Min (set xs)"
proof -
  assume ne: "xs \<noteq> []"
  then obtain y ys where s: "sort xs = y # ys" by (cases "sort xs") (auto dest: arg_cong [of _ _ length])
  then have "sorted (y # ys)" using sorted_sort [of xs] by simp
  then have "Min (set (y # ys)) = y" by (intro Min_eqI) auto
  then show ?thesis using s by (metis list.sel(1) set_sort)
qed

subsection \<open>The order does not depend on how the declarations are listed\<close>

text \<open>Availability and greedy choice stated on the declarations themselves, without positions.\<close>

definition davailable :: "target_declaration set \<Rightarrow> target_declaration set \<Rightarrow> target_declaration \<Rightarrow> bool" where
  "davailable D X d \<longleftrightarrow> d \<in> D \<and> d \<notin> X \<and>
     (\<forall>e \<in> D. e \<noteq> d \<longrightarrow> decl_Owner e \<in> set (decl_EagerDependencies d) \<longrightarrow> e \<in> X)"

definition dgreedy ::
    "(type_ref \<Rightarrow> string) \<Rightarrow> target_declaration set \<Rightarrow> target_declaration list \<Rightarrow> bool" where
  "dgreedy ts D out \<longleftrightarrow>
     (\<forall>k < length out. davailable D (set (take k out)) (out ! k) \<and>
        (\<forall>d. davailable D (set (take k out)) d \<longrightarrow> \<not> declarationLess ts d (out ! k)))"

lemma dgreedy_prefix:
  assumes g: "dgreedy ts D xs" "dgreedy ts D ys" and len: "length xs \<le> length ys"
    and tie: "\<And>d e. d \<in> D \<Longrightarrow> e \<in> D \<Longrightarrow> \<not> declarationLess ts d e \<Longrightarrow> \<not> declarationLess ts e d \<Longrightarrow> d = e"
  shows "take (length xs) ys = xs"
proof -
  have "xs ! k = ys ! k" if "k < length xs" for k
    using that
  proof (induction k rule: less_induct)
    case (less k)
    then have "take k xs = take k ys" using len by (intro nth_take_lemma) auto
    then have "davailable D (set (take k xs)) (xs ! k)" "davailable D (set (take k xs)) (ys ! k)"
      "\<not> declarationLess ts (ys ! k) (xs ! k)" "\<not> declarationLess ts (xs ! k) (ys ! k)"
      using g less.prems len unfolding dgreedy_def by (metis order_less_le_trans)+
    then show ?case using tie by (auto simp: davailable_def)
  qed
  then show ?thesis using len by (intro nth_equalityI) auto
qed

lemma eager_edge_distinct:
  assumes "distinct (map decl_Owner ds)"
  shows "eager_edge ds p c \<longleftrightarrow> c < length ds \<and> p < length ds \<and> p \<noteq> c \<and>
    decl_Owner (ds ! p) \<in> set (decl_EagerDependencies (ds ! c))"
proof -
  have "decl_provider ds w p \<longleftrightarrow> p < length ds \<and> decl_Owner (ds ! p) = w" for w
    using assms by (auto simp: decl_provider_def distinct_conv_nth)
  then show ?thesis by (auto simp: eager_edge_def)
qed

lemma davailable_map:
  assumes d: "distinct (map decl_Owner ds)" and X: "X \<subseteq> {..<length ds}" and j: "j < length ds"
  shows "davailable (set ds) ((!) ds ` X) (ds ! j) \<longleftrightarrow> available (length ds) (eager_edges ds) X j"
proof -
  have dd: "distinct ds" using d by (simp add: distinct_map)
  have inj: "inj_on ((!) ds) {..<length ds}" using dd by (simp add: inj_on_nth)
  have mem: "ds ! i \<in> (!) ds ` X \<longleftrightarrow> i \<in> X" if "i < length ds" for i
    using inj_on_image_mem_iff [OF inj _ X] that by simp
  have "(\<forall>e \<in> set ds. e \<noteq> ds ! j \<longrightarrow> decl_Owner e \<in> set (decl_EagerDependencies (ds ! j)) \<longrightarrow> e \<in> (!) ds ` X) \<longleftrightarrow>
      (\<forall>p < length ds. p \<noteq> j \<longrightarrow> decl_Owner (ds ! p) \<in> set (decl_EagerDependencies (ds ! j)) \<longrightarrow> p \<in> X)"
    unfolding all_set_conv_all_nth using mem j dd by (auto simp: nth_eq_iff_index_eq)
  also have "\<dots> \<longleftrightarrow> {p. (p, j) \<in> eager_edges ds} \<subseteq> X"
    using j by (auto simp: eager_edges_def eager_edge_distinct [OF d])
  finally show ?thesis using j mem [OF j] by (simp add: davailable_def available_def)
qed

lemma greedy_dgreedy:
  assumes d: "distinct (map decl_Owner ds)"
    and g: "greedy (readyCompare ts ds) (length ds) (eager_edges ds) out"
  shows "dgreedy ts (set ds) (map ((!) ds) out)"
  unfolding dgreedy_def
proof (intro allI impI conjI)
  fix k assume k: "k < length (map ((!) ds) out)"
  have X: "set (take k out) \<subseteq> {..<length ds}"
    using greedy_closed [OF g] set_take_subset [of k out] by (elim conjE) (rule order_trans)
  have s: "set (take k (map ((!) ds) out)) = (!) ds ` set (take k out)" by (simp add: take_map)
  have av: "available (length ds) (eager_edges ds) (set (take k out)) (out ! k)"
    and le: "\<And>j. available (length ds) (eager_edges ds) (set (take k out)) j \<Longrightarrow> readyCompare ts ds (out ! k) j \<le> 0"
    using g k by (auto simp: greedy_def)
  have "out ! k < length ds" using av by (simp add: available_def)
  then show "davailable (set ds) (set (take k (map ((!) ds) out))) (map ((!) ds) out ! k)"
    using davailable_map [OF d X] av k by (simp add: s)
  fix e assume e: "davailable (set ds) (set (take k (map ((!) ds) out))) e"
  then obtain j where j: "j < length ds" "e = ds ! j" by (auto simp: davailable_def in_set_conv_nth)
  then have "available (length ds) (eager_edges ds) (set (take k out)) j"
    using davailable_map [OF d X] e by (simp add: s)
  then show "\<not> declarationLess ts e (map ((!) ds) out ! k)"
    using le j k by (simp add: readyCompare_le)
qed

subsection \<open>Properties\<close>

text \<open>A constant that reads a table initialised later in the file.\<close>

definition demo_declaration :: "nat \<Rightarrow> nat list \<Rightarrow> target_declaration" where
  "demo_declaration n eager =
     \<lparr>decl_Owner = no_owner\<lparr>owner_assembly_package := Some \<lparr>package_ref = n, package_path = ''p''\<rparr>\<rparr>,
      decl_Name = ''d'', decl_SourcePath = ''a.go'', decl_Position = int n,
      decl_EagerDependencies =
        map (\<lambda>k. no_owner\<lparr>owner_assembly_package := Some \<lparr>package_ref = k, package_path = ''p''\<rparr>\<rparr>) eager\<rparr>"

definition demo_declarations :: "target_declaration list" where
  "demo_declarations = [demo_declaration 1 [2], demo_declaration 2 [], demo_declaration 3 []]"

lemma demo_order: "Indices (\<lambda>_. '''') demo_declarations = Inr [1, 0, 2]"
  by code_simp

text \<open>C22: When the declarations can be ordered, the result lists every declaration exactly once, and each
  one after every declaration it eagerly depends on.\<close>

theorem order_respects_dependencies:
  assumes "Indices ts ds = Inr order"
  shows "mset order = mset [0..<length ds] \<and>
    (\<forall>k < length order. \<forall>p. eager_edge ds p (order ! k) \<longrightarrow> p \<in> set (take k order))"
proof -
  note o = Indices_Inr [OF assms]
  have "mset order = mset [0..<length ds]"
    using o by (metis atLeast_upt distinct_upt set_eq_iff_mset_eq_distinct)
  then show ?thesis using o by (auto simp: greedy_def available_def eager_edges_def)
qed

theorem order_respects_dependencies_witness:
  "mset [1, 0, 2 :: nat] = mset [0..<length demo_declarations] \<and> 1 \<in> set (take 1 [1, 0, 2 :: nat])"
proof -
  have "eager_edge demo_declarations 1 ([1, 0, 2] ! 1)"
    by (simp add: eager_edge_def decl_provider_def demo_declarations_def demo_declaration_def no_owner_def less_Suc_eq)
  then show ?thesis
    using order_respects_dependencies [OF demo_order] by (metis One_nat_def length_Cons zero_less_Suc Suc_less_eq)
qed

text \<open>At each step the order takes a least declaration, by source path, position, name and owner,
  among those whose eager dependencies have all been placed.\<close>

theorem order_takes_least:
  assumes "Indices ts ds = Inr order" and "k < length order" and "j < length ds" and "j \<notin> set (take k order)"
    and "\<And>p. eager_edge ds p j \<Longrightarrow> p \<in> set (take k order)"
  shows "\<not> declarationLess ts (ds ! j) (ds ! (order ! k))"
proof -
  have "available (length ds) (eager_edges ds) (set (take k order)) j"
    using assms by (auto simp: available_def eager_edges_def)
  then show ?thesis using Indices_Inr [OF assms(1)] assms(2) by (simp add: greedy_def readyCompare_le)
qed

theorem order_takes_least_witness:
  "\<not> declarationLess (\<lambda>_. '''') (demo_declarations ! 2) (demo_declarations ! ([1, 0, 2] ! 1))"
  by (rule order_takes_least [OF demo_order, of 1 2])
    (simp_all add: demo_declarations_def eager_edge_def demo_declaration_def less_Suc_eq numeral_3_eq_3)

text \<open>C24: The sequence of declarations depends on the declarations only, not on the order in which they were
  collected: listing them in any other order gives the same result, provided owners are distinct and the
  comparison tells the declarations apart.\<close>

theorem order_ignores_input_order:
  assumes order: "Indices ts ds = Inr order" and perm: "mset ds' = mset ds" and d: "distinct (map decl_Owner ds)"
    and tie: "\<And>d e. d \<in> set ds \<Longrightarrow> e \<in> set ds \<Longrightarrow> \<not> declarationLess ts d e \<Longrightarrow> \<not> declarationLess ts e d \<Longrightarrow> d = e"
  shows "\<exists>order'. Indices ts ds' = Inr order' \<and> map ((!) ds') order' = map ((!) ds) order"
proof -
  note o = Indices_Inr [OF order]
  have eq: "set ds' = set ds" "length ds' = length ds" using perm by (auto dest: mset_eq_setD mset_eq_length)
  have d': "distinct (map decl_Owner ds')" using d perm by (metis mset_map mset_eq_imp_distinct_iff)
  have "find unplaced ds' = None" using o eq(1) by (simp add: find_None_iff)
  then obtain out where out: "greedy (readyCompare ts ds') (length ds') (eager_edges ds') out"
    "\<And>j. \<not> available (length ds') (eager_edges ds') (set out) j"
    "Indices ts ds' = (if length out = length ds' then Inr out
       else Inl (CycleError (hd (sort (map (\<lambda>i. decl_Name (ds' ! i)) (filter (\<lambda>i. i \<notin> set out) [0..<length ds']))))))"
    using Indices_greedy by metis
  have g: "dgreedy ts (set ds) (map ((!) ds) order)" "dgreedy ts (set ds) (map ((!) ds') out)"
    using greedy_dgreedy [OF d] greedy_dgreedy [OF d' out(1)] o eq by auto
  have "card (set order) = length order" using o by (metis distinct_card)
  then have len: "length order = length ds" using o by (metis card_lessThan)
  have le: "length out \<le> length order" using greedy_all [OF out(1)] eq len by simp
  have pre: "take (length out) (map ((!) ds) order) = map ((!) ds') out"
    using dgreedy_prefix [OF g(2,1)] le tie by simp
  have "length out = length ds"
  proof (rule ccontr)
    assume "length out \<noteq> length ds"
    then have k: "length out < length order" using le len by simp
    then have "davailable (set ds) (set (map ((!) ds') out)) (map ((!) ds) order ! length out)"
      using g(1) pre unfolding dgreedy_def by (metis length_map)
    moreover obtain j where "j < length ds'" "map ((!) ds) order ! length out = ds' ! j"
      using k o eq by (metis in_set_conv_nth lessThan_iff nth_map nth_mem)
    moreover have "set out \<subseteq> {..<length ds'}" using greedy_closed [OF out(1)] by blast
    ultimately have "available (length ds') (eager_edges ds') (set out) j"
      using davailable_map [OF d', of "set out" j] eq by simp
    then show False using out(2) by blast
  qed
  then show ?thesis using out(3) pre eq len by simp
qed

theorem order_ignores_input_order_witness:
  "\<exists>order'. Indices (\<lambda>_. '''') (rev demo_declarations) = Inr order' \<and>
     map ((!) (rev demo_declarations)) order' = map ((!) demo_declarations) [1, 0, 2]"
  by (rule order_ignores_input_order [OF demo_order])
    (auto simp: demo_declarations_def demo_declaration_def declarationLess_def no_owner_def)

text \<open>C23: Ordering fails exactly when a source-owned declaration has no source position, and then the first
  such one is named, or when the eager dependencies have a cycle, and then the least name among the
  declarations that depend on a cycle is.\<close>

theorem order_errors_exact:
  "Indices ts ds = Inl e \<longleftrightarrow>
     (case find unplaced ds of
        Some d \<Rightarrow> e = SourcePositionError (decl_Name d)
      | None \<Rightarrow>
          let stuck = {c. c < length ds \<and> (\<exists>x. (x, x) \<in> (eager_edges ds)\<^sup>+ \<and> (x, c) \<in> (eager_edges ds)\<^sup>*)}
          in stuck \<noteq> {} \<and> e = CycleError (Min ((\<lambda>c. decl_Name (ds ! c)) ` stuck)))"
proof (cases "find unplaced ds")
  case None
  let ?stuck = "{c. c < length ds \<and> (\<exists>x. (x, x) \<in> (eager_edges ds)\<^sup>+ \<and> (x, c) \<in> (eager_edges ds)\<^sup>*)}"
  obtain out where g: "greedy (readyCompare ts ds) (length ds) (eager_edges ds) out"
    and none: "\<And>j. \<not> available (length ds) (eager_edges ds) (set out) j"
    and out: "Indices ts ds = (if length out = length ds then Inr out
       else Inl (CycleError (hd (sort (map (\<lambda>i. decl_Name (ds ! i)) (filter (\<lambda>i. i \<notin> set out) [0..<length ds]))))))"
    using Indices_greedy [OF None] by metis
  have stuck: "?stuck = {..<length ds} - set out" using greedy_stuck [OF g none eager_edges_range] by simp
  have rest: "set (filter (\<lambda>i. i \<notin> set out) [0..<length ds]) = ?stuck" unfolding stuck by auto
  have "length out = length ds \<longleftrightarrow> ?stuck = {}"
    using greedy_all [OF g] greedy_closed [OF g] unfolding stuck by auto
  moreover have "hd (sort (map (\<lambda>i. decl_Name (ds ! i)) (filter (\<lambda>i. i \<notin> set out) [0..<length ds]))) =
      Min ((\<lambda>c. decl_Name (ds ! c)) ` ?stuck)" if "?stuck \<noteq> {}"
    using hd_sort_Min [of "map (\<lambda>i. decl_Name (ds ! i)) (filter (\<lambda>i. i \<notin> set out) [0..<length ds])"] that
    unfolding set_map rest by (metis (no_types, lifting) empty_set map_is_Nil_conv rest)
  ultimately show ?thesis unfolding out None option.case Let_def by auto
next
  case (Some d)
  then show ?thesis using Indices_unplaced [OF Some, of ts] by auto
qed

end
