(* ===== verification/TypeIdentity.thy ===== *)
theory TypeIdentity
  imports Owners
begin

text \<open>
  Keys of Go types (\<open>internal/emit/type/typeidentity/identity.go\<close>): a descriptor of the type as a
  sequence of length-prefixed parts, its digest, and the local declarations a type mentions.

  A \<open>types.Type\<close> is its tree as far as this package reads it.  Named types are leaves that carry
  their declaration and type arguments, so the trees are finite also for recursive Go types.  An
  interface holds its complete method set and whether it is one (\<open>IsMethodSet\<close>); a nil tuple is
  \<open>None\<close>; a type parameter is known by its reference; \<open>OtherType\<close> stands for the types without a key
  (a tuple, a union, nil).
\<close>

datatype 't struct_field = StructField
  (field_Name: string) (field_Exported: bool) (field_Pkg: "go_package option")
  (field_Embedded: bool) (field_Tag: string) (field_Type: 't)

datatype 't interface_method = InterfaceMethod
  (method_Name: string) (method_Exported: bool) (method_Pkg: "go_package option") (method_Type: 't)

record type_param =
  param_ref :: nat
  param_obj_name :: "string option"

datatype go_type =
    BasicType nat
  | NamedType "go_object option" "go_type list"
  | AliasType go_type
  | TypeParamType type_param
  | PointerType go_type
  | SliceType go_type
  | ArrayType int go_type
  | MapType go_type go_type
  | ChanType nat go_type
  | StructType "go_type struct_field list"
  | SignatureType "go_type option" bool "go_type list option" "go_type list option"
  | InterfaceType bool "go_type interface_method list"
  | OtherType nat

fun Unalias :: "go_type \<Rightarrow> go_type" where
  "Unalias (AliasType t) = Unalias t"
| "Unalias t = t"

text \<open>An error of the package, or the dereference of a nil pointer.\<close>

datatype name_error = NameError string string | NilDereference

subsection \<open>Parts\<close>

definition appendPart :: "string \<Rightarrow> string" where
  "appendPart value' = itoa (length value') @ '':'' @ value'"

definition formatInt :: "int \<Rightarrow> string" where
  "formatInt n = (if n < 0 then ''-'' @ itoa (nat (- n)) else itoa (nat n))"

definition formatBool :: "bool \<Rightarrow> string" where
  "formatBool b = (if b then ''true'' else ''false'')"

text \<open>The text two steps append to the builder, unless one of them fails.\<close>

definition then_text :: "name_error + string \<Rightarrow> name_error + string \<Rightarrow> name_error + string" where
  "then_text a b =
     (case a of Inl e \<Rightarrow> Inl e | Inr s \<Rightarrow> (case b of Inl e \<Rightarrow> Inl e | Inr t \<Rightarrow> Inr (s @ t)))"

definition part :: "string \<Rightarrow> name_error + string" where
  "part s = Inr (appendPart s)"

subsection \<open>Descriptors\<close>

record identityOwner =
  id_namedObject :: "(go_object \<Rightarrow> name_error + string) option"
  id_typeParameter :: "(type_param \<Rightarrow> name_error + string) option"

definition memberPackagePath :: "bool \<Rightarrow> go_package option \<Rightarrow> string" where
  "memberPackagePath exported pkg =
     (case pkg of None \<Rightarrow> '''' | Some p \<Rightarrow> if exported then '''' else package_path p)"

definition namedIdentity :: "identityOwner \<Rightarrow> go_object \<Rightarrow> name_error + string" where
  "namedIdentity owner obj =
     (case id_namedObject owner of None \<Rightarrow> Inl NilDereference | Some f \<Rightarrow> f obj)"

definition parameterIdentity :: "identityOwner \<Rightarrow> type_param \<Rightarrow> name_error + string" where
  "parameterIdentity owner p =
     (let name = (case param_obj_name p of None \<Rightarrow> '''' | Some n \<Rightarrow> n) in
      case id_typeParameter owner of
        None \<Rightarrow> Inl (NameError name ''generated-artifact type parameter has no identity owner'')
      | Some f \<Rightarrow>
          (case f p of
             Inl e \<Rightarrow> Inl e
           | Inr identity \<Rightarrow>
               if identity = '''' then
                 Inl (NameError name ''generated-artifact type parameter has empty identity'')
               else Inr identity))"

function (sequential) appendTypeDescriptor :: "identityOwner \<Rightarrow> go_type \<Rightarrow> name_error + string"
  and appendTypes :: "identityOwner \<Rightarrow> go_type list \<Rightarrow> name_error + string"
  and appendTupleDescriptor :: "identityOwner \<Rightarrow> go_type list option \<Rightarrow> name_error + string"
  and appendFields :: "identityOwner \<Rightarrow> go_type struct_field list \<Rightarrow> name_error + string"
  and appendMethods :: "identityOwner \<Rightarrow> go_type interface_method list \<Rightarrow> name_error + string" where
  "appendTypeDescriptor owner (AliasType t) = appendTypeDescriptor owner t"
| "appendTypeDescriptor owner (BasicType kind) = then_text (part ''basic'') (part (itoa kind))"
| "appendTypeDescriptor owner (NamedType obj args) =
     (case obj of
        None \<Rightarrow> Inl (NameError '''' ''generated-artifact named type has no declaration'')
      | Some object \<Rightarrow>
          (case namedIdentity owner object of
             Inl e \<Rightarrow> Inl e
           | Inr identity \<Rightarrow>
               then_text (part ''named'') (then_text (part identity)
                 (then_text (part (itoa (length args))) (appendTypes owner args)))))"
| "appendTypeDescriptor owner (TypeParamType p) =
     (case parameterIdentity owner p of
        Inl e \<Rightarrow> Inl e
      | Inr identity \<Rightarrow> then_text (part ''type-parameter'') (part identity))"
| "appendTypeDescriptor owner (PointerType t) = then_text (part ''pointer'') (appendTypeDescriptor owner t)"
| "appendTypeDescriptor owner (SliceType t) = then_text (part ''slice'') (appendTypeDescriptor owner t)"
| "appendTypeDescriptor owner (ArrayType n t) =
     then_text (part ''array'') (then_text (part (formatInt n)) (appendTypeDescriptor owner t))"
| "appendTypeDescriptor owner (MapType k t) =
     then_text (part ''map'') (then_text (appendTypeDescriptor owner k) (appendTypeDescriptor owner t))"
| "appendTypeDescriptor owner (ChanType dir t) =
     then_text (part ''channel'') (then_text (part (itoa dir)) (appendTypeDescriptor owner t))"
| "appendTypeDescriptor owner (StructType members) =
     then_text (part ''struct'') (then_text (part (itoa (length members))) (appendFields owner members))"
| "appendTypeDescriptor owner (SignatureType recv variadic params results) =
     then_text (part ''signature'') (then_text (part (formatBool variadic))
       (then_text (appendTupleDescriptor owner params) (appendTupleDescriptor owner results)))"
| "appendTypeDescriptor owner (InterfaceType methodSet ms) =
     (if \<not> methodSet then
        Inl (NameError '''' ''constraint interface has no runtime generated-artifact identity'')
      else
        then_text (part ''interface'') (then_text (part (itoa (length ms))) (appendMethods owner ms)))"
| "appendTypeDescriptor owner (OtherType _) =
     Inl (NameError '''' ''Go type has no deterministic generated-artifact key'')"
| "appendTypes owner [] = Inr []"
| "appendTypes owner (t # ts) = then_text (appendTypeDescriptor owner t) (appendTypes owner ts)"
| "appendTupleDescriptor owner None = part ''0''"
| "appendTupleDescriptor owner (Some ts) = then_text (part (itoa (length ts))) (appendTypes owner ts)"
| "appendFields owner [] = Inr []"
| "appendFields owner (StructField name exported pkg embedded tag t # members) =
     then_text (part name) (then_text (part (memberPackagePath exported pkg))
       (then_text (part (formatBool embedded)) (then_text (part tag)
         (then_text (appendTypeDescriptor owner t) (appendFields owner members)))))"
| "appendMethods owner [] = Inr []"
| "appendMethods owner (InterfaceMethod name exported pkg t # ms) =
     then_text (part name) (then_text (part (memberPackagePath exported pkg))
       (case t of
          SignatureType recv variadic params results \<Rightarrow>
            then_text (appendTypeDescriptor owner (SignatureType None variadic params results))
              (appendMethods owner ms)
        | _ \<Rightarrow> Inl (NameError '''' ''interface method has no signature identity'')))"
  by pat_completeness auto
termination appendTypeDescriptor
  by (relation "measure (\<lambda>x. case x of
       Inl (Inl (_, t)) \<Rightarrow> size t
     | Inl (Inr (_, ts)) \<Rightarrow> size_list size ts
     | Inr (Inl (_, ts)) \<Rightarrow> size_option (size_list size) ts
     | Inr (Inr (Inl (_, members))) \<Rightarrow> size_list (size_struct_field size) members
     | Inr (Inr (Inr (_, ms))) \<Rightarrow> size_list (size_interface_method size) ms)") auto

subsection \<open>Parts are self-delimiting\<close>

lemma itoa_0: "itoa 0 = ''0''"
  by (subst itoa.simps) (simp add: digit_def, code_simp)

lemma itoa_before: "c \<notin> set (itoa n)" if "\<not> is_digit c"
  using itoa_digits [of n] that by (auto simp: list_all_iff)

lemma cut_digits:
  assumes "\<not> is_digit c" "itoa m @ c # r = itoa n @ c # s"
  shows "m = n \<and> r = s"
proof -
  have "takeWhile (\<lambda>x. x \<noteq> c) (itoa k @ c # t) = itoa k" for k t
    using itoa_before [OF assms(1), of k] by (subst takeWhile_append2) auto
  then have "itoa m = itoa n" using assms(2) by metis
  then show ?thesis using assms(2) by simp
qed

lemma appendPart_eq [simp]: "appendPart a @ r = appendPart b @ s \<longleftrightarrow> a = b \<and> r = s"
proof
  assume eq: "appendPart a @ r = appendPart b @ s"
  then have "itoa (length a) @ CHR '':'' # (a @ r) = itoa (length b) @ CHR '':'' # (b @ s)"
    by (simp add: appendPart_def)
  moreover have "\<not> is_digit CHR '':''" by (simp add: is_digit_def)
  ultimately have "length a = length b" "a @ r = b @ s" using cut_digits by blast+
  then show "a = b \<and> r = s" by simp
qed simp

interpretation parts: prefix_code appendPart "\<lambda>_. True"
  by unfold_locales (simp, simp add: appendPart_def)

lemma appendPart_inject [simp]: "appendPart a = appendPart b \<longleftrightarrow> a = b"
  by (rule parts.enc_inject) simp_all

lemma formatBool_inject [simp]: "formatBool a = formatBool b \<longleftrightarrow> a = b"
  by (simp add: formatBool_def)

lemma formatInt_inject [simp]: "formatInt a = formatInt b \<longleftrightarrow> a = b"
proof -
  have "hd (itoa n) \<noteq> CHR ''-''" for n
  proof -
    have "CHR ''-'' \<notin> set (itoa n)" by (rule itoa_before) (simp add: is_digit_def)
    then show ?thesis using hd_in_set [OF itoa_nonempty, of n] by metis
  qed
  then have "CHR ''-'' # x \<noteq> itoa n" "itoa n \<noteq> CHR ''-'' # x" for x n by (metis list.sel(1))+
  then show ?thesis by (auto simp: formatInt_def)
qed

subsection \<open>Shapes\<close>

text \<open>
  What a descriptor tells apart: the shape of a type is the type without aliases, receivers and the
  names of parameters, with declarations and type parameters replaced by their identities.
\<close>

datatype 't shape_field = ShapeField string string bool string (shape_field_type: 't)
datatype 't shape_method = ShapeMethod string string (shape_method_type: 't)

datatype type_shape =
    ShapeBasic nat
  | ShapeNamed string "type_shape list"
  | ShapeParam string
  | ShapePointer type_shape
  | ShapeSlice type_shape
  | ShapeArray int type_shape
  | ShapeMap type_shape type_shape
  | ShapeChan nat type_shape
  | ShapeStruct "type_shape shape_field list"
  | ShapeSignature bool "type_shape list" "type_shape list"
  | ShapeInterface "type_shape shape_method list"
  | ShapeOther

definition identity_or_empty :: "name_error + string \<Rightarrow> string" where
  "identity_or_empty i = (case i of Inl _ \<Rightarrow> '''' | Inr s \<Rightarrow> s)"

definition list_or_empty :: "'a list option \<Rightarrow> 'a list" where
  "list_or_empty xs = (case xs of None \<Rightarrow> [] | Some xs \<Rightarrow> xs)"

fun fieldShape :: "'t struct_field \<Rightarrow> 't shape_field" where
  "fieldShape (StructField name exported pkg embedded tag t) =
     ShapeField name (memberPackagePath exported pkg) embedded tag t"

fun methodShape :: "'t interface_method \<Rightarrow> 't shape_method" where
  "methodShape (InterfaceMethod name exported pkg t) = ShapeMethod name (memberPackagePath exported pkg) t"

primrec shape :: "identityOwner \<Rightarrow> go_type \<Rightarrow> type_shape" where
  "shape owner (AliasType t) = shape owner t"
| "shape owner (BasicType kind) = ShapeBasic kind"
| "shape owner (NamedType obj args) =
     ShapeNamed (case obj of None \<Rightarrow> '''' | Some x \<Rightarrow> identity_or_empty (namedIdentity owner x)) (map (shape owner) args)"
| "shape owner (TypeParamType p) = ShapeParam (identity_or_empty (parameterIdentity owner p))"
| "shape owner (PointerType t) = ShapePointer (shape owner t)"
| "shape owner (SliceType t) = ShapeSlice (shape owner t)"
| "shape owner (ArrayType n t) = ShapeArray n (shape owner t)"
| "shape owner (MapType k t) = ShapeMap (shape owner k) (shape owner t)"
| "shape owner (ChanType dir t) = ShapeChan dir (shape owner t)"
| "shape owner (StructType members) =
     ShapeStruct (map fieldShape (map (map_struct_field (shape owner)) members))"
| "shape owner (SignatureType recv variadic params results) =
     ShapeSignature variadic (list_or_empty (map_option (map (shape owner)) params))
       (list_or_empty (map_option (map (shape owner)) results))"
| "shape owner (InterfaceType methodSet ms) =
     ShapeInterface (map methodShape (map (map_interface_method (shape owner)) ms))"
| "shape owner (OtherType _) = ShapeOther"

definition render_list :: "string list \<Rightarrow> string" where
  "render_list ts = appendPart (itoa (length ts)) @ concat ts"

fun render_field :: "string shape_field \<Rightarrow> string" where
  "render_field (ShapeField name path embedded tag t) =
     appendPart name @ appendPart path @ appendPart (formatBool embedded) @ appendPart tag @ t"

fun render_method :: "string shape_method \<Rightarrow> string" where
  "render_method (ShapeMethod name path t) = appendPart name @ appendPart path @ t"

primrec render :: "type_shape \<Rightarrow> string" where
  "render (ShapeBasic kind) = appendPart ''basic'' @ appendPart (itoa kind)"
| "render (ShapeNamed name args) = appendPart ''named'' @ appendPart name @ render_list (map render args)"
| "render (ShapeParam name) = appendPart ''type-parameter'' @ appendPart name"
| "render (ShapePointer t) = appendPart ''pointer'' @ render t"
| "render (ShapeSlice t) = appendPart ''slice'' @ render t"
| "render (ShapeArray n t) = appendPart ''array'' @ appendPart (formatInt n) @ render t"
| "render (ShapeMap k t) = appendPart ''map'' @ render k @ render t"
| "render (ShapeChan dir t) = appendPart ''channel'' @ appendPart (itoa dir) @ render t"
| "render (ShapeStruct members) =
     appendPart ''struct'' @ render_list (map render_field (map (map_shape_field render) members))"
| "render (ShapeSignature variadic params results) =
     appendPart ''signature'' @ appendPart (formatBool variadic) @ render_list (map render params) @
       render_list (map render results)"
| "render (ShapeInterface ms) =
     appendPart ''interface'' @ render_list (map render_method (map (map_shape_method render) ms))"
| "render ShapeOther = appendPart ''other''"

lemma texts_delimit:
  assumes "\<And>x y r s. x \<in> set xs \<Longrightarrow> f x @ r = f y @ s \<Longrightarrow> x = y \<and> r = s" "length xs = length ys"
    "concat (map f xs) @ r = concat (map f ys) @ s"
  shows "xs = ys \<and> r = s"
  using assms(2,1,3)
proof (induction xs ys rule: list_induct2)
  case (Cons x xs y ys)
  have "f x @ (concat (map f xs) @ r) = f y @ (concat (map f ys) @ s)" using Cons.prems(2) by simp
  then have "x = y \<and> concat (map f xs) @ r = concat (map f ys) @ s" by (intro Cons.prems(1)) simp_all
  moreover from this have "xs = ys \<and> r = s"
    using Cons.prems(1) by (intro Cons.IH) auto
  ultimately show ?case by simp
qed simp

lemma render_list_delimits:
  assumes "\<And>x y r s. x \<in> set xs \<Longrightarrow> f x @ r = f y @ s \<Longrightarrow> x = y \<and> r = s"
    "render_list (map f xs) @ r = render_list (map f ys) @ s"
  shows "xs = ys \<and> r = s"
  using assms(2) texts_delimit [of xs f ys r s, OF assms(1)] by (auto simp: render_list_def)

lemma render_delimits: "render x @ r = render y @ s \<Longrightarrow> x = y \<and> r = s"
proof (induction x arbitrary: y r s)
  case (ShapeNamed name args)
  from ShapeNamed.prems obtain name' args' where y: "y = ShapeNamed name' args'" by (cases y) auto
  with ShapeNamed.prems have name: "name = name'"
    and eq: "render_list (map render args) @ r = render_list (map render args') @ s"
    by auto
  have "args = args' \<and> r = s" 
    by (rule render_list_delimits [where f = render, OF _ eq]) (erule (1) ShapeNamed.IH)
  then show ?case using name y by simp
next
  case (ShapeMap k t)
  from ShapeMap.prems obtain k' t' where y: "y = ShapeMap k' t'" by (cases y) auto
  with ShapeMap.prems have "render k @ (render t @ r) = render k' @ (render t' @ s)" by simp
  then have k: "k = k' \<and> render t @ r = render t' @ s" by (rule ShapeMap.IH(1))
  then have "t = t' \<and> r = s" by (intro ShapeMap.IH(2)) (elim conjE)
  then show ?case using k y by simp
next
  case (ShapeStruct members)
  from ShapeStruct.prems obtain members' where y: "y = ShapeStruct members'" by (cases y) auto
  have "x = z \<and> r = s" if "x \<in> set members"
    "render_field (map_shape_field render x) @ r = render_field (map_shape_field render z) @ s" for x z r s
    using that(2) ShapeStruct.IH [OF that(1), of "shape_field_type x" r "shape_field_type z" s]
    by - (cases x; cases z; simp)
  moreover have "render_list (map (\<lambda>x. render_field (map_shape_field render x)) members) @ r =
      render_list (map (\<lambda>x. render_field (map_shape_field render x)) members') @ s"
    using ShapeStruct.prems y by (simp add: comp_def)
  ultimately have "members = members' \<and> r = s"
    by (rule render_list_delimits [where f = "\<lambda>x. render_field (map_shape_field render x)"])
  then show ?case using y by simp
next
  case (ShapeSignature variadic params results)
  from ShapeSignature.prems obtain v ps rs where y: "y = ShapeSignature v ps rs" by (cases y) auto
  with ShapeSignature.prems have v: "variadic = v" and
    eq: "render_list (map render params) @ (render_list (map render results) @ r) =
      render_list (map render ps) @ (render_list (map render rs) @ s)"
    by auto
  have "params = ps \<and> render_list (map render results) @ r = render_list (map render rs) @ s"
    by (rule render_list_delimits [where f = render, OF _ eq]) (erule (1) ShapeSignature.IH(1))
  moreover from this have "results = rs \<and> r = s"
    by (elim conjE, intro render_list_delimits [where f = render and xs = results and ys = rs])
      (erule (1) ShapeSignature.IH(2), assumption)
  ultimately show ?case using y v by simp
next
  case (ShapeInterface ms)
  from ShapeInterface.prems obtain ms' where y: "y = ShapeInterface ms'" by (cases y) auto
  have "x = z \<and> r = s" if "x \<in> set ms"
    "render_method (map_shape_method render x) @ r = render_method (map_shape_method render z) @ s" for x z r s
    using that(2) ShapeInterface.IH [OF that(1), of "shape_method_type x" r "shape_method_type z" s]
    by - (cases x; cases z; simp)
  moreover have "render_list (map (\<lambda>x. render_method (map_shape_method render x)) ms) @ r =
      render_list (map (\<lambda>x. render_method (map_shape_method render x)) ms') @ s"
    using ShapeInterface.prems y by (simp add: comp_def)
  ultimately have "ms = ms' \<and> r = s"
    by (rule render_list_delimits [where f = "\<lambda>x. render_method (map_shape_method render x)"])
  then show ?case using y by simp
next
  case (ShapePointer t)
  from ShapePointer.prems obtain t' where y: "y = ShapePointer t'" by (cases y) auto
  with ShapePointer.prems have "render t @ r = render t' @ s" by simp
  then have "t = t' \<and> r = s" by (rule ShapePointer.IH)
  then show ?case using y ShapePointer.prems by simp
next
  case (ShapeSlice t)
  from ShapeSlice.prems obtain t' where y: "y = ShapeSlice t'" by (cases y) auto
  with ShapeSlice.prems have "render t @ r = render t' @ s" by simp
  then have "t = t' \<and> r = s" by (rule ShapeSlice.IH)
  then show ?case using y ShapeSlice.prems by simp
next
  case (ShapeArray n t)
  from ShapeArray.prems obtain n' t' where y: "y = ShapeArray n' t'" by (cases y) auto
  with ShapeArray.prems have "render t @ r = render t' @ s" by simp
  then have "t = t' \<and> r = s" by (rule ShapeArray.IH)
  then show ?case using y ShapeArray.prems by simp
next
  case (ShapeChan dir t)
  from ShapeChan.prems obtain dir' t' where y: "y = ShapeChan dir' t'" by (cases y) auto
  with ShapeChan.prems have "render t @ r = render t' @ s" by simp
  then have "t = t' \<and> r = s" by (rule ShapeChan.IH)
  then show ?case using y ShapeChan.prems by simp
qed (case_tac y; simp)+

interpretation shapes: prefix_code render "\<lambda>_. True"
proof
  fix x y :: type_shape and r s
  show "render x @ r = render y @ s \<Longrightarrow> x = y \<and> r = s" by (rule render_delimits)
  show "render x \<noteq> []" by (cases x) (simp_all add: appendPart_def)
qed

lemma then_text_Inr: "then_text a b = Inr d \<longleftrightarrow> (\<exists>s t. a = Inr s \<and> b = Inr t \<and> d = s @ t)"
  by (auto simp: then_text_def split: sum.splits)

lemma part_Inr [simp]: "part s = Inr d \<longleftrightarrow> d = appendPart s"
  by (auto simp: part_def)

text \<open>A descriptor renders the shape of its type.\<close>

lemma appendMethods_Cons:
  assumes "appendMethods owner (InterfaceMethod name exported pkg t # ms) = Inr d"
  obtains recv variadic params results d1 d2 where "t = SignatureType recv variadic params results"
    "appendTypeDescriptor owner (SignatureType None variadic params results) = Inr d1" "appendMethods owner ms = Inr d2"
    "d = appendPart name @ appendPart (memberPackagePath exported pkg) @ d1 @ d2"
  using assms by (cases t) (auto simp: then_text_Inr simp del: appendTypeDescriptor.simps)

lemma descriptor_renders:
  "appendTypeDescriptor owner t = Inr d \<Longrightarrow> d = render (shape owner t)"
  "appendTypes owner ts = Inr d \<Longrightarrow> d = concat (map (\<lambda>t. render (shape owner t)) ts)"
  "appendTupleDescriptor owner tuple = Inr d \<Longrightarrow>
     d = render_list (map render (list_or_empty (map_option (map (shape owner)) tuple)))"
  "appendFields owner members = Inr d \<Longrightarrow>
     d = concat (map (\<lambda>m. render_field (map_shape_field render (fieldShape (map_struct_field (shape owner) m)))) members)"
  "appendMethods owner ms = Inr d \<Longrightarrow>
     d = concat (map (\<lambda>m. render_method (map_shape_method render (methodShape (map_interface_method (shape owner) m)))) ms)"
proof (induction owner t and owner ts and owner tuple and owner members and owner ms arbitrary: d and d and d and d and d
    rule: appendTypeDescriptor_appendTypes_appendTupleDescriptor_appendFields_appendMethods.induct)
  case (21 owner name exported pkg t ms)
  from "21.prems" show ?case
  proof (rule appendMethods_Cons)
    fix recv variadic params results d1 d2
    assume "t = SignatureType recv variadic params results"
      "appendTypeDescriptor owner (SignatureType None variadic params results) = Inr d1" "appendMethods owner ms = Inr d2"
      "d = appendPart name @ appendPart (memberPackagePath exported pkg) @ d1 @ d2"
    then show ?case using "21.IH" by auto
  qed
qed (auto simp: itoa_0 then_text_Inr render_list_def list_or_empty_def identity_or_empty_def comp_def
    split: option.splits sum.splits if_splits)

subsection \<open>Keys\<close>

definition buildDescriptor :: "go_type option \<Rightarrow> identityOwner \<Rightarrow> name_error + string" where
  "buildDescriptor sourceType owner =
     (case sourceType of
        None \<Rightarrow> Inl (NameError '''' ''generated-artifact Go type is nil'')
      | Some t \<Rightarrow>
          (case id_namedObject owner of
             None \<Rightarrow> Inl (NameError '''' ''generated-artifact named-object identity owner is nil'')
           | Some _ \<Rightarrow> appendTypeDescriptor owner t))"

definition BuildDescriptor ::
    "go_type option \<Rightarrow> (go_object \<Rightarrow> name_error + string) option \<Rightarrow> name_error + string" where
  "BuildDescriptor sourceType namedObjectIdentity =
     buildDescriptor sourceType \<lparr>id_namedObject = namedObjectIdentity, id_typeParameter = None\<rparr>"

definition BuildParameterizedDescriptor ::
    "go_type option \<Rightarrow> (go_object \<Rightarrow> name_error + string) option \<Rightarrow> (type_param \<Rightarrow> name_error + string) option \<Rightarrow>
       name_error + string" where
  "BuildParameterizedDescriptor sourceType namedObjectIdentity typeParameterIdentity =
     (case typeParameterIdentity of
        None \<Rightarrow> Inl (NameError '''' ''generated-artifact type-parameter identity owner is nil'')
      | Some _ \<Rightarrow> buildDescriptor sourceType
          \<lparr>id_namedObject = namedObjectIdentity, id_typeParameter = typeParameterIdentity\<rparr>)"

definition hexDigit :: "nat \<Rightarrow> char" where
  "hexDigit d = (if d < 10 then char_of (48 + d) else char_of (87 + d))"

definition hexEncode :: "bytes \<Rightarrow> string" where
  "hexEncode bs = concat (map (\<lambda>b. [hexDigit (unat b div 16), hexDigit (unat b mod 16)]) bs)"

text \<open>The digest is the argument \<open>sha256\<close>.\<close>

definition digestKey :: "(string \<Rightarrow> bytes) \<Rightarrow> name_error + string \<Rightarrow> name_error + string" where
  "digestKey sha256 descriptor =
     (case descriptor of Inl e \<Rightarrow> Inl e | Inr d \<Rightarrow> Inr (hexEncode (sha256 d)))"

definition BuildKey ::
    "(string \<Rightarrow> bytes) \<Rightarrow> go_type option \<Rightarrow> (go_object \<Rightarrow> name_error + string) option \<Rightarrow> name_error + string" where
  "BuildKey sha256 sourceType namedObjectIdentity =
     digestKey sha256 (BuildDescriptor sourceType namedObjectIdentity)"

definition BuildParameterizedKey ::
    "(string \<Rightarrow> bytes) \<Rightarrow> go_type option \<Rightarrow> (go_object \<Rightarrow> name_error + string) option \<Rightarrow>
       (type_param \<Rightarrow> name_error + string) option \<Rightarrow> name_error + string" where
  "BuildParameterizedKey sha256 sourceType namedObjectIdentity typeParameterIdentity =
     digestKey sha256 (BuildParameterizedDescriptor sourceType namedObjectIdentity typeParameterIdentity)"

lemma hexDigit_value: "d < 16 \<Longrightarrow> (of_char (hexDigit d) :: nat) = (if d < 10 then 48 + d else 87 + d)"
  by (simp add: hexDigit_def)

lemma hexDigit_inject:
  assumes "a < 16" "b < 16" "hexDigit a = hexDigit b"
  shows "a = b"
proof -
  have "(if a < 10 then 48 + a else 87 + a) = (if b < 10 then 48 + b else 87 + b)"
    using hexDigit_value [OF assms(1)] hexDigit_value [OF assms(2)] unfolding assms(3) by (rule trans [OF sym])
  then show ?thesis by (simp split: if_splits)
qed

lemma hexEncode_inject: "hexEncode xs = hexEncode ys \<longleftrightarrow> xs = ys"
proof
  have byte: "hexDigit (unat x div 16) = hexDigit (unat y div 16) \<Longrightarrow>
      hexDigit (unat x mod 16) = hexDigit (unat y mod 16) \<Longrightarrow> x = y" for x y :: "8 word"
  proof -
    assume h: "hexDigit (unat x div 16) = hexDigit (unat y div 16)"
      "hexDigit (unat x mod 16) = hexDigit (unat y mod 16)"
    have "unat x < 256" "unat y < 256" using unsigned_less [of x] unsigned_less [of y] by simp_all
    then have "unat x div 16 = unat y div 16" "unat x mod 16 = unat y mod 16"
      using h by (auto intro: hexDigit_inject)
    then have "unat x = unat y" by (metis div_mult_mod_eq)
    then show "x = y" by (simp add: word_unat_eq_iff)
  qed
  show "hexEncode xs = hexEncode ys \<Longrightarrow> xs = ys"
  proof (induction xs arbitrary: ys)
    case Nil
    then show ?case by (cases ys) (auto simp: hexEncode_def)
  next
    case (Cons x xs)
    then show ?case by (cases ys) (auto simp: hexEncode_def dest: byte)
  qed
qed simp

lemma buildDescriptor_renders:
  "buildDescriptor source owner = Inr d \<Longrightarrow> \<exists>t. source = Some t \<and> d = render (shape owner t)"
  by (auto simp: buildDescriptor_def descriptor_renders(1) split: option.splits)

subsection \<open>Declarations of named types\<close>

text \<open>\<open>lookup\<close> is the content of the scopes of the type checker.\<close>

type_synonym scope_lookup = "scope \<Rightarrow> string \<Rightarrow> go_object option"

definition NamedObjectKey :: "scope_lookup \<Rightarrow> go_object option \<Rightarrow> name_error + string" where
  "NamedObjectKey lookup object =
     (case object of
        None \<Rightarrow> Inl (NameError '''' ''generated-artifact named component has no package identity'')
      | Some obj \<Rightarrow>
          (case object_package obj of
             None \<Rightarrow>
               if object_parent obj \<noteq> Some UniverseScope \<or> lookup UniverseScope (object_name obj) \<noteq> Some obj then
                 Inl (NameError (object_name obj) ''generated-artifact named component has no language identity'')
               else Inr (''go:universe|'' @ object_name obj)
           | Some pkg \<Rightarrow>
               if object_parent obj \<noteq> Some (packageScope pkg) \<or>
                  lookup (packageScope pkg) (object_name obj) \<noteq> Some obj then
                 Inl (NameError (object_name obj) ''generated-artifact named component is not package-owned'')
               else Inr (package_path pkg @ ''|'' @ object_name obj)))"

definition is_local :: "go_object \<Rightarrow> bool" where
  "is_local obj \<longleftrightarrow>
     (case object_package obj of None \<Rightarrow> False | Some pkg \<Rightarrow> object_parent obj \<noteq> Some (packageScope pkg))"

type_synonym local_collection = "go_object list \<times> go_object list"

definition addLocal :: "go_object option \<Rightarrow> local_collection \<Rightarrow> local_collection" where
  "addLocal object c =
     (case (object, c) of
        (Some obj, (seen, components)) \<Rightarrow>
          if is_local obj \<and> obj \<notin> set seen then (gs_insert obj seen, components @ [obj]) else c
      | (None, _) \<Rightarrow> c)"

lemma size_field_types [termination_simp]:
  "size_list (size \<circ> field_Type) members \<le> size_list (size_struct_field size) members"
proof (induction members)
  case (Cons m members)
  then show ?case by (cases m) simp
qed simp

lemma size_method_types [termination_simp]:
  "size_list (size \<circ> method_Type) ms \<le> size_list (size_interface_method size) ms"
proof (induction ms)
  case (Cons m ms)
  then show ?case by (cases m) simp
qed simp

text \<open>\<open>collectAll\<close> is the loop over type arguments, fields, methods or the variables of a tuple.\<close>

function (sequential) collectLocalComponents :: "go_type \<Rightarrow> local_collection \<Rightarrow> local_collection"
  and collectAll :: "go_type list \<Rightarrow> local_collection \<Rightarrow> local_collection"
  and collectLocalTupleComponents :: "go_type list option \<Rightarrow> local_collection \<Rightarrow> local_collection" where
  "collectLocalComponents (AliasType t) c = collectLocalComponents t c"
| "collectLocalComponents (NamedType obj args) c = collectAll args (addLocal obj c)"
| "collectLocalComponents (PointerType t) c = collectLocalComponents t c"
| "collectLocalComponents (SliceType t) c = collectLocalComponents t c"
| "collectLocalComponents (ArrayType _ t) c = collectLocalComponents t c"
| "collectLocalComponents (MapType k t) c = collectLocalComponents t (collectLocalComponents k c)"
| "collectLocalComponents (ChanType _ t) c = collectLocalComponents t c"
| "collectLocalComponents (StructType members) c = collectAll (map field_Type members) c"
| "collectLocalComponents (SignatureType _ _ params results) c =
     collectLocalTupleComponents results (collectLocalTupleComponents params c)"
| "collectLocalComponents (InterfaceType _ ms) c = collectAll (map method_Type ms) c"
| "collectLocalComponents _ c = c"
| "collectAll [] c = c"
| "collectAll (t # ts) c = collectAll ts (collectLocalComponents t c)"
| "collectLocalTupleComponents None c = c"
| "collectLocalTupleComponents (Some ts) c = collectAll ts c"
  by pat_completeness auto
termination collectLocalComponents
  by (relation "measure (\<lambda>x. case x of
       Inl (t, _) \<Rightarrow> size t
     | Inr (Inl (ts, _)) \<Rightarrow> size_list size ts
     | Inr (Inr (ts, _)) \<Rightarrow> size_option (size_list size) ts)") (auto simp: termination_simp less_Suc_eq_le)

definition LocalComponents :: "go_type \<Rightarrow> go_object list" where
  "LocalComponents sourceType = snd (collectLocalComponents sourceType ([], []))"

definition LocalComponent :: "go_type \<Rightarrow> go_object option" where
  "LocalComponent sourceType =
     (let components = LocalComponents sourceType in
      if length components = 0 then None else Some (components ! 0))"

subsection \<open>The local declarations of a type\<close>

text \<open>The local declarations a type mentions, in the order of a left-to-right traversal.\<close>

primrec mentions :: "go_type \<Rightarrow> go_object list" where
  "mentions (AliasType t) = mentions t"
| "mentions (BasicType kind) = []"
| "mentions (NamedType obj args) =
     (case obj of None \<Rightarrow> [] | Some x \<Rightarrow> if is_local x then [x] else []) @ concat (map mentions args)"
| "mentions (TypeParamType p) = []"
| "mentions (PointerType t) = mentions t"
| "mentions (SliceType t) = mentions t"
| "mentions (ArrayType n t) = mentions t"
| "mentions (MapType k t) = mentions k @ mentions t"
| "mentions (ChanType dir t) = mentions t"
| "mentions (StructType members) = concat (map field_Type (map (map_struct_field mentions) members))"
| "mentions (SignatureType recv variadic params results) =
     concat (list_or_empty (map_option (map mentions) params)) @
     concat (list_or_empty (map_option (map mentions) results))"
| "mentions (InterfaceType methodSet ms) = concat (map method_Type (map (map_interface_method mentions) ms))"
| "mentions (OtherType n) = []"

definition collects :: "go_object list \<Rightarrow> local_collection \<Rightarrow> local_collection \<Rightarrow> bool" where
  "collects xs c c' \<longleftrightarrow> (set (fst c) = set (snd c) \<longrightarrow>
     set (fst c') = set (snd c') \<and> snd c' = fold gs_insert xs (snd c))"

lemma collects_Nil: "collects [] c c"
  by (simp add: collects_def)

lemma collects_append: "collects xs c c1 \<Longrightarrow> collects ys c1 c2 \<Longrightarrow> collects (xs @ ys) c c2"
  by (simp add: collects_def)

lemma collects_addLocal:
  "collects (case obj of None \<Rightarrow> [] | Some x \<Rightarrow> if is_local x then [x] else []) c (addLocal obj c)"
  by (auto simp: collects_def addLocal_def gs_insert_def split: option.splits prod.splits)

lemma collect_mentions:
  "collects (mentions t) c (collectLocalComponents t c)"
  "collects (concat (map mentions ts)) c (collectAll ts c)"
  "collects (concat (list_or_empty (map_option (map mentions) tuple))) c (collectLocalTupleComponents tuple c)"
proof (induction t c and ts c and tuple c
    rule: collectLocalComponents_collectAll_collectLocalTupleComponents.induct)
  case (2 obj args c)
  then show ?case using collects_append [OF collects_addLocal] by simp
next
  case (8 members c)
  have "map (mentions \<circ> field_Type) members = map (field_Type \<circ> map_struct_field mentions) members"
    by (simp add: struct_field.map_sel)
  with 8 show ?case by simp
next
  case (10 m ms c)
  have "map (mentions \<circ> method_Type) ms = map (method_Type \<circ> map_interface_method mentions) ms"
    by (simp add: interface_method.map_sel)
  with 10 show ?case by simp
qed (auto simp: list_or_empty_def collects_Nil intro: collects_append)

lemma LocalComponents_mentions: "LocalComponents t = fold gs_insert (mentions t) []"
  using collect_mentions(1) [of t "([], [])"] by (simp add: collects_def LocalComponents_def)

lemma fold_gs_insert: "set (fold gs_insert xs ys) = set xs \<union> set ys" "distinct ys \<Longrightarrow> distinct (fold gs_insert xs ys)"
  by (induction xs arbitrary: ys) auto

lemma namedIdentity_not_local:
  "id_namedObject owner = Some (\<lambda>x. NamedObjectKey lookup (Some x)) \<Longrightarrow> namedIdentity owner x = Inr i \<Longrightarrow> \<not> is_local x"
  by (auto simp: namedIdentity_def NamedObjectKey_def is_local_def split: option.splits if_splits)

lemma descriptor_not_local:
  "id_namedObject owner = Some (\<lambda>x. NamedObjectKey lookup (Some x)) \<Longrightarrow>
     appendTypeDescriptor owner t = Inr d \<Longrightarrow> mentions t = []"
  "id_namedObject owner = Some (\<lambda>x. NamedObjectKey lookup (Some x)) \<Longrightarrow>
     appendTypes owner ts = Inr d \<Longrightarrow> concat (map mentions ts) = []"
  "id_namedObject owner = Some (\<lambda>x. NamedObjectKey lookup (Some x)) \<Longrightarrow>
     appendTupleDescriptor owner tuple = Inr d \<Longrightarrow> concat (list_or_empty (map_option (map mentions) tuple)) = []"
  "id_namedObject owner = Some (\<lambda>x. NamedObjectKey lookup (Some x)) \<Longrightarrow>
     appendFields owner members = Inr d \<Longrightarrow> concat (map field_Type (map (map_struct_field mentions) members)) = []"
  "id_namedObject owner = Some (\<lambda>x. NamedObjectKey lookup (Some x)) \<Longrightarrow>
     appendMethods owner ms = Inr d \<Longrightarrow> concat (map method_Type (map (map_interface_method mentions) ms)) = []"
proof (induction owner t and owner ts and owner tuple and owner members and owner ms arbitrary: d and d and d and d and d
    rule: appendTypeDescriptor_appendTypes_appendTupleDescriptor_appendFields_appendMethods.induct)
  case (3 owner obj args)
  then show ?case
    by (auto simp: then_text_Inr namedIdentity_not_local split: option.splits sum.splits)
next
  case (21 owner name exported pkg t ms)
  from "21.prems"(2) show ?case
  proof (rule appendMethods_Cons)
    fix recv variadic params results d1 d2
    assume a: "t = SignatureType recv variadic params results"
      "appendTypeDescriptor owner (SignatureType None variadic params results) = Inr d1" "appendMethods owner ms = Inr d2"
    then have "mentions (SignatureType None variadic params results) = []"
      using "21.IH"(1) "21.prems"(1) by blast
    moreover have "concat (map method_Type (map (map_interface_method mentions) ms)) = []"
      using "21.IH"(2) "21.prems"(1) a by blast
    ultimately show ?case using a by simp
  qed
qed (auto simp: then_text_Inr list_or_empty_def split: option.splits sum.splits if_splits)

text \<open>A package path has no vertical bar, so the key of a declaration splits at the first one.\<close>

lemma cut_bar:
  assumes "c \<notin> set p" "c \<notin> set q" "p @ c # r = q @ c # s"
  shows "p = q \<and> r = s"
proof -
  have "takeWhile (\<lambda>x. x \<noteq> c) (p @ c # r) = p" "takeWhile (\<lambda>x. x \<noteq> c) (q @ c # s) = q"
    using assms(1,2) by (auto simp: takeWhile_append)
  then have "p = q" using assms(3) by metis
  then show ?thesis using assms(3) by simp
qed

definition plain_package :: "go_object \<Rightarrow> bool" where
  "plain_package x \<longleftrightarrow>
     (case object_package x of None \<Rightarrow> True
      | Some p \<Rightarrow> CHR ''|'' \<notin> set (package_path p) \<and> package_path p \<noteq> ''go:universe'')"

lemma NamedObjectKey_parts:
  assumes "NamedObjectKey lookup object = Inr k"
  obtains x where "object = Some x"
    "k = (case object_package x of None \<Rightarrow> ''go:universe'' | Some p \<Rightarrow> package_path p) @ CHR ''|'' # object_name x"
    "lookup (case object_package x of None \<Rightarrow> UniverseScope | Some p \<Rightarrow> packageScope p) (object_name x) = Some x"
  using assms by (auto simp: NamedObjectKey_def split: option.splits if_splits)

subsection \<open>Properties\<close>

text \<open>The types \<open>map[string]p.T\<close> and \<open>map[string]p.U\<close>, the latter through an alias.\<close>

definition demo_package :: go_package where
  "demo_package = \<lparr>package_ref = 1, package_path = ''p''\<rparr>"

definition demo_type_name :: "scope \<Rightarrow> string \<Rightarrow> go_object" where
  "demo_type_name parent name =
     \<lparr>object_ref = length name, object_package = Some demo_package, object_parent = Some parent,
      object_kind = TypeNameObject, object_name = name, object_type = None, object_pos = 1\<rparr>"

definition demo_lookup :: scope_lookup where
  "demo_lookup sc name = (if sc = PackageScope 1 then Some (demo_type_name sc name) else None)"

definition demo_identity :: identityOwner where
  "demo_identity = \<lparr>id_namedObject = Some (\<lambda>x. NamedObjectKey demo_lookup (Some x)), id_typeParameter = None\<rparr>"

definition demo_map :: "string \<Rightarrow> go_type" where
  "demo_map name = MapType (BasicType 17) (AliasType (NamedType (Some (demo_type_name (PackageScope 1) name)) []))"

lemma demo_package_scope: "packageScope demo_package = PackageScope 1"
  by (simp add: packageScope_def demo_package_def)

lemma demo_descriptor:
  "buildDescriptor (Some (demo_map name)) demo_identity = Inr (render (shape demo_identity (demo_map name)))"
  by (simp add: buildDescriptor_def demo_map_def demo_identity_def namedIdentity_def NamedObjectKey_def
      demo_type_name_def demo_lookup_def demo_package_scope then_text_def part_def render_list_def identity_or_empty_def)

lemma demo_shape:
  "shape demo_identity (demo_map name) = ShapeMap (ShapeBasic 17) (ShapeNamed (''p|'' @ name) [])"
  by (simp add: demo_map_def demo_identity_def namedIdentity_def NamedObjectKey_def demo_package_def
      demo_type_name_def demo_lookup_def packageScope_def identity_or_empty_def)

text \<open>C25: Two types have the same descriptor exactly when they have the same shape: the same structure once
  aliases, receivers and parameter names are left out and named types are replaced by the identities of
  their declarations.  So the keys never confuse two types, whatever the names and tags in them contain.\<close>

theorem descriptors_identify_shapes:
  assumes "buildDescriptor s owner = Inr d" and "buildDescriptor t owner' = Inr e"
  shows "d = e \<longleftrightarrow> map_option (shape owner) s = map_option (shape owner') t"
  using buildDescriptor_renders [OF assms(1)] buildDescriptor_renders [OF assms(2)] shapes.enc_inject by auto

theorem descriptors_identify_shapes_witness:
  "render (shape demo_identity (demo_map ''T'')) \<noteq> render (shape demo_identity (demo_map ''U''))"
  using descriptors_identify_shapes [OF demo_descriptor [of "''T''"] demo_descriptor [of "''U''"]]
  by (simp add: demo_shape)

text \<open>C28: The local declarations collected from a type are those it mentions, each once, in the order of
  their first mention; and a type whose declarations are identified by package keys gets a descriptor only
  if it mentions none.\<close>

theorem local_components_exact:
  "distinct (LocalComponents t) \<and> set (LocalComponents t) = set (mentions t) \<and>
     LocalComponents t = fold gs_insert (mentions t) [] \<and>
     (BuildDescriptor (Some t) (Some (\<lambda>x. NamedObjectKey lookup (Some x))) = Inr d \<longrightarrow> LocalComponents t = [])"
proof -
  have "mentions t = []" if "BuildDescriptor (Some t) (Some (\<lambda>x. NamedObjectKey lookup (Some x))) = Inr d"
    using that descriptor_not_local(1) [of "\<lparr>id_namedObject = Some (\<lambda>x. NamedObjectKey lookup (Some x)),
      id_typeParameter = None\<rparr>" lookup t d]
    by (simp add: BuildDescriptor_def buildDescriptor_def)
  then show ?thesis using LocalComponents_mentions [of t] by (auto simp: fold_gs_insert)
qed

theorem local_components_exact_witness:
  "LocalComponents (demo_map ''T'') = [] \<and>
     LocalComponents (SliceType (NamedType (Some (demo_type_name (LocalScope 3) ''L'')) [])) =
       [demo_type_name (LocalScope 3) ''L'']"
proof -
  have "BuildDescriptor (Some (demo_map ''T'')) (Some (\<lambda>x. NamedObjectKey demo_lookup (Some x))) =
      Inr (render (shape demo_identity (demo_map ''T'')))"
    using demo_descriptor [of "''T''"] by (simp add: BuildDescriptor_def demo_identity_def)
  then have "LocalComponents (demo_map ''T'') = []" using local_components_exact by blast
  moreover have "mentions (SliceType (NamedType (Some (demo_type_name (LocalScope 3) ''L'')) [])) =
      [demo_type_name (LocalScope 3) ''L'']"
    by (simp add: is_local_def demo_type_name_def demo_package_scope)
  ultimately show ?thesis
    using local_components_exact [of "SliceType (NamedType (Some (demo_type_name (LocalScope 3) ''L'')) [])"]
    by (simp add: gs_insert_def)
qed

text \<open>The key of a package-level or predeclared type name determines the declaration, when package paths
  have no vertical bar, are not \<open>go:universe\<close>, and tell the packages of the compilation apart.\<close>

theorem named_object_keys_distinct:
  assumes "NamedObjectKey lookup (Some x) = Inr k" and "NamedObjectKey lookup (Some y) = Inr k"
    and "plain_package x" and "plain_package y"
    and "\<And>p q. object_package x = Some p \<Longrightarrow> object_package y = Some q \<Longrightarrow> package_path p = package_path q \<Longrightarrow> p = q"
  shows "x = y"
proof -
  let ?path = "\<lambda>x. case object_package x of None \<Rightarrow> ''go:universe'' | Some p \<Rightarrow> package_path p"
  let ?scope = "\<lambda>x. case object_package x of None \<Rightarrow> UniverseScope | Some p \<Rightarrow> packageScope p"
  have x: "k = ?path x @ CHR ''|'' # object_name x" "lookup (?scope x) (object_name x) = Some x"
    by (rule NamedObjectKey_parts [OF assms(1)], simp)+
  have y: "k = ?path y @ CHR ''|'' # object_name y" "lookup (?scope y) (object_name y) = Some y"
    by (rule NamedObjectKey_parts [OF assms(2)], simp)+
  have "CHR ''|'' \<notin> set (?path x)" "CHR ''|'' \<notin> set (?path y)"
    using assms(3,4) by (auto simp: plain_package_def split: option.splits)
  then have name: "?path x = ?path y \<and> object_name x = object_name y"
    by (rule cut_bar [OF _ _ trans [OF x(1) [symmetric] y(1)]])
  from name have path: "?path x = ?path y" by (rule conjunct1)
  from name have name: "object_name x = object_name y" by (rule conjunct2)
  have "object_package x = object_package y"
  proof (cases "object_package x")
    case None
    then show ?thesis using path assms(4) by (cases "object_package y") (simp_all add: plain_package_def)
  next
    case (Some p)
    then obtain q where q: "object_package y = Some q"
      using path assms(3) by (cases "object_package y") (simp_all add: plain_package_def)
    then have "p = q" using assms(5) [OF Some q] path Some by simp
    then show ?thesis using Some q by simp
  qed
  then have "?scope x = ?scope y" by simp
  then have "Some x = Some y" using x(2) y(2) unfolding name by (rule_tac trans [OF sym]) (simp_all only:)
  then show ?thesis by simp
qed

theorem named_object_keys_distinct_witness:
  "NamedObjectKey demo_lookup (Some (demo_type_name (PackageScope 1) ''T'')) \<noteq>
     NamedObjectKey demo_lookup (Some (demo_type_name (PackageScope 1) ''UV''))"
proof
  have k: "NamedObjectKey demo_lookup (Some (demo_type_name (PackageScope 1) name)) = Inr (''p|'' @ name)" for name
    by (simp add: NamedObjectKey_def demo_type_name_def demo_lookup_def packageScope_def demo_package_def)
  assume eq: "NamedObjectKey demo_lookup (Some (demo_type_name (PackageScope 1) ''T'')) =
     NamedObjectKey demo_lookup (Some (demo_type_name (PackageScope 1) ''UV''))"
  have "demo_type_name (PackageScope 1) ''T'' = demo_type_name (PackageScope 1) ''UV''"
    by (rule named_object_keys_distinct [OF k trans [OF eq [symmetric] k]])
      (auto simp: plain_package_def demo_type_name_def demo_package_def)
  then show False by (simp add: demo_type_name_def)
qed

end
