(* ===== verification/TypeLexical.thy ===== *)
theory TypeLexical
  imports TypeIdentity
begin

text \<open>
  Keys of local declarations (\<open>internal/emit/type/typeidentity/lexical.go\<close>): a type declared inside a
  function is identified by the artifact owner that contains it and by its place in the scope tree.

  What the code asks of the type checker is the record \<open>checker\<close>: the scopes with their parents and
  children, the type a reference denotes, the origin of a function, and the method or field that
  \<open>LookupFieldOrMethod\<close> selects.  The loop that climbs the scopes ends only if the scope it starts
  from has finitely many ancestors, so it is a partial function.
\<close>

record checker =
  ck_lookup :: scope_lookup
  ck_parent :: "scope \<Rightarrow> scope option"
  ck_children :: "scope \<Rightarrow> scope list"
  ck_type :: "type_ref \<Rightarrow> go_type"
  ck_origin :: "go_object \<Rightarrow> go_object"
  ck_method :: "go_type \<Rightarrow> go_package option \<Rightarrow> string \<Rightarrow> go_object option"

subsection \<open>Source owners\<close>

definition packageObjectIsExact :: "checker \<Rightarrow> go_object \<Rightarrow> bool" where
  "packageObjectIsExact ck object \<longleftrightarrow>
     (case object_package object of
        None \<Rightarrow> False
      | Some p \<Rightarrow> object_parent object = Some (packageScope p) \<and>
          ck_lookup ck (packageScope p) (object_name object) = Some object)"

text \<open>\<open>named.Obj()\<close> is called before the type assertion is checked, and \<open>named\<close> is nil when it fails.\<close>

definition receiverTypeName :: "go_type \<Rightarrow> name_error + go_object option" where
  "receiverTypeName sourceType =
     (let t = Unalias sourceType;
          t = (case t of PointerType e \<Rightarrow> Unalias e | _ \<Rightarrow> t)
      in case t of NamedType obj _ \<Rightarrow> Inr obj | _ \<Rightarrow> Inl NilDereference)"

definition objectType :: "checker \<Rightarrow> go_object \<Rightarrow> go_type option" where
  "objectType ck object = map_option (ck_type ck) (object_type object)"

definition sourceFunctionIsExact :: "checker \<Rightarrow> go_object \<Rightarrow> go_package \<Rightarrow> go_type option \<Rightarrow> name_error + bool" where
  "sourceFunctionIsExact ck source pkg recv =
     (case recv of
        None \<Rightarrow>
          if object_name source = ''init'' then
            Inr (object_parent source = Some (packageScope pkg) \<and>
                 ck_lookup ck (packageScope pkg) (object_name source) = None)
          else Inr (packageObjectIsExact ck source)
      | Some recvType \<Rightarrow>
          (case receiverTypeName recvType of
             Inl e \<Rightarrow> Inl e
           | Inr None \<Rightarrow> Inr False
           | Inr (Some receiver) \<Rightarrow>
               (case map_option Unalias (objectType ck receiver) of
                  Some (NamedType obj args) \<Rightarrow>
                    (case ck_method ck (NamedType obj args) (object_package source) (object_name source) of
                       None \<Rightarrow> Inr False
                     | Some selected \<Rightarrow>
                         Inr (case object_kind selected of
                           FuncObject _ \<Rightarrow> ck_origin ck selected = source | _ \<Rightarrow> False))
                | _ \<Rightarrow> Inr False)))"

definition signatureReceiver :: "checker \<Rightarrow> go_object \<Rightarrow> go_type option option" where
  "signatureReceiver ck source =
     (case objectType ck source of
        Some (SignatureType recv _ _ _) \<Rightarrow> Some recv
      | _ \<Rightarrow> None)"

definition sourceFunctionKey :: "checker \<Rightarrow> go_object \<Rightarrow> go_package \<Rightarrow> name_error + string" where
  "sourceFunctionKey ck source pkg =
     (if ck_origin ck source \<noteq> source then
        Inl (NameError (object_name source) ''generated-artifact source function is not its canonical origin'')
      else
        (case signatureReceiver ck source of
           None \<Rightarrow> Inl (NameError (object_name source) ''generated-artifact source function has no signature identity'')
         | Some recv \<Rightarrow>
             (case sourceFunctionIsExact ck source pkg recv of
                Inl e \<Rightarrow> Inl e
              | Inr False \<Rightarrow>
                  Inl (NameError (object_name source) ''generated-artifact source function is not its package declaration'')
              | Inr True \<Rightarrow>
                  then_text (part ''function'')
                    (then_text
                      (case recv of
                         None \<Rightarrow> Inr ''''
                       | Some recvType \<Rightarrow>
                           (case receiverTypeName recvType of
                              Inl e \<Rightarrow> Inl e
                            | Inr None \<Rightarrow>
                                Inl (NameError (object_name source) ''generated-artifact source method has no receiver identity'')
                            | Inr (Some receiver) \<Rightarrow>
                                (case NamedObjectKey (ck_lookup ck) (Some receiver) of
                                   Inl e \<Rightarrow> Inl e | Inr key \<Rightarrow> part key)))
                      (part (object_name source))))))"

definition packageMemberKey :: "checker \<Rightarrow> go_object \<Rightarrow> string \<Rightarrow> string \<Rightarrow> name_error + string" where
  "packageMemberKey ck source tag reason =
     (if packageObjectIsExact ck source then then_text (part tag) (part (object_name source))
      else Inl (NameError (object_name source) reason))"

definition sourceArtifactOwnerKey :: "checker \<Rightarrow> go_object option \<Rightarrow> name_error + string" where
  "sourceArtifactOwnerKey ck source =
     (case source of
        None \<Rightarrow> Inl (NameError '''' ''generated-artifact source owner has no package identity'')
      | Some s \<Rightarrow>
          (case object_package s of
             None \<Rightarrow> Inl (NameError '''' ''generated-artifact source owner has no package identity'')
           | Some pkg \<Rightarrow>
               then_text (part (package_path pkg))
                 (case object_kind s of
                    FuncObject _ \<Rightarrow> sourceFunctionKey ck s pkg
                  | TypeNameObject \<Rightarrow>
                      (case NamedObjectKey (ck_lookup ck) (Some s) of
                         Inl e \<Rightarrow> Inl e | Inr key \<Rightarrow> then_text (part ''type'') (part key))
                  | ConstObject \<Rightarrow>
                      packageMemberKey ck s ''constant'' ''generated-artifact constant owner is not package-owned''
                  | VarObject \<Rightarrow>
                      packageMemberKey ck s ''variable'' ''generated-artifact variable owner is not package-owned''
                  | _ \<Rightarrow> Inl (NameError (object_name s) ''generated-artifact source owner has no declaration identity''))))"

definition SourceObjectKey :: "checker \<Rightarrow> go_object option \<Rightarrow> name_error + string" where
  "SourceObjectKey = sourceArtifactOwnerKey"

subsection \<open>Owners of local declarations\<close>

definition validInitializerIdentityTarget :: "checker \<Rightarrow> go_package option \<Rightarrow> go_object option \<Rightarrow> bool" where
  "validInitializerIdentityTarget ck sourcePackage variable =
     (case variable of
        None \<Rightarrow> False
      | Some v \<Rightarrow>
          if object_package v \<noteq> sourcePackage then False
          else if object_name v = ''_'' then object_parent v = None
          else packageObjectIsExact ck v)"

fun initializerNames :: "checker \<Rightarrow> go_package option \<Rightarrow> go_object option list \<Rightarrow> name_error + string" where
  "initializerNames ck pkg [] = Inr ''''"
| "initializerNames ck pkg (variable # rest) =
     (if validInitializerIdentityTarget ck pkg variable then
        (case variable of
           None \<Rightarrow> Inl NilDereference
         | Some v \<Rightarrow> then_text (part (object_name v)) (initializerNames ck pkg rest))
      else Inl (NameError '''' ''generated-artifact initializer owner has no semantic identity''))"

definition lexicalArtifactOwnerKey :: "checker \<Rightarrow> artifact_owner \<Rightarrow> go_package option \<Rightarrow> name_error + string" where
  "lexicalArtifactOwnerKey ck owner sourcePackage =
     (if sourcePackage = None \<or> \<not> owner_Valid owner \<or> owner_Package owner \<noteq> sourcePackage then
        Inl (NameError '''' ''generated-artifact lexical owner has a foreign package'')
      else
        (case owner_Source owner of
           Some source \<Rightarrow> sourceArtifactOwnerKey ck (Some source)
         | None \<Rightarrow>
             (case owner_PackageInitializer owner of
                Some (initializerPackage, initialiser) \<Rightarrow>
                  then_text (part ''initializer'')
                    (then_text
                      (case initializerPackage of None \<Rightarrow> Inl NilDereference | Some p \<Rightarrow> part (package_path p))
                      (then_text (part (itoa (length (initializer_lhs initialiser))))
                        (initializerNames ck initializerPackage (initializer_lhs initialiser))))
              | None \<Rightarrow> Inl (NameError '''' ''generated-artifact lexical owner is not source-reconstructible''))))"

subsection \<open>Scope paths\<close>

fun first_index :: "'a \<Rightarrow> 'a list \<Rightarrow> nat option" where
  "first_index x [] = None"
| "first_index x (y # ys) = (if y = x then Some 0 else map_option Suc (first_index x ys))"

partial_function (option) climbScopes ::
    "checker \<Rightarrow> scope option \<Rightarrow> scope option \<Rightarrow> nat list \<Rightarrow> (name_error + nat list) option" where
  "climbScopes ck root current reversed =
     (if current = root then Some (Inr (rev reversed))
      else case current of
        None \<Rightarrow> Some (Inl (NameError '''' ''generated-artifact lexical scope is outside its root''))
      | Some s \<Rightarrow>
          (case ck_parent ck s of
             None \<Rightarrow> Some (Inl (NameError '''' ''generated-artifact lexical scope has no parent''))
           | Some parent \<Rightarrow>
               (case first_index s (ck_children ck parent) of
                  None \<Rightarrow> Some (Inl (NameError '''' ''generated-artifact lexical scope graph is inconsistent''))
                | Some childIndex \<Rightarrow> climbScopes ck root (Some parent) (reversed @ [childIndex]))))"

definition lexicalScopePath :: "checker \<Rightarrow> scope option \<Rightarrow> scope option \<Rightarrow> (name_error + nat list) option" where
  "lexicalScopePath ck scope' root = climbScopes ck root scope' []"

definition appendScopePath :: "nat list \<Rightarrow> string" where
  "appendScopePath path =
     appendPart (itoa (length path)) @ concat (map (\<lambda>childIndex. appendPart (itoa childIndex)) path)"

definition objectName :: "go_object option \<Rightarrow> string" where
  "objectName object = (case object of None \<Rightarrow> '''' | Some x \<Rightarrow> object_name x)"

text \<open>The outer \<open>None\<close> is a loop over scopes that never ends.\<close>

definition LexicalNamedObjectKey ::
    "checker \<Rightarrow> go_object option \<Rightarrow> artifact_owner \<Rightarrow> scope option \<Rightarrow> (name_error + string) option" where
  "LexicalNamedObjectKey ck object owner root =
     (let invalid = Some (Inl (NameError (objectName object) ''generated-artifact local component has no lexical identity'')) in
      case object of
        None \<Rightarrow> invalid
      | Some obj \<Rightarrow>
          (case (object_package obj, root, object_parent obj) of
             (Some pkg, Some _, Some parent) \<Rightarrow>
               if parent = packageScope pkg \<or> ck_lookup ck parent (object_name obj) \<noteq> Some obj then invalid
               else
                 (case lexicalArtifactOwnerKey ck owner (Some pkg) of
                    Inl e \<Rightarrow> Some (Inl e)
                  | Inr ownerKey \<Rightarrow>
                      (case lexicalScopePath ck root (Some (packageScope pkg)) of
                         None \<Rightarrow> None
                       | Some (Inl _) \<Rightarrow>
                           Some (Inl (NameError (object_name obj) ''generated-artifact lexical root is foreign to its package''))
                       | Some (Inr rootPath) \<Rightarrow>
                           (case lexicalScopePath ck (Some parent) root of
                              None \<Rightarrow> None
                            | Some (Inl _) \<Rightarrow>
                                Some (Inl (NameError (object_name obj)
                                  ''generated-artifact local component has a foreign lexical owner''))
                            | Some (Inr objectPath) \<Rightarrow>
                                Some (Inr (appendPart ''lexical'' @ appendPart ownerKey @ appendScopePath rootPath @
                                  appendPart (object_name obj) @ appendScopePath objectPath)))))
           | _ \<Rightarrow> invalid))"

subsection \<open>A scope path leads back to its scope\<close>

fun descend_scopes :: "checker \<Rightarrow> scope \<Rightarrow> nat list \<Rightarrow> scope option" where
  "descend_scopes ck s [] = Some s"
| "descend_scopes ck s (i # path) =
     (if i < length (ck_children ck s) then descend_scopes ck (ck_children ck s ! i) path else None)"

lemma descend_scopes_append:
  "descend_scopes ck s (path @ path') = (case descend_scopes ck s path of None \<Rightarrow> None | Some t \<Rightarrow> descend_scopes ck t path')"
  by (induction path arbitrary: s) auto

lemma first_index_Some: "first_index x xs = Some i \<Longrightarrow> i < length xs \<and> xs ! i = x"
  by (induction xs arbitrary: i) (auto split: if_splits)

lemma first_index_None: "first_index x xs = None \<longleftrightarrow> x \<notin> set xs"
  by (induction xs) auto

lemma climbScopes_descend:
  assumes "climbScopes ck root current reversed = Some res"
  shows "\<forall>path s t. res = Inr path \<longrightarrow> root = Some t \<longrightarrow> current = Some s \<longrightarrow>
    (\<exists>up. path = up @ rev reversed \<and> descend_scopes ck t up = Some s)"
  using assms
proof (induction rule: climbScopes.raw_induct [rotated, consumes 1])
  case (1 climb ck root current reversed res)
  show ?case
  proof (intro allI impI)
    fix path s t
    assume h: "res = Inr path" "root = Some t" "current = Some s"
    show "\<exists>up. path = up @ rev reversed \<and> descend_scopes ck t up = Some s"
    proof (cases "s = t")
      case True
      then show ?thesis using 1 h by (intro exI [of _ "[]"]) auto
    next
      case False
      then obtain p i where p: "ck_parent ck s = Some p" "first_index s (ck_children ck p) = Some i"
        and r: "climb ck root (Some p) (reversed @ [i]) = Some res"
        using 1(2) h by (auto split: option.splits)
      then obtain up where "path = up @ rev (reversed @ [i])" "descend_scopes ck t up = Some p"
        using 1(1) [OF r] h by blast
      then show ?thesis
        using first_index_Some [OF p(2)] by (intro exI [of _ "up @ [i]"]) (simp add: descend_scopes_append)
    qed
  qed
qed

lemma lexicalScopePath_descend:
  "lexicalScopePath ck (Some s) (Some t) = Some (Inr path) \<Longrightarrow> descend_scopes ck t path = Some s"
  unfolding lexicalScopePath_def by (auto dest!: climbScopes_descend)

text \<open>Climbing ends when the scopes are ranked by depth.\<close>

lemma climbScopes_ends:
  assumes rank: "\<And>s p. ck_parent ck s = Some p \<Longrightarrow> depth p < (depth s :: nat)"
  shows "\<exists>res. climbScopes ck root current reversed = Some res"
proof (cases current)
  case None
  then show ?thesis by (subst climbScopes.simps) simp
next
  case (Some s)
  have "\<exists>res. climbScopes ck root (Some s) reversed = Some res"
  proof (induction "depth s" arbitrary: s reversed rule: less_induct)
    case less
    show ?case
      using less rank by (subst climbScopes.simps) (auto split: option.splits)
  qed
  with Some show ?thesis by simp
qed

text \<open>\<open>within ck s t\<close>: the scope \<open>t\<close> is \<open>s\<close> or one of its ancestors.\<close>

inductive within :: "checker \<Rightarrow> scope \<Rightarrow> scope \<Rightarrow> bool" for ck where
  here: "within ck s s"
| parent: "ck_parent ck s = Some p \<Longrightarrow> within ck p t \<Longrightarrow> within ck s t"

inductive_cases within_cases: "within ck s t"

text \<open>The universe scope has no parent and does not list the package scopes, whose parent it is.\<close>

lemma within_universe: "within ck UniverseScope t \<Longrightarrow> ck_parent ck UniverseScope = None \<Longrightarrow> t = UniverseScope"
  by (auto elim: within_cases)

lemma climbScopes_within:
  assumes tree: "\<And>s p. ck_parent ck s = Some p \<Longrightarrow> p \<noteq> UniverseScope \<Longrightarrow> s \<in> set (ck_children ck p)"
    and top: "ck_parent ck UniverseScope = None"
  shows "within ck s t \<Longrightarrow> t \<noteq> UniverseScope \<Longrightarrow> \<exists>path. climbScopes ck (Some t) (Some s) reversed = Some (Inr path)"
proof (induction arbitrary: reversed rule: within.induct)
  case (here s)
  then show ?case by (subst climbScopes.simps) simp
next
  case (parent s p t)
  then have "p \<noteq> UniverseScope" using within_universe top by blast
  then obtain i where "first_index s (ck_children ck p) = Some i"
    using parent tree [of s p] first_index_None [of s "ck_children ck p"]
    by (cases "first_index s (ck_children ck p)") auto
  then show ?case using parent by (cases "s = t"; subst climbScopes.simps) auto
qed

lemma climbScopes_only_within:
  assumes "climbScopes ck root current reversed = Some res"
  shows "\<forall>path s t. res = Inr path \<longrightarrow> root = Some t \<longrightarrow> current = Some s \<longrightarrow> within ck s t"
  using assms
proof (induction rule: climbScopes.raw_induct [rotated, consumes 1])
  case (1 climb ck root current reversed res)
  then show ?case
    by (fastforce intro: within.intros split: if_splits option.splits)
qed

subsection \<open>What the keys contain\<close>

lemma cut_scope_path:
  "appendScopePath p @ r = appendScopePath q @ s \<Longrightarrow> p = q \<and> r = s"
proof -
  assume eq: "appendScopePath p @ r = appendScopePath q @ s"
  then have len: "length p = length q" by (auto simp: appendScopePath_def)
  moreover have "concat (map (\<lambda>i. appendPart (itoa i)) p) @ r = concat (map (\<lambda>i. appendPart (itoa i)) q) @ s"
    using eq len by (simp add: appendScopePath_def)
  ultimately show ?thesis by (intro texts_delimit [where f = "\<lambda>i. appendPart (itoa i)"]) auto
qed

text \<open>
  A key of an owner is a sequence of parts.  The first parts of a source owner are its package and a
  tag; an initializer starts with a fixed word, its package and the number of names that follow.
\<close>

definition is_source_parts :: "go_package \<Rightarrow> string list \<Rightarrow> bool" where
  "is_source_parts pkg ps \<longleftrightarrow>
     (\<exists>tag x. ps = [package_path pkg, tag, x]) \<or>
     (\<exists>tag x y z. ps = [package_path pkg, tag, x @ CHR ''|'' # y, z])"

definition is_initializer_parts :: "go_package \<Rightarrow> string list \<Rightarrow> bool" where
  "is_initializer_parts pkg ps \<longleftrightarrow>
     (\<exists>names. names \<noteq> [] \<and> ps = ''initializer'' # package_path pkg # itoa (length names) # names)"

abbreviation text_of :: "string list \<Rightarrow> string" where
  "text_of ps \<equiv> concat (map appendPart ps)"

lemma receiverKey_bar: "NamedObjectKey lookup (Some r) = Inr k \<Longrightarrow> \<exists>x y. k = x @ CHR ''|'' # y"
  by (erule NamedObjectKey_parts) auto

lemma sourceFunctionKey_parts:
  assumes "sourceFunctionKey ck s pkg = Inr k"
  shows "k = text_of [''function'', object_name s] \<or>
    (\<exists>x y. k = text_of [''function'', x @ CHR ''|'' # y, object_name s])"
proof -
  have origin: "ck_origin ck s = s"
    using assms unfolding sourceFunctionKey_def by (cases "ck_origin ck s = s") simp_all
  obtain recv where recv: "signatureReceiver ck s = Some recv"
    using assms origin unfolding sourceFunctionKey_def by (cases "signatureReceiver ck s") simp_all
  have exact: "sourceFunctionIsExact ck s pkg recv = Inr True"
  proof (cases "sourceFunctionIsExact ck s pkg recv")
    case (Inr b)
    with assms origin recv show ?thesis unfolding sourceFunctionKey_def by (cases b) simp_all
  qed (use assms origin recv in \<open>simp add: sourceFunctionKey_def\<close>)
  have k: "then_text (part ''function'')
      (then_text
        (case recv of
           None \<Rightarrow> Inr ''''
         | Some recvType \<Rightarrow>
             (case receiverTypeName recvType of
                Inl e \<Rightarrow> Inl e
              | Inr None \<Rightarrow>
                  Inl (NameError (object_name s) ''generated-artifact source method has no receiver identity'')
              | Inr (Some receiver) \<Rightarrow>
                  (case NamedObjectKey (ck_lookup ck) (Some receiver) of
                     Inl e \<Rightarrow> Inl e | Inr key \<Rightarrow> part key)))
        (part (object_name s))) = Inr k"
    using assms by (simp add: sourceFunctionKey_def origin recv exact)
  show ?thesis
  proof (cases recv)
    case None
    then show ?thesis using k by (auto simp: then_text_Inr)
  next
    case (Some recvType)
    then obtain receiver key where "NamedObjectKey (ck_lookup ck) (Some receiver) = Inr key"
      "k = text_of [''function'', key, object_name s]"
      using k by (auto simp: then_text_Inr split: sum.splits option.splits)
    then show ?thesis using receiverKey_bar by blast
  qed
qed

lemma sourceArtifactOwnerKey_parts:
  assumes "sourceArtifactOwnerKey ck (Some s) = Inr k"
  obtains pkg ps where "object_package s = Some pkg" "is_source_parts pkg ps" "k = text_of ps"
proof -
  obtain pkg k' where pkg: "object_package s = Some pkg" and k: "k = appendPart (package_path pkg) @ k'" and
    k': "(case object_kind s of
        FuncObject _ \<Rightarrow> sourceFunctionKey ck s pkg
      | TypeNameObject \<Rightarrow>
          (case NamedObjectKey (ck_lookup ck) (Some s) of
             Inl e \<Rightarrow> Inl e | Inr key \<Rightarrow> then_text (part ''type'') (part key))
      | ConstObject \<Rightarrow>
          packageMemberKey ck s ''constant'' ''generated-artifact constant owner is not package-owned''
      | VarObject \<Rightarrow>
          packageMemberKey ck s ''variable'' ''generated-artifact variable owner is not package-owned''
      | _ \<Rightarrow> Inl (NameError (object_name s) ''generated-artifact source owner has no declaration identity'')) = Inr k'"
    using assms by (auto simp: sourceArtifactOwnerKey_def then_text_Inr split: option.splits)
  have "\<exists>ps. k' = text_of ps \<and> is_source_parts pkg (package_path pkg # ps)"
  proof (cases "object_kind s")
    case (FuncObject r)
    then have "sourceFunctionKey ck s pkg = Inr k'" using k' by simp
    from sourceFunctionKey_parts [OF this] show ?thesis
    proof
      assume "k' = text_of [''function'', object_name s]"
      then show ?thesis unfolding is_source_parts_def by blast
    next
      assume "\<exists>x y. k' = text_of [''function'', x @ CHR ''|'' # y, object_name s]"
      then show ?thesis unfolding is_source_parts_def by blast
    qed
  next
    case TypeNameObject
    then obtain key where "k' = text_of [''type'', key]"
      using k' by (auto simp: then_text_Inr split: sum.splits)
    then show ?thesis unfolding is_source_parts_def by blast
  next
    case ConstObject
    then have "k' = text_of [''constant'', object_name s]"
      using k' by (auto simp: packageMemberKey_def then_text_Inr split: if_splits)
    then show ?thesis unfolding is_source_parts_def by blast
  next
    case VarObject
    then have "k' = text_of [''variable'', object_name s]"
      using k' by (auto simp: packageMemberKey_def then_text_Inr split: if_splits)
    then show ?thesis unfolding is_source_parts_def by blast
  qed (use k' in simp_all)
  then show ?thesis using that pkg k by auto
qed

lemma initializerNames_parts:
  "initializerNames ck pkg variables = Inr k \<Longrightarrow> \<exists>names. length names = length variables \<and> k = text_of names"
proof (induction variables arbitrary: k)
  case (Cons v vs)
  then obtain x k' where "initializerNames ck pkg vs = Inr k'" "k = appendPart x @ k'"
    by (auto simp: then_text_Inr split: if_splits option.splits)
  moreover from this obtain names where "length names = length vs" "k' = text_of names" using Cons.IH by blast
  ultimately show ?case by (intro exI [of _ "x # names"]) simp
qed simp

lemma lexicalArtifactOwnerKey_parts:
  assumes "lexicalArtifactOwnerKey ck owner (Some pkg) = Inr k"
  obtains ps where "is_source_parts pkg ps \<or> is_initializer_parts pkg ps" "k = text_of ps"
proof -
  have valid: "owner_Valid owner" "owner_Package owner = Some pkg"
    using assms by (auto simp: lexicalArtifactOwnerKey_def split: if_splits)
  show ?thesis
  proof (cases "owner_Source owner")
    case (Some s)
    then have "object_package s = Some pkg" using valid by (simp add: owner_Package_def)
    moreover have "sourceArtifactOwnerKey ck (Some s) = Inr k"
      using assms valid Some by (simp add: lexicalArtifactOwnerKey_def)
    ultimately show ?thesis using that by (elim sourceArtifactOwnerKey_parts) auto
  next
    case None
    then obtain p i where i: "owner_PackageInitializer owner = Some (p, i)"
      using assms valid by (auto simp: lexicalArtifactOwnerKey_def split: option.splits)
    then have p: "p = Some pkg" using valid None by (simp add: owner_Package_def)
    have lhs: "initializer_lhs i \<noteq> []"
      using i valid by (auto simp: owner_PackageInitializer_def owner_valid_defs split: if_splits option.splits)
    obtain k' where k': "initializerNames ck p (initializer_lhs i) = Inr k'"
      "k = appendPart ''initializer'' @ appendPart (package_path pkg) @ appendPart (itoa (length (initializer_lhs i))) @ k'"
      using assms valid None i p by (auto simp: lexicalArtifactOwnerKey_def then_text_Inr)
    then obtain names where names: "length names = length (initializer_lhs i)" "k' = text_of names"
      using initializerNames_parts by blast
    then have "is_initializer_parts pkg (''initializer'' # package_path pkg # itoa (length names) # names)"
      using lhs by (auto simp: is_initializer_parts_def)
    moreover have "k = text_of (''initializer'' # package_path pkg # itoa (length names) # names)"
      using k' names by simp
    ultimately show ?thesis using that by blast
  qed
qed

lemma bar_not_itoa: "x @ CHR ''|'' # y \<noteq> itoa n"
  using itoa_before [of "CHR ''|''" n] by (auto simp: is_digit_def) (metis in_set_conv_decomp)

text \<open>So the key of an owner tells its package, even when a package is called \<open>initializer\<close>.\<close>

lemma owner_key_package:
  assumes "is_source_parts p ps \<or> is_initializer_parts p ps" "is_source_parts q ps \<or> is_initializer_parts q ps"
  shows "package_path p = package_path q"
proof -
  have mixed: "package_path a = package_path b" if "is_source_parts a ps" "is_initializer_parts b ps" for a b
    using that by (auto simp: is_source_parts_def is_initializer_parts_def bar_not_itoa bar_not_itoa [symmetric])
  have "package_path p = package_path q" if "is_source_parts p ps" "is_source_parts q ps"
    using that by (auto simp: is_source_parts_def)
  moreover have "package_path p = package_path q" if "is_initializer_parts p ps" "is_initializer_parts q ps"
    using that by (auto simp: is_initializer_parts_def)
  ultimately show ?thesis using assms mixed [of p q] mixed [of q p, THEN sym] by (elim disjE)
qed

lemma LexicalNamedObjectKey_cases:
  assumes "LexicalNamedObjectKey ck object owner root = Some (Inr k)"
  obtains obj pkg r parent ownerKey rootPath objectPath where
    "object = Some obj" "object_package obj = Some pkg" "root = Some r" "object_parent obj = Some parent"
    "ck_lookup ck parent (object_name obj) = Some obj" "lexicalArtifactOwnerKey ck owner (Some pkg) = Inr ownerKey"
    "descend_scopes ck (packageScope pkg) rootPath = Some r" "descend_scopes ck r objectPath = Some parent"
    "k = appendPart ''lexical'' @ appendPart ownerKey @ appendScopePath rootPath @
       appendPart (object_name obj) @ appendScopePath objectPath"
  using assms unfolding LexicalNamedObjectKey_def
  by (auto simp: Let_def dest!: lexicalScopePath_descend split: option.splits sum.splits if_splits)

subsection \<open>Properties\<close>

text \<open>A variable \<open>v\<close> whose initializer is a function literal with two nested scopes.\<close>

definition demo_variable :: go_object where
  "demo_variable =
     \<lparr>object_ref = 9, object_package = Some demo_package, object_parent = Some (PackageScope 1),
      object_kind = VarObject, object_name = ''v'', object_type = None, object_pos = 1\<rparr>"

definition demo_checker :: checker where
  "demo_checker =
     \<lparr>ck_lookup = (\<lambda>sc name. if sc = PackageScope 1 then Some demo_variable else Some (demo_type_name sc name)),
      ck_parent = (\<lambda>sc. if sc = PackageScope 1 then Some UniverseScope
        else if sc = LocalScope 2 then Some (PackageScope 1)
        else if sc = LocalScope 3 then Some (LocalScope 2) else None),
      ck_children = (\<lambda>sc. if sc = PackageScope 1 then [LocalScope 2]
        else if sc = LocalScope 2 then [LocalScope 3] else []),
      ck_type = OtherType, ck_origin = (\<lambda>x. x), ck_method = (\<lambda>_ _ _. None)\<rparr>"

definition demo_local_owner :: artifact_owner where
  "demo_local_owner = no_owner\<lparr>owner_source := Some demo_variable\<rparr>"

lemma demo_facts:
  "object_package (demo_type_name sc name) = Some demo_package" "object_parent (demo_type_name sc name) = Some sc"
  "object_name (demo_type_name sc name) = name"
  "ck_lookup demo_checker (LocalScope n) name = Some (demo_type_name (LocalScope n) name)"
  by (simp_all add: demo_type_name_def demo_checker_def)

lemma demo_owner_key:
  "lexicalArtifactOwnerKey demo_checker demo_local_owner (Some demo_package) = Inr (text_of [''p'', ''variable'', ''v''])"
  by (simp add: lexicalArtifactOwnerKey_def demo_local_owner_def owner_valid_defs owner_Package_def owner_Source_def
      demo_variable_def sourceArtifactOwnerKey_def packageMemberKey_def packageObjectIsExact_def demo_package_scope
      demo_checker_def then_text_def part_def demo_package_def packageScope_def)

lemma demo_paths:
  "lexicalScopePath demo_checker (Some (LocalScope 2)) (Some (packageScope demo_package)) = Some (Inr [0])"
  "lexicalScopePath demo_checker (Some (LocalScope 2)) (Some (LocalScope 2)) = Some (Inr [])"
  "lexicalScopePath demo_checker (Some (LocalScope 3)) (Some (LocalScope 2)) = Some (Inr [0])"
  by (simp_all add: lexicalScopePath_def climbScopes.simps demo_checker_def demo_package_scope)

lemma demo_lexical_key:
  "\<exists>k. LexicalNamedObjectKey demo_checker (Some (demo_type_name (LocalScope 2) name)) demo_local_owner (Some (LocalScope 2)) =
     Some (Inr k)"
  unfolding LexicalNamedObjectKey_def Let_def option.case prod.case demo_facts demo_owner_key demo_paths sum.case
  by (simp add: packageScope_def)

text \<open>
  A method of an interface literal has a receiver that is not a named type: the type assertion fails
  and the nil pointer it leaves is dereferenced.
\<close>

lemma interface_receiver_dereferences_nil:
  assumes "object_kind f = FuncObject r" "object_package f = Some p" "ck_origin ck f = f"
    "objectType ck f = Some (SignatureType (Some (InterfaceType ms methods)) v ps rs)"
  shows "sourceArtifactOwnerKey ck (Some f) = Inl NilDereference"
  using assms
  by (simp add: sourceArtifactOwnerKey_def sourceFunctionKey_def signatureReceiver_def sourceFunctionIsExact_def
      receiverTypeName_def then_text_def part_def)

text \<open>C27: Computing a scope path ends when every scope is deeper than its parent. It succeeds exactly when the root encloses the scope and is not the universe, or is the scope itself; and following the path down from the root leads back to the scope. The scopes are those of the type checker: a scope is a child of its parent, except that the universe, which has no parent, does not list the package scopes as its children.\<close>

theorem scope_path_exact:
  assumes "\<And>s p. ck_parent ck s = Some p \<Longrightarrow> depth p < (depth s :: nat)"
    and "\<And>s p. ck_parent ck s = Some p \<Longrightarrow> p \<noteq> UniverseScope \<Longrightarrow> s \<in> set (ck_children ck p)"
    and "ck_parent ck UniverseScope = None" "ck_children ck UniverseScope = []"
  shows "\<exists>res. lexicalScopePath ck (Some s) (Some t) = Some res \<and>
    ((\<exists>path. res = Inr path) \<longleftrightarrow> within ck s t \<and> (t \<noteq> UniverseScope \<or> s = t)) \<and>
    (\<forall>path. res = Inr path \<longrightarrow> descend_scopes ck t path = Some s)"
proof -
  obtain res where res: "lexicalScopePath ck (Some s) (Some t) = Some res"
    using climbScopes_ends [of ck depth "Some t" "Some s" "[]", OF assms(1)] unfolding lexicalScopePath_def by blast
  have inside: "within ck s t \<and> (t \<noteq> UniverseScope \<or> s = t)" if path: "res = Inr path" for path
  proof -
    have "descend_scopes ck t path = Some s" using lexicalScopePath_descend res path by blast
    then have "s = t" if "t = UniverseScope" using that assms(4) by (cases path) simp_all
    moreover have "within ck s t"
      using climbScopes_only_within [of ck "Some t" "Some s" "[]" res] res path by (simp add: lexicalScopePath_def)
    ultimately show ?thesis by blast
  qed
  have found: "\<exists>path. res = Inr path" if w: "within ck s t" "t \<noteq> UniverseScope \<or> s = t"
  proof (cases "s = t")
    case True
    then show ?thesis using res by (auto simp: lexicalScopePath_def climbScopes.simps)
  next
    case False
    then show ?thesis using climbScopes_within [OF assms(2,3) w(1), of "[]"] w(2) res by (auto simp: lexicalScopePath_def)
  qed
  have down: "descend_scopes ck t path = Some s" if "res = Inr path" for path
    using lexicalScopePath_descend res that by blast
  have "(\<exists>path. res = Inr path) \<longleftrightarrow> within ck s t \<and> (t \<noteq> UniverseScope \<or> s = t)"
    using inside found by (intro iffI) (elim exE, simp only:, elim conjE, simp only:)
  then show ?thesis using res down by (intro exI [of _ res]) simp
qed

theorem scope_path_exact_witness:
  "(\<exists>path. lexicalScopePath demo_checker (Some (LocalScope 3)) (Some (PackageScope 1)) = Some (Inr path) \<and>
     descend_scopes demo_checker (PackageScope 1) path = Some (LocalScope 3)) \<and>
   (\<exists>e. lexicalScopePath demo_checker (Some (LocalScope 3)) (Some UniverseScope) = Some (Inl e))"
proof -
  let ?rank = "\<lambda>s. case s of LocalScope n \<Rightarrow> n | PackageScope n \<Rightarrow> 1 | UniverseScope \<Rightarrow> 0"
  have parents: "ck_parent demo_checker (LocalScope 3) = Some (LocalScope 2)"
    "ck_parent demo_checker (LocalScope 2) = Some (PackageScope 1)"
    by (simp_all add: demo_checker_def)
  have w: "within demo_checker (LocalScope 3) (PackageScope 1)"
    by (rule within.parent [OF parents(1) within.parent [OF parents(2) within.here]])
  have rank: "?rank p < ?rank s" if "ck_parent demo_checker s = Some p" for s p
    using that by (auto simp: demo_checker_def split: if_splits)
  have tree: "s \<in> set (ck_children demo_checker p)" if "ck_parent demo_checker s = Some p" "p \<noteq> UniverseScope" for s p
    using that by (auto simp: demo_checker_def split: if_splits)
  have top: "ck_parent demo_checker UniverseScope = None" "ck_children demo_checker UniverseScope = []"
    by (simp_all add: demo_checker_def)
  note path = scope_path_exact [of demo_checker ?rank, OF rank tree top]
  obtain res where res: "lexicalScopePath demo_checker (Some (LocalScope 3)) (Some UniverseScope) = Some res"
    "\<not> (\<exists>path. res = Inr path)"
    using path [of "LocalScope 3" UniverseScope] by auto
  then obtain e where "res = Inl e" by (cases res) auto
  then show ?thesis using path [of "LocalScope 3" "PackageScope 1"] w res(1) by auto
qed

text \<open>C26: The key of a local type determines its declaration: two objects with the same key are the same,
  whatever the owners and roots given for them, when package paths tell packages apart.\<close>

theorem lexical_keys_distinct:
  assumes "LexicalNamedObjectKey ck (Some x) owner root = Some (Inr k)"
    and "LexicalNamedObjectKey ck (Some y) owner' root' = Some (Inr k)"
    and "\<And>p q. object_package x = Some p \<Longrightarrow> object_package y = Some q \<Longrightarrow> package_path p = package_path q \<Longrightarrow> p = q"
  shows "x = y"
proof -
  obtain p r s ownerKey rootPath objectPath where x: "object_package x = Some p" "object_parent x = Some s"
      "ck_lookup ck s (object_name x) = Some x" "lexicalArtifactOwnerKey ck owner (Some p) = Inr ownerKey"
      "descend_scopes ck (packageScope p) rootPath = Some r" "descend_scopes ck r objectPath = Some s"
      "k = appendPart ''lexical'' @ appendPart ownerKey @ appendScopePath rootPath @
         appendPart (object_name x) @ appendScopePath objectPath"
    using assms(1) by (rule LexicalNamedObjectKey_cases) auto
  obtain q r' s' ownerKey' rootPath' objectPath' where y: "object_package y = Some q" "object_parent y = Some s'"
      "ck_lookup ck s' (object_name y) = Some y" "lexicalArtifactOwnerKey ck owner' (Some q) = Inr ownerKey'"
      "descend_scopes ck (packageScope q) rootPath' = Some r'" "descend_scopes ck r' objectPath' = Some s'"
      "k = appendPart ''lexical'' @ appendPart ownerKey' @ appendScopePath rootPath' @
         appendPart (object_name y) @ appendScopePath objectPath'"
    using assms(2) by (rule LexicalNamedObjectKey_cases) auto
  have owner: "ownerKey = ownerKey'" and rest: "appendScopePath rootPath @ appendPart (object_name x) @ appendScopePath objectPath =
      appendScopePath rootPath' @ appendPart (object_name y) @ appendScopePath objectPath'"
    using x(7) y(7) by auto
  have root: "rootPath = rootPath'" and rest: "appendPart (object_name x) @ appendScopePath objectPath =
      appendPart (object_name y) @ appendScopePath objectPath'"
    using cut_scope_path [OF rest] by auto
  then have name: "object_name x = object_name y" and "objectPath = objectPath'"
    using cut_scope_path [of objectPath "[]" objectPath' "[]"] by auto
  obtain ps where ps: "is_source_parts p ps \<or> is_initializer_parts p ps" "ownerKey = text_of ps"
    using x(4) by (rule lexicalArtifactOwnerKey_parts)
  obtain ps' where ps': "is_source_parts q ps' \<or> is_initializer_parts q ps'" "ownerKey' = text_of ps'"
    using y(4) by (rule lexicalArtifactOwnerKey_parts)
  have "ps = ps'" using ps(2) ps'(2) owner parts.enc_list_inject [of ps ps'] by (simp add: list_all_iff)
  then have "p = q" using owner_key_package [OF ps(1)] ps'(1) assms(3) x(1) y(1) by blast
  then have "s = s'" using x(5,6) y(5,6) root \<open>objectPath = objectPath'\<close> by simp
  then have "ck_lookup ck s (object_name x) = Some y" using y(3) name by simp
  then have "Some x = Some y" by (rule trans [OF x(3) [symmetric]])
  then show ?thesis by simp
qed

theorem lexical_keys_distinct_witness:
  "LexicalNamedObjectKey demo_checker (Some (demo_type_name (LocalScope 2) ''T'')) demo_local_owner (Some (LocalScope 2)) \<noteq>
     LexicalNamedObjectKey demo_checker (Some (demo_type_name (LocalScope 3) ''T'')) demo_local_owner (Some (LocalScope 2))"
    (is "?x \<noteq> ?y")
proof
  assume eq: "?x = ?y"
  obtain k where k: "?x = Some (Inr k)" using demo_lexical_key [of "''T''"] by auto
  have "demo_type_name (LocalScope 2) ''T'' = demo_type_name (LocalScope 3) ''T''"
    by (rule lexical_keys_distinct [OF k trans [OF eq [symmetric] k]]) (simp add: demo_type_name_def)
  then show False by (simp add: demo_type_name_def)
qed

end
