(* ===== verification/TargetNumbers.thy ===== *)
theory TargetNumbers
  imports Complex_Main Prelude "HOL-Library.Log_Nat" "HOL-Library.Signed_Division"
begin

unbundle bit_operations_syntax

text \<open>
  The numbers of the generated TypeScript.  A JavaScript \<open>number\<close> is an IEEE binary64 value: a
  rational of the format, the negative zero, an infinity or NaN (\<open>js_number\<close>; the positive zero
  is \<open>Fin 0\<close>).  The arithmetic operators round the exact result to the nearest value, ties to
  even (\<open>to_double\<close>), and the bitwise operators work on the low 32 bits of the truncated value.

  The lemmas say when this arithmetic is exact: integers up to \<open>2 ^ 53\<close> are represented, and the
  truncated quotient of two integers of at most 32 bits is the integer quotient, although the
  quotient itself is rounded.
\<close>

subsection \<open>Rounding\<close>

definition trunc :: "rat \<Rightarrow> int" where
  "trunc x = (if x < 0 then ceiling x else floor x)"

definition round_even :: "rat \<Rightarrow> int" where
  "round_even x =
     (let f = floor x; d = x - of_int f in
      if d < 1 / 2 then f
      else if 1 / 2 < d then f + 1
      else if even f then f else f + 1)"

text \<open>The exponent of the binade of a positive rational: \<open>2 powi binade x \<le> x < 2 powi (binade x + 1)\<close>.\<close>

definition binade :: "rat \<Rightarrow> int" where
  "binade x =
     (let (a, b) = quotient_of x; k = bitlen a - bitlen b in
      if 2 powi k \<le> x then k else k - 1)"

definition unit_last_place :: "rat \<Rightarrow> rat" where
  "unit_last_place x = 2 powi max (- 1074) (binade \<bar>x\<bar> - 52)"

datatype js_number = Fin rat | NegZero | NaN | PosInf | NegInf

definition to_double :: "rat \<Rightarrow> js_number" where
  "to_double x =
     (if x = 0 then Fin 0
      else let u = unit_last_place x; r = of_int (round_even (x / u)) * u in
        if 2 ^ 1024 \<le> r then PosInf
        else if r \<le> - (2 ^ 1024) then NegInf
        else if r = 0 then (if x < 0 then NegZero else Fin 0)
        else Fin r)"

subsection \<open>Operators\<close>

fun fin_value :: "js_number \<Rightarrow> rat option" where
  "fin_value (Fin r) = Some r"
| "fin_value NegZero = Some 0"
| "fin_value _ = None"

fun sign_negative :: "js_number \<Rightarrow> bool" where
  "sign_negative (Fin r) = (r < 0)"
| "sign_negative NegZero = True"
| "sign_negative NegInf = True"
| "sign_negative _ = False"

definition signed_zero :: "bool \<Rightarrow> js_number" where
  "signed_zero negative = (if negative then NegZero else Fin 0)"

definition signed_inf :: "bool \<Rightarrow> js_number" where
  "signed_inf negative = (if negative then NegInf else PosInf)"

fun js_neg :: "js_number \<Rightarrow> js_number" where
  "js_neg (Fin r) = (if r = 0 then NegZero else Fin (- r))"
| "js_neg NegZero = Fin 0"
| "js_neg NaN = NaN"
| "js_neg PosInf = NegInf"
| "js_neg NegInf = PosInf"

definition js_add :: "js_number \<Rightarrow> js_number \<Rightarrow> js_number" where
  "js_add a b =
     (case (fin_value a, fin_value b) of
        (Some x, Some y) \<Rightarrow> if a = NegZero \<and> b = NegZero then NegZero else to_double (x + y)
      | (None, Some _) \<Rightarrow> a
      | (Some _, None) \<Rightarrow> b
      | (None, None) \<Rightarrow> if a = b then a else NaN)"

definition js_sub :: "js_number \<Rightarrow> js_number \<Rightarrow> js_number" where
  "js_sub a b = js_add a (js_neg b)"

definition js_mul :: "js_number \<Rightarrow> js_number \<Rightarrow> js_number" where
  "js_mul a b =
     (let s = (sign_negative a \<noteq> sign_negative b) in
      if a = NaN \<or> b = NaN then NaN
      else case (fin_value a, fin_value b) of
        (Some x, Some y) \<Rightarrow> if x * y = 0 then signed_zero s else to_double (x * y)
      | (None, Some y) \<Rightarrow> if y = 0 then NaN else signed_inf s
      | (Some x, None) \<Rightarrow> if x = 0 then NaN else signed_inf s
      | (None, None) \<Rightarrow> signed_inf s)"

definition js_div :: "js_number \<Rightarrow> js_number \<Rightarrow> js_number" where
  "js_div a b =
     (let s = (sign_negative a \<noteq> sign_negative b) in
      if a = NaN \<or> b = NaN then NaN
      else case (fin_value a, fin_value b) of
        (Some x, Some y) \<Rightarrow>
          if y = 0 then (if x = 0 then NaN else signed_inf s)
          else if x = 0 then signed_zero s
          else to_double (x / y)
      | (None, Some y) \<Rightarrow> signed_inf s
      | (Some x, None) \<Rightarrow> signed_zero s
      | (None, None) \<Rightarrow> NaN)"

definition js_rem :: "js_number \<Rightarrow> js_number \<Rightarrow> js_number" where
  "js_rem a b =
     (if a = NaN \<or> b = NaN then NaN
      else case (fin_value a, fin_value b) of
        (Some x, Some y) \<Rightarrow>
          if y = 0 then NaN
          else let r = x - y * of_int (trunc (x / y)) in
            if r = 0 then signed_zero (sign_negative a) else Fin r
      | (Some x, None) \<Rightarrow> a
      | (None, _) \<Rightarrow> NaN)"

fun js_trunc :: "js_number \<Rightarrow> js_number" where
  "js_trunc (Fin r) = (if trunc r = 0 then signed_zero (r < 0) else Fin (of_int (trunc r)))"
| "js_trunc a = a"

definition js_equal :: "js_number \<Rightarrow> js_number \<Rightarrow> bool" where
  "js_equal a b \<longleftrightarrow>
     a \<noteq> NaN \<and> b \<noteq> NaN \<and>
     (case (fin_value a, fin_value b) of (Some x, Some y) \<Rightarrow> x = y | _ \<Rightarrow> a = b)"

definition js_less :: "js_number \<Rightarrow> js_number \<Rightarrow> bool" where
  "js_less a b \<longleftrightarrow>
     a \<noteq> NaN \<and> b \<noteq> NaN \<and>
     (case (fin_value a, fin_value b) of
        (Some x, Some y) \<Rightarrow> x < y
      | _ \<Rightarrow> a \<noteq> b \<and> (a = NegInf \<or> b = PosInf))"

definition js_less_eq :: "js_number \<Rightarrow> js_number \<Rightarrow> bool" where
  "js_less_eq a b \<longleftrightarrow> js_less a b \<or> js_equal a b"

text \<open>The integer part used by the bitwise operators; infinities and NaN count as 0.\<close>

fun integer_part :: "js_number \<Rightarrow> int" where
  "integer_part (Fin r) = trunc r"
| "integer_part _ = 0"

definition to_int32 :: "js_number \<Rightarrow> int" where
  "to_int32 a = signed_take_bit 31 (integer_part a)"

definition to_uint32 :: "js_number \<Rightarrow> int" where
  "to_uint32 a = take_bit 32 (integer_part a)"

abbreviation int_number :: "int \<Rightarrow> js_number" where
  "int_number k \<equiv> Fin (of_int k)"

definition js_imul :: "js_number \<Rightarrow> js_number \<Rightarrow> js_number" where
  "js_imul a b = int_number (signed_take_bit 31 (to_uint32 a * to_uint32 b))"

definition shift_count :: "js_number \<Rightarrow> nat" where
  "shift_count b = nat (take_bit 5 (to_uint32 b))"

definition js_shl :: "js_number \<Rightarrow> js_number \<Rightarrow> js_number" where
  "js_shl a b = int_number (signed_take_bit 31 (push_bit (shift_count b) (to_int32 a)))"

definition js_shr :: "js_number \<Rightarrow> js_number \<Rightarrow> js_number" where
  "js_shr a b = int_number (drop_bit (shift_count b) (to_int32 a))"

definition js_ushr :: "js_number \<Rightarrow> js_number \<Rightarrow> js_number" where
  "js_ushr a b = int_number (drop_bit (shift_count b) (to_uint32 a))"

definition js_and :: "js_number \<Rightarrow> js_number \<Rightarrow> js_number" where
  "js_and a b = int_number (to_int32 a AND to_int32 b)"

definition js_or :: "js_number \<Rightarrow> js_number \<Rightarrow> js_number" where
  "js_or a b = int_number (to_int32 a OR to_int32 b)"

definition js_xor :: "js_number \<Rightarrow> js_number \<Rightarrow> js_number" where
  "js_xor a b = int_number (to_int32 a XOR to_int32 b)"

definition js_not :: "js_number \<Rightarrow> js_number" where
  "js_not a = int_number (NOT (to_int32 a))"

subsection \<open>Exact arithmetic\<close>

lemma bitlen_powi:
  assumes "0 < a"
  shows "2 powi (bitlen a - 1) \<le> (of_int a :: rat)" "(of_int a :: rat) < 2 powi bitlen a"
proof -
  have b: "2 ^ nat (bitlen a - 1) \<le> a" "a < 2 ^ nat (bitlen a)" using bitlen_bounds [of a] assms by auto
  have p: "1 \<le> bitlen a" using assms bitlen_le_iff_power [of a 0] by (auto simp: not_le [symmetric])
  have "of_int (2 ^ nat (bitlen a - 1)) \<le> (of_int a :: rat)" using b(1) by (simp only: of_int_le_iff)
  then show "2 powi (bitlen a - 1) \<le> (of_int a :: rat)" using p by (simp add: power_int_def)
  have "(of_int a :: rat) < of_int (2 ^ nat (bitlen a))" using b(2) by (simp only: of_int_less_iff)
  then show "(of_int a :: rat) < 2 powi bitlen a" using p by (simp add: power_int_def)
qed

lemma binade_bounds:
  assumes "0 < x"
  shows "2 powi binade x \<le> x" "x < 2 powi (binade x + 1)"
proof -
  obtain a b where q: "quotient_of x = (a, b)" by (metis surj_pair)
  have b: "0 < b" using quotient_of_denom_pos [OF q] .
  have x: "x = of_int a / of_int b" using quotient_of_div [OF q] .
  have a: "0 < a" using assms b unfolding x by (simp add: zero_less_divide_iff)
  define k where "k = bitlen a - bitlen b"
  note pa = bitlen_powi [OF a] and pb = bitlen_powi [OF b]
  have lower: "2 powi (k - 1) \<le> x"
  proof -
    have "(2 :: rat) powi (k - 1) * of_int b \<le> 2 powi (k - 1) * 2 powi bitlen b"
      using pb(2) by (intro mult_left_mono) auto
    also have "\<dots> = 2 powi (bitlen a - 1)" by (simp add: k_def power_int_add [symmetric])
    also have "\<dots> \<le> of_int a" by (rule pa(1))
    finally show ?thesis using b unfolding x by (simp add: pos_le_divide_eq)
  qed
  have upper: "x < 2 powi (k + 1)"
  proof -
    have "of_int a < (2 :: rat) powi bitlen a" by (rule pa(2))
    also have "\<dots> = 2 powi (k + 1) * 2 powi (bitlen b - 1)" by (simp add: k_def power_int_add [symmetric])
    also have "\<dots> \<le> 2 powi (k + 1) * of_int b" using pb(1) by (intro mult_left_mono) auto
    finally show ?thesis using b unfolding x by (simp add: pos_divide_less_eq)
  qed
  have "binade x = (if 2 powi k \<le> x then k else k - 1)" by (simp add: binade_def q k_def)
  then show "2 powi binade x \<le> x" "x < 2 powi (binade x + 1)" using lower upper by auto
qed

lemma round_even_of_int [simp]: "round_even (of_int k) = k"
  by (simp add: round_even_def)

lemma round_even_near: "\<bar>of_int (round_even x) - x\<bar> \<le> 1 / 2"
  using floor_correct [of x] by (auto simp: round_even_def Let_def)

lemma unit_last_place_pos [simp]: "0 < unit_last_place x"
  by (simp add: unit_last_place_def)

lemma unit_last_place_nonzero [simp]: "unit_last_place x \<noteq> 0"
  using unit_last_place_pos [of x] by (metis less_irrefl)

text \<open>The rounding error is at most half a unit in the last place.\<close>

definition rounded :: "rat \<Rightarrow> rat" where
  "rounded x = of_int (round_even (x / unit_last_place x)) * unit_last_place x"

lemma rounded_near: "\<bar>rounded x - x\<bar> \<le> unit_last_place x / 2"
proof -
  let ?u = "unit_last_place x"
  have "rounded x - x = (of_int (round_even (x / ?u)) - x / ?u) * ?u"
    using unit_last_place_pos [of x] by (simp add: rounded_def left_diff_distrib)
  then have "\<bar>rounded x - x\<bar> = \<bar>of_int (round_even (x / ?u)) - x / ?u\<bar> * ?u"
    by (simp add: abs_mult abs_of_pos [OF unit_last_place_pos])
  also have "\<dots> \<le> 1 / 2 * ?u" by (intro mult_right_mono round_even_near) (simp add: less_imp_le)
  finally show ?thesis by simp
qed

lemma to_double_rounded:
  assumes "x \<noteq> 0" "\<bar>rounded x\<bar> < 2 ^ 1024"
  shows "to_double x = (if rounded x = 0 then signed_zero (x < 0) else Fin (rounded x))"
  using assms by (auto simp: to_double_def Let_def rounded_def [symmetric] signed_zero_def abs_if split: if_splits)

lemma to_double_of_int:
  assumes "\<bar>k\<bar> \<le> 2 ^ 53"
  shows "to_double (of_int k) = int_number k"
proof (cases "k = 0")
  case False
  let ?x = "of_int k :: rat" and ?u = "unit_last_place (of_int k)"
  have b: "2 powi binade \<bar>?x\<bar> \<le> \<bar>?x\<bar>" using binade_bounds(1) [of "\<bar>?x\<bar>"] False by simp
  have k53: "\<bar>?x\<bar> \<le> 2 ^ 53" using assms by (metis of_int_abs of_int_le_numeral_power_cancel_iff)
  have "2 powi binade \<bar>?x\<bar> \<le> (2 :: rat) powi 53" using b k53 by simp
  then have e: "binade \<bar>?x\<bar> \<le> 53" by (meson not_le one_less_numeral_iff power_int_strict_increasing semiring_norm(76))
  have "\<exists>z. ?x / ?u = of_int z"
  proof (cases "binade \<bar>?x\<bar> \<le> 52")
    case True
    define n where "n = nat (- max (- 1074) (binade \<bar>?x\<bar> - 52))"
    have "max (- 1074) (binade \<bar>?x\<bar> - 52) = - int n" using True by (simp add: n_def)
    then have "?u = inverse (2 ^ n)" by (simp add: unit_last_place_def power_int_minus)
    then have "?x / ?u = of_int (k * 2 ^ n)" by (simp add: divide_inverse)
    then show ?thesis by blast
  next
    case False
    then have "binade \<bar>?x\<bar> = 53" using e by simp
    then have "2 ^ 53 \<le> \<bar>?x\<bar>" "?u = 2" using b by (simp_all add: unit_last_place_def)
    then have "\<bar>?x\<bar> = 2 ^ 53" using k53 by simp
    then have "?x = 2 ^ 53 \<or> ?x = - (2 ^ 53)" by (simp add: abs_if split: if_splits)
    then have "?x / ?u = of_int (2 ^ 52) \<or> ?x / ?u = of_int (- (2 ^ 52))" using \<open>?u = 2\<close> by auto
    then show ?thesis by blast
  qed
  then obtain z where z: "?x / ?u = of_int z" ..
  have r: "rounded ?x = ?x"
    using z by (simp add: rounded_def) (metis nonzero_divide_eq_eq unit_last_place_nonzero)
  have "(2 :: rat) ^ 53 < 2 ^ 1024" by (rule power_strict_increasing) auto
  then have "\<bar>?x\<bar> < 2 ^ 1024" using k53 by simp
  then show ?thesis using to_double_rounded [of ?x] False r by simp
qed (simp add: to_double_def)

text \<open>Numbers of a moderate size are rounded to numbers, never to infinities.\<close>

lemma unit_last_place_relative:
  assumes "2 powi (- 1000) \<le> \<bar>x\<bar>"
  shows "unit_last_place x / 2 \<le> \<bar>x\<bar> / 2 ^ 53"
proof -
  have pos: "0 < \<bar>x\<bar>" using assms by (rule less_le_trans [rotated]) simp
  note b = binade_bounds [OF pos]
  have "(2 :: rat) powi (- 1000) < 2 powi (binade \<bar>x\<bar> + 1)" using assms b(2) by linarith
  then have "- 1000 < binade \<bar>x\<bar> + 1" by (meson not_less one_le_numeral power_int_increasing)
  then have "unit_last_place x = 2 powi (binade \<bar>x\<bar> - 52)" by (simp add: unit_last_place_def)
  also have "\<dots> = 2 powi binade \<bar>x\<bar> / 2 ^ 52" by (simp add: power_int_diff)
  finally show ?thesis using b(1) by simp
qed

lemma to_double_cases:
  assumes "2 powi (- 1000) \<le> \<bar>x\<bar>" "\<bar>x\<bar> \<le> 2 ^ 1000"
  shows "\<exists>y. fin_value (to_double x) = Some y \<and> \<bar>y - x\<bar> \<le> \<bar>x\<bar> / 2 ^ 53"
proof -
  have near: "\<bar>rounded x - x\<bar> \<le> \<bar>x\<bar> / 2 ^ 53"
    using rounded_near [of x] unit_last_place_relative [OF assms(1)] by linarith
  have "\<bar>x\<bar> / 2 ^ 53 \<le> \<bar>x\<bar>" by (simp add: divide_le_eq mult_le_cancel_left1)
  then have "\<bar>rounded x\<bar> \<le> 2 * \<bar>x\<bar>" using near by linarith
  also have "\<dots> \<le> 2 ^ 1001" using assms(2) by simp
  also have "\<dots> < 2 ^ 1024" by (rule power_strict_increasing) auto
  finally have bound: "\<bar>rounded x\<bar> < 2 ^ 1024" .
  have "x \<noteq> 0" using assms(1) by auto
  then show ?thesis using to_double_rounded [OF _ bound] near by (auto simp: signed_zero_def)
qed

lemma trunc_of_int [simp]: "trunc (of_int k) = k"
  by (simp add: trunc_def)

lemma trunc_numeral [simp]: "trunc 0 = 0" "trunc 1 = 1" "trunc (numeral n) = numeral n"
  by (simp_all add: trunc_def)

lemma trunc_quotient:
  assumes "r \<noteq> 0"
  shows "trunc (of_int l / of_int r) = l sdiv r"
proof -
  have d: "floor (of_int a / of_int b :: rat) = a div b" for a b by (rule floor_divide_of_int_eq)
  have c: "ceiling (of_int a / of_int b :: rat) = - (- a div b)" for a b
    using d [of "- a" b] by (simp add: ceiling_def)
  have "(of_int l / of_int r :: rat) < 0 \<longleftrightarrow> sgn l * sgn r < 0"
    using assms by (auto simp: divide_less_0_iff sgn_if)
  then show ?thesis using assms
    by (auto simp: trunc_def signed_divide_int_def d c sgn_if div_minus_right split: if_splits)
qed

text \<open>A quotient that is not an integer keeps a distance of \<open>1 / \<bar>r\<bar>\<close> from every integer.\<close>

lemma quotient_gap:
  fixes l r z :: int
  assumes "r \<noteq> 0" "\<not> r dvd l"
  shows "1 / \<bar>of_int r\<bar> \<le> \<bar>of_int l / of_int r - (of_int z :: rat)\<bar>"
proof -
  have "l \<noteq> z * r" using assms(2) by auto
  then have "1 \<le> \<bar>l - z * r\<bar>" by linarith
  then have "(of_int 1 :: rat) \<le> of_int \<bar>l - z * r\<bar>" by (simp only: of_int_le_iff)
  then have "1 \<le> \<bar>of_int l - of_int z * of_int r :: rat\<bar>" by simp
  also have "of_int l - of_int z * of_int r = (of_int l / of_int r - of_int z) * (of_int r :: rat)"
    using assms(1) by (simp add: field_simps)
  finally show ?thesis using assms(1) by (simp add: abs_mult pos_divide_le_eq)
qed

lemma trunc_near:
  assumes gap: "\<And>z. e \<le> \<bar>x - of_int z\<bar>" and near: "\<bar>y - x\<bar> < e"
  shows "trunc y = trunc x"
proof -
  have f: "floor y = floor x"
  proof (rule floor_unique)
    show "of_int (floor x) \<le> y" using gap [of "floor x"] near floor_correct [of x] by linarith
    show "y < of_int (floor x) + 1" using gap [of "floor x + 1"] near floor_correct [of x] by simp
  qed
  have c: "ceiling y = ceiling x"
  proof (rule ceiling_unique)
    show "of_int (ceiling x) - 1 < y" using gap [of "ceiling x - 1"] near ceiling_correct [of x] by simp
    show "y \<le> of_int (ceiling x)" using gap [of "ceiling x"] near ceiling_correct [of x] by linarith
  qed
  have "y < 0 \<longleftrightarrow> x < 0" using gap [of 0] near by auto
  then show ?thesis using f c by (simp add: trunc_def)
qed

lemma fin_value_js_trunc [simp]:
  "fin_value (js_trunc a) = map_option (\<lambda>r. of_int (trunc r)) (fin_value a)"
  by (cases a) (auto simp: signed_zero_def)

lemma abs_of_int_ge_1: "k \<noteq> 0 \<Longrightarrow> 1 \<le> \<bar>of_int k :: rat\<bar>"
proof -
  assume "k \<noteq> 0"
  then have "1 \<le> \<bar>k\<bar>" by linarith
  then have "(of_int 1 :: rat) \<le> of_int \<bar>k\<bar>" by (simp only: of_int_le_iff)
  then show ?thesis by simp
qed

text \<open>The truncated binary64 quotient of integers of at most 32 bits is the integer quotient.\<close>

lemma js_trunc_quotient:
  fixes l r :: int
  assumes "\<bar>l\<bar> \<le> 2 ^ 32" "\<bar>r\<bar> \<le> 2 ^ 32" "r \<noteq> 0"
  shows "fin_value (js_trunc (js_div (int_number l) (int_number r))) = Some (of_int (l sdiv r))"
proof (cases "r dvd l")
  case True
  then obtain q where q: "l = r * q" by (rule dvdE)
  have "\<bar>q\<bar> \<le> \<bar>l\<bar>" using assms(3) mult_right_mono [of 1 "\<bar>r\<bar>" "\<bar>q\<bar>"]
    unfolding q by (simp add: abs_mult)
  then have "\<bar>q\<bar> \<le> 2 ^ 53" using assms(1) by simp
  then have d: "to_double (of_int l / of_int r) = int_number q"
    using to_double_of_int [of q] assms(3) by (simp add: q)
  have "l sdiv r = q" using trunc_quotient [OF assms(3), of l] assms(3) by (simp add: q)
  then show ?thesis using d assms(3) by (auto simp: js_div_def signed_zero_def q)
next
  case False
  define x where "x = (of_int l / of_int r :: rat)"
  have l0: "l \<noteq> 0" using False by auto
  have ar: "0 < \<bar>of_int r :: rat\<bar>" using assms(3) by simp
  have r32: "\<bar>of_int r :: rat\<bar> \<le> 2 ^ 32" and l32: "\<bar>of_int l :: rat\<bar> \<le> 2 ^ 32"
    using assms(1,2) by (metis of_int_abs of_int_le_numeral_power_cancel_iff)+
  note l1 = abs_of_int_ge_1 [OF l0] and r1 = abs_of_int_ge_1 [OF assms(3)]
  have ax: "\<bar>x\<bar> = \<bar>of_int l\<bar> / \<bar>of_int r\<bar>" by (simp add: x_def)
  have "(2 :: rat) powi (- 1000) \<le> 2 powi (- 32)" by (rule power_int_increasing) auto
  also have "\<dots> = 1 / 2 ^ 32" by (simp add: power_int_minus)
  also have "\<dots> \<le> 1 / \<bar>of_int r\<bar>" using r32 ar by (intro divide_left_mono) auto
  also have "\<dots> \<le> \<bar>x\<bar>" unfolding ax using l1 ar by (intro divide_right_mono) auto
  finally have low: "2 powi (- 1000) \<le> \<bar>x\<bar>" .
  have "\<bar>x\<bar> \<le> \<bar>of_int l\<bar> / 1" unfolding ax using r1 by (intro divide_left_mono) auto
  also have "\<dots> \<le> 2 ^ 32" using l32 by simp
  also have "\<dots> \<le> (2 :: rat) ^ 1000" by (rule power_increasing) auto
  finally have high: "\<bar>x\<bar> \<le> 2 ^ 1000" .
  obtain y where y: "fin_value (to_double x) = Some y" "\<bar>y - x\<bar> \<le> \<bar>x\<bar> / 2 ^ 53"
    using to_double_cases [OF low high] by blast
  have "\<bar>x\<bar> / 2 ^ 53 \<le> (2 ^ 32 / \<bar>of_int r\<bar>) / 2 ^ 53"
    unfolding ax using l32 ar by (intro divide_right_mono) auto
  also have "\<dots> < 1 / \<bar>of_int r\<bar>" using ar by (simp add: field_simps)
  finally have near: "\<bar>y - x\<bar> < 1 / \<bar>of_int r\<bar>" using y(2) by linarith
  have "trunc y = trunc x"
    using quotient_gap [OF assms(3) False] near unfolding x_def by (rule trunc_near)
  then have "trunc y = l sdiv r" using trunc_quotient [OF assms(3)] by (simp add: x_def)
  then show ?thesis using y(1) assms(3) l0 by (simp add: js_div_def x_def)
qed

subsection \<open>Operators on integers\<close>

lemma integer_part_fin_value: "fin_value a = Some r \<Longrightarrow> integer_part a = trunc r"
  by (cases a) auto

lemma js_add_int: "\<bar>k + l\<bar> \<le> 2 ^ 53 \<Longrightarrow> js_add (int_number k) (int_number l) = int_number (k + l)"
  using to_double_of_int [of "k + l"] by (simp add: js_add_def)

lemma js_neg_int: "js_neg (int_number k) = (if k = 0 then NegZero else int_number (- k))"
  by simp

lemma js_sub_int: "\<bar>k - l\<bar> \<le> 2 ^ 53 \<Longrightarrow> js_sub (int_number k) (int_number l) = int_number (k - l)"
  using js_add_int [of k "- l"] to_double_of_int [of k] by (auto simp: js_sub_def js_add_def)

lemma js_mul_int:
  "\<bar>k * l\<bar> \<le> 2 ^ 53 \<Longrightarrow> fin_value (js_mul (int_number k) (int_number l)) = Some (of_int (k * l))"
  using to_double_of_int [of "k * l"] by (auto simp: js_mul_def signed_zero_def Let_def)

lemma js_rem_int:
  assumes "r \<noteq> 0"
  shows "fin_value (js_rem (int_number l) (int_number r)) = Some (of_int (l smod r))"
proof -
  have "l smod r = l - r * (l sdiv r)" by (rule minus_mult_sdiv_eq_smod [symmetric])
  then show ?thesis using assms trunc_quotient [OF assms, of l] by (auto simp: js_rem_def signed_zero_def Let_def)
qed

lemma shift_count_int: "0 \<le> c \<Longrightarrow> c < 32 \<Longrightarrow> shift_count (int_number c) = nat c"
  by (simp add: shift_count_def to_uint32_def take_bit_int_eq_self)

lemma to_int32_int [simp]: "to_int32 (int_number k) = signed_take_bit 31 k"
  by (simp add: to_int32_def)

lemma to_uint32_int [simp]: "to_uint32 (int_number k) = take_bit 32 k"
  by (simp add: to_uint32_def)

lemma js_equal_int [simp]: "js_equal (int_number k) (int_number l) \<longleftrightarrow> k = l"
  by (simp add: js_equal_def)

lemma js_less_int [simp]: "js_less (int_number k) (int_number l) \<longleftrightarrow> k < l"
  by (simp add: js_less_def)

lemma js_less_eq_int [simp]: "js_less_eq (int_number k) (int_number l) \<longleftrightarrow> k \<le> l"
  by (auto simp: js_less_eq_def)

lemma js_equal_zero: "fin_value a = Some r \<Longrightarrow> js_equal a (Fin 0) \<longleftrightarrow> r = 0"
  by (cases a) (auto simp: js_equal_def)

end
