(* ===== verification/TargetProgram.thy ===== *)
theory TargetProgram
  imports TargetNumbers
begin

text \<open>
  The part of the generated TypeScript that the emitters modelled here build, and what it means.

  \<open>ts_expression\<close>, \<open>ts_statement\<close> and \<open>ts_function\<close> are the nodes the factory
  (\<open>internal/target/tsgo\<close>) makes, without the arguments that are always empty (question tokens,
  type arguments, node flags) and with a block as its list of statements.  A variable statement
  declares one variable.

  \<open>eval\<close> and \<open>exec\<close> are their JavaScript semantics: operands from left to right, an exception ends
  the evaluation, and calls may change a state of type \<open>'w\<close>, so that the order and the number of
  evaluations of an operand are visible.  The meaning of calling a value is an argument
  (\<open>caller\<close>): \<open>call_global\<close> has the intrinsics and the panic of the runtime package,
  \<open>call_target\<close> adds the functions of the generated runtime modules.
\<close>

subsection \<open>Syntax\<close>

datatype binary_operator =
    PlusToken | MinusToken | AsteriskToken | SlashToken | PercentToken
  | AmpersandToken | BarToken | CaretToken
  | LessThanLessThanToken | GreaterThanGreaterThanToken | GreaterThanGreaterThanGreaterThanToken
  | EqualsEqualsEqualsToken | ExclamationEqualsEqualsToken
  | LessThanToken | LessThanEqualsToken | GreaterThanToken | GreaterThanEqualsToken

datatype prefix_operator = PlusPrefix | MinusPrefix | TildePrefix | ExclamationPrefix

datatype ts_expression =
    NumericLiteral string
  | BigIntLiteral string
  | StringLiteral string
  | Identifier string
  | PropertyAccessExpression ts_expression string
  | CallExpression ts_expression "ts_expression list"
  | BinaryExpression ts_expression binary_operator ts_expression
  | PrefixUnaryExpression prefix_operator ts_expression
  | ConditionalExpression ts_expression ts_expression ts_expression

datatype ts_type = BooleanKeyword | StringKeyword | NumberKeyword | BigIntKeyword

datatype variable_flags = NodeFlagsConst | NodeFlagsLet

datatype ts_statement =
    VariableStatement variable_flags string "ts_type option" ts_expression
  | ExpressionStatement ts_expression
  | IfStatement ts_expression "ts_statement list"
  | ReturnStatement ts_expression

datatype ts_function =
  FunctionDeclaration string "(string \<times> ts_type) list" ts_type "ts_statement list"

subsection \<open>Values\<close>

datatype js_value =
    JNumber js_number
  | JBigInt int
  | JBoolean bool
  | JString string
  | JUndefined
  | JGlobal "string list"
  | JPanicClass
  | JPanicRaise
  | JFunction ts_function
  | JHost string

datatype js_error =
    GoPanic string
  | JsTypeError
  | JsRangeError
  | JsSyntaxError
  | JsReferenceError string

type_synonym js_env = "string \<Rightarrow> js_value option"
type_synonym ('w, 'a) js_result = "(js_error + 'a) \<times> 'w"
type_synonym 'w caller = "js_value \<Rightarrow> js_value list \<Rightarrow> 'w \<Rightarrow> ('w, js_value) js_result"

definition js_bind ::
    "('w, 'a) js_result \<Rightarrow> ('a \<Rightarrow> 'w \<Rightarrow> ('w, 'b) js_result) \<Rightarrow> ('w, 'b) js_result" where
  "js_bind r f = (case r of (Inl e, w) \<Rightarrow> (Inl e, w) | (Inr x, w) \<Rightarrow> f x w)"

lemma js_bind_simps [simp]:
  "js_bind (Inl e, w) f = (Inl e, w)"
  "js_bind (Inr x, w) f = f x w"
  by (simp_all add: js_bind_def)

abbreviation int_value :: "int \<Rightarrow> js_value" where
  "int_value k \<equiv> JNumber (int_number k)"

fun truthy :: "js_value \<Rightarrow> bool" where
  "truthy (JNumber a) = (a \<noteq> NaN \<and> fin_value a \<noteq> Some 0)"
| "truthy (JBigInt k) = (k \<noteq> 0)"
| "truthy (JBoolean b) = b"
| "truthy (JString s) = (s \<noteq> [])"
| "truthy JUndefined = False"
| "truthy _ = True"

subsection \<open>Operators\<close>

fun number_operator :: "binary_operator \<Rightarrow> js_number \<Rightarrow> js_number \<Rightarrow> js_value" where
  "number_operator PlusToken a b = JNumber (js_add a b)"
| "number_operator MinusToken a b = JNumber (js_sub a b)"
| "number_operator AsteriskToken a b = JNumber (js_mul a b)"
| "number_operator SlashToken a b = JNumber (js_div a b)"
| "number_operator PercentToken a b = JNumber (js_rem a b)"
| "number_operator AmpersandToken a b = JNumber (js_and a b)"
| "number_operator BarToken a b = JNumber (js_or a b)"
| "number_operator CaretToken a b = JNumber (js_xor a b)"
| "number_operator LessThanLessThanToken a b = JNumber (js_shl a b)"
| "number_operator GreaterThanGreaterThanToken a b = JNumber (js_shr a b)"
| "number_operator GreaterThanGreaterThanGreaterThanToken a b = JNumber (js_ushr a b)"
| "number_operator EqualsEqualsEqualsToken a b = JBoolean (js_equal a b)"
| "number_operator ExclamationEqualsEqualsToken a b = JBoolean (\<not> js_equal a b)"
| "number_operator LessThanToken a b = JBoolean (js_less a b)"
| "number_operator LessThanEqualsToken a b = JBoolean (js_less_eq a b)"
| "number_operator GreaterThanToken a b = JBoolean (js_less b a)"
| "number_operator GreaterThanEqualsToken a b = JBoolean (js_less_eq b a)"

definition bigint_shift :: "int \<Rightarrow> int \<Rightarrow> int" where
  "bigint_shift a c = (if 0 \<le> c then push_bit (nat c) a else drop_bit (nat (- c)) a)"

fun bigint_operator :: "binary_operator \<Rightarrow> int \<Rightarrow> int \<Rightarrow> js_error + js_value" where
  "bigint_operator PlusToken a b = Inr (JBigInt (a + b))"
| "bigint_operator MinusToken a b = Inr (JBigInt (a - b))"
| "bigint_operator AsteriskToken a b = Inr (JBigInt (a * b))"
| "bigint_operator SlashToken a b = (if b = 0 then Inl JsRangeError else Inr (JBigInt (a sdiv b)))"
| "bigint_operator PercentToken a b = (if b = 0 then Inl JsRangeError else Inr (JBigInt (a smod b)))"
| "bigint_operator AmpersandToken a b = Inr (JBigInt (a AND b))"
| "bigint_operator BarToken a b = Inr (JBigInt (a OR b))"
| "bigint_operator CaretToken a b = Inr (JBigInt (a XOR b))"
| "bigint_operator LessThanLessThanToken a b = Inr (JBigInt (bigint_shift a b))"
| "bigint_operator GreaterThanGreaterThanToken a b = Inr (JBigInt (bigint_shift a (- b)))"
| "bigint_operator GreaterThanGreaterThanGreaterThanToken a b = Inl JsTypeError"
| "bigint_operator EqualsEqualsEqualsToken a b = Inr (JBoolean (a = b))"
| "bigint_operator ExclamationEqualsEqualsToken a b = Inr (JBoolean (a \<noteq> b))"
| "bigint_operator LessThanToken a b = Inr (JBoolean (a < b))"
| "bigint_operator LessThanEqualsToken a b = Inr (JBoolean (a \<le> b))"
| "bigint_operator GreaterThanToken a b = Inr (JBoolean (a > b))"
| "bigint_operator GreaterThanEqualsToken a b = Inr (JBoolean (a \<ge> b))"

definition relational :: "binary_operator \<Rightarrow> bool" where
  "relational op \<longleftrightarrow> op \<in> {LessThanToken, LessThanEqualsToken, GreaterThanToken, GreaterThanEqualsToken}"

text \<open>
  A \<open>bigint\<close> and a \<open>number\<close> can be compared, but every other operator on the two throws.  Strict
  equality compares values of different types as unequal.  The coercions of the other operators on
  strings, booleans and objects are not part of the model: they throw as well.
\<close>

definition binary_result :: "binary_operator \<Rightarrow> js_value \<Rightarrow> js_value \<Rightarrow> js_error + js_value" where
  "binary_result op u v =
     (case (u, v) of
        (JNumber a, JNumber b) \<Rightarrow> Inr (number_operator op a b)
      | (JBigInt a, JBigInt b) \<Rightarrow> bigint_operator op a b
      | _ \<Rightarrow>
          if op = EqualsEqualsEqualsToken then Inr (JBoolean (u = v))
          else if op = ExclamationEqualsEqualsToken then Inr (JBoolean (u \<noteq> v))
          else if relational op then
            (case (u, v) of
               (JNumber a, JBigInt b) \<Rightarrow> Inr (number_operator op a (int_number b))
             | (JBigInt a, JNumber b) \<Rightarrow> Inr (number_operator op (int_number a) b)
             | _ \<Rightarrow> Inl JsTypeError)
          else Inl JsTypeError)"

lemma binary_result_simps [simp]:
  "binary_result op (JNumber a) (JNumber b) = Inr (number_operator op a b)"
  "binary_result op (JBigInt k) (JBigInt l) = bigint_operator op k l"
  by (simp_all add: binary_result_def)

fun prefix_result :: "prefix_operator \<Rightarrow> js_value \<Rightarrow> js_error + js_value" where
  "prefix_result PlusPrefix (JNumber a) = Inr (JNumber a)"
| "prefix_result MinusPrefix (JNumber a) = Inr (JNumber (js_neg a))"
| "prefix_result MinusPrefix (JBigInt k) = Inr (JBigInt (- k))"
| "prefix_result TildePrefix (JNumber a) = Inr (JNumber (js_not a))"
| "prefix_result TildePrefix (JBigInt k) = Inr (JBigInt (NOT k))"
| "prefix_result ExclamationPrefix v = Inr (JBoolean (\<not> truthy v))"
| "prefix_result _ _ = Inl JsTypeError"

subsection \<open>Calls\<close>

definition as_int_n :: "nat \<Rightarrow> int \<Rightarrow> int" where
  "as_int_n w k = (if w = 0 then 0 else signed_take_bit (w - 1) k)"

definition as_uint_n :: "nat \<Rightarrow> int \<Rightarrow> int" where
  "as_uint_n w k = take_bit w k"

fun to_bigint :: "js_value \<Rightarrow> js_error + js_value" where
  "to_bigint (JNumber a) =
     (case fin_value a of
        Some r \<Rightarrow> if r = of_int (trunc r) then Inr (JBigInt (trunc r)) else Inl JsRangeError
      | None \<Rightarrow> Inl JsRangeError)"
| "to_bigint (JBigInt k) = Inr (JBigInt k)"
| "to_bigint _ = Inl JsTypeError"

fun to_number :: "js_value \<Rightarrow> js_error + js_value" where
  "to_number (JNumber a) = Inr (JNumber a)"
| "to_number (JBigInt k) = Inr (JNumber (to_double (of_int k)))"
| "to_number _ = Inl JsTypeError"

text \<open>The intrinsics by their path below the global object.\<close>

definition intrinsic :: "string list \<Rightarrow> js_value list \<Rightarrow> js_error + js_value" where
  "intrinsic path arguments =
     (if path = [''Number''] then (case arguments of [v] \<Rightarrow> to_number v | _ \<Rightarrow> Inl JsTypeError)
      else if path = [''BigInt''] then (case arguments of [v] \<Rightarrow> to_bigint v | _ \<Rightarrow> Inl JsTypeError)
      else if path = [''BigInt'', ''asIntN''] then
        (case arguments of
           [JNumber w, JBigInt k] \<Rightarrow> Inr (JBigInt (as_int_n (nat (integer_part w)) k))
         | _ \<Rightarrow> Inl JsTypeError)
      else if path = [''BigInt'', ''asUintN''] then
        (case arguments of
           [JNumber w, JBigInt k] \<Rightarrow> Inr (JBigInt (as_uint_n (nat (integer_part w)) k))
         | _ \<Rightarrow> Inl JsTypeError)
      else if path = [''Math'', ''trunc''] then
        (case arguments of [JNumber a] \<Rightarrow> Inr (JNumber (js_trunc a)) | _ \<Rightarrow> Inl JsTypeError)
      else if path = [''Math'', ''imul''] then
        (case arguments of [JNumber a, JNumber b] \<Rightarrow> Inr (JNumber (js_imul a b)) | _ \<Rightarrow> Inl JsTypeError)
      else if path = [''Number'', ''isFinite''] then
        (case arguments of [JNumber a] \<Rightarrow> Inr (JBoolean (fin_value a \<noteq> None)) | _ \<Rightarrow> Inr (JBoolean False))
      else Inl JsTypeError)"

text \<open>
  The panic class of the runtime raises a Go panic when its \<open>raiseRuntime\<close> is called; a host
  function is any other function of the program, given by its effect on the state.
\<close>

fun call_global ::
    "(string \<Rightarrow> js_value list \<Rightarrow> 'w \<Rightarrow> ('w, js_value) js_result) \<Rightarrow> 'w caller" where
  "call_global host (JGlobal path) arguments w = (intrinsic path arguments, w)"
| "call_global host JPanicRaise [JString message] w = (Inl (GoPanic message), w)"
| "call_global host (JHost name) arguments w = host name arguments w"
| "call_global host _ _ w = (Inl JsTypeError, w)"

fun property_of :: "js_value \<Rightarrow> string \<Rightarrow> js_error + js_value" where
  "property_of (JGlobal path) m = Inr (JGlobal (path @ [m]))"
| "property_of JPanicClass m = Inr (if m = ''raiseRuntime'' then JPanicRaise else JUndefined)"
| "property_of JUndefined m = Inl JsTypeError"
| "property_of _ m = Inr JUndefined"

subsection \<open>Evaluation\<close>

definition numeric_literal :: "string \<Rightarrow> js_error + js_value" where
  "numeric_literal s =
     (if s \<noteq> [] \<and> list_all is_digit s then Inr (JNumber (to_double (of_nat (atoi s))))
      else Inl JsSyntaxError)"

definition bigint_literal :: "string \<Rightarrow> js_error + js_value" where
  "bigint_literal s =
     (if 2 \<le> length s \<and> last s = CHR ''n'' \<and> list_all is_digit (butlast s)
      then Inr (JBigInt (of_nat (atoi (butlast s)))) else Inl JsSyntaxError)"

fun eval :: "'w caller \<Rightarrow> js_env \<Rightarrow> ts_expression \<Rightarrow> 'w \<Rightarrow> ('w, js_value) js_result"
  and evals :: "'w caller \<Rightarrow> js_env \<Rightarrow> ts_expression list \<Rightarrow> 'w \<Rightarrow> ('w, js_value list) js_result" where
  "eval call env (NumericLiteral s) w = (numeric_literal s, w)"
| "eval call env (BigIntLiteral s) w = (bigint_literal s, w)"
| "eval call env (StringLiteral s) w = (Inr (JString s), w)"
| "eval call env (Identifier x) w =
     (case env x of Some v \<Rightarrow> (Inr v, w) | None \<Rightarrow> (Inl (JsReferenceError x), w))"
| "eval call env (PropertyAccessExpression e m) w =
     js_bind (eval call env e w) (\<lambda>v w'. (property_of v m, w'))"
| "eval call env (CallExpression f arguments) w =
     js_bind (eval call env f w) (\<lambda>v w'.
     js_bind (evals call env arguments w') (\<lambda>vs w''. call v vs w''))"
| "eval call env (BinaryExpression l op r) w =
     js_bind (eval call env l w) (\<lambda>u w'.
     js_bind (eval call env r w') (\<lambda>v w''. (binary_result op u v, w'')))"
| "eval call env (PrefixUnaryExpression op e) w =
     js_bind (eval call env e w) (\<lambda>v w'. (prefix_result op v, w'))"
| "eval call env (ConditionalExpression c t e) w =
     js_bind (eval call env c w) (\<lambda>v w'. if truthy v then eval call env t w' else eval call env e w')"
| "evals call env [] w = (Inr [], w)"
| "evals call env (e # es) w =
     js_bind (eval call env e w) (\<lambda>v w'.
     js_bind (evals call env es w') (\<lambda>vs w''. (Inr (v # vs), w'')))"

datatype completion = Normal js_env | Returned js_value

fun exec :: "'w caller \<Rightarrow> js_env \<Rightarrow> ts_statement list \<Rightarrow> 'w \<Rightarrow> ('w, completion) js_result" where
  "exec call env [] w = (Inr (Normal env), w)"
| "exec call env (VariableStatement _ x _ e # rest) w =
     js_bind (eval call env e w) (\<lambda>v w'. exec call (env(x \<mapsto> v)) rest w')"
| "exec call env (ExpressionStatement e # rest) w =
     js_bind (eval call env e w) (\<lambda>_ w'. exec call env rest w')"
| "exec call env (IfStatement b body # rest) w =
     js_bind (eval call env b w) (\<lambda>v w'.
       if truthy v then
         js_bind (exec call env body w') (\<lambda>c w''.
           case c of Returned u \<Rightarrow> (Inr (Returned u), w'') | Normal _ \<Rightarrow> exec call env rest w'')
       else exec call env rest w')"
| "exec call env (ReturnStatement e # rest) w =
     js_bind (eval call env e w) (\<lambda>v w'. (Inr (Returned v), w'))"

text \<open>A call of a declared function, whose free names are those of its module.\<close>

fun run_function ::
    "'w caller \<Rightarrow> js_env \<Rightarrow> ts_function \<Rightarrow> js_value list \<Rightarrow> 'w \<Rightarrow> ('w, js_value) js_result" where
  "run_function call env (FunctionDeclaration _ parameters _ body) arguments w =
     js_bind (exec call (env ++ map_of (zip (List.map fst parameters) arguments)) body w) (\<lambda>c w'.
       (Inr (case c of Returned v \<Rightarrow> v | Normal _ \<Rightarrow> JUndefined), w'))"

definition call_target ::
    "js_env \<Rightarrow> (string \<Rightarrow> js_value list \<Rightarrow> 'w \<Rightarrow> ('w, js_value) js_result) \<Rightarrow> 'w caller" where
  "call_target globals host v arguments w =
     (case v of
        JFunction f \<Rightarrow> run_function (call_global host) globals f arguments w
      | _ \<Rightarrow> call_global host v arguments w)"

end
