(* ===== verification/TargetTypes.thy ===== *)
theory TargetTypes
  imports TargetProgram
begin

text \<open>
  Static types of the generated TypeScript: a checker for the expressions, statements and functions of
  \<open>TargetProgram\<close>, with TypeScript's rules for \<open>number\<close>, \<open>bigint\<close>, \<open>boolean\<close> and \<open>string\<close>, and its soundness.
  Code that checks never fails with a type, syntax or reference error; it may raise a Go panic, and a
  \<open>bigint\<close> operation may be out of range.

  The checker is stricter than TypeScript where the difference does not matter here: operands and arguments
  have one of the four types, and the two branches of a conditional have the same type, unless one of them never
  returns.
\<close>

subsection \<open>The checker\<close>

datatype ts_static =
    Plain ts_type
  | NeverType
  | FunctionType "ts_type list" ts_type
  | GlobalObject "string list"
  | PanicClassType
  | PanicRaiseType

type_synonym type_env = "string \<Rightarrow> ts_static option"

definition arithmetic :: "binary_operator \<Rightarrow> bool" where
  "arithmetic op \<longleftrightarrow> \<not> relational op \<and> op \<notin> {EqualsEqualsEqualsToken, ExclamationEqualsEqualsToken}"

text \<open>A \<open>number\<close> and a \<open>bigint\<close> can only be ordered, and a \<open>bigint\<close> has no unsigned shift.\<close>

fun binary_type :: "binary_operator \<Rightarrow> ts_type \<Rightarrow> ts_type \<Rightarrow> ts_type option" where
  "binary_type op NumberKeyword NumberKeyword = Some (if arithmetic op then NumberKeyword else BooleanKeyword)"
| "binary_type op BigIntKeyword BigIntKeyword =
     (if op = GreaterThanGreaterThanGreaterThanToken then None
      else Some (if arithmetic op then BigIntKeyword else BooleanKeyword))"
| "binary_type op NumberKeyword BigIntKeyword = (if relational op then Some BooleanKeyword else None)"
| "binary_type op BigIntKeyword NumberKeyword = (if relational op then Some BooleanKeyword else None)"
| "binary_type op s t = (if s = t \<and> \<not> arithmetic op \<and> \<not> relational op then Some BooleanKeyword else None)"

fun prefix_type :: "prefix_operator \<Rightarrow> ts_type \<Rightarrow> ts_type option" where
  "prefix_type ExclamationPrefix t = Some BooleanKeyword"
| "prefix_type op NumberKeyword = Some NumberKeyword"
| "prefix_type MinusPrefix BigIntKeyword = Some BigIntKeyword"
| "prefix_type TildePrefix BigIntKeyword = Some BigIntKeyword"
| "prefix_type op t = None"

definition numeric_type :: "ts_type \<Rightarrow> bool" where
  "numeric_type t \<longleftrightarrow> t \<in> {NumberKeyword, BigIntKeyword}"

definition intrinsic_type :: "string list \<Rightarrow> ts_type list \<Rightarrow> ts_type option" where
  "intrinsic_type path arguments =
     (if path = [''Number''] then (case arguments of [t] \<Rightarrow> if numeric_type t then Some NumberKeyword else None | _ \<Rightarrow> None)
      else if path = [''BigInt''] then (case arguments of [t] \<Rightarrow> if numeric_type t then Some BigIntKeyword else None | _ \<Rightarrow> None)
      else if path = [''BigInt'', ''asIntN''] \<or> path = [''BigInt'', ''asUintN''] then
        (if arguments = [NumberKeyword, BigIntKeyword] then Some BigIntKeyword else None)
      else if path = [''Math'', ''trunc''] then (if arguments = [NumberKeyword] then Some NumberKeyword else None)
      else if path = [''Math'', ''imul''] then (if arguments = [NumberKeyword, NumberKeyword] then Some NumberKeyword else None)
      else if path = [''Number'', ''isFinite''] then (if arguments = [NumberKeyword] then Some BooleanKeyword else None)
      else None)"

fun call_type :: "ts_static \<Rightarrow> ts_type list \<Rightarrow> ts_static option" where
  "call_type (FunctionType parameters result) arguments = (if arguments = parameters then Some (Plain result) else None)"
| "call_type (GlobalObject path) arguments = map_option Plain (intrinsic_type path arguments)"
| "call_type PanicRaiseType arguments = (if arguments = [StringKeyword] then Some NeverType else None)"
| "call_type _ arguments = None"

fun property_type :: "ts_static \<Rightarrow> string \<Rightarrow> ts_static option" where
  "property_type (GlobalObject path) m = Some (GlobalObject (path @ [m]))"
| "property_type PanicClassType m = (if m = ''raiseRuntime'' then Some PanicRaiseType else None)"
| "property_type _ m = None"

fun join_type :: "ts_static \<Rightarrow> ts_static \<Rightarrow> ts_static option" where
  "join_type NeverType t = Some t"
| "join_type s NeverType = Some s"
| "join_type s t = (if s = t then Some s else None)"

fun plain :: "ts_static \<Rightarrow> ts_type option" where
  "plain (Plain t) = Some t"
| "plain _ = None"

fun type_of :: "type_env \<Rightarrow> ts_expression \<Rightarrow> ts_static option"
  and types_of :: "type_env \<Rightarrow> ts_expression list \<Rightarrow> ts_type list option" where
  "type_of G (NumericLiteral s) = (if s \<noteq> [] \<and> list_all is_digit s then Some (Plain NumberKeyword) else None)"
| "type_of G (BigIntLiteral s) =
     (if 2 \<le> length s \<and> last s = CHR ''n'' \<and> list_all is_digit (butlast s) then Some (Plain BigIntKeyword) else None)"
| "type_of G (StringLiteral s) = Some (Plain StringKeyword)"
| "type_of G (Identifier x) = G x"
| "type_of G (PropertyAccessExpression e m) = Option.bind (type_of G e) (\<lambda>s. property_type s m)"
| "type_of G (CallExpression f arguments) =
     Option.bind (type_of G f) (\<lambda>s. Option.bind (types_of G arguments) (call_type s))"
| "type_of G (BinaryExpression l op r) =
     Option.bind (Option.bind (type_of G l) plain) (\<lambda>s. Option.bind (Option.bind (type_of G r) plain) (\<lambda>t.
       map_option Plain (binary_type op s t)))"
| "type_of G (PrefixUnaryExpression op e) =
     Option.bind (Option.bind (type_of G e) plain) (\<lambda>s. map_option Plain (prefix_type op s))"
| "type_of G (ConditionalExpression c t e) =
     Option.bind (Option.bind (type_of G c) plain) (\<lambda>_. Option.bind (type_of G t) (\<lambda>s.
       Option.bind (type_of G e) (join_type s)))"
| "types_of G [] = Some []"
| "types_of G (e # es) =
     Option.bind (Option.bind (type_of G e) plain) (\<lambda>t. Option.bind (types_of G es) (\<lambda>ts. Some (t # ts)))"

text \<open>
  Statements extend the environment; \<open>result\<close> is the type of the function they are in, if they are in one.
\<close>

fun check :: "type_env \<Rightarrow> ts_type option \<Rightarrow> ts_statement list \<Rightarrow> type_env option" where
  "check G result [] = Some G"
| "check G result (VariableStatement flags x declared e # rest) =
     Option.bind (Option.bind (type_of G e) plain) (\<lambda>t.
       if declared = None \<or> declared = Some t then check (G(x \<mapsto> Plain t)) result rest else None)"
| "check G result (ExpressionStatement e # rest) = Option.bind (type_of G e) (\<lambda>_. check G result rest)"
| "check G result (IfStatement c body # rest) =
     Option.bind (Option.bind (type_of G c) plain) (\<lambda>_. Option.bind (check G result body) (\<lambda>_. check G result rest))"
| "check G result (ReturnStatement e # rest) =
     Option.bind (Option.bind (type_of G e) plain) (\<lambda>t. if result = Some t then check G result rest else None)"

definition ends_in_return :: "ts_statement list \<Rightarrow> bool" where
  "ends_in_return body = (case rev body of ReturnStatement e # _ \<Rightarrow> True | _ \<Rightarrow> False)"

fun function_type :: "type_env \<Rightarrow> ts_function \<Rightarrow> ts_static option" where
  "function_type G (FunctionDeclaration name parameters result body) =
     (if ends_in_return body \<and>
         check (G ++ map_of (List.map (\<lambda>(x, t). (x, Plain t)) parameters)) (Some result) body \<noteq> None
      then Some (FunctionType (List.map snd parameters) result) else None)"

subsection \<open>Typed values\<close>

fun has_type :: "js_value \<Rightarrow> ts_type \<Rightarrow> bool" where
  "has_type v NumberKeyword = (\<exists>a. v = JNumber a)"
| "has_type v BigIntKeyword = (\<exists>k. v = JBigInt k)"
| "has_type v BooleanKeyword = (\<exists>b. v = JBoolean b)"
| "has_type v StringKeyword = (\<exists>s. v = JString s)"

text \<open>The errors that code that checks can end with.\<close>

fun benign :: "js_error \<Rightarrow> bool" where
  "benign (GoPanic message) = True"
| "benign JsRangeError = True"
| "benign _ = False"

fun denotes :: "'w caller \<Rightarrow> js_value \<Rightarrow> ts_static \<Rightarrow> bool" where
  "denotes call v (Plain t) = has_type v t"
| "denotes call v NeverType = False"
| "denotes call v (FunctionType parameters result) =
     (\<forall>arguments w. list_all2 has_type arguments parameters \<longrightarrow>
        (case fst (call v arguments w) of Inl e \<Rightarrow> benign e | Inr u \<Rightarrow> has_type u result))"
| "denotes call v (GlobalObject path) = (v = JGlobal path)"
| "denotes call v PanicClassType = (v = JPanicClass)"
| "denotes call v PanicRaiseType = (v = JPanicRaise)"

definition env_typed :: "'w caller \<Rightarrow> type_env \<Rightarrow> js_env \<Rightarrow> bool" where
  "env_typed call G env \<longleftrightarrow> (\<forall>x s. G x = Some s \<longrightarrow> (\<exists>v. env x = Some v \<and> denotes call v s))"

definition target_caller :: "'w caller \<Rightarrow> bool" where
  "target_caller call \<longleftrightarrow>
     (\<forall>path arguments w. call (JGlobal path) arguments w = (intrinsic path arguments, w)) \<and>
     (\<forall>m w. call JPanicRaise [JString m] w = (Inl (GoPanic m), w))"

definition delivers :: "'w caller \<Rightarrow> js_error + js_value \<Rightarrow> ts_static \<Rightarrow> bool" where
  "delivers call r s \<longleftrightarrow> (case r of Inl e \<Rightarrow> benign e | Inr v \<Rightarrow> denotes call v s)"

lemma env_typedD: "env_typed call G env \<Longrightarrow> G x = Some s \<Longrightarrow> \<exists>v. env x = Some v \<and> denotes call v s"
  by (simp add: env_typed_def)

lemma env_typed_update: "env_typed call G env \<Longrightarrow> has_type v t \<Longrightarrow> env_typed call (G(x \<mapsto> Plain t)) (env(x \<mapsto> v))"
  by (simp add: env_typed_def)

lemma plain_Some [simp]: "plain s = Some t \<longleftrightarrow> s = Plain t"
  by (cases s) auto

lemma bind_plain [simp]: "Option.bind r plain = Some t \<longleftrightarrow> r = Some (Plain t)"
  by (cases r) auto

subsection \<open>Soundness of the operators\<close>

lemma number_operator_type:
  "has_type (number_operator op a b) (if arithmetic op then NumberKeyword else BooleanKeyword)"
  by (cases op) (auto simp: arithmetic_def relational_def)

lemma bigint_operator_type:
  "op \<noteq> GreaterThanGreaterThanGreaterThanToken \<Longrightarrow>
     (case bigint_operator op k l of Inl e \<Rightarrow> benign e | Inr v \<Rightarrow> has_type v (if arithmetic op then BigIntKeyword else BooleanKeyword))"
  by (cases op) (auto simp: arithmetic_def relational_def)

lemma equality_result:
  "op \<in> {EqualsEqualsEqualsToken, ExclamationEqualsEqualsToken} \<Longrightarrow> \<exists>b. binary_result op u v = Inr (JBoolean b)"
  by (cases u; cases v) (auto simp: binary_result_def)

lemma mixed_result:
  "relational op \<Longrightarrow> \<exists>b. binary_result op (JNumber a) (JBigInt k) = Inr (JBoolean b)"
  "relational op \<Longrightarrow> \<exists>b. binary_result op (JBigInt k) (JNumber a) = Inr (JBoolean b)"
  by (auto simp: binary_result_def relational_def)

lemma binary_type_cases:
  assumes "binary_type op s t = Some r"
  obtains (number) "s = NumberKeyword" "t = NumberKeyword" "r = (if arithmetic op then NumberKeyword else BooleanKeyword)"
  | (bigint) "s = BigIntKeyword" "t = BigIntKeyword" "op \<noteq> GreaterThanGreaterThanGreaterThanToken"
      "r = (if arithmetic op then BigIntKeyword else BooleanKeyword)"
  | (mixed) "{s, t} = {NumberKeyword, BigIntKeyword}" "relational op" "r = BooleanKeyword"
  | (equality) "op \<in> {EqualsEqualsEqualsToken, ExclamationEqualsEqualsToken}" "r = BooleanKeyword"
proof -
  have eq: "op \<in> {EqualsEqualsEqualsToken, ExclamationEqualsEqualsToken}" if "\<not> arithmetic op" "\<not> relational op"
    using that by (auto simp: arithmetic_def)
  show thesis
    using assms number bigint mixed equality eq by (cases s; cases t) (auto split: if_split_asm)
qed

lemma binary_result_type:
  assumes "has_type u s" "has_type v t" "binary_type op s t = Some r"
  shows "case binary_result op u v of Inl e \<Rightarrow> benign e | Inr x \<Rightarrow> has_type x r"
  using assms(3)
proof (cases rule: binary_type_cases)
  case number
  then obtain a b where "u = JNumber a" "v = JNumber b" using assms(1,2) by auto
  then show ?thesis using number(3) number_operator_type [of op a b] by simp
next
  case bigint
  then obtain k l where "u = JBigInt k" "v = JBigInt l" using assms(1,2) by auto
  then show ?thesis using bigint_operator_type [OF bigint(3), of k l] by (simp only: bigint(4) binary_result_simps)
next
  case mixed
  then consider a k where "u = JNumber a" "v = JBigInt k" | a k where "u = JBigInt k" "v = JNumber a"
    using assms(1,2) by (auto simp: doubleton_eq_iff)
  then obtain b where "binary_result op u v = Inr (JBoolean b)" using mixed_result [OF mixed(2)] by cases blast+
  then show ?thesis using mixed(3) by simp
next
  case equality
  then show ?thesis using equality_result [OF equality(1), of u v] by auto
qed

lemma prefix_result_type:
  "has_type v s \<Longrightarrow> prefix_type op s = Some r \<Longrightarrow> case prefix_result op v of Inl e \<Rightarrow> benign e | Inr x \<Rightarrow> has_type x r"
  by (cases op; cases s) auto

lemma intrinsic_type_cases:
  assumes "intrinsic_type path ts = Some r"
  obtains (number) t where "path = [''Number'']" "ts = [t]" "numeric_type t" "r = NumberKeyword"
  | (bigint) t where "path = [''BigInt'']" "ts = [t]" "numeric_type t" "r = BigIntKeyword"
  | (wrap) "path = [''BigInt'', ''asIntN''] \<or> path = [''BigInt'', ''asUintN'']" "ts = [NumberKeyword, BigIntKeyword]" "r = BigIntKeyword"
  | (trunc) "path = [''Math'', ''trunc'']" "ts = [NumberKeyword]" "r = NumberKeyword"
  | (imul) "path = [''Math'', ''imul'']" "ts = [NumberKeyword, NumberKeyword]" "r = NumberKeyword"
  | (finite) "path = [''Number'', ''isFinite'']" "ts = [NumberKeyword]" "r = BooleanKeyword"
  using assms unfolding intrinsic_type_def
  by (simp split: if_split_asm) (simp split: list.split_asm if_split_asm)+

lemma intrinsic_result_type:
  assumes "list_all2 has_type vs ts" "intrinsic_type path ts = Some r"
  shows "case intrinsic path vs of Inl e \<Rightarrow> benign e | Inr x \<Rightarrow> has_type x r"
  using assms(2)
proof (cases rule: intrinsic_type_cases)
  case (number t)
  then obtain v where "vs = [v]" "has_type v t" using assms(1) by (auto simp: list_all2_Cons2)
  then show ?thesis using number by (auto simp: intrinsic_def numeric_type_def)
next
  case (bigint t)
  then obtain v where "vs = [v]" "has_type v t" using assms(1) by (auto simp: list_all2_Cons2)
  then show ?thesis using bigint by (auto simp: intrinsic_def numeric_type_def split: option.split)
next
  case wrap
  then obtain a k where "vs = [JNumber a, JBigInt k]" using assms(1) by (auto simp: list_all2_Cons2)
  then show ?thesis using wrap by (auto simp: intrinsic_def)
next
  case imul
  then obtain a b where "vs = [JNumber a, JNumber b]" using assms(1) by (auto simp: list_all2_Cons2)
  then show ?thesis using imul by (simp add: intrinsic_def)
next
  case trunc
  then obtain a where "vs = [JNumber a]" using assms(1) by (auto simp: list_all2_Cons2)
  then show ?thesis using trunc by (simp add: intrinsic_def)
next
  case finite
  then obtain a where "vs = [JNumber a]" using assms(1) by (auto simp: list_all2_Cons2)
  then show ?thesis using finite by (simp add: intrinsic_def)
qed

lemma call_result_type:
  assumes "target_caller call" "denotes call f s" "list_all2 has_type vs ts" "call_type s ts = Some r"
  shows "delivers call (fst (call f vs w)) r"
proof (cases s)
  case (FunctionType parameters result)
  then show ?thesis using assms by (auto simp: delivers_def split: if_splits sum.splits)
next
  case (GlobalObject path)
  then show ?thesis
    using assms intrinsic_result_type [OF assms(3)]
    by (fastforce simp: delivers_def target_caller_def split: sum.splits)
next
  case PanicRaiseType
  then show ?thesis
    using assms by (auto simp: delivers_def target_caller_def list_all2_Cons2 split: if_splits)
qed (use assms(4) in auto)

subsection \<open>Soundness of expressions, statements and functions\<close>

lemma delivers_cases:
  assumes "delivers call (fst r) s"
  obtains (error) e w where "r = (Inl e, w)" "benign e" | (value') v w where "r = (Inr v, w)" "denotes call v s"
  using assms by (cases r; cases "fst r") (auto simp: delivers_def)

lemma join_left: "join_type s t = Some r \<Longrightarrow> delivers call x s \<Longrightarrow> delivers call x r"
  by (cases s; cases t) (auto simp: delivers_def split: if_splits sum.splits)

lemma join_right: "join_type s t = Some r \<Longrightarrow> delivers call x t \<Longrightarrow> delivers call x r"
  by (cases s; cases t) (auto simp: delivers_def split: if_splits sum.splits)

lemma property_delivers:
  "denotes call v s \<Longrightarrow> property_type s m = Some r \<Longrightarrow> delivers call (property_of v m) r"
  by (cases s) (auto simp: delivers_def split: if_splits)

lemma literal_delivers:
  "s \<noteq> [] \<Longrightarrow> list_all is_digit s \<Longrightarrow> delivers call (numeric_literal s) (Plain NumberKeyword)"
  "2 \<le> length s \<Longrightarrow> last s = CHR ''n'' \<Longrightarrow> list_all is_digit (butlast s) \<Longrightarrow>
     delivers call (bigint_literal s) (Plain BigIntKeyword)"
  by (simp_all add: numeric_literal_def bigint_literal_def delivers_def)

lemma eval_typed:
  assumes "target_caller call"
  shows "type_of G e = Some s \<Longrightarrow> env_typed call G env \<Longrightarrow> delivers call (fst (eval call env e w)) s"
    and "types_of G es = Some ts \<Longrightarrow> env_typed call G env \<Longrightarrow>
      case fst (evals call env es w) of Inl err \<Rightarrow> benign err | Inr vs \<Rightarrow> list_all2 has_type vs ts"
proof (induction G e and G es arbitrary: s w and ts w rule: type_of_types_of.induct)
  case (1 G s)
  then show ?case by (auto simp: literal_delivers split: if_splits)
next
  case (2 G s)
  then show ?case by (auto simp: literal_delivers split: if_splits)
next
  case (3 G s)
  then show ?case by (auto simp: delivers_def)
next
  case (4 G x)
  then show ?case using env_typedD [OF "4.prems"(2), of x s] by (auto simp: delivers_def)
next
  case (5 G e m)
  then obtain u where u: "type_of G e = Some u" "property_type u m = Some s" by (auto simp: bind_eq_Some_conv)
  show ?case
    using "5.IH" [OF u(1) "5.prems"(2), of w]
  proof (rule delivers_cases)
    fix v w'
    assume "eval call env e w = (Inr v, w')" "denotes call v u"
    then show ?thesis using property_delivers [OF _ u(2)] by simp
  qed (simp add: delivers_def)
next
  case (6 G f arguments)
  then obtain u ts where u: "type_of G f = Some u" "types_of G arguments = Some ts" "call_type u ts = Some s"
    by (auto simp: bind_eq_Some_conv)
  show ?case
    using "6.IH"(1) [OF u(1) "6.prems"(2), of w]
  proof (rule delivers_cases)
    fix v w'
    assume v: "eval call env f w = (Inr v, w')" "denotes call v u"
    show ?thesis
    proof (cases "evals call env arguments w'")
      case (Pair r w'')
      then show ?thesis
        using "6.IH"(2) [OF u(1,2) "6.prems"(2), of w'] call_result_type [OF assms v(2) _ u(3)] v(1)
        by (cases r) (auto simp: delivers_def [of _ "Inl _"])
    qed
  qed (simp add: delivers_def)
next
  case (7 G l op r)
  then obtain a b t where u: "type_of G l = Some (Plain a)" "type_of G r = Some (Plain b)" "binary_type op a b = Some t" "s = Plain t"
    by (auto simp: bind_eq_Some_conv)
  show ?case
    using "7.IH"(1) [OF u(1) "7.prems"(2), of w]
  proof (rule delivers_cases)
    fix v w'
    assume v: "eval call env l w = (Inr v, w')" "denotes call v (Plain a)"
    show ?thesis
      using "7.IH"(2) [OF _ u(2) "7.prems"(2), of a w', simplified, OF u(1)]
    proof (rule delivers_cases)
      fix v' w''
      assume "eval call env r w' = (Inr v', w'')" "denotes call v' (Plain b)"
      then show ?thesis using v binary_result_type [of v a v' b op t] u(3,4) by (simp add: delivers_def split: sum.splits)
    qed (simp add: v delivers_def)
  qed (simp add: delivers_def)
next
  case (8 G op e)
  then obtain a t where u: "type_of G e = Some (Plain a)" "prefix_type op a = Some t" "s = Plain t"
    by (auto simp: bind_eq_Some_conv)
  show ?case
    using "8.IH" [OF u(1) "8.prems"(2), of w]
  proof (rule delivers_cases)
    fix v w'
    assume "eval call env e w = (Inr v, w')" "denotes call v (Plain a)"
    then show ?thesis using prefix_result_type [of v a op t] u(2,3) by (simp add: delivers_def split: sum.splits)
  qed (simp add: delivers_def)
next
  case (9 G c t e)
  then obtain a p q where u: "type_of G c = Some (Plain a)" "type_of G t = Some p" "type_of G e = Some q" "join_type p q = Some s"
    by (auto simp: bind_eq_Some_conv)
  have pre: "Option.bind (type_of G c) plain = Some a" using u(1) by simp
  show ?case
    using "9.IH"(1) [OF u(1) "9.prems"(2), of w]
  proof (rule delivers_cases)
    fix v w'
    assume "eval call env c w = (Inr v, w')"
    then show ?thesis
      using join_left [OF u(4) "9.IH"(2) [OF pre u(2) "9.prems"(2)]] join_right [OF u(4) "9.IH"(3) [OF pre u(2,3) "9.prems"(2)]] by simp
  qed (simp add: delivers_def)
next
  case (10 G)
  then show ?case by simp
next
  case (11 G e es)
  then obtain t ts' where u: "type_of G e = Some (Plain t)" "types_of G es = Some ts'" "ts = t # ts'"
    by (auto simp: bind_eq_Some_conv)
  show ?case
    using "11.IH"(1) [OF u(1) "11.prems"(2), of w]
  proof (rule delivers_cases)
    fix v w'
    assume v: "eval call env e w = (Inr v, w')" "denotes call v (Plain t)"
    show ?thesis
      using "11.IH"(2) [OF _ u(2) "11.prems"(2), of t w', simplified, OF u(1)] v u(3)
      by (cases "evals call env es w'") (auto split: sum.splits)
  qed simp
qed

lemma check_typed:
  assumes "target_caller call"
  shows "check G result ss = Some G' \<Longrightarrow> env_typed call G env \<Longrightarrow>
    (case fst (exec call env ss w) of
       Inl e \<Rightarrow> benign e
     | Inr (Normal env') \<Rightarrow> env_typed call G' env'
     | Inr (Returned v) \<Rightarrow> (\<exists>t. result = Some t \<and> has_type v t))"
proof (induction G result ss arbitrary: G' env w rule: check.induct)
  case (1 G result)
  then show ?case by simp
next
  case (2 G result flags x declared e rest)
  then obtain t where t: "type_of G e = Some (Plain t)" "declared = None \<or> declared = Some t"
    "check (G(x \<mapsto> Plain t)) result rest = Some G'" by (auto simp: bind_eq_Some_conv split: if_split_asm)
  have pre: "Option.bind (type_of G e) plain = Some t" using t(1) by simp
  show ?case
    using eval_typed(1) [OF assms t(1) "2.prems"(2), of w]
  proof (rule delivers_cases)
    fix v w'
    assume v: "eval call env e w = (Inr v, w')" "denotes call v (Plain t)"
    then have "env_typed call (G(x \<mapsto> Plain t)) (env(x \<mapsto> v))" using env_typed_update [OF "2.prems"(2)] by simp
    from "2.IH" [OF pre t(2,3) this, of w'] show ?thesis by (simp only: exec.simps v(1) js_bind_simps)
  qed simp
next
  case (3 G result e rest)
  then obtain s where t: "type_of G e = Some s" "check G result rest = Some G'" by (auto simp: bind_eq_Some_conv)
  show ?case
    using eval_typed(1) [OF assms t(1) "3.prems"(2), of w]
  proof (rule delivers_cases)
    fix v w'
    assume "eval call env e w = (Inr v, w')"
    then show ?thesis using "3.IH" [OF t "3.prems"(2), of w'] by simp
  qed simp
next
  case (4 G result c body rest)
  then obtain t H where t: "type_of G c = Some (Plain t)" "check G result body = Some H" "check G result rest = Some G'"
    by (auto simp: bind_eq_Some_conv)
  have pre: "Option.bind (type_of G c) plain = Some t" using t(1) by simp
  show ?case
    using eval_typed(1) [OF assms t(1) "4.prems"(2), of w]
  proof (rule delivers_cases)
    fix v w'
    assume v: "eval call env c w = (Inr v, w')"
    show ?thesis
    proof (cases "truthy v")
      case True
      obtain r w'' where r: "exec call env body w' = (r, w'')" by fastforce
      have "case r of Inl e \<Rightarrow> benign e | Inr (Normal env') \<Rightarrow> env_typed call H env'
          | Inr (Returned v) \<Rightarrow> (\<exists>t. result = Some t \<and> has_type v t)"
        using "4.IH"(1) [OF pre t(2) "4.prems"(2), of w'] r by simp
      moreover have "case fst (exec call env rest w'') of Inl e \<Rightarrow> benign e | Inr (Normal env') \<Rightarrow> env_typed call G' env'
          | Inr (Returned v) \<Rightarrow> (\<exists>t. result = Some t \<and> has_type v t)"
        by (rule "4.IH"(2) [OF pre t(2,3) "4.prems"(2)])
      ultimately show ?thesis using v True r by (cases r) (auto split: completion.splits)
    next
      case False
      then show ?thesis using v "4.IH"(2) [OF pre t(2,3) "4.prems"(2), of w'] by simp
    qed
  qed simp
next
  case (5 G result e rest)
  then obtain t where t: "type_of G e = Some (Plain t)" "result = Some t" by (auto simp: bind_eq_Some_conv split: if_split_asm)
  show ?case
    using eval_typed(1) [OF assms t(1) "5.prems"(2), of w]
  proof (rule delivers_cases)
    fix v w'
    assume "eval call env e w = (Inr v, w')" "denotes call v (Plain t)"
    then show ?thesis using t(2) by simp
  qed simp
qed

lemma exec_returns: "exec call env (ss @ [ReturnStatement e]) w \<noteq> (Inr (Normal env'), w')"
proof (induction ss arbitrary: env w)
  case Nil
  then show ?case by (cases "eval call env e w"; cases "fst (eval call env e w)") auto
next
  case (Cons s ss)
  then show ?case
    by (cases s) (auto simp: js_bind_def split: prod.split sum.split completion.split)
qed

lemma ends_in_return_append: "ends_in_return body \<longleftrightarrow> (\<exists>ss e. body = ss @ [ReturnStatement e])"
  by (cases body rule: rev_cases) (auto simp: ends_in_return_def split: ts_statement.split)

lemma parameters_typed:
  assumes "env_typed call G env" "list_all2 has_type arguments (List.map snd parameters)"
  shows "env_typed call (G ++ map_of (List.map (\<lambda>(x, t). (x, Plain t)) parameters))
    (env ++ map_of (zip (List.map fst parameters) arguments))"
  using assms(2)
proof (induction parameters arbitrary: arguments)
  case Nil
  then show ?case using assms(1) by simp
next
  case (Cons p parameters)
  then obtain v vs where v: "arguments = v # vs" "has_type v (snd p)" "list_all2 has_type vs (List.map snd parameters)"
    by (auto simp: list_all2_Cons2)
  show ?case using env_typed_update [OF Cons.IH [OF v(3)] v(2), of "fst p"] v(1)
    by (cases p) (simp add: map_add_def fun_upd_def if_distrib cong: if_cong)
qed

text \<open>A function that checks is a value of its type.\<close>

lemma function_typed:
  assumes "target_caller call" "env_typed call G env" "function_type G f = Some s"
    and runs: "\<And>arguments w. call' (JFunction f) arguments w = run_function call env f arguments w"
  shows "denotes call' (JFunction f) s"
proof (cases f)
  case (FunctionDeclaration name parameters result body)
  let ?G = "G ++ map_of (List.map (\<lambda>(x, t). (x, Plain t)) parameters)"
  obtain G' where s: "s = FunctionType (List.map snd parameters) result" "ends_in_return body"
    "check ?G (Some result) body = Some G'"
    using assms(3) by (auto simp: FunctionDeclaration split: if_split_asm)
  obtain ss e where body: "body = ss @ [ReturnStatement e]" using s(2) unfolding ends_in_return_append by blast
  have "case fst (run_function call env f arguments w) of Inl e \<Rightarrow> benign e | Inr u \<Rightarrow> has_type u result"
    if "list_all2 has_type arguments (List.map snd parameters)" for arguments w
  proof -
    let ?env = "env ++ map_of (zip (List.map fst parameters) arguments)"
    obtain r w' where r: "exec call ?env body w = (r, w')" by fastforce
    have "case r of Inl e \<Rightarrow> benign e | Inr (Normal env') \<Rightarrow> env_typed call G' env'
        | Inr (Returned v) \<Rightarrow> (\<exists>t. Some result = Some t \<and> has_type v t)"
      using check_typed [OF assms(1) s(3) parameters_typed [OF assms(2) that], of w] r by simp
    moreover have "r \<noteq> Inr (Normal env')" for env' using exec_returns r body by metis
    ultimately show ?thesis using r by (cases r) (auto simp: FunctionDeclaration split: completion.splits)
  qed
  then show ?thesis by (simp add: s(1) runs)
qed

end
