(* ===== verification/Representation.thy ===== *)
theory Representation
  imports TargetProgram TypeIdentity
begin

text \<open>
  Representation choices of the generated program
  (\<open>internal/contracts/representation/contract.go\<close>): the integer profile, the width of the native
  \<open>int\<close>, the aliases of the Go basic types and the carrier (\<open>number\<close> or \<open>bigint\<close>) of each
  integer alias.

  The enumerations have one \<open>Invalid\<close> constructor for the zero value and every value outside the
  declared range.  \<open>types.Sizes\<close> is the size of \<open>int\<close> in bytes, \<open>None\<close> when it is nil.
\<close>

subsection \<open>Errors\<close>

datatype IntegerRepresentation =
    IntegerRepresentationInvalid
  | IntegerRepresentationNumber
  | IntegerRepresentationBigInt
  | IntegerRepresentationFixed64BigInt

datatype PrimitiveAlias =
    PrimitiveInvalid
  | PrimitiveBool
  | PrimitiveInt8 | PrimitiveInt16 | PrimitiveInt32 | PrimitiveInt64
  | PrimitiveUint8 | PrimitiveUint16 | PrimitiveUint32 | PrimitiveUint64
  | PrimitiveString
  | PrimitiveFloat32 | PrimitiveFloat64
  | PrimitiveInt | PrimitiveUint | PrimitiveUintptr

datatype IntegerCarrier =
    IntegerCarrierInvalid
  | IntegerCarrierNumber
  | IntegerCarrierBigInt

text \<open>
  The errors of the packages that emit integer code; a naming provider may fail for reasons of its
  own.  \<open>EmitterPanic\<close> is a panic of the emitter itself.
\<close>

datatype emit_error =
    IntegerRepresentationError IntegerRepresentation
  | NativeIntegerWidthError nat
  | PrimitiveAliasError PrimitiveAlias
  | IntegerCarrierError IntegerCarrier
  | InvariantError string string
  | UnsupportedError string
  | ResultError string string
  | NamingError string
  | RuntimeSymbolError nat
  | BuildError nat string
  | EmitterPanic string

subsection \<open>The scalar ABI\<close>

type_synonym NativeIntegerWidth = nat

definition NativeIntegerWidth_Valid :: "NativeIntegerWidth \<Rightarrow> bool" where
  "NativeIntegerWidth_Valid w \<longleftrightarrow> w = 32 \<or> w = 64"

definition NativeIntegerWidthFromSizes :: "nat option \<Rightarrow> emit_error + NativeIntegerWidth" where
  "NativeIntegerWidthFromSizes sizes =
     (case sizes of
        None \<Rightarrow> Inl (NativeIntegerWidthError 0)
      | Some bytes \<Rightarrow>
          if bytes = 4 then Inr 32
          else if bytes = 8 then Inr 64
          else Inl (NativeIntegerWidthError 0))"

fun IntegerRepresentation_Valid :: "IntegerRepresentation \<Rightarrow> bool" where
  "IntegerRepresentation_Valid IntegerRepresentationInvalid = False"
| "IntegerRepresentation_Valid _ = True"

record ScalarABI =
  abi_integer :: IntegerRepresentation
  abi_nativeWidth :: NativeIntegerWidth

definition NewScalarABI ::
    "IntegerRepresentation \<Rightarrow> NativeIntegerWidth \<Rightarrow> emit_error + ScalarABI" where
  "NewScalarABI integer nativeWidth =
     (if \<not> IntegerRepresentation_Valid integer then Inl (IntegerRepresentationError integer)
      else if \<not> NativeIntegerWidth_Valid nativeWidth then Inl (NativeIntegerWidthError nativeWidth)
      else Inr \<lparr>abi_integer = integer, abi_nativeWidth = nativeWidth\<rparr>)"

definition NewScalarABIFromSizes ::
    "IntegerRepresentation \<Rightarrow> nat option \<Rightarrow> emit_error + ScalarABI" where
  "NewScalarABIFromSizes integer sizes =
     (case NativeIntegerWidthFromSizes sizes of
        Inl e \<Rightarrow> Inl e
      | Inr w \<Rightarrow> NewScalarABI integer w)"

definition ScalarABI_Valid :: "ScalarABI \<Rightarrow> bool" where
  "ScalarABI_Valid a \<longleftrightarrow>
     IntegerRepresentation_Valid (abi_integer a) \<and> NativeIntegerWidth_Valid (abi_nativeWidth a)"

fun IntegerRepresentation_String :: "IntegerRepresentation \<Rightarrow> string" where
  "IntegerRepresentation_String IntegerRepresentationNumber = ''number''"
| "IntegerRepresentation_String IntegerRepresentationBigInt = ''bigint''"
| "IntegerRepresentation_String IntegerRepresentationFixed64BigInt = ''fixed64-bigint''"
| "IntegerRepresentation_String IntegerRepresentationInvalid = ''integer-representation(0)''"

definition ParseIntegerRepresentation :: "string \<Rightarrow> emit_error + IntegerRepresentation" where
  "ParseIntegerRepresentation value' =
     (if value' = ''number'' then Inr IntegerRepresentationNumber
      else if value' = ''bigint'' then Inr IntegerRepresentationBigInt
      else if value' = ''fixed64-bigint'' then Inr IntegerRepresentationFixed64BigInt
      else Inl (IntegerRepresentationError IntegerRepresentationInvalid))"

subsection \<open>Aliases and carriers\<close>

text \<open>The kinds of \<open>types.Basic\<close> by their number.\<close>

abbreviation (input) "kindBool \<equiv> 1 :: nat"
abbreviation (input) "kindInt \<equiv> 2 :: nat"
abbreviation (input) "kindInt8 \<equiv> 3 :: nat"
abbreviation (input) "kindInt16 \<equiv> 4 :: nat"
abbreviation (input) "kindInt32 \<equiv> 5 :: nat"
abbreviation (input) "kindInt64 \<equiv> 6 :: nat"
abbreviation (input) "kindUint \<equiv> 7 :: nat"
abbreviation (input) "kindUint8 \<equiv> 8 :: nat"
abbreviation (input) "kindUint16 \<equiv> 9 :: nat"
abbreviation (input) "kindUint32 \<equiv> 10 :: nat"
abbreviation (input) "kindUint64 \<equiv> 11 :: nat"
abbreviation (input) "kindUintptr \<equiv> 12 :: nat"
abbreviation (input) "kindFloat32 \<equiv> 13 :: nat"
abbreviation (input) "kindFloat64 \<equiv> 14 :: nat"
abbreviation (input) "kindString \<equiv> 17 :: nat"

definition PrimitiveAliasFor :: "go_type \<Rightarrow> PrimitiveAlias option" where
  "PrimitiveAliasFor source =
     (case Unalias source of
        BasicType kind \<Rightarrow>
          if kind = kindBool then Some PrimitiveBool
          else if kind = kindInt8 then Some PrimitiveInt8
          else if kind = kindInt16 then Some PrimitiveInt16
          else if kind = kindInt32 then Some PrimitiveInt32
          else if kind = kindInt64 then Some PrimitiveInt64
          else if kind = kindUint8 then Some PrimitiveUint8
          else if kind = kindUint16 then Some PrimitiveUint16
          else if kind = kindUint32 then Some PrimitiveUint32
          else if kind = kindUint64 then Some PrimitiveUint64
          else if kind = kindString then Some PrimitiveString
          else if kind = kindFloat32 then Some PrimitiveFloat32
          else if kind = kindFloat64 then Some PrimitiveFloat64
          else if kind = kindInt then Some PrimitiveInt
          else if kind = kindUint then Some PrimitiveUint
          else if kind = kindUintptr then Some PrimitiveUintptr
          else None
      | _ \<Rightarrow> None)"

definition IntegerCarrierRepresentation ::
    "PrimitiveAlias \<Rightarrow> ScalarABI \<Rightarrow> emit_error + IntegerCarrier" where
  "IntegerCarrierRepresentation alias abi =
     (if \<not> IntegerRepresentation_Valid (abi_integer abi)
      then Inl (IntegerRepresentationError (abi_integer abi))
      else if \<not> NativeIntegerWidth_Valid (abi_nativeWidth abi)
      then Inl (NativeIntegerWidthError (abi_nativeWidth abi))
      else if alias \<in> {PrimitiveInt8, PrimitiveInt16, PrimitiveInt32,
                       PrimitiveUint8, PrimitiveUint16, PrimitiveUint32}
      then Inr IntegerCarrierNumber
      else if alias \<in> {PrimitiveInt64, PrimitiveUint64}
      then (if abi_integer abi = IntegerRepresentationBigInt \<or>
               abi_integer abi = IntegerRepresentationFixed64BigInt
            then Inr IntegerCarrierBigInt else Inr IntegerCarrierNumber)
      else if alias \<in> {PrimitiveInt, PrimitiveUint, PrimitiveUintptr}
      then (if abi_integer abi = IntegerRepresentationBigInt \<and> abi_nativeWidth abi = 64
            then Inr IntegerCarrierBigInt else Inr IntegerCarrierNumber)
      else Inl (PrimitiveAliasError alias))"

definition ScalarABI_Carrier :: "ScalarABI \<Rightarrow> PrimitiveAlias \<Rightarrow> emit_error + IntegerCarrier" where
  "ScalarABI_Carrier a alias = IntegerCarrierRepresentation alias a"

definition ScalarABI_UsesBigInt :: "ScalarABI \<Rightarrow> go_type \<Rightarrow> bool" where
  "ScalarABI_UsesBigInt a source =
     (case PrimitiveAliasFor source of
        None \<Rightarrow> False
      | Some alias \<Rightarrow> ScalarABI_Carrier a alias = Inr IntegerCarrierBigInt)"

definition RequiresExactIntegerResult :: "ScalarABI \<Rightarrow> PrimitiveAlias \<Rightarrow> bool" where
  "RequiresExactIntegerResult a alias =
     (case ScalarABI_Carrier a alias of
        Inl _ \<Rightarrow> False
      | Inr carrier \<Rightarrow>
          abi_integer a = IntegerRepresentationBigInt \<or> carrier = IntegerCarrierBigInt)"

fun IntegerCarrier_Valid :: "IntegerCarrier \<Rightarrow> bool" where
  "IntegerCarrier_Valid IntegerCarrierInvalid = False"
| "IntegerCarrier_Valid _ = True"

definition IntegerLiteral ::
    "ScalarABI \<Rightarrow> PrimitiveAlias \<Rightarrow> string \<Rightarrow> emit_error + ts_expression" where
  "IntegerLiteral abi alias decimal =
     (if decimal = '''' then Inl (IntegerRepresentationError (abi_integer abi))
      else case IntegerCarrierRepresentation alias abi of
        Inl e \<Rightarrow> Inl e
      | Inr IntegerCarrierNumber \<Rightarrow> Inr (NumericLiteral decimal)
      | Inr IntegerCarrierBigInt \<Rightarrow> Inr (BigIntLiteral (decimal @ ''n''))
      | Inr _ \<Rightarrow> Inl (IntegerRepresentationError (abi_integer abi)))"

fun PrimitiveAliasName :: "PrimitiveAlias \<Rightarrow> emit_error + string" where
  "PrimitiveAliasName PrimitiveBool = Inr ''bool''"
| "PrimitiveAliasName PrimitiveInt8 = Inr ''int8''"
| "PrimitiveAliasName PrimitiveInt16 = Inr ''int16''"
| "PrimitiveAliasName PrimitiveInt32 = Inr ''int32''"
| "PrimitiveAliasName PrimitiveInt64 = Inr ''int64''"
| "PrimitiveAliasName PrimitiveUint8 = Inr ''uint8''"
| "PrimitiveAliasName PrimitiveUint16 = Inr ''uint16''"
| "PrimitiveAliasName PrimitiveUint32 = Inr ''uint32''"
| "PrimitiveAliasName PrimitiveUint64 = Inr ''uint64''"
| "PrimitiveAliasName PrimitiveString = Inr ''gostring''"
| "PrimitiveAliasName PrimitiveFloat32 = Inr ''float32''"
| "PrimitiveAliasName PrimitiveFloat64 = Inr ''float64''"
| "PrimitiveAliasName PrimitiveInt = Inr ''int''"
| "PrimitiveAliasName PrimitiveUint = Inr ''uint''"
| "PrimitiveAliasName PrimitiveUintptr = Inr ''uintptr''"
| "PrimitiveAliasName PrimitiveInvalid = Inl (PrimitiveAliasError PrimitiveInvalid)"

fun integerKeyword :: "IntegerCarrier \<Rightarrow> emit_error + ts_type" where
  "integerKeyword IntegerCarrierNumber = Inr NumberKeyword"
| "integerKeyword IntegerCarrierBigInt = Inr BigIntKeyword"
| "integerKeyword carrier = Inl (IntegerCarrierError carrier)"

definition PrimitiveAliasRepresentation ::
    "PrimitiveAlias \<Rightarrow> ScalarABI \<Rightarrow> emit_error + string \<times> ts_type" where
  "PrimitiveAliasRepresentation alias abi =
     (case PrimitiveAliasName alias of
        Inl e \<Rightarrow> Inl e
      | Inr name \<Rightarrow>
          if alias = PrimitiveBool then Inr (name, BooleanKeyword)
          else if alias = PrimitiveString then Inr (name, StringKeyword)
          else if alias \<in> {PrimitiveFloat32, PrimitiveFloat64} then Inr (name, NumberKeyword)
          else if alias \<in> {PrimitiveInt8, PrimitiveInt16, PrimitiveInt32, PrimitiveInt64,
                           PrimitiveUint8, PrimitiveUint16, PrimitiveUint32, PrimitiveUint64,
                           PrimitiveInt, PrimitiveUint, PrimitiveUintptr}
          then (case IntegerCarrierRepresentation alias abi of
                  Inl e \<Rightarrow> Inl e
                | Inr carrier \<Rightarrow>
                    (case integerKeyword carrier of Inl e \<Rightarrow> Inl e | Inr keyword \<Rightarrow> Inr (name, keyword)))
          else Inl (PrimitiveAliasError alias))"

definition PrimitiveTypeScriptType :: "go_type \<Rightarrow> ScalarABI \<Rightarrow> string option" where
  "PrimitiveTypeScriptType source abi =
     (case PrimitiveAliasFor source of
        None \<Rightarrow> None
      | Some alias \<Rightarrow>
          (case PrimitiveAliasRepresentation alias abi of
             Inl _ \<Rightarrow> None
           | Inr (_, keyword) \<Rightarrow>
               Some (case keyword of
                       BooleanKeyword \<Rightarrow> ''boolean''
                     | StringKeyword \<Rightarrow> ''string''
                     | NumberKeyword \<Rightarrow> ''number''
                     | BigIntKeyword \<Rightarrow> ''bigint'')))"

lemma IntegerRepresentation_Valid_iff:
  "IntegerRepresentation_Valid r \<longleftrightarrow> r \<noteq> IntegerRepresentationInvalid"
  by (cases r) auto

text \<open>The names of the profiles are read back.\<close>

lemma parse_representation_String:
  "IntegerRepresentation_Valid r \<Longrightarrow> ParseIntegerRepresentation (IntegerRepresentation_String r) = Inr r"
  by (cases r) (auto simp: ParseIntegerRepresentation_def)

end
