(* ===== verification/IntegerCarriers.thy ===== *)
theory IntegerCarriers
  imports Representation
begin

text \<open>
  The integer model of the emitter (\<open>internal/emit/value/integer/model.go\<close>): the carrier of a Go
  integer type - its alias, its width and its sign -, what each profile supports and the printing
  of integer constants.

  A Go constant is its exact value; \<open>constant.Int64Val\<close> and \<open>constant.Uint64Val\<close> give its low
  64 bits and whether they are the value.  The 64-bit arithmetic of the Go code is on \<open>64 word\<close>.

  \<open>go_value\<close> and \<open>go_wrap\<close> are the specification: the values a carrier holds, and the value of
  the carrier that an exact result wraps to.
\<close>

subsection \<open>Carriers\<close>

record Carrier =
  carrier_alias :: PrimitiveAlias
  carrier_width :: nat
  carrier_signed :: bool

definition newCarrier :: "PrimitiveAlias \<Rightarrow> nat \<Rightarrow> bool \<Rightarrow> Carrier" where
  "newCarrier alias width is_signed = \<lparr>carrier_alias = alias, carrier_width = width, carrier_signed = is_signed\<rparr>"

text \<open>The sizes are not nil here: \<open>Describe\<close> has checked them.\<close>

definition nativeCarrier :: "nat \<Rightarrow> PrimitiveAlias \<Rightarrow> bool \<Rightarrow> Carrier option" where
  "nativeCarrier sizes alias is_signed =
     (if sizes = 4 then Some (newCarrier alias 32 is_signed)
      else if sizes = 8 then Some (newCarrier alias 64 is_signed)
      else None)"

definition Describe :: "nat option \<Rightarrow> go_type option \<Rightarrow> Carrier option" where
  "Describe sizes sourceType =
     (case (sizes, sourceType) of
        (Some bytes, Some source) \<Rightarrow>
          (case Unalias source of
             BasicType kind \<Rightarrow>
               if kind = kindInt8 then Some (newCarrier PrimitiveInt8 8 True)
               else if kind = kindInt16 then Some (newCarrier PrimitiveInt16 16 True)
               else if kind = kindInt32 then Some (newCarrier PrimitiveInt32 32 True)
               else if kind = kindInt64 then Some (newCarrier PrimitiveInt64 64 True)
               else if kind = kindUint8 then Some (newCarrier PrimitiveUint8 8 False)
               else if kind = kindUint16 then Some (newCarrier PrimitiveUint16 16 False)
               else if kind = kindUint32 then Some (newCarrier PrimitiveUint32 32 False)
               else if kind = kindUint64 then Some (newCarrier PrimitiveUint64 64 False)
               else if kind = kindInt then nativeCarrier bytes PrimitiveInt True
               else if kind = kindUint then nativeCarrier bytes PrimitiveUint False
               else if kind = kindUintptr then nativeCarrier bytes PrimitiveUintptr False
               else None
           | _ \<Rightarrow> None)
      | _ \<Rightarrow> None)"

text \<open>\<open>underlying\<close> is \<open>types.Type.Underlying\<close>.\<close>

definition DescribeUnderlying ::
    "(go_type \<Rightarrow> go_type) \<Rightarrow> nat option \<Rightarrow> go_type option \<Rightarrow> Carrier option" where
  "DescribeUnderlying underlying sizes sourceType =
     (case Describe sizes sourceType of
        Some carrier \<Rightarrow> Some carrier
      | None \<Rightarrow>
          (case sourceType of
             None \<Rightarrow> None
           | Some source \<Rightarrow>
               (case underlying (Unalias source) of
                  BasicType kind \<Rightarrow> Describe sizes (Some (BasicType kind))
                | _ \<Rightarrow> None)))"

definition scalarABI :: "IntegerRepresentation \<Rightarrow> Carrier \<Rightarrow> ScalarABI option" where
  "scalarABI profile carrier =
     (let width = (if carrier_alias carrier \<in> {PrimitiveInt, PrimitiveUint, PrimitiveUintptr}
                   then carrier_width carrier else 64) in
      case NewScalarABI profile width of
        Inl _ \<Rightarrow> None
      | Inr abi \<Rightarrow> Some abi)"

definition CarrierRepresentation :: "IntegerRepresentation \<Rightarrow> Carrier \<Rightarrow> IntegerCarrier option" where
  "CarrierRepresentation profile carrier =
     (case scalarABI profile carrier of
        None \<Rightarrow> None
      | Some abi \<Rightarrow>
          (case ScalarABI_Carrier abi (carrier_alias carrier) of
             Inl _ \<Rightarrow> None
           | Inr chosen \<Rightarrow> Some chosen))"

definition UsesBigInt :: "IntegerRepresentation \<Rightarrow> Carrier \<Rightarrow> bool" where
  "UsesBigInt profile carrier \<longleftrightarrow> CarrierRepresentation profile carrier = Some IntegerCarrierBigInt"

definition RequiresExactResult :: "IntegerRepresentation \<Rightarrow> Carrier \<Rightarrow> bool" where
  "RequiresExactResult profile carrier \<longleftrightarrow>
     (case scalarABI profile carrier of
        None \<Rightarrow> False
      | Some abi \<Rightarrow> RequiresExactIntegerResult abi (carrier_alias carrier))"

definition RequiresExactNumberMultiplication :: "IntegerRepresentation \<Rightarrow> Carrier \<Rightarrow> bool" where
  "RequiresExactNumberMultiplication profile carrier \<longleftrightarrow>
     (case CarrierRepresentation profile carrier of
        None \<Rightarrow> False
      | Some chosen \<Rightarrow>
          RequiresExactResult profile carrier \<and>
          chosen = IntegerCarrierNumber \<and>
          carrier_width carrier = 32)"

subsection \<open>Constants\<close>

datatype constant_value = IntConstant int | OtherConstant

definition Int64Val :: "int \<Rightarrow> 64 word \<times> bool" where
  "Int64Val v = (word_of_int v, - (2 ^ 63) \<le> v \<and> v < 2 ^ 63)"

definition Uint64Val :: "int \<Rightarrow> 64 word \<times> bool" where
  "Uint64Val v = (word_of_int v, 0 \<le> v \<and> v < 2 ^ 64)"

definition fitsSigned :: "64 word \<Rightarrow> nat \<Rightarrow> bool" where
  "fitsSigned value' width =
     (if width = 64 then True
      else let limit = push_bit (width - 1) (1 :: 64 word) in
        sint (- limit) \<le> sint value' \<and> sint value' < sint limit)"

definition fitsUnsigned :: "64 word \<Rightarrow> nat \<Rightarrow> bool" where
  "fitsUnsigned value' width \<longleftrightarrow> width = 64 \<or> value' < push_bit width 1"

definition absolute :: "64 word \<Rightarrow> 64 word" where
  "absolute value' = (if 0 \<le> sint value' then value' else - (value' + 1) + 1)"

definition FormatUint :: "64 word \<Rightarrow> string" where
  "FormatUint u = itoa (unat u)"

definition FormatInt :: "64 word \<Rightarrow> string" where
  "FormatInt u = formatInt (sint u)"

definition FormatConstant ::
    "IntegerRepresentation \<Rightarrow> Carrier \<Rightarrow> constant_value option \<Rightarrow> (string \<times> bool) option" where
  "FormatConstant profile carrier value' =
     (case value' of
        Some (IntConstant v) \<Rightarrow>
          if \<not> IntegerRepresentation_Valid profile \<or> carrier_width carrier = 0 then None
          else if carrier_signed carrier then
            (let (low, exact) = Int64Val v in
             if \<not> exact \<or> \<not> fitsSigned low (carrier_width carrier) then None
             else if sint low < 0 then Some (FormatUint (absolute low), True)
             else Some (FormatInt low, False))
          else
            (let (low, exact) = Uint64Val v in
             if \<not> exact \<or> \<not> fitsUnsigned low (carrier_width carrier) then None
             else Some (FormatUint low, False))
      | _ \<Rightarrow> None)"

definition UnsignedMask :: "Carrier \<Rightarrow> string option" where
  "UnsignedMask carrier =
     (if carrier_signed carrier \<or> carrier_width carrier = 0 then None
      else if carrier_width carrier = 64 then Some (FormatUint (NOT 0))
      else Some (FormatUint (push_bit (carrier_width carrier) 1 - 1)))"

subsection \<open>Supported operations\<close>

text \<open>The tokens of \<open>go/token\<close> that the integer emitters look at.\<close>

datatype go_token =
    ADD | SUB | MUL | QUO | REM
  | AND_token | OR_token | XOR_token | AND_NOT
  | SHL | SHR
  | EQL | NEQ | LSS | LEQ | GTR | GEQ
  | LAND | LOR | NOT_token
  | INC | DEC
  | OtherToken nat

definition SupportsArithmetic :: "IntegerRepresentation \<Rightarrow> go_token \<Rightarrow> bool" where
  "SupportsArithmetic profile operator \<longleftrightarrow>
     IntegerRepresentation_Valid profile \<and> operator \<in> {ADD, SUB, MUL, QUO, REM}"

definition SupportsBitwise :: "IntegerRepresentation \<Rightarrow> Carrier \<Rightarrow> go_token \<Rightarrow> bool" where
  "SupportsBitwise profile carrier operator \<longleftrightarrow>
     operator \<in> {AND_token, OR_token, XOR_token, AND_NOT} \<and> IntegerRepresentation_Valid profile"

definition SupportsShift ::
    "IntegerRepresentation \<Rightarrow> Carrier \<Rightarrow> go_token \<Rightarrow> constant_value option \<Rightarrow> bool" where
  "SupportsShift profile carrier operator distance \<longleftrightarrow>
     operator \<in> {SHL, SHR} \<and>
     IntegerRepresentation_Valid profile \<and>
     (case distance of
        Some (IntConstant v) \<Rightarrow>
          (let (low, exact) = Uint64Val v in
           exact \<and> low < word_of_nat (carrier_width carrier))
      | _ \<Rightarrow> False)"

definition SupportsVariableShift :: "IntegerRepresentation \<Rightarrow> Carrier \<Rightarrow> go_token \<Rightarrow> bool" where
  "SupportsVariableShift profile carrier operator \<longleftrightarrow>
     operator \<in> {SHL, SHR} \<and> IntegerRepresentation_Valid profile"

definition SupportsUnary :: "IntegerRepresentation \<Rightarrow> Carrier \<Rightarrow> go_token \<Rightarrow> bool" where
  "SupportsUnary profile carrier operator \<longleftrightarrow>
     operator \<in> {ADD, SUB, XOR_token} \<and> IntegerRepresentation_Valid profile"

definition RequiresUint32Normalization :: "IntegerRepresentation \<Rightarrow> Carrier \<Rightarrow> bool" where
  "RequiresUint32Normalization profile carrier \<longleftrightarrow>
     (case CarrierRepresentation profile carrier of
        None \<Rightarrow> False
      | Some target \<Rightarrow>
          target = IntegerCarrierNumber \<and> \<not> carrier_signed carrier \<and> carrier_width carrier = 32)"

definition CanConvertDirectly :: "Carrier \<Rightarrow> Carrier \<Rightarrow> bool" where
  "CanConvertDirectly source target =
     (if carrier_width source = 0 \<or> carrier_width target = 0 then False
      else if carrier_signed source \<and> carrier_signed target
      then carrier_width source \<le> carrier_width target
      else if \<not> carrier_signed source \<and> \<not> carrier_signed target
      then carrier_width source \<le> carrier_width target
      else if \<not> carrier_signed source \<and> carrier_signed target
      then carrier_width source < carrier_width target
      else False)"

subsection \<open>Go integers\<close>

definition go_value :: "Carrier \<Rightarrow> int \<Rightarrow> bool" where
  "go_value c k \<longleftrightarrow>
     (if carrier_signed c then - (2 ^ (carrier_width c - 1)) \<le> k \<and> k < 2 ^ (carrier_width c - 1)
      else 0 \<le> k \<and> k < 2 ^ carrier_width c)"

definition go_wrap :: "Carrier \<Rightarrow> int \<Rightarrow> int" where
  "go_wrap c k =
     (if carrier_signed c then signed_take_bit (carrier_width c - 1) k else take_bit (carrier_width c) k)"

subsection \<open>Carriers of Go types\<close>

definition carrier_ok :: "Carrier \<Rightarrow> bool" where
  "carrier_ok c \<longleftrightarrow>
     (carrier_alias c, carrier_width c, carrier_signed c) \<in>
       {(PrimitiveInt8, 8, True), (PrimitiveInt16, 16, True), (PrimitiveInt32, 32, True),
        (PrimitiveInt64, 64, True), (PrimitiveUint8, 8, False), (PrimitiveUint16, 16, False),
        (PrimitiveUint32, 32, False), (PrimitiveUint64, 64, False),
        (PrimitiveInt, 32, True), (PrimitiveInt, 64, True),
        (PrimitiveUint, 32, False), (PrimitiveUint, 64, False),
        (PrimitiveUintptr, 32, False), (PrimitiveUintptr, 64, False)}"

lemma carrier_ok_newCarrier [simp]:
  "carrier_ok (newCarrier PrimitiveInt8 8 True)" "carrier_ok (newCarrier PrimitiveInt16 16 True)"
  "carrier_ok (newCarrier PrimitiveInt32 32 True)" "carrier_ok (newCarrier PrimitiveInt64 64 True)"
  "carrier_ok (newCarrier PrimitiveUint8 8 False)" "carrier_ok (newCarrier PrimitiveUint16 16 False)"
  "carrier_ok (newCarrier PrimitiveUint32 32 False)" "carrier_ok (newCarrier PrimitiveUint64 64 False)"
  "carrier_ok (newCarrier PrimitiveInt 32 True)" "carrier_ok (newCarrier PrimitiveInt 64 True)"
  "carrier_ok (newCarrier PrimitiveUint 32 False)" "carrier_ok (newCarrier PrimitiveUint 64 False)"
  "carrier_ok (newCarrier PrimitiveUintptr 32 False)" "carrier_ok (newCarrier PrimitiveUintptr 64 False)"
  by (simp_all add: carrier_ok_def newCarrier_def)

lemma nativeCarrier_cases:
  "nativeCarrier n a s = Some c \<Longrightarrow> c = newCarrier a 32 s \<or> c = newCarrier a 64 s"
  by (simp add: nativeCarrier_def split: if_split_asm)

text \<open>The carriers that do not depend on the sizes.\<close>

abbreviation fixed_carriers :: "Carrier set" where
  "fixed_carriers \<equiv>
     {newCarrier PrimitiveInt8 8 True, newCarrier PrimitiveInt16 16 True,
      newCarrier PrimitiveInt32 32 True, newCarrier PrimitiveInt64 64 True,
      newCarrier PrimitiveUint8 8 False, newCarrier PrimitiveUint16 16 False,
      newCarrier PrimitiveUint32 32 False, newCarrier PrimitiveUint64 64 False}"

lemma Describe_cases:
  assumes "Describe sizes t = Some c"
  obtains n where "sizes = Some n"
    "c \<in> fixed_carriers \<or>
     nativeCarrier n PrimitiveInt True = Some c \<or> nativeCarrier n PrimitiveUint False = Some c \<or>
     nativeCarrier n PrimitiveUintptr False = Some c"
proof -
  obtain n u k where u: "sizes = Some n" "t = Some u" "Unalias u = BasicType k"
    using assms by (simp add: Describe_def split: option.split_asm go_type.split_asm)
  have "c \<in> fixed_carriers \<or>
        nativeCarrier n PrimitiveInt True = Some c \<or> nativeCarrier n PrimitiveUint False = Some c \<or>
        nativeCarrier n PrimitiveUintptr False = Some c"
    using assms by (simp add: Describe_def u split: if_split_asm)
  then show thesis by (rule that [OF u(1)])
qed

lemma Describe_ok: "Describe sizes t = Some c \<Longrightarrow> carrier_ok c"
  by (erule Describe_cases) (auto dest!: nativeCarrier_cases)

lemma carrier_ok_width: "carrier_ok c \<Longrightarrow> carrier_width c \<in> {8, 16, 32, 64}"
  by (auto simp: carrier_ok_def)

lemma carrier_ok_positive [simp]: "carrier_ok c \<Longrightarrow> 0 < carrier_width c"
  by (auto dest: carrier_ok_width)

text \<open>Which carriers a profile computes with \<open>number\<close>, and which results it keeps exact.\<close>

lemma representation_cases:
  assumes "carrier_ok c" "IntegerRepresentation_Valid r"
  shows "CarrierRepresentation r c =
    Some (if carrier_width c = 64 \<and>
             (r = IntegerRepresentationBigInt \<or>
              r = IntegerRepresentationFixed64BigInt \<and> carrier_alias c \<in> {PrimitiveInt64, PrimitiveUint64})
          then IntegerCarrierBigInt else IntegerCarrierNumber)"
  using assms
  by (cases c; cases r)
    (auto simp: carrier_ok_def CarrierRepresentation_def scalarABI_def NewScalarABI_def
      NativeIntegerWidth_Valid_def ScalarABI_Carrier_def IntegerCarrierRepresentation_def)

lemma exact_iff:
  assumes "carrier_ok c" "IntegerRepresentation_Valid r"
  shows "RequiresExactResult r c \<longleftrightarrow>
    r = IntegerRepresentationBigInt \<or> CarrierRepresentation r c = Some IntegerCarrierBigInt"
  using assms
  by (cases c; cases r)
    (auto simp: carrier_ok_def CarrierRepresentation_def RequiresExactResult_def scalarABI_def
      RequiresExactIntegerResult_def NewScalarABI_def NativeIntegerWidth_Valid_def
      ScalarABI_Carrier_def IntegerCarrierRepresentation_def)

lemma bigint_width:
  assumes "carrier_ok c" "CarrierRepresentation r c = Some IntegerCarrierBigInt"
  shows "carrier_width c = 64"
  using assms
  by (cases c; cases r)
    (auto simp: carrier_ok_def CarrierRepresentation_def scalarABI_def NewScalarABI_def
      NativeIntegerWidth_Valid_def ScalarABI_Carrier_def IntegerCarrierRepresentation_def)

lemma representation_valid:
  "CarrierRepresentation r c = Some k \<Longrightarrow> IntegerRepresentation_Valid r"
  by (auto simp: CarrierRepresentation_def scalarABI_def NewScalarABI_def Let_def split: option.splits sum.splits if_splits)

lemma exact_cases:
  assumes "carrier_ok c" "RequiresExactResult r c"
  obtains (number) "CarrierRepresentation r c = Some IntegerCarrierNumber" "carrier_width c \<in> {8, 16, 32}"
  | (bigint) "CarrierRepresentation r c = Some IntegerCarrierBigInt" "carrier_width c = 64"
proof -
  have "IntegerRepresentation_Valid r" using assms(2)
    by (auto simp: RequiresExactResult_def scalarABI_def NewScalarABI_def Let_def split: option.splits sum.splits if_splits)
  then show thesis
    using that representation_cases [OF assms(1)] exact_iff [OF assms(1)] assms(2) carrier_ok_width [OF assms(1)]
    by (auto split: if_splits)
qed

subsection \<open>Wrapping\<close>

lemma go_wrap_value: "0 < carrier_width c \<Longrightarrow> go_value c (go_wrap c k)"
  by (simp add: go_value_def go_wrap_def)

lemma go_wrap_id: "0 < carrier_width c \<Longrightarrow> go_wrap c k = k \<longleftrightarrow> go_value c k"
  by (auto simp: go_value_def go_wrap_def signed_take_bit_int_eq_self_iff take_bit_int_eq_self_iff)

lemma go_wrap_wrap [simp]: "go_wrap c (go_wrap c k) = go_wrap c k"
  by (simp add: go_wrap_def)

text \<open>Wrapping to a width depends only on the low bits, so it absorbs wrapping to a larger one.\<close>

lemma go_wrap_signed_take_bit: "carrier_width c \<le> Suc n \<Longrightarrow> go_wrap c (signed_take_bit n k) = go_wrap c k"
  by (auto simp: go_wrap_def take_bit_signed_take_bit signed_take_bit_signed_take_bit min_def)

lemma go_wrap_take_bit:
  "0 < carrier_width c \<Longrightarrow> carrier_width c \<le> n \<Longrightarrow> go_wrap c (take_bit n k) = go_wrap c k"
  by (auto simp: go_wrap_def signed_take_bit_take_bit min_def)
subsection \<open>Constants and conversions\<close>

lemma sint_word_of_int_64:
  "- (2 ^ 63) \<le> v \<Longrightarrow> v < 2 ^ 63 \<Longrightarrow> sint (word_of_int v :: 64 word) = v"
  by (simp add: sint_uint uint_word_of_int_eq signed_take_bit_take_bit signed_take_bit_int_eq_self)

lemma absolute_negates: "absolute w = (if 0 \<le> sint w then w else - w)"
  by (simp add: absolute_def)

lemma FormatUint_absolute:
  assumes "- (2 ^ 63) \<le> v" "v < 2 ^ 63"
  shows "FormatUint (absolute (word_of_int v)) = itoa (nat \<bar>v\<bar>)"
proof -
  have "uint (word_of_int \<bar>v\<bar> :: 64 word) = \<bar>v\<bar>"
    using assms by (simp add: uint_word_of_int_eq take_bit_int_eq_self)
  then have "unat (word_of_int \<bar>v\<bar> :: 64 word) = nat \<bar>v\<bar>" by (metis nat_uint_eq)
  moreover have "absolute (word_of_int v) = word_of_int \<bar>v\<bar>"
    using assms by (simp add: absolute_negates sint_word_of_int_64 abs_if)
  ultimately show ?thesis by (simp add: FormatUint_def)
qed

lemma fitsSigned_iff:
  assumes "w \<in> {8, 16, 32, 64}" "- (2 ^ 63) \<le> v" "v < 2 ^ 63"
  shows "fitsSigned (word_of_int v) w \<longleftrightarrow> - (2 ^ (w - 1)) \<le> v \<and> v < 2 ^ (w - 1)"
  using assms by (auto simp: fitsSigned_def sint_word_of_int_64)

lemma fitsUnsigned_iff:
  assumes "w \<in> {8, 16, 32, 64}" "0 \<le> v" "v < 2 ^ 64"
  shows "fitsUnsigned (word_of_int v) w \<longleftrightarrow> v < 2 ^ w"
  using assms by (auto simp: fitsUnsigned_def word_less_alt uint_word_of_int_eq take_bit_int_eq_self)

lemma go_value_range:
  assumes "carrier_ok c" "go_value c v"
  shows "- (2 ^ 63) \<le> v" "v < 2 ^ 64" "carrier_signed c \<Longrightarrow> v < 2 ^ 63" "\<not> carrier_signed c \<Longrightarrow> 0 \<le> v"
  using assms(2) carrier_ok_width [OF assms(1)] by (auto simp: go_value_def split: if_splits)

end
