(* ===== verification/RuntimeContracts.thy ===== *)
theory RuntimeContracts
  imports Representation
begin

text \<open>
  The contracts of the runtime symbols (\<open>internal/emit/api/runtimecontract\<close>): for each symbol that
  generated code may import, its module, the file and the name it is exported under, whether it can
  be used as a type, and the symbols it needs itself.

  A symbol and a module are their numbers.  The switches of the source are association lists, one
  for each family of cases.
\<close>

subsection \<open>Symbols and modules\<close>

type_synonym RuntimeSymbol = nat
type_synonym RuntimeModule = nat

abbreviation (input) "RuntimeInvalid \<equiv> 0 :: nat"
abbreviation (input) "RuntimeStringIndex \<equiv> 1 :: nat"
abbreviation (input) "RuntimeStringSlice \<equiv> 2 :: nat"
abbreviation (input) "RuntimeStringMax \<equiv> 3 :: nat"
abbreviation (input) "RuntimeStringMin \<equiv> 4 :: nat"
abbreviation (input) "RuntimeStringEncodeRune \<equiv> 5 :: nat"
abbreviation (input) "RuntimeStringDecodeRune \<equiv> 6 :: nat"
abbreviation (input) "RuntimeArray \<equiv> 200 :: nat"
abbreviation (input) "RuntimeArrayAllocate \<equiv> 201 :: nat"
abbreviation (input) "RuntimeArrayLocation \<equiv> 203 :: nat"
abbreviation (input) "RuntimeArrayPacked \<equiv> 204 :: nat"
abbreviation (input) "RuntimeArrayFromRegion \<equiv> 206 :: nat"
abbreviation (input) "RuntimeStorageTypeToken \<equiv> 250 :: nat"
abbreviation (input) "RuntimeStoredValue \<equiv> 251 :: nat"
abbreviation (input) "RuntimeStorageType \<equiv> 252 :: nat"
abbreviation (input) "RuntimeContainerStorageToken \<equiv> 253 :: nat"
abbreviation (input) "RuntimeContainerStoredValue \<equiv> 254 :: nat"
abbreviation (input) "RuntimeContainerStorageType \<equiv> 255 :: nat"
abbreviation (input) "RuntimeSlice \<equiv> 300 :: nat"
abbreviation (input) "RuntimeSliceAddress \<equiv> 301 :: nat"
abbreviation (input) "RuntimeSliceStorage \<equiv> 302 :: nat"
abbreviation (input) "RuntimeSliceProjection \<equiv> 303 :: nat"
abbreviation (input) "RuntimeSliceArrayPointer \<equiv> 304 :: nat"
abbreviation (input) "RuntimeArraySlice \<equiv> 305 :: nat"
abbreviation (input) "RuntimeSliceAppendSlice \<equiv> 307 :: nat"
abbreviation (input) "RuntimeSliceClear \<equiv> 308 :: nat"
abbreviation (input) "RuntimeSliceRegion \<equiv> 309 :: nat"
abbreviation (input) "RuntimeSliceData \<equiv> 310 :: nat"
abbreviation (input) "RuntimeSliceFromRegion \<equiv> 311 :: nat"
abbreviation (input) "RuntimeSlicePointer \<equiv> 312 :: nat"
abbreviation (input) "RuntimeSliceElementRegion \<equiv> 313 :: nat"
abbreviation (input) "RuntimeMap \<equiv> 400 :: nat"
abbreviation (input) "RuntimeMapHash \<equiv> 401 :: nat"
abbreviation (input) "RuntimeMapClear \<equiv> 402 :: nat"
abbreviation (input) "RuntimeMapKeys \<equiv> 403 :: nat"
abbreviation (input) "RuntimeMapValue \<equiv> 404 :: nat"
abbreviation (input) "RuntimePanic \<equiv> 500 :: nat"
abbreviation (input) "RuntimePanicValue \<equiv> 501 :: nat"
abbreviation (input) "RuntimeRecovery \<equiv> 502 :: nat"
abbreviation (input) "RuntimePanicNilError \<equiv> 503 :: nat"
abbreviation (input) "RuntimePanicNilValue \<equiv> 504 :: nat"
abbreviation (input) "RuntimeDeferPop \<equiv> 505 :: nat"
abbreviation (input) "RuntimeDeferredRegistry \<equiv> 506 :: nat"
abbreviation (input) "RuntimeIntegerDivide \<equiv> 600 :: nat"
abbreviation (input) "RuntimeIntegerRemainder \<equiv> 601 :: nat"
abbreviation (input) "RuntimeIntegerMax \<equiv> 602 :: nat"
abbreviation (input) "RuntimeIntegerMin \<equiv> 603 :: nat"
abbreviation (input) "RuntimeNumberIntDivide \<equiv> 604 :: nat"
abbreviation (input) "RuntimeNumberIntRemainder \<equiv> 605 :: nat"
abbreviation (input) "RuntimeIntegerNormalizeSigned64 \<equiv> 606 :: nat"
abbreviation (input) "RuntimeIntegerNormalizeUnsigned64 \<equiv> 607 :: nat"
abbreviation (input) "RuntimeFloat32Round \<equiv> 700 :: nat"
abbreviation (input) "RuntimeComplex64 \<equiv> 800 :: nat"
abbreviation (input) "RuntimeComplex128 \<equiv> 801 :: nat"
abbreviation (input) "RuntimeComplexDivide \<equiv> 802 :: nat"
abbreviation (input) "RuntimeComplex64Add \<equiv> 810 :: nat"
abbreviation (input) "RuntimeComplex64Sub \<equiv> 811 :: nat"
abbreviation (input) "RuntimeComplex64Mul \<equiv> 812 :: nat"
abbreviation (input) "RuntimeComplex64Div \<equiv> 813 :: nat"
abbreviation (input) "RuntimeComplex64Neg \<equiv> 814 :: nat"
abbreviation (input) "RuntimeComplex64Equal \<equiv> 815 :: nat"
abbreviation (input) "RuntimeComplex128Add \<equiv> 820 :: nat"
abbreviation (input) "RuntimeComplex128Sub \<equiv> 821 :: nat"
abbreviation (input) "RuntimeComplex128Mul \<equiv> 822 :: nat"
abbreviation (input) "RuntimeComplex128Div \<equiv> 823 :: nat"
abbreviation (input) "RuntimeComplex128Neg \<equiv> 824 :: nat"
abbreviation (input) "RuntimeComplex128Equal \<equiv> 825 :: nat"
abbreviation (input) "RuntimeComplex64Storage \<equiv> 830 :: nat"
abbreviation (input) "RuntimeComplex128Storage \<equiv> 831 :: nat"
abbreviation (input) "RuntimeComplex64ToStorage \<equiv> 832 :: nat"
abbreviation (input) "RuntimeComplex128ToStorage \<equiv> 833 :: nat"
abbreviation (input) "RuntimeComplex64FromStorage \<equiv> 834 :: nat"
abbreviation (input) "RuntimeComplex128FromStorage \<equiv> 835 :: nat"
abbreviation (input) "RuntimeNumberToBigInt \<equiv> 900 :: nat"
abbreviation (input) "RuntimeInterfaceValue \<equiv> 1000 :: nat"
abbreviation (input) "RuntimeInterfaceNonNil \<equiv> 1001 :: nat"
abbreviation (input) "RuntimeInterfaceEqual \<equiv> 1002 :: nat"
abbreviation (input) "RuntimeErrorMethodToken \<equiv> 1003 :: nat"
abbreviation (input) "RuntimeRuntimeErrorToken \<equiv> 1004 :: nat"
abbreviation (input) "RuntimeBuiltinErrorType \<equiv> 1005 :: nat"
abbreviation (input) "RuntimeBuiltinErrorContract \<equiv> 1006 :: nat"
abbreviation (input) "RuntimeBuiltinErrorGuard \<equiv> 1007 :: nat"
abbreviation (input) "RuntimeErrorType \<equiv> 1008 :: nat"
abbreviation (input) "RuntimeErrorContract \<equiv> 1009 :: nat"
abbreviation (input) "RuntimeErrorGuard \<equiv> 1010 :: nat"
abbreviation (input) "RuntimeInterfaceFormat \<equiv> 1011 :: nat"
abbreviation (input) "RuntimeProviderInterfaceBridge \<equiv> 1012 :: nat"
abbreviation (input) "RuntimeInterfaceAdapterFactory \<equiv> 1013 :: nat"
abbreviation (input) "RuntimeEmptyStruct \<equiv> 1050 :: nat"
abbreviation (input) "RuntimeChannel \<equiv> 1100 :: nat"
abbreviation (input) "RuntimeReceiveChannel \<equiv> 1101 :: nat"
abbreviation (input) "RuntimeSendChannel \<equiv> 1102 :: nat"
abbreviation (input) "RuntimeSelectCase \<equiv> 1103 :: nat"
abbreviation (input) "RuntimeSelect \<equiv> 1104 :: nat"
abbreviation (input) "RuntimeGoSpawn \<equiv> 1105 :: nat"
abbreviation (input) "RuntimeSelectReady \<equiv> 1106 :: nat"
abbreviation (input) "RuntimeSelectAttempt \<equiv> 1107 :: nat"
abbreviation (input) "RuntimeKeepAlive \<equiv> 1300 :: nat"
abbreviation (input) "RuntimeSliceHeader32 \<equiv> 1400 :: nat"
abbreviation (input) "RuntimeSliceHeader64 \<equiv> 1401 :: nat"
abbreviation (input) "RuntimeStringHeader32 \<equiv> 1402 :: nat"
abbreviation (input) "RuntimeStringHeader64 \<equiv> 1403 :: nat"
abbreviation (input) "RuntimeStorageRegion \<equiv> 1410 :: nat"
abbreviation (input) "RuntimeRegionAddress \<equiv> 1411 :: nat"
abbreviation (input) "RuntimeRegionRead \<equiv> 1412 :: nat"
abbreviation (input) "RuntimeRegionWrite \<equiv> 1413 :: nat"
abbreviation (input) "RuntimeRegionView \<equiv> 1414 :: nat"
abbreviation (input) "RuntimeStringTextBacking \<equiv> 1500 :: nat"
abbreviation (input) "RuntimeStringPointerBacking \<equiv> 1501 :: nat"
abbreviation (input) "RuntimeStringValue \<equiv> 1502 :: nat"

abbreviation (input) "RuntimeModuleInvalid \<equiv> 0 :: nat"
abbreviation (input) "RuntimeModuleString \<equiv> 1 :: nat"
abbreviation (input) "RuntimeModuleArray \<equiv> 3 :: nat"
abbreviation (input) "RuntimeModuleSlice \<equiv> 4 :: nat"
abbreviation (input) "RuntimeModuleMap \<equiv> 5 :: nat"
abbreviation (input) "RuntimeModulePanic \<equiv> 6 :: nat"
abbreviation (input) "RuntimeModuleInteger \<equiv> 7 :: nat"
abbreviation (input) "RuntimeModuleFloat \<equiv> 8 :: nat"
abbreviation (input) "RuntimeModuleComplex \<equiv> 9 :: nat"
abbreviation (input) "RuntimeModuleConversion \<equiv> 10 :: nat"
abbreviation (input) "RuntimeModuleInterface \<equiv> 11 :: nat"
abbreviation (input) "RuntimeModuleInterfaceValue \<equiv> 12 :: nat"
abbreviation (input) "RuntimeModulePanicNil \<equiv> 13 :: nat"
abbreviation (input) "RuntimeModuleChannel \<equiv> 14 :: nat"
abbreviation (input) "RuntimeModuleStruct \<equiv> 18 :: nat"
abbreviation (input) "RuntimeModuleStorage \<equiv> 19 :: nat"
abbreviation (input) "RuntimeModuleDeferredRegistry \<equiv> 20 :: nat"
abbreviation (input) "RuntimeModuleScalar \<equiv> 21 :: nat"
abbreviation (input) "RuntimeModuleLifetime \<equiv> 22 :: nat"
abbreviation (input) "RuntimeModuleMemoryDescriptor \<equiv> 23 :: nat"
abbreviation (input) "RuntimeModuleMemoryView \<equiv> 24 :: nat"
abbreviation (input) "RuntimeModuleStringValue \<equiv> 25 :: nat"

subsection \<open>Contracts\<close>

record RuntimeSymbolContract =
  contract_module :: RuntimeModule
  contract_outputPath :: string
  contract_exportedName :: string
  contract_typeUsable :: bool
  contract_typeOnly :: bool
  contract_dependencies :: "RuntimeSymbol list"

definition runtimeContract ::
    "RuntimeModule \<Rightarrow> string \<Rightarrow> string \<Rightarrow> bool \<Rightarrow> RuntimeSymbol list \<Rightarrow> RuntimeSymbolContract" where
  "runtimeContract module' outputPath exportedName typeUsable dependencies =
     \<lparr>contract_module = module', contract_outputPath = outputPath, contract_exportedName = exportedName,
      contract_typeUsable = typeUsable, contract_typeOnly = False, contract_dependencies = dependencies\<rparr>"

definition typeOnlyContract ::
    "RuntimeModule \<Rightarrow> string \<Rightarrow> string \<Rightarrow> bool \<Rightarrow> RuntimeSymbol list \<Rightarrow> RuntimeSymbolContract" where
  "typeOnlyContract module' outputPath exportedName typeUsable dependencies =
     (runtimeContract module' outputPath exportedName typeUsable dependencies)\<lparr>contract_typeOnly := True\<rparr>"

definition complexOperationContract :: "string \<Rightarrow> RuntimeSymbol list \<Rightarrow> RuntimeSymbolContract" where
  "complexOperationContract exportedName dependencies =
     runtimeContract RuntimeModuleComplex ''runtime/complex.ts'' exportedName False dependencies"

text \<open>The cases of the switches, in the order of the source.\<close>

definition stringContracts :: "(RuntimeSymbol \<times> RuntimeSymbolContract) list" where
  "stringContracts =
     [(RuntimeKeepAlive, runtimeContract RuntimeModuleLifetime ''runtime/lifetime.ts'' ''goKeepAlive'' False [RuntimeInterfaceValue]),
      (RuntimeStringIndex, runtimeContract RuntimeModuleString ''runtime/string.ts'' ''goStringIndex'' False [RuntimeStringValue]),
      (RuntimeStringSlice, runtimeContract RuntimeModuleString ''runtime/string.ts'' ''goStringSlice'' False [RuntimeStringValue]),
      (RuntimeStringMax, runtimeContract RuntimeModuleString ''runtime/string.ts'' ''goStringMax'' False [RuntimeStringValue]),
      (RuntimeStringMin, runtimeContract RuntimeModuleString ''runtime/string.ts'' ''goStringMin'' False [RuntimeStringValue]),
      (RuntimeStringEncodeRune, runtimeContract RuntimeModuleString ''runtime/string.ts'' ''goStringEncodeRune'' False []),
      (RuntimeStringDecodeRune, runtimeContract RuntimeModuleString ''runtime/string.ts'' ''goStringDecodeRune'' False [])]"

definition arrayContracts :: "(RuntimeSymbol \<times> RuntimeSymbolContract) list" where
  "arrayContracts =
     [(RuntimeArray, runtimeContract RuntimeModuleArray ''runtime/array.ts'' ''GoArray'' True [RuntimePanic, RuntimeStorageRegion, RuntimeRegionRead, RuntimeRegionWrite]),
      (RuntimeArrayFromRegion, runtimeContract RuntimeModuleArray ''runtime/array.ts'' ''goArrayFromRegion'' False [RuntimeArray]),
      (RuntimeArrayAllocate, runtimeContract RuntimeModuleArray ''runtime/array.ts'' ''goArrayAllocate'' False [RuntimeArray]),
      (RuntimeArrayLocation, runtimeContract RuntimeModuleArray ''runtime/array.ts'' ''goArrayLocation'' False [RuntimeArray]),
      (RuntimeArrayPacked, runtimeContract RuntimeModuleArray ''runtime/array.ts'' ''goArrayPacked'' False [RuntimeArray])]"

definition storageContracts :: "(RuntimeSymbol \<times> RuntimeSymbolContract) list" where
  "storageContracts =
     [(RuntimeStorageTypeToken, runtimeContract RuntimeModuleStorage ''runtime/storage.ts'' ''$goStorageType'' True []),
      (RuntimeStoredValue, runtimeContract RuntimeModuleStorage ''runtime/storage.ts'' ''GoStoredValue'' True [RuntimeStorageTypeToken]),
      (RuntimeStorageType, runtimeContract RuntimeModuleStorage ''runtime/storage.ts'' ''GoStorage'' True [RuntimeStoredValue]),
      (RuntimeContainerStorageToken, runtimeContract RuntimeModuleStorage ''runtime/storage.ts'' ''$goContainerStorageType'' True []),
      (RuntimeContainerStoredValue, runtimeContract RuntimeModuleStorage ''runtime/storage.ts'' ''GoContainerStoredValue'' True [RuntimeContainerStorageToken]),
      (RuntimeContainerStorageType, runtimeContract RuntimeModuleStorage ''runtime/storage.ts'' ''GoContainerStorage'' True [RuntimeContainerStoredValue])]"

definition sliceContracts :: "(RuntimeSymbol \<times> RuntimeSymbolContract) list" where
  "sliceContracts =
     [(RuntimeSlice, runtimeContract RuntimeModuleSlice ''runtime/slice.ts'' ''RuntimeSlice'' True [RuntimePanic]),
      (RuntimeSliceAddress, runtimeContract RuntimeModuleSlice ''runtime/slice.ts'' ''goSliceAddress'' False [RuntimeSlice, RuntimeStorageRegion, RuntimeRegionAddress]),
      (RuntimeSliceStorage, runtimeContract RuntimeModuleSlice ''runtime/slice.ts'' ''goSliceAllocate'' False [RuntimeSlice]),
      (RuntimeSliceData, runtimeContract RuntimeModuleSlice ''runtime/slice.ts'' ''goSliceData'' False [RuntimeSliceAddress]),
      (RuntimeSliceProjection, runtimeContract RuntimeModuleSlice ''runtime/slice.ts'' ''RuntimeSliceProjection'' True [RuntimeSlice]),
      (RuntimeSliceArrayPointer, runtimeContract RuntimeModuleSlice ''runtime/slice.ts'' ''goSliceArrayPointer'' False [RuntimeSlice, RuntimeSliceAddress, RuntimeArray, RuntimeArrayFromRegion, RuntimeRegionAddress]),
      (RuntimeArraySlice, runtimeContract RuntimeModuleSlice ''runtime/slice.ts'' ''goArraySlice'' False [RuntimeSlice, RuntimeArray, RuntimeArrayLocation, RuntimeSliceFromRegion]),
      (RuntimeSliceAppendSlice, runtimeContract RuntimeModuleSlice ''runtime/slice.ts'' ''goSliceAppendSlice'' False [RuntimeSlice]),
      (RuntimeSliceClear, runtimeContract RuntimeModuleSlice ''runtime/slice.ts'' ''goSliceClear'' False [RuntimeSlice]),
      (RuntimeSliceRegion, runtimeContract RuntimeModuleSlice ''runtime/slice.ts'' ''goSliceRegion'' False [RuntimeSlice, RuntimeSliceAddress, RuntimePanic, RuntimeSliceFromRegion]),
      (RuntimeSliceElementRegion, runtimeContract RuntimeModuleSlice ''runtime/slice.ts'' ''goSliceElementRegion'' False [RuntimeSlice, RuntimeSliceAddress, RuntimeStorageRegion, RuntimeRegionView, RuntimePanic]),
      (RuntimeSliceFromRegion, runtimeContract RuntimeModuleSlice ''runtime/slice.ts'' ''goSliceFromRegion'' False [RuntimeSlice, RuntimeSlicePointer, RuntimeStorageRegion]),
      (RuntimeSlicePointer, runtimeContract RuntimeModuleSlice ''runtime/slice.ts'' ''RuntimePointerSlice'' True [RuntimeSlice, RuntimeSliceAddress, RuntimeSliceStorage, RuntimeStorageRegion, RuntimeRegionAddress, RuntimeRegionRead, RuntimeRegionWrite, RuntimeRegionView])]"

definition mapContracts :: "(RuntimeSymbol \<times> RuntimeSymbolContract) list" where
  "mapContracts =
     [(RuntimeMap, runtimeContract RuntimeModuleMap ''runtime/map.ts'' ''GoMap'' True [RuntimePanic, RuntimeMapValue]),
      (RuntimeMapHash, runtimeContract RuntimeModuleMap ''runtime/map.ts'' ''GoMapHash'' False []),
      (RuntimeMapClear, runtimeContract RuntimeModuleMap ''runtime/map.ts'' ''goMapClear'' False [RuntimeMap]),
      (RuntimeMapKeys, runtimeContract RuntimeModuleMap ''runtime/map.ts'' ''goMapKeys'' False [RuntimeMap]),
      (RuntimeMapValue, runtimeContract RuntimeModuleMap ''runtime/map.ts'' ''GoMapValue'' True [])]"

definition panicContracts :: "(RuntimeSymbol \<times> RuntimeSymbolContract) list" where
  "panicContracts =
     [(RuntimePanic, runtimeContract RuntimeModulePanic ''runtime/panic.ts'' ''GoPanic'' True [RuntimeInterfaceValue, RuntimePanicValue]),
      (RuntimePanicValue, runtimeContract RuntimeModulePanic ''runtime/panic.ts'' ''GoRuntimePanicValue'' True [RuntimeStringValue, RuntimeInterfaceValue, RuntimeErrorMethodToken, RuntimeRuntimeErrorToken]),
      (RuntimeRecovery, runtimeContract RuntimeModulePanic ''runtime/panic.ts'' ''GoRecovery'' True [RuntimePanic, RuntimeInterfaceValue]),
      (RuntimeDeferPop, runtimeContract RuntimeModulePanic ''runtime/panic.ts'' ''goDeferPop'' False [RuntimePanic]),
      (RuntimeDeferredRegistry, runtimeContract RuntimeModuleDeferredRegistry ''runtime/deferred-registry.ts'' ''GoDeferredRegistry'' True [RuntimeInterfaceValue]),
      (RuntimePanicNilError, runtimeContract RuntimeModulePanicNil ''runtime/panic-nil.ts'' ''GoPanicNilError'' True []),
      (RuntimePanicNilValue, runtimeContract RuntimeModulePanicNil ''runtime/panic-nil.ts'' ''GoPanicNilValue'' True [RuntimePanicNilError, RuntimePanicValue, RuntimeInterfaceValue])]"

definition integerContracts :: "(RuntimeSymbol \<times> RuntimeSymbolContract) list" where
  "integerContracts =
     [(RuntimeIntegerDivide, runtimeContract RuntimeModuleInteger ''runtime/integer.ts'' ''goIntegerDivide'' False [RuntimePanic]),
      (RuntimeIntegerRemainder, runtimeContract RuntimeModuleInteger ''runtime/integer.ts'' ''goIntegerRemainder'' False [RuntimePanic]),
      (RuntimeIntegerMax, runtimeContract RuntimeModuleInteger ''runtime/integer.ts'' ''goIntegerMax'' False []),
      (RuntimeIntegerMin, runtimeContract RuntimeModuleInteger ''runtime/integer.ts'' ''goIntegerMin'' False []),
      (RuntimeNumberIntDivide, runtimeContract RuntimeModuleInteger ''runtime/integer.ts'' ''goNumberIntegerDivide'' False [RuntimePanic]),
      (RuntimeNumberIntRemainder, runtimeContract RuntimeModuleInteger ''runtime/integer.ts'' ''goNumberIntegerRemainder'' False [RuntimePanic]),
      (RuntimeIntegerNormalizeSigned64, runtimeContract RuntimeModuleInteger ''runtime/integer.ts'' ''goInt64'' False []),
      (RuntimeIntegerNormalizeUnsigned64, runtimeContract RuntimeModuleInteger ''runtime/integer.ts'' ''goUint64'' False []),
      (RuntimeFloat32Round, runtimeContract RuntimeModuleFloat ''runtime/float.ts'' ''goFloat32'' False [])]"

definition complexContracts :: "(RuntimeSymbol \<times> RuntimeSymbolContract) list" where
  "complexContracts =
     [(RuntimeComplex64, runtimeContract RuntimeModuleComplex ''runtime/complex.ts'' ''GoComplex64'' True [RuntimeFloat32Round]),
      (RuntimeComplex64Storage, runtimeContract RuntimeModuleComplex ''runtime/complex.ts'' ''GoComplex64Storage'' True []),
      (RuntimeComplex128Storage, runtimeContract RuntimeModuleComplex ''runtime/complex.ts'' ''GoComplex128Storage'' True []),
      (RuntimeComplex64ToStorage, runtimeContract RuntimeModuleComplex ''runtime/complex.ts'' ''goComplex64ToStorage'' False [RuntimeComplex64, RuntimeComplex64Storage]),
      (RuntimeComplex128ToStorage, runtimeContract RuntimeModuleComplex ''runtime/complex.ts'' ''goComplex128ToStorage'' False [RuntimeComplex128, RuntimeComplex128Storage]),
      (RuntimeComplex64FromStorage, runtimeContract RuntimeModuleComplex ''runtime/complex.ts'' ''goComplex64FromStorage'' False [RuntimeComplex64, RuntimeComplex64Storage]),
      (RuntimeComplex128FromStorage, runtimeContract RuntimeModuleComplex ''runtime/complex.ts'' ''goComplex128FromStorage'' False [RuntimeComplex128, RuntimeComplex128Storage]),
      (RuntimeComplex128, runtimeContract RuntimeModuleComplex ''runtime/complex.ts'' ''GoComplex128'' True []),
      (RuntimeComplexDivide, runtimeContract RuntimeModuleComplex ''runtime/complex.ts'' ''goComplexDivide'' False []),
      (RuntimeComplex64Add, complexOperationContract ''goComplex64Add'' [RuntimeComplex64]),
      (RuntimeComplex64Sub, complexOperationContract ''goComplex64Subtract'' [RuntimeComplex64]),
      (RuntimeComplex64Mul, complexOperationContract ''goComplex64Multiply'' [RuntimeComplex64]),
      (RuntimeComplex64Div, complexOperationContract ''goComplex64Divide'' [RuntimeComplex64, RuntimeComplexDivide]),
      (RuntimeComplex64Neg, complexOperationContract ''goComplex64Negate'' [RuntimeComplex64]),
      (RuntimeComplex64Equal, complexOperationContract ''goComplex64Equal'' [RuntimeComplex64]),
      (RuntimeComplex128Add, complexOperationContract ''goComplex128Add'' [RuntimeComplex128]),
      (RuntimeComplex128Sub, complexOperationContract ''goComplex128Subtract'' [RuntimeComplex128]),
      (RuntimeComplex128Mul, complexOperationContract ''goComplex128Multiply'' [RuntimeComplex128]),
      (RuntimeComplex128Div, complexOperationContract ''goComplex128Divide'' [RuntimeComplex128, RuntimeComplexDivide]),
      (RuntimeComplex128Neg, complexOperationContract ''goComplex128Negate'' [RuntimeComplex128]),
      (RuntimeComplex128Equal, complexOperationContract ''goComplex128Equal'' [RuntimeComplex128])]"

definition conversionContracts :: "(RuntimeSymbol \<times> RuntimeSymbolContract) list" where
  "conversionContracts =
     [(RuntimeNumberToBigInt, runtimeContract RuntimeModuleConversion ''runtime/conversion.ts'' ''goNumberToBigInt'' False []),
      (RuntimeEmptyStruct, runtimeContract RuntimeModuleStruct ''runtime/struct.ts'' ''GoEmptyStruct'' True [])]"

definition interfaceContracts :: "(RuntimeSymbol \<times> RuntimeSymbolContract) list" where
  "interfaceContracts =
     [(RuntimeInterfaceValue, runtimeContract RuntimeModuleInterfaceValue ''runtime/interface-value.ts'' ''GoInterfaceValue'' True []),
      (RuntimeInterfaceNonNil, runtimeContract RuntimeModuleInterface ''runtime/interface.ts'' ''goInterfaceNonNil'' False [RuntimeInterfaceValue, RuntimePanic]),
      (RuntimeInterfaceEqual, runtimeContract RuntimeModuleInterface ''runtime/interface.ts'' ''goInterfaceEqual'' False [RuntimeInterfaceValue]),
      (RuntimeErrorMethodToken, runtimeContract RuntimeModuleInterfaceValue ''runtime/interface-value.ts'' ''GoErrorMethodToken'' False []),
      (RuntimeRuntimeErrorToken, runtimeContract RuntimeModuleInterfaceValue ''runtime/interface-value.ts'' ''GoRuntimeErrorMethodToken'' False []),
      (RuntimeBuiltinErrorType, typeOnlyContract RuntimeModuleInterfaceValue ''runtime/interface-value.ts'' ''GoError'' True [RuntimeInterfaceValue, RuntimeErrorMethodToken, RuntimeStringValue]),
      (RuntimeBuiltinErrorContract, runtimeContract RuntimeModuleInterfaceValue ''runtime/interface-value.ts'' ''GoError$contract'' False [RuntimeErrorMethodToken]),
      (RuntimeBuiltinErrorGuard, runtimeContract RuntimeModuleInterfaceValue ''runtime/interface-value.ts'' ''GoError$is'' False [RuntimeBuiltinErrorType, RuntimeBuiltinErrorContract]),
      (RuntimeErrorType, typeOnlyContract RuntimeModuleInterfaceValue ''runtime/interface-value.ts'' ''GoRuntimeError'' True [RuntimeInterfaceValue, RuntimeErrorMethodToken, RuntimeRuntimeErrorToken, RuntimeStringValue]),
      (RuntimeErrorContract, runtimeContract RuntimeModuleInterfaceValue ''runtime/interface-value.ts'' ''GoRuntimeError$contract'' False [RuntimeErrorMethodToken, RuntimeRuntimeErrorToken]),
      (RuntimeErrorGuard, runtimeContract RuntimeModuleInterfaceValue ''runtime/interface-value.ts'' ''GoRuntimeError$is'' False [RuntimeErrorType, RuntimeErrorContract]),
      (RuntimeInterfaceFormat, runtimeContract RuntimeModuleInterface ''runtime/interface.ts'' ''GoInterfaceFormat'' False [RuntimePanic]),
      (RuntimeProviderInterfaceBridge, runtimeContract RuntimeModuleInterfaceValue ''runtime/interface-value.ts'' ''GoProviderInterfaceBridge'' True [RuntimeInterfaceValue]),
      (RuntimeInterfaceAdapterFactory, runtimeContract RuntimeModuleInterfaceValue ''runtime/interface-value.ts'' ''createGoInterfaceAdapter'' False [RuntimeInterfaceValue])]"

definition concurrencyContracts :: "(RuntimeSymbol \<times> RuntimeSymbolContract) list" where
  "concurrencyContracts =
     [(RuntimeChannel, runtimeContract RuntimeModuleChannel ''runtime/channel.ts'' ''GoChannel'' True [RuntimeReceiveChannel, RuntimeSendChannel, RuntimeSelectCase, RuntimePanic]),
      (RuntimeReceiveChannel, runtimeContract RuntimeModuleChannel ''runtime/channel.ts'' ''GoReceiveChannel'' True [RuntimeSelectCase]),
      (RuntimeSendChannel, runtimeContract RuntimeModuleChannel ''runtime/channel.ts'' ''GoSendChannel'' True [RuntimeSelectCase]),
      (RuntimeSelectCase, runtimeContract RuntimeModuleChannel ''runtime/channel.ts'' ''GoSelectCase'' True []),
      (RuntimeSelect, runtimeContract RuntimeModuleChannel ''runtime/channel.ts'' ''goSelect'' False [RuntimeSelectReady, RuntimeSelectAttempt]),
      (RuntimeGoSpawn, runtimeContract RuntimeModuleChannel ''runtime/channel.ts'' ''goSpawn'' False []),
      (RuntimeSelectReady, runtimeContract RuntimeModuleChannel ''runtime/channel.ts'' ''goSelectReady'' False [RuntimeSelectAttempt]),
      (RuntimeSelectAttempt, runtimeContract RuntimeModuleChannel ''runtime/channel.ts'' ''goSelectAttempt'' False [RuntimeSelectCase])]"

definition descriptorContracts :: "(RuntimeSymbol \<times> RuntimeSymbolContract) list" where
  "descriptorContracts =
     [(RuntimeStringTextBacking, runtimeContract RuntimeModuleStringValue ''runtime/string-value.ts'' ''GoStringTextBacking'' True []),
      (RuntimeStringPointerBacking, runtimeContract RuntimeModuleStringValue ''runtime/string-value.ts'' ''GoStringPointerBacking'' True [RuntimeStorageRegion, RuntimeRegionAddress, RuntimeRegionRead]),
      (RuntimeStringValue, runtimeContract RuntimeModuleStringValue ''runtime/string-value.ts'' ''GoString'' True [RuntimeStringTextBacking, RuntimeStringPointerBacking, RuntimeStorageRegion, RuntimePanic]),
      (RuntimeStorageRegion, typeOnlyContract RuntimeModuleMemoryView ''runtime/memory-view.ts'' ''GoStorageRegion'' True []),
      (RuntimeRegionAddress, runtimeContract RuntimeModuleMemoryView ''runtime/memory-view.ts'' ''goRegionAddress'' False [RuntimeStorageRegion]),
      (RuntimeRegionRead, runtimeContract RuntimeModuleMemoryView ''runtime/memory-view.ts'' ''goRegionRead'' False [RuntimeStorageRegion, RuntimePanic]),
      (RuntimeRegionWrite, runtimeContract RuntimeModuleMemoryView ''runtime/memory-view.ts'' ''goRegionWrite'' False [RuntimeStorageRegion]),
      (RuntimeRegionView, runtimeContract RuntimeModuleMemoryView ''runtime/memory-view.ts'' ''goRegionView'' False [RuntimeStorageRegion]),
      (RuntimeSliceHeader32, runtimeContract RuntimeModuleMemoryDescriptor ''runtime/memory-descriptor.ts'' ''GoSliceHeader32'' True []),
      (RuntimeSliceHeader64, runtimeContract RuntimeModuleMemoryDescriptor ''runtime/memory-descriptor.ts'' ''GoSliceHeader64'' True []),
      (RuntimeStringHeader32, runtimeContract RuntimeModuleMemoryDescriptor ''runtime/memory-descriptor.ts'' ''GoStringHeader32'' True []),
      (RuntimeStringHeader64, runtimeContract RuntimeModuleMemoryDescriptor ''runtime/memory-descriptor.ts'' ''GoStringHeader64'' True [])]"

definition descriptorRuntimeContract :: "RuntimeSymbol \<Rightarrow> RuntimeSymbolContract option" where
  "descriptorRuntimeContract symbol = map_of descriptorContracts symbol"

definition interfaceRuntimeContract :: "RuntimeSymbol \<Rightarrow> RuntimeSymbolContract option" where
  "interfaceRuntimeContract symbol = map_of interfaceContracts symbol"

definition concurrencyRuntimeContract :: "RuntimeSymbol \<Rightarrow> emit_error + RuntimeSymbolContract" where
  "concurrencyRuntimeContract symbol =
     (case map_of concurrencyContracts symbol of
        Some contract \<Rightarrow> Inr contract
      | None \<Rightarrow> Inl (RuntimeSymbolError symbol))"

definition switchContracts :: "(RuntimeSymbol \<times> RuntimeSymbolContract) list" where
  "switchContracts =
     stringContracts @ arrayContracts @ storageContracts @ sliceContracts @ mapContracts @
     panicContracts @ integerContracts @ complexContracts @ conversionContracts"

definition RuntimeContract :: "RuntimeSymbol \<Rightarrow> emit_error + RuntimeSymbolContract" where
  "RuntimeContract symbol =
     (case descriptorRuntimeContract symbol of
        Some contract \<Rightarrow> Inr contract
      | None \<Rightarrow>
          (case map_of switchContracts symbol of
             Some contract \<Rightarrow> Inr contract
           | None \<Rightarrow>
               (case interfaceRuntimeContract symbol of
                  Some contract \<Rightarrow> Inr contract
                | None \<Rightarrow> concurrencyRuntimeContract symbol)))"

lemmas contract_tables =
  descriptorContracts_def stringContracts_def arrayContracts_def storageContracts_def
  sliceContracts_def mapContracts_def panicContracts_def integerContracts_def complexContracts_def
  conversionContracts_def interfaceContracts_def concurrencyContracts_def

text \<open>All symbols of the tables; a symbol has a contract exactly when it is one of them.\<close>

definition all_contracts :: "(RuntimeSymbol \<times> RuntimeSymbolContract) list" where
  "all_contracts = descriptorContracts @ switchContracts @ interfaceContracts @ concurrencyContracts"

lemma RuntimeContract_map_of:
  "RuntimeContract symbol =
     (case map_of all_contracts symbol of Some c \<Rightarrow> Inr c | None \<Rightarrow> Inl (RuntimeSymbolError symbol))"
  by (simp add: RuntimeContract_def all_contracts_def descriptorRuntimeContract_def
      interfaceRuntimeContract_def concurrencyRuntimeContract_def map_add_def split: option.split)

lemmas contract_rows =
  all_contracts_def switchContracts_def contract_tables runtimeContract_def typeOnlyContract_def
  complexOperationContract_def

lemma contracts_distinct: "distinct (List.map fst all_contracts)"
  by (simp add: contract_rows)

lemma RuntimeContract_row:
  "(symbol, c) \<in> set all_contracts \<Longrightarrow> RuntimeContract symbol = Inr c"
  using contracts_distinct by (simp add: RuntimeContract_map_of map_of_is_SomeI)

text \<open>Every dependency of a symbol is a symbol with a contract.\<close>

definition known_symbols :: "RuntimeSymbol list" where
  "known_symbols = List.map fst all_contracts"

lemma known_symbols_eq:
  "known_symbols = [
      1500, 1501, 1502, 1410, 1411, 1412, 1413, 1414, 1400, 1401, 1402, 1403, 1300, 1, 2, 3, 4,
      5, 6, 200, 206, 201, 203, 204, 250, 251, 252, 253, 254, 255, 300, 301, 302, 310, 303, 304,
      305, 307, 308, 309, 313, 311, 312, 400, 401, 402, 403, 404, 500, 501, 502, 505, 506, 503,
      504, 600, 601, 602, 603, 604, 605, 606, 607, 700, 800, 830, 831, 832, 833, 834, 835, 801,
      802, 810, 811, 812, 813, 814, 815, 820, 821, 822, 823, 824, 825, 900, 1050, 1000, 1001,
      1002, 1003, 1004, 1005, 1006, 1007, 1008, 1009, 1010, 1011, 1012, 1013, 1100, 1101, 1102,
      1103, 1104, 1105, 1106, 1107]"
  by (simp add: known_symbols_def contract_rows)

lemma contracts_closed:
  "list_all (\<lambda>(s, c). list_all (\<lambda>d. d \<in> set known_symbols) (contract_dependencies c)) all_contracts"
  unfolding known_symbols_eq by (simp add: contract_rows)

end
