(* ===== verification/Emission.thy ===== *)
theory Emission
  imports RuntimeContracts
begin

text \<open>
  What an expression handler works with: the context of an occurrence, references to names of the
  runtime package, and emissions (\<open>internal/emit/api/result.go\<close>) - statements that have to run
  before a value is read, the value, and the requests to the root of the file - together with the
  operand sequences that keep Go's evaluation order (\<open>internal/emit/expression/operands/order.go\<close>).

  A request is a leaf of the request tree (\<open>RootRequests\<close> has the tree itself), so that
  \<open>CombineRequests\<close> is concatenation; the type of requests is an argument.  The naming interface is
  the field \<open>ctx_Runtime\<close> of the context and the argument \<open>temporary\<close>; both may fail.
\<close>

subsection \<open>Names\<close>

datatype ImportPhase = ImportPhaseInvalid | ImportPhaseType | ImportPhaseValue

record 'q NameReference =
  ref_qualifier :: string
  ref_name :: string
  ref_requests :: "'q list"
  ref_provider :: bool

definition NewNameReference :: "string \<Rightarrow> 'q list \<Rightarrow> emit_error + 'q NameReference" where
  "NewNameReference name requests =
     (if name = '''' then Inl (NamingError ''reference name is empty'')
      else Inr \<lparr>ref_qualifier = '''', ref_name = name, ref_requests = requests, ref_provider = False\<rparr>)"

definition NameReference_Expression :: "'q NameReference \<Rightarrow> ts_expression" where
  "NameReference_Expression r =
     (if ref_qualifier r = '''' then Identifier (ref_name r)
      else PropertyAccessExpression (Identifier (ref_qualifier r)) (ref_name r))"

record 'q emit_context =
  ctx_IntegerRepresentation :: IntegerRepresentation
  ctx_TypesSizes :: "nat option"
  ctx_Role :: string
  ctx_Runtime :: "RuntimeSymbol \<Rightarrow> ImportPhase \<Rightarrow> emit_error + 'q NameReference"

subsection \<open>Emissions\<close>

record 'q ExpressionEmission =
  emission_Before :: "ts_statement list"
  emission_Value :: ts_expression
  emission_Requests :: "'q list"

text \<open>A nil value is \<open>None\<close>; the other constructor panics on nil, which its argument type excludes.\<close>

definition NewExpressionEmission ::
    "ts_statement list \<Rightarrow> ts_expression option \<Rightarrow> 'q list \<Rightarrow> emit_error + 'q ExpressionEmission" where
  "NewExpressionEmission before value' requests =
     (case value' of
        None \<Rightarrow> Inl (ResultError ''expression'' ''target value is nil'')
      | Some v \<Rightarrow> Inr \<lparr>emission_Before = before, emission_Value = v, emission_Requests = requests\<rparr>)"

definition DirectExpression :: "ts_expression \<Rightarrow> 'q list \<Rightarrow> 'q ExpressionEmission" where
  "DirectExpression value' requests =
     \<lparr>emission_Before = [], emission_Value = value', emission_Requests = requests\<rparr>"

definition CombineRequests :: "'q list list \<Rightarrow> 'q list" where
  "CombineRequests groups = concat groups"

lemma DirectExpression_simps [simp]:
  "emission_Before (DirectExpression v q) = []"
  "emission_Value (DirectExpression v q) = v"
  "emission_Requests (DirectExpression v q) = q"
  by (simp_all add: DirectExpression_def)

lemma NewExpressionEmission_Some [simp]:
  "NewExpressionEmission b (Some v) q =
     Inr \<lparr>emission_Before = b, emission_Value = v, emission_Requests = q\<rparr>"
  by (simp add: NewExpressionEmission_def)

subsection \<open>Intrinsics and panics\<close>

definition TargetGlobalAnchorName :: string where
  "TargetGlobalAnchorName = ''globalThis''"

datatype TargetIntrinsic =
    TargetIntrinsicNumber | TargetIntrinsicString | TargetIntrinsicBigInt | TargetIntrinsicMath
  | TargetIntrinsicObject | TargetIntrinsicPromise | TargetIntrinsicError

fun TargetIntrinsic_String :: "TargetIntrinsic \<Rightarrow> string" where
  "TargetIntrinsic_String TargetIntrinsicNumber = ''Number''"
| "TargetIntrinsic_String TargetIntrinsicString = ''String''"
| "TargetIntrinsic_String TargetIntrinsicBigInt = ''BigInt''"
| "TargetIntrinsic_String TargetIntrinsicMath = ''Math''"
| "TargetIntrinsic_String TargetIntrinsicObject = ''Object''"
| "TargetIntrinsic_String TargetIntrinsicPromise = ''Promise''"
| "TargetIntrinsic_String TargetIntrinsicError = ''Error''"

definition TargetIntrinsic_Expression :: "TargetIntrinsic \<Rightarrow> ts_expression" where
  "TargetIntrinsic_Expression i =
     PropertyAccessExpression (Identifier TargetGlobalAnchorName) (TargetIntrinsic_String i)"

definition staticCall :: "string \<Rightarrow> string \<Rightarrow> ts_expression \<Rightarrow> ts_expression" where
  "staticCall className memberName value' =
     CallExpression (PropertyAccessExpression (Identifier className) memberName) [value']"

definition panic_Call :: "string \<Rightarrow> ts_expression \<Rightarrow> ts_expression" where
  "panic_Call className message = staticCall className ''raiseRuntime'' message"

subsection \<open>Operand sequences\<close>

datatype 'q operand_item = Present "'q ExpressionEmission" | Omitted ts_expression

record 'q operand_sequence =
  seq_before :: "ts_statement list"
  seq_values :: "ts_expression list"
  seq_requests :: "'q list"

definition captures :: "'q operand_item list \<Rightarrow> bool" where
  "captures items = list_ex (\<lambda>item. case item of Present e \<Rightarrow> emission_Before e \<noteq> [] | Omitted _ \<Rightarrow> False) items"

text \<open>\<open>temporary\<close> is \<open>Names().Temporary\<close>, with the state of the naming provider.\<close>

fun preserve_items ::
    "('n \<Rightarrow> (emit_error + string) \<times> 'n) \<Rightarrow> bool \<Rightarrow> 'q operand_item list \<Rightarrow>
       'q operand_sequence \<Rightarrow> 'n \<Rightarrow> (emit_error + 'q operand_sequence) \<times> 'n" where
  "preserve_items temporary capture [] s n = (Inr s, n)"
| "preserve_items temporary capture (Omitted v # items) s n =
     preserve_items temporary capture items (s\<lparr>seq_values := seq_values s @ [v]\<rparr>) n"
| "preserve_items temporary capture (Present e # items) s n =
     (let s = s\<lparr>seq_requests := seq_requests s @ emission_Requests e\<rparr> in
      if \<not> capture then
        preserve_items temporary capture items (s\<lparr>seq_values := seq_values s @ [emission_Value e]\<rparr>) n
      else
        (case temporary n of
           (Inl err, n) \<Rightarrow> (Inl err, n)
         | (Inr name, n) \<Rightarrow>
             preserve_items temporary capture items
               (s\<lparr>seq_before := seq_before s @ emission_Before e @
                    [VariableStatement NodeFlagsConst name None (emission_Value e)],
                  seq_values := seq_values s @ [Identifier name]\<rparr>) n))"

definition Preserve ::
    "('n \<Rightarrow> (emit_error + string) \<times> 'n) \<Rightarrow> 'q operand_item list \<Rightarrow> 'n \<Rightarrow>
       (emit_error + 'q operand_sequence) \<times> 'n" where
  "Preserve temporary items n =
     preserve_items temporary (captures items) items
       \<lparr>seq_before = [], seq_values = [], seq_requests = []\<rparr> n"

record 'q operand_pair =
  pair_sequence :: "'q operand_sequence"
  pair_left :: "'q ExpressionEmission"
  pair_right :: "'q ExpressionEmission"

definition PreservePair ::
    "('n \<Rightarrow> (emit_error + string) \<times> 'n) \<Rightarrow> 'q ExpressionEmission \<Rightarrow> 'q ExpressionEmission \<Rightarrow> 'n \<Rightarrow>
       (emit_error + 'q operand_pair) \<times> 'n" where
  "PreservePair temporary left right n =
     (case Preserve temporary [Present left, Present right] n of
        (Inl err, n) \<Rightarrow> (Inl err, n)
      | (Inr sequence', n) \<Rightarrow>
          (Inr \<lparr>pair_sequence = sequence',
                pair_left = DirectExpression (seq_values sequence' ! 0) (emission_Requests left),
                pair_right = DirectExpression (seq_values sequence' ! 1) (emission_Requests right)\<rparr>, n))"

definition Finish :: "'q operand_pair \<Rightarrow> 'q ExpressionEmission \<Rightarrow> emit_error + 'q ExpressionEmission" where
  "Finish pair target =
     NewExpressionEmission (seq_before (pair_sequence pair) @ emission_Before target)
       (Some (emission_Value target)) (emission_Requests target)"

end
