(* ===== verification/IntegerEmission.thy ===== *)
theory IntegerEmission
  imports IntegerCarriers Emission
begin

text \<open>
  The integer code generator: normalization and literals (\<open>internal/emit/value/integer\<close>), binary
  operators and variable shifts (\<open>internal/emit/expression/binary/integer\<close>), unary operators
  (\<open>internal/emit/expression/unary/operation\<close>) and conversions
  (\<open>internal/emit/value/integer/conversion\<close>).

  A handler returns an error, or an emission and whether it was handled; the Go functions return
  the zero emission with \<open>false\<close>, here \<open>Inr None\<close>.
\<close>

type_synonym 'q emitted = "emit_error + 'q ExpressionEmission"
type_synonym 'q handled = "emit_error + 'q ExpressionEmission option"

subsection \<open>Normalization\<close>

definition NormalizeNumber :: "Carrier \<Rightarrow> ts_expression \<Rightarrow> ts_expression" where
  "NormalizeNumber carrier value' =
     (if 32 < carrier_width carrier then value'
      else if carrier_width carrier = 32 then
        BinaryExpression value'
          (if carrier_signed carrier then BarToken else GreaterThanGreaterThanGreaterThanToken)
          (NumericLiteral ''0'')
      else if carrier_signed carrier then
        (let distance = NumericLiteral (itoa (32 - carrier_width carrier)) in
         BinaryExpression (BinaryExpression value' LessThanLessThanToken distance)
           GreaterThanGreaterThanToken distance)
      else
        BinaryExpression value' AmpersandToken
          (NumericLiteral (FormatUint (push_bit (carrier_width carrier) 1 - 1))))"

definition normalizeBigInt :: "'q emit_context \<Rightarrow> Carrier \<Rightarrow> ts_expression \<Rightarrow> 'q emitted" where
  "normalizeBigInt ctx carrier value' =
     (if carrier_width carrier \<noteq> 64 then
        Inl (InvariantError (ctx_Role ctx) ''bigint carrier does not have 64-bit width'')
      else
        (let symbol = (if carrier_signed carrier then RuntimeIntegerNormalizeSigned64
                       else RuntimeIntegerNormalizeUnsigned64) in
         case ctx_Runtime ctx symbol ImportPhaseValue of
           Inl e \<Rightarrow> Inl e
         | Inr reference \<Rightarrow>
             Inr (DirectExpression
               (CallExpression (NameReference_Expression reference) [value'])
               (ref_requests reference))))"

definition NormalizeFixedWidth :: "'q emit_context \<Rightarrow> Carrier \<Rightarrow> ts_expression \<Rightarrow> 'q emitted" where
  "NormalizeFixedWidth ctx carrier value' =
     (case CarrierRepresentation (ctx_IntegerRepresentation ctx) carrier of
        None \<Rightarrow> Inl (IntegerRepresentationError (ctx_IntegerRepresentation ctx))
      | Some IntegerCarrierBigInt \<Rightarrow> normalizeBigInt ctx carrier value'
      | Some IntegerCarrierNumber \<Rightarrow> Inr (DirectExpression (NormalizeNumber carrier value') [])
      | Some chosen \<Rightarrow> Inl (IntegerCarrierError chosen))"

subsection \<open>Literals\<close>

definition CarrierLiteral :: "'q emit_context \<Rightarrow> Carrier \<Rightarrow> string \<Rightarrow> emit_error + ts_expression" where
  "CarrierLiteral ctx carrier decimal =
     (case NewScalarABIFromSizes (ctx_IntegerRepresentation ctx) (ctx_TypesSizes ctx) of
        Inl e \<Rightarrow> Inl e
      | Inr abi \<Rightarrow> IntegerLiteral abi (carrier_alias carrier) decimal)"

definition Literal :: "'q emit_context \<Rightarrow> go_type option \<Rightarrow> string \<Rightarrow> emit_error + ts_expression" where
  "Literal ctx sourceType decimal =
     (case Describe (ctx_TypesSizes ctx) sourceType of
        None \<Rightarrow> Inl (IntegerCarrierError IntegerCarrierInvalid)
      | Some carrier \<Rightarrow> CarrierLiteral ctx carrier decimal)"

definition EmitConstant ::
    "'q emit_context \<Rightarrow> go_type option \<Rightarrow> constant_value option \<Rightarrow> 'q emitted" where
  "EmitConstant ctx targetType value' =
     (case Describe (ctx_TypesSizes ctx) targetType of
        None \<Rightarrow> Inl (UnsupportedError ''expression'')
      | Some carrier \<Rightarrow>
          (case FormatConstant (ctx_IntegerRepresentation ctx) carrier value' of
             None \<Rightarrow> Inl (UnsupportedError ''expression'')
           | Some (magnitude, negative) \<Rightarrow>
               (case CarrierLiteral ctx carrier magnitude of
                  Inl e \<Rightarrow> Inl e
                | Inr target \<Rightarrow>
                    Inr (DirectExpression
                      (if negative then PrefixUnaryExpression MinusPrefix target else target) []))))"

subsection \<open>Binary operators\<close>

definition isComparison :: "go_token \<Rightarrow> bool" where
  "isComparison operator \<longleftrightarrow> operator \<in> {EQL, NEQ, LSS, LEQ, GTR, GEQ}"

definition needsUint32Normalization :: "'q emit_context \<Rightarrow> Carrier \<Rightarrow> go_token \<Rightarrow> bool" where
  "needsUint32Normalization ctx carrier operator =
     (if \<not> RequiresUint32Normalization (ctx_IntegerRepresentation ctx) carrier then False
      else operator \<in> {AND_token, OR_token, XOR_token, SHL})"

fun targetOperator :: "'q emit_context \<Rightarrow> go_token \<Rightarrow> Carrier \<Rightarrow> binary_operator option" where
  "targetOperator ctx ADD carrier = Some PlusToken"
| "targetOperator ctx SUB carrier = Some MinusToken"
| "targetOperator ctx MUL carrier = Some AsteriskToken"
| "targetOperator ctx AND_token carrier = Some AmpersandToken"
| "targetOperator ctx OR_token carrier = Some BarToken"
| "targetOperator ctx XOR_token carrier = Some CaretToken"
| "targetOperator ctx SHL carrier = Some LessThanLessThanToken"
| "targetOperator ctx SHR carrier =
     Some (if RequiresUint32Normalization (ctx_IntegerRepresentation ctx) carrier
           then GreaterThanGreaterThanGreaterThanToken else GreaterThanGreaterThanToken)"
| "targetOperator ctx EQL carrier = Some EqualsEqualsEqualsToken"
| "targetOperator ctx NEQ carrier = Some ExclamationEqualsEqualsToken"
| "targetOperator ctx LSS carrier = Some LessThanToken"
| "targetOperator ctx LEQ carrier = Some LessThanEqualsToken"
| "targetOperator ctx GTR carrier = Some GreaterThanToken"
| "targetOperator ctx GEQ carrier = Some GreaterThanEqualsToken"
| "targetOperator ctx _ carrier = None"

definition exactNumberMultiplication :: "ts_expression \<Rightarrow> ts_expression \<Rightarrow> ts_expression" where
  "exactNumberMultiplication left right =
     CallExpression
       (PropertyAccessExpression (TargetIntrinsic_Expression TargetIntrinsicMath) ''imul'')
       [left, right]"

definition alreadyNormalizedNumberResult :: "'q emit_context \<Rightarrow> Carrier \<Rightarrow> go_token \<Rightarrow> bool" where
  "alreadyNormalizedNumberResult ctx carrier operator =
     (if operator = MUL \<and> carrier_signed carrier \<and>
         RequiresExactNumberMultiplication (ctx_IntegerRepresentation ctx) carrier
      then True
      else if CarrierRepresentation (ctx_IntegerRepresentation ctx) carrier \<noteq> Some IntegerCarrierNumber \<or>
              carrier_width carrier \<noteq> 32
      then False
      else operator \<in> {AND_token, OR_token, XOR_token, AND_NOT, SHL, SHR})"

text \<open>The expression of an operator; \<open>None\<close> when it has none.\<close>

definition target_expression ::
    "'q emit_context \<Rightarrow> go_token \<Rightarrow> Carrier \<Rightarrow> ts_expression \<Rightarrow> ts_expression \<Rightarrow> ts_expression option" where
  "target_expression ctx operator carrier left right =
     (let right = (if operator = AND_NOT then PrefixUnaryExpression TildePrefix right else right);
          operator = (if operator = AND_NOT then AND_token else operator) in
      if operator = MUL \<and>
         RequiresExactNumberMultiplication (ctx_IntegerRepresentation ctx) carrier
      then Some (exactNumberMultiplication left right)
      else
        (case targetOperator ctx operator carrier of
           None \<Rightarrow> None
         | Some token \<Rightarrow>
             (let target = BinaryExpression left token right in
              if needsUint32Normalization ctx carrier operator then
                (case CarrierLiteral ctx carrier ''0'' of
                   Inl _ \<Rightarrow> None
                 | Inr zero \<Rightarrow>
                     Some (BinaryExpression target GreaterThanGreaterThanGreaterThanToken zero))
              else Some target)))"

definition runtimeOperation :: "IntegerRepresentation \<Rightarrow> Carrier \<Rightarrow> go_token \<Rightarrow> RuntimeSymbol option" where
  "runtimeOperation profile carrier operator =
     (case CarrierRepresentation profile carrier of
        Some IntegerCarrierBigInt \<Rightarrow>
          if operator = QUO then Some RuntimeIntegerDivide
          else if operator = REM then Some RuntimeIntegerRemainder
          else None
      | Some IntegerCarrierNumber \<Rightarrow>
          if operator = QUO then Some RuntimeNumberIntDivide
          else if operator = REM then Some RuntimeNumberIntRemainder
          else None
      | _ \<Rightarrow> None)"

definition callRuntime ::
    "'q emit_context \<Rightarrow> RuntimeSymbol \<Rightarrow> 'q ExpressionEmission \<Rightarrow> 'q ExpressionEmission \<Rightarrow> 'q emitted" where
  "callRuntime ctx symbol left right =
     (case ctx_Runtime ctx symbol ImportPhaseValue of
        Inl e \<Rightarrow> Inl e
      | Inr reference \<Rightarrow>
          Inr (DirectExpression
            (CallExpression (NameReference_Expression reference)
              [emission_Value left, emission_Value right])
            (CombineRequests
              [emission_Requests left, emission_Requests right, ref_requests reference])))"

definition alignShiftCount ::
    "'q emit_context \<Rightarrow> Carrier \<Rightarrow> Carrier \<Rightarrow> ts_expression \<Rightarrow> ts_expression option" where
  "alignShiftCount ctx left right value' =
     (case (CarrierRepresentation (ctx_IntegerRepresentation ctx) left,
            CarrierRepresentation (ctx_IntegerRepresentation ctx) right) of
        (Some leftRepresentation, Some rightRepresentation) \<Rightarrow>
          if leftRepresentation = rightRepresentation then Some value'
          else
            Some (CallExpression
              (TargetIntrinsic_Expression
                (if leftRepresentation = IntegerCarrierBigInt then TargetIntrinsicBigInt
                 else TargetIntrinsicNumber))
              [value'])
      | _ \<Rightarrow> None)"

definition normalizeExactResult ::
    "'q emit_context \<Rightarrow> go_token \<Rightarrow> Carrier \<Rightarrow> 'q ExpressionEmission \<Rightarrow> 'q emitted" where
  "normalizeExactResult ctx operator carrier result =
     (if \<not> RequiresExactResult (ctx_IntegerRepresentation ctx) carrier \<or>
         isComparison operator \<or>
         alreadyNormalizedNumberResult ctx carrier operator
      then Inr result
      else
        (case NormalizeFixedWidth ctx carrier (emission_Value result) of
           Inl e \<Rightarrow> Inl e
         | Inr normalized \<Rightarrow>
             NewExpressionEmission (emission_Before result) (Some (emission_Value normalized))
               (CombineRequests [emission_Requests result, emission_Requests normalized])))"

definition Apply ::
    "'q emit_context \<Rightarrow> go_token \<Rightarrow> Carrier \<Rightarrow> Carrier \<Rightarrow>
       'q ExpressionEmission \<Rightarrow> 'q ExpressionEmission \<Rightarrow> 'q handled" where
  "Apply ctx operator carrier rightCarrier left right =
     (case runtimeOperation (ctx_IntegerRepresentation ctx) carrier operator of
        Some symbol \<Rightarrow>
          (case callRuntime ctx symbol left right of
             Inl e \<Rightarrow> Inl e
           | Inr result \<Rightarrow> map_sum id Some (normalizeExactResult ctx operator carrier result))
      | None \<Rightarrow>
          (let rightValue =
             (if operator = SHL \<or> operator = SHR
              then alignShiftCount ctx carrier rightCarrier (emission_Value right)
              else Some (emission_Value right)) in
           case rightValue of
             None \<Rightarrow> Inr None
           | Some rightValue \<Rightarrow>
               (case target_expression ctx operator carrier (emission_Value left) rightValue of
                  None \<Rightarrow> Inr None
                | Some target \<Rightarrow>
                    map_sum id Some
                      (normalizeExactResult ctx operator carrier
                        (DirectExpression target
                          (CombineRequests [emission_Requests left, emission_Requests right]))))))"

end
