(* ===== verification/IntegerRuntime.thy ===== *)
theory IntegerRuntime
  imports Emission IntegerCarriers
begin

text \<open>
  The functions of the runtime modules \<open>runtime/integer.ts\<close> and \<open>runtime/conversion.ts\<close> as the
  emitter builds them (\<open>internal/emit/runtime/integer/owner.go\<close>,
  \<open>internal/emit/runtime/conversion/owner.go\<close>), and what calling them computes.
\<close>

subsection \<open>Declarations\<close>

definition runtime_operator :: "RuntimeSymbol \<Rightarrow> binary_operator option" where
  "runtime_operator symbol =
     (if symbol = RuntimeIntegerDivide then Some SlashToken
      else if symbol = RuntimeIntegerRemainder then Some PercentToken
      else None)"

definition runtime_ordering :: "RuntimeSymbol \<Rightarrow> binary_operator option" where
  "runtime_ordering symbol =
     (if symbol = RuntimeIntegerMax then Some GreaterThanEqualsToken
      else if symbol = RuntimeIntegerMin then Some LessThanEqualsToken
      else None)"

definition fixedWidthOperation :: "string \<Rightarrow> bool \<Rightarrow> ts_function" where
  "fixedWidthOperation name is_signed =
     FunctionDeclaration name [(''value'', BigIntKeyword)] BigIntKeyword
       [ReturnStatement
         (CallExpression
           (PropertyAccessExpression (TargetIntrinsic_Expression TargetIntrinsicBigInt)
             (if is_signed then ''asIntN'' else ''asUintN''))
           [NumericLiteral ''64'', Identifier ''value''])]"

definition bigintDivisionOperation :: "string \<Rightarrow> string \<Rightarrow> binary_operator \<Rightarrow> ts_function" where
  "bigintDivisionOperation name panicName operator =
     FunctionDeclaration name [(''left'', BigIntKeyword), (''right'', BigIntKeyword)] BigIntKeyword
       [IfStatement
         (BinaryExpression (Identifier ''right'') EqualsEqualsEqualsToken (BigIntLiteral ''0n''))
         [ExpressionStatement (panic_Call panicName (StringLiteral ''integer divide by zero''))],
        ReturnStatement (BinaryExpression (Identifier ''left'') operator (Identifier ''right''))]"

text \<open>The statement that guards a division of numbers; the operands are named \<open>left\<close> and \<open>right\<close>.\<close>

definition numberOperationParts :: "string \<Rightarrow> ts_statement" where
  "numberOperationParts panicName =
     IfStatement
       (BinaryExpression (Identifier ''right'') EqualsEqualsEqualsToken (NumericLiteral ''0''))
       [ExpressionStatement (panic_Call panicName (StringLiteral ''integer divide by zero''))]"

definition numericFunction :: "string \<Rightarrow> ts_statement \<Rightarrow> ts_expression \<Rightarrow> ts_function" where
  "numericFunction name guard result =
     FunctionDeclaration name [(''left'', NumberKeyword), (''right'', NumberKeyword)] NumberKeyword
       [guard,
        VariableStatement NodeFlagsConst ''result'' (Some NumberKeyword) result,
        ReturnStatement
          (ConditionalExpression
            (BinaryExpression (Identifier ''result'') EqualsEqualsEqualsToken (NumericLiteral ''0''))
            (NumericLiteral ''0'')
            (Identifier ''result''))]"

definition numberDivisionOperation :: "string \<Rightarrow> string \<Rightarrow> ts_function" where
  "numberDivisionOperation name panicName =
     numericFunction name (numberOperationParts panicName)
       (CallExpression (PropertyAccessExpression (Identifier ''Math'') ''trunc'')
         [BinaryExpression (Identifier ''left'') SlashToken (Identifier ''right'')])"

definition numberRemainderOperation :: "string \<Rightarrow> string \<Rightarrow> ts_function" where
  "numberRemainderOperation name panicName =
     numericFunction name (numberOperationParts panicName)
       (BinaryExpression (Identifier ''left'') PercentToken (Identifier ''right''))"

definition orderedOperation :: "string \<Rightarrow> binary_operator \<Rightarrow> ts_function" where
  "orderedOperation name operator =
     FunctionDeclaration name [(''left'', BigIntKeyword), (''right'', BigIntKeyword)] BigIntKeyword
       [ReturnStatement
         (ConditionalExpression
           (BinaryExpression (Identifier ''left'') operator (Identifier ''right''))
           (Identifier ''left'') (Identifier ''right''))]"

text \<open>The declaration of a symbol with the exported name of its contract; \<open>None\<close> when none is installed.\<close>

definition integer_declaration :: "RuntimeSymbol \<Rightarrow> string \<Rightarrow> string \<Rightarrow> ts_function option" where
  "integer_declaration symbol name panicName =
     (if symbol = RuntimeIntegerDivide \<or> symbol = RuntimeIntegerRemainder then
        map_option (bigintDivisionOperation name panicName) (runtime_operator symbol)
      else if symbol = RuntimeNumberIntDivide then Some (numberDivisionOperation name panicName)
      else if symbol = RuntimeNumberIntRemainder then Some (numberRemainderOperation name panicName)
      else if symbol = RuntimeIntegerNormalizeSigned64 \<or> symbol = RuntimeIntegerNormalizeUnsigned64 then
        Some (fixedWidthOperation name (symbol = RuntimeIntegerNormalizeSigned64))
      else if symbol = RuntimeIntegerMax \<or> symbol = RuntimeIntegerMin then
        map_option (orderedOperation name) (runtime_ordering symbol)
      else None)"

fun build_symbols ::
    "string \<Rightarrow> RuntimeSymbol list \<Rightarrow> RuntimeSymbol list \<Rightarrow> ts_function list \<Rightarrow>
       emit_error + ts_function list" where
  "build_symbols panicName seen [] statements = Inr statements"
| "build_symbols panicName seen (symbol # symbols) statements =
     (if symbol \<in> set seen then Inl (BuildError symbol ''runtime symbol is duplicated'')
      else case RuntimeContract symbol of
        Inl e \<Rightarrow> Inl e
      | Inr contract \<Rightarrow>
          if contract_module contract \<noteq> RuntimeModuleInteger then
            Inl (BuildError symbol ''runtime symbol belongs to another module'')
          else
            (case integer_declaration symbol (contract_exportedName contract) panicName of
               None \<Rightarrow> Inl (BuildError symbol ''runtime integer operation is not installed'')
             | Some declaration' \<Rightarrow>
                 build_symbols panicName (symbol # seen) symbols (statements @ [declaration'])))"

definition integer_Build :: "RuntimeSymbol list \<Rightarrow> string \<Rightarrow> emit_error + ts_function list" where
  "integer_Build symbols panicName =
     (if symbols = [] then Inl (BuildError 0 ''runtime symbol set is empty'')
      else build_symbols panicName [] symbols [])"

definition numberToBigInt_declaration :: "string \<Rightarrow> ts_function" where
  "numberToBigInt_declaration name =
     FunctionDeclaration name [(''value'', NumberKeyword)] BigIntKeyword
       [ReturnStatement
         (CallExpression (Identifier ''BigInt'')
           [ConditionalExpression
             (CallExpression
               (PropertyAccessExpression (TargetIntrinsic_Expression TargetIntrinsicNumber) ''isFinite'')
               [Identifier ''value''])
             (CallExpression (PropertyAccessExpression (Identifier ''Math'') ''trunc'') [Identifier ''value''])
             (NumericLiteral ''0'')])]"

definition conversion_Build :: "RuntimeSymbol list \<Rightarrow> emit_error + ts_function list" where
  "conversion_Build symbols =
     (if symbols \<noteq> [RuntimeNumberToBigInt]
      then Inl (BuildError 0 ''conversion runtime requires exactly RuntimeNumberToBigInt'')
      else case RuntimeContract RuntimeNumberToBigInt of
        Inl e \<Rightarrow> Inl e
      | Inr contract \<Rightarrow> Inr [numberToBigInt_declaration (contract_exportedName contract)])"

subsection \<open>Calls\<close>

text \<open>
  The names a runtime module sees: the global object, the intrinsics that are used without it, and
  the panic class under the name the module imports it by.
\<close>

definition runtime_scope :: "js_env \<Rightarrow> string \<Rightarrow> bool" where
  "runtime_scope env panicName \<longleftrightarrow>
     env ''globalThis'' = Some (JGlobal []) \<and>
     env ''Math'' = Some (JGlobal [''Math'']) \<and>
     env ''BigInt'' = Some (JGlobal [''BigInt'']) \<and>
     env panicName = Some JPanicClass \<and>
     panicName \<notin> {''left'', ''right'', ''result'', ''value'', ''globalThis'', ''Math'', ''BigInt''}"

lemma numeric_literal_itoa [simp]:
  "n \<le> 2 ^ 53 \<Longrightarrow> numeric_literal (itoa n) = Inr (int_value (int n))"
  using to_double_of_int [of "int n"] by (simp add: numeric_literal_def itoa_digits)

lemma numeric_literal_0 [simp]: "numeric_literal ''0'' = Inr (JNumber (Fin 0))"
  by (simp add: numeric_literal_def is_digit_def atoi_def digit_value_def to_double_def)

lemma bigint_literal_itoa [simp]: "bigint_literal (itoa n @ ''n'') = Inr (JBigInt (int n))"
  by (simp add: bigint_literal_def itoa_digits Suc_le_eq)

lemma bigint_literal_0 [simp]: "bigint_literal ''0n'' = Inr (JBigInt 0)"
  by (simp add: bigint_literal_def is_digit_def atoi_def digit_value_def)

lemma numeric_literal_64 [simp]: "numeric_literal ''64'' = Inr (int_value 64)"
  using to_double_of_int [of 64] by (simp add: numeric_literal_def is_digit_def atoi_def digit_value_def)

lemma intrinsic_simps [simp]:
  "intrinsic [''BigInt'', ''asIntN''] [JNumber a, JBigInt k] = Inr (JBigInt (as_int_n (nat (integer_part a)) k))"
  "intrinsic [''BigInt'', ''asUintN''] [JNumber a, JBigInt k] = Inr (JBigInt (as_uint_n (nat (integer_part a)) k))"
  "intrinsic [''Math'', ''trunc''] [JNumber a] = Inr (JNumber (js_trunc a))"
  "intrinsic [''Math'', ''imul''] [JNumber a, JNumber b] = Inr (JNumber (js_imul a b))"
  "intrinsic [''Number'', ''isFinite''] [JNumber a] = Inr (JBoolean (fin_value a \<noteq> None))"
  "intrinsic [''Number''] [v] = to_number v"
  "intrinsic [''BigInt''] [v] = to_bigint v"
  by (simp_all add: intrinsic_def)

lemmas runtime_evaluation =
  fixedWidthOperation_def bigintDivisionOperation_def numberOperationParts_def numericFunction_def
  numberDivisionOperation_def numberRemainderOperation_def orderedOperation_def
  numberToBigInt_declaration_def TargetIntrinsic_Expression_def TargetGlobalAnchorName_def
  panic_Call_def staticCall_def

lemma call_fixed_width:
  assumes "env ''globalThis'' = Some (JGlobal [])"
  shows "run_function (call_global host) env (fixedWidthOperation name s) [JBigInt k] w =
    (Inr (JBigInt (if s then signed_take_bit 63 k else take_bit 64 k)), w)"
  using assms by (simp add: runtime_evaluation as_int_n_def as_uint_n_def)

text \<open>Division panics on zero; otherwise it truncates towards zero, and the result is never the negative zero.\<close>

lemma call_bigint_divide:
  assumes "runtime_scope env panicName"
  shows "run_function (call_global host) env (bigintDivisionOperation name panicName SlashToken) [JBigInt l, JBigInt r] w =
    (if r = 0 then Inl (GoPanic ''integer divide by zero'') else Inr (JBigInt (l sdiv r)), w)"
  using assms by (simp add: runtime_evaluation runtime_scope_def)

lemma call_bigint_remainder:
  assumes "runtime_scope env panicName"
  shows "run_function (call_global host) env (bigintDivisionOperation name panicName PercentToken) [JBigInt l, JBigInt r] w =
    (if r = 0 then Inl (GoPanic ''integer divide by zero'') else Inr (JBigInt (l smod r)), w)"
  using assms by (simp add: runtime_evaluation runtime_scope_def)

text \<open>A numeric function returns its result, with the negative zero replaced.\<close>

lemma positive_zero:
  assumes "fin_value a = Some (of_int k)"
  shows "(if js_equal a (Fin 0) then Fin 0 else a) = int_number k"
  using assms by (cases a) (auto simp: js_equal_def)

lemma call_number_divide:
  assumes "runtime_scope env panicName" "\<bar>l\<bar> \<le> 2 ^ 32" "\<bar>r\<bar> \<le> 2 ^ 32"
  shows "run_function (call_global host) env (numberDivisionOperation name panicName) [int_value l, int_value r] w =
    (if r = 0 then Inl (GoPanic ''integer divide by zero'') else Inr (int_value (l sdiv r)), w)"
proof (cases "r = 0")
  case False
  show ?thesis
    using assms(1) False positive_zero [OF js_trunc_quotient [OF assms(2,3) False]]
      js_equal_int [of r 0]
    by (simp add: runtime_evaluation runtime_scope_def split: if_splits)
qed (use assms(1) js_equal_int [of 0 0] in \<open>simp add: runtime_evaluation runtime_scope_def\<close>)

lemma call_number_remainder:
  assumes "runtime_scope env panicName"
  shows "run_function (call_global host) env (numberRemainderOperation name panicName) [int_value l, int_value r] w =
    (if r = 0 then Inl (GoPanic ''integer divide by zero'') else Inr (int_value (l smod r)), w)"
proof (cases "r = 0")
  case False
  show ?thesis
    using assms(1) False positive_zero [OF js_rem_int [OF False, of l]] js_equal_int [of r 0]
    by (simp add: runtime_evaluation runtime_scope_def split: if_splits)
qed (use assms(1) js_equal_int [of 0 0] in \<open>simp add: runtime_evaluation runtime_scope_def\<close>)

lemma call_ordered:
  "run_function (call_global host) env (orderedOperation name GreaterThanEqualsToken) [JBigInt l, JBigInt r] w =
     (Inr (JBigInt (max l r)), w)"
  "run_function (call_global host) env (orderedOperation name LessThanEqualsToken) [JBigInt l, JBigInt r] w =
     (Inr (JBigInt (min l r)), w)"
  by (auto simp: runtime_evaluation max_def min_def)

text \<open>A number becomes the integer part of its value; infinities and NaN become 0.\<close>

lemma call_number_to_bigint:
  assumes "runtime_scope env panicName"
  shows "run_function (call_global host) env (numberToBigInt_declaration name) [JNumber a] w =
    (Inr (JBigInt (integer_part a)), w)"
  using assms
  by (cases a) (auto simp: runtime_evaluation runtime_scope_def signed_zero_def split: if_splits)

end
