(* ===== verification/IntegerSemantics.thy ===== *)
theory IntegerSemantics
  imports IntegerEmission IntegerRuntime
begin

text \<open>
  The interface between generated integer code and the runtime package: names resolve to runtime
  functions, and the functions obey the laws of Go's integer arithmetic.  The locale
  \<open>integer_target\<close> states it; the normalizations of the emitter are proved in it, and the
  interpretation at the end gives it on the functions the runtime builders emit.

  \<open>carried\<close> is the value that holds a Go integer in the carrier of its type.
\<close>

subsection \<open>Bits\<close>

lemma shift_pair_signed:
  fixes k :: int
  assumes "n \<le> 31"
  shows "drop_bit n (signed_take_bit 31 (push_bit n (signed_take_bit 31 k))) = signed_take_bit (31 - n) k"
proof (cases "n = 0")
  case False
  then show ?thesis using assms by (intro bit_eqI) (auto simp: bit_simps min_def)
qed simp

lemma signed_take_bit_mask:
  "n \<le> 31 \<Longrightarrow> signed_take_bit 31 k AND signed_take_bit 31 (2 ^ n - 1) = take_bit n (k :: int)"
  by (intro bit_eqI) (auto simp: bit_simps min_def mask_eq_exp_minus_1 [symmetric])

lemma signed_take_bit_take_bit_mult:
  "signed_take_bit n (take_bit (Suc n) k * take_bit (Suc n) l) = signed_take_bit n (k * l :: int)"
  by (rule signed_take_bit_eq_iff_take_bit_eq [THEN iffD2]) (simp add: take_bit_mult)

lemma signed_take_bit_push_bit:
  "signed_take_bit n (push_bit m (signed_take_bit n k)) = signed_take_bit n (push_bit m (k :: int))"
proof (cases "m = 0")
  case False
  then show ?thesis by (intro bit_eqI) (auto simp: bit_simps min_def)
qed simp

lemma signed_take_bit_bitwise:
  "signed_take_bit n k AND signed_take_bit n l = signed_take_bit n (k AND l :: int)"
  "signed_take_bit n k OR signed_take_bit n l = signed_take_bit n (k OR l :: int)"
  "signed_take_bit n k XOR signed_take_bit n l = signed_take_bit n (k XOR l :: int)"
  "NOT (signed_take_bit n k) = signed_take_bit n (NOT k :: int)"
  by (auto intro!: bit_eqI simp: bit_simps)

subsection \<open>Carriers and values\<close>

definition carried :: "IntegerRepresentation \<Rightarrow> Carrier \<Rightarrow> int \<Rightarrow> js_value" where
  "carried r c k =
     (if CarrierRepresentation r c = Some IntegerCarrierBigInt then JBigInt k else int_value k)"

text \<open>The carriers whose \<open>number\<close> holds every value of the type exactly, or that are a \<open>bigint\<close>.\<close>

definition exactly_carried :: "IntegerRepresentation \<Rightarrow> Carrier \<Rightarrow> bool" where
  "exactly_carried r c \<longleftrightarrow>
     IntegerRepresentation_Valid r \<and>
     (CarrierRepresentation r c = Some IntegerCarrierBigInt \<or> carrier_width c \<le> 32)"

text \<open>A value before normalization: it has the right type, and its integer part counts.\<close>

definition holds_integer :: "IntegerRepresentation \<Rightarrow> Carrier \<Rightarrow> js_value \<Rightarrow> int \<Rightarrow> bool" where
  "holds_integer r c v k \<longleftrightarrow>
     (if CarrierRepresentation r c = Some IntegerCarrierBigInt then v = JBigInt k
      else \<exists>a. v = JNumber a \<and> integer_part a = k)"

lemma holds_carried [simp]: "holds_integer r c (carried r c k) k"
  by (simp add: holds_integer_def carried_def)

lemma exact_exactly_carried: "carrier_ok c \<Longrightarrow> RequiresExactResult r c \<Longrightarrow> exactly_carried r c"
  by (erule (1) exact_cases) (auto simp: exactly_carried_def dest: representation_valid)

lemma exactly_carried_cases:
  assumes "carrier_ok c" "exactly_carried r c"
  obtains (number) "CarrierRepresentation r c = Some IntegerCarrierNumber" "carrier_width c \<in> {8, 16, 32}"
  | (bigint) "CarrierRepresentation r c = Some IntegerCarrierBigInt" "carrier_width c = 64"
  using assms representation_cases [of c r] carrier_ok_width [of c] that
  by (auto simp: exactly_carried_def split: if_splits)

text \<open>A carrier described from the sizes has the same representation in the scalar ABI of the sizes.\<close>

abbreviation native_aliases :: "PrimitiveAlias set" where
  "native_aliases \<equiv> {PrimitiveInt, PrimitiveUint, PrimitiveUintptr}"

lemma carrier_ignores_native_width:
  assumes "alias \<notin> native_aliases" "abi_integer a = abi_integer b"
    "NativeIntegerWidth_Valid (abi_nativeWidth a)" "NativeIntegerWidth_Valid (abi_nativeWidth b)"
  shows "IntegerCarrierRepresentation alias a = IntegerCarrierRepresentation alias b"
  using assms by (simp add: IntegerCarrierRepresentation_def)

lemma described_native:
  assumes "Describe (Some n) t = Some c" "carrier_alias c \<in> native_aliases"
  shows "n = 4 \<and> carrier_width c = 32 \<or> n = 8 \<and> carrier_width c = 64"
  using assms(1)
proof (rule Describe_cases)
  fix m
  assume m: "Some n = Some m"
    and c: "c \<in> fixed_carriers \<or>
       nativeCarrier m PrimitiveInt True = Some c \<or> nativeCarrier m PrimitiveUint False = Some c \<or>
       nativeCarrier m PrimitiveUintptr False = Some c"
  then have "nativeCarrier n PrimitiveInt True = Some c \<or> nativeCarrier n PrimitiveUint False = Some c \<or>
       nativeCarrier n PrimitiveUintptr False = Some c"
    using assms(2) by (auto simp: newCarrier_def)
  then show ?thesis by (auto simp: nativeCarrier_def newCarrier_def split: if_split_asm)
qed

lemma described_carrier:
  assumes "Describe sizes t = Some c" "NewScalarABIFromSizes r sizes = Inr abi"
  shows "ScalarABI_Carrier abi (carrier_alias c) = Inr x \<longleftrightarrow> CarrierRepresentation r c = Some x"
proof -
  obtain n u where u: "sizes = Some n" "t = Some u"
    using assms(1) by (simp add: Describe_def split: option.split_asm)
  have n: "n = 4 \<and> abi_nativeWidth abi = 32 \<or> n = 8 \<and> abi_nativeWidth abi = 64"
    and r: "IntegerRepresentation_Valid r" "abi_integer abi = r"
    using assms(2)
    by (auto simp: NewScalarABIFromSizes_def NativeIntegerWidthFromSizes_def NewScalarABI_def u
        split: if_splits sum.splits)
  define w where "w = (if carrier_alias c \<in> native_aliases then carrier_width c else 64)"
  have w: "NativeIntegerWidth_Valid w" "carrier_alias c \<in> native_aliases \<Longrightarrow> abi_nativeWidth abi = w"
    using described_native [of n t c] assms(1) n unfolding u w_def
    by (auto simp: NativeIntegerWidth_Valid_def)
  have "scalarABI r c = Some \<lparr>abi_integer = r, abi_nativeWidth = w\<rparr>"
    unfolding scalarABI_def w_def [symmetric] by (simp add: NewScalarABI_def r w(1))
  moreover have "IntegerCarrierRepresentation (carrier_alias c) \<lparr>abi_integer = r, abi_nativeWidth = w\<rparr> =
      IntegerCarrierRepresentation (carrier_alias c) abi"
  proof (cases "carrier_alias c \<in> native_aliases")
    case True
    then have "abi = \<lparr>abi_integer = r, abi_nativeWidth = w\<rparr>" using w(2) r(2) by (cases abi) simp
    then show ?thesis by simp
  next
    case False
    then show ?thesis
      using n w(1) r(2) by (intro carrier_ignores_native_width) (auto simp: NativeIntegerWidth_Valid_def)
  qed
  ultimately show ?thesis
    by (simp add: CarrierRepresentation_def ScalarABI_Carrier_def split: sum.split)
qed

subsection \<open>The interface\<close>

definition resolves ::
    "'q emit_context \<Rightarrow> js_env \<Rightarrow> RuntimeSymbol \<Rightarrow> js_value \<Rightarrow> bool" where
  "resolves ctx env symbol f \<longleftrightarrow>
     (\<exists>ref. ctx_Runtime ctx symbol ImportPhaseValue = Inr ref \<and>
        ref_qualifier ref = '''' \<and> env (ref_name ref) = Some f)"

definition divide_by_zero :: "int \<Rightarrow> js_value \<Rightarrow> js_error + js_value" where
  "divide_by_zero r v = (if r = 0 then Inl (GoPanic ''integer divide by zero'') else Inr v)"

locale integer_target =
  fixes ctx :: "'q emit_context"
    and call :: "'w caller"
    and env :: js_env
  assumes abi: "\<exists>abi. NewScalarABIFromSizes (ctx_IntegerRepresentation ctx) (ctx_TypesSizes ctx) = Inr abi"
    and globals:
      "env ''globalThis'' = Some (JGlobal [])"
      "env ''Math'' = Some (JGlobal [''Math''])"
      "env ''BigInt'' = Some (JGlobal [''BigInt''])"
    and intrinsics: "\<And>path arguments w. call (JGlobal path) arguments w = (intrinsic path arguments, w)"
    and panics: "resolves ctx env RuntimePanic JPanicClass"
      "\<And>m w. call JPanicRaise [JString m] w = (Inl (GoPanic m), w)"
    and int64: "\<exists>f. resolves ctx env RuntimeIntegerNormalizeSigned64 f \<and>
      (\<forall>k w. call f [JBigInt k] w = (Inr (JBigInt (signed_take_bit 63 k)), w))"
    and uint64: "\<exists>f. resolves ctx env RuntimeIntegerNormalizeUnsigned64 f \<and>
      (\<forall>k w. call f [JBigInt k] w = (Inr (JBigInt (take_bit 64 k)), w))"
    and bigint_divide: "\<exists>f. resolves ctx env RuntimeIntegerDivide f \<and>
      (\<forall>k l w. call f [JBigInt k, JBigInt l] w = (divide_by_zero l (JBigInt (k sdiv l)), w))"
    and bigint_remainder: "\<exists>f. resolves ctx env RuntimeIntegerRemainder f \<and>
      (\<forall>k l w. call f [JBigInt k, JBigInt l] w = (divide_by_zero l (JBigInt (k smod l)), w))"
    and number_divide: "\<exists>f. resolves ctx env RuntimeNumberIntDivide f \<and>
      (\<forall>k l w. \<bar>k\<bar> \<le> 2 ^ 32 \<longrightarrow> \<bar>l\<bar> \<le> 2 ^ 32 \<longrightarrow>
         call f [int_value k, int_value l] w = (divide_by_zero l (int_value (k sdiv l)), w))"
    and number_remainder: "\<exists>f. resolves ctx env RuntimeNumberIntRemainder f \<and>
      (\<forall>k l w. call f [int_value k, int_value l] w = (divide_by_zero l (int_value (k smod l)), w))"
    and number_to_bigint: "\<exists>f. resolves ctx env RuntimeNumberToBigInt f \<and>
      (\<forall>a w. call f [JNumber a] w = (Inr (JBigInt (integer_part a)), w))"

context integer_target
begin

lemma normalize_number:
  assumes "carrier_width c \<in> {8, 16, 32}" "eval call env e w = (Inr (JNumber a), w')"
  shows "eval call env (NormalizeNumber c e) w = (Inr (int_value (go_wrap c (integer_part a))), w')"
proof -
  have mask: "numeric_literal (FormatUint (push_bit n 1 - 1)) = Inr (int_value (2 ^ n - 1))" if "n \<in> {8, 16}" for n
    using that numeric_literal_itoa [of 255] numeric_literal_itoa [of 65535] by (auto simp: FormatUint_def)
  have dist: "numeric_literal (itoa (32 - n)) = Inr (int_value (int (32 - n)))" if "n \<in> {8, 16}" for n
    using that by auto
  have shift: "js_shr (js_shl a (int_number (int (32 - n)))) (int_number (int (32 - n))) =
      int_number (signed_take_bit (n - 1) (integer_part a))" if "n \<in> {8, 16}" for n
    using that shift_pair_signed [of "32 - n" "integer_part a"] shift_count_int [of "int (32 - n)"]
    by (auto simp: js_shr_def js_shl_def to_int32_def)
  have low: "js_and a (int_number (2 ^ n - 1)) = int_number (take_bit n (integer_part a))" if "n \<in> {8, 16}" for n
    using that signed_take_bit_mask [of n "integer_part a"] by (auto simp: js_and_def to_int32_def)
  consider "carrier_width c = 32" | "carrier_width c \<in> {8, 16}" using assms(1) by auto
  then show ?thesis
  proof cases
    case 1
    then show ?thesis using assms(2) shift_count_int [of 0]
      by (simp add: NormalizeNumber_def js_or_def js_ushr_def to_int32_def to_uint32_def go_wrap_def)
  next
    case 2
    then have "carrier_width c < 32" "carrier_width c \<noteq> 32" by auto
    then show ?thesis
      using 2 assms(2) mask [of 8] mask [of 16] shift [of 8] shift [of 16] low [of 8] low [of 16]
      by (auto simp: NormalizeNumber_def Let_def go_wrap_def)
  qed
qed

lemma profile_valid: "IntegerRepresentation_Valid (ctx_IntegerRepresentation ctx)"
  using abi by (auto simp: NewScalarABIFromSizes_def NewScalarABI_def split: sum.splits if_splits)

lemma literal_eval:
  assumes "Describe (ctx_TypesSizes ctx) t = Some c" "n \<le> 2 ^ 53 \<or> UsesBigInt (ctx_IntegerRepresentation ctx) c"
  shows "\<exists>e. CarrierLiteral ctx c (itoa n) = Inr e \<and>
    (\<forall>w. eval call env e w = (Inr (carried (ctx_IntegerRepresentation ctx) c (int n)), w))"
proof -
  obtain a where a: "NewScalarABIFromSizes (ctx_IntegerRepresentation ctx) (ctx_TypesSizes ctx) = Inr a"
    using abi by blast
  note rep = representation_cases [OF Describe_ok [OF assms(1)] profile_valid]
  consider (number) "CarrierRepresentation (ctx_IntegerRepresentation ctx) c = Some IntegerCarrierNumber"
    | (bigint) "CarrierRepresentation (ctx_IntegerRepresentation ctx) c = Some IntegerCarrierBigInt"
    using rep by (auto split: if_splits)
  then show ?thesis
  proof cases
    case number
    then have "ScalarABI_Carrier a (carrier_alias c) = Inr IntegerCarrierNumber"
      using described_carrier [OF assms(1) a] by blast
    then have "CarrierLiteral ctx c (itoa n) = Inr (NumericLiteral (itoa n))"
      by (simp add: CarrierLiteral_def a IntegerLiteral_def ScalarABI_Carrier_def)
    then show ?thesis using assms(2) number by (auto simp: carried_def UsesBigInt_def)
  next
    case bigint
    then have "ScalarABI_Carrier a (carrier_alias c) = Inr IntegerCarrierBigInt"
      using described_carrier [OF assms(1) a] by blast
    then have "CarrierLiteral ctx c (itoa n) = Inr (BigIntLiteral (itoa n @ ''n''))"
      by (simp add: CarrierLiteral_def a IntegerLiteral_def ScalarABI_Carrier_def)
    then show ?thesis using bigint by (auto simp: carried_def)
  qed
qed

lemma normalize_fixed:
  assumes ok: "carrier_ok c" and exact: "exactly_carried (ctx_IntegerRepresentation ctx) c"
    and v: "eval call env e w = (Inr v, w')" "holds_integer (ctx_IntegerRepresentation ctx) c v k"
  obtains n where "NormalizeFixedWidth ctx c e = Inr n" "emission_Before n = []"
    "eval call env (emission_Value n) w = (Inr (carried (ctx_IntegerRepresentation ctx) c (go_wrap c k)), w')"
proof (cases rule: exactly_carried_cases [OF ok exact])
  case 1
  then obtain a where a: "v = JNumber a" "integer_part a = k" using v(2) by (auto simp: holds_integer_def)
  show thesis
    using normalize_number [OF 1(2) v(1) [unfolded a(1)]] a(2) 1(1)
    by (intro that [of "DirectExpression (NormalizeNumber c e) []"]) (auto simp: NormalizeFixedWidth_def carried_def)
next
  case 2
  define symbol :: nat where
    "symbol = (if carrier_signed c then RuntimeIntegerNormalizeSigned64 else RuntimeIntegerNormalizeUnsigned64)"
  have bigint: "v = JBigInt k" using v(2) 2 by (simp add: holds_integer_def)
  have "\<exists>f. resolves ctx env symbol f \<and> (\<forall>k w. call f [JBigInt k] w = (Inr (JBigInt (go_wrap c k)), w))"
    using int64 uint64 2(2) by (auto simp: symbol_def go_wrap_def)
  then obtain f where f: "resolves ctx env symbol f" "\<And>k w. call f [JBigInt k] w = (Inr (JBigInt (go_wrap c k)), w)"
    by blast
  obtain ref where ref: "ctx_Runtime ctx symbol ImportPhaseValue = Inr ref"
    "\<And>w. eval call env (NameReference_Expression ref) w = (Inr f, w)"
    using f(1) by (auto simp: resolves_def NameReference_Expression_def)
  show thesis
    using ref f(2) v(1) bigint 2
    by (intro that [of "DirectExpression (CallExpression (NameReference_Expression ref) [e]) (ref_requests ref)"])
      (auto simp: NormalizeFixedWidth_def normalizeBigInt_def symbol_def Let_def carried_def)
qed

end

subsection \<open>The generated runtime modules\<close>

text \<open>
  A program whose imports keep the exported names: the context resolves every runtime symbol to the
  name of its contract, the modules are what the builders emit, and a runtime function runs in the
  scope of its module.
\<close>

definition module_context ::
    "IntegerRepresentation \<Rightarrow> nat option \<Rightarrow> string \<Rightarrow> unit emit_context" where
  "module_context r sizes role =
     \<lparr>ctx_IntegerRepresentation = r, ctx_TypesSizes = sizes, ctx_Role = role,
      ctx_Runtime = (\<lambda>symbol phase.
        case RuntimeContract symbol of
          Inl e \<Rightarrow> Inl e
        | Inr contract \<Rightarrow> NewNameReference (contract_exportedName contract) [()])\<rparr>"

definition integer_symbols :: "RuntimeSymbol list" where
  "integer_symbols =
     [RuntimeIntegerDivide, RuntimeIntegerRemainder, RuntimeNumberIntDivide, RuntimeNumberIntRemainder,
      RuntimeIntegerNormalizeSigned64, RuntimeIntegerNormalizeUnsigned64, RuntimeIntegerMax, RuntimeIntegerMin]"

definition integer_module :: "ts_function list" where
  "integer_module = (case integer_Build integer_symbols ''GoPanic'' of Inr fs \<Rightarrow> fs | Inl _ \<Rightarrow> [])"

definition conversion_module :: "ts_function list" where
  "conversion_module = (case conversion_Build [RuntimeNumberToBigInt] of Inr fs \<Rightarrow> fs | Inl _ \<Rightarrow> [])"

fun function_binding :: "ts_function \<Rightarrow> string \<times> js_value" where
  "function_binding (FunctionDeclaration name parameters result body) =
     (name, JFunction (FunctionDeclaration name parameters result body))"

definition module_scope :: "(string \<times> js_value) list" where
  "module_scope =
     [(''globalThis'', JGlobal []), (''Math'', JGlobal [''Math'']), (''BigInt'', JGlobal [''BigInt'']),
      (''GoPanic'', JPanicClass)]"

definition module_env :: js_env where
  "module_env = map_of (module_scope @ List.map function_binding (integer_module @ conversion_module))"

lemma integer_contracts:
  "RuntimeContract RuntimePanic = Inr (runtimeContract RuntimeModulePanic ''runtime/panic.ts'' ''GoPanic'' True
     [RuntimeInterfaceValue, RuntimePanicValue])"
  "RuntimeContract RuntimeIntegerDivide =
     Inr (runtimeContract RuntimeModuleInteger ''runtime/integer.ts'' ''goIntegerDivide'' False [RuntimePanic])"
  "RuntimeContract RuntimeIntegerRemainder =
     Inr (runtimeContract RuntimeModuleInteger ''runtime/integer.ts'' ''goIntegerRemainder'' False [RuntimePanic])"
  "RuntimeContract RuntimeIntegerMax =
     Inr (runtimeContract RuntimeModuleInteger ''runtime/integer.ts'' ''goIntegerMax'' False [])"
  "RuntimeContract RuntimeIntegerMin =
     Inr (runtimeContract RuntimeModuleInteger ''runtime/integer.ts'' ''goIntegerMin'' False [])"
  "RuntimeContract RuntimeNumberIntDivide =
     Inr (runtimeContract RuntimeModuleInteger ''runtime/integer.ts'' ''goNumberIntegerDivide'' False [RuntimePanic])"
  "RuntimeContract RuntimeNumberIntRemainder =
     Inr (runtimeContract RuntimeModuleInteger ''runtime/integer.ts'' ''goNumberIntegerRemainder'' False [RuntimePanic])"
  "RuntimeContract RuntimeIntegerNormalizeSigned64 =
     Inr (runtimeContract RuntimeModuleInteger ''runtime/integer.ts'' ''goInt64'' False [])"
  "RuntimeContract RuntimeIntegerNormalizeUnsigned64 =
     Inr (runtimeContract RuntimeModuleInteger ''runtime/integer.ts'' ''goUint64'' False [])"
  "RuntimeContract RuntimeNumberToBigInt =
     Inr (runtimeContract RuntimeModuleConversion ''runtime/conversion.ts'' ''goNumberToBigInt'' False [])"
  by (rule RuntimeContract_row,
      simp add: all_contracts_def switchContracts_def panicContracts_def integerContracts_def conversionContracts_def)+

lemma runtimeContract_fields [simp]:
  "contract_module (runtimeContract m p e u d) = m"
  "contract_outputPath (runtimeContract m p e u d) = p"
  "contract_exportedName (runtimeContract m p e u d) = e"
  "contract_typeUsable (runtimeContract m p e u d) = u"
  "contract_dependencies (runtimeContract m p e u d) = d"
  by (simp_all add: runtimeContract_def)

lemma integer_module_eq:
  "integer_module =
     [bigintDivisionOperation ''goIntegerDivide'' ''GoPanic'' SlashToken,
      bigintDivisionOperation ''goIntegerRemainder'' ''GoPanic'' PercentToken,
      numberDivisionOperation ''goNumberIntegerDivide'' ''GoPanic'',
      numberRemainderOperation ''goNumberIntegerRemainder'' ''GoPanic'',
      fixedWidthOperation ''goInt64'' True,
      fixedWidthOperation ''goUint64'' False,
      orderedOperation ''goIntegerMax'' GreaterThanEqualsToken,
      orderedOperation ''goIntegerMin'' LessThanEqualsToken]"
  by (simp add: integer_module_def integer_Build_def integer_symbols_def integer_contracts
      integer_declaration_def runtime_operator_def runtime_ordering_def)

lemma conversion_module_eq: "conversion_module = [numberToBigInt_declaration ''goNumberToBigInt'']"
  by (simp add: conversion_module_def conversion_Build_def integer_contracts)

lemma function_binding_simps [simp]:
  "function_binding (bigintDivisionOperation n p op) = (n, JFunction (bigintDivisionOperation n p op))"
  "function_binding (numberDivisionOperation n p) = (n, JFunction (numberDivisionOperation n p))"
  "function_binding (numberRemainderOperation n p) = (n, JFunction (numberRemainderOperation n p))"
  "function_binding (fixedWidthOperation n s) = (n, JFunction (fixedWidthOperation n s))"
  "function_binding (orderedOperation n op) = (n, JFunction (orderedOperation n op))"
  "function_binding (numberToBigInt_declaration n) = (n, JFunction (numberToBigInt_declaration n))"
  by (simp_all add: bigintDivisionOperation_def numberDivisionOperation_def numberRemainderOperation_def
      numericFunction_def fixedWidthOperation_def orderedOperation_def numberToBigInt_declaration_def)

lemma module_resolves:
  assumes "RuntimeContract symbol = Inr contract" "contract_exportedName contract \<noteq> ''''"
    "module_env (contract_exportedName contract) = Some f"
  shows "resolves (module_context r sizes role) module_env symbol f"
  using assms by (simp add: resolves_def module_context_def NewNameReference_def)

lemma module_runtime_scope: "runtime_scope (map_of module_scope) ''GoPanic''"
  by (simp add: runtime_scope_def module_scope_def)

lemma call_target_simps [simp]:
  "call_target globals host (JFunction f) arguments w = run_function (call_global host) globals f arguments w"
  "call_target globals host (JGlobal path) arguments w = (intrinsic path arguments, w)"
  "call_target globals host JPanicRaise [JString m] w = (Inl (GoPanic m), w)"
  "call_target globals host (JHost name) arguments w = host name arguments w"
  by (simp_all add: call_target_def)

lemma module_env_simps [simp]:
  "module_env ''globalThis'' = Some (JGlobal [])"
  "module_env ''Math'' = Some (JGlobal [''Math''])"
  "module_env ''BigInt'' = Some (JGlobal [''BigInt''])"
  "module_env ''GoPanic'' = Some JPanicClass"
  "module_env ''goInt64'' = Some (JFunction (fixedWidthOperation ''goInt64'' True))"
  "module_env ''goUint64'' = Some (JFunction (fixedWidthOperation ''goUint64'' False))"
  "module_env ''goIntegerDivide'' = Some (JFunction (bigintDivisionOperation ''goIntegerDivide'' ''GoPanic'' SlashToken))"
  "module_env ''goIntegerRemainder'' = Some (JFunction (bigintDivisionOperation ''goIntegerRemainder'' ''GoPanic'' PercentToken))"
  "module_env ''goNumberIntegerDivide'' = Some (JFunction (numberDivisionOperation ''goNumberIntegerDivide'' ''GoPanic''))"
  "module_env ''goNumberIntegerRemainder'' = Some (JFunction (numberRemainderOperation ''goNumberIntegerRemainder'' ''GoPanic''))"
  "module_env ''goNumberToBigInt'' = Some (JFunction (numberToBigInt_declaration ''goNumberToBigInt''))"
  by (simp_all add: module_env_def module_scope_def integer_module_eq conversion_module_eq)

lemmas module_calls =
  call_fixed_width [where env = "map_of module_scope"]
  call_bigint_divide [OF module_runtime_scope] call_bigint_remainder [OF module_runtime_scope]
  call_number_divide [OF module_runtime_scope] call_number_remainder [OF module_runtime_scope]
  call_number_to_bigint [OF module_runtime_scope]

lemma generated_target:
  assumes "NewScalarABIFromSizes r sizes = Inr abi"
  shows "integer_target (module_context r sizes role) (call_target (map_of module_scope) host) module_env"
proof -
  have found: "\<exists>f. resolves (module_context r sizes role) module_env symbol f \<and> P f"
    if "RuntimeContract symbol = Inr contract" "module_env (contract_exportedName contract) = Some g"
      "contract_exportedName contract \<noteq> ''''" "P g" for symbol contract g P
    using module_resolves [OF that(1,3,2)] that(4) by blast
  have scope: "map_of module_scope ''globalThis'' = Some (JGlobal [])" by (simp add: module_scope_def)
  note step = module_calls scope divide_by_zero_def
  show ?thesis
  proof (unfold_locales, goal_cases)
    case 1
    show ?case using assms by (simp add: module_context_def)
  next
    case 6
    show ?case by (rule module_resolves [OF integer_contracts(1)]) (simp, simp)
  next
    case 8
    show ?case by (rule found [OF integer_contracts(8)]) (simp, simp, simp add: step)
  next
    case 9
    show ?case by (rule found [OF integer_contracts(9)]) (simp, simp, simp add: step)
  next
    case 10
    show ?case by (rule found [OF integer_contracts(2)]) (simp, simp, simp add: step)
  next
    case 11
    show ?case by (rule found [OF integer_contracts(3)]) (simp, simp, simp add: step)
  next
    case 12
    show ?case by (rule found [OF integer_contracts(6)]) (simp, simp, simp add: step)
  next
    case 13
    show ?case by (rule found [OF integer_contracts(7)]) (simp, simp, simp add: step)
  next
    case 14
    show ?case by (rule found [OF integer_contracts(10)]) (simp, simp, simp add: step)
  qed simp_all
qed

text \<open>The canonical profile on a 64-bit target: every Go integer is exact.\<close>

lemma canonical_abi:
  "NewScalarABIFromSizes IntegerRepresentationBigInt (Some 8) =
     Inr \<lparr>abi_integer = IntegerRepresentationBigInt, abi_nativeWidth = 64\<rparr>"
  by (simp add: NewScalarABIFromSizes_def NativeIntegerWidthFromSizes_def NewScalarABI_def
      NativeIntegerWidth_Valid_def)

interpretation canonical: integer_target
  "module_context IntegerRepresentationBigInt (Some 8) role"
  "call_target (map_of module_scope) host"
  module_env
  by (rule generated_target [OF canonical_abi])

end
