(* ===== verification/IntegerBinary.thy ===== *)
theory IntegerBinary
  imports IntegerSemantics
begin

text \<open>
  The binary operators of generated integer code compute what Go computes: \<open>go_binary\<close> is the
  meaning of an operator on the values of a carrier, with wrap-around, the panic of a division by
  zero and comparisons.
\<close>

subsection \<open>Go's operators\<close>

fun go_exact :: "go_token \<Rightarrow> int \<Rightarrow> int \<Rightarrow> int" where
  "go_exact ADD l r = l + r"
| "go_exact SUB l r = l - r"
| "go_exact MUL l r = l * r"
| "go_exact QUO l r = l sdiv r"
| "go_exact REM l r = l smod r"
| "go_exact AND_token l r = l AND r"
| "go_exact OR_token l r = l OR r"
| "go_exact XOR_token l r = l XOR r"
| "go_exact AND_NOT l r = l AND NOT r"
| "go_exact SHL l r = push_bit (nat r) l"
| "go_exact SHR l r = drop_bit (nat r) l"
| "go_exact _ l r = l"

fun go_compare :: "go_token \<Rightarrow> int \<Rightarrow> int \<Rightarrow> bool" where
  "go_compare EQL l r = (l = r)"
| "go_compare NEQ l r = (l \<noteq> r)"
| "go_compare LSS l r = (l < r)"
| "go_compare LEQ l r = (l \<le> r)"
| "go_compare GTR l r = (l > r)"
| "go_compare GEQ l r = (l \<ge> r)"
| "go_compare _ l r = False"

definition go_binary :: "IntegerRepresentation \<Rightarrow> Carrier \<Rightarrow> go_token \<Rightarrow> int \<Rightarrow> int \<Rightarrow> js_error + js_value" where
  "go_binary p c operator l r =
     (if isComparison operator then Inr (JBoolean (go_compare operator l r))
      else if operator \<in> {QUO, REM} \<and> r = 0 then Inl (GoPanic ''integer divide by zero'')
      else Inr (carried p c (go_wrap c (go_exact operator l r))))"

definition go_operator :: "go_token \<Rightarrow> bool" where
  "go_operator operator \<longleftrightarrow>
     operator \<in> {ADD, SUB, MUL, QUO, REM, AND_token, OR_token, XOR_token, AND_NOT, SHL, SHR,
       EQL, NEQ, LSS, LEQ, GTR, GEQ}"

text \<open>
  The operations whose result a profile keeps exact: all of them where the scalar ABI asks for exact
  results, and those that cannot leave the carrier anyway.
\<close>

definition exact_operation :: "IntegerRepresentation \<Rightarrow> Carrier \<Rightarrow> go_token \<Rightarrow> bool" where
  "exact_operation p c operator \<longleftrightarrow>
     exactly_carried p c \<and> go_operator operator \<and>
     (RequiresExactResult p c \<or> isComparison operator \<or>
      operator \<in> {AND_token, OR_token, XOR_token, AND_NOT, SHR} \<or>
      operator = SHL \<and> carrier_width c = 32)"

subsection \<open>Ranges\<close>

lemma number_range:
  assumes "carrier_width c \<in> {8, 16, 32}" "go_value c k"
  shows "\<bar>k\<bar> < 2 ^ carrier_width c" "\<bar>k\<bar> \<le> 2 ^ 32"
  using assms by (auto simp: go_value_def split: if_splits)

lemma signed_range:
  "carrier_width c \<in> {8, 16, 32} \<Longrightarrow> carrier_signed c \<or> carrier_width c \<noteq> 32 \<Longrightarrow> go_value c k \<Longrightarrow>
     signed_take_bit 31 k = k"
  by (rule signed_take_bit_int_eq_self) (auto simp: go_value_def split: if_splits)

lemma unsigned_range: "\<not> carrier_signed c \<Longrightarrow> go_value c k \<Longrightarrow> take_bit (carrier_width c) k = k"
  by (rule take_bit_int_eq_self) (auto simp: go_value_def)

lemma wrap_signed32 [simp]:
  "carrier_width c \<le> 32 \<Longrightarrow> go_wrap c (signed_take_bit 31 k) = go_wrap c k"
  by (simp add: go_wrap_signed_take_bit)

text \<open>The bitwise operators and the right shift stay in the carrier.\<close>

lemma drop_bit_stable:
  fixes k :: int
  shows "signed_take_bit n k = k \<Longrightarrow> signed_take_bit n (drop_bit m k) = drop_bit m k"
    "take_bit n k = k \<Longrightarrow> take_bit n (drop_bit m k) = drop_bit m k"
proof -
  show "signed_take_bit n (drop_bit m k) = drop_bit m k" if "signed_take_bit n k = k"
    by (subst that [symmetric], intro bit_eqI, subst (2) that [symmetric])
      (auto simp: bit_simps min_def)
  show "take_bit n (drop_bit m k) = drop_bit m k" if "take_bit n k = k"
    by (subst that [symmetric], intro bit_eqI, subst (2) that [symmetric]) (auto simp: bit_simps)
qed

lemma go_value_stable:
  assumes "carrier_ok c" "go_value c k"
  shows "carrier_signed c \<Longrightarrow> signed_take_bit (carrier_width c - 1) k = k"
    "\<not> carrier_signed c \<Longrightarrow> take_bit (carrier_width c) k = k"
  using assms go_wrap_id [of c k] by (simp_all add: go_wrap_def)

lemma go_value_drop:
  assumes "carrier_ok c" "go_value c l"
  shows "go_wrap c (drop_bit n l) = drop_bit n l"
  using go_value_stable [OF assms] drop_bit_stable by (auto simp: go_wrap_def)

lemma go_value_bitwise:
  assumes "carrier_ok c" "go_value c l" "go_value c r"
    "operator \<in> {AND_token, OR_token, XOR_token, AND_NOT}"
  shows "go_wrap c (go_exact operator l r) = go_exact operator l r"
proof (cases "carrier_signed c")
  case True
  then show ?thesis
    using assms(4) go_value_stable(1) [OF assms(1,2)] go_value_stable(1) [OF assms(1,3)]
      signed_take_bit_bitwise [of "carrier_width c - 1"]
    by (auto simp: go_wrap_def) metis+
next
  case False
  have "take_bit n (k AND NOT j) = k AND NOT j" if "take_bit n k = k" for n and k j :: int
    by (subst (1 2) that [symmetric]) (auto intro!: bit_eqI simp: bit_simps)
  then show ?thesis
    using False assms(4) go_value_stable(2) [OF assms(1,2)] go_value_stable(2) [OF assms(1,3)]
    by (auto simp: go_wrap_def)
qed

subsection \<open>The emitted operators\<close>

text \<open>
  What the expression of an operator has to satisfy: it evaluates to a value whose integer part
  wraps to the result, and to the carried result itself when no normalization follows.
\<close>

definition operator_value ::
    "'q emit_context \<Rightarrow> Carrier \<Rightarrow> go_token \<Rightarrow> int \<Rightarrow> int \<Rightarrow> js_value \<Rightarrow> bool" where
  "operator_value ctx c operator l r v \<longleftrightarrow>
     (\<exists>k. holds_integer (ctx_IntegerRepresentation ctx) c v k \<and>
          go_wrap c k = go_wrap c (go_exact operator l r)) \<and>
     (\<not> RequiresExactResult (ctx_IntegerRepresentation ctx) c \<or> alreadyNormalizedNumberResult ctx c operator \<longrightarrow>
        v = carried (ctx_IntegerRepresentation ctx) c (go_wrap c (go_exact operator l r)))"

lemma operator_valueI:
  "v = carried (ctx_IntegerRepresentation ctx) c (go_wrap c (go_exact operator l r)) \<Longrightarrow>
     operator_value ctx c operator l r v"
  unfolding operator_value_def using holds_carried go_wrap_wrap by metis

lemma operator_value_exact:
  assumes "RequiresExactResult (ctx_IntegerRepresentation ctx) c"
    "\<not> alreadyNormalizedNumberResult ctx c operator"
    "holds_integer (ctx_IntegerRepresentation ctx) c v k"
    "go_wrap c k = go_wrap c (go_exact operator l r)"
  shows "operator_value ctx c operator l r v"
  using assms by (auto simp: operator_value_def)

text \<open>The questions the emitter asks, for a carrier that is a \<open>number\<close>.\<close>

lemma number_questions:
  assumes "CarrierRepresentation (ctx_IntegerRepresentation ctx) c = Some IntegerCarrierNumber"
  shows "RequiresUint32Normalization (ctx_IntegerRepresentation ctx) c \<longleftrightarrow>
      \<not> carrier_signed c \<and> carrier_width c = 32"
    "RequiresExactNumberMultiplication (ctx_IntegerRepresentation ctx) c \<longleftrightarrow>
      RequiresExactResult (ctx_IntegerRepresentation ctx) c \<and> carrier_width c = 32"
    "alreadyNormalizedNumberResult ctx c operator \<longleftrightarrow>
      carrier_width c = 32 \<and>
      (operator = MUL \<and> carrier_signed c \<and> RequiresExactResult (ctx_IntegerRepresentation ctx) c \<or>
       operator \<in> {AND_token, OR_token, XOR_token, AND_NOT, SHL, SHR})"
  using assms
  by (auto simp: RequiresUint32Normalization_def RequiresExactNumberMultiplication_def
      alreadyNormalizedNumberResult_def)

lemma bigint_questions:
  assumes "CarrierRepresentation (ctx_IntegerRepresentation ctx) c = Some IntegerCarrierBigInt"
  shows "\<not> RequiresUint32Normalization (ctx_IntegerRepresentation ctx) c"
    "\<not> RequiresExactNumberMultiplication (ctx_IntegerRepresentation ctx) c"
    "\<not> alreadyNormalizedNumberResult ctx c operator"
  using assms
  by (auto simp: RequiresUint32Normalization_def RequiresExactNumberMultiplication_def
      alreadyNormalizedNumberResult_def)

text \<open>The results of the \<open>number\<close> operators on values of a carrier.\<close>

lemma number_sum:
  assumes "carrier_width c \<in> {8, 16, 32}" "go_value c l" "go_value c r"
  shows "js_add (int_number l) (int_number r) = int_number (l + r)"
    "js_sub (int_number l) (int_number r) = int_number (l - r)"
  using number_range(2) [OF assms(1,2)] number_range(2) [OF assms(1,3)]
  by (simp_all add: js_add_int js_sub_int)

lemma number_product:
  assumes "carrier_width c \<in> {8, 16}" "go_value c l" "go_value c r"
  shows "integer_part (js_mul (int_number l) (int_number r)) = l * r"
proof -
  have "\<bar>k\<bar> \<le> 2 ^ 16" if "go_value c k" for k
    using that assms(1) by (auto simp: go_value_def split: if_splits)
  then have "\<bar>l\<bar> * \<bar>r\<bar> \<le> 2 ^ 16 * 2 ^ 16" using assms(2,3) by (intro mult_mono) auto
  then have "\<bar>l * r\<bar> \<le> 2 ^ 53" by (simp add: abs_mult)
  from integer_part_fin_value [OF js_mul_int [OF this]] show ?thesis by (simp only: trunc_of_int)
qed

lemma number_bitwise:
  "js_and (int_number l) (int_number r) = int_number (signed_take_bit 31 (l AND r))"
  "js_or (int_number l) (int_number r) = int_number (signed_take_bit 31 (l OR r))"
  "js_xor (int_number l) (int_number r) = int_number (signed_take_bit 31 (l XOR r))"
  "js_and (int_number l) (js_not (int_number r)) = int_number (signed_take_bit 31 (l AND NOT r))"
  "js_imul (int_number l) (int_number r) = int_number (signed_take_bit 31 (l * r))"
  by (simp_all add: js_and_def js_or_def js_xor_def js_not_def js_imul_def signed_take_bit_bitwise
      signed_take_bit_take_bit_mult [of 31, simplified])

lemma number_shift:
  assumes "0 \<le> r" "r < 32"
  shows "js_shl (int_number l) (int_number r) = int_number (signed_take_bit 31 (push_bit (nat r) l))"
    "js_shr (int_number l) (int_number r) = int_number (drop_bit (nat r) (signed_take_bit 31 l))"
    "js_ushr (int_number l) (int_number r) = int_number (drop_bit (nat r) (take_bit 32 l))"
  using shift_count_int [OF assms] shift_count_int [of 0]
  by (simp_all add: js_shl_def js_shr_def js_ushr_def signed_take_bit_push_bit)

lemma js_ushr_zero: "js_ushr (int_number l) (Fin 0) = int_number (take_bit 32 l)"
  using shift_count_int [of 0] by (simp add: js_ushr_def)

context integer_target
begin

text \<open>A \<open>bigint\<close> operator is exact.\<close>

lemma bigint_target:
  assumes rep: "CarrierRepresentation (ctx_IntegerRepresentation ctx) c = Some IntegerCarrierBigInt"
    and ok: "carrier_ok c"
    and operator: "operator \<in> {ADD, SUB, MUL, AND_token, OR_token, XOR_token, AND_NOT, SHL, SHR}"
    and L: "eval call env L w = (Inr (JBigInt l), w1)"
    and R: "eval call env R w1 = (Inr (JBigInt r), w2)"
    and shift: "operator \<in> {SHL, SHR} \<Longrightarrow> 0 \<le> r"
  shows "\<exists>e v. target_expression ctx operator c L R = Some e \<and> eval call env e w = (Inr v, w2) \<and>
    operator_value ctx c operator l r v"
proof -
  note q = bigint_questions [OF rep]
  have exact: "RequiresExactResult (ctx_IntegerRepresentation ctx) c"
    using exact_iff [OF ok profile_valid] rep by blast
  have v: "operator_value ctx c operator l r (JBigInt (go_exact operator l r))"
    by (rule operator_value_exact [OF exact q(3)]) (auto simp: holds_integer_def rep)
  show ?thesis
    using operator L R v shift
    by (auto simp: target_expression_def needsUint32Normalization_def Let_def q bigint_shift_def)
qed

lemma zero_literal:
  assumes "Describe (ctx_TypesSizes ctx) t = Some c"
    "CarrierRepresentation (ctx_IntegerRepresentation ctx) c = Some IntegerCarrierNumber"
  shows "\<exists>z. CarrierLiteral ctx c ''0'' = Inr z \<and> (\<forall>w. eval call env z w = (Inr (int_value 0), w))"
  using literal_eval [OF assms(1), of 0] assms(2) by (simp add: itoa_0 carried_def)

lemma number_target:
  assumes described: "Describe (ctx_TypesSizes ctx) t = Some c"
    and rep: "CarrierRepresentation (ctx_IntegerRepresentation ctx) c = Some IntegerCarrierNumber"
    and width: "carrier_width c \<in> {8, 16, 32}"
    and operator: "operator \<in> {ADD, SUB, MUL, AND_token, OR_token, XOR_token, AND_NOT, SHL, SHR}"
    and exact: "exact_operation (ctx_IntegerRepresentation ctx) c operator"
    and L: "eval call env L w = (Inr (int_value l), w1)"
    and R: "eval call env R w1 = (Inr (int_value r), w2)"
    and l: "go_value c l" and r: "operator \<notin> {SHL, SHR} \<Longrightarrow> go_value c r"
    and shift: "operator \<in> {SHL, SHR} \<Longrightarrow> 0 \<le> r \<and> r < 32"
  shows "\<exists>e v. target_expression ctx operator c L R = Some e \<and> eval call env e w = (Inr v, w2) \<and>
    operator_value ctx c operator l r v"
proof -
  note q = number_questions [OF rep]
  have ok: "carrier_ok c" by (rule Describe_ok [OF described])
  obtain z where z: "CarrierLiteral ctx c ''0'' = Inr z" "\<And>w. eval call env z w = (Inr (int_value 0), w)"
    using zero_literal [OF described rep] by blast
  have holds: "holds_integer (ctx_IntegerRepresentation ctx) c (JNumber a) (integer_part a)" for a
    by (simp add: holds_integer_def rep)
  have c32: "carrier_width c \<le> 32" using width by auto
  have normal: "operator_value ctx c operator l r (JNumber a)"
    if "RequiresExactResult (ctx_IntegerRepresentation ctx) c" "\<not> alreadyNormalizedNumberResult ctx c operator"
      "go_wrap c (integer_part a) = go_wrap c (go_exact operator l r)" for a
    using operator_value_exact [OF that(1,2) holds that(3)] .
  have final: "operator_value ctx c operator l r (int_value (go_wrap c (go_exact operator l r)))"
    by (rule operator_valueI) (simp add: carried_def rep)
  have T: "target_expression ctx operator c L R =
      (let R' = (if operator = AND_NOT then PrefixUnaryExpression TildePrefix R else R);
           operator' = (if operator = AND_NOT then AND_token else operator) in
       if operator = MUL \<and> RequiresExactResult (ctx_IntegerRepresentation ctx) c \<and> carrier_width c = 32
       then Some (exactNumberMultiplication L R)
       else if \<not> carrier_signed c \<and> carrier_width c = 32 \<and> operator' \<in> {AND_token, OR_token, XOR_token, SHL}
       then Some (BinaryExpression (BinaryExpression L (the (targetOperator ctx operator' c)) R')
              GreaterThanGreaterThanGreaterThanToken z)
       else Some (BinaryExpression L (the (targetOperator ctx operator' c)) R'))"
    using operator by (auto simp: target_expression_def needsUint32Normalization_def Let_def q z(1))
  consider (add) "operator \<in> {ADD, SUB}" | (mul) "operator = MUL"
    | (bit) "operator \<in> {AND_token, OR_token, XOR_token, AND_NOT}" | (shl) "operator = SHL" | (shr) "operator = SHR"
    using operator by auto
  then show ?thesis
  proof cases
    case add
    then have "RequiresExactResult (ctx_IntegerRepresentation ctx) c" "\<not> alreadyNormalizedNumberResult ctx c operator"
      using exact by (auto simp: exact_operation_def isComparison_def q)
    then show ?thesis
      using add L R number_sum [OF width l r] normal [of "int_number (go_exact operator l r)"]
      by (auto simp: T Let_def)
  next
    case mul
    then have e: "RequiresExactResult (ctx_IntegerRepresentation ctx) c"
      using exact by (auto simp: exact_operation_def isComparison_def)
    show ?thesis
    proof (cases "carrier_width c = 32")
      case True
      have "operator_value ctx c MUL l r (int_value (signed_take_bit 31 (l * r)))"
      proof (cases "carrier_signed c")
        case s: True
        then show ?thesis using final mul True by (simp add: go_wrap_def)
      next
        case False
        then show ?thesis using normal [of "int_number (signed_take_bit 31 (l * r))"] e mul c32
          by (simp add: q)
      qed
      then show ?thesis
        unfolding T using mul e True L R
        by (auto simp: Let_def exactNumberMultiplication_def TargetIntrinsic_Expression_def
            TargetGlobalAnchorName_def globals intrinsics number_bitwise)
    next
      case False
      then have "carrier_width c \<in> {8, 16}" using width by auto
      then show ?thesis
        unfolding T using mul False L R e number_product [of c l r] l r normal [of "js_mul (int_number l) (int_number r)"]
        by (auto simp: Let_def q)
    qed
  next
    case bit
    then have stay: "go_wrap c (go_exact operator l r) = go_exact operator l r"
      using go_value_bitwise [OF ok l r] by auto
    have value_ok: "go_value c (go_exact operator l r)" using stay go_wrap_value ok carrier_ok_positive by metis
    show ?thesis
    proof (cases "\<not> carrier_signed c \<and> carrier_width c = 32")
      case True
      then have "take_bit 32 (signed_take_bit 31 (go_exact operator l r)) = go_wrap c (go_exact operator l r)"
        using wrap_signed32 [OF c32, of "go_exact operator l r"] by (simp add: go_wrap_def)
      then show ?thesis
        unfolding T using bit True L R z(2) final
        by (auto simp: Let_def number_bitwise js_ushr_zero)
    next
      case False
      then have "signed_take_bit 31 (go_exact operator l r) = go_wrap c (go_exact operator l r)"
        using signed_range [OF width _ value_ok] stay by auto
      then show ?thesis
        unfolding T using bit False L R final by (auto simp: Let_def number_bitwise)
    qed
  next
    case shl
    note js = number_shift [OF shift [THEN conjunct1] shift [THEN conjunct2]]
    consider (exact) "carrier_width c \<noteq> 32" | (unsigned) "\<not> carrier_signed c" "carrier_width c = 32"
      | (signed) "carrier_signed c" "carrier_width c = 32" by blast
    then show ?thesis
    proof cases
      case exact
      then have "RequiresExactResult (ctx_IntegerRepresentation ctx) c" "\<not> alreadyNormalizedNumberResult ctx c operator"
        using \<open>exact_operation (ctx_IntegerRepresentation ctx) c operator\<close> shl
        by (auto simp: exact_operation_def isComparison_def q)
      then show ?thesis
        unfolding T using shl exact L R normal [of "int_number (signed_take_bit 31 (push_bit (nat r) l))"] c32 js(1)
        by (auto simp: Let_def)
    next
      case unsigned
      then have "take_bit 32 (signed_take_bit 31 (push_bit (nat r) l)) = go_wrap c (push_bit (nat r) l)"
        using wrap_signed32 [OF c32, of "push_bit (nat r) l"] by (simp add: go_wrap_def)
      then show ?thesis
        unfolding T using shl unsigned L R final js(1) z(2) by (auto simp: Let_def js_ushr_zero)
    next
      case signed
      then show ?thesis
        unfolding T using shl L R final js(1) by (auto simp: Let_def go_wrap_def)
    qed
  next
    case shr
    note js = number_shift [OF shift [THEN conjunct1] shift [THEN conjunct2]]
    have stay: "go_wrap c (drop_bit (nat r) l) = drop_bit (nat r) l"
      by (rule go_value_drop [OF ok l])
    show ?thesis
    proof (cases "\<not> carrier_signed c \<and> carrier_width c = 32")
      case True
      then have "take_bit 32 l = l" using unsigned_range [of c l] l by simp
      then show ?thesis
        unfolding T using shr True L R final js(3) stay
        by (auto simp: Let_def q)
    next
      case False
      then have "signed_take_bit 31 l = l" using signed_range [OF width _ l] by auto
      then show ?thesis
        unfolding T using shr False L R final js(2) stay
        by (auto simp: Let_def q)
    qed
  qed
qed

end

context integer_target
begin

lemma normalize_defined:
  assumes ok: "carrier_ok c" and exact: "exactly_carried (ctx_IntegerRepresentation ctx) c"
  shows "\<exists>n. NormalizeFixedWidth ctx c e = Inr n"
proof (cases rule: exactly_carried_cases [OF ok exact])
  case 1
  then show ?thesis by (simp add: NormalizeFixedWidth_def)
next
  case 2
  obtain f g where "resolves ctx env RuntimeIntegerNormalizeSigned64 f" "resolves ctx env RuntimeIntegerNormalizeUnsigned64 g"
    using int64 uint64 by blast
  then show ?thesis using 2
    by (cases "carrier_signed c") (auto simp: NormalizeFixedWidth_def normalizeBigInt_def resolves_def)
qed

lemma normalize_error:
  assumes ok: "carrier_ok c" and exact: "exactly_carried (ctx_IntegerRepresentation ctx) c"
    and n: "NormalizeFixedWidth ctx c e = Inr n" and e: "eval call env e w = (Inl x, w')"
  shows "eval call env (emission_Value n) w = (Inl x, w')"
proof (cases rule: exactly_carried_cases [OF ok exact])
  case 1
  then show ?thesis using n e
    by (auto simp: NormalizeFixedWidth_def NormalizeNumber_def Let_def)
next
  case 2
  obtain f g where "resolves ctx env RuntimeIntegerNormalizeSigned64 f" "resolves ctx env RuntimeIntegerNormalizeUnsigned64 g"
    using int64 uint64 by blast
  then show ?thesis using n e 2
    by (auto simp: NormalizeFixedWidth_def normalizeBigInt_def Let_def resolves_def NameReference_Expression_def
        split: if_splits)
qed

text \<open>Normalization of a whole result: the value wraps, and an exception stays the exception it is.\<close>

lemma normalize_result:
  assumes described: "Describe (ctx_TypesSizes ctx) t = Some c"
    and exact: "RequiresExactResult (ctx_IntegerRepresentation ctx) c"
    and operator: "\<not> isComparison operator" "\<not> alreadyNormalizedNumberResult ctx c operator"
    and result: "emission_Before result = []" "eval call env (emission_Value result) w = (v, w')"
    and holds: "\<And>u. v = Inr u \<Longrightarrow> \<exists>k. holds_integer (ctx_IntegerRepresentation ctx) c u k \<and> go_wrap c k = go_wrap c x"
  shows "\<exists>e. normalizeExactResult ctx operator c result = Inr e \<and> emission_Before e = [] \<and>
    eval call env (emission_Value e) w =
      (case v of Inl err \<Rightarrow> Inl err | Inr _ \<Rightarrow> Inr (carried (ctx_IntegerRepresentation ctx) c (go_wrap c x)), w')"
proof -
  note ok = Describe_ok [OF described]
  note ex = exact_exactly_carried [OF ok exact]
  show ?thesis
  proof (cases v)
    case (Inl err)
    obtain n where n: "NormalizeFixedWidth ctx c (emission_Value result) = Inr n"
      using normalize_defined [OF ok ex] by blast
    show ?thesis
      using normalize_error [OF ok ex n result(2) [unfolded Inl]] Inl n exact operator result(1)
      by (simp add: normalizeExactResult_def)
  next
    case (Inr u)
    then obtain k where k: "holds_integer (ctx_IntegerRepresentation ctx) c u k" "go_wrap c k = go_wrap c x"
      using holds by blast
    obtain n where "NormalizeFixedWidth ctx c (emission_Value result) = Inr n"
      "eval call env (emission_Value n) w = (Inr (carried (ctx_IntegerRepresentation ctx) c (go_wrap c k)), w')"
      by (rule normalize_fixed [OF ok ex result(2) [unfolded Inr] k(1)])
    then show ?thesis using Inr k(2) exact operator result(1) by (simp add: normalizeExactResult_def)
  qed
qed

lemma align_eval:
  assumes c: "Describe (ctx_TypesSizes ctx) t = Some c" and rc: "Describe (ctx_TypesSizes ctx) u = Some rc"
    and R: "eval call env R w = (Inr (carried (ctx_IntegerRepresentation ctx) rc r), w')" and r: "\<bar>r\<bar> \<le> 2 ^ 53"
  shows "\<exists>R'. alignShiftCount ctx c rc R = Some R' \<and>
    eval call env R' w = (Inr (carried (ctx_IntegerRepresentation ctx) c r), w')"
  using representation_cases [OF Describe_ok [OF c] profile_valid]
    representation_cases [OF Describe_ok [OF rc] profile_valid] R to_double_of_int [OF r]
  by (auto simp: alignShiftCount_def carried_def TargetIntrinsic_Expression_def TargetGlobalAnchorName_def
      globals intrinsics split: if_splits)

end

definition right_carrier :: "go_token \<Rightarrow> Carrier \<Rightarrow> Carrier \<Rightarrow> Carrier" where
  "right_carrier operator c rc = (if operator \<in> {SHL, SHR} then rc else c)"

context integer_target
begin

lemma holds_wrapped: "\<exists>k. holds_integer p c (carried p c x) k \<and> go_wrap c k = go_wrap c x"
  using holds_carried by blast

text \<open>Division and remainder call the runtime.\<close>

lemma apply_runtime:
  assumes described: "Describe (ctx_TypesSizes ctx) t = Some c"
    and exact: "RequiresExactResult (ctx_IntegerRepresentation ctx) c"
    and operator: "operator \<in> {QUO, REM}"
    and L: "eval call env (emission_Value left) w = (Inr (carried (ctx_IntegerRepresentation ctx) c l), w1)"
    and R: "eval call env (emission_Value right) w1 = (Inr (carried (ctx_IntegerRepresentation ctx) c r), w2)"
    and l: "go_value c l" and r: "go_value c r"
  shows "\<exists>e. Apply ctx operator c rc left right = Inr (Some e) \<and> emission_Before e = [] \<and>
    eval call env (emission_Value e) w = (go_binary (ctx_IntegerRepresentation ctx) c operator l r, w2)"
proof -
  note ok = Describe_ok [OF described]
  have "\<exists>symbol f. runtimeOperation (ctx_IntegerRepresentation ctx) c operator = Some symbol \<and>
      resolves ctx env symbol f \<and>
      (\<forall>w. call f [carried (ctx_IntegerRepresentation ctx) c l, carried (ctx_IntegerRepresentation ctx) c r] w =
        (divide_by_zero r (carried (ctx_IntegerRepresentation ctx) c (go_exact operator l r)), w))"
  proof (cases rule: exact_cases [OF ok exact])
    case 1
    then show ?thesis
      using operator number_divide number_remainder number_range(2) [OF 1(2) l] number_range(2) [OF 1(2) r]
      by (auto simp: runtimeOperation_def carried_def)
  next
    case 2
    then show ?thesis
      using operator bigint_divide bigint_remainder
      by (auto simp: runtimeOperation_def carried_def)
  qed
  then obtain symbol f where symbol: "runtimeOperation (ctx_IntegerRepresentation ctx) c operator = Some symbol"
    and f: "resolves ctx env symbol f"
    and law: "\<And>w. call f [carried (ctx_IntegerRepresentation ctx) c l, carried (ctx_IntegerRepresentation ctx) c r] w =
        (divide_by_zero r (carried (ctx_IntegerRepresentation ctx) c (go_exact operator l r)), w)"
    by blast
  from f obtain ref where ref: "ctx_Runtime ctx symbol ImportPhaseValue = Inr ref"
    "ref_qualifier ref = ''''" "env (ref_name ref) = Some f"
    by (auto simp: resolves_def)
  obtain e0 where call0: "callRuntime ctx symbol left right = Inr e0" "emission_Before e0 = []"
    "eval call env (emission_Value e0) w =
      (divide_by_zero r (carried (ctx_IntegerRepresentation ctx) c (go_exact operator l r)), w2)"
    using ref L R law by (auto simp: callRuntime_def NameReference_Expression_def)
  have already: "\<not> alreadyNormalizedNumberResult ctx c operator"
    using operator by (auto simp: alreadyNormalizedNumberResult_def)
  have "\<exists>e. normalizeExactResult ctx operator c e0 = Inr e \<and> emission_Before e = [] \<and>
    eval call env (emission_Value e) w =
      (case divide_by_zero r (carried (ctx_IntegerRepresentation ctx) c (go_exact operator l r)) of
         Inl err \<Rightarrow> Inl err
       | Inr _ \<Rightarrow> Inr (carried (ctx_IntegerRepresentation ctx) c (go_wrap c (go_exact operator l r))), w2)"
    using operator already call0(2,3)
    by (intro normalize_result [OF described exact])
      (auto simp: isComparison_def divide_by_zero_def intro: holds_wrapped split: if_splits)
  then show ?thesis
    using operator symbol call0(1)
    by (auto simp: Apply_def go_binary_def isComparison_def divide_by_zero_def split: if_splits)
qed

text \<open>A comparison compares the operands.\<close>

lemma apply_comparison:
  assumes described: "Describe (ctx_TypesSizes ctx) t = Some c" and operator: "isComparison operator"
    and L: "eval call env (emission_Value left) w = (Inr (carried (ctx_IntegerRepresentation ctx) c l), w1)"
    and R: "eval call env (emission_Value right) w1 = (Inr (carried (ctx_IntegerRepresentation ctx) c r), w2)"
  shows "\<exists>e. Apply ctx operator c rc left right = Inr (Some e) \<and> emission_Before e = [] \<and>
    eval call env (emission_Value e) w = (go_binary (ctx_IntegerRepresentation ctx) c operator l r, w2)"
proof -
  have "\<exists>token. target_expression ctx operator c (emission_Value left) (emission_Value right) =
      Some (BinaryExpression (emission_Value left) token (emission_Value right)) \<and>
    binary_result token (carried (ctx_IntegerRepresentation ctx) c l) (carried (ctx_IntegerRepresentation ctx) c r) =
      Inr (JBoolean (go_compare operator l r))"
    using operator
    by (auto simp: isComparison_def target_expression_def needsUint32Normalization_def carried_def)
  moreover have "runtimeOperation (ctx_IntegerRepresentation ctx) c operator = None"
    using operator by (auto simp: isComparison_def runtimeOperation_def split: option.split IntegerCarrier.split)
  moreover have "operator \<noteq> SHL" "operator \<noteq> SHR" using operator by (auto simp: isComparison_def)
  ultimately show ?thesis
    using operator L R by (auto simp: Apply_def normalizeExactResult_def go_binary_def)
qed

text \<open>Every other operator is an expression of the target, normalized where the profile asks for it.\<close>

lemma apply_operator:
  assumes described: "Describe (ctx_TypesSizes ctx) t = Some c" and right_described: "Describe (ctx_TypesSizes ctx) u = Some rc"
    and exact: "exact_operation (ctx_IntegerRepresentation ctx) c operator"
    and operator: "operator \<in> {ADD, SUB, MUL, AND_token, OR_token, XOR_token, AND_NOT, SHL, SHR}"
    and L: "eval call env (emission_Value left) w = (Inr (carried (ctx_IntegerRepresentation ctx) c l), w1)"
    and R: "eval call env (emission_Value right) w1 =
      (Inr (carried (ctx_IntegerRepresentation ctx) (right_carrier operator c rc) r), w2)"
    and l: "go_value c l" and r: "go_value (right_carrier operator c rc) r"
    and shift: "operator \<in> {SHL, SHR} \<Longrightarrow> 0 \<le> r \<and> r < int (carrier_width c)"
  shows "\<exists>e. Apply ctx operator c rc left right = Inr (Some e) \<and> emission_Before e = [] \<and>
    eval call env (emission_Value e) w = (go_binary (ctx_IntegerRepresentation ctx) c operator l r, w2)"
proof -
  note ok = Describe_ok [OF described]
  have width64: "carrier_width c \<le> 64" using carrier_ok_width [OF ok] by auto
  define R' where "R' = (if operator = SHL \<or> operator = SHR
    then alignShiftCount ctx c rc (emission_Value right) else Some (emission_Value right))"
  have "\<exists>e. R' = Some e \<and> eval call env e w1 = (Inr (carried (ctx_IntegerRepresentation ctx) c r), w2)"
  proof (cases "operator = SHL \<or> operator = SHR")
    case True
    then have "\<bar>r\<bar> \<le> 2 ^ 53" using shift width64 by auto
    then show ?thesis
      using True R align_eval [OF described right_described, of "emission_Value right" w1 r w2]
      by (auto simp: R'_def right_carrier_def)
  next
    case False
    then show ?thesis using R by (auto simp: R'_def right_carrier_def)
  qed
  then obtain e where e: "R' = Some e" "eval call env e w1 = (Inr (carried (ctx_IntegerRepresentation ctx) c r), w2)"
    by blast
  have "\<exists>t v. target_expression ctx operator c (emission_Value left) e = Some t \<and>
      eval call env t w = (Inr v, w2) \<and> operator_value ctx c operator l r v"
  proof (cases rule: exactly_carried_cases [OF ok exact [unfolded exact_operation_def, THEN conjunct1]])
    case 1
    then have "carrier_width c \<le> 32" by auto
    then show ?thesis
      using 1 L e(2) l r shift
      by (intro number_target [OF described 1 operator exact]) (auto simp: carried_def right_carrier_def)
  next
    case 2
    then show ?thesis
      using L e(2) shift by (intro bigint_target [OF 2(1) ok operator]) (auto simp: carried_def)
  qed
  then obtain t' v where t: "target_expression ctx operator c (emission_Value left) e = Some t'"
    "eval call env t' w = (Inr v, w2)" "operator_value ctx c operator l r v"
    by blast
  define direct where "direct = DirectExpression t' (CombineRequests [emission_Requests left, emission_Requests right])"
  have plain: "\<not> isComparison operator" "\<not> (operator \<in> {QUO, REM} \<and> r = 0)"
    "runtimeOperation (ctx_IntegerRepresentation ctx) c operator = None"
    using operator by (auto simp: isComparison_def runtimeOperation_def split: option.split IntegerCarrier.split)
  have A: "Apply ctx operator c rc left right = map_sum id Some (normalizeExactResult ctx operator c direct)"
    using plain(3) e(1) t(1) by (auto simp: Apply_def R'_def direct_def Let_def)
  have G: "go_binary (ctx_IntegerRepresentation ctx) c operator l r =
      Inr (carried (ctx_IntegerRepresentation ctx) c (go_wrap c (go_exact operator l r)))"
    using plain by (simp add: go_binary_def)
  show ?thesis
  proof (cases "\<not> RequiresExactResult (ctx_IntegerRepresentation ctx) c \<or> alreadyNormalizedNumberResult ctx c operator")
    case True
    then show ?thesis
      using A G t plain by (auto simp: normalizeExactResult_def direct_def operator_value_def)
  next
    case False
    then have "\<exists>e. normalizeExactResult ctx operator c direct = Inr e \<and> emission_Before e = [] \<and>
      eval call env (emission_Value e) w =
        (case Inr v :: js_error + js_value of Inl err \<Rightarrow> Inl err
         | Inr _ \<Rightarrow> Inr (carried (ctx_IntegerRepresentation ctx) c (go_wrap c (go_exact operator l r))), w2)"
      using t(2,3) plain(1) by (intro normalize_result [OF described]) (auto simp: direct_def operator_value_def)
    then show ?thesis using A G by auto
  qed
qed

end

subsection \<open>Properties\<close>

text \<open>
  Where a profile keeps an integer operation exact, the expression evaluates both operands once, left
  before right, and its value is Go's result.
\<close>

lemma Apply_exact:
  assumes "integer_target ctx call env"
    and "Describe (ctx_TypesSizes ctx) t = Some c" "Describe (ctx_TypesSizes ctx) u = Some rc"
    and "exact_operation (ctx_IntegerRepresentation ctx) c operator"
    and "eval call env (emission_Value left) w = (Inr (carried (ctx_IntegerRepresentation ctx) c l), w1)"
    and "eval call env (emission_Value right) w1 =
      (Inr (carried (ctx_IntegerRepresentation ctx) (right_carrier operator c rc) r), w2)"
    and "go_value c l" "go_value (right_carrier operator c rc) r"
    and "operator \<in> {SHL, SHR} \<Longrightarrow> 0 \<le> r \<and> r < int (carrier_width c)"
  shows "\<exists>e. Apply ctx operator c rc left right = Inr (Some e) \<and> emission_Before e = [] \<and>
    eval call env (emission_Value e) w = (go_binary (ctx_IntegerRepresentation ctx) c operator l r, w2)"
proof -
  consider (compare) "isComparison operator" | (divide) "operator \<in> {QUO, REM}"
    | (other) "operator \<in> {ADD, SUB, MUL, AND_token, OR_token, XOR_token, AND_NOT, SHL, SHR}"
    using assms(4) by (auto simp: exact_operation_def go_operator_def isComparison_def)
  then show ?thesis
  proof cases
    case compare
    then have "right_carrier operator c rc = c" by (auto simp: right_carrier_def isComparison_def)
    then show ?thesis
      using integer_target.apply_comparison [OF assms(1,2) compare] assms(5,6) by simp
  next
    case divide
    then have rc: "right_carrier operator c rc = c" by (auto simp: right_carrier_def)
    have "RequiresExactResult (ctx_IntegerRepresentation ctx) c"
      using assms(4) divide by (auto simp: exact_operation_def isComparison_def)
    then show ?thesis
      using integer_target.apply_runtime [OF assms(1,2) _ divide assms(5)] assms(6,7,8) rc by simp
  next
    case other
    then show ?thesis
      using integer_target.apply_operator [OF assms(1-4) other assms(5-8)] assms(9) by blast
  qed
qed

subsection \<open>Demonstration operands\<close>

definition demo_int8 :: Carrier where
  "demo_int8 = newCarrier PrimitiveInt8 8 True"

lemma demo_int8_described: "Describe (Some 8) (Some (BasicType kindInt8)) = Some demo_int8"
  by (simp add: Describe_def demo_int8_def)

lemma module_context_simps [simp]:
  "ctx_IntegerRepresentation (module_context p sizes role) = p"
  "ctx_TypesSizes (module_context p sizes role) = sizes"
  by (simp_all add: module_context_def)

lemma demo_int8_fields: "carrier_width demo_int8 = 8" "carrier_signed demo_int8"
  by (simp_all add: demo_int8_def newCarrier_def)

lemma demo_int8_number: "CarrierRepresentation IntegerRepresentationBigInt demo_int8 = Some IntegerCarrierNumber"
  using representation_cases [OF Describe_ok [OF demo_int8_described], of IntegerRepresentationBigInt]
  by (simp add: demo_int8_fields)

lemma demo_int8_exact: "RequiresExactResult IntegerRepresentationBigInt demo_int8"
  by (simp add: exact_iff [OF Describe_ok [OF demo_int8_described]])

lemma demo_literal: "numeric_literal ''100'' = Inr (int_value 100)"
  using to_double_of_int [of 100] by (simp add: numeric_literal_def is_digit_def atoi_def digit_value_def)

definition demo_operand :: "unit ExpressionEmission" where
  "demo_operand = DirectExpression (NumericLiteral ''100'') []"

end
