(* ===== verification/IntegerShift.thy ===== *)
theory IntegerShift
  imports IntegerBinary
begin

text \<open>
  Shifts by a count that is not constant
  (\<open>internal/emit/expression/binary/integer/variable_shift.go\<close>): a negative count panics, a count
  of at least the width gives zero or the sign, and any other count shifts the operand.
\<close>

subsection \<open>Definitions\<close>

fun shiftOperator :: "go_token \<Rightarrow> bool \<Rightarrow> binary_operator" where
  "shiftOperator operator is_signed =
     (if operator = SHL then LessThanLessThanToken
      else if is_signed then GreaterThanGreaterThanToken
      else GreaterThanGreaterThanGreaterThanToken)"

declare shiftOperator.simps [simp del]

fun oneLike :: "ts_expression \<Rightarrow> ts_expression" where
  "oneLike (BigIntLiteral _) = BigIntLiteral ''1n''"
| "oneLike _ = NumericLiteral ''1''"

definition wideShiftResult :: "go_token \<Rightarrow> bool \<Rightarrow> ts_expression \<Rightarrow> ts_expression \<Rightarrow> ts_expression" where
  "wideShiftResult operator is_signed left zero =
     (if operator \<noteq> SHR \<or> \<not> is_signed then zero
      else ConditionalExpression (BinaryExpression left LessThanToken zero)
        (PrefixUnaryExpression MinusPrefix (oneLike zero)) zero)"

definition guardedShift ::
    "string \<Rightarrow> ts_expression \<Rightarrow> ts_expression \<Rightarrow> ts_expression \<Rightarrow> ts_expression \<Rightarrow> ts_expression \<Rightarrow> ts_expression" where
  "guardedShift panicName distance zero width wide shifted =
     ConditionalExpression (BinaryExpression distance LessThanToken zero)
       (panic_Call panicName (StringLiteral ''negative shift amount''))
       (ConditionalExpression (BinaryExpression distance GreaterThanEqualsToken width) wide shifted)"

text \<open>
  The two carriers differ in the zero literal and in the sign of the right shift; \<open>zero\<close> and
  \<open>is_signed\<close> are these arguments.
\<close>

definition variable_shift ::
    "'q emit_context \<Rightarrow> string \<Rightarrow> go_token \<Rightarrow> Carrier \<Rightarrow> Carrier \<Rightarrow> ts_expression \<Rightarrow> ts_expression \<Rightarrow>
       ts_expression \<Rightarrow> bool \<Rightarrow> emit_error + ts_expression \<times> 'q list" where
  "variable_shift ctx panicName operator carrier countCarrier left right zero is_signed =
     (case CarrierLiteral ctx countCarrier ''0'' of
        Inl e \<Rightarrow> Inl e
      | Inr countZero \<Rightarrow>
          (case CarrierLiteral ctx countCarrier (itoa (carrier_width carrier)) of
             Inl e \<Rightarrow> Inl e
           | Inr countWidth \<Rightarrow>
               (case alignShiftCount ctx carrier countCarrier right of
                  None \<Rightarrow> Inl (IntegerRepresentationError (ctx_IntegerRepresentation ctx))
                | Some shiftCount \<Rightarrow>
                    (case NormalizeFixedWidth ctx carrier left of
                       Inl e \<Rightarrow> Inl e
                     | Inr normalized \<Rightarrow>
                         (case NormalizeFixedWidth ctx carrier
                             (BinaryExpression (emission_Value normalized)
                               (shiftOperator operator is_signed) shiftCount) of
                            Inl e \<Rightarrow> Inl e
                          | Inr shifted \<Rightarrow>
                              Inr (guardedShift panicName right countZero countWidth
                                     (wideShiftResult operator (carrier_signed carrier)
                                       (emission_Value normalized) zero)
                                     (emission_Value shifted),
                                   CombineRequests [emission_Requests normalized, emission_Requests shifted]))))))"

definition numberVariableShift ::
    "'q emit_context \<Rightarrow> string \<Rightarrow> go_token \<Rightarrow> Carrier \<Rightarrow> Carrier \<Rightarrow> ts_expression \<Rightarrow> ts_expression \<Rightarrow>
       emit_error + ts_expression \<times> 'q list" where
  "numberVariableShift ctx panicName operator carrier countCarrier left right =
     variable_shift ctx panicName operator carrier countCarrier left right
       (NumericLiteral ''0'') (carrier_signed carrier)"

definition bigIntVariableShift ::
    "'q emit_context \<Rightarrow> string \<Rightarrow> go_token \<Rightarrow> Carrier \<Rightarrow> Carrier \<Rightarrow> ts_expression \<Rightarrow> ts_expression \<Rightarrow>
       emit_error + ts_expression \<times> 'q list" where
  "bigIntVariableShift ctx panicName operator carrier countCarrier left right =
     variable_shift ctx panicName operator carrier countCarrier left right (BigIntLiteral ''0n'') True"

definition ApplyVariableShift ::
    "'q emit_context \<Rightarrow> go_token \<Rightarrow> Carrier \<Rightarrow> Carrier \<Rightarrow>
       'q ExpressionEmission \<Rightarrow> 'q ExpressionEmission \<Rightarrow> 'q handled" where
  "ApplyVariableShift ctx operator carrier countCarrier left right =
     (if \<not> SupportsVariableShift (ctx_IntegerRepresentation ctx) carrier operator then Inr None
      else case ctx_Runtime ctx RuntimePanic ImportPhaseValue of
        Inl e \<Rightarrow> Inl e
      | Inr panicReference \<Rightarrow>
          (case CarrierRepresentation (ctx_IntegerRepresentation ctx) carrier of
             None \<Rightarrow> Inr None
           | Some chosen \<Rightarrow>
               (let result =
                  (case chosen of
                     IntegerCarrierNumber \<Rightarrow>
                       Some (numberVariableShift ctx (ref_name panicReference) operator carrier countCarrier
                         (emission_Value left) (emission_Value right))
                   | IntegerCarrierBigInt \<Rightarrow>
                       Some (bigIntVariableShift ctx (ref_name panicReference) operator carrier countCarrier
                         (emission_Value left) (emission_Value right))
                   | IntegerCarrierInvalid \<Rightarrow> None) in
                case result of
                  None \<Rightarrow> Inr None
                | Some (Inl e) \<Rightarrow> Inl e
                | Some (Inr (target, normalizationRequests)) \<Rightarrow>
                    Inr (Some (DirectExpression target
                      (CombineRequests
                        [emission_Requests left, emission_Requests right,
                         ref_requests panicReference, normalizationRequests]))))))"

subsection \<open>Go's shifts\<close>

text \<open>The result of \<open>l << r\<close> or \<open>l >> r\<close> for any count; push and drop are total, as in Go.\<close>

definition go_shift :: "IntegerRepresentation \<Rightarrow> Carrier \<Rightarrow> go_token \<Rightarrow> int \<Rightarrow> int \<Rightarrow> js_error + js_value" where
  "go_shift p c operator l r =
     (if r < 0 then Inl (GoPanic ''negative shift amount'')
      else Inr (carried p c (go_wrap c (go_exact operator l r))))"

text \<open>Shifting by the width or more leaves nothing but the sign.\<close>

lemma wide_shl:
  assumes "carrier_ok c" "carrier_width c \<le> n"
  shows "go_wrap c (push_bit n l) = 0"
proof -
  have low: "take_bit (carrier_width c) (push_bit n l) = 0" using assms(2) by (simp add: take_bit_push_bit)
  have "Suc (carrier_width c - 1) = carrier_width c" using carrier_ok_positive [OF assms(1)] by simp
  then have "signed_take_bit (carrier_width c - 1) (push_bit n l) = signed_take_bit (carrier_width c - 1) 0"
    using low by (intro signed_take_bit_eq_iff_take_bit_eq [THEN iffD2]) simp
  then show ?thesis using low by (simp add: go_wrap_def)
qed

lemma go_value_power:
  assumes "go_value c l" "carrier_width c \<le> n"
  shows "- (2 ^ n) \<le> l" "l < 2 ^ n" "l < 0 \<Longrightarrow> carrier_signed c"
proof -
  have p: "(2 :: int) ^ carrier_width c \<le> 2 ^ n" "(2 :: int) ^ (carrier_width c - 1) \<le> 2 ^ n"
    using assms(2) by (auto intro: power_increasing)
  have "- (2 ^ n) \<le> l \<and> l < 2 ^ n \<and> (l < 0 \<longrightarrow> carrier_signed c)"
  proof (cases "carrier_signed c")
    case True
    then have "- (2 ^ (carrier_width c - 1)) \<le> l" "l < 2 ^ (carrier_width c - 1)"
      using assms(1) by (simp_all add: go_value_def)
    then show ?thesis using True p(2) by linarith
  next
    case False
    then have "0 \<le> l" "l < 2 ^ carrier_width c" using assms(1) by (simp_all add: go_value_def)
    then show ?thesis using p(1) by linarith
  qed
  then show "- (2 ^ n) \<le> l" "l < 2 ^ n" "l < 0 \<Longrightarrow> carrier_signed c" by auto
qed

lemma wide_shr:
  assumes "carrier_ok c" "carrier_width c \<le> n" "go_value c l"
  shows "go_wrap c (drop_bit n l) = (if carrier_signed c \<and> l < 0 then - 1 else 0)"
proof -
  note bound = go_value_power [OF assms(3,2)]
  show ?thesis
  proof (cases "l < 0")
    case True
    then have "l div 2 ^ n = - 1"
      using bound(1) by (intro int_div_pos_eq [of l "2 ^ n" "- 1" "l + 2 ^ n"]) (auto simp: algebra_simps)
    then show ?thesis using True bound(3) by (simp add: drop_bit_eq_div go_wrap_def)
  next
    case False
    then have "drop_bit n l = 0" using bound(2) by (simp add: drop_bit_eq_div)
    then show ?thesis using False by (simp add: go_wrap_def)
  qed
qed

lemma carried_compare [simp]:
  "binary_result LessThanToken (carried p c a) (carried p c b) = Inr (JBoolean (a < b))"
  "binary_result GreaterThanEqualsToken (carried p c a) (carried p c b) = Inr (JBoolean (a \<ge> b))"
  by (simp_all add: carried_def)

lemma carried_negate: "prefix_result MinusPrefix (carried p c 1) = Inr (carried p c (- 1))"
  by (simp add: carried_def)

context integer_target
begin

text \<open>The shifted operand, for a count below the width.\<close>

lemma shift_number:
  assumes described: "Describe (ctx_TypesSizes ctx) t = Some c"
    and rep: "CarrierRepresentation (ctx_IntegerRepresentation ctx) c = Some IntegerCarrierNumber"
    and width: "carrier_width c \<in> {8, 16, 32}"
    and operator: "operator \<in> {SHL, SHR}"
    and l: "go_value c l" and r: "0 \<le> r" "r < int (carrier_width c)"
  shows "\<exists>a. binary_result (shiftOperator operator (carrier_signed c)) (int_value l) (int_value r) = Inr (JNumber a) \<and>
    go_wrap c (integer_part a) = go_wrap c (go_exact operator l r)"
proof -
  have r32: "r < 32" using r width by auto
  note js = number_shift [OF r(1) r32]
  consider (shl) "operator = SHL" | (unsigned) "operator = SHR" "\<not> carrier_signed c"
    | (signed) "operator = SHR" "carrier_signed c" using operator by blast
  then show ?thesis
  proof cases
    case shl
    then show ?thesis using width by (auto simp: shiftOperator.simps js)
  next
    case unsigned
    then have "take_bit 32 l = l"
      using l width by (intro take_bit_int_eq_self) (auto simp: go_value_def)
    then show ?thesis using unsigned by (simp add: shiftOperator.simps js)
  next
    case signed
    then have "signed_take_bit 31 l = l" using signed_range [OF width _ l] by auto
    then show ?thesis using signed by (simp add: shiftOperator.simps js)
  qed
qed

lemma shift_number_carried:
  assumes described: "Describe (ctx_TypesSizes ctx) t = Some c"
    and rep: "CarrierRepresentation (ctx_IntegerRepresentation ctx) c = Some IntegerCarrierNumber"
    and width: "carrier_width c \<in> {8, 16, 32}"
    and operator: "operator \<in> {SHL, SHR}"
    and l: "go_value c l" and r: "0 \<le> r" "r < int (carrier_width c)"
  shows "\<exists>v k. binary_result (shiftOperator operator (carrier_signed c))
      (carried (ctx_IntegerRepresentation ctx) c l) (carried (ctx_IntegerRepresentation ctx) c r) = Inr v \<and>
    holds_integer (ctx_IntegerRepresentation ctx) c v k \<and> go_wrap c k = go_wrap c (go_exact operator l r)"
proof -
  obtain a where a: "binary_result (shiftOperator operator (carrier_signed c)) (int_value l) (int_value r) = Inr (JNumber a)"
    "go_wrap c (integer_part a) = go_wrap c (go_exact operator l r)"
    using shift_number [OF assms] by blast
  have "carried (ctx_IntegerRepresentation ctx) c k = int_value k" for k by (simp add: carried_def rep)
  moreover have "holds_integer (ctx_IntegerRepresentation ctx) c (JNumber a) (integer_part a)"
    by (simp add: holds_integer_def rep)
  ultimately show ?thesis using a by metis
qed

lemma align_defined:
  assumes "Describe (ctx_TypesSizes ctx) t = Some c" "Describe (ctx_TypesSizes ctx) u = Some cc"
  shows "\<exists>R'. alignShiftCount ctx c cc R = Some R'"
  using representation_cases [OF Describe_ok [OF assms(1)] profile_valid]
    representation_cases [OF Describe_ok [OF assms(2)] profile_valid]
  by (simp add: alignShiftCount_def)

lemma variable_shift_exact:
  assumes described: "Describe (ctx_TypesSizes ctx) t = Some c" and count: "Describe (ctx_TypesSizes ctx) u = Some cc"
    and exact: "exactly_carried (ctx_IntegerRepresentation ctx) c" "exactly_carried (ctx_IntegerRepresentation ctx) cc"
    and operator: "operator \<in> {SHL, SHR}"
    and L: "eval call env L w = (Inr (carried (ctx_IntegerRepresentation ctx) c l), w)"
    and R: "eval call env R w = (Inr (carried (ctx_IntegerRepresentation ctx) cc r), w)"
    and l: "go_value c l" and r: "go_value cc r"
    and panic: "env panicName = Some JPanicClass"
    and zero: "\<And>w. eval call env zero w = (Inr (carried (ctx_IntegerRepresentation ctx) c 0), w)"
      "\<And>w. eval call env (oneLike zero) w = (Inr (carried (ctx_IntegerRepresentation ctx) c 1), w)"
    and shift: "\<And>r. 0 \<le> r \<Longrightarrow> r < int (carrier_width c) \<Longrightarrow>
      \<exists>v k. binary_result (shiftOperator operator is_signed)
          (carried (ctx_IntegerRepresentation ctx) c l) (carried (ctx_IntegerRepresentation ctx) c r) = Inr v \<and>
        holds_integer (ctx_IntegerRepresentation ctx) c v k \<and> go_wrap c k = go_wrap c (go_exact operator l r)"
  shows "\<exists>e q. variable_shift ctx panicName operator c cc L R zero is_signed = Inr (e, q) \<and>
    eval call env e w = (go_shift (ctx_IntegerRepresentation ctx) c operator l r, w)"
proof -
  note ok = Describe_ok [OF described]
  obtain cz where cz: "CarrierLiteral ctx cc ''0'' = Inr cz"
    "\<And>w. eval call env cz w = (Inr (carried (ctx_IntegerRepresentation ctx) cc 0), w)"
    using literal_eval [OF count, of 0] by (auto simp: itoa_0)
  obtain cw where cw: "CarrierLiteral ctx cc (itoa (carrier_width c)) = Inr cw"
    "\<And>w. eval call env cw w = (Inr (carried (ctx_IntegerRepresentation ctx) cc (int (carrier_width c))), w)"
    using literal_eval [OF count, of "carrier_width c"] carrier_ok_width [OF ok] by fastforce
  obtain R' where R': "alignShiftCount ctx c cc R = Some R'" using align_defined [OF described count] by blast
  obtain n where n: "NormalizeFixedWidth ctx c L = Inr n"
    "eval call env (emission_Value n) w = (Inr (carried (ctx_IntegerRepresentation ctx) c l), w)"
    using normalize_fixed [OF ok exact(1) L holds_carried] go_wrap_id [of c l] l ok by (metis carrier_ok_positive)
  define shifted where "shifted = BinaryExpression (emission_Value n) (shiftOperator operator is_signed) R'"
  obtain s where s: "NormalizeFixedWidth ctx c shifted = Inr s" using normalize_defined [OF ok exact(1)] by blast
  have shifted: "eval call env (emission_Value s) w =
      (Inr (carried (ctx_IntegerRepresentation ctx) c (go_wrap c (go_exact operator l r))), w)"
    if small: "0 \<le> r" "r < int (carrier_width c)"
  proof -
    have "\<bar>r\<bar> \<le> 2 ^ 53" using small carrier_ok_width [OF ok] by auto
    then have "eval call env R' w = (Inr (carried (ctx_IntegerRepresentation ctx) c r), w)"
      using align_eval [OF described count R] R' by auto
    moreover obtain v k where v: "binary_result (shiftOperator operator is_signed)
        (carried (ctx_IntegerRepresentation ctx) c l) (carried (ctx_IntegerRepresentation ctx) c r) = Inr v"
      "holds_integer (ctx_IntegerRepresentation ctx) c v k" "go_wrap c k = go_wrap c (go_exact operator l r)"
      using shift [OF small] by blast
    ultimately have "eval call env shifted w = (Inr v, w)" using n(2) by (simp add: shifted_def)
    from normalize_fixed [OF ok exact(1) this v(2)] show ?thesis using s v(3) by (metis sum.inject(2))
  qed
  have wide: "eval call env (wideShiftResult operator (carrier_signed c) (emission_Value n) zero) w =
      (Inr (carried (ctx_IntegerRepresentation ctx) c (go_wrap c (go_exact operator l r))), w)"
    if "int (carrier_width c) \<le> r"
  proof -
    have "carrier_width c \<le> nat r" using that by simp
    then show ?thesis
      using operator wide_shl [OF ok, of "nat r" l] wide_shr [OF ok, of "nat r" l] l n(2) zero
      by (auto simp: wideShiftResult_def carried_compare carried_negate)
  qed
  have T: "variable_shift ctx panicName operator c cc L R zero is_signed =
      Inr (guardedShift panicName R cz cw
             (wideShiftResult operator (carrier_signed c) (emission_Value n) zero) (emission_Value s),
           CombineRequests [emission_Requests n, emission_Requests s])"
    by (simp add: variable_shift_def cz cw R' n(1) s shifted_def [symmetric])
  consider "r < 0" | "int (carrier_width c) \<le> r" "0 \<le> r" | "0 \<le> r" "r < int (carrier_width c)" by linarith
  then have "eval call env (guardedShift panicName R cz cw
      (wideShiftResult operator (carrier_signed c) (emission_Value n) zero) (emission_Value s)) w =
      (go_shift (ctx_IntegerRepresentation ctx) c operator l r, w)"
  proof cases
    case 1
    then show ?thesis
      using R cz(2) panic panics(2) by (simp add: guardedShift_def go_shift_def carried_compare panic_Call_def staticCall_def)
  next
    case 2
    then show ?thesis using R cz(2) cw(2) wide by (simp add: guardedShift_def go_shift_def carried_compare)
  next
    case 3
    then show ?thesis using R cz(2) cw(2) shifted by (simp add: guardedShift_def go_shift_def carried_compare)
  qed
  then show ?thesis using T by blast
qed

end

lemma numeric_literal_1 [simp]: "numeric_literal ''1'' = Inr (JNumber (Fin 1))"
  using to_double_of_int [of 1] by (simp add: numeric_literal_def is_digit_def atoi_def digit_value_def)

lemma bigint_literal_1 [simp]: "bigint_literal ''1n'' = Inr (JBigInt 1)"
  by (simp add: bigint_literal_def is_digit_def atoi_def digit_value_def)

subsection \<open>Properties\<close>

text \<open>
  For operands whose evaluation leaves the state alone, the expression panics on a negative count, gives
  zero or the sign for a count of at least the width, and shifts and wraps for every other count.
\<close>

lemma ApplyVariableShift_exact:
  assumes "integer_target ctx call env"
    and "Describe (ctx_TypesSizes ctx) t = Some c" "Describe (ctx_TypesSizes ctx) u = Some cc"
    and "exactly_carried (ctx_IntegerRepresentation ctx) c" "exactly_carried (ctx_IntegerRepresentation ctx) cc"
    and "operator \<in> {SHL, SHR}"
    and "eval call env (emission_Value left) w = (Inr (carried (ctx_IntegerRepresentation ctx) c l), w)"
    and "eval call env (emission_Value right) w = (Inr (carried (ctx_IntegerRepresentation ctx) cc r), w)"
    and "go_value c l" "go_value cc r"
  shows "\<exists>e. ApplyVariableShift ctx operator c cc left right = Inr (Some e) \<and> emission_Before e = [] \<and>
    eval call env (emission_Value e) w = (go_shift (ctx_IntegerRepresentation ctx) c operator l r, w)"
proof -
  note shifted = integer_target.variable_shift_exact [OF assms(1-10)]
  obtain ref where ref: "ctx_Runtime ctx RuntimePanic ImportPhaseValue = Inr ref" "env (ref_name ref) = Some JPanicClass"
    using integer_target.panics(1) [OF assms(1)] by (auto simp: resolves_def)
  have supported: "SupportsVariableShift (ctx_IntegerRepresentation ctx) c operator"
    using assms(4,6) by (simp add: SupportsVariableShift_def exactly_carried_def)
  note emitted = ApplyVariableShift_def supported ref numberVariableShift_def bigIntVariableShift_def
  show ?thesis
  proof (cases rule: exactly_carried_cases [OF Describe_ok [OF assms(2)] assms(4)])
    case 1
    have "\<exists>e q. variable_shift ctx (ref_name ref) operator c cc (emission_Value left) (emission_Value right)
        (NumericLiteral ''0'') (carrier_signed c) = Inr (e, q) \<and>
      eval call env e w = (go_shift (ctx_IntegerRepresentation ctx) c operator l r, w)"
      by (intro shifted ref(2) integer_target.shift_number_carried [OF assms(1,2) 1 assms(6,9)])
        (auto simp: carried_def 1(1))
    then show ?thesis using 1(1) by (auto simp: emitted)
  next
    case 2
    have "\<exists>e q. variable_shift ctx (ref_name ref) operator c cc (emission_Value left) (emission_Value right)
        (BigIntLiteral ''0n'') True = Inr (e, q) \<and>
      eval call env e w = (go_shift (ctx_IntegerRepresentation ctx) c operator l r, w)"
      using assms(6)
      by (intro shifted ref(2))
        (auto simp: carried_def holds_integer_def 2(1) bigint_literal_1 shiftOperator.simps bigint_shift_def)
    then show ?thesis using 2(1) by (auto simp: emitted)
  qed
qed

subsection \<open>Repeated evaluation\<close>

text \<open>
  Without statements before the operands there are no temporaries, and the emitted expression holds the
  count three times: a function called for the count runs three times, where Go calls it once.
\<close>

definition counting_env :: js_env where
  "counting_env = module_env(''f'' \<mapsto> JHost ''f'')"

definition counting_host :: "string \<Rightarrow> js_value list \<Rightarrow> nat \<Rightarrow> (js_error + js_value) \<times> nat" where
  "counting_host name arguments calls = (Inr (int_value 3), Suc calls)"

lemma canonical_literal:
  "decimal \<noteq> '''' \<Longrightarrow> CarrierLiteral (module_context IntegerRepresentationBigInt (Some 8) role) demo_int8 decimal =
     Inr (NumericLiteral decimal)"
  by (simp add: CarrierLiteral_def canonical_abi IntegerLiteral_def ScalarABI_Carrier_def demo_int8_def newCarrier_def
      IntegerCarrierRepresentation_def NativeIntegerWidth_Valid_def)

lemma shift_count_call_repeated:
  "\<exists>pair e. PreservePair temporary (DirectExpression (NumericLiteral ''0'') [])
       (DirectExpression (CallExpression (Identifier ''f'') []) []) n = (Inr pair, n) \<and>
     ApplyVariableShift (module_context IntegerRepresentationBigInt (Some 8) role) SHL demo_int8 demo_int8
       (pair_left pair) (pair_right pair) = Inr (Some e) \<and>
     eval (call_target (map_of module_scope) counting_host) counting_env (emission_Value e) 0 =
       (Inr (int_value 0), 3)"
proof -
  obtain ref where ref: "ctx_Runtime (module_context IntegerRepresentationBigInt (Some 8) role) RuntimePanic ImportPhaseValue = Inr ref"
    using canonical.panics(1) by (auto simp: resolves_def)
  have itoa: "itoa 8 \<noteq> []" "itoa 24 \<noteq> []" by (subst itoa.simps, simp)+
  have lit: "numeric_literal (itoa 8) = Inr (int_value 8)" "numeric_literal (itoa 24) = Inr (int_value 24)"
    using numeric_literal_itoa [of 8] numeric_literal_itoa [of 24] by simp_all
  have shifts: "js_shl (Fin 0) (Fin 24) = Fin 0" "js_shr (Fin 0) (Fin 24) = Fin 0" "js_shl (Fin 0) (Fin 3) = Fin 0"
    by (simp_all add: js_shl_def js_shr_def to_int32_def)
  define zero count where "zero = NumericLiteral ''0''" and "count = CallExpression (Identifier ''f'') []"
  define norm where "norm = (\<lambda>e. BinaryExpression (BinaryExpression e LessThanLessThanToken (NumericLiteral (itoa 24)))
      GreaterThanGreaterThanToken (NumericLiteral (itoa 24)))"
  define shifted where "shifted = guardedShift (ref_name ref) count zero (NumericLiteral (itoa 8)) zero
      (norm (BinaryExpression (norm zero) LessThanLessThanToken count))"
  have pair: "\<exists>s. PreservePair temporary (DirectExpression zero []) (DirectExpression count []) n =
      (Inr \<lparr>pair_sequence = s, pair_left = DirectExpression zero [], pair_right = DirectExpression count []\<rparr>, n)"
    by (simp add: PreservePair_def Preserve_def captures_def DirectExpression_def)
  have applied: "\<exists>e. ApplyVariableShift (module_context IntegerRepresentationBigInt (Some 8) role) SHL demo_int8 demo_int8
      (DirectExpression zero []) (DirectExpression count []) = Inr (Some e) \<and> emission_Value e = shifted"
    using ref
    by (simp add: DirectExpression_def ApplyVariableShift_def SupportsVariableShift_def demo_int8_number
        numberVariableShift_def variable_shift_def canonical_literal alignShiftCount_def NormalizeFixedWidth_def
        NormalizeNumber_def Let_def demo_int8_fields itoa wideShiftResult_def shiftOperator.simps
        shifted_def norm_def zero_def)
  have value': "eval (call_target (map_of module_scope) counting_host) counting_env shifted 0 = (Inr (int_value 0), 3)"
    using js_less_int [of 3 0] js_less_eq_int [of 8 3]
    by (simp add: shifted_def guardedShift_def norm_def zero_def count_def counting_env_def counting_host_def lit shifts)
  show ?thesis using pair applied value' unfolding zero_def count_def by fastforce
qed

end
