(* ===== verification/DefinedTypes.thy ===== *)
theory DefinedTypes
  imports Emission
begin

text \<open>
  Defined types (\<open>internal/emit/type/defined/model.go\<close>): the family of a named type, and the projection
  of a value of the type to a value of the underlying one, which depends on how the type is represented
  in the target (\<open>internal/emit/api/support_contract.go\<close>).

  What \<open>go/types\<close> answers about a type is the record \<open>type_facts\<close>, and whether the emitter supports a
  function type is its field \<open>tf_Supports\<close>; the representations come from the naming interface.
\<close>

subsection \<open>Families\<close>

record type_facts =
  tf_Underlying :: "go_type \<Rightarrow> go_type"
  tf_TypeParams :: "go_type \<Rightarrow> nat"
  tf_Origin :: "go_type \<Rightarrow> go_type"
  tf_Supports :: "go_type \<Rightarrow> bool"
  tf_HasReceiver :: "go_type \<Rightarrow> bool"
  tf_AssignableTo :: "go_type option \<Rightarrow> go_type option \<Rightarrow> bool"

datatype Family =
    FamilyInvalid | FamilyBasic | FamilyArray | FamilySlice | FamilyPointer | FamilyCallable | FamilyMap
  | FamilyChannel

record Model =
  model_named :: go_type
  model_typeName :: go_object
  model_underlying :: go_type
  model_family :: Family

definition underlying_family :: "type_facts \<Rightarrow> go_type \<Rightarrow> Family option" where
  "underlying_family facts underlying =
     (case underlying of
        BasicType _ \<Rightarrow> Some FamilyBasic
      | ArrayType _ _ \<Rightarrow> Some FamilyArray
      | SliceType _ \<Rightarrow> Some FamilySlice
      | PointerType _ \<Rightarrow> Some FamilyPointer
      | SignatureType _ _ _ _ \<Rightarrow>
          if \<not> tf_Supports facts underlying \<or> tf_HasReceiver facts underlying then None
          else Some FamilyCallable
      | MapType _ _ \<Rightarrow> Some FamilyMap
      | ChanType _ _ \<Rightarrow> Some FamilyChannel
      | _ \<Rightarrow> None)"

definition Resolve :: "type_facts \<Rightarrow> go_type option \<Rightarrow> Model option" where
  "Resolve facts sourceType =
     (case sourceType of
        None \<Rightarrow> None
      | Some source \<Rightarrow>
          (case Unalias source of
             NamedType (Some obj) typeArgs \<Rightarrow>
               (let named = NamedType (Some obj) typeArgs; underlying = tf_Underlying facts named in
                case underlying_family facts underlying of
                  None \<Rightarrow> None
                | Some family \<Rightarrow>
                    if tf_TypeParams facts named \<noteq> 0 \<and> named \<noteq> tf_Origin facts named \<and>
                       length typeArgs \<noteq> tf_TypeParams facts named
                    then None
                    else
                      Some \<lparr>model_named = named, model_typeName = obj, model_underlying = underlying,
                        model_family = family\<rparr>)
           | _ \<Rightarrow> None))"

definition resolve_family :: "Family \<Rightarrow> type_facts \<Rightarrow> go_type option \<Rightarrow> Model option" where
  "resolve_family family facts sourceType =
     (case Resolve facts sourceType of
        None \<Rightarrow> None
      | Some model \<Rightarrow> if model_family model = family then Some model else None)"

definition ResolveBasic :: "type_facts \<Rightarrow> go_type option \<Rightarrow> Model option" where
  "ResolveBasic = resolve_family FamilyBasic"

definition ResolveArray :: "type_facts \<Rightarrow> go_type option \<Rightarrow> Model option" where
  "ResolveArray = resolve_family FamilyArray"

definition ResolveSlice :: "type_facts \<Rightarrow> go_type option \<Rightarrow> Model option" where
  "ResolveSlice = resolve_family FamilySlice"

definition ResolvePointer :: "type_facts \<Rightarrow> go_type option \<Rightarrow> Model option" where
  "ResolvePointer = resolve_family FamilyPointer"

definition ResolveCallable :: "type_facts \<Rightarrow> go_type option \<Rightarrow> Model option" where
  "ResolveCallable = resolve_family FamilyCallable"

definition ResolveMap :: "type_facts \<Rightarrow> go_type option \<Rightarrow> Model option" where
  "ResolveMap = resolve_family FamilyMap"

definition ResolveChannel :: "type_facts \<Rightarrow> go_type option \<Rightarrow> Model option" where
  "ResolveChannel = resolve_family FamilyChannel"

definition Model_Basic :: "Model \<Rightarrow> nat option" where
  "Model_Basic model =
     (case model_underlying model of
        BasicType kind \<Rightarrow> if model_family model = FamilyBasic then Some kind else None
      | _ \<Rightarrow> None)"

definition kindUnsafePointer :: nat where
  "kindUnsafePointer = 18"

definition NilCapable :: "Model \<Rightarrow> bool" where
  "NilCapable model \<longleftrightarrow>
     Model_Basic model = Some kindUnsafePointer \<or>
     model_family model \<in> {FamilySlice, FamilyPointer, FamilyCallable, FamilyMap, FamilyChannel}"

text \<open>The basic model of a type has a basic underlying type: the invariant error below cannot occur.\<close>

lemma ResolveBasic_Basic: "ResolveBasic facts t = Some model \<Longrightarrow> Model_Basic model \<noteq> None"
  by (auto simp: ResolveBasic_def resolve_family_def Resolve_def underlying_family_def Model_Basic_def Let_def
      split: option.splits go_type.splits if_splits)

subsection \<open>Representations\<close>

datatype DefinedValueRepresentationKind =
    DefinedValueRepresentationInvalid
  | DefinedValueRepresentationGeneratedWrapper
  | DefinedValueRepresentationProviderCanonical
  | DefinedValueRepresentationProviderOperations
  | DefinedValueRepresentationGeneratedNumeric

fun DefinedValueRepresentationKind_Valid :: "DefinedValueRepresentationKind \<Rightarrow> bool" where
  "DefinedValueRepresentationKind_Valid DefinedValueRepresentationInvalid = False"
| "DefinedValueRepresentationKind_Valid _ = True"

record 'q DefinedValueRepresentation =
  representation_Kind :: DefinedValueRepresentationKind
  representation_operations :: "'q NameReference"

definition NewDefinedValueRepresentation ::
    "DefinedValueRepresentationKind \<Rightarrow> 'q NameReference \<Rightarrow> emit_error + 'q DefinedValueRepresentation" where
  "NewDefinedValueRepresentation kind operations =
     (let hasOperations = (ref_name operations \<noteq> '''') in
      if \<not> DefinedValueRepresentationKind_Valid kind \<or>
         (kind = DefinedValueRepresentationProviderOperations) \<noteq> hasOperations
      then Inl (NamingError ''defined-value representation is invalid'')
      else Inr \<lparr>representation_Kind = kind, representation_operations = operations\<rparr>)"

definition Operations :: "'q DefinedValueRepresentation \<Rightarrow> 'q NameReference option" where
  "Operations r =
     (if ref_name (representation_operations r) = '''' then None else Some (representation_operations r))"

text \<open>\<open>names\<close> is \<open>Names().DefinedValueRepresentation\<close>, \<open>role\<close> the role of the context.\<close>

type_synonym 'q representation_names = "go_object \<Rightarrow> emit_error + 'q DefinedValueRepresentation"

definition Model_Representation ::
    "'q representation_names \<Rightarrow> string \<Rightarrow> Model \<Rightarrow> emit_error + 'q DefinedValueRepresentation" where
  "Model_Representation names role model =
     (case names (model_typeName model) of
        Inl e \<Rightarrow> Inl e
      | Inr chosen \<Rightarrow>
          if \<not> DefinedValueRepresentationKind_Valid (representation_Kind chosen)
          then Inl (InvariantError role ''defined-value representation is invalid'')
          else Inr chosen)"

definition ProviderCarrier :: "'q representation_names \<Rightarrow> string \<Rightarrow> Model \<Rightarrow> emit_error + bool" where
  "ProviderCarrier names role model =
     map_sum id (\<lambda>chosen. representation_Kind chosen = DefinedValueRepresentationProviderOperations)
       (Model_Representation names role model)"

definition ValueMember :: string where "ValueMember = ''$value''"

definition ProjectMember :: string where "ProjectMember = ''$project''"

definition Project ::
    "'q representation_names \<Rightarrow> string \<Rightarrow> Model \<Rightarrow> 'q ExpressionEmission \<Rightarrow>
       emit_error + 'q ExpressionEmission" where
  "Project names role model value' =
     (case Model_Representation names role model of
        Inl e \<Rightarrow> Inl e
      | Inr chosen \<Rightarrow>
          (case representation_Kind chosen of
             DefinedValueRepresentationProviderCanonical \<Rightarrow> Inr value'
           | DefinedValueRepresentationGeneratedNumeric \<Rightarrow> Inr value'
           | DefinedValueRepresentationProviderOperations \<Rightarrow>
               (case Operations chosen of
                  None \<Rightarrow>
                    Inl (InvariantError role ''provider defined-value projection has no operations owner'')
                | Some operations \<Rightarrow>
                    NewExpressionEmission (emission_Before value')
                      (Some (CallExpression
                        (PropertyAccessExpression (NameReference_Expression operations) ProjectMember)
                        [emission_Value value']))
                      (CombineRequests [emission_Requests value', ref_requests operations]))
           | DefinedValueRepresentationGeneratedWrapper \<Rightarrow>
               NewExpressionEmission (emission_Before value')
                 (Some (PropertyAccessExpression (emission_Value value') ValueMember))
                 (emission_Requests value')
           | DefinedValueRepresentationInvalid \<Rightarrow>
               Inl (InvariantError role ''defined-value projection representation is invalid'')))"

text \<open>A representation the naming interface may build never runs into the errors of a projection.\<close>

lemma Project_total:
  assumes "names (model_typeName model) = Inr chosen" "NewDefinedValueRepresentation kind operations = Inr chosen"
  shows "\<exists>e. Project names role model value' = Inr e \<and> emission_Before e = emission_Before value'"
  using assms
  by (cases kind)
    (auto simp: NewDefinedValueRepresentation_def Let_def Project_def Model_Representation_def Operations_def
      split: if_splits)

end
