(* ===== verification/IntegerHandler.thy ===== *)
theory IntegerHandler
  imports IntegerShift DefinedTypes
begin

text \<open>
  The handler of integer operators (\<open>Emit\<close> in \<open>internal/emit/expression/binary/integer/handler.go\<close>, and
  \<open>shift_count.go\<close>): the types of the operands, the operands from the child emitter, the shift counts of
  defined types, the order of evaluation, and the operation.

  A binary expression is what the handler reads of it: the operator, the types of the operands and of
  the result, and the facts of \<open>go/types\<close> about the right operand (whether they are known, and its
  constant value).  The child emitter gets a role and the expected type and may change the state of the
  naming interface.
\<close>

subsection \<open>Definitions\<close>

record binary_source =
  source_Op :: go_token
  source_LeftType :: "go_type option"
  source_RightType :: "go_type option"
  source_ResultType :: "go_type option"
  source_RightFacts :: "constant_value option option"

type_synonym ('q, 'n) child_emitter =
  "string \<Rightarrow> go_type option \<Rightarrow> 'n \<Rightarrow> (emit_error + 'q ExpressionEmission) \<times> 'n"

definition SupportsInteger :: "nat option \<Rightarrow> go_type option \<Rightarrow> bool" where
  "SupportsInteger sizes sourceType \<longleftrightarrow> Describe sizes sourceType \<noteq> None"

definition operandType ::
    "type_facts \<Rightarrow> nat option \<Rightarrow> go_type option \<Rightarrow> go_type option \<Rightarrow> go_type option option" where
  "operandType facts sizes left right =
     find (\<lambda>candidate.
         SupportsInteger sizes candidate \<and>
         tf_AssignableTo facts left candidate \<and> tf_AssignableTo facts right candidate)
       [left, right]"

definition isDefinedIntegerShiftCount :: "type_facts \<Rightarrow> nat option \<Rightarrow> go_type option \<Rightarrow> bool" where
  "isDefinedIntegerShiftCount facts sizes sourceType =
     (case ResolveBasic facts sourceType of
        None \<Rightarrow> False
      | Some model \<Rightarrow>
          (case Model_Basic model of
             None \<Rightarrow> False
           | Some kind \<Rightarrow> Describe sizes (Some (BasicType kind)) \<noteq> None))"

definition shiftCountCarrier :: "type_facts \<Rightarrow> nat option \<Rightarrow> go_type option \<Rightarrow> Carrier option" where
  "shiftCountCarrier facts sizes sourceType = DescribeUnderlying (tf_Underlying facts) sizes sourceType"

definition projectDefinedShiftCount ::
    "type_facts \<Rightarrow> 'q representation_names \<Rightarrow> nat option \<Rightarrow> binary_source \<Rightarrow> 'q ExpressionEmission \<Rightarrow>
       'q emitted" where
  "projectDefinedShiftCount facts names sizes source target =
     (if source_Op source \<noteq> SHL \<and> source_Op source \<noteq> SHR then Inr target
      else
        (case ResolveBasic facts (source_RightType source) of
           None \<Rightarrow> Inr target
         | Some model \<Rightarrow>
             (case Model_Basic model of
                None \<Rightarrow> Inl (InvariantError ''RoleBinaryRight'' ''defined shift count has no basic underlying type'')
              | Some kind \<Rightarrow>
                  if Describe sizes (Some (BasicType kind)) = None then Inl (UnsupportedError ''expression'')
                  else Project names ''RoleBinaryRight'' model target)))"

definition operationTypes ::
    "type_facts \<Rightarrow> IntegerRepresentation \<Rightarrow> nat option \<Rightarrow> binary_source \<Rightarrow>
       (go_type option \<times> go_type option \<times> Carrier) option" where
  "operationTypes facts profile sizes source =
     (let operator = source_Op source;
          leftType = source_LeftType source;
          rightType = source_RightType source;
          resultType = source_ResultType source in
      if isComparison operator then
        (case operandType facts sizes leftType rightType of
           None \<Rightarrow> None
         | Some operandType' \<Rightarrow>
             (case Describe sizes operandType' of
                None \<Rightarrow> None
              | Some carrier \<Rightarrow> Some (operandType', operandType', carrier)))
      else
        (case Describe sizes resultType of
           None \<Rightarrow> None
         | Some carrier \<Rightarrow>
             if \<not> tf_AssignableTo facts leftType resultType then None
             else if SupportsArithmetic profile operator \<or> SupportsBitwise profile carrier operator then
               (if \<not> tf_AssignableTo facts rightType resultType then None
                else Some (resultType, resultType, carrier))
             else if operator = SHL \<or> operator = SHR then
               (case source_RightFacts source of
                  None \<Rightarrow> None
                | Some value' \<Rightarrow>
                    (let definedCount = isDefinedIntegerShiftCount facts sizes rightType;
                         represented = (Describe sizes rightType \<noteq> None) in
                     if (case value' of
                           None \<Rightarrow>
                             \<not> represented \<and> \<not> definedCount \<or>
                             \<not> SupportsVariableShift profile carrier operator
                         | Some _ \<Rightarrow> \<not> SupportsShift profile carrier operator value')
                     then None
                     else
                       (let expectedRight = (if \<not> represented \<and> \<not> definedCount then resultType else rightType) in
                        if \<not> tf_AssignableTo facts rightType expectedRight then None
                        else Some (resultType, expectedRight, carrier))))
             else None))"

text \<open>A shift is variable when the facts of its count have no constant.\<close>

definition variable_count :: "binary_source \<Rightarrow> bool" where
  "variable_count source \<longleftrightarrow> source_Op source \<in> {SHL, SHR} \<and> source_RightFacts source = Some None"

definition binary_Emit ::
    "type_facts \<Rightarrow> 'q representation_names \<Rightarrow> ('n \<Rightarrow> (emit_error + string) \<times> 'n) \<Rightarrow> ('q, 'n) child_emitter \<Rightarrow>
       'q emit_context \<Rightarrow> binary_source \<Rightarrow> 'n \<Rightarrow> 'q handled \<times> 'n" where
  "binary_Emit facts names temporary children ctx source n =
     (case operationTypes facts (ctx_IntegerRepresentation ctx) (ctx_TypesSizes ctx) source of
        None \<Rightarrow> (Inr None, n)
      | Some (leftType, rightType, carrier) \<Rightarrow>
          (case children ''RoleBinaryLeft'' leftType n of
             (Inl e, n) \<Rightarrow> (Inl e, n)
           | (Inr left, n) \<Rightarrow>
               (case children ''RoleBinaryRight'' rightType n of
                  (Inl e, n) \<Rightarrow> (Inl e, n)
                | (Inr right, n) \<Rightarrow>
                    (case projectDefinedShiftCount facts names (ctx_TypesSizes ctx) source right of
                       Inl e \<Rightarrow> (Inl e, n)
                     | Inr right \<Rightarrow>
                         (case PreservePair temporary left right n of
                            (Inl e, n) \<Rightarrow> (Inl e, n)
                          | (Inr operands, n) \<Rightarrow>
                              (let rightCarrier =
                                 (if source_Op source = SHL \<or> source_Op source = SHR
                                  then shiftCountCarrier facts (ctx_TypesSizes ctx) rightType else Some carrier) in
                               case rightCarrier of
                                 None \<Rightarrow> (Inr None, n)
                               | Some rightCarrier \<Rightarrow>
                                   (case (if variable_count source
                                          then ApplyVariableShift ctx (source_Op source) carrier rightCarrier
                                                 (pair_left operands) (pair_right operands)
                                          else Apply ctx (source_Op source) carrier rightCarrier
                                                 (pair_left operands) (pair_right operands)) of
                                      Inl e \<Rightarrow> (Inl e, n)
                                    | Inr None \<Rightarrow> (Inr None, n)
                                    | Inr (Some target) \<Rightarrow> (map_sum id Some (Finish operands target), n))))))))"


subsection \<open>Running emissions\<close>

text \<open>An emission runs its statements and reads its value in the scope they leave.\<close>

definition run_emission ::
    "'w caller \<Rightarrow> js_env \<Rightarrow> 'q ExpressionEmission \<Rightarrow> 'w \<Rightarrow> ('w, js_value) js_result" where
  "run_emission call env e w =
     js_bind (exec call env (emission_Before e) w) (\<lambda>c w'.
       case c of Normal env' \<Rightarrow> eval call env' (emission_Value e) w' | Returned v \<Rightarrow> (Inr v, w'))"

definition emission_runs ::
    "'w caller \<Rightarrow> js_env \<Rightarrow> 'q ExpressionEmission \<Rightarrow> 'w \<Rightarrow> js_env \<Rightarrow> js_value \<Rightarrow> 'w \<Rightarrow> bool" where
  "emission_runs call env e w env' v w' \<longleftrightarrow>
     (\<exists>w1. exec call env (emission_Before e) w = (Inr (Normal env'), w1) \<and>
       eval call env' (emission_Value e) w1 = (Inr v, w'))"

text \<open>
  Go's order of evaluation: the left operand runs, then the right one, with the left value in the
  temporary \<open>t1\<close> and the right one in \<open>t2\<close> when the emitter stores the operands.  What the statements
  of the operands bind are names of their own.
\<close>

definition operands_run ::
    "'w caller \<Rightarrow> js_env \<Rightarrow> 'q ExpressionEmission \<Rightarrow> 'q ExpressionEmission \<Rightarrow> string \<Rightarrow> string \<Rightarrow> 'w \<Rightarrow>
       js_value \<Rightarrow> js_value \<Rightarrow> 'w \<Rightarrow> js_env \<Rightarrow> bool" where
  "operands_run call env left right t1 t2 w u v w2 env3 \<longleftrightarrow>
     env \<subseteq>\<^sub>m env3 \<and>
     (if captures [Present left, Present right] then
        \<exists>env1 env2 w1.
          emission_runs call env left w env1 u w1 \<and>
          emission_runs call (env1(t1 \<mapsto> u)) right w1 env2 v w2 \<and>
          env2 t1 = Some u \<and> t1 \<noteq> t2 \<and> env3 = env2(t2 \<mapsto> v)
      else
        env3 = env \<and>
        (\<exists>w1. eval call env (emission_Value left) w = (Inr u, w1) \<and>
          eval call env (emission_Value right) w1 = (Inr v, w2)))"

lemma exec_append:
  "exec call env (xs @ ys) w =
     js_bind (exec call env xs w) (\<lambda>c w'.
       case c of Normal env' \<Rightarrow> exec call env' ys w' | Returned v \<Rightarrow> (Inr (Returned v), w'))"
proof (induction xs arbitrary: env w)
  case (Cons s xs)
  then show ?case
    by (cases s) (auto simp: js_bind_def split: prod.split sum.split completion.split)
qed simp

lemma target_extended:
  assumes "integer_target ctx call env" "env \<subseteq>\<^sub>m env'"
  shows "integer_target ctx call env'"
proof -
  have keep: "env x = Some v \<Longrightarrow> env' x = Some v" for x v
    using assms(2) by (metis domI map_le_def)
  have resolves: "resolves ctx env symbol f \<Longrightarrow> resolves ctx env' symbol f" for symbol f
    using keep by (auto simp: resolves_def)
  show ?thesis
    using assms(1) keep resolves unfolding integer_target_def by meson
qed

text \<open>
  The operand pair hands Go's operands to the operation: after its statements, the two values it
  offers evaluate, left before right, to the values of the operands.
\<close>

lemma preserved_pair:
  assumes "operands_run call env left right t1 t2 w u v w2 env3"
    and "temporary n = (Inr t1, n1)" "temporary n1 = (Inr t2, n2)"
  shows "\<exists>pair n3 wb w1. PreservePair temporary left right n = (Inr pair, n3) \<and>
    exec call env (seq_before (pair_sequence pair)) w = (Inr (Normal env3), wb) \<and>
    eval call env3 (emission_Value (pair_left pair)) wb = (Inr u, w1) \<and>
    eval call env3 (emission_Value (pair_right pair)) w1 = (Inr v, w2) \<and>
    (if captures [Present left, Present right] then wb = w2 \<and> w1 = w2
     else wb = w \<and> emission_Value (pair_left pair) = emission_Value left \<and>
       emission_Value (pair_right pair) = emission_Value right)"
proof (cases "captures [Present left, Present right]")
  case True
  then show ?thesis
    using assms by (auto simp: PreservePair_def Preserve_def operands_run_def emission_runs_def exec_append Let_def)
next
  case False
  then show ?thesis
    using assms by (auto simp: PreservePair_def Preserve_def operands_run_def Let_def)
qed

lemma operationTypes_carrier:
  "operationTypes facts profile sizes source = Some (lt, rt, c) \<Longrightarrow> \<exists>t. Describe sizes t = Some c"
  by (auto simp: operationTypes_def Let_def split: if_splits option.splits)

lemma shiftCountCarrier_described:
  "shiftCountCarrier facts sizes t = Some c \<Longrightarrow> \<exists>u. Describe sizes u = Some c"
  by (auto simp: shiftCountCarrier_def DescribeUnderlying_def split: option.splits go_type.splits)


lemma binary_Emit_runs:
  assumes "operationTypes facts (ctx_IntegerRepresentation ctx) (ctx_TypesSizes ctx) source = Some (lt, rt, c)"
    and "children ''RoleBinaryLeft'' lt n = (Inr left, n1)" "children ''RoleBinaryRight'' rt n1 = (Inr counted, n2)"
    and "projectDefinedShiftCount facts names (ctx_TypesSizes ctx) source counted = Inr right"
    and "temporary n2 = (Inr t1, n3)" "temporary n3 = (Inr t2, n4)"
    and "operands_run call env left right t1 t2 w u v w2 env3"
    and "(if source_Op source = SHL \<or> source_Op source = SHR
          then shiftCountCarrier facts (ctx_TypesSizes ctx) rt else Some c) = Some rc"
    and operation: "\<And>l r wb w1.
      eval call env3 (emission_Value l) wb = (Inr u, w1) \<Longrightarrow> eval call env3 (emission_Value r) w1 = (Inr v, w2) \<Longrightarrow>
      (if captures [Present left, Present right] then wb = w2 \<and> w1 = w2
       else wb = w \<and> emission_Value l = emission_Value left \<and> emission_Value r = emission_Value right) \<Longrightarrow>
      \<exists>e. (if variable_count source then ApplyVariableShift ctx (source_Op source) c rc l r
           else Apply ctx (source_Op source) c rc l r) = Inr (Some e) \<and>
        emission_Before e = [] \<and> eval call env3 (emission_Value e) wb = (result, w2)"
  shows "\<exists>e n'. binary_Emit facts names temporary children ctx source n = (Inr (Some e), n') \<and>
    run_emission call env e w = (result, w2)"
proof -
  obtain pair n5 wb w1 where pair: "PreservePair temporary left right n2 = (Inr pair, n5)"
    "exec call env (seq_before (pair_sequence pair)) w = (Inr (Normal env3), wb)"
    "eval call env3 (emission_Value (pair_left pair)) wb = (Inr u, w1)"
    "eval call env3 (emission_Value (pair_right pair)) w1 = (Inr v, w2)"
    "if captures [Present left, Present right] then wb = w2 \<and> w1 = w2
     else wb = w \<and> emission_Value (pair_left pair) = emission_Value left \<and>
       emission_Value (pair_right pair) = emission_Value right"
    using preserved_pair [OF assms(7,5,6)] by blast
  obtain e where e: "(if variable_count source
      then ApplyVariableShift ctx (source_Op source) c rc (pair_left pair) (pair_right pair)
      else Apply ctx (source_Op source) c rc (pair_left pair) (pair_right pair)) = Inr (Some e)"
    "emission_Before e = []" "eval call env3 (emission_Value e) wb = (result, w2)"
    using operation [OF pair(3,4,5)] by blast
  have "binary_Emit facts names temporary children ctx source n = (map_sum id Some (Finish pair e), n5)"
    unfolding binary_Emit_def using assms(1-4,8) pair(1) e(1) by simp
  then show ?thesis using pair(2) e(2,3) by (simp add: Finish_def run_emission_def)
qed

subsection \<open>Properties\<close>

text \<open>C29: An integer operator compiles to Go's operation.  Where the profile keeps the operation exact, the
  handler emits an expression that runs the left operand and then the right one, each once, and whose
  value is Go's result: it wraps to the width and sign of the type, division and remainder truncate and
  panic on zero, comparisons compare, and constant shifts shift.\<close>

theorem binary_expressions_exact:
  fixes ctx :: "'q emit_context"
  assumes "integer_target ctx call env"
    and "operationTypes facts (ctx_IntegerRepresentation ctx) (ctx_TypesSizes ctx) source = Some (lt, rt, c)"
    and "children ''RoleBinaryLeft'' lt n = (Inr left, n1)" "children ''RoleBinaryRight'' rt n1 = (Inr counted, n2)"
    and "projectDefinedShiftCount facts names (ctx_TypesSizes ctx) source counted = Inr right"
    and "temporary n2 = (Inr t1, n3)" "temporary n3 = (Inr t2, n4)"
    and "operands_run call env left right t1 t2 w
      (carried (ctx_IntegerRepresentation ctx) c l) (carried (ctx_IntegerRepresentation ctx) rc r) w2 env3"
    and "(if source_Op source = SHL \<or> source_Op source = SHR
          then shiftCountCarrier facts (ctx_TypesSizes ctx) rt else Some c) = Some rc"
    and "\<not> variable_count source" "exact_operation (ctx_IntegerRepresentation ctx) c (source_Op source)"
    and "go_value c l" "go_value rc r"
    and "source_Op source \<in> {SHL, SHR} \<Longrightarrow> 0 \<le> r \<and> r < int (carrier_width c)"
  shows "\<exists>e n'. binary_Emit facts names temporary children ctx source n = (Inr (Some e), n') \<and>
    run_emission call env e w = (go_binary (ctx_IntegerRepresentation ctx) c (source_Op source) l r, w2)"
proof (rule binary_Emit_runs [OF assms(2-9)])
  have target: "integer_target ctx call env3"
    using target_extended [OF assms(1)] assms(8) by (simp add: operands_run_def)
  obtain t u where t: "Describe (ctx_TypesSizes ctx) t = Some c" "Describe (ctx_TypesSizes ctx) u = Some rc"
    using operationTypes_carrier [OF assms(2)] shiftCountCarrier_described assms(9)
    by (metis option.inject)
  have rc: "right_carrier (source_Op source) c rc = rc" using assms(9) by (auto simp: right_carrier_def)
  fix left' right' :: "'q ExpressionEmission" and wb w1
  assume "eval call env3 (emission_Value left') wb = (Inr (carried (ctx_IntegerRepresentation ctx) c l), w1)"
    "eval call env3 (emission_Value right') w1 = (Inr (carried (ctx_IntegerRepresentation ctx) rc r), w2)"
  from Apply_exact [OF target t assms(11) this(1), unfolded rc, OF this(2) assms(12,13,14)]
  show "\<exists>e. (if variable_count source then ApplyVariableShift ctx (source_Op source) c rc left' right'
       else Apply ctx (source_Op source) c rc left' right') = Inr (Some e) \<and>
      emission_Before e = [] \<and>
      eval call env3 (emission_Value e) wb =
        (go_binary (ctx_IntegerRepresentation ctx) c (source_Op source) l r, w2)"
    using assms(10) by simp
qed

text \<open>
  Two operands of type \<open>int8\<close>: \<open>100\<close> and a variable that a statement before the expression sets to
  \<open>100\<close>, so that both are stored.
\<close>

definition demo_facts :: type_facts where
  "demo_facts =
     \<lparr>tf_Underlying = id, tf_TypeParams = (\<lambda>_. 0), tf_Origin = id, tf_Supports = (\<lambda>_. False),
      tf_HasReceiver = (\<lambda>_. False), tf_AssignableTo = (=)\<rparr>"

definition demo_source :: "go_token \<Rightarrow> constant_value option \<Rightarrow> binary_source" where
  "demo_source operator right =
     \<lparr>source_Op = operator, source_LeftType = Some (BasicType kindInt8),
      source_RightType = Some (BasicType kindInt8), source_ResultType = Some (BasicType kindInt8),
      source_RightFacts = Some right\<rparr>"

definition demo_variable :: "unit ExpressionEmission" where
  "demo_variable =
     \<lparr>emission_Before = [VariableStatement NodeFlagsConst ''x'' None (NumericLiteral ''100'')],
      emission_Value = Identifier ''x'', emission_Requests = []\<rparr>"

definition demo_children :: "unit ExpressionEmission \<Rightarrow> unit ExpressionEmission \<Rightarrow> (unit, nat) child_emitter" where
  "demo_children left right role expected n = (Inr (if role = ''RoleBinaryLeft'' then left else right), n)"

definition demo_temporary :: "nat \<Rightarrow> (emit_error + string) \<times> nat" where
  "demo_temporary n = (Inr (if n = 0 then ''left'' else ''right''), Suc n)"

definition demo_names :: "unit representation_names" where
  "demo_names obj = Inl (NamingError '''')"

definition demo_host :: "string \<Rightarrow> js_value list \<Rightarrow> unit \<Rightarrow> (unit, js_value) js_result" where
  "demo_host name arguments w = (Inl JsTypeError, w)"

lemma demo_carried: "carried IntegerRepresentationBigInt demo_int8 k = int_value k"
  by (simp add: carried_def demo_int8_number)

lemma demo_types:
  "operationTypes demo_facts IntegerRepresentationBigInt (Some 8) (demo_source ADD right) =
     Some (Some (BasicType kindInt8), Some (BasicType kindInt8), demo_int8)"
  "operationTypes demo_facts IntegerRepresentationBigInt (Some 8) (demo_source SHL None) =
     Some (Some (BasicType kindInt8), Some (BasicType kindInt8), demo_int8)"
  using demo_int8_described
  by (simp_all add: operationTypes_def demo_source_def demo_facts_def isComparison_def SupportsArithmetic_def
      SupportsBitwise_def SupportsVariableShift_def Let_def)

lemma demo_unbound: "module_env ''x'' = None" "module_env ''left'' = None" "module_env ''right'' = None"
  by (simp_all add: module_env_def module_scope_def integer_module_eq conversion_module_eq)

lemma demo_operands_run:
  "operands_run (call_target (map_of module_scope) demo_host) module_env demo_variable demo_operand ''left'' ''right'' ()
     (int_value 100) (int_value 100) ()
     (module_env(''x'' \<mapsto> int_value 100, ''left'' \<mapsto> int_value 100, ''right'' \<mapsto> int_value 100))"
  unfolding operands_run_def
  by (auto simp: emission_runs_def demo_variable_def demo_operand_def captures_def demo_literal map_le_def demo_unbound
      intro!: exI [of _ "module_env(''x'' \<mapsto> int_value 100)"])

lemma binary_expressions_exact_witness:
  "\<exists>e n'. binary_Emit demo_facts demo_names demo_temporary (demo_children demo_variable demo_operand)
       (module_context IntegerRepresentationBigInt (Some 8) ''root'') (demo_source ADD None) 0 = (Inr (Some e), n') \<and>
     run_emission (call_target (map_of module_scope) demo_host) module_env e () = (Inr (int_value (- 56)), ())"
proof -
  have sum: "go_binary IntegerRepresentationBigInt demo_int8 ADD 100 100 = Inr (int_value (- 56))"
    by (simp add: go_binary_def isComparison_def demo_carried go_wrap_def demo_int8_fields)
  have exact: "exact_operation IntegerRepresentationBigInt demo_int8 ADD"
    by (simp add: exact_operation_def go_operator_def demo_int8_exact
        exact_exactly_carried [OF Describe_ok [OF demo_int8_described]])
  show ?thesis
    using binary_expressions_exact [OF canonical.integer_target_axioms [of "''root''" demo_host], where facts = demo_facts
        and source = "demo_source ADD None" and names = demo_names and temporary = demo_temporary
        and children = "demo_children demo_variable demo_operand" and n = 0 and w = "()" and l = 100 and r = 100
        and c = demo_int8 and rc = demo_int8, unfolded module_context_simps, OF demo_types(1)]
      demo_operands_run sum exact
    by (simp add: demo_children_def demo_temporary_def projectDefinedShiftCount_def demo_source_def demo_carried
        variable_count_def go_value_def demo_int8_fields)
qed

text \<open>C30: Where the profile carries the operand and the count exactly - in a \<open>bigint\<close>, or in a \<open>number\<close> for a type of at most 32 bits - a shift by a count that is not constant compiles to Go's shift for every count: a negative count panics with Go's message, a count of at least the width gives zero or the sign, and every other count shifts and wraps. This needs the operands in temporaries, or operands whose evaluation leaves the state alone: the expression repeats them. A 64-bit type that the profile carries in a \<open>number\<close> is not covered: its shift is the 32-bit shift of the target.\<close>

theorem shift_expressions_exact:
  fixes ctx :: "'q emit_context"
  assumes "integer_target ctx call env"
    and "operationTypes facts (ctx_IntegerRepresentation ctx) (ctx_TypesSizes ctx) source = Some (lt, rt, c)"
    and "children ''RoleBinaryLeft'' lt n = (Inr left, n1)" "children ''RoleBinaryRight'' rt n1 = (Inr counted, n2)"
    and "projectDefinedShiftCount facts names (ctx_TypesSizes ctx) source counted = Inr right"
    and "temporary n2 = (Inr t1, n3)" "temporary n3 = (Inr t2, n4)"
    and "operands_run call env left right t1 t2 w
      (carried (ctx_IntegerRepresentation ctx) c l) (carried (ctx_IntegerRepresentation ctx) rc r) w2 env3"
    and "shiftCountCarrier facts (ctx_TypesSizes ctx) rt = Some rc"
    and "variable_count source"
    and "exactly_carried (ctx_IntegerRepresentation ctx) c" "exactly_carried (ctx_IntegerRepresentation ctx) rc"
    and "go_value c l" "go_value rc r"
    and "captures [Present left, Present right] \<or>
      snd (eval call env (emission_Value left) w) = w \<and> snd (eval call env (emission_Value right) w) = w"
  shows "\<exists>e n'. binary_Emit facts names temporary children ctx source n = (Inr (Some e), n') \<and>
    run_emission call env e w = (go_shift (ctx_IntegerRepresentation ctx) c (source_Op source) l r, w2)"
proof -
  have op: "source_Op source \<in> {SHL, SHR}" using assms(10) by (simp add: variable_count_def)
  have rc: "(if source_Op source = SHL \<or> source_Op source = SHR
      then shiftCountCarrier facts (ctx_TypesSizes ctx) rt else Some c) = Some rc" using op assms(9) by auto
  have target: "integer_target ctx call env3"
    using target_extended [OF assms(1)] assms(8) by (simp add: operands_run_def)
  obtain t u where t: "Describe (ctx_TypesSizes ctx) t = Some c" "Describe (ctx_TypesSizes ctx) u = Some rc"
    using operationTypes_carrier [OF assms(2)] shiftCountCarrier_described [OF assms(9)] by blast
  show ?thesis
  proof (rule binary_Emit_runs [OF assms(2-8) rc])
    fix left' right' :: "'q ExpressionEmission" and wb w1
    assume e: "eval call env3 (emission_Value left') wb = (Inr (carried (ctx_IntegerRepresentation ctx) c l), w1)"
      "eval call env3 (emission_Value right') w1 = (Inr (carried (ctx_IntegerRepresentation ctx) rc r), w2)"
      and pair: "if captures [Present left, Present right] then wb = w2 \<and> w1 = w2
       else wb = w \<and> emission_Value left' = emission_Value left \<and> emission_Value right' = emission_Value right"
    have pure: "wb = w2 \<and> w1 = w2"
    proof (cases "captures [Present left, Present right]")
      case False
      then have "env3 = env" using assms(8) by (simp add: operands_run_def)
      then show ?thesis using False assms(15) e pair by auto
    qed (use pair in simp)
    from ApplyVariableShift_exact [OF target t assms(11,12) op _ _ assms(13,14), of left' w2 right'] e pure
    show "\<exists>e. (if variable_count source then ApplyVariableShift ctx (source_Op source) c rc left' right'
         else Apply ctx (source_Op source) c rc left' right') = Inr (Some e) \<and>
        emission_Before e = [] \<and>
        eval call env3 (emission_Value e) wb =
          (go_shift (ctx_IntegerRepresentation ctx) c (source_Op source) l r, w2)"
      using assms(10) by simp
  qed
qed

text \<open>\<open>100\<close> shifted left by \<open>100\<close> is 0 as an \<open>int8\<close>.\<close>

lemma shift_expressions_exact_witness:
  "\<exists>e n'. binary_Emit demo_facts demo_names demo_temporary (demo_children demo_operand demo_operand)
       (module_context IntegerRepresentationBigInt (Some 8) ''root'') (demo_source SHL None) 0 = (Inr (Some e), n') \<and>
     run_emission (call_target (map_of module_scope) demo_host) module_env e () = (Inr (int_value 0), ())"
proof -
  have zero: "go_shift IntegerRepresentationBigInt demo_int8 SHL 100 100 = Inr (int_value 0)"
    using wide_shl [OF Describe_ok [OF demo_int8_described], of 100 100]
    by (simp add: go_shift_def demo_carried demo_int8_fields)
  have run: "operands_run (call_target (map_of module_scope) demo_host) module_env demo_operand demo_operand
      ''left'' ''right'' () (int_value 100) (int_value 100) () module_env"
    by (simp add: operands_run_def captures_def demo_operand_def demo_literal)
  show ?thesis
    using shift_expressions_exact [OF canonical.integer_target_axioms [of "''root''" demo_host], where facts = demo_facts
        and source = "demo_source SHL None" and names = demo_names and temporary = demo_temporary
        and children = "demo_children demo_operand demo_operand" and n = 0 and w = "()" and l = 100 and r = 100
        and c = demo_int8 and rc = demo_int8, unfolded module_context_simps, OF demo_types(2)]
      run zero demo_int8_described exact_exactly_carried [OF Describe_ok [OF demo_int8_described] demo_int8_exact]
    by (simp add: demo_children_def demo_temporary_def projectDefinedShiftCount_def demo_source_def demo_carried
        variable_count_def go_value_def demo_int8_fields shiftCountCarrier_def DescribeUnderlying_def
        ResolveBasic_def resolve_family_def Resolve_def)
qed

end
