(* ===== verification/IntegerUnary.thy ===== *)
theory IntegerUnary
  imports IntegerShift
begin

text \<open>
  Unary operators (\<open>internal/emit/expression/unary/operation/operation.go\<close>) and integer constants
  (\<open>internal/emit/value/integer/literal.go\<close>).
\<close>

subsection \<open>Definitions\<close>

definition normalizeComplement :: "'q emit_context \<Rightarrow> Carrier \<Rightarrow> ts_expression \<Rightarrow> 'q emitted" where
  "normalizeComplement ctx carrier target =
     (if RequiresExactResult (ctx_IntegerRepresentation ctx) carrier then
        NormalizeFixedWidth ctx carrier target
      else if RequiresUint32Normalization (ctx_IntegerRepresentation ctx) carrier then
        (case CarrierLiteral ctx carrier ''0'' of
           Inl e \<Rightarrow> Inl e
         | Inr zero \<Rightarrow>
             Inr (DirectExpression
               (BinaryExpression target GreaterThanGreaterThanGreaterThanToken zero) []))
      else if \<not> UsesBigInt (ctx_IntegerRepresentation ctx) carrier \<and> 32 < carrier_width carrier then
        Inr (DirectExpression target [])
      else if \<not> carrier_signed carrier then
        (case UnsignedMask carrier of
           None \<Rightarrow> Inl (InvariantError (ctx_Role ctx) ''unsigned complement has no width mask'')
         | Some mask' \<Rightarrow>
             (case CarrierLiteral ctx carrier mask' of
                Inl e \<Rightarrow> Inl e
              | Inr maskLiteral \<Rightarrow>
                  Inr (DirectExpression (BinaryExpression target AmpersandToken maskLiteral) [])))
      else Inr (DirectExpression target []))"

definition integerOperation ::
    "'q emit_context \<Rightarrow> go_token \<Rightarrow> Carrier \<Rightarrow> 'q ExpressionEmission \<Rightarrow> 'q handled" where
  "integerOperation ctx operator carrier operand =
     (if \<not> SupportsUnary (ctx_IntegerRepresentation ctx) carrier operator then Inr None
      else
        (let target = emission_Value operand;
             requests = emission_Requests operand;
             result =
               (case operator of
                  ADD \<Rightarrow>
                    Some (Inr
                      (if \<not> UsesBigInt (ctx_IntegerRepresentation ctx) carrier
                       then PrefixUnaryExpression PlusPrefix target else target, requests))
                | SUB \<Rightarrow>
                    (let target = PrefixUnaryExpression MinusPrefix target in
                     if RequiresExactResult (ctx_IntegerRepresentation ctx) carrier then
                       Some (map_sum id
                         (\<lambda>normalized. (emission_Value normalized,
                            CombineRequests [requests, emission_Requests normalized]))
                         (NormalizeFixedWidth ctx carrier target))
                     else Some (Inr (target, requests)))
                | XOR_token \<Rightarrow>
                    Some (map_sum id
                      (\<lambda>normalized. (emission_Value normalized,
                         CombineRequests [requests, emission_Requests normalized]))
                      (normalizeComplement ctx carrier (PrefixUnaryExpression TildePrefix target)))
                | _ \<Rightarrow> None) in
         case result of
           None \<Rightarrow> Inr None
         | Some (Inl e) \<Rightarrow> Inl e
         | Some (Inr (target, requests)) \<Rightarrow>
             map_sum id Some (NewExpressionEmission (emission_Before operand) (Some target) requests)))"

definition floatOperation :: "go_token \<Rightarrow> 'q ExpressionEmission \<Rightarrow> 'q handled" where
  "floatOperation operator operand =
     (if operator = ADD then
        map_sum id Some (NewExpressionEmission (emission_Before operand)
          (Some (emission_Value operand)) (emission_Requests operand))
      else if operator \<noteq> SUB then Inr None
      else
        map_sum id Some (NewExpressionEmission (emission_Before operand)
          (Some (PrefixUnaryExpression MinusPrefix (emission_Value operand))) (emission_Requests operand)))"

text \<open>A complex carrier is its number of bits.\<close>

definition complex_Describe :: "go_type \<Rightarrow> nat option" where
  "complex_Describe sourceType =
     (case Unalias sourceType of
        BasicType kind \<Rightarrow> if kind = 15 then Some 64 else if kind = 16 then Some 128 else None
      | _ \<Rightarrow> None)"

definition NegateSymbol :: "nat \<Rightarrow> RuntimeSymbol option" where
  "NegateSymbol bits =
     (if bits = 64 then Some RuntimeComplex64Neg
      else if bits = 128 then Some RuntimeComplex128Neg
      else None)"

definition complex_Call ::
    "'q emit_context \<Rightarrow> RuntimeSymbol \<Rightarrow> ts_expression list \<Rightarrow> 'q list \<Rightarrow> 'q emitted" where
  "complex_Call ctx symbol arguments requests =
     (case RuntimeContract symbol of
        Inl e \<Rightarrow> Inl e
      | Inr contract \<Rightarrow>
          if contract_module contract \<noteq> RuntimeModuleComplex \<or>
             symbol \<in> {RuntimeComplex64, RuntimeComplex128, RuntimeComplexDivide}
          then Inl (InvariantError (ctx_Role ctx) ''complex call symbol is not a public value operation'')
          else
            (case ctx_Runtime ctx symbol ImportPhaseValue of
               Inl e \<Rightarrow> Inl e
             | Inr reference \<Rightarrow>
                 Inr (DirectExpression (CallExpression (NameReference_Expression reference) arguments)
                   (CombineRequests [requests, ref_requests reference]))))"

definition complexOperation ::
    "'q emit_context \<Rightarrow> go_token \<Rightarrow> nat \<Rightarrow> 'q ExpressionEmission \<Rightarrow> 'q handled" where
  "complexOperation ctx operator carrier operand =
     (if operator = ADD then
        map_sum id Some (NewExpressionEmission (emission_Before operand)
          (Some (emission_Value operand)) (emission_Requests operand))
      else if operator \<noteq> SUB then Inr None
      else
        (case NegateSymbol carrier of
           None \<Rightarrow> Inl (InvariantError (ctx_Role ctx) ''complex negation has no runtime symbol'')
         | Some symbol \<Rightarrow>
             (case complex_Call ctx symbol [emission_Value operand] (emission_Requests operand) of
                Inl e \<Rightarrow> Inl e
              | Inr target \<Rightarrow>
                  map_sum id Some (NewExpressionEmission (emission_Before operand)
                    (Some (emission_Value target)) (emission_Requests target)))))"

definition float_Describe :: "go_type \<Rightarrow> nat option" where
  "float_Describe sourceType =
     (case Unalias sourceType of
        BasicType kind \<Rightarrow> if kind = kindFloat32 then Some 32 else if kind = kindFloat64 then Some 64 else None
      | _ \<Rightarrow> None)"

text \<open>The kinds with \<open>types.IsBoolean\<close> are \<open>bool\<close> and the untyped boolean.\<close>

definition unary_Apply ::
    "'q emit_context \<Rightarrow> go_token \<Rightarrow> go_type \<Rightarrow> 'q ExpressionEmission \<Rightarrow> 'q handled" where
  "unary_Apply ctx operator sourceType operand =
     (case complex_Describe sourceType of
        Some carrier \<Rightarrow> complexOperation ctx operator carrier operand
      | None \<Rightarrow>
          (case Describe (ctx_TypesSizes ctx) (Some sourceType) of
             Some carrier \<Rightarrow> integerOperation ctx operator carrier operand
           | None \<Rightarrow>
               if float_Describe sourceType \<noteq> None then floatOperation operator operand
               else
                 (case Unalias sourceType of
                    BasicType kind \<Rightarrow>
                      if kind \<notin> {kindBool, 19} \<or> operator \<noteq> NOT_token then Inr None
                      else
                        map_sum id Some (NewExpressionEmission (emission_Before operand)
                          (Some (PrefixUnaryExpression ExclamationPrefix (emission_Value operand)))
                          (emission_Requests operand))
                  | _ \<Rightarrow> Inr None)))"

subsection \<open>Go's unary operators\<close>

fun go_unary :: "go_token \<Rightarrow> int \<Rightarrow> int" where
  "go_unary SUB k = - k"
| "go_unary XOR_token k = NOT k"
| "go_unary _ k = k"

lemma Describe_not_complex:
  "Describe sizes (Some t) = Some c \<Longrightarrow> complex_Describe t = None"
  by (auto simp: Describe_def complex_Describe_def nativeCarrier_def split: option.split_asm go_type.splits if_split_asm)

context integer_target
begin

lemma normalize_integer:
  assumes ok: "carrier_ok c" and exact: "exactly_carried (ctx_IntegerRepresentation ctx) c"
    and v: "eval call env e w = (Inr v, w')" "holds_integer (ctx_IntegerRepresentation ctx) c v k"
  shows "\<exists>n. NormalizeFixedWidth ctx c e = Inr n \<and>
    eval call env (emission_Value n) w = (Inr (carried (ctx_IntegerRepresentation ctx) c (go_wrap c k)), w')"
  by (rule normalize_fixed [OF assms]) blast

lemma holds_negated:
  "\<exists>v. prefix_result MinusPrefix (carried (ctx_IntegerRepresentation ctx) c l) = Inr v \<and>
    holds_integer (ctx_IntegerRepresentation ctx) c v (- l)"
  using trunc_of_int [of "- l"] by (auto simp: carried_def holds_integer_def)

lemma holds_complement:
  assumes "exactly_carried (ctx_IntegerRepresentation ctx) c"
  shows "\<exists>v k. prefix_result TildePrefix (carried (ctx_IntegerRepresentation ctx) c l) = Inr v \<and>
    holds_integer (ctx_IntegerRepresentation ctx) c v k \<and> go_wrap c k = go_wrap c (NOT l)"
  using assms
  by (cases "CarrierRepresentation (ctx_IntegerRepresentation ctx) c = Some IntegerCarrierBigInt")
    (auto simp: carried_def holds_integer_def js_not_def signed_take_bit_bitwise exactly_carried_def)

lemma mask_literal:
  assumes described: "Describe (ctx_TypesSizes ctx) t = Some c"
    and number: "CarrierRepresentation (ctx_IntegerRepresentation ctx) c = Some IntegerCarrierNumber"
    and width: "carrier_width c \<in> {8, 16}" "\<not> carrier_signed c"
  shows "\<exists>m e. UnsignedMask c = Some m \<and> CarrierLiteral ctx c m = Inr e \<and>
    (\<forall>w. eval call env e w = (Inr (int_value (2 ^ carrier_width c - 1)), w))"
proof -
  have m: "UnsignedMask c = Some (itoa (2 ^ carrier_width c - 1))"
    using width by (auto simp: UnsignedMask_def FormatUint_def)
  have "2 ^ carrier_width c - 1 \<le> (2 :: nat) ^ 53" using width(1) by auto
  then obtain e where e: "CarrierLiteral ctx c (itoa (2 ^ carrier_width c - 1)) = Inr e"
    "\<forall>w. eval call env e w = (Inr (carried (ctx_IntegerRepresentation ctx) c (int (2 ^ carrier_width c - 1))), w)"
    using literal_eval [OF described] by blast
  have "int (2 ^ carrier_width c - 1) = 2 ^ carrier_width c - 1" by (simp add: of_nat_diff)
  then show ?thesis using m e number by (auto simp: carried_def)
qed

lemma complement_exact:
  assumes described: "Describe (ctx_TypesSizes ctx) t = Some c"
    and exact: "exactly_carried (ctx_IntegerRepresentation ctx) c"
    and e: "eval call env e w = (Inr (carried (ctx_IntegerRepresentation ctx) c l), w')" and l: "go_value c l"
  shows "\<exists>n. normalizeComplement ctx c (PrefixUnaryExpression TildePrefix e) = Inr n \<and>
    eval call env (emission_Value n) w = (Inr (carried (ctx_IntegerRepresentation ctx) c (go_wrap c (NOT l))), w')"
proof (cases "RequiresExactResult (ctx_IntegerRepresentation ctx) c")
  case True
  obtain v k where v: "prefix_result TildePrefix (carried (ctx_IntegerRepresentation ctx) c l) = Inr v"
    "holds_integer (ctx_IntegerRepresentation ctx) c v k" "go_wrap c k = go_wrap c (NOT l)"
    using holds_complement [OF exact] by blast
  then have "eval call env (PrefixUnaryExpression TildePrefix e) w = (Inr v, w')" using e by simp
  from normalize_integer [OF Describe_ok [OF described] exact this v(2)] show ?thesis
    using True v(3) by (simp add: normalizeComplement_def)
next
  case False
  have number: "CarrierRepresentation (ctx_IntegerRepresentation ctx) c = Some IntegerCarrierNumber"
    and width: "carrier_width c \<in> {8, 16, 32}"
    using exactly_carried_cases [OF Describe_ok [OF described] exact] False
      exact_iff [OF Describe_ok [OF described] profile_valid] by blast+
  have c32: "carrier_width c \<le> 32" using width by auto
  have E: "eval call env (PrefixUnaryExpression TildePrefix e) w = (Inr (int_value (signed_take_bit 31 (NOT l))), w')"
    using e number by (simp add: carried_def js_not_def signed_take_bit_bitwise)
  have C: "carried (ctx_IntegerRepresentation ctx) c k = int_value k" for k by (simp add: carried_def number)
  have U: "\<not> UsesBigInt (ctx_IntegerRepresentation ctx) c" by (simp add: UsesBigInt_def number)
  have W: "go_wrap c (signed_take_bit 31 (NOT l)) = go_wrap c (NOT l)" by (rule wrap_signed32 [OF c32])
  consider (u32) "\<not> carrier_signed c" "carrier_width c = 32" | (u) "\<not> carrier_signed c" "carrier_width c \<in> {8, 16}"
    | (s) "carrier_signed c" using width by blast
  then show ?thesis
  proof cases
    case u32
    obtain z where z: "CarrierLiteral ctx c ''0'' = Inr z" "\<And>w. eval call env z w = (Inr (int_value 0), w)"
      using zero_literal [OF described number] by blast
    have "take_bit 32 (signed_take_bit 31 (NOT l)) = go_wrap c (NOT l)"
      using W u32 by (simp add: go_wrap_def)
    then show ?thesis
      using False u32 E z number_questions(1) [OF number] by (simp add: normalizeComplement_def js_ushr_zero C)
  next
    case u
    obtain m f where m: "UnsignedMask c = Some m" "CarrierLiteral ctx c m = Inr f"
      "\<And>w. eval call env f w = (Inr (int_value (2 ^ carrier_width c - 1)), w)"
      using mask_literal [OF described number u(2,1)] by blast
    have "js_and (int_number (signed_take_bit 31 (NOT l))) (int_number (2 ^ carrier_width c - 1)) =
        int_number (go_wrap c (NOT l))"
      using signed_take_bit_mask [of "carrier_width c" "NOT l"] to_int32_int [of "2 ^ carrier_width c - 1"] u
      by (auto simp: js_and_def go_wrap_def)
    then show ?thesis
      using False u E m number_questions(1) [OF number] c32 U by (auto simp: normalizeComplement_def C)
  next
    case s
    have "go_value c (NOT l)" using l s by (auto simp: go_value_def not_int_def)
    then have "signed_take_bit 31 (NOT l) = NOT l" "go_wrap c (NOT l) = NOT l"
      using signed_range [OF width, of "NOT l"] s go_wrap_id [of c "NOT l"] Describe_ok [OF described] by auto
    then show ?thesis
      using False s E number_questions(1) [OF number] c32 U by (simp add: normalizeComplement_def C)
  qed
qed

end

subsection \<open>Properties\<close>

text \<open>C31: The unary operators on integers compute Go's: \<open>+x\<close> is \<open>x\<close>, \<open>^x\<close> is the complement in the
  width and sign of the type wherever the carrier holds the type exactly, and \<open>-x\<close> wraps wherever the
  profile asks for exact results; in particular the negation of 0 is not the negative zero.\<close>

theorem unary_operators_exact:
  assumes "integer_target ctx call env"
    and "Describe (ctx_TypesSizes ctx) (Some t) = Some c"
    and "exactly_carried (ctx_IntegerRepresentation ctx) c"
    and "operator \<in> {ADD, XOR_token} \<or> operator = SUB \<and> RequiresExactResult (ctx_IntegerRepresentation ctx) c"
    and "eval call env (emission_Value operand) w = (Inr (carried (ctx_IntegerRepresentation ctx) c l), w')"
    and "go_value c l"
  shows "\<exists>e. unary_Apply ctx operator t operand = Inr (Some e) \<and>
    emission_Before e = emission_Before operand \<and>
    eval call env (emission_Value e) w =
      (Inr (carried (ctx_IntegerRepresentation ctx) c (go_wrap c (go_unary operator l))), w')"
proof -
  note ok = Describe_ok [OF assms(2)]
  have A: "unary_Apply ctx operator t operand = integerOperation ctx operator c operand"
    by (simp add: unary_Apply_def Describe_not_complex [OF assms(2)] assms(2))
  have S: "SupportsUnary (ctx_IntegerRepresentation ctx) c operator"
    using assms(3,4) by (auto simp: SupportsUnary_def exactly_carried_def)
  consider (add) "operator = ADD" | (sub) "operator = SUB" "RequiresExactResult (ctx_IntegerRepresentation ctx) c"
    | (xor) "operator = XOR_token" using assms(4) by blast
  then show ?thesis
  proof cases
    case add
    have "go_wrap c l = l" using go_wrap_id ok assms(6) carrier_ok_positive by blast
    then show ?thesis
      unfolding A using add S assms(5) by (auto simp: integerOperation_def UsesBigInt_def carried_def)
  next
    case sub
    obtain v where v: "prefix_result MinusPrefix (carried (ctx_IntegerRepresentation ctx) c l) = Inr v"
      "holds_integer (ctx_IntegerRepresentation ctx) c v (- l)"
      using integer_target.holds_negated [OF assms(1)] by blast
    have "eval call env (PrefixUnaryExpression MinusPrefix (emission_Value operand)) w = (Inr v, w')"
      using assms(5) v(1) by simp
    from integer_target.normalize_integer [OF assms(1) ok assms(3) this v(2)] show ?thesis
      unfolding A using sub S by (auto simp: integerOperation_def Let_def)
  next
    case xor
    from integer_target.complement_exact [OF assms(1,2,3,5,6)] show ?thesis
      unfolding A using xor S by (auto simp: integerOperation_def Let_def)
  qed
qed

text \<open>The negation of \<open>100\<close> as an \<open>int8\<close>.\<close>

lemma unary_operators_exact_witness:
  "\<exists>e. unary_Apply (module_context IntegerRepresentationBigInt (Some 8) ''root'') SUB (BasicType kindInt8) demo_operand =
       Inr (Some e) \<and>
     emission_Before e = [] \<and>
     eval (call_target (map_of module_scope) (\<lambda>name arguments w. (Inl JsTypeError, w))) module_env
       (emission_Value e) () = (Inr (int_value (- 100)), ())"
proof -
  have c: "carried IntegerRepresentationBigInt demo_int8 k = int_value k" for k
    by (simp add: carried_def demo_int8_number)
  show ?thesis
    using unary_operators_exact [OF canonical.integer_target_axioms, where c = demo_int8
        and operator = SUB and operand = demo_operand and l = 100 and w = "()"]
      demo_int8_described demo_int8_exact exact_exactly_carried [OF Describe_ok [OF demo_int8_described] demo_int8_exact]
    by (simp add: demo_operand_def demo_literal c go_value_def go_wrap_def demo_int8_fields)
qed

end
