(* ===== verification/IntegerConversion.thy ===== *)
theory IntegerConversion
  imports IntegerUnary
begin

text \<open>
  Conversions between numeric types (\<open>internal/emit/value/integer/conversion/operation.go\<close>) and the
  values of emitted integer constants.
\<close>

subsection \<open>Definitions\<close>

definition propertyCall :: "string \<Rightarrow> string \<Rightarrow> ts_expression list \<Rightarrow> ts_expression" where
  "propertyCall receiver member' arguments =
     CallExpression (PropertyAccessExpression (Identifier receiver) member') arguments"

definition globalCall :: "string \<Rightarrow> ts_expression \<Rightarrow> ts_expression" where
  "globalCall name argument = CallExpression (Identifier name) [argument]"

definition mathCall :: "string \<Rightarrow> ts_expression \<Rightarrow> ts_expression" where
  "mathCall member' value' = propertyCall ''Math'' member' [value']"

definition integerWidth :: "Carrier \<Rightarrow> emit_error + string" where
  "integerWidth target =
     (if carrier_width target = 8 then Inr ''8''
      else if carrier_width target = 16 then Inr ''16''
      else if carrier_width target = 32 then Inr ''32''
      else if carrier_width target = 64 then Inr ''64''
      else Inl (EmitterPanic ''integer conversion target width is invalid''))"

definition conversion_normalizeBigInt :: "Carrier \<Rightarrow> ts_expression \<Rightarrow> emit_error + ts_expression" where
  "conversion_normalizeBigInt target value' =
     map_sum id
       (\<lambda>width. propertyCall ''BigInt'' (if carrier_signed target then ''asIntN'' else ''asUintN'')
          [NumericLiteral width, value'])
       (integerWidth target)"

definition numberToBigInt ::
    "'q emit_context \<Rightarrow> ts_expression \<Rightarrow> 'q list \<Rightarrow> emit_error + ts_expression \<times> 'q list" where
  "numberToBigInt ctx value' requests =
     (case ctx_Runtime ctx RuntimeNumberToBigInt ImportPhaseValue of
        Inl e \<Rightarrow> Inl e
      | Inr reference \<Rightarrow>
          Inr (globalCall (ref_name reference) value',
               CombineRequests [requests, ref_requests reference]))"

definition number_call :: "ts_expression \<Rightarrow> ts_expression" where
  "number_call value' = CallExpression (TargetIntrinsic_Expression TargetIntrinsicNumber) [value']"

definition normalizeNumber64 ::
    "'q emit_context \<Rightarrow> Carrier \<Rightarrow> ts_expression \<Rightarrow> 'q list \<Rightarrow> emit_error + ts_expression \<times> 'q list" where
  "normalizeNumber64 ctx target value' requests =
     (case numberToBigInt ctx value' requests of
        Inl e \<Rightarrow> Inl e
      | Inr (asBigInt, requests) \<Rightarrow>
          map_sum id (\<lambda>normalized. (number_call normalized, requests))
            (conversion_normalizeBigInt target asBigInt))"

text \<open>The value and the requests of a conversion that is not direct.\<close>

definition convert_value ::
    "'q emit_context \<Rightarrow> ScalarABI \<Rightarrow> bool \<Rightarrow> bool \<Rightarrow> IntegerCarrier \<Rightarrow> IntegerCarrier \<Rightarrow> Carrier \<Rightarrow>
       ts_expression \<Rightarrow> 'q list \<Rightarrow> emit_error + ts_expression \<times> 'q list" where
  "convert_value ctx targetABI integerSource floatSource sourceRepresentation targetRepresentation
       targetCarrier value' requests =
     (case targetRepresentation of
        IntegerCarrierNumber \<Rightarrow>
          if integerSource \<and> sourceRepresentation = IntegerCarrierBigInt then
            map_sum id (\<lambda>normalized. (number_call normalized, requests))
              (conversion_normalizeBigInt targetCarrier value')
          else if carrier_width targetCarrier \<le> 32 then
            Inr (NormalizeNumber targetCarrier
                   (if floatSource then mathCall ''trunc'' value' else value'), requests)
          else normalizeNumber64 ctx targetCarrier value' requests
      | IntegerCarrierBigInt \<Rightarrow>
          (case (if floatSource \<or> sourceRepresentation = IntegerCarrierNumber
                 then numberToBigInt ctx value' requests else Inr (value', requests)) of
             Inl e \<Rightarrow> Inl e
           | Inr (value'', requests) \<Rightarrow>
               map_sum id (\<lambda>normalized. (normalized, requests))
                 (conversion_normalizeBigInt targetCarrier value''))
      | _ \<Rightarrow> Inl (IntegerRepresentationError (abi_integer targetABI)))"

definition Convert ::
    "'q emit_context \<Rightarrow> ScalarABI \<Rightarrow> ScalarABI \<Rightarrow> go_type \<Rightarrow> go_type \<Rightarrow> 'q ExpressionEmission \<Rightarrow> 'q emitted" where
  "Convert ctx sourceABI targetABI sourceType targetType operand =
     (case Describe (ctx_TypesSizes ctx) (Some targetType) of
        None \<Rightarrow> Inl (UnsupportedError ''expression'')
      | Some targetCarrier \<Rightarrow>
          (let sourceInteger = Describe (ctx_TypesSizes ctx) (Some sourceType);
               floatSource = (float_Describe sourceType \<noteq> None) in
           if sourceInteger = None \<and> \<not> floatSource then Inl (UnsupportedError ''expression'')
           else
             (case ScalarABI_Carrier targetABI (carrier_alias targetCarrier) of
                Inl e \<Rightarrow> Inl e
              | Inr targetRepresentation \<Rightarrow>
                  (case (case sourceInteger of
                           Some carrier \<Rightarrow> ScalarABI_Carrier sourceABI (carrier_alias carrier)
                         | None \<Rightarrow> Inr IntegerCarrierInvalid) of
                     Inl e \<Rightarrow> Inl e
                   | Inr sourceRepresentation \<Rightarrow>
                       if (case sourceInteger of
                             Some carrier \<Rightarrow>
                               sourceRepresentation = targetRepresentation \<and>
                               CanConvertDirectly carrier targetCarrier
                           | None \<Rightarrow> False)
                       then Inr operand
                       else
                         (case convert_value ctx targetABI (sourceInteger \<noteq> None) floatSource
                             sourceRepresentation targetRepresentation targetCarrier
                             (emission_Value operand) (emission_Requests operand) of
                            Inl e \<Rightarrow> Inl e
                          | Inr (value', requests) \<Rightarrow>
                              NewExpressionEmission (emission_Before operand) (Some value') requests)))))"

definition ConvertRepresentation ::
    "'q emit_context \<Rightarrow> Carrier \<Rightarrow> IntegerCarrier \<Rightarrow> IntegerCarrier \<Rightarrow> 'q ExpressionEmission \<Rightarrow> 'q emitted" where
  "ConvertRepresentation ctx carrier source target operand =
     (if \<not> IntegerCarrier_Valid source \<or> \<not> IntegerCarrier_Valid target then
        Inl (InvariantError (ctx_Role ctx) ''integer carrier boundary is invalid'')
      else if source = target then Inr operand
      else
        (case (if source = IntegerCarrierNumber \<and> target = IntegerCarrierBigInt then
                 (case numberToBigInt ctx (emission_Value operand) (emission_Requests operand) of
                    Inl e \<Rightarrow> Inl e
                  | Inr (value', requests) \<Rightarrow>
                      map_sum id (\<lambda>normalized. (normalized, requests))
                        (conversion_normalizeBigInt carrier value'))
               else if source = IntegerCarrierBigInt \<and> target = IntegerCarrierNumber then
                 map_sum id (\<lambda>normalized. (number_call normalized, emission_Requests operand))
                   (conversion_normalizeBigInt carrier (emission_Value operand))
               else Inl (InvariantError (ctx_Role ctx) ''integer carrier boundary is unsupported'')) of
           Inl e \<Rightarrow> Inl e
         | Inr (value', requests) \<Rightarrow>
             NewExpressionEmission (emission_Before operand) (Some value') requests))"

subsection \<open>Direct conversions\<close>

text \<open>A conversion is direct exactly when every value of the source is a value of the target.\<close>

lemma can_convert_directly_exact:
  assumes "carrier_ok a" "carrier_ok b"
  shows "CanConvertDirectly a b \<longleftrightarrow> (\<forall>k. go_value a k \<longrightarrow> go_value b k)"
proof
  assume d: "CanConvertDirectly a b"
  show "\<forall>k. go_value a k \<longrightarrow> go_value b k"
  proof (intro allI impI)
    fix k
    assume k: "go_value a k"
    show "go_value b k"
    proof (cases "carrier_signed a")
      case True
      then have s: "carrier_signed b" "carrier_width a \<le> carrier_width b"
        using d by (auto simp: CanConvertDirectly_def split: if_splits)
      have p: "(2 :: int) ^ (carrier_width a - 1) \<le> 2 ^ (carrier_width b - 1)"
        using s(2) by (intro power_increasing) auto
      have "- (2 ^ (carrier_width a - 1)) \<le> k" "k < 2 ^ (carrier_width a - 1)"
        using k True by (auto simp: go_value_def)
      then have "- (2 ^ (carrier_width b - 1)) \<le> k" "k < 2 ^ (carrier_width b - 1)"
        using p by linarith+
      then show ?thesis using s(1) by (simp add: go_value_def)
    next
      case False
      then have w: "carrier_width a \<le> (if carrier_signed b then carrier_width b - 1 else carrier_width b)"
        using d by (auto simp: CanConvertDirectly_def split: if_splits)
      define n where "n = (if carrier_signed b then carrier_width b - 1 else carrier_width b)"
      have p: "(2 :: int) ^ carrier_width a \<le> 2 ^ n"
        using w unfolding n_def by (intro power_increasing) auto
      have k': "0 \<le> k" "k < 2 ^ carrier_width a" using k False by (auto simp: go_value_def)
      have "k < 2 ^ n" using p k'(2) by linarith
      moreover have "- (2 ^ n) \<le> k" using k'(1) zero_le_power [of "2 :: int" n] by linarith
      ultimately show ?thesis using k'(1) by (auto simp: go_value_def n_def split: if_splits)
    qed
  qed
next
  assume all: "\<forall>k. go_value a k \<longrightarrow> go_value b k"
  have top: "go_value b (if carrier_signed a then 2 ^ (carrier_width a - 1) - 1 else 2 ^ carrier_width a - 1)"
  proof (rule all [rule_format])
    show "go_value a (if carrier_signed a then 2 ^ (carrier_width a - 1) - 1 else 2 ^ carrier_width a - 1)"
    proof (cases "carrier_signed a")
      case True
      have "(1 :: int) \<le> 2 ^ (carrier_width a - 1)" by simp
      then have "- (2 ^ (carrier_width a - 1)) \<le> (2 :: int) ^ (carrier_width a - 1) - 1"
        "(2 :: int) ^ (carrier_width a - 1) - 1 < 2 ^ (carrier_width a - 1)" by linarith+
      then show ?thesis unfolding go_value_def using True by presburger
    qed (simp add: go_value_def)
  qed
  have low: "carrier_signed b" if "carrier_signed a"
  proof -
    have "(- 1 :: int) < 0" "(0 :: int) < 2 ^ (carrier_width a - 1)" by simp_all
    then have "(- 1 :: int) < 2 ^ (carrier_width a - 1)" by (rule order_less_trans)
    then have "go_value a (- 1)" using that by (simp add: go_value_def)
    then have "go_value b (- 1)" using all by blast
    then show ?thesis by (simp add: go_value_def split: if_splits)
  qed
  show "CanConvertDirectly a b"
    using top low carrier_ok_width [OF assms(1)] carrier_ok_width [OF assms(2)]
    by (auto simp: CanConvertDirectly_def go_value_def split: if_splits)
qed

subsection \<open>Values of conversions\<close>

text \<open>
  A value of the source type that stands for the integer \<open>k\<close>: an integer of an exact carrier, or a
  floating-point number with the integer part \<open>k\<close>.
\<close>

definition converts_from ::
    "IntegerRepresentation \<Rightarrow> nat option \<Rightarrow> go_type \<Rightarrow> js_value \<Rightarrow> int \<Rightarrow> bool" where
  "converts_from r sizes t v k \<longleftrightarrow>
     (case Describe sizes (Some t) of
        Some c \<Rightarrow> exactly_carried r c \<and> go_value c k \<and> v = carried r c k
      | None \<Rightarrow> float_Describe t \<noteq> None \<and> (\<exists>a. v = JNumber a \<and> integer_part a = k))"

lemma integer_part_js_trunc [simp]: "integer_part (js_trunc a) = integer_part a"
  by (cases a) (auto simp: signed_zero_def)

lemma integer_not_float: "Describe sizes (Some t) = Some c \<Longrightarrow> float_Describe t = None"
  by (auto simp: float_Describe_def Describe_def split: go_type.splits if_splits option.splits)

lemma numeric_width_literals [simp]:
  "numeric_literal ''8'' = Inr (int_value 8)" "numeric_literal ''16'' = Inr (int_value 16)"
  "numeric_literal ''32'' = Inr (int_value 32)"
  using to_double_of_int [of 8] to_double_of_int [of 16] to_double_of_int [of 32]
  by (simp_all add: numeric_literal_def is_digit_def atoi_def digit_value_def)

text \<open>Rounding is symmetric, so a rounded literal and a minus sign give the rounded negative number.\<close>

lemma round_even_minus: "round_even (- x) = - round_even x"
proof (cases "x = of_int (floor x)")
  case True
  then obtain k where "x = of_int k" by blast
  then show ?thesis using round_even_of_int [of "- k"] by simp
next
  case False
  let ?f = "floor x"
  have "floor (- x) = - ?f - 1"
  proof (rule floor_unique)
    show "of_int (- ?f - 1) \<le> - x" using floor_correct [of x] by simp
    show "- x < of_int (- ?f - 1) + 1" using of_int_floor_le [of x] False by (simp add: order.strict_iff_order)
  qed
  then show ?thesis by (auto simp: round_even_def Let_def)
qed

lemma to_double_minus: "x \<noteq> 0 \<Longrightarrow> to_double (- x) = js_neg (to_double x)"
  by (auto simp: to_double_def Let_def unit_last_place_def round_even_minus)

text \<open>The value of a constant in a carrier: a \<open>number\<close> is rounded where it does not hold the constant.\<close>

definition rounded_carried :: "IntegerRepresentation \<Rightarrow> Carrier \<Rightarrow> int \<Rightarrow> js_value" where
  "rounded_carried r c k =
     (if CarrierRepresentation r c = Some IntegerCarrierBigInt then JBigInt k else JNumber (to_double (of_int k)))"

lemma rounded_carried_small: "\<bar>k\<bar> \<le> 2 ^ 53 \<Longrightarrow> rounded_carried r c k = carried r c k"
  using to_double_of_int [of k] by (simp add: rounded_carried_def carried_def)

lemma rounded_carried_exact:
  assumes "carrier_ok c" "exactly_carried r c" "go_value c k"
  shows "rounded_carried r c k = carried r c k"
proof (cases rule: exactly_carried_cases [OF assms(1,2)])
  case 1
  then have "\<bar>k\<bar> \<le> 2 ^ 53" using assms(3) by (auto simp: go_value_def split: if_splits)
  then show ?thesis by (rule rounded_carried_small)
qed (simp add: rounded_carried_def carried_def)

lemma rounded_carried_negative:
  "k < 0 \<Longrightarrow> prefix_result MinusPrefix (rounded_carried r c \<bar>k\<bar>) = Inr (rounded_carried r c k)"
  using to_double_minus [of "of_int (- k)"] by (simp add: rounded_carried_def)

context integer_target
begin

lemma conversion_normalizes:
  assumes "carrier_ok c" "eval call env e w = (Inr (JBigInt k), w')"
  shows "\<exists>n. conversion_normalizeBigInt c e = Inr n \<and>
    eval call env n w = (Inr (JBigInt (go_wrap c k)), w')"
proof -
  have "carrier_width c = 8 \<or> carrier_width c = 16 \<or> carrier_width c = 32 \<or> carrier_width c = 64"
    using carrier_ok_width [OF assms(1)] by auto
  then show ?thesis
    using assms(2) globals intrinsics
    by (elim disjE)
      (simp_all add: conversion_normalizeBigInt_def integerWidth_def propertyCall_def as_int_n_def as_uint_n_def
        go_wrap_def)
qed

lemma number_of_bigint:
  assumes "eval call env e w = (Inr (JBigInt k), w')"
  shows "eval call env (number_call e) w = (Inr (JNumber (to_double (of_int k))), w')"
  using assms globals intrinsics
  by (simp add: number_call_def TargetIntrinsic_Expression_def TargetGlobalAnchorName_def)

lemma number_as_bigint:
  assumes "eval call env e w = (Inr (JNumber a), w')"
  shows "\<exists>n requests'. numberToBigInt ctx e requests = Inr (n, requests') \<and>
    eval call env n w = (Inr (JBigInt (integer_part a)), w')"
proof -
  obtain f where f: "resolves ctx env RuntimeNumberToBigInt f"
    "\<And>a w. call f [JNumber a] w = (Inr (JBigInt (integer_part a)), w)"
    using number_to_bigint by blast
  then show ?thesis using assms
    by (auto simp: resolves_def numberToBigInt_def globalCall_def)
qed

lemma truncated_number:
  assumes "eval call env e w = (Inr (JNumber a), w')"
  shows "eval call env (mathCall ''trunc'' e) w = (Inr (JNumber (js_trunc a)), w')"
  using assms globals intrinsics by (simp add: mathCall_def propertyCall_def)

lemma converted_value:
  assumes ok: "carrier_ok c" and valid: "IntegerRepresentation_Valid r"
    and v: "eval call env e w = (Inr v, w')"
    and source: "if \<not> float \<and> rep = IntegerCarrierBigInt then v = JBigInt k
                 else \<exists>a. v = JNumber a \<and> integer_part a = k"
    and known: "\<not> float \<Longrightarrow> rep = IntegerCarrierBigInt \<or> rep = IntegerCarrierNumber"
    and target: "CarrierRepresentation r c = Some x"
  shows "\<exists>n requests'. convert_value ctx abi (\<not> float) float rep x c e requests = Inr (n, requests') \<and>
    eval call env n w = (Inr (rounded_carried r c (go_wrap c k)), w')"
proof -
  have widened: "\<exists>n requests'. numberToBigInt ctx e requests = Inr (n, requests') \<and>
      (\<exists>m. conversion_normalizeBigInt c n = Inr m \<and> eval call env m w = (Inr (JBigInt (go_wrap c k)), w'))"
    if a: "v = JNumber a" "integer_part a = k" for a
  proof -
    obtain n requests' where n: "numberToBigInt ctx e requests = Inr (n, requests')"
      "eval call env n w = (Inr (JBigInt k), w')"
      using number_as_bigint [of e w a w' requests] v a by auto
    then show ?thesis using conversion_normalizes [OF ok n(2)] by blast
  qed
  show ?thesis
  proof (cases "\<not> float \<and> rep = IntegerCarrierBigInt")
    case True
    then obtain n where n: "conversion_normalizeBigInt c e = Inr n"
      "eval call env n w = (Inr (JBigInt (go_wrap c k)), w')"
      using conversion_normalizes [OF ok, of e w k w'] v source by auto
    have "x = IntegerCarrierBigInt \<or> x = IntegerCarrierNumber"
      using target representation_cases [OF ok valid] by (auto split: if_splits)
    then show ?thesis using True n number_of_bigint [OF n(2)] target by (auto simp: convert_value_def rounded_carried_def)
  next
    case False
    then obtain a where a: "v = JNumber a" "integer_part a = k" using source by auto
    consider (number) "x = IntegerCarrierNumber" "carrier_width c \<in> {8, 16, 32}"
      | (wide) "x = IntegerCarrierNumber" "\<not> carrier_width c \<le> 32" | (bigint) "x = IntegerCarrierBigInt"
      using target representation_cases [OF ok valid] carrier_ok_width [OF ok] by (auto split: if_splits)
    then show ?thesis
    proof cases
      case number
      have width: "carrier_width c \<le> 32" using number(2) by auto
      have "\<bar>go_wrap c k\<bar> \<le> 2 ^ 53"
        using go_wrap_value [of c k] number(2) by (auto simp: go_value_def split: if_splits)
      then have C: "rounded_carried r c (go_wrap c k) = int_value (go_wrap c k)"
        using target number(1) by (simp add: rounded_carried_small carried_def)
      show ?thesis
        using False width v number(1) normalize_number [OF number(2), of e w a w']
          normalize_number [OF number(2) truncated_number [of e w a w']]
        by (auto simp: convert_value_def C a)
    next
      case wide
      then show ?thesis
        using False widened [OF a] number_of_bigint target
        by (fastforce simp: convert_value_def normalizeNumber64_def rounded_carried_def)
    next
      case bigint
      have "float \<or> rep = IntegerCarrierNumber" using False known by blast
      then show ?thesis using bigint widened [OF a] target by (auto simp: convert_value_def rounded_carried_def)
    qed
  qed
qed

end

subsection \<open>Values of constants\<close>

lemma formatted_constant:
  assumes "carrier_ok c" "IntegerRepresentation_Valid r"
  shows "FormatConstant r c (Some (IntConstant k)) =
    (if go_value c k then Some (itoa (nat \<bar>k\<bar>), k < 0) else None)"
proof -
  have positive: "carrier_width c \<noteq> 0" using carrier_ok_width [OF assms(1)] by auto
  show ?thesis
  proof (cases "carrier_signed c")
    case True
    show ?thesis
    proof (cases "- (2 ^ 63) \<le> k \<and> k < 2 ^ 63")
      case range: True
      then have k: "- (2 ^ 63) \<le> k" "k < 2 ^ 63" by simp_all
      have fits: "fitsSigned (word_of_int k) (carrier_width c) \<longleftrightarrow> go_value c k"
        using fitsSigned_iff [OF carrier_ok_width [OF assms(1)] k] True by (simp add: go_value_def)
      have "0 \<le> k \<Longrightarrow> FormatInt (word_of_int k) = itoa (nat \<bar>k\<bar>)"
        by (simp only: FormatInt_def sint_word_of_int_64 [OF k] formatInt_def) simp
      then show ?thesis
        using assms True fits FormatUint_absolute [OF k] k sint_word_of_int_64 [OF k]
        by (auto simp: FormatConstant_def Int64Val_def positive)
    next
      case False
      have "\<not> go_value c k" using go_value_range [OF assms(1), of k] True False by blast
      then show ?thesis using assms True False by (auto simp: FormatConstant_def Int64Val_def)
    qed
  next
    case False
    show ?thesis
    proof (cases "0 \<le> k \<and> k < 2 ^ 64")
      case range: True
      then have k: "0 \<le> k" "k < 2 ^ 64" by simp_all
      have fits: "fitsUnsigned (word_of_int k) (carrier_width c) \<longleftrightarrow> go_value c k"
        using fitsUnsigned_iff [OF carrier_ok_width [OF assms(1)] k] False k by (simp add: go_value_def)
      have "unat (word_of_int k :: 64 word) = nat k"
        using k by (simp add: nat_uint_eq [symmetric] uint_word_of_int_eq take_bit_int_eq_self)
      then show ?thesis
        using assms False fits k by (auto simp: FormatConstant_def Uint64Val_def FormatUint_def positive)
    next
      case range: False
      have "\<not> go_value c k" using go_value_range [OF assms(1), of k] False range by blast
      then show ?thesis using assms False range by (auto simp: FormatConstant_def Uint64Val_def)
    qed
  qed
qed

context integer_target
begin

lemma literal_rounded:
  assumes "Describe (ctx_TypesSizes ctx) t = Some c"
  shows "\<exists>e. CarrierLiteral ctx c (itoa n) = Inr e \<and>
    (\<forall>w. eval call env e w = (Inr (rounded_carried (ctx_IntegerRepresentation ctx) c (int n)), w))"
proof -
  obtain a where a: "NewScalarABIFromSizes (ctx_IntegerRepresentation ctx) (ctx_TypesSizes ctx) = Inr a"
    using abi by blast
  consider (number) "CarrierRepresentation (ctx_IntegerRepresentation ctx) c = Some IntegerCarrierNumber"
    | (bigint) "CarrierRepresentation (ctx_IntegerRepresentation ctx) c = Some IntegerCarrierBigInt"
    using representation_cases [OF Describe_ok [OF assms] profile_valid] by (auto split: if_splits)
  then show ?thesis
  proof cases
    case number
    then have "ScalarABI_Carrier a (carrier_alias c) = Inr IntegerCarrierNumber"
      using described_carrier [OF assms a] by blast
    then have "CarrierLiteral ctx c (itoa n) = Inr (NumericLiteral (itoa n))"
      by (simp add: CarrierLiteral_def a IntegerLiteral_def ScalarABI_Carrier_def)
    then show ?thesis
      using number by (simp add: rounded_carried_def numeric_literal_def itoa_digits itoa_nonempty)
  next
    case bigint
    then have "ScalarABI_Carrier a (carrier_alias c) = Inr IntegerCarrierBigInt"
      using described_carrier [OF assms a] by blast
    then have "CarrierLiteral ctx c (itoa n) = Inr (BigIntLiteral (itoa n @ ''n''))"
      by (simp add: CarrierLiteral_def a IntegerLiteral_def ScalarABI_Carrier_def)
    then show ?thesis using bigint by (auto simp: rounded_carried_def)
  qed
qed

lemma constant_value:
  assumes described: "Describe (ctx_TypesSizes ctx) t = Some c"
  shows "if go_value c k
    then \<exists>e. EmitConstant ctx t (Some (IntConstant k)) = Inr e \<and> emission_Before e = [] \<and>
      eval call env (emission_Value e) w = (Inr (rounded_carried (ctx_IntegerRepresentation ctx) c k), w)
    else EmitConstant ctx t (Some (IntConstant k)) = Inl (UnsupportedError ''expression'')"
proof (cases "go_value c k")
  case True
  obtain e where e: "CarrierLiteral ctx c (itoa (nat \<bar>k\<bar>)) = Inr e"
    "\<And>w. eval call env e w = (Inr (rounded_carried (ctx_IntegerRepresentation ctx) c \<bar>k\<bar>), w)"
    using literal_rounded [OF described, of "nat \<bar>k\<bar>"] by auto
  have "eval call env (if k < 0 then PrefixUnaryExpression MinusPrefix e else e) w =
      (Inr (rounded_carried (ctx_IntegerRepresentation ctx) c k), w)"
    using rounded_carried_negative [of k "ctx_IntegerRepresentation ctx" c] by (simp add: e(2))
  then show ?thesis
    using True e(1) described formatted_constant [OF Describe_ok [OF described] profile_valid]
    by (simp add: EmitConstant_def DirectExpression_def)
next
  case False
  then show ?thesis
    using described formatted_constant [OF Describe_ok [OF described] profile_valid]
    by (simp add: EmitConstant_def)
qed

end

subsection \<open>Properties\<close>

text \<open>C32: A conversion to an integer type computes Go's, between types and between integer profiles: the emitted expression is the source integer, or the integer part of the source floating-point number, wrapped to the width and sign of the target, in the carrier the target profile asks for; the statements before the operand stay. The source is a floating-point number or an integer that its profile carries exactly. Where the target profile carries the target type exactly, in a \<open>bigint\<close> or in a \<open>number\<close> of at most 32 bits, the value is exact, as it is for results of at most 53 bits; a 64-bit target that is carried in a \<open>number\<close> gets the \<open>number\<close> nearest to the wrapped integer.\<close>

theorem conversions_exact:
  assumes "integer_target ctx call env"
    and "NewScalarABIFromSizes source (ctx_TypesSizes ctx) = Inr sourceABI"
    and "NewScalarABIFromSizes target (ctx_TypesSizes ctx) = Inr targetABI"
    and "Describe (ctx_TypesSizes ctx) (Some targetType) = Some c"
    and "converts_from source (ctx_TypesSizes ctx) sourceType v k"
    and "eval call env (emission_Value operand) w = (Inr v, w')"
  shows "(\<exists>e. Convert ctx sourceABI targetABI sourceType targetType operand = Inr e \<and>
      emission_Before e = emission_Before operand \<and>
      eval call env (emission_Value e) w = (Inr (rounded_carried target c (go_wrap c k)), w')) \<and>
    (exactly_carried target c \<or> \<bar>go_wrap c k\<bar> \<le> 2 ^ 53 \<longrightarrow>
      rounded_carried target c (go_wrap c k) = carried target c (go_wrap c k))"
proof
  note ok = Describe_ok [OF assms(4)]
  have wrapped: "go_value c (go_wrap c k)" using go_wrap_value ok carrier_ok_positive by blast
  then show "exactly_carried target c \<or> \<bar>go_wrap c k\<bar> \<le> 2 ^ 53 \<longrightarrow>
      rounded_carried target c (go_wrap c k) = carried target c (go_wrap c k)"
    using rounded_carried_exact [OF ok] rounded_carried_small by blast
  have valid: "IntegerRepresentation_Valid target" 
    using assms(3) by (auto simp: NewScalarABIFromSizes_def NewScalarABI_def split: sum.splits if_splits)
  obtain x where x: "CarrierRepresentation target c = Some x"
    using representation_cases [OF ok valid] by (auto split: if_splits)
  have tabi: "ScalarABI_Carrier targetABI (carrier_alias c) = Inr x"
    using described_carrier [OF assms(4,3)] x by blast
  note by_value = integer_target.converted_value [OF assms(1) ok valid assms(6) _ _ x]
  show "\<exists>e. Convert ctx sourceABI targetABI sourceType targetType operand = Inr e \<and>
      emission_Before e = emission_Before operand \<and>
      eval call env (emission_Value e) w = (Inr (rounded_carried target c (go_wrap c k)), w')"
  proof (cases "Describe (ctx_TypesSizes ctx) (Some sourceType)")
    case None
    then obtain a where a: "float_Describe sourceType \<noteq> None" "v = JNumber a" "integer_part a = k"
      using assms(5) by (auto simp: converts_from_def)
    obtain n requests' where "convert_value ctx targetABI False True IntegerCarrierInvalid x c
        (emission_Value operand) (emission_Requests operand) = Inr (n, requests')"
      "eval call env n w = (Inr (rounded_carried target c (go_wrap c k)), w')"
      using by_value [of True IntegerCarrierInvalid k targetABI "emission_Requests operand"] a by auto
    then show ?thesis using None a tabi assms(4) by (simp add: Convert_def)
  next
    case (Some s)
    note sok = Describe_ok [OF Some]
    have s: "exactly_carried source s" "go_value s k" "v = carried source s k" "float_Describe sourceType = None"
      using assms(5) Some integer_not_float [OF Some] by (auto simp: converts_from_def)
    obtain y where y: "CarrierRepresentation source s = Some y" "y = IntegerCarrierBigInt \<or> y = IntegerCarrierNumber"
      using exactly_carried_cases [OF sok s(1)] by metis
    have sabi: "ScalarABI_Carrier sourceABI (carrier_alias s) = Inr y"
      using described_carrier [OF Some assms(2)] y(1) by blast
    show ?thesis
    proof (cases "y = x \<and> CanConvertDirectly s c")
      case True
      then have "go_value c k" using can_convert_directly_exact [OF sok ok] s(2) by blast
      then have "go_wrap c k = k" using go_wrap_id ok carrier_ok_positive by blast
      moreover have "rounded_carried source s k = rounded_carried target c k" using True x y by (simp add: rounded_carried_def)
      moreover have "carried source s k = rounded_carried source s k" using rounded_carried_exact [OF sok s(1,2)] by simp
      ultimately show ?thesis using True Some s tabi sabi assms(4,6) by (simp add: Convert_def)
    next
      case False
      obtain n requests' where "convert_value ctx targetABI True False y x c
          (emission_Value operand) (emission_Requests operand) = Inr (n, requests')"
        "eval call env n w = (Inr (rounded_carried target c (go_wrap c k)), w')"
        using by_value [of False y k targetABI "emission_Requests operand"] s y by (auto simp: carried_def)
      then show ?thesis using False Some s tabi sabi assms(4) by (auto simp: Convert_def)
    qed
  qed
qed

text \<open>The conversion of the \<open>float64\<close> 300 to \<open>uint8\<close>.\<close>

lemma conversions_exact_witness:
  "\<exists>e. Convert (module_context IntegerRepresentationBigInt (Some 8) ''root'')
         \<lparr>abi_integer = IntegerRepresentationBigInt, abi_nativeWidth = 64\<rparr>
         \<lparr>abi_integer = IntegerRepresentationBigInt, abi_nativeWidth = 64\<rparr>
         (BasicType kindFloat64) (BasicType kindUint8) (DirectExpression (NumericLiteral ''300'') []) = Inr e \<and>
     emission_Before e = [] \<and>
     eval (call_target (map_of module_scope) (\<lambda>name arguments w. (Inl JsTypeError, w))) module_env
       (emission_Value e) () = (Inr (int_value 44), ())"
proof -
  have literal: "numeric_literal ''300'' = Inr (int_value 300)"
    using to_double_of_int [of 300] by (simp add: numeric_literal_def is_digit_def atoi_def digit_value_def)
  have described: "Describe (Some 8) (Some (BasicType kindUint8)) = Some (newCarrier PrimitiveUint8 8 False)"
    by (simp add: Describe_def)
  have from_float: "converts_from IntegerRepresentationBigInt (Some 8) (BasicType kindFloat64) (int_value 300) 300"
    by (simp add: converts_from_def Describe_def float_Describe_def)
  have exact: "exactly_carried IntegerRepresentationBigInt (newCarrier PrimitiveUint8 8 False)"
    by (simp add: exactly_carried_def newCarrier_def)
  have wrapped: "go_wrap (newCarrier PrimitiveUint8 8 False) 300 = 44"
    by (simp add: go_wrap_def newCarrier_def)
  have uint8: "carried IntegerRepresentationBigInt (newCarrier PrimitiveUint8 8 False) k = int_value k" for k
    using representation_cases [OF Describe_ok [OF described], of IntegerRepresentationBigInt]
    by (simp add: carried_def newCarrier_def)
  show ?thesis
    using conversions_exact [OF canonical.integer_target_axioms [of "''root''" "\<lambda>name arguments w. (Inl JsTypeError, w)"]
        _ _ _ _ _, where targetType = "BasicType kindUint8" and sourceType = "BasicType kindFloat64"
        and v = "int_value 300" and k = 300
        and c = "newCarrier PrimitiveUint8 8 False" and operand = "DirectExpression (NumericLiteral ''300'') []"
        and w = "()" and w' = "()" and source = IntegerRepresentationBigInt
        and target = IntegerRepresentationBigInt, unfolded module_context_simps,
        OF canonical_abi canonical_abi described from_float] exact
    by (auto simp: DirectExpression_def literal uint8 wrapped)
qed

text \<open>C33: An integer constant in the range of its type is emitted, in every profile, as an expression with no statement before it; a constant out of range is refused. The value of the expression is the constant itself where the profile carries the type exactly, in a \<open>bigint\<close> or in a \<open>number\<close> of at most 32 bits, and wherever the constant has at most 53 bits. For a 64-bit type that the profile carries in a \<open>number\<close> it is the \<open>number\<close> nearest to the constant, which larger constants differ from.\<close>

theorem constants_exact:
  assumes "integer_target ctx call env" "Describe (ctx_TypesSizes ctx) t = Some c"
  shows "if go_value c k
    then (\<exists>e. EmitConstant ctx t (Some (IntConstant k)) = Inr e \<and> emission_Before e = [] \<and>
        eval call env (emission_Value e) w = (Inr (rounded_carried (ctx_IntegerRepresentation ctx) c k), w)) \<and>
      (exactly_carried (ctx_IntegerRepresentation ctx) c \<or> \<bar>k\<bar> \<le> 2 ^ 53 \<longrightarrow>
        rounded_carried (ctx_IntegerRepresentation ctx) c k = carried (ctx_IntegerRepresentation ctx) c k)
    else EmitConstant ctx t (Some (IntConstant k)) = Inl (UnsupportedError ''expression'')"
  using integer_target.constant_value [OF assms, of k w] rounded_carried_small [of k]
    rounded_carried_exact [OF Describe_ok [OF assms(2)]]
  by (cases "go_value c k") auto

text \<open>\<open>-100\<close> is an \<open>int8\<close> and \<open>200\<close> is not; \<open>2 ^ 53 + 1\<close> is an \<open>int64\<close>, which a \<open>number\<close> rounds.\<close>

definition demo_int64 :: Carrier where
  "demo_int64 = newCarrier PrimitiveInt64 64 True"

lemma demo_number_abi:
  "NewScalarABIFromSizes IntegerRepresentationNumber (Some 8) =
     Inr \<lparr>abi_integer = IntegerRepresentationNumber, abi_nativeWidth = 64\<rparr>"
  by (simp add: NewScalarABIFromSizes_def NativeIntegerWidthFromSizes_def NewScalarABI_def
      NativeIntegerWidth_Valid_def)

lemma demo_int64_described: "Describe (Some 8) (Some (BasicType kindInt64)) = Some demo_int64"
  by (simp add: Describe_def demo_int64_def)

lemma demo_rounded: "to_double 9007199254740993 = Fin 9007199254740992"
proof -
  have "binade 9007199254740993 = 53" "round_even (9007199254740993 / 2) = 4503599627370496" by code_simp+
  then show ?thesis by (simp add: to_double_def unit_last_place_def Let_def)
qed

lemma demo_int64_number:
  "CarrierRepresentation IntegerRepresentationNumber demo_int64 \<noteq> Some IntegerCarrierBigInt"
  using representation_cases [OF Describe_ok [OF demo_int64_described], of IntegerRepresentationNumber]
  by (simp add: demo_int64_def newCarrier_def)

lemma constants_exact_witness:
  "(\<exists>e. EmitConstant (module_context IntegerRepresentationBigInt (Some 8) ''root'') (Some (BasicType kindInt8))
          (Some (IntConstant (- 100))) = Inr e \<and>
      eval (call_target (map_of module_scope) (\<lambda>name arguments w. (Inl JsTypeError, w))) module_env
        (emission_Value e) () = (Inr (int_value (- 100)), ())) \<and>
   EmitConstant (module_context IntegerRepresentationBigInt (Some 8) ''root'') (Some (BasicType kindInt8))
     (Some (IntConstant 200)) = Inl (UnsupportedError ''expression'') \<and>
   (\<exists>e. EmitConstant (module_context IntegerRepresentationNumber (Some 8) ''root'') (Some (BasicType kindInt64))
          (Some (IntConstant 9007199254740993)) = Inr e \<and>
      eval (call_target (map_of module_scope) (\<lambda>name arguments w. (Inl JsTypeError, w))) module_env
        (emission_Value e) () = (Inr (JNumber (Fin 9007199254740992)), ()))"
proof -
  let ?host = "\<lambda>name arguments w :: unit. (Inl JsTypeError, w)"
  note exact = exact_exactly_carried [OF Describe_ok [OF demo_int8_described] demo_int8_exact]
  note at = constants_exact [OF canonical.integer_target_axioms [of "''root''" ?host],
      unfolded module_context_simps, OF demo_int8_described, where w = "()"]
  have c: "carried IntegerRepresentationBigInt demo_int8 k = int_value k" for k
    by (simp add: carried_def demo_int8_number)
  have number: "integer_target (module_context IntegerRepresentationNumber (Some 8) ''root'')
      (call_target (map_of module_scope) ?host) module_env" by (rule generated_target [OF demo_number_abi])
  have in_range: "go_value demo_int64 9007199254740993" by (simp add: go_value_def demo_int64_def newCarrier_def)
  have rounds: "rounded_carried IntegerRepresentationNumber demo_int64 9007199254740993 = JNumber (Fin 9007199254740992)"
    by (simp add: rounded_carried_def demo_int64_number demo_rounded)
  have wide: "\<exists>e. EmitConstant (module_context IntegerRepresentationNumber (Some 8) ''root'') (Some (BasicType kindInt64))
          (Some (IntConstant 9007199254740993)) = Inr e \<and>
      eval (call_target (map_of module_scope) ?host) module_env (emission_Value e) () =
        (Inr (JNumber (Fin 9007199254740992)), ())"
    using constants_exact [OF number, unfolded module_context_simps, OF demo_int64_described, of 9007199254740993 "()"]
    unfolding if_P [OF in_range] rounds by blast
  show ?thesis
    using at [of "- 100"] at [of 200] exact wide
    by (auto simp: go_value_def demo_int8_fields c)
qed

end
