(* ===== verification/IntegerTyping.thy ===== *)
theory IntegerTyping
  imports TargetTypes IntegerHandler IntegerConversion
begin

text \<open>
  The integer emitters produce well-typed TypeScript: the functions of the runtime modules check against their
  declared signatures, and the expressions of operators, shifts, unary operators, conversions and
  constants have the type of the carrier, so that a \<open>number\<close> is never combined with a \<open>bigint\<close>.  This holds for
  every profile, also where results are not exact.
\<close>

subsection \<open>The runtime modules\<close>

fun declared_type :: "ts_function \<Rightarrow> ts_static" where
  "declared_type (FunctionDeclaration name parameters result body) = FunctionType (List.map snd parameters) result"

text \<open>The type of what a module imports for a runtime symbol.\<close>

definition runtime_signature :: "RuntimeSymbol \<Rightarrow> ts_static option" where
  "runtime_signature symbol =
     (if symbol = RuntimePanic then Some PanicClassType
      else if symbol = RuntimeNumberToBigInt then Some (declared_type (numberToBigInt_declaration ''''))
      else map_option declared_type (integer_declaration symbol '''' ''''))"

definition module_types :: "string \<Rightarrow> type_env" where
  "module_types panicName =
     [''globalThis'' \<mapsto> GlobalObject [], ''Math'' \<mapsto> GlobalObject [''Math''], ''BigInt'' \<mapsto> GlobalObject [''BigInt''],
      panicName \<mapsto> PanicClassType]"

definition panic_import :: "string \<Rightarrow> bool" where
  "panic_import panicName \<longleftrightarrow>
     panicName \<notin> {''left'', ''right'', ''result'', ''value'', ''globalThis'', ''Math'', ''BigInt''}"

lemmas typing_simps =
  runtime_evaluation arithmetic_def relational_def intrinsic_type_def numeric_type_def is_digit_def
  ends_in_return_def module_types_def panic_import_def

lemma declarations_check:
  assumes "panic_import panicName"
  shows "function_type (module_types panicName) (fixedWidthOperation name s) = Some (declared_type (fixedWidthOperation name s))"
    "op \<in> {SlashToken, PercentToken} \<Longrightarrow>
      function_type (module_types panicName) (bigintDivisionOperation name panicName op) =
        Some (declared_type (bigintDivisionOperation name panicName op))"
    "function_type (module_types panicName) (numberDivisionOperation name panicName) =
      Some (declared_type (numberDivisionOperation name panicName))"
    "function_type (module_types panicName) (numberRemainderOperation name panicName) =
      Some (declared_type (numberRemainderOperation name panicName))"
    "op \<in> {GreaterThanEqualsToken, LessThanEqualsToken} \<Longrightarrow>
      function_type (module_types panicName) (orderedOperation name op) = Some (declared_type (orderedOperation name op))"
    "function_type (module_types panicName) (numberToBigInt_declaration name) =
      Some (declared_type (numberToBigInt_declaration name))"
  using assms by (auto simp: typing_simps)

lemma declared_type_name:
  "integer_declaration symbol name panicName = Some f \<Longrightarrow>
     map_option declared_type (integer_declaration symbol '''' '''') = Some (declared_type f)"
  by (auto simp: integer_declaration_def runtime_operator_def runtime_ordering_def runtime_evaluation split: if_split_asm)

lemma integer_declaration_checks:
  assumes "panic_import panicName" "integer_declaration symbol name panicName = Some f"
  shows "function_type (module_types panicName) f = runtime_signature symbol \<and> runtime_signature symbol = Some (declared_type f)"
proof -
  have "symbol \<noteq> RuntimePanic" "symbol \<noteq> RuntimeNumberToBigInt"
    using assms(2) by (auto simp: integer_declaration_def runtime_ordering_def)
  then have "runtime_signature symbol = Some (declared_type f)"
    using declared_type_name [OF assms(2)] by (simp add: runtime_signature_def)
  moreover have "function_type (module_types panicName) f = Some (declared_type f)"
    using assms(2) declarations_check [OF assms(1)]
    by (auto simp: integer_declaration_def runtime_operator_def runtime_ordering_def split: if_split_asm)
  ultimately show ?thesis by simp
qed
lemma build_symbols_check:
  assumes "panic_import panicName"
  shows "build_symbols panicName seen symbols fs = Inr gs \<Longrightarrow>
    \<exists>hs. gs = fs @ hs \<and> list_all2 (\<lambda>symbol f. function_type (module_types panicName) f = runtime_signature symbol \<and>
      runtime_signature symbol = Some (declared_type f)) symbols hs"
proof (induction symbols arbitrary: seen fs)
  case (Cons symbol symbols)
  then obtain contract where "RuntimeContract symbol = Inr contract" "symbol \<notin> set seen"
    by (cases "RuntimeContract symbol") (auto split: if_split_asm)
  then obtain f where f: "integer_declaration symbol (contract_exportedName contract) panicName = Some f"
    "build_symbols panicName (symbol # seen) symbols (fs @ [f]) = Inr gs"
    using Cons.prems by (auto split: if_split_asm option.split_asm)
  then show ?case
    using Cons.IH [OF f(2)] integer_declaration_checks [OF assms f(1)] by auto
qed simp

subsection \<open>The interface\<close>

definition carrier_type :: "IntegerRepresentation \<Rightarrow> Carrier \<Rightarrow> ts_type" where
  "carrier_type r c = (if CarrierRepresentation r c = Some IntegerCarrierBigInt then BigIntKeyword else NumberKeyword)"

text \<open>
  The types of the names an emission uses: the global object, the intrinsics, and each runtime symbol under
  the local name that the naming interface gives it.
\<close>

locale typed_target =
  fixes ctx :: "'q emit_context"
    and G :: type_env
  assumes typed_abi: "\<exists>abi. NewScalarABIFromSizes (ctx_IntegerRepresentation ctx) (ctx_TypesSizes ctx) = Inr abi"
    and typed_globals:
      "G ''globalThis'' = Some (GlobalObject [])"
      "G ''Math'' = Some (GlobalObject [''Math''])"
      "G ''BigInt'' = Some (GlobalObject [''BigInt''])"
    and typed_runtime: "\<And>symbol s ref. runtime_signature symbol = Some s \<Longrightarrow>
      ctx_Runtime ctx symbol ImportPhaseValue = Inr ref \<Longrightarrow> ref_qualifier ref = '''' \<and> G (ref_name ref) = Some s"

lemma signatures:
  "runtime_signature RuntimePanic = Some PanicClassType"
  "runtime_signature RuntimeNumberToBigInt = Some (FunctionType [NumberKeyword] BigIntKeyword)"
  "runtime_signature RuntimeIntegerNormalizeSigned64 = Some (FunctionType [BigIntKeyword] BigIntKeyword)"
  "runtime_signature RuntimeIntegerNormalizeUnsigned64 = Some (FunctionType [BigIntKeyword] BigIntKeyword)"
  "runtime_signature RuntimeIntegerDivide = Some (FunctionType [BigIntKeyword, BigIntKeyword] BigIntKeyword)"
  "runtime_signature RuntimeIntegerRemainder = Some (FunctionType [BigIntKeyword, BigIntKeyword] BigIntKeyword)"
  "runtime_signature RuntimeNumberIntDivide = Some (FunctionType [NumberKeyword, NumberKeyword] NumberKeyword)"
  "runtime_signature RuntimeNumberIntRemainder = Some (FunctionType [NumberKeyword, NumberKeyword] NumberKeyword)"
  by (simp_all add: runtime_signature_def integer_declaration_def runtime_operator_def runtime_evaluation)

definition digits :: "string \<Rightarrow> bool" where
  "digits d \<longleftrightarrow> d \<noteq> [] \<and> list_all is_digit d"

lemma digits_itoa [simp]: "digits (itoa n)"
  by (simp add: digits_def itoa_digits)

lemma digits_FormatUint [simp]: "digits (FormatUint u)"
  by (simp add: FormatUint_def)

lemma digits_literals [simp]: "digits ''0''" "digits ''1''"
  by (simp_all add: digits_def is_digit_def)

lemma literal_types [simp]:
  "digits d \<Longrightarrow> type_of G (NumericLiteral d) = Some (Plain NumberKeyword)"
  "digits d \<Longrightarrow> type_of G (BigIntLiteral (d @ ''n'')) = Some (Plain BigIntKeyword)"
  by (auto simp: digits_def Suc_le_eq)

declare type_of.simps(1,2) [simp del]

lemma number_binary_type [simp]:
  "arithmetic op \<Longrightarrow> binary_type op NumberKeyword NumberKeyword = Some NumberKeyword"
  "\<not> arithmetic op \<Longrightarrow> binary_type op NumberKeyword NumberKeyword = Some BooleanKeyword"
  by simp_all

lemma arithmetic_simps [simp]:
  "arithmetic PlusToken" "arithmetic MinusToken" "arithmetic AsteriskToken" "arithmetic SlashToken" "arithmetic PercentToken"
  "arithmetic AmpersandToken" "arithmetic BarToken" "arithmetic CaretToken" "arithmetic LessThanLessThanToken"
  "arithmetic GreaterThanGreaterThanToken" "arithmetic GreaterThanGreaterThanGreaterThanToken"
  "\<not> arithmetic EqualsEqualsEqualsToken" "\<not> arithmetic ExclamationEqualsEqualsToken" "\<not> arithmetic LessThanToken"
  "\<not> arithmetic LessThanEqualsToken" "\<not> arithmetic GreaterThanToken" "\<not> arithmetic GreaterThanEqualsToken"
  by (simp_all add: arithmetic_def relational_def)

lemma NormalizeNumber_type:
  "type_of G e = Some (Plain NumberKeyword) \<Longrightarrow> type_of G (NormalizeNumber c e) = Some (Plain NumberKeyword)"
  by (simp add: NormalizeNumber_def Let_def)

context typed_target
begin

lemma typed_intrinsic [simp]:
  "type_of G (TargetIntrinsic_Expression i) = Some (GlobalObject [TargetIntrinsic_String i])"
  by (simp add: TargetIntrinsic_Expression_def TargetGlobalAnchorName_def typed_globals)

lemma typed_reference:
  "runtime_signature symbol = Some s \<Longrightarrow> ctx_Runtime ctx symbol ImportPhaseValue = Inr ref \<Longrightarrow>
     type_of G (NameReference_Expression ref) = Some s"
  using typed_runtime by (simp add: NameReference_Expression_def)

lemma typed_profile: "IntegerRepresentation_Valid (ctx_IntegerRepresentation ctx)"
  using typed_abi by (auto simp: NewScalarABIFromSizes_def NewScalarABI_def split: sum.splits if_splits)

lemma typed_representation:
  assumes "carrier_ok c"
  obtains "CarrierRepresentation (ctx_IntegerRepresentation ctx) c = Some IntegerCarrierNumber"
      "carrier_type (ctx_IntegerRepresentation ctx) c = NumberKeyword"
  | "CarrierRepresentation (ctx_IntegerRepresentation ctx) c = Some IntegerCarrierBigInt" "carrier_width c = 64"
      "carrier_type (ctx_IntegerRepresentation ctx) c = BigIntKeyword"
  using representation_cases [OF assms typed_profile] that by (auto simp: carrier_type_def split: if_split_asm)

text \<open>A literal of a carrier, whose form tells the type.\<close>

lemma typed_literal:
  assumes "Describe (ctx_TypesSizes ctx) t = Some c" "CarrierLiteral ctx c d = Inr e"
  shows "e = (if carrier_type (ctx_IntegerRepresentation ctx) c = BigIntKeyword then BigIntLiteral (d @ ''n'') else NumericLiteral d)"
proof -
  obtain a where a: "NewScalarABIFromSizes (ctx_IntegerRepresentation ctx) (ctx_TypesSizes ctx) = Inr a"
    using typed_abi by blast
  show ?thesis
    using assms(2) described_carrier [OF assms(1) a] a
    by (cases "IntegerCarrierRepresentation (carrier_alias c) a"; cases rule: typed_representation [OF Describe_ok [OF assms(1)]])
      (auto simp: CarrierLiteral_def IntegerLiteral_def ScalarABI_Carrier_def carrier_type_def
        split: if_split_asm IntegerCarrier.split_asm)
qed

lemma typed_literal_type:
  assumes "Describe (ctx_TypesSizes ctx) t = Some c" "CarrierLiteral ctx c d = Inr e" "digits d"
  shows "type_of G e = Some (Plain (carrier_type (ctx_IntegerRepresentation ctx) c))"
  using typed_literal [OF assms(1,2)] assms(3) by (auto simp: carrier_type_def)

lemma typed_normalization:
  assumes "carrier_ok c" "type_of G e = Some (Plain (carrier_type (ctx_IntegerRepresentation ctx) c))"
    and "NormalizeFixedWidth ctx c e = Inr n"
  shows "emission_Before n = [] \<and> type_of G (emission_Value n) = Some (Plain (carrier_type (ctx_IntegerRepresentation ctx) c))"
proof (cases rule: typed_representation [OF assms(1)])
  case 1
  then show ?thesis using assms(2,3) NormalizeNumber_type by (auto simp: NormalizeFixedWidth_def)
next
  case 2
  let ?symbol = "if carrier_signed c then RuntimeIntegerNormalizeSigned64 else RuntimeIntegerNormalizeUnsigned64"
  obtain ref where ref: "ctx_Runtime ctx ?symbol ImportPhaseValue = Inr ref"
    "n = DirectExpression (CallExpression (NameReference_Expression ref) [e]) (ref_requests ref)"
    using assms(3) 2 by (auto simp: NormalizeFixedWidth_def normalizeBigInt_def Let_def split: sum.split_asm)
  have "runtime_signature ?symbol = Some (FunctionType [BigIntKeyword] BigIntKeyword)" by (simp add: signatures)
  from typed_reference [OF this ref(1)] show ?thesis using assms(2) 2 ref(2) by simp
qed

end
subsection \<open>Operators\<close>

lemma mapped_result [simp]: "map_sum id f r = Inr x \<longleftrightarrow> (\<exists>y. r = Inr y \<and> x = f y)"
  by (cases r) auto

definition operator_type :: "IntegerRepresentation \<Rightarrow> Carrier \<Rightarrow> go_token \<Rightarrow> ts_type" where
  "operator_type r c operator = (if isComparison operator then BooleanKeyword else carrier_type r c)"

context typed_target
begin

lemma typed_runtime_call:
  assumes "runtimeOperation (ctx_IntegerRepresentation ctx) c operator = Some symbol" "carrier_ok c"
    and "callRuntime ctx symbol left right = Inr e"
    and "type_of G (emission_Value left) = Some (Plain (carrier_type (ctx_IntegerRepresentation ctx) c))"
    and "type_of G (emission_Value right) = Some (Plain (carrier_type (ctx_IntegerRepresentation ctx) c))"
  shows "emission_Before e = []" "operator \<in> {QUO, REM}"
    "type_of G (emission_Value e) = Some (Plain (carrier_type (ctx_IntegerRepresentation ctx) c))"
proof -
  let ?t = "carrier_type (ctx_IntegerRepresentation ctx) c"
  have s: "runtime_signature symbol = Some (FunctionType [?t, ?t] ?t)" "operator \<in> {QUO, REM}"
    using assms(1) signatures
    by (cases rule: typed_representation [OF assms(2)]; auto simp: runtimeOperation_def split: if_split_asm)+
  obtain ref where ref: "ctx_Runtime ctx symbol ImportPhaseValue = Inr ref"
    "emission_Value e = CallExpression (NameReference_Expression ref) [emission_Value left, emission_Value right]"
    "emission_Before e = []"
    using assms(3) by (auto simp: callRuntime_def split: sum.split_asm)
  show "emission_Before e = []" "operator \<in> {QUO, REM}" by (rule ref(3), rule s(2))
  show "type_of G (emission_Value e) = Some (Plain ?t)"
    using typed_reference [OF s(1) ref(1)] assms(4,5) ref(2) by simp
qed

lemma typed_count:
  assumes "carrier_ok c" "carrier_ok d" "alignShiftCount ctx c d e = Some e'"
    and "type_of G e = Some (Plain (carrier_type (ctx_IntegerRepresentation ctx) d))"
  shows "type_of G e' = Some (Plain (carrier_type (ctx_IntegerRepresentation ctx) c))"
  using assms(3,4)
  by (cases rule: typed_representation [OF assms(1)]; cases rule: typed_representation [OF assms(2)])
    (auto simp: alignShiftCount_def intrinsic_type_def numeric_type_def split: if_split_asm)

lemma typed_binary_target:
  assumes "Describe (ctx_TypesSizes ctx) t = Some c" "target_expression ctx operator c left right = Some e"
    and "type_of G left = Some (Plain (carrier_type (ctx_IntegerRepresentation ctx) c))"
    and "type_of G right = Some (Plain (carrier_type (ctx_IntegerRepresentation ctx) c))"
  shows "type_of G e = Some (Plain (operator_type (ctx_IntegerRepresentation ctx) c operator))"
proof -
  note ok = Describe_ok [OF assms(1)]
  have zero: "type_of G z = Some (Plain (carrier_type (ctx_IntegerRepresentation ctx) c))"
    if "CarrierLiteral ctx c ''0'' = Inr z" for z
    by (rule typed_literal_type [OF assms(1) that]) simp
  show ?thesis
  proof (cases rule: typed_representation [OF ok])
    case 1
    then show ?thesis
      using assms(2-4) zero
      by (cases operator)
        (auto simp: target_expression_def Let_def exactNumberMultiplication_def intrinsic_type_def operator_type_def
          isComparison_def needsUint32Normalization_def split: if_split_asm sum.split_asm)
  next
    case 2
    then have "\<not> RequiresUint32Normalization (ctx_IntegerRepresentation ctx) c"
      "\<not> RequiresExactNumberMultiplication (ctx_IntegerRepresentation ctx) c"
      by (simp_all add: RequiresUint32Normalization_def RequiresExactNumberMultiplication_def)
    then show ?thesis
      using assms(2-4) 2
      by (cases operator)
        (auto simp: target_expression_def Let_def operator_type_def isComparison_def needsUint32Normalization_def)
  qed
qed

lemma typed_exact_result:
  assumes "carrier_ok c" "normalizeExactResult ctx operator c result = Inr e" "emission_Before result = []"
    and "type_of G (emission_Value result) = Some (Plain (operator_type (ctx_IntegerRepresentation ctx) c operator))"
  shows "emission_Before e = [] \<and>
    type_of G (emission_Value e) = Some (Plain (operator_type (ctx_IntegerRepresentation ctx) c operator))"
proof (cases "e = result")
  case False
  then have "\<not> isComparison operator" using assms(2) by (auto simp: normalizeExactResult_def split: if_split_asm)
  then have t: "operator_type (ctx_IntegerRepresentation ctx) c operator = carrier_type (ctx_IntegerRepresentation ctx) c"
    by (simp add: operator_type_def)
  obtain n where n: "NormalizeFixedWidth ctx c (emission_Value result) = Inr n"
    "emission_Before e = emission_Before result" "emission_Value e = emission_Value n"
    using assms(2) False by (auto simp: normalizeExactResult_def split: if_split_asm sum.split_asm)
  show ?thesis using typed_normalization [OF assms(1) assms(4) [unfolded t] n(1)] n(2,3) assms(3) t by simp
qed (use assms in simp)

lemma typed_operation:
  assumes "Describe (ctx_TypesSizes ctx) t = Some c" "carrier_ok d"
    and "Apply ctx operator c d left right = Inr (Some e)"
    and "type_of G (emission_Value left) = Some (Plain (carrier_type (ctx_IntegerRepresentation ctx) c))"
    and "type_of G (emission_Value right) =
      Some (Plain (carrier_type (ctx_IntegerRepresentation ctx) (if operator \<in> {SHL, SHR} then d else c)))"
  shows "emission_Before e = [] \<and>
    type_of G (emission_Value e) = Some (Plain (operator_type (ctx_IntegerRepresentation ctx) c operator))"
proof -
  note ok = Describe_ok [OF assms(1)]
  show ?thesis
  proof (cases "runtimeOperation (ctx_IntegerRepresentation ctx) c operator")
    case (Some symbol)
    obtain result where r: "callRuntime ctx symbol left right = Inr result" "normalizeExactResult ctx operator c result = Inr e"
      using assms(3) Some by (auto simp: Apply_def split: sum.split_asm)
    have op: "operator \<in> {QUO, REM}"
      using Some by (auto simp: runtimeOperation_def split: option.split_asm IntegerCarrier.split_asm if_split_asm)
    then have right: "type_of G (emission_Value right) = Some (Plain (carrier_type (ctx_IntegerRepresentation ctx) c))"
      using assms(5) by auto
    note call = typed_runtime_call [OF Some ok r(1) assms(4) right]
    show ?thesis
      by (rule typed_exact_result [OF ok r(2) call(1)]) (use call(3) op in \<open>auto simp: operator_type_def isComparison_def\<close>)
  next
    case None
    let ?count = "if operator = SHL \<or> operator = SHR then alignShiftCount ctx c d (emission_Value right)
      else Some (emission_Value right)"
    obtain r target where r: "?count = Some r" "target_expression ctx operator c (emission_Value left) r = Some target"
      "normalizeExactResult ctx operator c
         (DirectExpression target (CombineRequests [emission_Requests left, emission_Requests right])) = Inr e"
      using assms(3) None by (auto simp: Apply_def Let_def split: option.split_asm sum.split_asm if_split_asm)
    have "type_of G r = Some (Plain (carrier_type (ctx_IntegerRepresentation ctx) c))"
      using r(1) assms(5) typed_count [OF ok assms(2)] by (auto split: if_split_asm)
    from typed_binary_target [OF assms(1) r(2) assms(4) this] show ?thesis
      by (intro typed_exact_result [OF ok r(3)]) simp_all
  qed
qed

subsection \<open>Variable shifts\<close>

lemma typed_wide_result:
  assumes "type_of G left = Some (Plain T)" "zero = (if T = BigIntKeyword then BigIntLiteral ''0n'' else NumericLiteral ''0'')"
    and "T \<in> {NumberKeyword, BigIntKeyword}"
  shows "type_of G (wideShiftResult operator s left zero) = Some (Plain T)"
  using assms literal_types(2) [of "''0''" G] literal_types(2) [of "''1''" G] by (auto simp: wideShiftResult_def)

lemma typed_variable_shift:
  assumes "Describe (ctx_TypesSizes ctx) t = Some c" "Describe (ctx_TypesSizes ctx) u = Some d"
    and "variable_shift ctx panicName operator c d left right zero s = Inr (e, q)"
    and "type_of G left = Some (Plain (carrier_type (ctx_IntegerRepresentation ctx) c))"
    and "type_of G right = Some (Plain (carrier_type (ctx_IntegerRepresentation ctx) d))"
    and "G panicName = Some PanicClassType"
    and "zero = (if carrier_type (ctx_IntegerRepresentation ctx) c = BigIntKeyword then BigIntLiteral ''0n'' else NumericLiteral ''0'')"
    and "carrier_type (ctx_IntegerRepresentation ctx) c = BigIntKeyword \<Longrightarrow> s"
  shows "type_of G e = Some (Plain (carrier_type (ctx_IntegerRepresentation ctx) c))"
proof -
  note ok = Describe_ok [OF assms(1)] Describe_ok [OF assms(2)]
  let ?t = "carrier_type (ctx_IntegerRepresentation ctx) c"
  let ?d = "carrier_type (ctx_IntegerRepresentation ctx) d"
  obtain z w r n m where parts: "CarrierLiteral ctx d ''0'' = Inr z" "CarrierLiteral ctx d (itoa (carrier_width c)) = Inr w"
    "alignShiftCount ctx c d right = Some r" "NormalizeFixedWidth ctx c left = Inr n"
    "NormalizeFixedWidth ctx c (BinaryExpression (emission_Value n) (shiftOperator operator s) r) = Inr m"
    "e = guardedShift panicName right z w (wideShiftResult operator (carrier_signed c) (emission_Value n) zero) (emission_Value m)"
    using assms(3) by (auto simp: variable_shift_def split: sum.split_asm option.split_asm)
  have z: "type_of G z = Some (Plain ?d)" by (rule typed_literal_type [OF assms(2) parts(1)]) simp
  have w: "type_of G w = Some (Plain ?d)" by (rule typed_literal_type [OF assms(2) parts(2)]) simp
  have r: "type_of G r = Some (Plain ?t)" by (rule typed_count [OF ok parts(3) assms(5)])
  have n: "type_of G (emission_Value n) = Some (Plain ?t)" using typed_normalization [OF ok(1) assms(4) parts(4)] by simp
  have t: "?t \<in> {NumberKeyword, BigIntKeyword}" "?d \<in> {NumberKeyword, BigIntKeyword}" by (simp_all add: carrier_type_def)
  have "type_of G (BinaryExpression (emission_Value n) (shiftOperator operator s) r) = Some (Plain ?t)"
    using n r t(1) assms(8) by (auto simp: shiftOperator.simps)
  then have m: "type_of G (emission_Value m) = Some (Plain ?t)" using typed_normalization [OF ok(1) _ parts(5)] by simp
  have wide: "type_of G (wideShiftResult operator (carrier_signed c) (emission_Value n) zero) = Some (Plain ?t)"
    by (rule typed_wide_result [OF n assms(7) t(1)])
  have less: "binary_type op ?d ?d = Some BooleanKeyword" if "op \<in> {LessThanToken, GreaterThanEqualsToken}" for op
    using t(2) that by auto
  show ?thesis
    using parts(6) z w m wide less assms(5,6) by (simp add: guardedShift_def panic_Call_def staticCall_def)
qed

end
context typed_target
begin

lemma typed_shift:
  assumes "Describe (ctx_TypesSizes ctx) t = Some c" "Describe (ctx_TypesSizes ctx) u = Some d"
    and "ApplyVariableShift ctx operator c d left right = Inr (Some e)"
    and "type_of G (emission_Value left) = Some (Plain (carrier_type (ctx_IntegerRepresentation ctx) c))"
    and "type_of G (emission_Value right) = Some (Plain (carrier_type (ctx_IntegerRepresentation ctx) d))"
  shows "emission_Before e = [] \<and>
    type_of G (emission_Value e) = Some (Plain (operator_type (ctx_IntegerRepresentation ctx) c operator))"
proof -
  have op: "\<not> isComparison operator"
    using assms(3) by (auto simp: ApplyVariableShift_def SupportsVariableShift_def isComparison_def split: if_split_asm)
  obtain ref where ref: "ctx_Runtime ctx RuntimePanic ImportPhaseValue = Inr ref"
    using assms(3) by (auto simp: ApplyVariableShift_def split: sum.split_asm if_split_asm)
  have panic: "G (ref_name ref) = Some PanicClassType" using typed_runtime [OF signatures(1) ref] by blast
  define zero where "zero = (if carrier_type (ctx_IntegerRepresentation ctx) c = BigIntKeyword then BigIntLiteral ''0n'' else NumericLiteral ''0'')"
  define s where "s = (carrier_type (ctx_IntegerRepresentation ctx) c = BigIntKeyword \<or> carrier_signed c)"
  obtain v q where v: "variable_shift ctx (ref_name ref) operator c d (emission_Value left) (emission_Value right) zero s = Inr (v, q)"
    "emission_Before e = []" "emission_Value e = v"
    using assms(3) ref
    by (cases rule: typed_representation [OF Describe_ok [OF assms(1)]])
      (auto simp: ApplyVariableShift_def numberVariableShift_def bigIntVariableShift_def zero_def s_def Let_def
        split: if_split_asm sum.split_asm)
  have "type_of G v = Some (Plain (carrier_type (ctx_IntegerRepresentation ctx) c))"
    by (rule typed_variable_shift [OF assms(1,2) v(1) assms(4,5) panic]) (auto simp: zero_def s_def)
  then show ?thesis using v(2,3) op by (simp add: operator_type_def)
qed

subsection \<open>Unary operators\<close>

lemma typed_complement:
  assumes "Describe (ctx_TypesSizes ctx) t = Some c" "normalizeComplement ctx c e = Inr n"
    and "type_of G e = Some (Plain (carrier_type (ctx_IntegerRepresentation ctx) c))"
  shows "type_of G (emission_Value n) = Some (Plain (carrier_type (ctx_IntegerRepresentation ctx) c))"
proof -
  note ok = Describe_ok [OF assms(1)]
  have literal: "type_of G z = Some (Plain (carrier_type (ctx_IntegerRepresentation ctx) c))"
    if "CarrierLiteral ctx c d = Inr z" "digits d" for z d
    by (rule typed_literal_type [OF assms(1) that])
  have mask: "digits m" if "UnsignedMask c = Some m" for m
    using that by (auto simp: UnsignedMask_def split: if_split_asm)
  show ?thesis
  proof (cases rule: typed_representation [OF ok])
    case 1
    then show ?thesis
      using assms(2,3) typed_normalization [OF ok assms(3)] literal mask
      by (auto simp: normalizeComplement_def split: if_split_asm sum.split_asm option.split_asm)
  next
    case 2
    then show ?thesis
      using assms(2,3) typed_normalization [OF ok assms(3)] exact_iff [OF ok typed_profile]
      by (auto simp: normalizeComplement_def)
  qed
qed

lemma typed_unary:
  assumes "Describe (ctx_TypesSizes ctx) (Some t) = Some c" "unary_Apply ctx operator t operand = Inr (Some e)"
    and "type_of G (emission_Value operand) = Some (Plain (carrier_type (ctx_IntegerRepresentation ctx) c))"
  shows "emission_Before e = emission_Before operand \<and>
    type_of G (emission_Value e) = Some (Plain (carrier_type (ctx_IntegerRepresentation ctx) c))"
proof -
  note ok = Describe_ok [OF assms(1)]
  let ?t = "carrier_type (ctx_IntegerRepresentation ctx) c"
  have i: "integerOperation ctx operator c operand = Inr (Some e)"
    using assms(1,2) by (simp add: unary_Apply_def Describe_not_complex [OF assms(1)])
  then have "SupportsUnary (ctx_IntegerRepresentation ctx) c operator" by (auto simp: integerOperation_def split: if_split_asm)
  then consider (add) "operator = ADD" | (sub) "operator = SUB" | (xor) "operator = XOR_token"
    by (auto simp: SupportsUnary_def)
  then show ?thesis
  proof cases
    case add
    then show ?thesis
      using i assms(3) by (cases rule: typed_representation [OF ok]) (auto simp: integerOperation_def UsesBigInt_def split: if_split_asm)
  next
    case sub
    have minus: "type_of G (PrefixUnaryExpression MinusPrefix (emission_Value operand)) = Some (Plain ?t)"
      using assms(3) by (simp add: carrier_type_def)
    show ?thesis
      using i sub minus typed_normalization [OF ok minus]
      by (auto simp: integerOperation_def Let_def split: if_split_asm sum.split_asm)
  next
    case xor
    have "type_of G (PrefixUnaryExpression TildePrefix (emission_Value operand)) = Some (Plain ?t)"
      using assms(3) by (simp add: carrier_type_def)
    from typed_complement [OF assms(1) _ this] show ?thesis
      using i xor by (auto simp: integerOperation_def Let_def split: if_split_asm sum.split_asm)
  qed
qed

subsection \<open>Conversions and constants\<close>

lemma typed_wrap:
  assumes "conversion_normalizeBigInt c e = Inr n" "type_of G e = Some (Plain BigIntKeyword)"
  shows "type_of G n = Some (Plain BigIntKeyword)"
proof -
  obtain width where w: "integerWidth c = Inr width"
    "n = propertyCall ''BigInt'' (if carrier_signed c then ''asIntN'' else ''asUintN'') [NumericLiteral width, e]"
    using assms(1) by (cases "integerWidth c") (auto simp: conversion_normalizeBigInt_def)
  have "digits width" using w(1) by (auto simp: integerWidth_def digits_def is_digit_def split: if_split_asm)
  then show ?thesis
    using assms(2) w(2) typed_globals by (simp add: propertyCall_def intrinsic_type_def)
qed

lemma typed_to_bigint:
  assumes "numberToBigInt ctx e requests = Inr (n, requests')" "type_of G e = Some (Plain NumberKeyword)"
  shows "type_of G n = Some (Plain BigIntKeyword)"
proof -
  obtain ref where "ctx_Runtime ctx RuntimeNumberToBigInt ImportPhaseValue = Inr ref" "n = globalCall (ref_name ref) e"
    using assms(1) by (auto simp: numberToBigInt_def split: sum.split_asm)
  then show ?thesis using typed_runtime [OF signatures(2)] assms(2) by (simp add: globalCall_def)
qed

lemma typed_to_number:
  "type_of G e = Some (Plain BigIntKeyword) \<Longrightarrow> type_of G (number_call e) = Some (Plain NumberKeyword)"
  by (simp add: number_call_def intrinsic_type_def numeric_type_def)

end
definition abi_type :: "ScalarABI \<Rightarrow> Carrier \<Rightarrow> ts_type" where
  "abi_type abi c = (if ScalarABI_Carrier abi (carrier_alias c) = Inr IntegerCarrierBigInt then BigIntKeyword else NumberKeyword)"

text \<open>The type of a source value: a floating-point number is a \<open>number\<close>.\<close>

definition source_type :: "nat option \<Rightarrow> ScalarABI \<Rightarrow> go_type \<Rightarrow> ts_type" where
  "source_type sizes abi t = (case Describe sizes (Some t) of Some c \<Rightarrow> abi_type abi c | None \<Rightarrow> NumberKeyword)"

lemma carrier_of_valid: "ScalarABI_Carrier abi alias = Inr x \<Longrightarrow> x \<in> {IntegerCarrierNumber, IntegerCarrierBigInt}"
  by (auto simp: ScalarABI_Carrier_def IntegerCarrierRepresentation_def split: if_split_asm)

context typed_target
begin

lemma typed_convert_value:
  assumes "convert_value ctx targetABI integer float s r c e requests = Inr (n, requests')"
    and "integer \<and> \<not> float \<and> s \<in> {IntegerCarrierNumber, IntegerCarrierBigInt} \<or> \<not> integer \<and> float \<and> s = IntegerCarrierInvalid"
    and "type_of G e = Some (Plain (if s = IntegerCarrierBigInt then BigIntKeyword else NumberKeyword))"
  shows "type_of G n = Some (Plain (if r = IntegerCarrierBigInt then BigIntKeyword else NumberKeyword))"
proof (cases r)
  case IntegerCarrierInvalid
  then show ?thesis using assms(1) by (simp add: convert_value_def)
next
  case IntegerCarrierNumber
  consider (big) "s = IntegerCarrierBigInt" | (small) "s \<noteq> IntegerCarrierBigInt" "carrier_width c \<le> 32"
    | (wide) "s \<noteq> IntegerCarrierBigInt" "32 < carrier_width c" by linarith
  then show ?thesis
  proof cases
    case big
    then obtain m where "conversion_normalizeBigInt c e = Inr m" "n = number_call m"
      using assms(1,2) IntegerCarrierNumber by (auto simp: convert_value_def)
    then show ?thesis using typed_wrap typed_to_number assms(3) big IntegerCarrierNumber by simp
  next
    case small
    have "type_of G (mathCall ''trunc'' e) = Some (Plain NumberKeyword)"
      using assms(3) small typed_globals by (simp add: mathCall_def propertyCall_def intrinsic_type_def)
    then show ?thesis
      using assms(1,3) small IntegerCarrierNumber NormalizeNumber_type by (auto simp: convert_value_def split: if_split_asm)
  next
    case wide
    then have "normalizeNumber64 ctx c e requests = Inr (n, requests')"
      using assms(1) IntegerCarrierNumber by (simp add: convert_value_def)
    then obtain b q m where "numberToBigInt ctx e requests = Inr (b, q)" "conversion_normalizeBigInt c b = Inr m" "n = number_call m"
      by (auto simp: normalizeNumber64_def split: sum.split_asm)
    then show ?thesis using typed_wrap typed_to_number typed_to_bigint assms(3) wide IntegerCarrierNumber by simp
  qed
next
  case IntegerCarrierBigInt
  then obtain b q where b: "(if float \<or> s = IntegerCarrierNumber then numberToBigInt ctx e requests else Inr (e, requests)) = Inr (b, q)"
    "conversion_normalizeBigInt c b = Inr n"
    using assms(1) by (auto simp: convert_value_def split: sum.split_asm)
  have "type_of G b = Some (Plain BigIntKeyword)"
    using b(1) assms(2,3) typed_to_bigint by (auto split: if_split_asm)
  then show ?thesis using typed_wrap [OF b(2)] IntegerCarrierBigInt by simp
qed

lemma typed_conversion:
  assumes "Describe (ctx_TypesSizes ctx) (Some targetType) = Some c"
    and "Convert ctx sourceABI targetABI sourceType targetType operand = Inr e"
    and "type_of G (emission_Value operand) = Some (Plain (source_type (ctx_TypesSizes ctx) sourceABI sourceType))"
  shows "emission_Before e = emission_Before operand \<and> type_of G (emission_Value e) = Some (Plain (abi_type targetABI c))"
proof -
  obtain r where r: "ScalarABI_Carrier targetABI (carrier_alias c) = Inr r"
    using assms(1,2) by (auto simp: Convert_def Let_def split: sum.split_asm if_split_asm)
  have rt: "abi_type targetABI c = (if r = IntegerCarrierBigInt then BigIntKeyword else NumberKeyword)"
    by (simp add: abi_type_def r)
  show ?thesis
  proof (cases "Describe (ctx_TypesSizes ctx) (Some sourceType)")
    case None
    then have float: "float_Describe sourceType \<noteq> None"
      using assms(1,2) by (auto simp: Convert_def split: if_split_asm)
    obtain n q where n: "convert_value ctx targetABI False True IntegerCarrierInvalid r c (emission_Value operand)
        (emission_Requests operand) = Inr (n, q)" "emission_Before e = emission_Before operand" "emission_Value e = n"
      using assms(1,2) None r float by (auto simp: Convert_def split: sum.split_asm)
    have "type_of G n = Some (Plain (if r = IntegerCarrierBigInt then BigIntKeyword else NumberKeyword))"
      by (rule typed_convert_value [OF n(1)]) (use assms(3) None in \<open>simp_all add: source_type_def\<close>)
    then show ?thesis using n rt by simp
  next
    case (Some d)
    obtain s where s: "ScalarABI_Carrier sourceABI (carrier_alias d) = Inr s"
      using assms(1,2) Some r by (auto simp: Convert_def Let_def split: sum.split_asm)
    have st: "type_of G (emission_Value operand) = Some (Plain (if s = IntegerCarrierBigInt then BigIntKeyword else NumberKeyword))"
      using assms(3) by (simp add: source_type_def Some abi_type_def s)
    show ?thesis
    proof (cases "s = r \<and> CanConvertDirectly d c")
      case True
      then have "e = operand" using assms(1,2) Some r s by (simp add: Convert_def)
      then show ?thesis using st rt True by simp
    next
      case False
      obtain n q where n: "convert_value ctx targetABI True False s r c (emission_Value operand)
          (emission_Requests operand) = Inr (n, q)" "emission_Before e = emission_Before operand" "emission_Value e = n"
        using assms(1,2) Some r s False integer_not_float [OF Some] by (auto simp: Convert_def split: sum.split_asm)
      have "type_of G n = Some (Plain (if r = IntegerCarrierBigInt then BigIntKeyword else NumberKeyword))"
        by (rule typed_convert_value [OF n(1) _ st]) (use carrier_of_valid [OF s] in simp)
      then show ?thesis using n rt by simp
    qed
  qed
qed

lemma typed_constant:
  assumes "Describe (ctx_TypesSizes ctx) t = Some c" "EmitConstant ctx t v = Inr e"
  shows "emission_Before e = [] \<and>
    type_of G (emission_Value e) = Some (Plain (carrier_type (ctx_IntegerRepresentation ctx) c))"
proof -
  obtain m negative l where m: "FormatConstant (ctx_IntegerRepresentation ctx) c v = Some (m, negative)"
    "CarrierLiteral ctx c m = Inr l"
    "e = DirectExpression (if negative then PrefixUnaryExpression MinusPrefix l else l) []"
    using assms by (auto simp: EmitConstant_def split: option.split_asm sum.split_asm)
  have "digits m"
    using m(1)
    by (auto simp: FormatConstant_def FormatInt_def formatInt_def Let_def
        split: option.split_asm constant_value.split_asm if_split_asm prod.split_asm)
  from typed_literal_type [OF assms(1) m(2) this] show ?thesis
    using m(3) by (auto simp: carrier_type_def)
qed

end
subsection \<open>The generated program\<close>

text \<open>The types of the names in \<open>module_env\<close>.\<close>

definition program_types :: type_env where
  "program_types = module_types ''GoPanic'' ++
     map_of (List.map (\<lambda>f. (fst (function_binding f), declared_type f)) (integer_module @ conversion_module))"

lemma program_types_simps [simp]:
  "program_types ''globalThis'' = Some (GlobalObject [])"
  "program_types ''Math'' = Some (GlobalObject [''Math''])"
  "program_types ''BigInt'' = Some (GlobalObject [''BigInt''])"
  "program_types ''GoPanic'' = Some PanicClassType"
  by (simp_all add: program_types_def module_types_def integer_module_eq conversion_module_eq map_add_def)

lemma program_functions [simp]:
  "program_types ''goInt64'' = Some (FunctionType [BigIntKeyword] BigIntKeyword)"
  "program_types ''goUint64'' = Some (FunctionType [BigIntKeyword] BigIntKeyword)"
  "program_types ''goIntegerDivide'' = Some (FunctionType [BigIntKeyword, BigIntKeyword] BigIntKeyword)"
  "program_types ''goIntegerRemainder'' = Some (FunctionType [BigIntKeyword, BigIntKeyword] BigIntKeyword)"
  "program_types ''goIntegerMax'' = Some (FunctionType [BigIntKeyword, BigIntKeyword] BigIntKeyword)"
  "program_types ''goIntegerMin'' = Some (FunctionType [BigIntKeyword, BigIntKeyword] BigIntKeyword)"
  "program_types ''goNumberIntegerDivide'' = Some (FunctionType [NumberKeyword, NumberKeyword] NumberKeyword)"
  "program_types ''goNumberIntegerRemainder'' = Some (FunctionType [NumberKeyword, NumberKeyword] NumberKeyword)"
  "program_types ''goNumberToBigInt'' = Some (FunctionType [NumberKeyword] BigIntKeyword)"
  by (simp_all add: program_types_def module_types_def integer_module_eq conversion_module_eq runtime_evaluation)

lemma ordered_signatures:
  "runtime_signature RuntimeIntegerMax = Some (FunctionType [BigIntKeyword, BigIntKeyword] BigIntKeyword)"
  "runtime_signature RuntimeIntegerMin = Some (FunctionType [BigIntKeyword, BigIntKeyword] BigIntKeyword)"
  by (simp_all add: runtime_signature_def integer_declaration_def runtime_ordering_def runtime_evaluation)

lemma signature_symbols:
  "runtime_signature symbol = Some s \<Longrightarrow> symbol \<in> set integer_symbols \<union> {RuntimePanic, RuntimeNumberToBigInt}"
  by (auto simp: runtime_signature_def integer_declaration_def integer_symbols_def split: if_split_asm)

lemma program_names:
  assumes "runtime_signature symbol = Some s" "RuntimeContract symbol = Inr contract"
  shows "program_types (contract_exportedName contract) = Some s"
  using signature_symbols [OF assms(1)] assms
  by (auto simp: integer_symbols_def integer_contracts signatures ordered_signatures)

lemma program_typed:
  assumes "NewScalarABIFromSizes r sizes = Inr abi"
  shows "typed_target (module_context r sizes role) program_types"
proof (unfold_locales, goal_cases)
  case 1
  show ?case using assms by (simp add: module_context_def)
next
  case (5 symbol s ref)
  then obtain contract where c: "RuntimeContract symbol = Inr contract"
    "NewNameReference (contract_exportedName contract) [()] = Inr ref"
    by (auto simp: module_context_def split: sum.split_asm)
  then show ?case using program_names [OF 5(1) c(1)] by (auto simp: NewNameReference_def split: if_split_asm)
qed simp_all

interpretation program: typed_target "module_context IntegerRepresentationBigInt (Some 8) role" program_types
  by (rule program_typed [OF canonical_abi])

lemma target_callers: "target_caller (call_global host)" "target_caller (call_target globals host)"
  by (simp_all add: target_caller_def)

lemma module_scope_typed: "env_typed (call_global host) (module_types ''GoPanic'') (map_of module_scope)"
  by (auto simp: env_typed_def module_types_def module_scope_def)

lemma module_names_distinct:
  "distinct (List.map fst (module_scope @ List.map function_binding (integer_module @ conversion_module)))"
  by (simp add: module_scope_def integer_module_eq conversion_module_eq)

lemma program_environment: "env_typed (call_target (map_of module_scope) host) program_types module_env"
proof -
  let ?call = "call_target (map_of module_scope) host"
  have p: "panic_import ''GoPanic''" by (simp add: panic_import_def)
  have f: "denotes ?call (JFunction f) s" if "function_type (module_types ''GoPanic'') f = Some s" for f s
    by (rule function_typed [OF target_callers(1) module_scope_typed that]) simp
  note checked = declarations_check [OF p]
  have entry: "\<exists>v. module_env x = Some v \<and> denotes ?call v s" if x: "program_types x = Some s" for x s
  proof (cases "x \<in> {''globalThis'', ''Math'', ''BigInt'', ''GoPanic''}")
    case True
    then show ?thesis using x by auto
  next
    case False
    then have "map_of (List.map (\<lambda>f. (fst (function_binding f), declared_type f)) (integer_module @ conversion_module)) x = Some s"
      using x by (auto simp: program_types_def module_types_def map_add_def split: option.split_asm)
    then have "(x, s) \<in> (\<lambda>f. (fst (function_binding f), declared_type f)) ` set (integer_module @ conversion_module)"
      by (metis list.set_map map_of_SomeD)
    then obtain g where g: "g \<in> set (integer_module @ conversion_module)" "x = fst (function_binding g)" "s = declared_type g" by auto
    then have "function_type (module_types ''GoPanic'') g = Some s"
      using checked by (auto simp: integer_module_eq conversion_module_eq)
    moreover have "module_env x = Some (JFunction g)"
    proof -
      have "(x, JFunction g) = function_binding g" using g(2) by (cases g) simp
      then have "(x, JFunction g) \<in> set (module_scope @ List.map function_binding (integer_module @ conversion_module))"
        using g(1) by auto
      then show ?thesis unfolding module_env_def by (rule map_of_is_SomeI [OF module_names_distinct])
    qed
    ultimately show ?thesis using f by blast
  qed
  then show ?thesis by (simp add: env_typed_def)
qed
subsection \<open>Operands and statements\<close>

lemma check_append: "check G result (xs @ ys) = Option.bind (check G result xs) (\<lambda>H. check H result ys)"
proof (induction xs arbitrary: G)
  case (Cons s xs)
  then show ?case by (cases s) (auto simp del: fun_upd_apply split: bind_splits)
qed simp

text \<open>The types of two operands; \<open>H\<close> is the environment of their values, after the statements of a stored pair.\<close>

definition operands_typed ::
    "type_env \<Rightarrow> 'q ExpressionEmission \<Rightarrow> 'q ExpressionEmission \<Rightarrow> string \<Rightarrow> string \<Rightarrow> ts_type \<Rightarrow> ts_type \<Rightarrow> type_env \<Rightarrow> bool" where
  "operands_typed G left right t1 t2 a b H \<longleftrightarrow>
     G \<subseteq>\<^sub>m H \<and>
     (if captures [Present left, Present right] then
        \<exists>G1 G2. check G None (emission_Before left) = Some G1 \<and> type_of G1 (emission_Value left) = Some (Plain a) \<and>
          check (G1(t1 \<mapsto> Plain a)) None (emission_Before right) = Some G2 \<and>
          type_of G2 (emission_Value right) = Some (Plain b) \<and>
          G2 t1 = Some (Plain a) \<and> t1 \<noteq> t2 \<and> H = G2(t2 \<mapsto> Plain b)
      else
        H = G \<and> type_of G (emission_Value left) = Some (Plain a) \<and> type_of G (emission_Value right) = Some (Plain b))"

lemma typed_target_extended:
  assumes "typed_target ctx G" "G \<subseteq>\<^sub>m H"
  shows "typed_target ctx H"
proof -
  have keep: "G x = Some s \<Longrightarrow> H x = Some s" for x s using assms(2) by (metis domI map_le_def)
  show ?thesis using assms(1) keep unfolding typed_target_def by meson
qed

lemma typed_pair:
  assumes "operands_typed G left right t1 t2 a b H" "temporary n = (Inr t1, n1)" "temporary n1 = (Inr t2, n2)"
    and "PreservePair temporary left right n = (Inr pair, n3)"
  shows "check G None (seq_before (pair_sequence pair)) = Some H"
    "type_of H (emission_Value (pair_left pair)) = Some (Plain a)"
    "type_of H (emission_Value (pair_right pair)) = Some (Plain b)"
  using assms
  by (cases "captures [Present left, Present right]";
      auto simp: PreservePair_def Preserve_def operands_typed_def check_append Let_def)+

lemma typed_emission_runs:
  assumes "target_caller call" "env_typed call G env"
    and "check G None (emission_Before e) = Some H" "type_of H (emission_Value e) = Some s"
  shows "delivers call (fst (run_emission call env e w)) s"
proof -
  obtain r w' where r: "exec call env (emission_Before e) w = (r, w')" by fastforce
  have "case r of Inl x \<Rightarrow> benign x | Inr (Normal env') \<Rightarrow> env_typed call H env' | Inr (Returned v) \<Rightarrow> False"
    using check_typed [OF assms(1,3,2), of w] r by (auto split: sum.splits completion.splits)
  then show ?thesis
    using r eval_typed(1) [OF assms(1,4)]
    by (cases r) (auto simp: run_emission_def delivers_def [of _ "Inl _"] split: completion.splits)
qed

subsection \<open>Properties\<close>

text \<open>C39: The integer operators compile to well-typed code in every profile: where the operands have the types of their carriers, the statements of the emission check, and its value has the type of the carrier of the result, or \<open>boolean\<close> for a comparison. In particular a \<open>number\<close> is never combined with a \<open>bigint\<close>, and a \<open>bigint\<close> is never shifted with \<open>>>>\<close>. Run in a typed environment, the emission gives a value of that type, or ends with a Go panic or a range error.\<close>

theorem binary_expressions_typed:
  fixes ctx :: "'q emit_context"
  assumes "typed_target ctx G"
    and "operationTypes facts (ctx_IntegerRepresentation ctx) (ctx_TypesSizes ctx) source = Some (lt, rt, c)"
    and "children ''RoleBinaryLeft'' lt n = (Inr left, n1)" "children ''RoleBinaryRight'' rt n1 = (Inr counted, n2)"
    and "projectDefinedShiftCount facts names (ctx_TypesSizes ctx) source counted = Inr right"
    and "temporary n2 = (Inr t1, n3)" "temporary n3 = (Inr t2, n4)"
    and "(if source_Op source = SHL \<or> source_Op source = SHR
          then shiftCountCarrier facts (ctx_TypesSizes ctx) rt else Some c) = Some rc"
    and "operands_typed G left right t1 t2 (carrier_type (ctx_IntegerRepresentation ctx) c)
      (carrier_type (ctx_IntegerRepresentation ctx) rc) H"
    and "binary_Emit facts names temporary children ctx source n = (Inr (Some e), n')"
    and "target_caller call" "env_typed call G env"
  shows "check G None (emission_Before e) = Some H \<and>
    type_of H (emission_Value e) = Some (Plain (operator_type (ctx_IntegerRepresentation ctx) c (source_Op source))) \<and>
    delivers call (fst (run_emission call env e w))
      (Plain (operator_type (ctx_IntegerRepresentation ctx) c (source_Op source)))"
proof -
  let ?T = "operator_type (ctx_IntegerRepresentation ctx) c (source_Op source)"
  have H: "typed_target ctx H"
    using typed_target_extended [OF assms(1)] assms(9) by (simp add: operands_typed_def)
  obtain t u where t: "Describe (ctx_TypesSizes ctx) t = Some c" "Describe (ctx_TypesSizes ctx) u = Some rc"
    using operationTypes_carrier [OF assms(2)] shiftCountCarrier_described assms(8)
    by (metis option.inject)
  let ?apply = "\<lambda>pair. if variable_count source
    then ApplyVariableShift ctx (source_Op source) c rc (pair_left pair) (pair_right pair)
    else Apply ctx (source_Op source) c rc (pair_left pair) (pair_right pair)"
  obtain pair n5 target where p: "PreservePair temporary left right n2 = (Inr pair, n5)" "?apply pair = Inr (Some target)"
    "Finish pair target = Inr e"
    using assms(10) assms(2-5,8)
    by (auto simp: binary_Emit_def split: prod.split_asm sum.split_asm option.split_asm if_split_asm)
  note pair = typed_pair [OF assms(9,6,7) p(1)]
  have target: "emission_Before target = [] \<and> type_of H (emission_Value target) = Some (Plain ?T)"
  proof (cases "variable_count source")
    case True
    then show ?thesis using typed_target.typed_shift [OF H t _ pair(2,3)] p(2) by simp
  next
    case False
    have "rc = (if source_Op source \<in> {SHL, SHR} then rc else c)" using assms(8) by (auto split: if_split_asm)
    then show ?thesis
      using typed_target.typed_operation [OF H t(1) Describe_ok [OF t(2)] _ pair(2)] pair(3) p(2) False by simp
  qed
  then have e: "check G None (emission_Before e) = Some H" "type_of H (emission_Value e) = Some (Plain ?T)"
    using p(3) pair(1) by (auto simp: Finish_def)
  then show ?thesis using typed_emission_runs [OF assms(11,12)] by blast
qed
text \<open>
  The sum of \<open>demo_variable\<close> and \<open>100\<close> at type \<open>int8\<close>: the operands are stored, and the sum is normalized.
\<close>

lemma demo_operands_typed:
  "operands_typed program_types demo_variable demo_operand ''left'' ''right'' NumberKeyword NumberKeyword
     (program_types(''x'' \<mapsto> Plain NumberKeyword, ''left'' \<mapsto> Plain NumberKeyword, ''right'' \<mapsto> Plain NumberKeyword))"
proof -
  have hundred: "type_of G (NumericLiteral ''100'') = Some (Plain NumberKeyword)" for G
    by (simp add: digits_def is_digit_def)
  have new: "program_types ''x'' = None" "program_types ''left'' = None" "program_types ''right'' = None"
    by (simp_all add: program_types_def module_types_def integer_module_eq conversion_module_eq)
  show ?thesis
    unfolding operands_typed_def
    by (auto simp: demo_variable_def demo_operand_def captures_def hundred map_le_def new
        intro!: exI [of _ "program_types(''x'' \<mapsto> Plain NumberKeyword)"])
qed

lemma binary_expressions_typed_witness:
  "\<exists>e n'. binary_Emit demo_facts demo_names demo_temporary (demo_children demo_variable demo_operand)
       (module_context IntegerRepresentationBigInt (Some 8) ''root'') (demo_source ADD None) 0 = (Inr (Some e), n') \<and>
     check program_types None (emission_Before e) =
       Some (program_types(''x'' \<mapsto> Plain NumberKeyword, ''left'' \<mapsto> Plain NumberKeyword, ''right'' \<mapsto> Plain NumberKeyword)) \<and>
     delivers (call_target (map_of module_scope) demo_host)
       (fst (run_emission (call_target (map_of module_scope) demo_host) module_env e ())) (Plain NumberKeyword)"
proof -
  let ?emit = "binary_Emit demo_facts demo_names demo_temporary (demo_children demo_variable demo_operand)
       (module_context IntegerRepresentationBigInt (Some 8) ''root'') (demo_source ADD None) 0"
  have source: "source_Op (demo_source ADD None) = ADD" by (simp add: demo_source_def)
  obtain e n' where e: "?emit = (Inr (Some e), n')"
    by (simp add: binary_Emit_def demo_types source demo_children_def demo_temporary_def projectDefinedShiftCount_def
        module_context_simps PreservePair_def Preserve_def demo_variable_def demo_operand_def captures_def variable_count_def
        Apply_def runtimeOperation_def demo_int8_number target_expression_def normalizeExactResult_def
        NormalizeFixedWidth_def Finish_def needsUint32Normalization_def RequiresUint32Normalization_def demo_int8_fields
        demo_int8_exact alreadyNormalizedNumberResult_def isComparison_def Let_def)
  have t: "carrier_type IntegerRepresentationBigInt demo_int8 = NumberKeyword"
    by (simp add: carrier_type_def demo_int8_number)
  have parts:
    "demo_children demo_variable demo_operand ''RoleBinaryLeft'' (Some (BasicType kindInt8)) 0 = (Inr demo_variable, 0)"
    "demo_children demo_variable demo_operand ''RoleBinaryRight'' (Some (BasicType kindInt8)) 0 = (Inr demo_operand, 0)"
    "projectDefinedShiftCount demo_facts demo_names (Some 8) (demo_source ADD None) demo_operand = Inr demo_operand"
    "demo_temporary 0 = (Inr ''left'', Suc 0)" "demo_temporary (Suc 0) = (Inr ''right'', Suc (Suc 0))"
    "(if source_Op (demo_source ADD None) = SHL \<or> source_Op (demo_source ADD None) = SHR
      then shiftCountCarrier demo_facts (Some 8) (Some (BasicType kindInt8)) else Some demo_int8) = Some demo_int8"
    by (simp_all add: demo_children_def demo_temporary_def projectDefinedShiftCount_def source)
  have "operator_type IntegerRepresentationBigInt demo_int8 (source_Op (demo_source ADD None)) = NumberKeyword"
    by (simp add: operator_type_def isComparison_def source t)
  with binary_expressions_typed [OF program.typed_target_axioms [of "''root''"], unfolded module_context_simps,
      OF demo_types(1) parts demo_operands_typed [folded t] e target_callers(2) program_environment, of demo_host "()"]
  show ?thesis using e t by auto
qed

text \<open>C40: The functions that the runtime builder emits check against the signatures of their symbols, in any module that imports the panic class under a name of its own. Called with arguments of their parameter types, they return a value of their result type, or end with a Go panic or a range error, and never with a type or reference error.\<close>

theorem runtime_functions_typed:
  assumes "integer_Build symbols panicName = Inr fs" "panic_import panicName" "i < length fs"
    and "target_caller call" "env_typed call (module_types panicName) env"
  shows "length fs = length symbols \<and>
    function_type (module_types panicName) (fs ! i) = runtime_signature (symbols ! i) \<and>
    (\<exists>parameters result. runtime_signature (symbols ! i) = Some (FunctionType parameters result) \<and>
      (\<forall>arguments w. list_all2 has_type arguments parameters \<longrightarrow>
        (case fst (run_function call env (fs ! i) arguments w) of Inl e \<Rightarrow> benign e | Inr v \<Rightarrow> has_type v result)))"
proof -
  have "build_symbols panicName [] symbols [] = Inr fs" using assms(1) by (auto simp: integer_Build_def split: if_split_asm)
  from build_symbols_check [OF assms(2) this]
  have all: "list_all2 (\<lambda>symbol f. function_type (module_types panicName) f = runtime_signature symbol \<and>
      runtime_signature symbol = Some (declared_type f)) symbols fs" by auto
  then have check: "function_type (module_types panicName) (fs ! i) = runtime_signature (symbols ! i)"
    "runtime_signature (symbols ! i) = Some (declared_type (fs ! i))"
    and len: "length fs = length symbols" using assms(3) by (auto simp: list_all2_conv_all_nth)
  obtain parameters result where s: "runtime_signature (symbols ! i) = Some (FunctionType parameters result)"
    using check(2) by (cases "fs ! i") simp
  define run where "run v arguments w = (case v of JFunction f \<Rightarrow> run_function call env f arguments w | _ \<Rightarrow> call v arguments w)" for v arguments w
  have "denotes run (JFunction (fs ! i)) (FunctionType parameters result)"
    by (rule function_typed [OF assms(4,5) check(1) [unfolded s]]) (simp add: run_def)
  then show ?thesis using check(1) len s by (auto simp: run_def)
qed

lemma runtime_functions_typed_witness:
  "integer_Build [RuntimeIntegerDivide] ''GoPanic'' = Inr [bigintDivisionOperation ''goIntegerDivide'' ''GoPanic'' SlashToken] \<and>
   (case fst (run_function (call_global demo_host) (map_of module_scope)
      (bigintDivisionOperation ''goIntegerDivide'' ''GoPanic'' SlashToken) [JBigInt 7, JBigInt 0] ()) of
      Inl e \<Rightarrow> benign e | Inr v \<Rightarrow> has_type v BigIntKeyword)"
proof -
  have b: "integer_Build [RuntimeIntegerDivide] ''GoPanic'' = Inr [bigintDivisionOperation ''goIntegerDivide'' ''GoPanic'' SlashToken]"
    by (simp add: integer_Build_def integer_contracts integer_declaration_def runtime_operator_def)
  have p: "panic_import ''GoPanic''" by (simp add: panic_import_def)
  have "\<exists>parameters result. runtime_signature RuntimeIntegerDivide = Some (FunctionType parameters result) \<and>
      (\<forall>arguments w. list_all2 has_type arguments parameters \<longrightarrow>
        (case fst (run_function (call_global demo_host) (map_of module_scope)
            (bigintDivisionOperation ''goIntegerDivide'' ''GoPanic'' SlashToken) arguments w) of
           Inl e \<Rightarrow> benign e | Inr v \<Rightarrow> has_type v result))"
    using runtime_functions_typed [OF b p, of 0, OF _ target_callers(1) [of demo_host] module_scope_typed] by simp
  then show ?thesis using b by (simp add: signatures)
qed

end
