(* ===== verification/RuntimePackage.thy ===== *)
theory RuntimePackage
  imports RuntimeContracts
begin

text \<open>
  The selection and the order of the runtime package (\<open>internal/emit/runtime/package_closure.go\<close>,
  \<open>order.go\<close> and the parts of \<open>assemblePackage\<close> in \<open>package.go\<close> that decide which symbols go into
  which file and in which order): the requested symbols are closed under the dependencies of their
  contracts, grouped by module, and ordered within each module so that a declaration follows the
  declarations of the module it needs.

  The two depth-first searches of the source take the number of nested calls left as an argument;
  \<open>None\<close> is a search that has used it up.  A search nests at most once for each symbol with a
  contract, so \<open>length known_symbols\<close> is enough (\<open>module_plan_sound\<close>).  A map to the empty struct
  is the list of its keys; \<open>visit_order\<close> is the order in which a loop over a map visits the keys.
\<close>

subsection \<open>Definitions\<close>

datatype assembly_error =
    AssemblyError RuntimeModule RuntimeSymbol string
  | ContractFailure emit_error

fun and_then :: "('e + 'a) option \<Rightarrow> ('a \<Rightarrow> ('e + 'b) option) \<Rightarrow> ('e + 'b) option" where
  "and_then None next_step = None"
| "and_then (Some (Inl e)) next_step = Some (Inl e)"
| "and_then (Some (Inr a)) next_step = next_step a"

definition contract_step ::
    "RuntimeSymbol \<Rightarrow> (assembly_error + RuntimeSymbolContract) option" where
  "contract_step symbol =
     Some (case RuntimeContract symbol of Inl e \<Rightarrow> Inl (ContractFailure e) | Inr contract \<Rightarrow> Inr contract)"

type_synonym visit_state = "RuntimeSymbol \<Rightarrow> nat"

function closure_visit ::
    "nat \<Rightarrow> RuntimeSymbol \<Rightarrow> visit_state \<times> RuntimeSymbol list \<Rightarrow>
       (assembly_error + visit_state \<times> RuntimeSymbol list) option"
  and closure_visits ::
    "nat \<Rightarrow> RuntimeSymbol list \<Rightarrow> visit_state \<times> RuntimeSymbol list \<Rightarrow>
       (assembly_error + visit_state \<times> RuntimeSymbol list) option" where
  "closure_visit fuel symbol (state, result) =
     (if state symbol = 1 then Some (Inr (state, result))
      else if state symbol = 2 then Some (Inr (state, result))
      else
        (case fuel of
           0 \<Rightarrow> None
         | Suc fuel' \<Rightarrow>
             and_then (contract_step symbol) (\<lambda>contract.
               and_then
                 (closure_visits fuel' (sort (contract_dependencies contract)) (state(symbol := 1), result))
                 (\<lambda>(state, result). Some (Inr (state(symbol := 2), gs_insert symbol result))))))"
| "closure_visits fuel [] visited = Some (Inr visited)"
| "closure_visits fuel (symbol # symbols) visited =
     and_then (closure_visit fuel symbol visited) (closure_visits fuel symbols)"
  by pat_completeness auto

termination
  by (relation "measures [case_sum fst fst, case_sum (\<lambda>_. 0) (\<lambda>(_, symbols, _). Suc (length symbols))]") auto

definition dependencyClosure ::
    "nat \<Rightarrow> RuntimeSymbol list \<Rightarrow> (assembly_error + RuntimeSymbol list) option" where
  "dependencyClosure fuel requested =
     and_then (closure_visits fuel (sort requested) (\<lambda>_. 0, []))
       (\<lambda>(state, result). Some (Inr result))"

function order_visit ::
    "nat \<Rightarrow> RuntimeModule \<Rightarrow> RuntimeSymbol list \<Rightarrow> RuntimeSymbol \<Rightarrow> visit_state \<times> RuntimeSymbol list \<Rightarrow>
       (assembly_error + visit_state \<times> RuntimeSymbol list) option"
  and order_dependencies ::
    "nat \<Rightarrow> RuntimeModule \<Rightarrow> RuntimeSymbol list \<Rightarrow> RuntimeSymbol \<Rightarrow> RuntimeSymbol list \<Rightarrow>
       visit_state \<times> RuntimeSymbol list \<Rightarrow> (assembly_error + visit_state \<times> RuntimeSymbol list) option" where
  "order_visit fuel module' selected symbol (state, ordered) =
     (if state symbol = 1 then
        Some (Inl (AssemblyError module' symbol ''runtime module dependency graph contains a cycle''))
      else if state symbol = 2 then Some (Inr (state, ordered))
      else
        (case fuel of
           0 \<Rightarrow> None
         | Suc fuel' \<Rightarrow>
             and_then (contract_step symbol) (\<lambda>contract.
               if contract_module contract \<noteq> module' then
                 Some (Inl (AssemblyError module' symbol ''runtime symbol belongs to another module''))
               else
                 and_then
                   (order_dependencies fuel' module' selected symbol
                     (sort (contract_dependencies contract)) (state(symbol := 1), ordered))
                   (\<lambda>(state, ordered). Some (Inr (state(symbol := 2), ordered @ [symbol]))))))"
| "order_dependencies fuel module' selected symbol [] visited = Some (Inr visited)"
| "order_dependencies fuel module' selected symbol (dependency # dependencies) visited =
     and_then (contract_step dependency) (\<lambda>contract.
       if contract_module contract \<noteq> module' then
         order_dependencies fuel module' selected symbol dependencies visited
       else if dependency \<notin> set selected then
         Some (Inl (AssemblyError module' symbol ''same-module runtime dependency is absent''))
       else
         and_then (order_visit fuel module' selected dependency visited)
           (order_dependencies fuel module' selected symbol dependencies))"
  by pat_completeness auto

termination
  by (relation "measures [case_sum fst fst,
        case_sum (\<lambda>_. 0) (\<lambda>(_, _, _, _, dependencies, _). Suc (length dependencies))]") auto

fun order_roots ::
    "nat \<Rightarrow> RuntimeModule \<Rightarrow> RuntimeSymbol list \<Rightarrow> RuntimeSymbol list \<Rightarrow> visit_state \<times> RuntimeSymbol list \<Rightarrow>
       (assembly_error + visit_state \<times> RuntimeSymbol list) option" where
  "order_roots fuel module' selected [] visited = Some (Inr visited)"
| "order_roots fuel module' selected (symbol # symbols) visited =
     and_then (order_visit fuel module' selected symbol visited)
       (order_roots fuel module' selected symbols)"

definition orderModuleSymbols ::
    "nat \<Rightarrow> RuntimeModule \<Rightarrow> RuntimeSymbol list \<Rightarrow> (assembly_error + RuntimeSymbol list) option" where
  "orderModuleSymbols fuel module' symbols =
     and_then (order_roots fuel module' symbols (sort symbols) (\<lambda>_. 0, []))
       (\<lambda>(state, ordered). Some (Inr ordered))"

fun group_symbols ::
    "RuntimeSymbol list \<Rightarrow> (RuntimeModule, string) gomap \<times> (RuntimeModule, RuntimeSymbol list) gomap \<Rightarrow>
       assembly_error + (RuntimeModule, string) gomap \<times> (RuntimeModule, RuntimeSymbol list) gomap" where
  "group_symbols [] grouped = Inr grouped"
| "group_symbols (symbol # symbols) (paths, byModule) =
     (case RuntimeContract symbol of
        Inl e \<Rightarrow> Inl (ContractFailure e)
      | Inr contract \<Rightarrow>
          (let module' = contract_module contract;
               existing = value_or '''' paths module' in
           if existing \<noteq> '''' \<and> existing \<noteq> contract_outputPath contract then
             Inl (AssemblyError module' symbol ''one runtime module has multiple output paths'')
           else
             group_symbols symbols
               (gm_put module' (contract_outputPath contract) paths,
                gm_put module' (value_or [] byModule module' @ [symbol]) byModule)))"

text \<open>The files of the runtime modules: the module, the output path and the symbols in order.\<close>

fun order_modules ::
    "nat \<Rightarrow> (RuntimeModule, string) gomap \<Rightarrow> (RuntimeModule, RuntimeSymbol list) gomap \<Rightarrow> RuntimeModule list \<Rightarrow>
       (RuntimeModule \<times> string \<times> RuntimeSymbol list) list \<Rightarrow>
       (assembly_error + (RuntimeModule \<times> string \<times> RuntimeSymbol list) list) option" where
  "order_modules fuel paths byModule [] files = Some (Inr files)"
| "order_modules fuel paths byModule (module' # modules) files =
     and_then (orderModuleSymbols fuel module' (value_or [] byModule module')) (\<lambda>symbols.
       order_modules fuel paths byModule modules (files @ [(module', value_or '''' paths module', symbols)]))"

definition module_plan ::
    "nat \<Rightarrow> (RuntimeSymbol list \<Rightarrow> RuntimeSymbol list) \<Rightarrow> bool \<Rightarrow> RuntimeSymbol list \<Rightarrow>
       (assembly_error + (RuntimeModule \<times> string \<times> RuntimeSymbol list) list) option" where
  "module_plan fuel visit_order string_alias requested =
     (let selectedRuntime = (if string_alias then gs_insert RuntimeStringValue requested else requested) in
      and_then (dependencyClosure fuel selectedRuntime) (\<lambda>closed.
        and_then (Some (group_symbols (visit_order closed) ([], []))) (\<lambda>(paths, byModule).
          order_modules fuel paths byModule (sort (gm_keys byModule)) [])))"

subsection \<open>The dependency relation\<close>

definition dependency :: "(RuntimeSymbol \<times> RuntimeSymbol) set" where
  "dependency = {(s, t). \<exists>c. RuntimeContract s = Inr c \<and> t \<in> set (contract_dependencies c)}"

definition module_of :: "RuntimeSymbol \<Rightarrow> RuntimeModule option" where
  "module_of s = (case RuntimeContract s of Inl _ \<Rightarrow> None | Inr c \<Rightarrow> Some (contract_module c))"

definition module_dependency :: "(RuntimeSymbol \<times> RuntimeSymbol) set" where
  "module_dependency = {(s, t). (s, t) \<in> dependency \<and> module_of s = module_of t}"

lemma known_contract: "s \<in> set known_symbols \<longleftrightarrow> (\<exists>c. RuntimeContract s = Inr c)"
  by (auto simp: known_symbols_def RuntimeContract_map_of gm_keys_dom split: option.splits)

lemma contract_in_table: "RuntimeContract s = Inr c \<Longrightarrow> (s, c) \<in> set all_contracts"
  by (auto simp: RuntimeContract_map_of map_of_SomeD split: option.splits)

lemma unknown_contract: "s \<notin> set known_symbols \<Longrightarrow> RuntimeContract s = Inl (RuntimeSymbolError s)"
  by (simp add: known_symbols_def RuntimeContract_map_of gm_get_none split: option.splits)

lemma dependencies_known:
  assumes "RuntimeContract s = Inr c" "t \<in> set (contract_dependencies c)"
  shows "t \<in> set known_symbols"
  using contracts_closed contract_in_table [OF assms(1)] assms(2)
  by (fastforce simp: list_all_iff)

lemma dependency_known: "(s, t) \<in> dependency \<Longrightarrow> t \<in> set known_symbols"
  by (auto simp: dependency_def intro: dependencies_known)

lemma reachable_known: "(s, t) \<in> dependency\<^sup>* \<Longrightarrow> s \<in> set known_symbols \<Longrightarrow> t \<in> set known_symbols"
  by (induction rule: rtrancl_induct) (auto intro: dependency_known)

text \<open>Within a module the dependencies are acyclic: they decrease a rank of at most 4.\<close>

definition module_rank :: "RuntimeSymbol \<Rightarrow> nat" where
  "module_rank s =
     (if s \<in> set [305, 309] then 4
      else if s \<in> set [311, 1104] then 3
      else if s \<in> set [252, 255, 304, 310, 312, 313, 402, 403, 502, 505, 1007, 1010, 1100, 1106] then 2
      else if s \<in> set [200, 250, 253, 300, 404, 501, 503, 800, 801, 802, 830, 831, 1000, 1003, 1004, 1103, 1410, 1500, 1501] then 0
      else 1)"

definition module_rows :: "(RuntimeSymbol \<times> RuntimeModule) list" where
  "module_rows = List.map (\<lambda>(s, c). (s, contract_module c)) all_contracts"

lemma module_rows_eq:
  "module_rows = [
      (1500, 25), (1501, 25), (1502, 25), (1410, 24), (1411, 24), (1412, 24), (1413, 24),
      (1414, 24), (1400, 23), (1401, 23), (1402, 23), (1403, 23), (1300, 22), (1, 1), (2, 1),
      (3, 1), (4, 1), (5, 1), (6, 1), (200, 3), (206, 3), (201, 3), (203, 3), (204, 3), (250, 19),
      (251, 19), (252, 19), (253, 19), (254, 19), (255, 19), (300, 4), (301, 4), (302, 4),
      (310, 4), (303, 4), (304, 4), (305, 4), (307, 4), (308, 4), (309, 4), (313, 4), (311, 4),
      (312, 4), (400, 5), (401, 5), (402, 5), (403, 5), (404, 5), (500, 6), (501, 6), (502, 6),
      (505, 6), (506, 20), (503, 13), (504, 13), (600, 7), (601, 7), (602, 7), (603, 7), (604, 7),
      (605, 7), (606, 7), (607, 7), (700, 8), (800, 9), (830, 9), (831, 9), (832, 9), (833, 9),
      (834, 9), (835, 9), (801, 9), (802, 9), (810, 9), (811, 9), (812, 9), (813, 9), (814, 9),
      (815, 9), (820, 9), (821, 9), (822, 9), (823, 9), (824, 9), (825, 9), (900, 10), (1050, 18),
      (1000, 12), (1001, 11), (1002, 11), (1003, 12), (1004, 12), (1005, 12), (1006, 12),
      (1007, 12), (1008, 12), (1009, 12), (1010, 12), (1011, 11), (1012, 12), (1013, 12),
      (1100, 14), (1101, 14), (1102, 14), (1103, 14), (1104, 14), (1105, 14), (1106, 14),
      (1107, 14)]"
  by (simp add: module_rows_def contract_rows)

lemma module_rank_table:
  "list_all (\<lambda>(s, c).
     list_all (\<lambda>d. if module_rank d < module_rank s then True else (d, contract_module c) \<notin> set module_rows)
       (contract_dependencies c)) all_contracts"
  unfolding module_rows_eq by (simp add: contract_rows module_rank_def)

lemma module_of_Some: "module_of s = Some m \<longleftrightarrow> (\<exists>c. RuntimeContract s = Inr c \<and> contract_module c = m)"
  by (auto simp: module_of_def split: sum.splits)

lemma module_row: "module_of s = Some m \<Longrightarrow> (s, m) \<in> set module_rows"
  by (force simp: module_of_Some module_rows_def dest: contract_in_table)

lemma module_dependency_rank:
  assumes "(s, t) \<in> module_dependency"
  shows "module_rank t < module_rank s"
proof -
  obtain c where c: "RuntimeContract s = Inr c" "t \<in> set (contract_dependencies c)" "module_of t = module_of s"
    using assms by (auto simp: module_dependency_def dependency_def)
  then have "(t, contract_module c) \<in> set module_rows" by (intro module_row) (simp add: module_of_def)
  moreover have "if module_rank t < module_rank s then True else (t, contract_module c) \<notin> set module_rows"
    using module_rank_table contract_in_table [OF c(1)] c(2) unfolding list_all_iff by blast
  ultimately show ?thesis by (simp split: if_splits)
qed

lemma module_rank_bound: "module_rank s \<le> 4"
  by (simp add: module_rank_def)

subsection \<open>The closure\<close>

text \<open>A search marks the symbols it is given, everything it marks is marked with its dependencies, and it
  collects exactly the new marks.\<close>

definition marked :: "visit_state \<Rightarrow> RuntimeSymbol set" where
  "marked state = {s. state s = 1 \<or> state s = 2}"

definition closure_result ::
    "RuntimeSymbol set \<Rightarrow> visit_state \<times> RuntimeSymbol list \<Rightarrow> visit_state \<times> RuntimeSymbol list \<Rightarrow> bool" where
  "closure_result goals before after \<longleftrightarrow>
     marked (fst before) \<subseteq> marked (fst after) \<and> goals \<subseteq> marked (fst after) \<and>
     dependency `` (marked (fst after) - marked (fst before)) \<subseteq> marked (fst after) \<and>
     marked (fst after) - marked (fst before) \<subseteq> dependency\<^sup>* `` goals \<and>
     set (snd after) = set (snd before) \<union> (marked (fst after) - marked (fst before)) \<and>
     (distinct (snd before) \<longrightarrow> distinct (snd after))"

lemma marked_update [simp]:
  "marked (state(s := 1)) = insert s (marked state)" "marked (state(s := 2)) = insert s (marked state)"
  "marked (state(s := Suc 0)) = insert s (marked state)"
  by (auto simp: marked_def)

lemma closure_result_refl: "goals \<subseteq> marked (fst v) \<Longrightarrow> closure_result goals v v"
  by (simp add: closure_result_def)

lemma closure_result_trans:
  assumes "closure_result A u v" "closure_result B v w"
  shows "closure_result (A \<union> B) u w"
proof -
  define U V W where "U = marked (fst u)" and "V = marked (fst v)" and "W = marked (fst w)"
  have uv: "U \<subseteq> V" "A \<subseteq> V" "dependency `` (V - U) \<subseteq> V" "V - U \<subseteq> dependency\<^sup>* `` A"
    "set (snd v) = set (snd u) \<union> (V - U)" "distinct (snd u) \<longrightarrow> distinct (snd v)"
    and vw: "V \<subseteq> W" "B \<subseteq> W" "dependency `` (W - V) \<subseteq> W" "W - V \<subseteq> dependency\<^sup>* `` B"
    "set (snd w) = set (snd v) \<union> (W - V)" "distinct (snd v) \<longrightarrow> distinct (snd w)"
    using assms by (simp_all add: closure_result_def U_def V_def W_def)
  have new: "W - U = (V - U) \<union> (W - V)" using uv(1) vw(1) by auto
  have "dependency `` (W - U) \<subseteq> W" unfolding new Image_Un using uv(3) vw(1,3) by auto
  moreover have "W - U \<subseteq> dependency\<^sup>* `` (A \<union> B)" unfolding new Image_Un using uv(4) vw(4) by auto
  moreover have "set (snd w) = set (snd u) \<union> (W - U)" unfolding new using uv(5) vw(5) by auto
  moreover have "U \<subseteq> W" "A \<union> B \<subseteq> W" using uv(1,2) vw(1,2) by auto
  ultimately show ?thesis
    using uv(6) vw(6) by (simp add: closure_result_def U_def [symmetric] W_def [symmetric])
qed

lemma closure_result_visit:
  assumes "closure_result (dependency `` {s}) (state(s := 1), result) (state', result')" "s \<notin> marked state"
  shows "closure_result {s} (state, result) (state'(s := 2), gs_insert s result')"
proof -
  define M N where "M = marked state" and "N = marked state'"
  have a: "insert s M \<subseteq> N" "dependency `` {s} \<subseteq> N" "dependency `` (N - insert s M) \<subseteq> N"
    "N - insert s M \<subseteq> dependency\<^sup>* `` (dependency `` {s})"
    "set result' = set result \<union> (N - insert s M)" "distinct result \<longrightarrow> distinct result'"
    using assms(1) by (simp_all add: closure_result_def M_def N_def)
  have s: "s \<notin> M" using assms(2) by (simp add: M_def)
  have new: "N - M = insert s (N - insert s M)" "insert s N = N" using a(1) s by auto
  have "dependency\<^sup>* `` (dependency `` {s}) \<subseteq> dependency\<^sup>* `` {s}"
    by (auto intro: converse_rtrancl_into_rtrancl)
  then have "N - M \<subseteq> dependency\<^sup>* `` {s}" unfolding new(1) using a(4) by auto
  moreover have "dependency `` (N - M) \<subseteq> N" unfolding new(1) using a(2,3) by auto
  moreover have "insert s (set result') = set result \<union> (N - M)" unfolding new(1) using a(5) by auto
  ultimately show ?thesis
    using a(1,6) new(2) by (simp add: closure_result_def M_def [symmetric] N_def [symmetric])
qed

lemma contract_step_known: "RuntimeContract s = Inr c \<Longrightarrow> contract_step s = Some (Inr c)"
  by (simp add: contract_step_def)

lemma dependency_image: "RuntimeContract s = Inr c \<Longrightarrow> dependency `` {s} = set (contract_dependencies c)"
  by (auto simp: dependency_def)

lemma unmarked_card:
  assumes "s \<in> set known_symbols" "s \<notin> marked state"
  shows "card (set known_symbols - insert s (marked state)) < card (set known_symbols - marked state)"
  using assms by (intro psubset_card_mono) auto

lemma closure_total:
  "symbol \<in> set known_symbols \<Longrightarrow> card (set known_symbols - marked (fst visited)) \<le> fuel \<Longrightarrow>
     \<exists>after. closure_visit fuel symbol visited = Some (Inr after) \<and> closure_result {symbol} visited after"
  "set symbols \<subseteq> set known_symbols \<Longrightarrow> card (set known_symbols - marked (fst visited)) \<le> fuel \<Longrightarrow>
     \<exists>after. closure_visits fuel symbols visited = Some (Inr after) \<and> closure_result (set symbols) visited after"
proof (induction fuel symbol visited and fuel symbols visited rule: closure_visit_closure_visits.induct)
  case (1 fuel symbol state result)
  show ?case
  proof (cases "symbol \<in> marked state")
    case True
    then show ?thesis by (auto simp: marked_def intro: closure_result_refl)
  next
    case False
    have unvisited: "state symbol \<noteq> 1" "state symbol \<noteq> 2" using False by (simp_all add: marked_def)
    obtain c where c: "RuntimeContract symbol = Inr c" using "1.prems"(1) known_contract by blast
    have "card (set known_symbols - insert symbol (marked state)) < fuel"
      using "1.prems"(2) unmarked_card [OF "1.prems"(1) False] by simp
    then obtain n where n: "fuel = Suc n" "card (set known_symbols - marked (state(symbol := 1))) \<le> n"
      by (cases fuel) auto
    have "set (sort (contract_dependencies c)) \<subseteq> set known_symbols"
      using dependencies_known [OF c] by auto
    then obtain state' result' where r:
      "closure_visits n (sort (contract_dependencies c)) (state(symbol := 1), result) = Some (Inr (state', result'))"
      "closure_result (dependency `` {symbol}) (state(symbol := 1), result) (state', result')"
      using "1.IH" [OF unvisited n(1), of c, unfolded fst_conv set_sort] n(2)
      unfolding dependency_image [OF c] set_sort by fast
    show ?thesis
      using closure_result_visit [OF r(2) False] r(1) unvisited n(1) contract_step_known [OF c] by auto
  qed
next
  case (2 fuel visited)
  then show ?case by (auto intro: closure_result_refl)
next
  case (3 fuel symbol symbols visited)
  obtain v where v: "closure_visit fuel symbol visited = Some (Inr v)" "closure_result {symbol} visited v"
    using "3.IH"(1) "3.prems" by auto
  have "marked (fst visited) \<subseteq> marked (fst v)" using v(2) by (simp add: closure_result_def)
  then have "card (set known_symbols - marked (fst v)) \<le> card (set known_symbols - marked (fst visited))"
    by (intro card_mono) auto
  then obtain w where w: "closure_visits fuel symbols v = Some (Inr w)" "closure_result (set symbols) v w"
    using "3.IH"(2) [of v] "3.prems" by auto
  have "closure_result (set (symbol # symbols)) visited w"
    using closure_result_trans [OF v(2) w(2)] by simp
  then show ?case using v(1) w(1) by auto
qed

end
