(* ===== verification/RuntimeOrder.thy ===== *)
theory RuntimeOrder
  imports RuntimePackage IntegerSemantics
begin

text \<open>
  The order of the runtime package: the search within a module, the grouping of the symbols and the
  theorem about the plan of the whole package.
\<close>

subsection \<open>The order within a module\<close>

definition dependencies_first :: "RuntimeSymbol list \<Rightarrow> bool" where
  "dependencies_first xs \<longleftrightarrow>
     (\<forall>ys x zs. xs = ys @ x # zs \<longrightarrow> module_dependency `` {x} \<subseteq> set ys)"

lemma dependencies_first_Nil [simp]: "dependencies_first []"
  by (simp add: dependencies_first_def)

lemma dependencies_first_snoc:
  "dependencies_first xs \<Longrightarrow> module_dependency `` {x} \<subseteq> set xs \<Longrightarrow> dependencies_first (xs @ [x])"
  unfolding dependencies_first_def
  by (auto simp: append_eq_append_conv2 append_eq_Cons_conv Cons_eq_append_conv)

text \<open>The symbols of one module with all the dependencies they have in it.\<close>

definition module_selection :: "RuntimeModule \<Rightarrow> RuntimeSymbol set \<Rightarrow> bool" where
  "module_selection m S \<longleftrightarrow> (\<forall>s \<in> S. module_of s = Some m) \<and> module_dependency `` S \<subseteq> S"

text \<open>A search of the order: finished symbols are the list, in an order that has dependencies first.\<close>

definition order_state :: "RuntimeSymbol set \<Rightarrow> visit_state \<times> RuntimeSymbol list \<Rightarrow> bool" where
  "order_state S v \<longleftrightarrow>
     set (snd v) = {s. fst v s = 2} \<and> distinct (snd v) \<and> dependencies_first (snd v) \<and> set (snd v) \<subseteq> S"

definition order_result ::
    "RuntimeSymbol set \<Rightarrow> RuntimeSymbol set \<Rightarrow> visit_state \<times> RuntimeSymbol list \<Rightarrow>
       visit_state \<times> RuntimeSymbol list \<Rightarrow> bool" where
  "order_result S goals before after \<longleftrightarrow>
     order_state S after \<and> goals \<subseteq> set (snd after) \<and> set (snd before) \<subseteq> set (snd after) \<and>
     {s. fst after s = 1} = {s. fst before s = 1}"

text \<open>The symbols under way are above the symbol to visit.\<close>

definition above :: "visit_state \<Rightarrow> RuntimeSymbol \<Rightarrow> bool" where
  "above state symbol \<longleftrightarrow> (\<forall>s. state s = 1 \<longrightarrow> module_rank symbol < module_rank s)"

lemma order_total:
  assumes selection: "module_selection m (set selected)"
  shows
  "symbol \<in> set selected \<Longrightarrow> module_rank symbol < fuel \<Longrightarrow> above (fst visited) symbol \<Longrightarrow>
     m = m' \<Longrightarrow> selected = selected' \<Longrightarrow> order_state (set selected) visited \<Longrightarrow>
     \<exists>after. order_visit fuel m' selected' symbol visited = Some (Inr after) \<and>
       order_result (set selected) {symbol} visited after"
  "set dependencies \<subseteq> dependency `` {symbol} \<Longrightarrow> symbol \<in> set selected \<Longrightarrow> module_rank symbol \<le> fuel \<Longrightarrow>
     (\<forall>s. fst visited s = 1 \<longrightarrow> module_rank symbol \<le> module_rank s) \<Longrightarrow>
     m = m' \<Longrightarrow> selected = selected' \<Longrightarrow> order_state (set selected) visited \<Longrightarrow>
     \<exists>after. order_dependencies fuel m' selected' symbol dependencies visited = Some (Inr after) \<and>
       order_result (set selected) {d \<in> set dependencies. module_of d = Some m} visited after"
proof (induction fuel m' selected' symbol visited and fuel m' selected' symbol dependencies visited
    rule: order_visit_order_dependencies.induct)
  case (1 fuel m' selected' symbol state ordered)
  have s: "module_of symbol = Some m" using selection "1.prems"(1) by (simp add: module_selection_def)
  obtain c where c: "RuntimeContract symbol = Inr c" "contract_module c = m'"
    using s "1.prems"(4) by (auto simp: module_of_Some)
  have not_open: "state symbol \<noteq> 1" using "1.prems"(3) by (auto simp: above_def)
  show ?case
  proof (cases "state symbol = 2")
    case True
    then show ?thesis using "1.prems"(6) by (auto simp: order_result_def order_state_def)
  next
    case False
    obtain n where n: "fuel = Suc n" "module_rank symbol \<le> n" using "1.prems"(2) by (cases fuel) auto
    have open': "\<forall>s. (state(symbol := 1)) s = 1 \<longrightarrow> module_rank symbol \<le> module_rank s"
      using "1.prems"(3) by (auto simp: above_def)
    have ordering': "order_state (set selected) (state(symbol := 1), ordered)"
      using "1.prems"(6) False by (auto simp: order_state_def)
    have image: "dependency `` {symbol} = set (contract_dependencies c)" by (rule dependency_image [OF c(1)])
    obtain state' ordered' where r:
      "order_dependencies n m' selected' symbol (sort (contract_dependencies c)) (state(symbol := 1), ordered) =
         Some (Inr (state', ordered'))"
      "order_result (set selected) {d \<in> set (contract_dependencies c). module_of d = Some m}
         (state(symbol := 1), ordered) (state', ordered')"
      using "1.IH" [OF not_open False n(1), of c, unfolded fst_conv set_sort] c(2) "1.prems"(1,4,5) n(2) open' ordering'
      unfolding image by fast
    have deps: "module_dependency `` {symbol} \<subseteq> set ordered'"
      using r(2) image s by (auto simp: order_result_def module_dependency_def)
    have fresh: "symbol \<notin> set ordered'"
    proof -
      have "state' symbol = 1" using r(2) by (auto simp: order_result_def)
      then show ?thesis using r(2) by (auto simp: order_result_def order_state_def)
    qed
    have "order_result (set selected) {symbol} (state, ordered) (state'(symbol := 2), ordered' @ [symbol])"
      using r(2) deps fresh "1.prems"(1) not_open
      by (auto simp: order_result_def order_state_def dependencies_first_snoc split: if_splits)
    then show ?thesis using r(1) n(1) c not_open False contract_step_known [OF c(1)] by auto
  qed
next
  case (2 fuel m' selected' symbol visited)
  then show ?case by (auto simp: order_result_def)
next
  case (3 fuel m' selected' symbol dependency' dependencies visited)
  have edge: "(symbol, dependency') \<in> dependency" and rest: "set dependencies \<subseteq> dependency `` {symbol}"
    using "3.prems"(1) by auto
  obtain c where c: "RuntimeContract dependency' = Inr c"
    using dependency_known [OF edge] known_contract by blast
  note step = contract_step_known [OF c]
  show ?case
  proof (cases "contract_module c = m'")
    case False
    then have "module_of dependency' \<noteq> Some m" using c "3.prems"(5) by (auto simp: module_of_def)
    then have "{d \<in> set (dependency' # dependencies). module_of d = Some m} =
        {d \<in> set dependencies. module_of d = Some m}" by auto
    then show ?thesis using "3.IH"(1) [OF False rest "3.prems"(2-7)] False step by simp
  next
    case True
    have "module_of symbol = Some m" using selection "3.prems"(2) by (simp add: module_selection_def)
    moreover have "module_of dependency' = Some m" using True c "3.prems"(5) by (simp add: module_of_def)
    ultimately have inside: "(symbol, dependency') \<in> module_dependency"
      using edge by (simp add: module_dependency_def)
    then have selected': "dependency' \<in> set selected" and rank: "module_rank dependency' < module_rank symbol"
      using selection "3.prems"(2) module_dependency_rank by (auto simp: module_selection_def)
    have "above (fst visited) dependency'" unfolding above_def using rank "3.prems"(4) by (meson less_le_trans)
    then obtain v where v: "order_visit fuel m' selected' dependency' visited = Some (Inr v)"
      "order_result (set selected) {dependency'} visited v"
      using "3.IH"(2) [of c] True selected' rank "3.prems"(3-7) by auto
    have "\<forall>s. fst v s = 1 \<longrightarrow> module_rank symbol \<le> module_rank s"
      using v(2) "3.prems"(4) by (auto simp: order_result_def)
    moreover have "order_state (set selected) v" using v(2) by (simp add: order_result_def)
    ultimately obtain w where w: "order_dependencies fuel m' selected' symbol dependencies v = Some (Inr w)"
      "order_result (set selected) {d \<in> set dependencies. module_of d = Some m} v w"
      using "3.IH"(3) [of c v] True selected' rest "3.prems"(2,3,5,6) by auto
    have "order_result (set selected) {d \<in> set (dependency' # dependencies). module_of d = Some m} visited w"
      using v(2) w(2) by (auto simp: order_result_def)
    then show ?thesis using True selected' "3.prems"(6) step v(1) w(1) by auto
  qed
qed

lemma order_roots_total:
  assumes "module_selection m (set selected)" "order_state (set selected) visited"
    "{s. fst visited s = 1} = {}" "4 < fuel" "set roots \<subseteq> set selected"
  shows "\<exists>after. order_roots fuel m selected roots visited = Some (Inr after) \<and>
    order_result (set selected) (set roots) visited after"
  using assms(2,3,5)
proof (induction roots arbitrary: visited)
  case Nil
  then show ?case by (simp add: order_result_def)
next
  case (Cons s roots)
  have "module_rank s < fuel" using module_rank_bound [of s] assms(4) by simp
  then obtain v where v: "order_visit fuel m selected s visited = Some (Inr v)"
    "order_result (set selected) {s} visited v"
    using order_total(1) [OF assms(1), of s fuel visited m selected] Cons.prems by (auto simp: above_def)
  then obtain w where "order_roots fuel m selected roots v = Some (Inr w)"
    "order_result (set selected) (set roots) v w"
    using Cons.IH [of v] Cons.prems(2,3) by (auto simp: order_result_def)
  then show ?case using v by (auto simp: order_result_def)
qed

lemma orderModuleSymbols_total:
  assumes "module_selection m (set symbols)" "4 < fuel"
  shows "\<exists>ordered. orderModuleSymbols fuel m symbols = Some (Inr ordered) \<and>
    set ordered = set symbols \<and> distinct ordered \<and> dependencies_first ordered"
proof -
  obtain after where "order_roots fuel m symbols (sort symbols) (\<lambda>_. 0, []) = Some (Inr after)"
    "order_result (set symbols) (set (sort symbols)) (\<lambda>_. 0, []) after"
    using order_roots_total [OF assms(1) _ _ assms(2), of "(\<lambda>_. 0, [])" "sort symbols"]
    by (auto simp: order_state_def)
  then show ?thesis by (cases after) (auto simp: orderModuleSymbols_def order_result_def order_state_def)
qed

subsection \<open>The groups\<close>

definition module_path :: "RuntimeModule \<Rightarrow> string" where
  "module_path =
     value_or ''''
       [(1, ''runtime/string.ts''), (3, ''runtime/array.ts''), (4, ''runtime/slice.ts''),
        (5, ''runtime/map.ts''), (6, ''runtime/panic.ts''), (7, ''runtime/integer.ts''),
        (8, ''runtime/float.ts''), (9, ''runtime/complex.ts''), (10, ''runtime/conversion.ts''),
        (11, ''runtime/interface.ts''), (12, ''runtime/interface-value.ts''), (13, ''runtime/panic-nil.ts''),
        (14, ''runtime/channel.ts''), (18, ''runtime/struct.ts''), (19, ''runtime/storage.ts''),
        (20, ''runtime/deferred-registry.ts''), (22, ''runtime/lifetime.ts''),
        (23, ''runtime/memory-descriptor.ts''), (24, ''runtime/memory-view.ts''),
        (25, ''runtime/string-value.ts'')]"

lemma module_path_simps [simp]:
  "module_path (Suc 0) = ''runtime/string.ts''"
  "module_path 3 = ''runtime/array.ts''"
  "module_path 4 = ''runtime/slice.ts''"
  "module_path 5 = ''runtime/map.ts''"
  "module_path 6 = ''runtime/panic.ts''"
  "module_path 7 = ''runtime/integer.ts''"
  "module_path 8 = ''runtime/float.ts''"
  "module_path 9 = ''runtime/complex.ts''"
  "module_path 10 = ''runtime/conversion.ts''"
  "module_path 11 = ''runtime/interface.ts''"
  "module_path 12 = ''runtime/interface-value.ts''"
  "module_path 13 = ''runtime/panic-nil.ts''"
  "module_path 14 = ''runtime/channel.ts''"
  "module_path 18 = ''runtime/struct.ts''"
  "module_path 19 = ''runtime/storage.ts''"
  "module_path 20 = ''runtime/deferred-registry.ts''"
  "module_path 22 = ''runtime/lifetime.ts''"
  "module_path 23 = ''runtime/memory-descriptor.ts''"
  "module_path 24 = ''runtime/memory-view.ts''"
  "module_path 25 = ''runtime/string-value.ts''"
  by (simp_all add: module_path_def value_or_def)

lemma module_path_table:
  "list_all (\<lambda>(s, c). contract_outputPath c = module_path (contract_module c)) all_contracts"
  by (simp add: contract_rows)

lemma one_path:
  "RuntimeContract s = Inr c \<Longrightarrow> contract_outputPath c = module_path (contract_module c)"
  using module_path_table contract_in_table unfolding list_all_iff by blast

definition grouped ::
    "RuntimeSymbol list \<Rightarrow> (RuntimeModule, string) gomap \<Rightarrow> (RuntimeModule, RuntimeSymbol list) gomap \<Rightarrow> bool" where
  "grouped symbols paths byModule \<longleftrightarrow>
     gm_wf byModule \<and>
     (\<forall>m. value_or [] byModule m = List.filter (\<lambda>s. module_of s = Some m) symbols) \<and>
     fst ` set byModule = {m. \<exists>s \<in> set symbols. module_of s = Some m} \<and>
     (\<forall>m. gm_get paths m = (if m \<in> fst ` set byModule then Some (module_path m) else None))"

lemma group_symbols_total:
  assumes "set symbols \<subseteq> set known_symbols" "grouped before paths byModule"
  shows "\<exists>paths' byModule'. group_symbols symbols (paths, byModule) = Inr (paths', byModule') \<and>
    grouped (before @ symbols) paths' byModule'"
  using assms
proof (induction symbols arbitrary: before paths byModule)
  case Nil
  then show ?case by simp
next
  case (Cons s symbols)
  obtain c where c: "RuntimeContract s = Inr c" using Cons.prems(1) known_contract by auto
  have m: "module_of s = Some (contract_module c)" using c by (simp add: module_of_def)
  have path: "value_or '''' paths (contract_module c) = '''' \<or>
      value_or '''' paths (contract_module c) = contract_outputPath c"
    using Cons.prems(2) one_path [OF c] by (auto simp: grouped_def value_or_def)
  have "grouped (before @ [s]) (gm_put (contract_module c) (contract_outputPath c) paths)
      (gm_put (contract_module c) (value_or [] byModule (contract_module c) @ [s]) byModule)"
    using Cons.prems(2) m one_path [OF c] by (auto simp: grouped_def)
  from Cons.IH [OF _ this] Cons.prems(1) path c show ?case by (auto simp: Let_def)
qed

lemma order_modules_total:
  assumes "4 < fuel" "\<And>m. m \<in> set modules \<Longrightarrow> module_selection m (set (value_or [] byModule m))"
  shows "\<exists>plan. order_modules fuel paths byModule modules files = Some (Inr (files @ plan)) \<and>
    List.map fst plan = modules \<and>
    (\<forall>(m, path, symbols) \<in> set plan. path = value_or '''' paths m \<and>
       set symbols = set (value_or [] byModule m) \<and> distinct symbols \<and> dependencies_first symbols)"
  using assms(2)
proof (induction modules arbitrary: files)
  case Nil
  then show ?case by simp
next
  case (Cons m modules)
  obtain symbols where s: "orderModuleSymbols fuel m (value_or [] byModule m) = Some (Inr symbols)"
    "set symbols = set (value_or [] byModule m)" "distinct symbols" "dependencies_first symbols"
    using orderModuleSymbols_total [OF Cons.prems assms(1)] by auto
  obtain plan where plan:
    "order_modules fuel paths byModule modules (files @ [(m, value_or '''' paths m, symbols)]) =
       Some (Inr ((files @ [(m, value_or '''' paths m, symbols)]) @ plan))"
    "List.map fst plan = modules"
    "\<forall>(m, path, symbols) \<in> set plan. path = value_or '''' paths m \<and>
       set symbols = set (value_or [] byModule m) \<and> distinct symbols \<and> dependencies_first symbols"
    using Cons.IH [of "files @ [(m, value_or '''' paths m, symbols)]"] Cons.prems by auto
  show ?case
    using s plan by (intro exI [of _ "(m, value_or '''' paths m, symbols) # plan"]) auto
qed

subsection \<open>Unknown symbols\<close>

lemma hd_sorted_Min: "sorted xs \<Longrightarrow> xs \<noteq> [] \<Longrightarrow> hd xs = Min (set xs)"
  by (cases xs) (auto intro!: Min_eqI [symmetric])

lemma closure_unknown:
  assumes "\<not> set symbols \<subseteq> set known_symbols" "card (set known_symbols - marked (fst visited)) < fuel"
    "marked (fst visited) \<subseteq> set known_symbols"
  shows "closure_visits fuel symbols visited =
    Some (Inl (ContractFailure (RuntimeSymbolError (hd (List.filter (\<lambda>s. s \<notin> set known_symbols) symbols)))))"
  using assms
proof (induction symbols arbitrary: visited)
  case Nil
  then show ?case by simp
next
  case (Cons s symbols)
  show ?case
  proof (cases "s \<in> set known_symbols")
    case True
    obtain v where v: "closure_visit fuel s visited = Some (Inr v)" "closure_result {s} visited v"
      using closure_total(1) [OF True, of visited fuel] Cons.prems(2) by auto
    have sub: "marked (fst visited) \<subseteq> marked (fst v)" using v(2) by (simp add: closure_result_def)
    then have "card (set known_symbols - marked (fst v)) \<le> card (set known_symbols - marked (fst visited))"
      by (intro card_mono) auto
    moreover have "marked (fst v) \<subseteq> set known_symbols"
      using v(2) Cons.prems(3) reachable_known [OF _ True] unfolding closure_result_def by blast
    ultimately show ?thesis using Cons.IH [of v] Cons.prems(1,2) True v(1) by simp
  next
    case False
    obtain state result where visited: "visited = (state, result)" by (cases visited)
    have "state s \<noteq> 1" "state s \<noteq> 2" using False Cons.prems(3) by (auto simp: visited marked_def)
    moreover obtain n where "fuel = Suc n" using Cons.prems(2) by (cases fuel) auto
    ultimately show ?thesis
      using False unknown_contract [OF False] by (simp add: visited contract_step_def)
  qed
qed

lemma dependencyClosure_exact:
  assumes "length known_symbols < fuel"
  shows "if set requested \<subseteq> set known_symbols
    then \<exists>closed. dependencyClosure fuel requested = Some (Inr closed) \<and> distinct closed \<and>
      set closed = dependency\<^sup>* `` set requested
    else dependencyClosure fuel requested =
      Some (Inl (ContractFailure (RuntimeSymbolError (Min (set requested - set known_symbols)))))"
proof -
  have none: "marked (\<lambda>_. 0) = {}" by (simp add: marked_def)
  have fuel: "card (set known_symbols) < fuel" using assms card_length [of known_symbols] by linarith
  show ?thesis
  proof (cases "set requested \<subseteq> set known_symbols")
    case True
    obtain state closed where r: "closure_visits fuel (sort requested) (\<lambda>_. 0, []) = Some (Inr (state, closed))"
      "closure_result (set requested) (\<lambda>_. 0, []) (state, closed)"
      using closure_total(2) [of "sort requested" "(\<lambda>_. 0, [])" fuel] True fuel by (auto simp: none)
    have closed: "set closed = marked state" "distinct closed" "set requested \<subseteq> marked state"
      "dependency `` marked state \<subseteq> marked state" "marked state \<subseteq> dependency\<^sup>* `` set requested"
      using r(2) by (simp_all add: closure_result_def none)
    have "dependency\<^sup>* `` set requested \<subseteq> marked state"
    proof
      fix t
      assume "t \<in> dependency\<^sup>* `` set requested"
      then obtain s where "s \<in> set requested" "(s, t) \<in> dependency\<^sup>*" by blast
      then have "(s, t) \<in> dependency\<^sup>*" "s \<in> marked state" using closed(3) by auto
      then show "t \<in> marked state" by (induction rule: rtrancl_induct) (use closed(4) in auto)
    qed
    then show ?thesis using True r(1) closed by (auto simp: dependencyClosure_def)
  next
    case False
    have "hd (List.filter (\<lambda>s. s \<notin> set known_symbols) (sort requested)) =
        Min (set (List.filter (\<lambda>s. s \<notin> set known_symbols) (sort requested)))"
      using False by (intro hd_sorted_Min) (auto simp: filter_empty_conv sorted_filter [of id, simplified] sorted_sort)
    also have "set (List.filter (\<lambda>s. s \<notin> set known_symbols) (sort requested)) =
        set requested - set known_symbols" by auto
    finally show ?thesis
      using False closure_unknown [of "sort requested" "(\<lambda>_. 0, [])" fuel] fuel
      by (simp add: dependencyClosure_def none)
  qed
qed

subsection \<open>The plan of the package\<close>

definition selected_symbols :: "bool \<Rightarrow> RuntimeSymbol list \<Rightarrow> RuntimeSymbol set" where
  "selected_symbols string_alias requested =
     set requested \<union> (if string_alias then {RuntimeStringValue} else {})"

definition sound_file :: "RuntimeModule \<times> string \<times> RuntimeSymbol list \<Rightarrow> bool" where
  "sound_file file \<longleftrightarrow>
     (case file of (m, path, symbols) \<Rightarrow>
        symbols \<noteq> [] \<and> distinct symbols \<and> dependencies_first symbols \<and>
        (\<forall>s \<in> set symbols. \<exists>c. RuntimeContract s = Inr c \<and>
           contract_module c = m \<and> contract_outputPath c = path))"

lemma grouped_selection:
  assumes "grouped symbols paths byModule" "dependency `` set symbols \<subseteq> set symbols"
  shows "module_selection m (set (value_or [] byModule m))"
proof -
  have g: "set (value_or [] byModule m) = {s \<in> set symbols. module_of s = Some m}"
    using assms(1) by (simp add: grouped_def)
  show ?thesis unfolding module_selection_def g using assms(2) by (auto simp: module_dependency_def)
qed

lemma module_plan_known:
  assumes order: "\<And>closed. mset (visit_order closed) = mset closed"
    and known: "selected_symbols string_alias requested \<subseteq> set known_symbols"
  shows "\<exists>plan. module_plan (length known_symbols + 1) visit_order string_alias requested = Some (Inr plan) \<and>
    sorted_wrt (<) (List.map fst plan) \<and> (\<forall>file \<in> set plan. sound_file file) \<and>
    (\<Union>(m, path, symbols) \<in> set plan. set symbols) = dependency\<^sup>* `` selected_symbols string_alias requested"
proof -
  define wanted where
    "wanted = (if string_alias then gs_insert RuntimeStringValue requested else requested)"
  have w: "set wanted = selected_symbols string_alias requested"
    by (simp add: wanted_def selected_symbols_def)
  obtain closed where closed: "dependencyClosure (length known_symbols + 1) wanted = Some (Inr closed)"
    "set closed = dependency\<^sup>* `` set wanted"
    using dependencyClosure_exact [of "length known_symbols + 1" wanted] known w by (auto split: if_splits)
  have visited: "set (visit_order closed) = set closed" using order [of closed] by (rule mset_eq_setD)
  have k: "set (visit_order closed) \<subseteq> set known_symbols"
    unfolding visited closed(2) w using known reachable_known by blast
  have "grouped [] [] []" by (simp add: grouped_def)
  from group_symbols_total [OF k this]
  obtain paths byModule where g: "group_symbols (visit_order closed) ([], []) = Inr (paths, byModule)"
    "grouped (visit_order closed) paths byModule" by auto
  have "dependency `` set (visit_order closed) \<subseteq> set (visit_order closed)"
    unfolding visited closed(2) by (auto intro: rtrancl_into_rtrancl)
  note selection = grouped_selection [OF g(2) this]
  have "4 < length known_symbols + 1" by (simp add: known_symbols_eq)
  from order_modules_total [OF this selection, where modules = "sort (gm_keys byModule)" and files = "[]" and paths = paths]
  obtain plan where plan:
    "order_modules (length known_symbols + 1) paths byModule (sort (gm_keys byModule)) [] = Some (Inr plan)"
    "List.map fst plan = sort (gm_keys byModule)"
    "\<forall>(m, path, symbols) \<in> set plan. path = value_or '''' paths m \<and>
       set symbols = set (value_or [] byModule m) \<and> distinct symbols \<and> dependencies_first symbols"
    by auto
  have "module_plan (length known_symbols + 1) visit_order string_alias requested = Some (Inr plan)"
    using closed(1) g(1) plan(1) unfolding module_plan_def wanted_def by simp
  moreover have "sorted_wrt (<) (List.map fst plan)"
    unfolding plan(2) using g(2) by (simp add: grouped_def strict_sorted_iff)
  moreover have contents: "set symbols = {s \<in> set closed. module_of s = Some m} \<and> m \<in> fst ` set byModule \<and>
      path = value_or '''' paths m \<and> distinct symbols \<and> dependencies_first symbols"
    if "(m, path, symbols) \<in> set plan" for m path symbols
  proof -
    have "m \<in> set (List.map fst plan)" using that by force
    then have "m \<in> fst ` set byModule" unfolding plan(2) by simp
    then show ?thesis using plan(3) that g(2) visited by (auto simp: grouped_def)
  qed
  moreover have "sound_file (m, path, symbols)" if "(m, path, symbols) \<in> set plan" for m path symbols
  proof -
    note c = contents [OF that]
    then obtain s where "s \<in> set closed" "module_of s = Some m"
      using g(2) visited by (auto simp: grouped_def)
    then have "symbols \<noteq> []" using c by auto
    moreover have "path = module_path m" using c g(2) by (simp add: grouped_def value_or_def)
    ultimately show ?thesis using c one_path by (auto simp: sound_file_def module_of_Some)
  qed
  moreover have "(\<Union>(m, path, symbols) \<in> set plan. set symbols) = set closed"
  proof
    show "(\<Union>(m, path, symbols) \<in> set plan. set symbols) \<subseteq> set closed" using contents by fastforce
    show "set closed \<subseteq> (\<Union>(m, path, symbols) \<in> set plan. set symbols)"
    proof
      fix s
      assume s: "s \<in> set closed"
      then obtain m where m: "module_of s = Some m"
        using k visited known_contract [of s] by (auto simp: module_of_def)
      then have "m \<in> set (List.map fst plan)" unfolding plan(2) using g(2) s visited by (auto simp: grouped_def)
      then obtain path symbols where f: "(m, path, symbols) \<in> set plan" by auto
      then have "s \<in> set symbols" using contents [OF f] s m by simp
      then show "s \<in> (\<Union>(m, path, symbols) \<in> set plan. set symbols)" using f by force
    qed
  qed
  ultimately show ?thesis using closed(2) w by (intro exI [of _ plan]) auto
qed

subsection \<open>Property\<close>

text \<open>C34: The runtime package is complete and ordered.  When every selected symbol has a contract, the
  assembly succeeds with one file for each module, in the order of the modules: together the files hold
  exactly the symbols the selection depends on, each file holds the symbols of its module once, at its one
  path, and every symbol comes after the symbols of the module that it needs; no order in which Go visits
  a map changes this, and the dependencies never run into the cycle error.  Otherwise the error names the
  least symbol without a contract.\<close>

theorem module_plan_sound:
  assumes "\<And>closed. mset (visit_order closed) = mset closed"
  shows "if selected_symbols string_alias requested \<subseteq> set known_symbols
    then \<exists>plan. module_plan (length known_symbols + 1) visit_order string_alias requested = Some (Inr plan) \<and>
      sorted_wrt (<) (List.map fst plan) \<and> (\<forall>file \<in> set plan. sound_file file) \<and>
      (\<Union>(m, path, symbols) \<in> set plan. set symbols) = dependency\<^sup>* `` selected_symbols string_alias requested
    else module_plan (length known_symbols + 1) visit_order string_alias requested =
      Some (Inl (ContractFailure (RuntimeSymbolError
        (Min (selected_symbols string_alias requested - set known_symbols)))))"
proof (cases "selected_symbols string_alias requested \<subseteq> set known_symbols")
  case True
  then show ?thesis using module_plan_known [OF assms True] by simp
next
  case False
  define wanted where
    "wanted = (if string_alias then gs_insert RuntimeStringValue requested else requested)"
  have "set wanted = selected_symbols string_alias requested"
    by (simp add: wanted_def selected_symbols_def)
  then show ?thesis
    using dependencyClosure_exact [of "length known_symbols + 1" wanted] False
    unfolding module_plan_def wanted_def [symmetric] by simp
qed

text \<open>A division of integers and a panic.\<close>

lemma module_plan_sound_witness:
  "(\<exists>plan. module_plan (length known_symbols + 1) rev True [RuntimeIntegerDivide] = Some (Inr plan) \<and>
      RuntimePanic \<in> (\<Union>(m, path, symbols) \<in> set plan. set symbols)) \<and>
   module_plan (length known_symbols + 1) rev False [RuntimeIntegerDivide, 7] =
     Some (Inl (ContractFailure (RuntimeSymbolError 7)))"
proof -
  have divide: "(RuntimeIntegerDivide, RuntimePanic) \<in> dependency"
    using integer_contracts(2) by (simp add: dependency_def)
  then have panic: "RuntimePanic \<in> dependency\<^sup>* `` selected_symbols True [RuntimeIntegerDivide]"
    by (auto simp: selected_symbols_def)
  have known: "selected_symbols True [RuntimeIntegerDivide] \<subseteq> set known_symbols"
    by (simp add: selected_symbols_def known_symbols_eq)
  have unknown: "selected_symbols False [RuntimeIntegerDivide, 7] - set known_symbols = {7}"
    by (simp add: selected_symbols_def known_symbols_eq)
  then have some_unknown: "\<not> selected_symbols False [RuntimeIntegerDivide, 7] \<subseteq> set known_symbols" by blast
  obtain plan where plan: "module_plan (length known_symbols + 1) rev True [RuntimeIntegerDivide] = Some (Inr plan)"
    "(\<Union>(m, path, symbols) \<in> set plan. set symbols) = dependency\<^sup>* `` selected_symbols True [RuntimeIntegerDivide]"
    using module_plan_sound [of rev True "[RuntimeIntegerDivide]"] known by (simp only: mset_rev if_True) blast
  have "module_plan (length known_symbols + 1) rev False [RuntimeIntegerDivide, 7] =
      Some (Inl (ContractFailure (RuntimeSymbolError 7)))"
    using module_plan_sound [of rev False "[RuntimeIntegerDivide, 7]"] some_unknown unknown by simp
  then show ?thesis using plan panic by blast
qed

end
