(* ===== verification/Identifiers.thy ===== *)
theory Identifiers
  imports Emission Ordering
begin

text \<open>
  Target identifiers (\<open>internal/emit/naming/names.go\<close>): a Go name becomes a TypeScript identifier by
  escaping the runes that TypeScript code does not use here and the words that it reserves, and
  a name that is taken is numbered.

  Strings are byte strings; \<open>range\<close> over a string decodes UTF-8, where a byte that does not start a
  well-formed sequence counts as one replacement character.  The numbers that are appended are
  \<open>uint64\<close> in the code and natural numbers here.
\<close>

subsection \<open>Runes\<close>

definition is_continuation :: "char \<Rightarrow> bool" where
  "is_continuation c \<longleftrightarrow> 128 \<le> (of_char c :: nat) \<and> (of_char c :: nat) \<le> 191"

definition byte_in :: "nat \<Rightarrow> nat \<Rightarrow> char \<Rightarrow> bool" where
  "byte_in low high c \<longleftrightarrow> low \<le> of_char c \<and> of_char c \<le> high"

definition low_bits :: "char \<Rightarrow> nat" where
  "low_bits c = of_char c mod 64"

definition replacement_rune :: nat where
  "replacement_rune = 65533"

fun decodeRune :: "char \<Rightarrow> string \<Rightarrow> nat \<times> string" where
  "decodeRune c s =
     (let b = of_char c :: nat in
      if b < 128 then (b, s)
      else if byte_in 194 223 c then
        (case s of
           c1 # s1 \<Rightarrow> if is_continuation c1 then (b mod 32 * 64 + low_bits c1, s1) else (replacement_rune, s)
         | [] \<Rightarrow> (replacement_rune, s))
      else if byte_in 224 239 c then
        (case s of
           c1 # c2 # s2 \<Rightarrow>
             if byte_in (if b = 224 then 160 else 128) (if b = 237 then 159 else 191) c1 \<and> is_continuation c2
             then (b mod 16 * 4096 + low_bits c1 * 64 + low_bits c2, s2) else (replacement_rune, s)
         | _ \<Rightarrow> (replacement_rune, s))
      else if byte_in 240 244 c then
        (case s of
           c1 # c2 # c3 # s3 \<Rightarrow>
             if byte_in (if b = 240 then 144 else 128) (if b = 244 then 143 else 191) c1 \<and>
                is_continuation c2 \<and> is_continuation c3
             then (b mod 8 * 262144 + low_bits c1 * 4096 + low_bits c2 * 64 + low_bits c3, s3)
             else (replacement_rune, s)
         | _ \<Rightarrow> (replacement_rune, s))
      else (replacement_rune, s))"

lemma decodeRune_shorter: "length (snd (decodeRune c s)) \<le> length s"
  by (auto simp: Let_def split: list.splits)

declare decodeRune.simps [simp del]

function runes :: "string \<Rightarrow> nat list" where
  "runes [] = []"
| "runes (c # s) = (case decodeRune c s of (r, rest) \<Rightarrow> r # runes rest)"
  by pat_completeness auto
termination
  by (relation "measure length") (simp_all add: less_Suc_eq_le, metis decodeRune_shorter snd_conv)

subsection \<open>Portable identifiers\<close>

text \<open>\<open>strconv.FormatInt(value, 16)\<close> for a rune.\<close>

definition hex_digit :: "nat \<Rightarrow> char" where
  "hex_digit d = char_of (if d < 10 then 48 + d else 87 + d)"

fun hex :: "nat \<Rightarrow> string" where
  "hex n = (if n < 16 then [hex_digit n] else hex (n div 16) @ [hex_digit (n mod 16)])"

declare hex.simps [simp del]

definition RequiresBindingIdentifierEscape :: "string \<Rightarrow> bool" where
  "RequiresBindingIdentifierEscape t \<longleftrightarrow> t \<in> set [
    ''break'', ''case'', ''catch'', ''class'', ''const'', ''continue'', ''debugger'', ''default'',
    ''delete'', ''do'', ''else'', ''enum'', ''export'', ''extends'', ''false'', ''finally'', ''for'',
    ''function'', ''if'', ''import'', ''in'', ''instanceof'', ''new'', ''null'', ''return'', ''super'',
    ''switch'', ''this'', ''throw'', ''true'', ''try'', ''typeof'', ''var'', ''void'', ''while'',
    ''with'', ''implements'', ''interface'', ''let'', ''package'', ''private'', ''protected'',
    ''public'', ''static'', ''yield'', ''abstract'', ''accessor'', ''as'', ''asserts'', ''assert'',
    ''any'', ''async'', ''await'', ''boolean'', ''constructor'', ''declare'', ''get'', ''immediate'',
    ''infer'', ''intrinsic'', ''is'', ''keyof'', ''module'', ''namespace'', ''never'', ''out'',
    ''readonly'', ''require'', ''number'', ''object'', ''satisfies'', ''set'', ''string'', ''symbol'',
    ''type'', ''undefined'', ''unique'', ''unknown'', ''using'', ''from'', ''global'', ''bigint'',
    ''override'', ''of'', ''defer'', ''arguments'', ''eval'']"

definition plain_rune :: "nat \<Rightarrow> bool" where
  "plain_rune v \<longleftrightarrow> (65 \<le> v \<and> v \<le> 90) \<or> (97 \<le> v \<and> v \<le> 122) \<or> (48 \<le> v \<and> v \<le> 57) \<or> v = 95"

definition portableRune :: "nat \<Rightarrow> string" where
  "portableRune v = (if plain_rune v then [char_of v] else ''__u'' @ hex v @ ''_'')"

definition portableIdentifier :: "string \<Rightarrow> string" where
  "portableIdentifier source =
     (let identifier = concat (map portableRune (runes source)) in
      if identifier = ''__proto__'' \<or> RequiresBindingIdentifierEscape identifier
      then ''__go_'' @ identifier else identifier)"

text \<open>What a binding identifier has to be.\<close>

definition plain_char :: "char \<Rightarrow> bool" where
  "plain_char c \<longleftrightarrow> plain_rune (of_char c)"

definition binding_identifier :: "string \<Rightarrow> bool" where
  "binding_identifier s \<longleftrightarrow> s \<noteq> [] \<and> list_all plain_char s \<and> \<not> is_digit (hd s) \<and>
     \<not> RequiresBindingIdentifierEscape s \<and> s \<noteq> ''__proto__''"

lemma portable_examples:
  "portableIdentifier ''value'' = ''value''"
  "portableIdentifier [char_of (207 :: nat), char_of (128 :: nat)] = ''__u3c0_''"
  "portableIdentifier (char_of (206 :: nat) # char_of (148 :: nat) # ''elta'') = ''__u394_elta''"
  "portableIdentifier ''class'' = ''__go_class''"
  "portableIdentifier ''arguments'' = ''__go_arguments''"
  "portableIdentifier ''__proto__'' = ''__go___proto__''"
  by code_simp+

lemma hex_digit_plain: "d < 16 \<Longrightarrow> plain_char (hex_digit d)"
  by (auto simp: plain_char_def plain_rune_def hex_digit_def)

lemma hex_plain: "list_all plain_char (hex n)"
proof (induction n rule: hex.induct)
  case (1 n)
  then show ?case by (subst hex.simps) (auto simp: hex_digit_plain)
qed

lemma portableRune_plain: "list_all plain_char (portableRune v)"
  by (auto simp: portableRune_def hex_plain plain_char_def plain_rune_def)

lemma portableRune_hd:
  "\<not> (48 \<le> v \<and> v \<le> 57) \<Longrightarrow> portableRune v \<noteq> [] \<and> \<not> is_digit (hd (portableRune v))"
  by (auto simp: portableRune_def plain_rune_def is_digit_def)

lemma escaped_word_free: "\<not> RequiresBindingIdentifierEscape (''__go_'' @ s)"
  by (simp add: RequiresBindingIdentifierEscape_def)

lemma portableIdentifier_plain: "list_all plain_char (portableIdentifier source)"
proof -
  have "list_all plain_char (concat (map portableRune rs))" for rs
    by (induction rs) (auto simp: portableRune_plain)
  then show ?thesis
    by (auto simp: portableIdentifier_def Let_def plain_char_def plain_rune_def)
qed

lemma portableIdentifier_binding:
  assumes "runes source = r # rs" "\<not> (48 \<le> r \<and> r \<le> 57)"
  shows "binding_identifier (portableIdentifier source)"
proof -
  define i where "i = concat (map portableRune (runes source))"
  have i: "i \<noteq> []" "\<not> is_digit (hd i)"
    using portableRune_hd [OF assms(2)] assms(1) by (auto simp: i_def)
  have escaped: "\<not> is_digit (hd (''__go_'' @ i))" "''__go_'' @ i \<noteq> ''__proto__''" "''__go_'' @ i \<noteq> []"
    by (auto simp: is_digit_def)
  have p: "portableIdentifier source =
      (if i = ''__proto__'' \<or> RequiresBindingIdentifierEscape i then ''__go_'' @ i else i)"
    by (simp only: portableIdentifier_def Let_def i_def)
  show ?thesis
  proof (cases "i = ''__proto__'' \<or> RequiresBindingIdentifierEscape i")
    case True
    then have "portableIdentifier source = ''__go_'' @ i" by (simp only: p if_True)
    then show ?thesis
      using escaped escaped_word_free [of i] portableIdentifier_plain [of source]
      by (simp only: binding_identifier_def simp_thms)
  next
    case False
    then have "portableIdentifier source = i" by (simp only: p if_False)
    then show ?thesis
      using False i portableIdentifier_plain [of source] by (simp only: binding_identifier_def) blast
  qed
qed

subsection \<open>Numbered names\<close>

text \<open>
  The loops that number a name until it is free try \<open>base\<close>, then \<open>base\<close>, a separator and 1, 2 and so on.
  They end because the candidates differ and only finitely many names are taken.
\<close>

definition numbered :: "string \<Rightarrow> string \<Rightarrow> nat \<Rightarrow> string" where
  "numbered base sep k = (if k = 0 then base else base @ sep @ itoa k)"

lemma numbered_inject [simp]: "numbered base sep j = numbered base sep k \<longleftrightarrow> j = k"
  by (auto simp: numbered_def)

lemma finite_numbered: "finite {k. numbered base sep k \<in> set taken}"
proof (rule finite_imageD)
  show "finite (numbered base sep ` {k. numbered base sep k \<in> set taken})"
    by (rule finite_subset [of _ "set taken"]) auto
qed (auto simp: inj_on_def)

text \<open>The measure of such a loop: how many of the remaining numbers are taken.\<close>

lemma remaining_decreases:
  fixes k :: nat
  assumes "finite A" "k \<in> A" "k < m"
  shows "card (A \<inter> {m..}) < card (A \<inter> {k..})"
proof (rule psubset_card_mono)
  have "k \<in> A \<inter> {k..}" "k \<notin> A \<inter> {m..}" using assms by auto
  then show "A \<inter> {m..} \<subset> A \<inter> {k..}" using assms(3) by fastforce
qed (use assms in simp)

function firstFree :: "string list \<Rightarrow> string \<Rightarrow> string \<Rightarrow> nat \<Rightarrow> string" where
  "firstFree taken base sep k =
     (if numbered base sep k \<in> set taken then firstFree taken base sep (k + 1) else numbered base sep k)"
  by pat_completeness auto
termination
  by (relation "measure (\<lambda>(taken, base, sep, k). card ({k. numbered base sep k \<in> set taken} \<inter> {k..}))")
    (auto intro!: remaining_decreases finite_numbered)

declare firstFree.simps [simp del]

lemma firstFree_free: "firstFree taken base sep k \<notin> set taken"
proof (induction taken base sep k rule: firstFree.induct)
  case (1 taken base sep k)
  then show ?case by (subst firstFree.simps) auto
qed

lemma firstFree_shape: "\<exists>j\<ge>k. firstFree taken base sep k = numbered base sep j"
proof (induction taken base sep k rule: firstFree.induct)
  case (1 taken base sep k)
  then show ?case by (subst firstFree.simps) (auto intro: Suc_leD exI [of _ k])
qed

lemma firstFree_least:
  "k \<le> j \<Longrightarrow> numbered base sep j \<notin> set taken \<Longrightarrow> (\<forall>i. k \<le> i \<longrightarrow> i < j \<longrightarrow> numbered base sep i \<in> set taken) \<Longrightarrow>
     firstFree taken base sep k = numbered base sep j"
proof (induction taken base sep k rule: firstFree.induct)
  case (1 taken base sep k)
  then show ?case by (subst firstFree.simps) (cases "k = j", auto simp: Suc_le_eq)
qed

lemma firstFree_cong: "set taken = set taken' \<Longrightarrow> firstFree taken base sep k = firstFree taken' base sep k"
proof (induction taken base sep k rule: firstFree.induct)
  case (1 taken base sep k)
  then show ?case by (simp add: firstFree.simps [of _ _ _ k])
qed

end
