(* ===== verification/Names.thy ===== *)
theory Names
  imports Identifiers TypeIdentity
begin

text \<open>
  The names of a package (\<open>internal/emit/naming/names.go\<close>): every object that go/types records gets its
  target name before anything is emitted.  TypeScript has the scopes of Go, but a name may only be reused in an
  inner scope if the outer one stays visible, so the names of a scope and of all scopes around it
  have to differ.

  The maps and sets of the owner are \<open>gomap\<close>s and lists; the scope tree of go/types is \<open>scope_tree\<close>; the
  printed form of an object, which breaks ties of the order, is the argument \<open>objectString\<close>.
  An active name is counted once only, so its \<open>uint32\<close> count does not overflow.
\<close>

record name_owner =
  targetNameByObject :: "(go_object, string) gomap"
  sourceNameBases :: "string list"
  generatedSuffixes :: "(string, nat list) gomap"
  nextGeneratedSuffix :: "(string, nat) gomap"
  memberNameByObject :: "(go_object, string) gomap"

definition targetName :: "name_owner \<Rightarrow> go_object \<Rightarrow> string" where
  "targetName n x = value_or '''' (targetNameByObject n) x"

definition setTargetName :: "go_object \<Rightarrow> string \<Rightarrow> name_owner \<Rightarrow> name_owner" where
  "setTargetName x s n = n\<lparr>targetNameByObject := gm_put x s (targetNameByObject n)\<rparr>"

lemma targetName_set [simp]: "targetName (setTargetName x s n) y = (if y = x then s else targetName n y)"
  by (simp add: targetName_def setTargetName_def)

lemma setTargetName_sources [simp]: "sourceNameBases (setTargetName x s n) = sourceNameBases n"
  by (simp add: setTargetName_def)

subsection \<open>Generated suffixes\<close>

definition shadow :: "string \<Rightarrow> nat \<Rightarrow> string" where
  "shadow base k = base @ ''__shadow_'' @ itoa k"

lemma shadow_inject [simp]: "shadow base j = shadow base k \<longleftrightarrow> j = k"
  by (simp add: shadow_def)

lemma finite_shadow: "finite A \<Longrightarrow> finite {k. shadow base k \<in> A}"
  by (rule finite_imageD [of "shadow base"], rule finite_subset [of _ A]) (auto simp: inj_on_def)

text \<open>The loop of \<open>generatedSuffix\<close>: it lists the suffixes that no source name of the package ends in.\<close>

function extendSuffixes :: "string list \<Rightarrow> string \<Rightarrow> nat \<Rightarrow> nat list \<Rightarrow> nat \<Rightarrow> nat list \<times> nat" where
  "extendSuffixes reserved base index suffixes upcoming =
     (if length suffixes \<le> index then
        if shadow base upcoming \<in> set reserved
        then extendSuffixes reserved base index suffixes (upcoming + 1)
        else extendSuffixes reserved base index (suffixes @ [upcoming]) (upcoming + 1)
      else (suffixes, upcoming))"
  by pat_completeness auto
termination
  by (relation "measures [\<lambda>(reserved, base, index, suffixes, upcoming). index + 1 - length suffixes,
      \<lambda>(reserved, base, index, suffixes, upcoming).
        card ({k. shadow base k \<in> set reserved} \<inter> {upcoming..})]")
    (auto intro!: remaining_decreases finite_shadow)

declare extendSuffixes.simps [simp del]

definition generatedSuffix :: "name_owner \<Rightarrow> string \<Rightarrow> nat \<Rightarrow> name_owner \<times> nat" where
  "generatedSuffix n base index =
     (let suffixes = value_or [] (generatedSuffixes n) base;
          upcoming = value_or 0 (nextGeneratedSuffix n) base;
          upcoming = (if upcoming = 0 then 1 else upcoming);
          (suffixes, upcoming) = extendSuffixes (sourceNameBases n) base index suffixes upcoming
      in (n\<lparr>generatedSuffixes := gm_put base suffixes (generatedSuffixes n),
            nextGeneratedSuffix := gm_put base upcoming (nextGeneratedSuffix n)\<rparr>, suffixes ! index))"

lemma extendSuffixes_done:
  "extendSuffixes reserved base index suffixes upcoming = (s, u) \<Longrightarrow>
     upcoming \<le> u \<and> (\<exists>more. s = suffixes @ more \<and> (\<forall>k \<in> set more. upcoming \<le> k \<and> k < u \<and> shadow base k \<notin> set reserved) \<and>
       (more \<noteq> [] \<longrightarrow> length s = index + 1)) \<and> index < length s"
proof (induction reserved base index suffixes upcoming rule: extendSuffixes.induct)
  case (1 reserved base index suffixes upcoming)
  show ?case
  proof (cases "length suffixes \<le> index")
    case False
    with 1 show ?thesis by (simp add: extendSuffixes.simps)
  next
    case long: True
    show ?thesis
    proof (cases "shadow base upcoming \<in> set reserved")
      case True
      then have e: "extendSuffixes reserved base index suffixes (upcoming + 1) = (s, u)"
        using "1.prems" long by (simp add: extendSuffixes.simps [of reserved base index suffixes upcoming])
      obtain more where "s = suffixes @ more" "\<forall>k \<in> set more. upcoming + 1 \<le> k \<and> k < u \<and> shadow base k \<notin> set reserved"
        "more \<noteq> [] \<longrightarrow> length s = index + 1" "upcoming + 1 \<le> u" "index < length s"
        using "1.IH"(1) [OF long True e] by blast
      then show ?thesis by (intro conjI exI [of _ more]) auto
    next
      case False
      then have e: "extendSuffixes reserved base index (suffixes @ [upcoming]) (upcoming + 1) = (s, u)"
        using "1.prems" long by (simp add: extendSuffixes.simps [of reserved base index suffixes upcoming])
      obtain more where more: "s = (suffixes @ [upcoming]) @ more" "\<forall>k \<in> set more. upcoming + 1 \<le> k \<and> k < u \<and> shadow base k \<notin> set reserved"
        "more \<noteq> [] \<longrightarrow> length s = index + 1" "upcoming + 1 \<le> u" "index < length s"
        using "1.IH"(2) [OF long False e] by blast
      have "length s = index + 1"
        using more long by (cases "more = []") auto
      then show ?thesis
        using more False by (intro conjI exI [of _ "upcoming # more"]) auto
    qed
  qed
qed

text \<open>
  The search for a name of an object: candidates of increasing rank until one is not active in a
  surrounding scope (and not a reserved type name, for a type).
\<close>

definition IsReservedTargetTypeName :: "string \<Rightarrow> bool" where
  "IsReservedTargetTypeName name \<longleftrightarrow>
     name = TargetIntrinsic_String TargetIntrinsicObject \<or> name = TargetIntrinsic_String TargetIntrinsicPromise"

definition reservedTargetTypeName :: "go_object \<Rightarrow> string \<Rightarrow> bool" where
  "reservedTargetTypeName x name \<longleftrightarrow> object_kind x = TypeNameObject \<and> IsReservedTargetTypeName name"

definition candidateName :: "name_owner \<Rightarrow> string \<Rightarrow> nat \<Rightarrow> name_owner \<times> string" where
  "candidateName n base rank =
     (if rank = 0 then (n, base)
      else let (n, suffix) = generatedSuffix n base (rank - 1) in (n, shadow base suffix))"

definition name_taken :: "(string, nat) gomap \<Rightarrow> go_object \<Rightarrow> string \<Rightarrow> bool" where
  "name_taken active x name \<longleftrightarrow> value_or 0 active name \<noteq> 0 \<or> reservedTargetTypeName x name"

lemma finite_taken: "finite {name. name_taken active x name}"
proof (rule finite_subset)
  show "{name. name_taken active x name} \<subseteq> fst ` set active \<union>
      {TargetIntrinsic_String TargetIntrinsicObject, TargetIntrinsic_String TargetIntrinsicPromise}"
    by (auto simp: name_taken_def reservedTargetTypeName_def IsReservedTargetTypeName_def value_or_def
        intro: gm_get_key split: option.splits)
qed simp

definition suffixes_of :: "name_owner \<Rightarrow> string \<Rightarrow> nat list" where
  "suffixes_of n base = value_or [] (generatedSuffixes n) base"

definition upcoming_of :: "name_owner \<Rightarrow> string \<Rightarrow> nat" where
  "upcoming_of n base = (let u = value_or 0 (nextGeneratedSuffix n) base in if u = 0 then 1 else u)"

text \<open>A candidate beyond the listed suffixes has a new suffix, so the candidates never repeat for long.\<close>

lemma candidateName_fresh:
  assumes "candidateName n base rank = (n', c)" "length (suffixes_of n base) < rank"
  shows "\<exists>k. upcoming_of n base \<le> k \<and> k < upcoming_of n' base \<and> c = shadow base k \<and>
    length (suffixes_of n' base) = rank"
proof -
  obtain s u where e: "extendSuffixes (sourceNameBases n) base (rank - 1) (suffixes_of n base) (upcoming_of n base) = (s, u)"
    by (cases "extendSuffixes (sourceNameBases n) base (rank - 1) (suffixes_of n base) (upcoming_of n base)")
  have c: "c = shadow base (s ! (rank - 1))" "suffixes_of n' base = s" "value_or 0 (nextGeneratedSuffix n') base = u"
    using assms e by (auto simp: candidateName_def generatedSuffix_def suffixes_of_def upcoming_of_def Let_def
        split: if_splits prod.splits)
  obtain more where more: "s = suffixes_of n base @ more" "\<forall>k \<in> set more. upcoming_of n base \<le> k \<and> k < u"
    "more \<noteq> [] \<longrightarrow> length s = rank - 1 + 1" "rank - 1 < length s" "upcoming_of n base \<le> u"
    using extendSuffixes_done [OF e] by blast
  have "0 < upcoming_of n base" by (simp add: upcoming_of_def Let_def)
  then have u: "upcoming_of n' base = u" using more(5) c(3) by (simp add: upcoming_of_def)
  have "s ! (rank - 1) \<in> set more"
    using more(1,4) assms(2) by (auto simp: nth_append)
  then show ?thesis using more c u assms(2) by (intro exI [of _ "s ! (rank - 1)"]) auto
qed

lemma candidateName_kept:
  assumes "candidateName n base rank = (n', c)" "rank \<le> length (suffixes_of n base)"
  shows "suffixes_of n' base = suffixes_of n base \<and> upcoming_of n' base = upcoming_of n base"
proof (cases "rank = 0")
  case True
  with assms show ?thesis by (simp add: candidateName_def)
next
  case False
  have "\<not> length (suffixes_of n base) \<le> rank - 1" using assms(2) False by arith
  then have e: "extendSuffixes (sourceNameBases n) base (rank - 1) (suffixes_of n base) (upcoming_of n base) =
      (suffixes_of n base, upcoming_of n base)"
    by (subst extendSuffixes.simps) (simp only: if_False)
  then show ?thesis
    using assms(1) False by (auto simp: candidateName_def generatedSuffix_def suffixes_of_def upcoming_of_def Let_def
        split: prod.splits)
qed

function chooseName ::
    "name_owner \<Rightarrow> go_object \<Rightarrow> string \<Rightarrow> (string, nat) gomap \<Rightarrow> nat \<Rightarrow> name_owner \<times> nat \<times> string" where
  "chooseName n x base active rank =
     (case candidateName n base rank of (n', candidate) \<Rightarrow>
        if value_or 0 active candidate = 0 \<and> \<not> reservedTargetTypeName x candidate
        then (n', rank, candidate) else chooseName n' x base active (rank + 1))"
  by pat_completeness auto
termination
proof (relation "measures [\<lambda>(n, x, base, active, rank). length (suffixes_of n base) + 1 - rank,
    \<lambda>(n, x, base, active, rank). card ({k. name_taken active x (shadow base k)} \<inter> {upcoming_of n base..})]")
  fix n n' x base and active :: "(string, nat) gomap" and rank c
  assume p: "(n', c) = candidateName n base rank"
    and t: "\<not> (value_or 0 active c = 0 \<and> \<not> reservedTargetTypeName x c)"
  have cand: "candidateName n base rank = (n', c)" using p by simp
  have taken: "name_taken active x c" using t by (simp add: name_taken_def)
  show "((n', x, base, active, rank + 1), (n, x, base, active, rank)) \<in>
    measures [\<lambda>(n, x, base, active, rank). length (suffixes_of n base) + 1 - rank,
      \<lambda>(n, x, base, active, rank). card ({k. name_taken active x (shadow base k)} \<inter> {upcoming_of n base..})]"
  proof (cases "rank \<le> length (suffixes_of n base)")
    case True
    then show ?thesis using candidateName_kept [OF cand] by simp
  next
    case False
    then obtain k where k: "upcoming_of n base \<le> k" "k < upcoming_of n' base" "c = shadow base k"
      "length (suffixes_of n' base) = rank"
      using candidateName_fresh [OF cand] by auto
    have fin: "finite {k. name_taken active x (shadow base k)}"
      using finite_shadow [OF finite_taken, of base active x] by simp
    have "card ({k. name_taken active x (shadow base k)} \<inter> {upcoming_of n' base..})
        < card ({k. name_taken active x (shadow base k)} \<inter> {k..})"
      using fin taken k by (intro remaining_decreases) auto
    also have "\<dots> \<le> card ({k. name_taken active x (shadow base k)} \<inter> {upcoming_of n base..})"
      using fin k(1) by (intro card_mono) auto
    finally show ?thesis using False k(4) by simp
  qed
qed simp

declare chooseName.simps [simp del]

subsection \<open>The names of a scope\<close>

definition compareNameObjects :: "(go_object \<Rightarrow> string) \<Rightarrow> go_object \<Rightarrow> go_object \<Rightarrow> int" where
  "compareNameObjects objectString left right =
     (if object_pos left < object_pos right then -1
      else if object_pos left > object_pos right then 1
      else if object_name left < object_name right then -1
      else if object_name left > object_name right then 1
      else if objectString left < objectString right then -1
      else if objectString left > objectString right then 1
      else 0)"

text \<open>What \<open>preallocateScope\<close> keeps while it names the objects of one scope.\<close>

record allocation =
  al_owner :: name_owner
  al_counts :: "(string, nat) gomap"
  al_names :: "(string, nat) gomap"
  al_original :: "(string, nat) gomap"
  al_scopeNames :: "string list"

definition allocateObject :: "allocation \<Rightarrow> go_object \<Rightarrow> allocation" where
  "allocateObject al x =
     (let base = portableIdentifier (object_name x);
          original = (if gm_get (al_original al) base = None
                      then gm_put base (value_or 0 (al_counts al) base) (al_original al) else al_original al);
          (n, rank, candidate) =
            chooseName (al_owner al) x base (al_names al) (value_or 0 (al_counts al) base)
      in \<lparr>al_owner = setTargetName x candidate n,
          al_counts = gm_put base (rank + 1) (al_counts al),
          al_names = gm_put candidate (value_or 0 (al_names al) candidate + 1) (al_names al),
          al_original = original,
          al_scopeNames = al_scopeNames al @ [candidate]\<rparr>)"

fun releaseNames :: "string list \<Rightarrow> (string, nat) gomap \<Rightarrow> (string, nat) gomap" where
  "releaseNames [] active = active"
| "releaseNames (name # names) active =
     (let active = gm_put name (value_or 0 active name - 1) active;
          active = (if value_or 0 active name = 0 then gm_del name active else active)
      in releaseNames names active)"

fun restoreCounts :: "(string, nat) gomap \<Rightarrow> (string, nat) gomap \<Rightarrow> (string, nat) gomap" where
  "restoreCounts [] counts = counts"
| "restoreCounts ((base, original) # rest) counts =
     restoreCounts rest (if original = 0 then gm_del base counts else gm_put base original counts)"

datatype scope_tree = ScopeNode (tree_scope: scope) (tree_children: "scope_tree list")

type_synonym scope_objects = "(scope, go_object list) gomap"
type_synonym scope_state = "name_owner \<times> (string, nat) gomap \<times> (string, nat) gomap"

fun preallocateScope :: "(go_object \<Rightarrow> string) \<Rightarrow> scope_objects \<Rightarrow> scope_tree \<Rightarrow> scope_state \<Rightarrow> scope_state"
  and preallocateChildren :: "(go_object \<Rightarrow> string) \<Rightarrow> scope_objects \<Rightarrow> scope_tree list \<Rightarrow> scope_state \<Rightarrow> scope_state"
where
  "preallocateScope objectString objectsByScope (ScopeNode scope children) (n, counts, active) =
     (let objects = sort_by (compareNameObjects objectString) (value_or [] objectsByScope scope);
          al = foldl allocateObject
            \<lparr>al_owner = n, al_counts = counts, al_names = active, al_original = [], al_scopeNames = []\<rparr> objects;
          (n, counts, active) =
            preallocateChildren objectString objectsByScope children (al_owner al, al_counts al, al_names al)
      in (n, restoreCounts (al_original al) counts, releaseNames (al_scopeNames al) active))"
| "preallocateChildren objectString objectsByScope [] st = st"
| "preallocateChildren objectString objectsByScope (t # ts) st =
     preallocateChildren objectString objectsByScope ts (preallocateScope objectString objectsByScope t st)"

subsection \<open>Labels, methods, members and the whole package\<close>

definition compareNames :: "string \<Rightarrow> string \<Rightarrow> int" where
  "compareNames = ord_cmp"

fun nameLabels :: "go_object list \<Rightarrow> (string, nat) gomap \<Rightarrow> name_owner \<Rightarrow> name_owner" where
  "nameLabels [] counts n = n"
| "nameLabels (label # labels) counts n =
     (let base = portableIdentifier (object_name label);
          index = value_or 0 counts base;
          name = (if index \<noteq> 0 then base @ ''__label_'' @ itoa index else base)
      in nameLabels labels (gm_put base (index + 1) counts) (setTargetName label name n))"

definition preallocateLabels :: "(go_object \<Rightarrow> string) \<Rightarrow> go_object list \<Rightarrow> name_owner \<Rightarrow> name_owner" where
  "preallocateLabels objectString labels n =
     nameLabels (sort_by (compareNameObjects objectString) labels) [] n"

definition receiverBaseName :: "(type_ref \<Rightarrow> go_type) \<Rightarrow> type_ref \<Rightarrow> string" where
  "receiverBaseName typeOf receiver =
     (let sourceType = (case Unalias (typeOf receiver) of PointerType element \<Rightarrow> element | _ \<Rightarrow> typeOf receiver)
      in case Unalias sourceType of
           NamedType (Some obj) _ \<Rightarrow> object_name obj
         | _ \<Rightarrow> ''receiver'')"

definition methodReceiver :: "go_object \<Rightarrow> type_ref option" where
  "methodReceiver x = (case object_kind x of FuncObject receiver \<Rightarrow> receiver | _ \<Rightarrow> None)"

definition nameMethod :: "(type_ref \<Rightarrow> go_type) \<Rightarrow> string list \<times> name_owner \<Rightarrow> go_object \<Rightarrow> string list \<times> name_owner" where
  "nameMethod typeOf st x =
     (case st of (used, n) \<Rightarrow>
        case methodReceiver x of
          None \<Rightarrow> (used, n)
        | Some receiver \<Rightarrow>
            if object_name x = ''_'' then (used, n)
            else let base = portableIdentifier (receiverBaseName typeOf receiver) @ ''_'' @
                       portableIdentifier (object_name x);
                     candidate = firstFree (used @ sourceNameBases n) base ''__method_'' 0
                 in (gs_insert candidate used, setTargetName x candidate n))"

definition preallocateMethods ::
    "(go_object \<Rightarrow> string) \<Rightarrow> (type_ref \<Rightarrow> go_type) \<Rightarrow> go_object list \<Rightarrow> name_owner \<Rightarrow> name_owner" where
  "preallocateMethods objectString typeOf definitions n =
     (let methods = filter (\<lambda>x. methodReceiver x \<noteq> None) definitions;
          methods = sort_by (compareNameObjects objectString) methods
      in snd (foldl (nameMethod typeOf) (gs_of (map snd (targetNameByObject n)), n) methods))"

text \<open>The fields of a struct type: a field that already has a name keeps it.\<close>

definition PromiseAssimilationMember :: string where
  "PromiseAssimilationMember = ''then''"

definition nameField :: "string list \<times> (go_object, string) gomap \<Rightarrow> go_object \<Rightarrow>
    string list \<times> (go_object, string) gomap" where
  "nameField st field =
     (case st of (used, members) \<Rightarrow>
        let existing = value_or '''' members field in
        if existing \<noteq> '''' then (gs_insert existing used, members)
        else let candidate = firstFree used (portableIdentifier (object_name field)) ''__field_'' 0
             in (gs_insert candidate used, gm_put field candidate members))"

definition preallocateStructMembers :: "name_owner \<Rightarrow> go_object list \<Rightarrow> name_owner" where
  "preallocateStructMembers n structFields =
     n\<lparr>memberNameByObject :=
         snd (foldl nameField ([''constructor'', PromiseAssimilationMember], memberNameByObject n) structFields)\<rparr>"

text \<open>
  What go/types records of a package: the definitions and implicit objects (in the order in which Go
  iterates over the maps; an entry can be nil), the type names of the package scope with the fields of the
  structs they name, and the other struct types of the package.
\<close>

record type_information =
  info_Defs :: "go_object option list"
  info_Implicits :: "go_object option list"
  info_typeOf :: "type_ref \<Rightarrow> go_type"
  info_named_structs :: "(string \<times> go_object list) list"
  info_structs :: "(nat \<times> go_object list) list"

definition preallocateMembers :: "type_information \<Rightarrow> name_owner \<Rightarrow> name_owner" where
  "preallocateMembers info n =
     foldl preallocateStructMembers n
       (map snd (sort_by (\<lambda>x y. compareNames (fst x) (fst y)) (info_named_structs info)))"

fun anonymousStructs :: "nat list \<Rightarrow> (nat \<times> go_object list) list \<Rightarrow> go_object list list" where
  "anonymousStructs seen [] = []"
| "anonymousStructs seen ((struct, structFields) # rest) =
     (if struct \<in> set seen then anonymousStructs seen rest
      else structFields # anonymousStructs (gs_insert struct seen) rest)"

definition preallocateAnonymousMembers :: "type_information \<Rightarrow> name_owner \<Rightarrow> name_owner" where
  "preallocateAnonymousMembers info n =
     foldl preallocateStructMembers n (anonymousStructs [] (info_structs info))"

record name_index =
  ni_bases :: "string list"
  ni_seen :: "go_object list"
  ni_labels :: "go_object list"
  ni_objects :: scope_objects

definition recordObject :: "name_index \<Rightarrow> go_object option \<Rightarrow> name_index" where
  "recordObject r entry =
     (case entry of
        None \<Rightarrow> r
      | Some x \<Rightarrow>
          if object_name x = ''_'' then r
          else let r = r\<lparr>ni_bases := gs_insert (portableIdentifier (object_name x)) (ni_bases r)\<rparr> in
            if object_kind x = LabelObject then
              (if x \<in> set (ni_seen r) then r
               else r\<lparr>ni_seen := gs_insert x (ni_seen r), ni_labels := ni_labels r @ [x]\<rparr>)
            else (case object_parent x of
                None \<Rightarrow> r
              | Some scope \<Rightarrow>
                  if x \<in> set (ni_seen r) then r
                  else r\<lparr>ni_seen := gs_insert x (ni_seen r),
                         ni_objects := gm_put scope (value_or [] (ni_objects r) scope @ [x]) (ni_objects r)\<rparr>))"

definition recordedNames :: "type_information \<Rightarrow> name_index" where
  "recordedNames info =
     foldl recordObject \<lparr>ni_bases = [], ni_seen = [], ni_labels = [], ni_objects = []\<rparr>
       (info_Defs info @ info_Implicits info)"

definition emptyOwner :: "(go_object, string) gomap \<Rightarrow> string list \<Rightarrow> name_owner" where
  "emptyOwner members bases =
     \<lparr>targetNameByObject = [], sourceNameBases = bases, generatedSuffixes = [], nextGeneratedSuffix = [],
      memberNameByObject = members\<rparr>"

text \<open>\<open>NewOwner\<close>; the members are those of the registry that all packages share.\<close>

definition NewOwner :: "(go_object \<Rightarrow> string) \<Rightarrow> scope_tree option \<Rightarrow> type_information option \<Rightarrow>
    (go_object, string) gomap \<Rightarrow> name_owner" where
  "NewOwner objectString packageTree information members =
     (case information of
        None \<Rightarrow> emptyOwner members []
      | Some info \<Rightarrow>
          let r = recordedNames info;
              n = emptyOwner members (ni_bases r);
              n = (case packageTree of
                     None \<Rightarrow> n
                   | Some scope \<Rightarrow>
                       let n = fst (preallocateScope objectString (ni_objects r) scope
                                      (n, [], [(TargetGlobalAnchorName, 1)]));
                           n = preallocateMethods objectString (info_typeOf info)
                                 (List.map_filter id (info_Defs info)) n;
                           n = preallocateMembers info n
                       in preallocateAnonymousMembers info n)
          in preallocateLabels objectString (ni_labels r) n)"

text \<open>The initializers of a package are functions of one name; every one after the first gets a suffix.\<close>

fun nameInitializers :: "nat \<Rightarrow> go_object option list \<Rightarrow> name_owner \<Rightarrow> name_error + name_owner" where
  "nameInitializers index [] n = Inr n"
| "nameInitializers index (entry # rest) n =
     (case entry of
        None \<Rightarrow> Inl (NameError '''' ''package initializer identity is invalid'')
      | Some x \<Rightarrow>
          if (case object_kind x of FuncObject _ \<Rightarrow> False | _ \<Rightarrow> True) \<or> object_name x \<noteq> ''init'' \<or>
             object_package x = None
          then Inl (NameError (object_name x) ''package initializer identity is invalid'')
          else let base = portableIdentifier (object_name x);
                   (n, name) = (if index \<noteq> 0
                     then let (n, suffix) = generatedSuffix n base (index - 1) in (n, shadow base suffix)
                     else (n, base))
               in nameInitializers (index + 1) rest (setTargetName x name n))"

definition PreallocatePackageInitializers :: "go_object option list \<Rightarrow> name_owner \<Rightarrow> name_error + name_owner" where
  "PreallocatePackageInitializers objects n = nameInitializers 0 objects n"

end
