(* ===== verification/NameScopes.thy ===== *)
theory NameScopes
  imports Names
begin

text \<open>
  What the names of a package guarantee: along every path of the scope tree the objects have different
  names, so that no declaration hides another one that Go keeps visible.  The proof follows the
  recursion over the tree: the active names are those of the scopes around it, and they are
  restored when a scope is left.
\<close>

subsection \<open>One object\<close>

text \<open>The listed suffixes never make a name of the source.\<close>

definition suffixes_ok :: "name_owner \<Rightarrow> bool" where
  "suffixes_ok n \<longleftrightarrow> (\<forall>base. \<forall>k \<in> set (suffixes_of n base). shadow base k \<notin> set (sourceNameBases n))"

definition same_names :: "name_owner \<Rightarrow> name_owner \<Rightarrow> bool" where
  "same_names n n' \<longleftrightarrow> targetNameByObject n' = targetNameByObject n \<and> sourceNameBases n' = sourceNameBases n \<and>
     memberNameByObject n' = memberNameByObject n"

definition proper_name :: "string list \<Rightarrow> go_object \<Rightarrow> string \<Rightarrow> bool" where
  "proper_name bases x name \<longleftrightarrow>
     name = portableIdentifier (object_name x) \<or>
     (\<exists>k. name = shadow (portableIdentifier (object_name x)) k \<and> name \<notin> set bases)"

lemma generatedSuffix_props:
  assumes "generatedSuffix n base index = (n', k)" "suffixes_ok n"
  shows "suffixes_ok n' \<and> same_names n n' \<and> shadow base k \<notin> set (sourceNameBases n)"
proof -
  obtain s u where e: "extendSuffixes (sourceNameBases n) base index (suffixes_of n base) (upcoming_of n base) = (s, u)"
    by (cases "extendSuffixes (sourceNameBases n) base index (suffixes_of n base) (upcoming_of n base)")
  have n': "n' = n\<lparr>generatedSuffixes := gm_put base s (generatedSuffixes n),
      nextGeneratedSuffix := gm_put base u (nextGeneratedSuffix n)\<rparr>" and k: "k = s ! index"
    using assms(1) e by (auto simp: generatedSuffix_def suffixes_of_def upcoming_of_def Let_def split: prod.splits)
  have s: "index < length s" "\<forall>j \<in> set s. shadow base j \<notin> set (sourceNameBases n)"
    using extendSuffixes_done [OF e] assms(2) by (auto simp: suffixes_ok_def)
  show ?thesis
    using s assms(2) nth_mem [OF s(1)] unfolding n' k
    by (auto simp: suffixes_ok_def suffixes_of_def same_names_def)
qed

lemma chooseName_props:
  "chooseName n x base active rank = (n', r, c) \<Longrightarrow> suffixes_ok n \<Longrightarrow>
     suffixes_ok n' \<and> same_names n n' \<and> value_or 0 active c = 0 \<and> \<not> reservedTargetTypeName x c \<and>
     (c = base \<or> (\<exists>k. c = shadow base k \<and> c \<notin> set (sourceNameBases n)))"
proof (induction n x base active rank rule: chooseName.induct)
  case (1 n x base active rank)
  obtain m d where m: "candidateName n base rank = (m, d)" by (cases "candidateName n base rank")
  have d: "suffixes_ok m \<and> same_names n m \<and> (d = base \<or> (\<exists>k. d = shadow base k \<and> d \<notin> set (sourceNameBases n)))"
    using m generatedSuffix_props [of n base "rank - 1"] "1.prems"(2)
    by (auto simp: candidateName_def same_names_def split: if_splits prod.splits)
  show ?case
  proof (cases "value_or 0 active d = 0 \<and> \<not> reservedTargetTypeName x d")
    case True
    then have "(n', r, c) = (m, rank, d)" using "1.prems"(1) m by (subst (asm) chooseName.simps) simp
    then show ?thesis using d True by simp
  next
    case False
    then have "chooseName m x base active (rank + 1) = (n', r, c)"
      using "1.prems"(1) m by (subst (asm) chooseName.simps) auto
    then show ?thesis
      using "1.IH" [OF m [symmetric] False] d by (auto simp: same_names_def)
  qed
qed

subsection \<open>The objects of a scope\<close>

definition active_of :: "allocation \<Rightarrow> string \<Rightarrow> nat" where
  "active_of al = value_or 0 (al_names al)"

lemma allocateObject_props:
  assumes "suffixes_ok (al_owner al)" "al' = allocateObject al x"
  defines "c \<equiv> targetName (al_owner al') x"
  shows "suffixes_ok (al_owner al')" "sourceNameBases (al_owner al') = sourceNameBases (al_owner al)"
    "memberNameByObject (al_owner al') = memberNameByObject (al_owner al)"
    "y \<noteq> x \<Longrightarrow> gm_get (targetNameByObject (al_owner al')) y = gm_get (targetNameByObject (al_owner al)) y"
    "gm_get (targetNameByObject (al_owner al')) x = Some c"
    "active_of al c = 0" "active_of al' = (active_of al)(c := 1)"
    "al_scopeNames al' = al_scopeNames al @ [c]"
    "proper_name (sourceNameBases (al_owner al)) x c" "\<not> reservedTargetTypeName x c"
proof -
  obtain n r d where ch: "chooseName (al_owner al) x (portableIdentifier (object_name x)) (al_names al)
      (value_or 0 (al_counts al) (portableIdentifier (object_name x))) = (n, r, d)"
    by (metis prod_cases3)
  note p = chooseName_props [OF ch assms(1)]
  have o': "al_owner al' = setTargetName x d n" and s: "al_scopeNames al' = al_scopeNames al @ [d]"
    and a: "al_names al' = gm_put d (value_or 0 (al_names al) d + 1) (al_names al)"
    using ch by (simp_all add: assms(2) allocateObject_def Let_def)
  have c: "c = d" by (simp add: c_def o')
  show "suffixes_ok (al_owner al')" using p by (simp add: o' suffixes_ok_def suffixes_of_def setTargetName_def)
  show "sourceNameBases (al_owner al') = sourceNameBases (al_owner al)"
    "memberNameByObject (al_owner al') = memberNameByObject (al_owner al)"
    using p by (simp_all add: o' same_names_def setTargetName_def)
  show "y \<noteq> x \<Longrightarrow> gm_get (targetNameByObject (al_owner al')) y = gm_get (targetNameByObject (al_owner al)) y"
    "gm_get (targetNameByObject (al_owner al')) x = Some c"
    using p by (simp_all add: o' same_names_def setTargetName_def c)
  show "active_of al c = 0" "active_of al' = (active_of al)(c := 1)"
    using p by (auto simp: active_of_def c a)
  show "al_scopeNames al' = al_scopeNames al @ [c]" by (simp add: s c)
  show "proper_name (sourceNameBases (al_owner al)) x c" "\<not> reservedTargetTypeName x c"
    using p by (simp_all add: c proper_name_def)
qed

text \<open>What it means that a list of objects has been named, above a set of names that are in use.\<close>

definition named_apart :: "name_owner \<Rightarrow> (string \<Rightarrow> nat) \<Rightarrow> go_object list \<Rightarrow> bool" where
  "named_apart n active xs \<longleftrightarrow>
     distinct (map (targetName n) xs) \<and>
     (\<forall>x \<in> set xs. gm_get (targetNameByObject n) x \<noteq> None \<and> active (targetName n x) = 0 \<and>
        proper_name (sourceNameBases n) x (targetName n x) \<and> \<not> reservedTargetTypeName x (targetName n x))"

text \<open>Naming changes only the names of the objects of a set.\<close>

definition only_names :: "go_object set \<Rightarrow> name_owner \<Rightarrow> name_owner \<Rightarrow> bool" where
  "only_names A n n' \<longleftrightarrow> sourceNameBases n' = sourceNameBases n \<and> memberNameByObject n' = memberNameByObject n \<and>
     suffixes_ok n' \<and>
     (\<forall>y. y \<notin> A \<longrightarrow> gm_get (targetNameByObject n') y = gm_get (targetNameByObject n) y)"

lemma only_names_target: "only_names A n n' \<Longrightarrow> y \<notin> A \<Longrightarrow> targetName n' y = targetName n y"
  by (simp add: only_names_def targetName_def value_or_def)

lemma only_names_trans: "only_names A n n' \<Longrightarrow> only_names B n' n'' \<Longrightarrow> only_names (A \<union> B) n n''"
  by (simp add: only_names_def)

lemma only_names_mono: "only_names A n n' \<Longrightarrow> A \<subseteq> B \<Longrightarrow> only_names B n n'"
  by (auto simp: only_names_def)

lemma only_names_refl: "suffixes_ok n \<Longrightarrow> only_names A n n"
  by (simp add: only_names_def)

lemma named_apart_only:
  assumes "named_apart n active xs" "only_names A n n'" "set xs \<inter> A = {}"
  shows "named_apart n' active xs"
proof -
  have t: "targetName n' x = targetName n x" "gm_get (targetNameByObject n') x = gm_get (targetNameByObject n) x"
    if "x \<in> set xs" for x
    using only_names_target [OF assms(2), of x] assms(2,3) that by (auto simp: only_names_def)
  have "map (targetName n') xs = map (targetName n) xs" using t by simp
  then have "distinct (map (targetName n') xs)" using assms(1) by (simp only: named_apart_def)
  moreover have "sourceNameBases n' = sourceNameBases n" using assms(2) by (simp add: only_names_def)
  ultimately show ?thesis using assms(1) t by (simp add: named_apart_def del: distinct_map)
qed

lemma allocateObjects_props:
  "suffixes_ok (al_owner al) \<Longrightarrow> distinct xs \<Longrightarrow> al' = foldl allocateObject al xs \<Longrightarrow>
     only_names (set xs) (al_owner al) (al_owner al') \<and>
     named_apart (al_owner al') (active_of al) xs \<and>
     active_of al' = (\<lambda>s. if s \<in> targetName (al_owner al') ` set xs then 1 else active_of al s) \<and>
     al_scopeNames al' = al_scopeNames al @ map (targetName (al_owner al')) xs"
proof (induction xs arbitrary: al)
  case Nil
  then show ?case by (simp add: only_names_refl named_apart_def)
next
  case (Cons x xs)
  define b where "b = allocateObject al x"
  define c where "c = targetName (al_owner b) x"
  note p = allocateObject_props [OF Cons.prems(1) b_def, folded c_def]
  have ih: "only_names (set xs) (al_owner b) (al_owner al')" "named_apart (al_owner al') (active_of b) xs"
    "active_of al' = (\<lambda>s. if s \<in> targetName (al_owner al') ` set xs then 1 else active_of b s)"
    "al_scopeNames al' = al_scopeNames b @ map (targetName (al_owner al')) xs"
    using Cons.IH [OF p(1)] Cons.prems by (simp_all add: b_def)
  have x: "targetName (al_owner al') x = c" "gm_get (targetNameByObject (al_owner al')) x = Some c"
    using only_names_target [OF ih(1), of x] ih(1) Cons.prems(2) p(5) by (auto simp: c_def only_names_def)
  have only: "only_names (set (x # xs)) (al_owner al) (al_owner al')"
    using ih(1) p(2-4) by (auto simp: only_names_def)
  have src: "sourceNameBases (al_owner al') = sourceNameBases (al_owner al)"
    using only by (simp add: only_names_def)
  have other: "targetName (al_owner al') y \<noteq> c \<and> active_of al (targetName (al_owner al') y) = 0" if "y \<in> set xs" for y
    using ih(2) that p(7) by (auto simp: named_apart_def split: if_splits)
  have "c \<notin> targetName (al_owner al') ` set xs" using other by force
  then have "distinct (map (targetName (al_owner al')) (x # xs))"
    using ih(2) x by (simp add: named_apart_def)
  then have "named_apart (al_owner al') (active_of al) (x # xs)"
    using ih(2) other x p(6,9,10) src by (simp add: named_apart_def del: distinct_map)
  then show ?case using only ih(3,4) p(7,8) x by auto
qed

lemma releaseNames_active:
  "distinct names \<Longrightarrow> value_or 0 (releaseNames names active) =
     (\<lambda>s. value_or 0 active s - (if s \<in> set names then 1 else 0))"
  by (induction names arbitrary: active) (auto simp: fun_eq_iff Let_def)
subsection \<open>The scope tree\<close>

fun tree_scopes :: "scope_tree \<Rightarrow> scope list" where
  "tree_scopes (ScopeNode s ts) = s # concat (map tree_scopes ts)"

text \<open>The paths of a tree: every scope with the scopes around it.\<close>

fun tree_paths :: "scope_tree \<Rightarrow> scope list list" where
  "tree_paths (ScopeNode s ts) = [s] # map ((#) s) (concat (map tree_paths ts))"

definition objects_in :: "scope_objects \<Rightarrow> scope set \<Rightarrow> go_object set" where
  "objects_in obs S = (\<Union>s \<in> S. set (value_or [] obs s))"

definition objects_owned :: "scope_objects \<Rightarrow> bool" where
  "objects_owned obs \<longleftrightarrow>
     (\<forall>s. distinct (value_or [] obs s) \<and> (\<forall>x \<in> set (value_or [] obs s). object_parent x = Some s))"

definition apart_on :: "name_owner \<Rightarrow> (string \<Rightarrow> nat) \<Rightarrow> go_object set \<Rightarrow> bool" where
  "apart_on n active A \<longleftrightarrow> inj_on (targetName n) A \<and>
     (\<forall>x \<in> A. gm_get (targetNameByObject n) x \<noteq> None \<and> active (targetName n x) = 0 \<and>
        proper_name (sourceNameBases n) x (targetName n x) \<and> \<not> reservedTargetTypeName x (targetName n x))"

lemma apart_on_named: "named_apart n active xs \<Longrightarrow> apart_on n active (set xs)"
  by (simp add: named_apart_def apart_on_def distinct_map)

lemma apart_on_only:
  assumes "apart_on n active B" "only_names A n n'" "B \<inter> A = {}"
  shows "apart_on n' active B"
proof -
  have t: "targetName n' x = targetName n x" "gm_get (targetNameByObject n') x = gm_get (targetNameByObject n) x"
    if "x \<in> B" for x
    using only_names_target [OF assms(2), of x] assms(2,3) that by (auto simp: only_names_def)
  then have "inj_on (targetName n') B" using assms(1) by (simp add: apart_on_def inj_on_def)
  moreover have "sourceNameBases n' = sourceNameBases n" using assms(2) by (simp add: only_names_def)
  ultimately show ?thesis using assms(1) t by (simp add: apart_on_def)
qed

lemma if_one_zero: "(if b then 1 else k) = (0 :: nat) \<Longrightarrow> \<not> b \<and> k = 0"
  by (cases b) simp_all

lemma apart_on_union:
  assumes "apart_on n active A" "apart_on n (\<lambda>s. if s \<in> targetName n ` A then 1 else active s) B"
  shows "apart_on n active (A \<union> B)"
proof -
  have apart: "targetName n y \<notin> targetName n ` A \<and> active (targetName n y) = 0" if "y \<in> B" for y
  proof -
    have "(if targetName n y \<in> targetName n ` A then 1 else active (targetName n y)) = 0"
      using bspec [OF conjunct2 [OF assms(2) [unfolded apart_on_def]] that] by (elim conjE)
    then show ?thesis by (rule if_one_zero)
  qed
  have "targetName n ` (A - B) \<inter> targetName n ` (B - A) = {}"
  proof (rule equals0I)
    fix s
    assume s: "s \<in> targetName n ` (A - B) \<inter> targetName n ` (B - A)"
    from s obtain x where "x \<in> A" "s = targetName n x" by auto
    moreover from s obtain y where "y \<in> B" "s = targetName n y" by auto
    ultimately show False using apart [of y] by (metis imageI)
  qed
  moreover have "inj_on (targetName n) A" "inj_on (targetName n) B" using assms by (auto simp only: apart_on_def)
  ultimately have "inj_on (targetName n) (A \<union> B)" by (simp only: inj_on_Un simp_thms)
  then show ?thesis using assms apart unfolding apart_on_def by blast
qed

lemma objects_in_simps [simp]:
  "objects_in obs {} = {}" "objects_in obs (insert s S) = set (value_or [] obs s) \<union> objects_in obs S"
  "objects_in obs (S \<union> T) = objects_in obs S \<union> objects_in obs T"
  by (auto simp: objects_in_def)

lemma objects_in_disjoint:
  assumes "objects_owned obs" "S \<inter> T = {}"
  shows "objects_in obs S \<inter> objects_in obs T = {}"
proof -
  have "object_parent x = Some s" if "x \<in> set (value_or [] obs s)" for x s
    using assms(1) that by (simp add: objects_owned_def)
  then have "s = t" if "x \<in> set (value_or [] obs s)" "x \<in> set (value_or [] obs t)" for x s t
    using that by (metis option.inject)
  then show ?thesis using assms(2) unfolding objects_in_def by blast
qed

definition tree_named :: "scope_objects \<Rightarrow> scope set \<Rightarrow> scope list set \<Rightarrow> scope_state \<Rightarrow> scope_state \<Rightarrow> bool" where
  "tree_named obs S P st st' \<longleftrightarrow>
     only_names (objects_in obs S) (fst st) (fst st') \<and>
     value_or 0 (snd (snd st')) = value_or 0 (snd (snd st)) \<and>
     (\<forall>p \<in> P. apart_on (fst st') (value_or 0 (snd (snd st))) (objects_in obs (set p)))"

lemma tree_paths_scopes: "p \<in> set (tree_paths t) \<Longrightarrow> set p \<subseteq> set (tree_scopes t)"
  by (induction t arbitrary: p) fastforce

lemma preallocateScope_named:
  "suffixes_ok (fst st) \<Longrightarrow> distinct (tree_scopes t) \<Longrightarrow> objects_owned obs \<Longrightarrow>
     tree_named obs (set (tree_scopes t)) (set (tree_paths t)) st (preallocateScope os obs t st)"
  "suffixes_ok (fst st) \<Longrightarrow> distinct (concat (map tree_scopes ts)) \<Longrightarrow> objects_owned obs \<Longrightarrow>
     tree_named obs (\<Union>t \<in> set ts. set (tree_scopes t)) (\<Union>t \<in> set ts. set (tree_paths t)) st
       (preallocateChildren os obs ts st)"
proof (induction os obs t st and os obs ts st rule: preallocateScope_preallocateChildren.induct)
  case (1 os obs scope children n counts active)
  define objs where "objs = sort_by (compareNameObjects os) (value_or [] obs scope)"
  define al where "al = foldl allocateObject
      \<lparr>al_owner = n, al_counts = counts, al_names = active, al_original = [], al_scopeNames = []\<rparr> objs"
  obtain m c a where sub: "preallocateChildren os obs children (al_owner al, al_counts al, al_names al) = (m, c, a)"
    by (metis prod_cases3)
  let ?S = "\<Union>t \<in> set children. set (tree_scopes t)"
  let ?O = "set (value_or [] obs scope)"
  have objs: "distinct objs" "set objs = ?O"
    using "1.prems"(3) by (simp_all add: objs_def objects_owned_def)
  note al = allocateObjects_props [OF _ objs(1) al_def, simplified, OF "1.prems"(1) [simplified]]
  have only1: "only_names ?O n (al_owner al)"
    and apart1: "apart_on (al_owner al) (value_or 0 active) ?O"
    and act: "value_or 0 (al_names al) = (\<lambda>s. if s \<in> targetName (al_owner al) ` ?O then 1 else value_or 0 active s)"
    and names: "al_scopeNames al = map (targetName (al_owner al)) objs"
    using al apart_on_named [of "al_owner al" "value_or 0 active" objs] by (auto simp: objs active_of_def)
  have ch: "tree_named obs ?S (\<Union>t \<in> set children. set (tree_paths t)) (al_owner al, al_counts al, al_names al) (m, c, a)"
    using "1.IH" [OF objs_def al_def] only1 "1.prems" by (simp add: sub only_names_def)
  have only2: "only_names (objects_in obs ?S) (al_owner al) m" using ch by (simp add: tree_named_def)
  have "?O \<inter> objects_in obs ?S = {}"
    using objects_in_disjoint [OF "1.prems"(3), of "{scope}" ?S] "1.prems"(2) by auto
  then have apart2: "apart_on m (value_or 0 active) ?O" and same: "targetName m ` ?O = targetName (al_owner al) ` ?O"
    using apart_on_only [OF apart1 only2] only_names_target [OF only2] by (blast, force)
  have res: "preallocateScope os obs (ScopeNode scope children) (n, counts, active) =
      (m, restoreCounts (al_original al) c, releaseNames (al_scopeNames al) a)"
    using sub by (simp add: objs_def [symmetric] al_def [symmetric])
  have dist: "distinct (al_scopeNames al)"
    using apart1 objs by (simp add: names apart_on_def distinct_map)
  have zero: "value_or 0 active s = 0" if "s \<in> targetName (al_owner al) ` ?O" for s
    using that apart1 by (auto simp: apart_on_def)
  have scopeNames: "set (al_scopeNames al) = targetName (al_owner al) ` ?O"
    by (simp add: names objs)
  have "value_or 0 a = value_or 0 (al_names al)" using ch by (simp add: tree_named_def)
  then have "value_or 0 (releaseNames (al_scopeNames al) a) = value_or 0 active"
    unfolding releaseNames_active [OF dist] scopeNames act using zero by auto
  moreover have paths: "apart_on m (value_or 0 active) (objects_in obs (set p))"
    if "p \<in> set (tree_paths (ScopeNode scope children))" for p
  proof -
    from that consider "p = [scope]" | q t where "p = scope # q" "t \<in> set children" "q \<in> set (tree_paths t)" by auto
    then show ?thesis
    proof cases
      case 1
      then show ?thesis using apart2 by simp
    next
      case 2
      then have "apart_on m (\<lambda>s. if s \<in> targetName m ` ?O then 1 else value_or 0 active s) (objects_in obs (set q))"
        using ch by (auto simp: tree_named_def act same)
      then show ?thesis using apart_on_union [OF apart2] 2 by simp
    qed
  qed
  moreover have "only_names (objects_in obs (set (tree_scopes (ScopeNode scope children)))) n m"
    using only_names_trans [OF only1 only2] by simp
  ultimately show ?case unfolding tree_named_def res fst_conv snd_conv by blast
next
  case (2 os obs st)
  then show ?case by (simp add: tree_named_def only_names_refl)
next
  case (3 os obs t ts st)
  define st1 where "st1 = preallocateScope os obs t st"
  define st2 where "st2 = preallocateChildren os obs ts st1"
  let ?S = "\<Union>t \<in> set ts. set (tree_scopes t)"
  have a: "tree_named obs (set (tree_scopes t)) (set (tree_paths t)) st st1"
    using "3.IH"(1) "3.prems" by (simp add: st1_def)
  have b: "tree_named obs ?S (\<Union>t \<in> set ts. set (tree_paths t)) st1 st2"
    using "3.IH"(2) "3.prems" a by (simp add: st1_def [symmetric] st2_def tree_named_def only_names_def)
  have "objects_in obs (set (tree_scopes t)) \<inter> objects_in obs ?S = {}"
    using "3.prems"(2,3) by (intro objects_in_disjoint) auto
  then have "apart_on (fst st2) (value_or 0 (snd (snd st))) (objects_in obs (set p))"
    if "p \<in> set (tree_paths t)" for p
  proof -
    have "objects_in obs (set p) \<subseteq> objects_in obs (set (tree_scopes t))"
      using tree_paths_scopes [OF that] by (auto simp: objects_in_def)
    with \<open>objects_in obs (set (tree_scopes t)) \<inter> objects_in obs ?S = {}\<close>
    have "objects_in obs (set p) \<inter> objects_in obs ?S = {}" by blast
    then show ?thesis using a b that by (auto simp: tree_named_def intro: apart_on_only)
  qed
  then show ?case
    using a b only_names_trans [of "objects_in obs (set (tree_scopes t))" "fst st" "fst st1" "objects_in obs ?S" "fst st2"]
    by (auto simp: tree_named_def st1_def [symmetric] st2_def [symmetric])
qed
subsection \<open>What is recorded\<close>

definition recorded :: "go_object option list \<Rightarrow> go_object set" where
  "recorded entries = {x. Some x \<in> set entries \<and> object_name x \<noteq> ''_''}"

definition emptyIndex :: name_index where
  "emptyIndex = \<lparr>ni_bases = [], ni_seen = [], ni_labels = [], ni_objects = []\<rparr>"

definition index_exact :: "go_object set \<Rightarrow> name_index \<Rightarrow> bool" where
  "index_exact A r \<longleftrightarrow>
     objects_owned (ni_objects r) \<and>
     (\<forall>s. set (value_or [] (ni_objects r) s) = {x \<in> A. object_kind x \<noteq> LabelObject \<and> object_parent x = Some s}) \<and>
     set (ni_seen r) = {x \<in> A. object_kind x = LabelObject \<or> object_parent x \<noteq> None} \<and>
     set (ni_labels r) = {x \<in> A. object_kind x = LabelObject} \<and>
     set (ni_bases r) = (\<lambda>x. portableIdentifier (object_name x)) ` A"

lemma index_exact_step:
  assumes "index_exact A r"
  shows "index_exact (A \<union> recorded [entry]) (recordObject r entry)"
proof (cases "entry = None \<or> (\<exists>x. entry = Some x \<and> object_name x = ''_'')")
  case True
  then have "recorded [entry] = {}" "recordObject r entry = r"
    by (auto simp: recorded_def recordObject_def)
  with assms show ?thesis by simp
next
  case False
  then obtain x where e: "entry = Some x" and x: "object_name x \<noteq> ''_''" by (cases entry) auto
  have rec: "recorded [entry] = {x}" using x by (auto simp: recorded_def e)
  note a = assms [unfolded index_exact_def]
  define r1 where "r1 = r\<lparr>ni_bases := gs_insert (portableIdentifier (object_name x)) (ni_bases r)\<rparr>"
  have bases: "set (ni_bases r1) = (\<lambda>x. portableIdentifier (object_name x)) ` insert x A"
    using a by (simp add: r1_def)
  consider (unscoped) "object_kind x \<noteq> LabelObject" "object_parent x = None"
    | (seen) "x \<in> set (ni_seen r)"
    | (label) "object_kind x = LabelObject" "x \<notin> set (ni_seen r)"
    | (scoped) "object_kind x \<noteq> LabelObject" "object_parent x \<noteq> None" "x \<notin> set (ni_seen r)"
    by blast
  then show ?thesis
  proof cases
    case unscoped
    then have "recordObject r entry = r1" using x by (simp add: recordObject_def e r1_def)
    moreover have "{y \<in> insert x A. P y} = {y \<in> A. P y}" if "\<not> P x" for P using that by auto
    ultimately show ?thesis using a bases unscoped by (simp add: index_exact_def rec r1_def)
  next
    case seen
    then have "x \<in> A" using a by simp
    moreover have "recordObject r entry = r1"
      using seen x by (simp add: recordObject_def e r1_def Let_def split: option.splits)
    ultimately show ?thesis using a bases by (simp add: index_exact_def rec r1_def insert_absorb)
  next
    case label
    then have "recordObject r entry = r1\<lparr>ni_seen := gs_insert x (ni_seen r), ni_labels := ni_labels r @ [x]\<rparr>"
      using x by (simp add: recordObject_def e r1_def)
    moreover have "{y \<in> insert x A. P y} = (if P x then insert x {y \<in> A. P y} else {y \<in> A. P y})" for P by auto
    ultimately show ?thesis using a bases label(1) by (simp add: index_exact_def rec r1_def)
  next
    case scoped
    then obtain s where s: "object_parent x = Some s" by auto
    have new: "x \<notin> A" using a scoped by auto
    have r: "recordObject r entry = r1\<lparr>ni_seen := gs_insert x (ni_seen r),
        ni_objects := gm_put s (value_or [] (ni_objects r) s @ [x]) (ni_objects r)\<rparr>"
      using scoped s x by (simp add: recordObject_def e r1_def)
    have "x \<notin> set (value_or [] (ni_objects r) s)" using a new by auto
    then have "objects_owned (ni_objects (recordObject r entry))"
      using conjunct1 [OF a] s by (simp add: r objects_owned_def)
    moreover have "{y \<in> insert x A. P y} = (if P x then insert x {y \<in> A. P y} else {y \<in> A. P y})" for P by auto
    ultimately show ?thesis using a bases s scoped(1) by (simp add: index_exact_def rec r r1_def)
  qed
qed

lemma index_exact_fold: "index_exact (recorded entries) (foldl recordObject emptyIndex entries)"
proof (induction entries rule: rev_induct)
  case Nil
  then show ?case by (simp add: index_exact_def recorded_def emptyIndex_def objects_owned_def)
next
  case (snoc e es)
  have "recorded (es @ [e]) = recorded es \<union> recorded [e]" by (auto simp: recorded_def)
  then show ?case using index_exact_step [OF snoc, of e] by simp
qed

lemma recordedNames_exact: "index_exact (recorded (info_Defs info @ info_Implicits info)) (recordedNames info)"
  using index_exact_fold by (simp only: recordedNames_def emptyIndex_def)

definition scoped_objects :: "type_information \<Rightarrow> scope set \<Rightarrow> go_object set" where
  "scoped_objects info S =
     {x \<in> recorded (info_Defs info @ info_Implicits info).
        object_kind x \<noteq> LabelObject \<and> (\<exists>s \<in> S. object_parent x = Some s)}"

lemma objects_in_recorded: "objects_in (ni_objects (recordedNames info)) S = scoped_objects info S"
  using recordedNames_exact [of info] by (auto simp: index_exact_def objects_in_def scoped_objects_def)

subsection \<open>Methods and labels\<close>

definition package_methods :: "type_information \<Rightarrow> go_object set" where
  "package_methods info = {x. Some x \<in> set (info_Defs info) \<and> methodReceiver x \<noteq> None \<and> object_name x \<noteq> ''_''}"

definition names_used :: "string list \<Rightarrow> name_owner \<Rightarrow> bool" where
  "names_used used n \<longleftrightarrow> (\<forall>x s. gm_get (targetNameByObject n) x = Some s \<longrightarrow> s \<in> set used)"

definition told_apart :: "name_owner \<Rightarrow> go_object set \<Rightarrow> bool" where
  "told_apart n A \<longleftrightarrow> inj_on (targetName n) A \<and> (\<forall>x \<in> A. gm_get (targetNameByObject n) x \<noteq> None)"

lemma told_apart_set:
  assumes "told_apart n A" "names_used used n" "c \<notin> set used"
  shows "told_apart (setTargetName x c n) (insert x A)"
proof -
  have "targetName n y \<noteq> c" if "y \<in> A" for y
    using assms that by (fastforce simp: told_apart_def names_used_def targetName_def value_or_def split: option.splits)
  then have "inj_on (targetName (setTargetName x c n)) (insert x A)"
    using assms(1) by (auto simp: told_apart_def inj_on_def)
  then show ?thesis using assms(1) by (simp add: told_apart_def setTargetName_def)
qed

text \<open>The shape of a method's name: it has an underscore and is none of the source names.\<close>

definition method_name :: "string list \<Rightarrow> string \<Rightarrow> bool" where
  "method_name bases s \<longleftrightarrow> CHR ''_'' \<in> set s \<and> s \<notin> set bases"

lemma numbered_mem: "c \<in> set base \<Longrightarrow> c \<in> set (numbered base sep k)"
  by (simp add: numbered_def)

lemma nameMethods_apart:
  "names_used used n \<Longrightarrow> told_apart n A \<Longrightarrow> \<forall>x \<in> set xs. methodReceiver x \<noteq> None \<Longrightarrow>
   foldl (nameMethod typeOf) (used, n) xs = (used', n') \<Longrightarrow>
     told_apart n' (A \<union> {x \<in> set xs. object_name x \<noteq> ''_''}) \<and> sourceNameBases n' = sourceNameBases n \<and>
     (\<forall>y. y \<notin> set xs \<longrightarrow> gm_get (targetNameByObject n') y = gm_get (targetNameByObject n) y) \<and>
     (\<forall>y. gm_get (targetNameByObject n') y = gm_get (targetNameByObject n) y \<or>
        method_name (sourceNameBases n) (targetName n' y)) \<and>
     (\<forall>y \<in> set xs. object_name y \<noteq> ''_'' \<longrightarrow> method_name (sourceNameBases n) (targetName n' y))"
proof (induction xs arbitrary: used n A)
  case Nil
  then show ?case by simp
next
  case (Cons x xs)
  obtain receiver where rc: "methodReceiver x = Some receiver" using Cons.prems(3) by auto
  show ?case
  proof (cases "object_name x = ''_''")
    case True
    then have "nameMethod typeOf (used, n) x = (used, n)" using rc by (simp add: nameMethod_def)
    then have "foldl (nameMethod typeOf) (used, n) xs = (used', n')" using Cons.prems(4) by simp
    moreover have "{y \<in> set (x # xs). object_name y \<noteq> ''_''} = {y \<in> set xs. object_name y \<noteq> ''_''}"
      using True by auto
    ultimately show ?thesis using Cons.IH [OF Cons.prems(1,2)] Cons.prems(3) True by auto
  next
    case False
    define base where "base = portableIdentifier (receiverBaseName typeOf receiver) @ ''_'' @
        portableIdentifier (object_name x)"
    define c where "c = firstFree (used @ sourceNameBases n) base ''__method_'' 0"
    have c: "c \<notin> set used" "c \<notin> set (sourceNameBases n)"
      using firstFree_free [of "used @ sourceNameBases n" base "''__method_''" 0] by (simp_all add: c_def)
    obtain j where "c = numbered base ''__method_'' j"
      using firstFree_shape [of 0 "used @ sourceNameBases n" base "''__method_''"] by (auto simp: c_def)
    then have shape: "method_name (sourceNameBases n) c"
      using c(2) by (auto simp: method_name_def base_def intro: numbered_mem)
    have e: "foldl (nameMethod typeOf) (gs_insert c used, setTargetName x c n) xs = (used', n')"
    proof -
      have "nameMethod typeOf (used, n) x = (gs_insert c used, setTargetName x c n)"
        using rc False by (simp add: nameMethod_def Let_def c_def base_def)
      then show ?thesis using Cons.prems(4) by simp
    qed
    have u: "names_used (gs_insert c used) (setTargetName x c n)"
      using Cons.prems(1) by (auto simp: names_used_def setTargetName_def)
    have ih: "told_apart n' (insert x A \<union> {y \<in> set xs. object_name y \<noteq> ''_''})"
      "sourceNameBases n' = sourceNameBases n"
      "\<And>y. y \<notin> set xs \<Longrightarrow> gm_get (targetNameByObject n') y = gm_get (targetNameByObject (setTargetName x c n)) y"
      "\<And>y. gm_get (targetNameByObject n') y = gm_get (targetNameByObject (setTargetName x c n)) y \<or>
        method_name (sourceNameBases n) (targetName n' y)"
      "\<And>y. y \<in> set xs \<Longrightarrow> object_name y \<noteq> ''_'' \<Longrightarrow> method_name (sourceNameBases n) (targetName n' y)"
      using Cons.IH [OF u told_apart_set [OF Cons.prems(2,1) c(1)] _ e] Cons.prems(3) by auto
    have set: "A \<union> {y \<in> set (x # xs). object_name y \<noteq> ''_''} = insert x A \<union> {y \<in> set xs. object_name y \<noteq> ''_''}"
      using False by auto
    have x: "method_name (sourceNameBases n) (targetName n' x)"
      using ih(4) [of x] shape by (auto simp: targetName_def setTargetName_def value_or_def)
    have "gm_get (targetNameByObject n') y = gm_get (targetNameByObject n) y \<or>
        method_name (sourceNameBases n) (targetName n' y)" for y
      using ih(4) [of y] x by (cases "y = x") (auto simp: setTargetName_def)
    then show ?thesis
      using ih(1,2) ih(3) ih(5) x unfolding set by (auto simp: setTargetName_def)
  qed
qed

lemma nameLabels_others:
  "sourceNameBases (nameLabels labels counts n) = sourceNameBases n"
  "y \<notin> set labels \<Longrightarrow> gm_get (targetNameByObject (nameLabels labels counts n)) y = gm_get (targetNameByObject n) y"
  by (induction labels arbitrary: counts n) (auto simp: Let_def setTargetName_def)

lemma members_others:
  "targetNameByObject (foldl preallocateStructMembers n structs) = targetNameByObject n"
  "sourceNameBases (foldl preallocateStructMembers n structs) = sourceNameBases n"
  by (induction structs arbitrary: n) (auto simp: preallocateStructMembers_def)

lemma names_used_values: "names_used (gs_of (map snd (targetNameByObject n))) n"
  by (auto simp: names_used_def dest: map_of_SomeD intro: rev_image_eqI)

subsection \<open>The package\<close>

lemma set_map_filter_id: "set (List.map_filter id xs) = {x. Some x \<in> set xs}"
  by (induction xs) (auto simp: List.map_filter_simps split: option.splits)

lemma NewOwner_names:
  fixes info t os members
  defines "r \<equiv> recordedNames info" and "n \<equiv> NewOwner os (Some t) (Some info) members"
    and "A \<equiv> scoped_objects info" and "M \<equiv> package_methods info"
  assumes t: "distinct (tree_scopes t)"
  shows "sourceNameBases n = ni_bases r"
    "p \<in> set (tree_paths t) \<Longrightarrow> inj_on (targetName n) (A (set p) \<union> M)"
    "p \<in> set (tree_paths t) \<Longrightarrow> x \<in> A (set p) - M \<Longrightarrow> proper_name (ni_bases r) x (targetName n x) \<and>
       targetName n x \<noteq> TargetGlobalAnchorName \<and> \<not> reservedTargetTypeName x (targetName n x)"
    "gm_get (targetNameByObject n) y = Some s \<Longrightarrow> object_kind y \<noteq> LabelObject \<Longrightarrow>
       (y \<in> A (set (tree_scopes t)) \<and> targetName n y = s) \<or> method_name (ni_bases r) s"
proof -
  let ?anchor = "[(TargetGlobalAnchorName, 1 :: nat)]"
  let ?st = "(emptyOwner members (ni_bases r), [] :: (string, nat) gomap, ?anchor)"
  define n1 where "n1 = fst (preallocateScope os (ni_objects r) t ?st)"
  define methods where "methods = sort_by (compareNameObjects os)
      (filter (\<lambda>x. methodReceiver x \<noteq> None) (List.map_filter id (info_Defs info)))"
  obtain used n2 where n2: "foldl (nameMethod (info_typeOf info)) (gs_of (map snd (targetNameByObject n1)), n1) methods
      = (used, n2)" by fastforce
  define n4 where "n4 = preallocateAnonymousMembers info (preallocateMembers info n2)"
  have n: "n = preallocateLabels os (ni_labels r) n4"
    using n2 unfolding n1_def methods_def n4_def
    by (simp add: n_def NewOwner_def r_def [symmetric] preallocateMethods_def Let_def)
  have exact: "index_exact (recorded (info_Defs info @ info_Implicits info)) r"
    unfolding r_def by (rule recordedNames_exact)
  have "suffixes_ok (emptyOwner members (ni_bases r))"
    by (simp add: suffixes_ok_def suffixes_of_def emptyOwner_def)
  moreover have "objects_owned (ni_objects r)" using exact by (simp add: index_exact_def)
  ultimately have named: "tree_named (ni_objects r) (set (tree_scopes t)) (set (tree_paths t)) ?st
      (preallocateScope os (ni_objects r) t ?st)"
    using t by (intro preallocateScope_named) simp_all
  have objs: "objects_in (ni_objects r) S = A S" for S
    unfolding r_def A_def by (rule objects_in_recorded)
  have only: "only_names (A (set (tree_scopes t))) (emptyOwner members (ni_bases r)) n1"
    using named by (simp add: tree_named_def n1_def objs)
  have apart: "apart_on n1 (value_or 0 ?anchor) (A (set p))" if "p \<in> set (tree_paths t)" for p
    using named that by (simp add: tree_named_def n1_def objs)
  have src1: "sourceNameBases n1 = ni_bases r" using only by (simp add: only_names_def emptyOwner_def)
  have mset: "set methods = {x. Some x \<in> set (info_Defs info) \<and> methodReceiver x \<noteq> None}"
    by (auto simp: methods_def set_map_filter_id)
  have M: "M = {x \<in> set methods. object_name x \<noteq> ''_''}"
    by (auto simp: M_def package_methods_def mset)
  have receivers: "\<forall>x \<in> set methods. methodReceiver x \<noteq> None" by (simp add: mset)
  note step = nameMethods_apart [OF names_used_values _ receivers n2]
  have methods: "sourceNameBases n2 = ni_bases r"
    "y \<notin> set methods \<Longrightarrow> gm_get (targetNameByObject n2) y = gm_get (targetNameByObject n1) y"
    "gm_get (targetNameByObject n2) y = gm_get (targetNameByObject n1) y \<or> method_name (ni_bases r) (targetName n2 y)" for y
    using step [of "{}"] by (auto simp: told_apart_def src1)
  have apart2: "inj_on (targetName n2) (A (set p) \<union> M)" if "p \<in> set (tree_paths t)" for p
  proof -
    have "told_apart n1 (A (set p))" using apart [OF that] by (simp add: apart_on_def told_apart_def)
    then show ?thesis using step by (simp add: told_apart_def M)
  qed
  have labels: "object_kind x = LabelObject" if "x \<in> set (ni_labels r)" for x
    using exact that by (simp add: index_exact_def)
  have src: "sourceNameBases n4 = ni_bases r" "targetNameByObject n4 = targetNameByObject n2"
    using methods(1) by (simp_all add: n4_def preallocateMembers_def preallocateAnonymousMembers_def members_others)
  show "sourceNameBases n = ni_bases r"
    by (simp add: n preallocateLabels_def nameLabels_others src)
  have final: "gm_get (targetNameByObject n) x = gm_get (targetNameByObject n2) x" if "object_kind x \<noteq> LabelObject" for x
  proof -
    have "x \<notin> set (ni_labels r)" using labels that by blast
    then show ?thesis by (simp add: n preallocateLabels_def nameLabels_others src)
  qed
  then have tn: "targetName n x = targetName n2 x" if "object_kind x \<noteq> LabelObject" for x
    using that by (simp add: targetName_def value_or_def)
  have plain: "object_kind x \<noteq> LabelObject" if "x \<in> A S \<union> M" for x S
    using that by (auto simp: A_def scoped_objects_def M_def package_methods_def methodReceiver_def split: object_kind.splits)
  show "inj_on (targetName n) (A (set p) \<union> M)" if "p \<in> set (tree_paths t)"
  proof -
    have "targetName n x = targetName n2 x" if "x \<in> A (set p) \<union> M" for x using tn plain that by blast
    then show ?thesis using apart2 [OF \<open>p \<in> set (tree_paths t)\<close>] inj_on_cong by metis
  qed
  show "proper_name (ni_bases r) x (targetName n x) \<and> targetName n x \<noteq> TargetGlobalAnchorName \<and>
      \<not> reservedTargetTypeName x (targetName n x)" if "p \<in> set (tree_paths t)" "x \<in> A (set p) - M"
  proof -
    have "object_name x \<noteq> ''_''" using that(2) by (simp add: A_def scoped_objects_def recorded_def)
    then have "x \<notin> set methods" using that(2) by (simp add: M)
    then have e: "targetName n x = targetName n1 x"
      using methods(2) [of x] tn [of x] plain [of x "set p"] that(2) by (simp add: targetName_def value_or_def)
    have "value_or 0 ?anchor (targetName n1 x) = 0 \<and> proper_name (ni_bases r) x (targetName n1 x) \<and>
        \<not> reservedTargetTypeName x (targetName n1 x)"
      using apart [OF that(1)] that(2) by (simp add: apart_on_def src1)
    then show ?thesis by (auto simp: e value_or_def)
  qed
  show "(y \<in> A (set (tree_scopes t)) \<and> targetName n y = s) \<or> method_name (ni_bases r) s"
    if "gm_get (targetNameByObject n) y = Some s" "object_kind y \<noteq> LabelObject"
  proof -
    have s: "gm_get (targetNameByObject n2) y = Some s" "targetName n y = s" "targetName n2 y = s"
      using that final [of y] by (simp_all add: targetName_def value_or_def)
    show ?thesis
    proof (cases "y \<in> A (set (tree_scopes t))")
      case False
      then have "gm_get (targetNameByObject n1) y = None" using only by (simp add: only_names_def emptyOwner_def)
      then show ?thesis using methods(3) [of y] s by simp
    qed (use s in simp)
  qed
qed

subsection \<open>Names are identifiers and do not collide\<close>

lemma reserved_words_plain: "RequiresBindingIdentifierEscape s \<Longrightarrow> CHR ''_'' \<notin> set s"
  by (auto simp: RequiresBindingIdentifierEscape_def)

definition go_identifier :: "string \<Rightarrow> bool" where
  "go_identifier s \<longleftrightarrow> (case runes s of [] \<Rightarrow> False | r # _ \<Rightarrow> \<not> (48 \<le> r \<and> r \<le> 57))"

lemma plain_digits: "list_all plain_char (itoa k)"
  using itoa_digits [of k] by (auto simp: list_all_iff is_digit_def plain_char_def plain_rune_def)

lemma proper_name_binding:
  assumes "go_identifier (object_name x)" "proper_name bases x s"
  shows "binding_identifier s"
proof -
  define base where "base = portableIdentifier (object_name x)"
  have b: "binding_identifier base"
    using assms(1) portableIdentifier_binding [of "object_name x"]
    by (auto simp: go_identifier_def base_def split: list.splits)
  from assms(2) consider "s = base" | k where "s = base @ ''__shadow_'' @ itoa k"
    by (auto simp: proper_name_def base_def shadow_def)
  then show ?thesis
  proof cases
    case 1
    with b show ?thesis by simp
  next
    case 2
    have "list_all plain_char ''__shadow_''" by (simp add: plain_char_def plain_rune_def)
    then have "list_all plain_char s"
      using b plain_digits by (simp add: 2 binding_identifier_def)
    moreover have "CHR ''h'' \<in> set s" "CHR ''_'' \<in> set s" by (simp_all add: 2)
    moreover have "s \<noteq> ''__proto__''"
    proof
      assume "s = ''__proto__''"
      with \<open>CHR ''h'' \<in> set s\<close> show False by simp
    qed
    moreover have "s \<noteq> []" "hd s = hd base" using b by (simp_all add: 2 binding_identifier_def)
    ultimately show ?thesis
      using b reserved_words_plain [of s] by (auto simp: binding_identifier_def)
  qed
qed

definition demo_pkg :: go_package where
  "demo_pkg = \<lparr>package_ref = 1, package_path = ''demo''\<rparr>"

definition demo_object :: "nat \<Rightarrow> object_kind \<Rightarrow> scope option \<Rightarrow> string \<Rightarrow> go_object" where
  "demo_object k kind parent name = \<lparr>object_ref = k, object_package = Some demo_pkg, object_parent = parent,
     object_kind = kind, object_name = name, object_type = None, object_pos = int k\<rparr>"

text \<open>
  A package with a function \<open>f\<close> that has a variable \<open>x\<close>, which hides a package variable of that name,
  and in an inner block another \<open>x\<close> beside \<open>x__shadow_1\<close>; a type with a method.
\<close>

definition demo_info :: type_information where
  "demo_info = \<lparr>info_Defs = map Some
       [demo_object 1 VarObject (Some (PackageScope 1)) ''x'',
        demo_object 2 (FuncObject None) (Some (PackageScope 1)) ''f'',
        demo_object 3 VarObject (Some (LocalScope 1)) ''x'',
        demo_object 4 VarObject (Some (LocalScope 2)) ''x'',
        demo_object 5 VarObject (Some (LocalScope 2)) ''x__shadow_1'',
        demo_object 6 TypeNameObject (Some (PackageScope 1)) ''Object'',
        demo_object 7 (FuncObject (Some 9)) None ''class''],
     info_Implicits = [None], info_typeOf = (\<lambda>_. BasicType 2),
     info_named_structs = [], info_structs = []\<rparr>"

definition demo_tree :: scope_tree where
  "demo_tree = ScopeNode (PackageScope 1) [ScopeNode (LocalScope 1) [ScopeNode (LocalScope 2) []], ScopeNode (LocalScope 3) []]"

text \<open>C35: The names of a package never hide one another. Whatever the order in which the objects of the package are recorded, the objects that are visible from a scope - those of the scope and of all scopes around it, and the methods of the package - get pairwise different target names. The name of an object that is not a method is not the global anchor, the name of a type is neither \<open>Object\<close> nor \<open>Promise\<close>, the two names that the code reserves for types, and the name of a Go identifier is a TypeScript binding identifier that is not a reserved word.\<close>

theorem visible_names_distinct:
  assumes "distinct (tree_scopes t)" "p \<in> set (tree_paths t)"
  shows "inj_on (targetName (NewOwner objectString (Some t) (Some info) members))
           (scoped_objects info (set p) \<union> package_methods info) \<and>
         (\<forall>x \<in> scoped_objects info (set p) - package_methods info.
            let name = targetName (NewOwner objectString (Some t) (Some info) members) x in
            name \<noteq> TargetGlobalAnchorName \<and> \<not> reservedTargetTypeName x name \<and>
            (go_identifier (object_name x) \<longrightarrow> binding_identifier name))"
proof -
  note names = NewOwner_names [OF assms(1), where os = objectString and info = info and members = members]
  have "let name = targetName (NewOwner objectString (Some t) (Some info) members) x in
      name \<noteq> TargetGlobalAnchorName \<and> \<not> reservedTargetTypeName x name \<and>
      (go_identifier (object_name x) \<longrightarrow> binding_identifier name)"
    if "x \<in> scoped_objects info (set p) - package_methods info" for x
    using names(3) [OF assms(2) that] proper_name_binding by (auto simp: Let_def)
  then show ?thesis using names(2) [OF assms(2)] by blast
qed

lemma visible_names_distinct_witness:
  "inj_on (targetName (NewOwner object_name (Some demo_tree) (Some demo_info) []))
     (scoped_objects demo_info {PackageScope 1, LocalScope 1, LocalScope 2} \<union> package_methods demo_info) \<and>
   map (targetName (NewOwner object_name (Some demo_tree) (Some demo_info) [])) (map the (info_Defs demo_info)) =
     [''x'', ''f'', ''x__shadow_2'', ''x__shadow_3'', ''x__shadow_1'', ''Object__shadow_1'', ''receiver___go_class'']"
proof
  have p: "[PackageScope 1, LocalScope 1, LocalScope 2] \<in> set (tree_paths demo_tree)" "distinct (tree_scopes demo_tree)"
    by (simp_all add: demo_tree_def)
  show "inj_on (targetName (NewOwner object_name (Some demo_tree) (Some demo_info) []))
     (scoped_objects demo_info {PackageScope 1, LocalScope 1, LocalScope 2} \<union> package_methods demo_info)"
    using visible_names_distinct [OF p(2,1), of object_name demo_info "[]"] by simp
  show "map (targetName (NewOwner object_name (Some demo_tree) (Some demo_info) [])) (map the (info_Defs demo_info)) =
     [''x'', ''f'', ''x__shadow_2'', ''x__shadow_3'', ''x__shadow_1'', ''Object__shadow_1'', ''receiver___go_class'']"
    by code_simp
qed

text \<open>
  Labels are numbered in the package, but an earlier numbered label can have the name that a later label
  has in the source: with a label \<open>a\<close> in one function and labels \<open>a\<close> and \<open>a__label_1\<close> in another one, the two
  labels of the second function become one.
\<close>

lemma label_names_collide:
  "map (targetName (preallocateLabels object_name
       [demo_object 1 LabelObject None ''a'', demo_object 2 LabelObject None ''a'', demo_object 3 LabelObject None ''a__label_1'']
       (emptyOwner [] [])))
     [demo_object 1 LabelObject None ''a'', demo_object 2 LabelObject None ''a'', demo_object 3 LabelObject None ''a__label_1''] =
   [''a'', ''a__label_1'', ''a__label_1'']"
  by code_simp

end
