(* ===== verification/OutputPaths.thy ===== *)
theory OutputPaths
  imports Identifiers TypeIdentity
begin

text \<open>
  The layout of the generated program (\<open>internal/output/layout.go\<close>): the path of the target file of every
  source file, package and generated artifact, and the specifier with which one target file imports another.

  The functions of Go's \<open>path\<close> and \<open>path/filepath\<close> work on the elements between slashes; they are those of a
  Unix system, where the two packages agree.  \<open>module.EscapePath\<close> and \<open>module.EscapeVersion\<close> (golang.org/x/mod)
  are arguments.
\<close>

subsection \<open>Paths\<close>

fun split_on :: "char \<Rightarrow> string \<Rightarrow> string list" where
  "split_on c [] = [[]]"
| "split_on c (x # xs) =
     (if x = c then [] # split_on c xs
      else case split_on c xs of [] \<Rightarrow> [[x]] | y # ys \<Rightarrow> (x # y) # ys)"

fun join_path :: "string list \<Rightarrow> string" where
  "join_path [] = []"
| "join_path [e] = e"
| "join_path (e # es) = e @ CHR ''/'' # join_path es"

abbreviation split_path :: "string \<Rightarrow> string list" where
  "split_path \<equiv> split_on CHR ''/''"

definition IsAbs :: "string \<Rightarrow> bool" where
  "IsAbs p \<longleftrightarrow> p \<noteq> [] \<and> hd p = CHR ''/''"

definition clean_step :: "bool \<Rightarrow> string list \<Rightarrow> string \<Rightarrow> string list" where
  "clean_step rooted out e =
     (if e = ''..'' then
        (if out \<noteq> [] \<and> last out \<noteq> ''..'' then butlast out else if rooted then out else out @ [e])
      else out @ [e])"

definition path_Clean :: "string \<Rightarrow> string" where
  "path_Clean p =
     (if p = [] then ''.''
      else let out = foldl (clean_step (IsAbs p)) [] (filter (\<lambda>e. e \<noteq> [] \<and> e \<noteq> ''.'') (split_path p)) in
        if IsAbs p then CHR ''/'' # join_path out else if out = [] then ''.'' else join_path out)"

definition path_Join :: "string list \<Rightarrow> string" where
  "path_Join elements =
     (let parts = filter (\<lambda>e. e \<noteq> []) elements in if parts = [] then [] else path_Clean (join_path parts))"

definition path_Dir :: "string \<Rightarrow> string" where
  "path_Dir p =
     (let es = split_path p in path_Clean (if length es \<le> 1 then [] else join_path (butlast es) @ ''/''))"

definition path_Ext :: "string \<Rightarrow> string" where
  "path_Ext p =
     (let e = last (split_path p) in
      if CHR ''.'' \<in> set e then CHR ''.'' # last (split_on CHR ''.'' e) else [])"

definition path_Base :: "string \<Rightarrow> string" where
  "path_Base p =
     (let es = filter (\<lambda>e. e \<noteq> []) (split_path p) in
      if p = [] then ''.'' else if es = [] then ''/'' else last es)"

definition HasPrefix :: "string \<Rightarrow> string \<Rightarrow> bool" where
  "HasPrefix s p \<longleftrightarrow> take (length p) s = p"

definition CutPrefix :: "string \<Rightarrow> string \<Rightarrow> string option" where
  "CutPrefix s p = (if HasPrefix s p then Some (drop (length p) s) else None)"

definition TrimSuffix :: "string \<Rightarrow> string \<Rightarrow> string" where
  "TrimSuffix s p =
     (if length p \<le> length s \<and> drop (length s - length p) s = p then take (length s - length p) s else s)"

fun strip_common :: "string list \<Rightarrow> string list \<Rightarrow> string list \<times> string list" where
  "strip_common (x # xs) (y # ys) = (if x = y then strip_common xs ys else (x # xs, y # ys))"
| "strip_common xs ys = (xs, ys)"

text \<open>\<open>filepath.Rel\<close>; the error is that the base climbs out of a directory that is not known.\<close>

definition filepath_Rel :: "string \<Rightarrow> string \<Rightarrow> string option" where
  "filepath_Rel basepath targpath =
     (let base = path_Clean basepath; targ = path_Clean targpath in
      if targ = base then Some ''.''
      else let base = (if base = ''.'' then [] else base) in
        if IsAbs base \<noteq> IsAbs targ then None
        else let (b, t) = strip_common (if base = [] then [] else split_path base) (split_path targ) in
          if b \<noteq> [] \<and> hd b = ''..'' then None
          else Some (join_path (replicate (length b) ''..'' @ t)))"

subsection \<open>Target paths\<close>

datatype path_error = PathError string string

definition validateSourcePath :: "string \<Rightarrow> path_error option" where
  "validateSourcePath sourcePath =
     (if sourcePath = [] \<or> IsAbs sourcePath \<or> path_Clean sourcePath \<noteq> sourcePath \<or>
         path_Ext sourcePath \<noteq> ''.ts'' \<or> HasPrefix sourcePath ''../''
      then Some (PathError sourcePath ''target source path is not canonical'') else None)"

definition ModuleSpecifier :: "string \<Rightarrow> string \<Rightarrow> path_error + string" where
  "ModuleSpecifier fromSourcePath toSourcePath =
     (case validateSourcePath fromSourcePath of
        Some err \<Rightarrow> Inl err
      | None \<Rightarrow> case validateSourcePath toSourcePath of
          Some err \<Rightarrow> Inl err
        | None \<Rightarrow>
            if fromSourcePath = toSourcePath
            then Inl (PathError fromSourcePath ''source module cannot import itself'')
            else case filepath_Rel (path_Dir fromSourcePath) toSourcePath of
                None \<Rightarrow> Inl (PathError toSourcePath ''path cannot be made relative'')
              | Some relative \<Rightarrow>
                  let relative = TrimSuffix relative ''.ts'' @ ''.js'' in
                  Inr (if \<not> HasPrefix relative ''.'' then ''./'' @ relative else relative))"

definition RuntimePackageName :: string where
  "RuntimePackageName = ''@gotots/runtime''"

definition RuntimePackageRootPath :: string where
  "RuntimePackageRootPath = ''runtime''"

definition ScalarSupportPath :: string where
  "ScalarSupportPath = ''runtime/scalars.ts''"

definition CallableImplementationRootPath :: string where
  "CallableImplementationRootPath = ''implementations''"

definition CallableImplementationPath :: "string \<Rightarrow> path_error + string" where
  "CallableImplementationPath selected =
     (case validateSourcePath selected of
        Some err \<Rightarrow> Inl err
      | None \<Rightarrow>
          let prefix = CallableImplementationRootPath @ ''/'' in
          if \<not> HasPrefix selected prefix \<or> length selected = length prefix
          then Inl (PathError selected ''callable implementation is outside its owned root'')
          else Inr selected)"

definition RuntimeModuleSpecifier :: "string \<Rightarrow> path_error + string" where
  "RuntimeModuleSpecifier runtimeSourcePath =
     (case validateSourcePath runtimeSourcePath of
        Some err \<Rightarrow> Inl err
      | None \<Rightarrow>
          case CutPrefix runtimeSourcePath (RuntimePackageRootPath @ ''/'') of
            None \<Rightarrow> Inl (PathError runtimeSourcePath ''source module is outside the runtime package'')
          | Some relative \<Rightarrow>
              if relative = []
              then Inl (PathError runtimeSourcePath ''source module is outside the runtime package'')
              else Inr (RuntimePackageName @ ''/'' @ TrimSuffix relative ''.ts'' @ ''.js''))"

definition segment_rune :: "nat \<Rightarrow> bool" where
  "segment_rune v \<longleftrightarrow> plain_rune v \<or> v = 36"

definition semanticGeneratedArtifactPath :: "string \<Rightarrow> string \<Rightarrow> path_error + string" where
  "semanticGeneratedArtifactPath directory m =
     (let err = PathError m ''semantic generated artifact module is invalid'' in
      if m = [] \<or> IsAbs m then Inl err
      else if \<exists>segment \<in> set (split_path m). segment = [] \<or> segment = ''.'' \<or> segment = ''..'' \<or>
                \<not> list_all segment_rune (runes segment) then Inl err
      else Inr (path_Join [''support'', directory, m @ ''.ts'']))"

definition GenericCapabilityPath :: "string \<Rightarrow> path_error + string" where
  "GenericCapabilityPath m = semanticGeneratedArtifactPath ''generics/capabilities'' m"

definition InterfaceAdapterSupportPath :: "string \<Rightarrow> path_error + string" where
  "InterfaceAdapterSupportPath m = semanticGeneratedArtifactPath ''interface-adapters'' m"

definition GenericConcretizationPath :: "string \<Rightarrow> path_error + string" where
  "GenericConcretizationPath m = semanticGeneratedArtifactPath ''generics/concretizations'' m"

subsection \<open>Packages\<close>

datatype PackageKind = PackageInvalid | PackageSource | PackageStandardLibraryContract | PackageExternalContract

record load_file =
  file_path :: string
  file_syntax :: nat

record load_package =
  pk_kind :: PackageKind
  pk_path :: string
  pk_modulePath :: string
  pk_moduleVersion :: string
  pk_contractKey :: string
  pk_files :: "load_file list"

definition EnvironmentContract :: "PackageKind \<Rightarrow> bool" where
  "EnvironmentContract k \<longleftrightarrow> k = PackageStandardLibraryContract \<or> k = PackageExternalContract"

definition ToolchainKey :: "load_package \<Rightarrow> string" where
  "ToolchainKey p = (if pk_kind p \<noteq> PackageStandardLibraryContract then '''' else pk_contractKey p)"

definition ExternalContractKey :: "load_package \<Rightarrow> string" where
  "ExternalContractKey p = (if pk_kind p \<noteq> PackageExternalContract then '''' else pk_contractKey p)"

definition FileForSyntax :: "load_package \<Rightarrow> nat \<Rightarrow> load_file option" where
  "FileForSyntax p syntax = List.find (\<lambda>f. file_syntax f = syntax) (pk_files p)"

definition canonical_import :: "string \<Rightarrow> bool" where
  "canonical_import p \<longleftrightarrow> \<not> IsAbs p \<and> path_Clean p = p \<and> p \<noteq> ''.'' \<and> \<not> HasPrefix p ''../''"

definition EnvironmentContractPath :: "load_package option \<Rightarrow> path_error + string" where
  "EnvironmentContractPath sourcePackage =
     (case sourcePackage of
        None \<Rightarrow> Inl (PathError '''' ''environment package is nil'')
      | Some p \<Rightarrow>
          if \<not> EnvironmentContract (pk_kind p) \<or> pk_path p = ''''
          then Inl (PathError (pk_path p) ''package is not an environment contract'')
          else if \<not> canonical_import (pk_path p)
          then Inl (PathError (pk_path p) ''environment contract import path is not canonical'')
          else case pk_kind p of
              PackageStandardLibraryContract \<Rightarrow>
                if pk_modulePath p \<noteq> '''' \<or> ToolchainKey p = ''''
                then Inl (PathError (pk_path p) ''standard-library contract identity is incomplete'')
                else Inr (path_Join [''gostdlib'', ToolchainKey p, pk_path p, ''index.ts''])
            | PackageExternalContract \<Rightarrow>
                if ExternalContractKey p = ''''
                then Inl (PathError (pk_path p) ''external contract identity is incomplete'')
                else Inr (path_Join [''externals'', ExternalContractKey p, pk_path p, ''index.ts''])
            | _ \<Rightarrow> Inl (PathError (pk_path p) ''environment contract ownership is invalid''))"

definition StandardLibraryConstantProjectionPath :: "load_package option \<Rightarrow> path_error + string" where
  "StandardLibraryConstantProjectionPath sourcePackage =
     (case sourcePackage of
        None \<Rightarrow> Inl (PathError '''' ''standard-library projection owner is invalid'')
      | Some p \<Rightarrow>
          if pk_kind p \<noteq> PackageStandardLibraryContract \<or> pk_path p = '''' \<or> ToolchainKey p = ''''
          then Inl (PathError '''' ''standard-library projection owner is invalid'')
          else if \<not> canonical_import (pk_path p)
          then Inl (PathError (pk_path p) ''standard-library projection import path is not canonical'')
          else Inr (path_Join [''support'', ''constant-projections'', ToolchainKey p, pk_path p, ''index.ts'']))"

text \<open>The escaping of golang.org/x/mod, which fails on paths and versions that are not well formed.\<close>

record module_escaping =
  EscapePath :: "string \<Rightarrow> string option"
  EscapeVersion :: "string \<Rightarrow> string option"

definition moduleRelativePackage :: "module_escaping \<Rightarrow> load_package \<Rightarrow> path_error + string" where
  "moduleRelativePackage esc p =
     (case EscapePath esc (pk_path p) of
        None \<Rightarrow> Inl (PathError (pk_path p) ''package path is not a valid semantic path'')
      | Some escapedPackage \<Rightarrow>
          case EscapePath esc (pk_modulePath p) of
            None \<Rightarrow> Inl (PathError (pk_modulePath p) ''module path is not a valid semantic path'')
          | Some escapedModule \<Rightarrow>
              if escapedPackage = escapedModule then Inr ''_root''
              else case CutPrefix escapedPackage (escapedModule @ ''/'') of
                  None \<Rightarrow> Inl (PathError (pk_path p) ''package path is outside its semantic module'')
                | Some relative \<Rightarrow>
                    if relative = [] \<or> path_Clean relative \<noteq> relative \<or> HasPrefix relative ''../''
                    then Inl (PathError (pk_path p) ''package path is outside its semantic module'')
                    else Inr relative)"

definition moduleKey :: "module_escaping \<Rightarrow> string \<Rightarrow> string \<Rightarrow> path_error + string" where
  "moduleKey esc modulePath moduleVersion =
     (case EscapePath esc modulePath of
        None \<Rightarrow> Inl (PathError modulePath ''module path is not a valid semantic path'')
      | Some escapedPath \<Rightarrow>
          if moduleVersion = '''' then Inr escapedPath
          else case EscapeVersion esc moduleVersion of
              None \<Rightarrow> Inl (PathError moduleVersion ''module version is not canonical'')
            | Some escapedVersion \<Rightarrow> Inr (escapedPath @ ''@'' @ escapedVersion))"

definition semanticModuleKey :: "module_escaping \<Rightarrow> load_package \<Rightarrow> path_error + string" where
  "semanticModuleKey esc p = moduleKey esc (pk_modulePath p) (pk_moduleVersion p)"

definition moduleOwnedPath :: "module_escaping \<Rightarrow> load_package \<Rightarrow> string \<Rightarrow> string \<Rightarrow> path_error + string" where
  "moduleOwnedPath esc p directory fileName =
     (case moduleRelativePackage esc p of
        Inl err \<Rightarrow> Inl err
      | Inr packagePath \<Rightarrow>
          case semanticModuleKey esc p of
            Inl err \<Rightarrow> Inl err
          | Inr moduleOwner \<Rightarrow> Inr (path_Join [directory, moduleOwner, packagePath, fileName]))"

definition packageArtifactPath :: "module_escaping \<Rightarrow> load_package option \<Rightarrow> string \<Rightarrow> path_error + string" where
  "packageArtifactPath esc sourcePackage fileName =
     (case sourcePackage of
        None \<Rightarrow> Inl (PathError '''' ''source package is nil'')
      | Some p \<Rightarrow>
          if pk_modulePath p = '''' then Inl (PathError (pk_path p) ''package has no source module identity'')
          else moduleOwnedPath esc p ''packages'' fileName)"

definition PackageAssemblyPath :: "module_escaping \<Rightarrow> load_package option \<Rightarrow> path_error + string" where
  "PackageAssemblyPath esc sourcePackage = packageArtifactPath esc sourcePackage ''package.ts''"

definition PackageStatePath :: "module_escaping \<Rightarrow> load_package option \<Rightarrow> path_error + string" where
  "PackageStatePath esc sourcePackage = packageArtifactPath esc sourcePackage ''state.ts''"

definition SourcePath :: "module_escaping \<Rightarrow> load_package option \<Rightarrow> load_file \<Rightarrow> path_error + string" where
  "SourcePath esc sourcePackage sourceFile =
     (case sourcePackage of
        None \<Rightarrow> Inl (PathError '''' ''source package is nil'')
      | Some p \<Rightarrow>
          if pk_modulePath p = '''' then Inl (PathError (pk_path p) ''package has no source module identity'')
          else if map_option file_path (FileForSyntax p (file_syntax sourceFile)) \<noteq> Some (file_path sourceFile)
          then Inl (PathError (file_path sourceFile) ''file does not belong to the source package'')
          else let extension = path_Ext (file_path sourceFile);
                   baseName = TrimSuffix (path_Base (file_path sourceFile)) extension in
            if extension \<noteq> ''.go'' \<or> baseName = ''''
            then Inl (PathError (file_path sourceFile) ''source file is not a named Go file'')
            else moduleOwnedPath esc p ''modules'' (baseName @ ''.ts''))"

lemma layout_examples:
  "ModuleSpecifier ''modules/example.com/demand/api/api.ts'' ''modules/example.com/demand/service/service.ts'' =
     Inr ''../service/service.js''"
  "ModuleSpecifier ''program.ts'' ''packages/example/api/package.ts'' = Inr ''./packages/example/api/package.js''"
  "RuntimeModuleSpecifier ScalarSupportPath = Inr ''@gotots/runtime/scalars.js''"
  "GenericConcretizationPath ''example_u2e_com/math/Add'' = Inr ''support/generics/concretizations/example_u2e_com/math/Add.ts''"
  by code_simp+

end
