(* ===== verification/ModulePaths.thy ===== *)
theory ModulePaths
  imports OutputPaths
begin

text \<open>
  Import specifiers lead back: resolving the specifier that \<open>ModuleSpecifier\<close> computes against the directory of
  the importing file gives the target file, with the extension of the compiled module.  The proof works on the
  elements of paths.
\<close>

subsection \<open>Elements\<close>

lemma split_on_nonempty [simp]: "split_on c s \<noteq> []"
  by (induction s) (auto split: list.splits)

lemma split_on_free: "e \<in> set (split_on c s) \<Longrightarrow> c \<notin> set e"
proof (induction s arbitrary: e)
  case (Cons x xs)
  then show ?case by (cases "split_on c xs") (auto split: if_splits)
qed simp

lemma join_split [simp]: "join_path (split_path s) = s"
proof (induction s)
  case (Cons x xs)
  obtain y ys where y: "split_path xs = y # ys" by (cases "split_path xs") auto
  show ?case using Cons by (cases ys) (auto simp: y)
qed simp

lemma split_on_append: "c \<notin> set e \<Longrightarrow> split_on c (e @ c # s) = e # split_on c s"
  by (induction e) auto

lemma split_on_single: "c \<notin> set e \<Longrightarrow> split_on c e = [e]"
  by (induction e) auto

definition slash_free :: "string list \<Rightarrow> bool" where
  "slash_free es \<longleftrightarrow> (\<forall>e \<in> set es. CHR ''/'' \<notin> set e)"

lemma slash_free_simps [simp]:
  "slash_free []" "slash_free (e # es) \<longleftrightarrow> CHR ''/'' \<notin> set e \<and> slash_free es"
  "slash_free (es @ fs) \<longleftrightarrow> slash_free es \<and> slash_free fs"
  by (auto simp: slash_free_def)

lemma slash_free_split [simp]: "slash_free (split_path p)"
  using split_on_free by (auto simp: slash_free_def)

lemma split_join: "es \<noteq> [] \<Longrightarrow> slash_free es \<Longrightarrow> split_path (join_path es) = es"
  by (induction es rule: join_path.induct) (auto simp: split_on_append split_on_single)

lemma join_append: "xs \<noteq> [] \<Longrightarrow> ys \<noteq> [] \<Longrightarrow> join_path (xs @ ys) = join_path xs @ CHR ''/'' # join_path ys"
proof (induction xs rule: join_path.induct)
  case (2 e)
  then show ?case by (cases ys) auto
qed auto

lemma split_on_one: "split_on c s = [y] \<Longrightarrow> c \<notin> set s"
proof (induction s arbitrary: y)
  case (Cons x xs)
  then show ?case by (cases "split_on c xs") (auto split: if_splits)
qed simp

lemma split_on_last: "c \<in> set s \<Longrightarrow> \<exists>b. s = b @ c # last (split_on c s)"
proof (induction s)
  case (Cons x xs)
  obtain y ys where y: "split_on c xs = y # ys" by (cases "split_on c xs") auto
  show ?case
  proof (cases "c \<in> set xs")
    case True
    then have "ys \<noteq> []" using y split_on_one by blast
    then have "last (split_on c (x # xs)) = last (split_on c xs)" by (simp add: y)
    moreover obtain b where "xs = b @ c # last (split_on c xs)" using Cons.IH True by blast
    ultimately show ?thesis by (intro exI [of _ "x # b"]) simp
  next
    case False
    with Cons.prems have "x = c" by simp
    then show ?thesis using False by (intro exI [of _ "[]"]) (simp add: split_on_single)
  qed
qed simp

subsection \<open>Cleaning\<close>

definition normal :: "string list \<Rightarrow> bool" where
  "normal es \<longleftrightarrow> (\<forall>e \<in> set es. e \<noteq> [] \<and> e \<noteq> ''.'' \<and> e \<noteq> ''..'') \<and> slash_free es"

lemma normal_simps [simp]:
  "normal []" "normal (e # es) \<longleftrightarrow> e \<noteq> [] \<and> e \<noteq> ''.'' \<and> e \<noteq> ''..'' \<and> CHR ''/'' \<notin> set e \<and> normal es"
  "normal (es @ fs) \<longleftrightarrow> normal es \<and> normal fs"
  by (auto simp: normal_def)

lemma normal_slash_free: "normal es \<Longrightarrow> slash_free es"
  by (simp add: normal_def)

lemma clean_normal: "normal es \<Longrightarrow> foldl (clean_step rooted) out es = out @ es"
  by (induction es arbitrary: out) (auto simp: clean_step_def)

lemma clean_up:
  "normal r \<Longrightarrow> foldl (clean_step rooted) (out @ r) (replicate (length r) ''..'') = out"
proof (induction r rule: rev_induct)
  case (snoc x xs)
  then have "clean_step rooted (out @ xs @ [x]) ''..'' = out @ xs" by (auto simp: clean_step_def butlast_append)
  then show ?case using snoc by simp
qed simp

lemma filter_normal: "normal es \<Longrightarrow> filter (\<lambda>e. e \<noteq> [] \<and> e \<noteq> ''.'') es = es"
  by (induction es) auto

lemma filter_up: "filter (\<lambda>e. e \<noteq> [] \<and> e \<noteq> ''.'') (replicate k ''..'') = replicate k ''..''"
  by (induction k) auto

lemma join_hd: "es \<noteq> [] \<Longrightarrow> hd es \<noteq> [] \<Longrightarrow> join_path es \<noteq> [] \<and> hd (join_path es) = hd (hd es)"
  by (induction es rule: join_path.induct) auto

lemma join_not_abs:
  assumes "es \<noteq> []" "hd es \<noteq> []" "slash_free es"
  shows "\<not> IsAbs (join_path es)"
proof -
  obtain a as where es: "es = a # as" using assms(1) by (cases es) auto
  have "hd a \<in> set a" "CHR ''/'' \<notin> set a" using assms(2,3) by (auto simp: es)
  then have "hd a \<noteq> CHR ''/''" by metis
  then show ?thesis using join_hd [OF assms(1,2)] by (simp add: IsAbs_def es)
qed

text \<open>Cleaning a relative path, by its elements.\<close>

lemma clean_elements:
  assumes "es \<noteq> []" "hd es \<noteq> []" "slash_free es"
  shows "path_Clean (join_path es) =
    (let out = foldl (clean_step False) [] (filter (\<lambda>e. e \<noteq> [] \<and> e \<noteq> ''.'') es) in
     if out = [] then ''.'' else join_path out)"
  using join_hd [OF assms(1,2)] join_not_abs [OF assms] split_join [OF assms(1,3)]
  by (simp add: path_Clean_def)

lemma normal_hd: "normal es \<Longrightarrow> es \<noteq> [] \<Longrightarrow> hd es \<noteq> []"
  by (cases es) auto

lemma clean_join_normal: "normal es \<Longrightarrow> es \<noteq> [] \<Longrightarrow> path_Clean (join_path es) = join_path es"
  by (simp add: clean_elements normal_hd normal_slash_free filter_normal clean_normal)

subsection \<open>Valid target paths\<close>

text \<open>Without a root, cleaning leaves a climb followed by normal elements.\<close>

definition climbing :: "string list \<Rightarrow> bool" where
  "climbing es \<longleftrightarrow> (\<exists>k ns. es = replicate k ''..'' @ ns \<and> normal ns)"

lemma climbing_step:
  assumes "climbing out" "e \<noteq> []" "e \<noteq> ''.''" "CHR ''/'' \<notin> set e"
  shows "climbing (clean_step False out e)"
proof -
  from assms(1) obtain k ns where out: "out = replicate k ''..'' @ ns" "normal ns" by (auto simp: climbing_def)
  show ?thesis
  proof (cases "e = ''..''")
    case False
    then have "normal (ns @ [e])" "clean_step False out e = replicate k ''..'' @ (ns @ [e])"
      using out assms by (simp_all add: clean_step_def)
    then show ?thesis unfolding climbing_def by blast
  next
    case True
    show ?thesis
    proof (cases ns rule: rev_cases)
      case Nil
      then have "clean_step False out e = replicate (Suc k) ''..'' @ []"
        using True out by (cases k) (auto simp: clean_step_def replicate_append_same)
      then show ?thesis unfolding climbing_def by (metis normal_simps(1))
    next
      case (snoc ms m)
      then have "clean_step False out e = replicate k ''..'' @ ms" "normal ms"
        using True out by (auto simp: clean_step_def butlast_append)
      then show ?thesis by (auto simp: climbing_def)
    qed
  qed
qed

lemma climbing_fold:
  "climbing out \<Longrightarrow> (\<forall>e \<in> set es. e \<noteq> [] \<and> e \<noteq> ''.'' \<and> CHR ''/'' \<notin> set e) \<Longrightarrow>
     climbing (foldl (clean_step False) out es)"
  by (induction es arbitrary: out) (auto intro: climbing_step)

lemma valid_elements:
  assumes "validateSourcePath p = None"
  obtains es b where "p = join_path (es @ [b @ ''.ts''])" "normal (es @ [b @ ''.ts''])"
proof -
  have v: "p \<noteq> []" "\<not> IsAbs p" "path_Clean p = p" "path_Ext p = ''.ts''" "\<not> HasPrefix p ''../''"
    using assms by (auto simp: validateSourcePath_def split: if_splits)
  define out where "out = foldl (clean_step False) [] (filter (\<lambda>e. e \<noteq> [] \<and> e \<noteq> ''.'') (split_path p))"
  have c: "(if out = [] then ''.'' else join_path out) = p"
    using v(1-3) unfolding path_Clean_def out_def Let_def by (simp only: if_False)
  have dot: "path_Ext ''.'' \<noteq> ''.ts''" "path_Ext ''..'' \<noteq> ''.ts''" by (simp_all add: path_Ext_def Let_def)
  then have p: "out \<noteq> []" "p = join_path out" using c v(4) by (auto split: if_splits)
  have "climbing out"
    unfolding out_def by (rule climbing_fold) (auto simp: climbing_def dest: split_on_free)
  then obtain k ns where k: "out = replicate k ''..'' @ ns" "normal ns" by (auto simp: climbing_def)
  have "k = 0"
  proof (rule ccontr)
    assume "k \<noteq> 0"
    then obtain rest where o: "out = ''..'' # rest" using k by (cases k) auto
    show False
    proof (cases "rest = []")
      case True
      then show False using p(2) o v(4) dot by simp
    next
      case False
      then obtain y ys where "rest = y # ys" by (cases rest) auto
      then show False using p(2) o v(5) by (simp add: HasPrefix_def)
    qed
  qed
  then have out: "normal out" using k by simp
  obtain es e where e: "out = es @ [e]" using p(1) by (cases out rule: rev_cases) auto
  have "split_path p = out" using p out by (simp add: split_join normal_slash_free)
  then have ext: "(if CHR ''.'' \<in> set e then CHR ''.'' # last (split_on CHR ''.'' e) else []) = ''.ts''"
    using v(4) by (simp add: path_Ext_def e)
  then obtain b where "e = b @ ''.ts''"
    using split_on_last [of "CHR ''.''" e] by (auto split: if_splits)
  then show thesis using that [of es b] p out e by simp
qed
subsection \<open>Specifiers\<close>

lemma TrimSuffix_append [simp]: "TrimSuffix (s @ p) p = s"
  by (simp add: TrimSuffix_def)

lemma join_snoc_suffix: "join_path (es @ [b @ x]) = join_path (es @ [b]) @ x"
  by (induction es rule: join_path.induct) auto

lemma retarget: "TrimSuffix (join_path (es @ [b @ ''.ts''])) ''.ts'' @ ''.js'' = join_path (es @ [b @ ''.js''])"
  by (simp only: join_snoc_suffix TrimSuffix_append)

lemma strip_common_split: "strip_common xs ys = (r, t) \<Longrightarrow> \<exists>c. xs = c @ r \<and> ys = c @ t"
proof (induction xs ys rule: strip_common.induct)
  case (1 x xs y ys)
  then show ?case by (auto split: if_splits intro: exI [of _ "x # _"])
qed auto

lemma strip_common_same [simp]: "strip_common xs xs = ([], [])"
  by (induction xs) auto

lemma Dir_join:
  assumes "normal (fs @ [f])"
  shows "path_Dir (join_path (fs @ [f])) = (if fs = [] then ''.'' else join_path fs)"
proof (cases "fs = []")
  case True
  with assms show ?thesis by (simp add: path_Dir_def split_on_single path_Clean_def)
next
  case False
  then have "join_path fs @ ''/'' = join_path (fs @ [[]])" by (simp add: join_append)
  moreover have "path_Clean (join_path (fs @ [[]])) = join_path fs"
    using assms False by (subst clean_elements) (auto simp: normal_hd normal_slash_free filter_normal clean_normal)
  ultimately show ?thesis
    using assms False by (simp add: path_Dir_def split_join normal_slash_free Let_def)
qed

lemma join_eq_normal: "normal xs \<Longrightarrow> normal ys \<Longrightarrow> xs \<noteq> [] \<Longrightarrow> ys \<noteq> [] \<Longrightarrow> join_path xs = join_path ys \<longleftrightarrow> xs = ys"
  by (metis split_join normal_slash_free)

text \<open>From the directory \<open>c @ r\<close> to the file \<open>c @ t\<close>: up along \<open>r\<close> and down along \<open>t\<close>.\<close>

lemma Rel_join:
  assumes n: "normal (fs @ [f])" "normal ts" "ts \<noteq> []" and s: "strip_common fs ts = (r, t)" "t \<noteq> []"
  shows "filepath_Rel (path_Dir (join_path (fs @ [f]))) (join_path ts) =
    Some (join_path (replicate (length r) ''..'' @ t))"
proof -
  define base where "base = (if fs = [] then ''.'' else join_path fs)"
  obtain c where c: "fs = c @ r" "ts = c @ t" using strip_common_split [OF s(1)] by blast
  have "path_Clean ''.'' = ''.''" by code_simp
  then have clean: "path_Clean base = base" "path_Clean (join_path ts) = join_path ts"
    using n clean_join_normal [of fs] clean_join_normal [of ts] by (auto simp: base_def)
  have tsn: "join_path ts \<noteq> ''.''" "join_path ts \<noteq> []"
    using n(2,3) join_hd [of ts] join_eq_normal [of ts "[''x'']"] normal_hd [of ts]
    by (auto dest!: arg_cong [of _ "''.''" split_path] simp: split_join normal_slash_free)
  have neq: "join_path ts \<noteq> base"
  proof (cases "fs = []")
    case False
    have "ts \<noteq> fs" using s by auto
    then show ?thesis using n False join_eq_normal [of ts fs] by (simp add: base_def)
  qed (use tsn in \<open>simp add: base_def\<close>)
  have abs: "\<not> IsAbs (join_path ts)" "\<not> IsAbs (if base = ''.'' then [] else base)"
    using n join_not_abs [of ts] join_not_abs [of fs] normal_hd [of ts] normal_hd [of fs]
    by (auto simp: base_def normal_slash_free IsAbs_def)
  have b: "base = ''.'' \<longleftrightarrow> fs = []"
  proof (cases "fs = []")
    case False
    then have "split_path base = fs" using n by (simp add: base_def split_join normal_slash_free)
    then have "base \<noteq> ''.''" using n False by (cases fs) auto
    then show ?thesis using False by simp
  qed (simp add: base_def)
  have elems: "(if (if base = ''.'' then [] else base) = [] then [] else split_path (if base = ''.'' then [] else base)) = fs"
    using n b join_hd [of fs] normal_hd [of fs]
    by (auto simp: base_def split_join normal_slash_free)
  have r: "\<not> (r \<noteq> [] \<and> hd r = ''..'')" using n(1) c by (cases r) auto
  have "filepath_Rel base (join_path ts) = Some (join_path (replicate (length r) ''..'' @ t))"
    unfolding filepath_Rel_def Let_def clean
    using neq abs r elems s(1) n(2,3)
    by (simp add: split_join normal_slash_free)
  then show ?thesis unfolding Dir_join [OF n(1)] base_def .
qed

text \<open>Resolving: a climb along \<open>r\<close> from the directory \<open>c @ r\<close>, then down along the elements of the file.\<close>

lemma resolve_join:
  assumes n: "normal ((c @ r) @ [f])" "normal t" "t \<noteq> []" and here: "here = [] \<or> here = [''.'']"
  shows "path_Join [path_Dir (join_path ((c @ r) @ [f])), join_path (here @ replicate (length r) ''..'' @ t)] =
    join_path (c @ t)"
proof -
  define ds where "ds = (if c @ r = [] then [''.''] else c @ r)"
  let ?ss = "here @ replicate (length r) ''..'' @ t"
  have dir: "path_Dir (join_path ((c @ r) @ [f])) = join_path ds"
    unfolding Dir_join [OF n(1)] ds_def by simp
  have free: "slash_free c" "slash_free r" "slash_free t" "slash_free (replicate (length r) ''..'')"
    using n normal_slash_free by (auto simp: slash_free_def)
  then have hd: "ds \<noteq> []" "hd ds \<noteq> []" "?ss \<noteq> []" "hd ?ss \<noteq> []" "slash_free (ds @ ?ss)"
    using n here normal_hd [of "c @ r"] normal_hd [of t]
    by (auto simp: ds_def hd_append)
  have clean: "foldl (clean_step False) [] (filter (\<lambda>e. e \<noteq> [] \<and> e \<noteq> ''.'') (ds @ ?ss)) = c @ t"
  proof -
    have "filter (\<lambda>e. e \<noteq> [] \<and> e \<noteq> ''.'') ds = c @ r" "filter (\<lambda>e. e \<noteq> [] \<and> e \<noteq> ''.'') here = []"
      using n(1) here filter_normal [of "c @ r"] by (auto simp: ds_def)
    then have "filter (\<lambda>e. e \<noteq> [] \<and> e \<noteq> ''.'') (ds @ ?ss) = (c @ r) @ replicate (length r) ''..'' @ t"
      using n(2) filter_normal [of t] filter_up [of "length r"] by simp
    then show ?thesis
      using n clean_normal [of "c @ r" False "[]"] clean_up [of r False c] clean_normal [of t False c] by simp
  qed
  have "path_Clean (join_path (ds @ ?ss)) = join_path (c @ t)"
    using clean_elements [of "ds @ ?ss"] hd n(3) unfolding clean by simp
  then show ?thesis
    unfolding dir path_Join_def
    using hd join_hd [of ds] join_hd [of ?ss] join_append [of ds ?ss] by simp
qed

definition relative_specifier :: "string \<Rightarrow> bool" where
  "relative_specifier s \<longleftrightarrow> HasPrefix s ''./'' \<or> HasPrefix s ''../''"

lemma join_starts: "es \<noteq> [] \<Longrightarrow> hd es \<noteq> [] \<Longrightarrow> HasPrefix (join_path es) ''.'' \<longleftrightarrow> HasPrefix (hd es) ''.''"
proof -
  assume "es \<noteq> []" "hd es \<noteq> []"
  then obtain x xs where "join_path es = x # xs" "x = hd (hd es)" using join_hd [of es] by (cases "join_path es") auto
  then show ?thesis using \<open>hd es \<noteq> []\<close> by (cases "hd es") (auto simp: HasPrefix_def)
qed

text \<open>C37: An import specifier leads to its target. For two different valid target paths, where the target is not a directory of the importing file, ModuleSpecifier succeeds, and resolving the specifier against the directory of the importing file gives the target path with the extension .js in the place of .ts. The specifier is relative, unless an element of the target path begins with a dot.\<close>

theorem specifier_resolves:
  assumes "validateSourcePath source = None" "validateSourcePath target = None" "source \<noteq> target"
    and "\<not> HasPrefix source (target @ ''/'')"
  shows "\<exists>s. ModuleSpecifier source target = Inr s \<and>
     path_Join [path_Dir source, s] = TrimSuffix target ''.ts'' @ ''.js'' \<and>
     (relative_specifier s \<or> (\<exists>e \<in> set (split_path target). HasPrefix e ''.''))"
proof -
  obtain fs f where src: "source = join_path (fs @ [f])" "normal (fs @ [f])"
    using valid_elements [OF assms(1)] by metis
  obtain ts b where tgt: "target = join_path (ts @ [b @ ''.ts''])" "normal (ts @ [b @ ''.ts''])"
    using valid_elements [OF assms(2)] by metis
  obtain r t where rt: "strip_common fs (ts @ [b @ ''.ts'']) = (r, t)"
    by (cases "strip_common fs (ts @ [b @ ''.ts''])")
  then obtain c where c: "fs = c @ r" "ts @ [b @ ''.ts''] = c @ t" using strip_common_split by blast
  have "t \<noteq> []"
  proof
    assume "t = []"
    then have "c \<noteq> []" "target = join_path c" using c tgt by auto
    then have "source = (target @ ''/'') @ join_path (r @ [f])" using src c by (simp add: join_append)
    then show False using assms(4) by (simp add: HasPrefix_def)
  qed
  then obtain d where t: "t = d @ [b @ ''.ts'']" "ts = c @ d" using c(2) by (cases t rule: rev_cases) auto
  define out where "out = replicate (length r) ''..'' @ d @ [b @ ''.js'']"
  have rel: "filepath_Rel (path_Dir source) target = Some (join_path (replicate (length r) ''..'' @ t))"
    unfolding src(1) tgt(1) using src(2) tgt(2) rt \<open>t \<noteq> []\<close> by (intro Rel_join) auto
  have trim: "TrimSuffix (join_path (replicate (length r) ''..'' @ t)) ''.ts'' @ ''.js'' = join_path out"
    using retarget [of "replicate (length r) ''..'' @ d" b] by (simp add: t out_def)
  have tjs: "TrimSuffix target ''.ts'' @ ''.js'' = join_path (c @ d @ [b @ ''.js''])"
    using retarget [of ts b] by (simp only: tgt(1) t(2) append_assoc)
  have norm: "normal (d @ [b @ ''.js''])" using tgt(2) t(2) by auto
  have res: "path_Join [path_Dir source, join_path (here @ out)] = TrimSuffix target ''.ts'' @ ''.js''"
    if "here = [] \<or> here = [''.'']" for here
    unfolding tjs src(1) c(1) out_def using src(2) c(1) norm that by (intro resolve_join) auto
  have out: "out \<noteq> []" "hd out \<noteq> []"
    using norm normal_hd [of "d @ [b @ ''.js'']"] by (auto simp: out_def hd_append)
  have spec: "ModuleSpecifier source target =
      Inr (if \<not> HasPrefix (join_path out) ''.'' then ''./'' @ join_path out else join_path out)"
    using assms(1-3) by (simp add: ModuleSpecifier_def rel trim Let_def)
  show ?thesis
  proof (cases "HasPrefix (join_path out) ''.''")
    case False
    have "''./'' @ join_path out = join_path ([''.''] @ out)" using out(1) by (cases out) auto
    moreover have "relative_specifier (''./'' @ join_path out)" by (simp add: relative_specifier_def HasPrefix_def)
    ultimately show ?thesis
      using False spec res [of "[''.'']"] by (intro exI [of _ "''./'' @ join_path out"]) simp
  next
    case True
    have "relative_specifier (join_path out) \<or> (\<exists>e \<in> set (split_path target). HasPrefix e ''.'')"
    proof (cases r)
      case (Cons x xs)
      then show ?thesis by (cases "replicate (length xs) ''..'' @ d @ [b @ ''.js'']")
        (auto simp: out_def relative_specifier_def HasPrefix_def)
    next
      case Nil
      then have hdot: "HasPrefix (hd (d @ [b @ ''.js''])) ''.''" using True join_starts [OF out] by (simp add: out_def)
      have "split_path target = c @ d @ [b @ ''.ts'']" using tgt t(2) by (simp add: split_join normal_slash_free)
      moreover have "HasPrefix (hd (d @ [b @ ''.ts''])) ''.''"
        using hdot by (cases d; cases b) (auto simp: HasPrefix_def)
      moreover have "hd (d @ [b @ ''.ts'']) \<in> set (d @ [b @ ''.ts''])" by (rule hd_in_set) simp
      ultimately show ?thesis by (metis Un_iff set_append)
    qed
    then show ?thesis using True spec res [of "[]"] by simp
  qed
qed

lemma specifier_resolves_witness:
  "ModuleSpecifier ''modules/m/api/api.ts'' ''modules/m/service/service.ts'' = Inr ''../service/service.js'' \<and>
   (\<exists>s. ModuleSpecifier ''modules/m/api/api.ts'' ''modules/m/service/service.ts'' = Inr s \<and>
     path_Join [path_Dir ''modules/m/api/api.ts'', s] = TrimSuffix ''modules/m/service/service.ts'' ''.ts'' @ ''.js'' \<and>
     (relative_specifier s \<or> (\<exists>e \<in> set (split_path ''modules/m/service/service.ts''). HasPrefix e ''.'')))"
proof
  show "ModuleSpecifier ''modules/m/api/api.ts'' ''modules/m/service/service.ts'' = Inr ''../service/service.js''"
    by code_simp
  have v: "validateSourcePath ''modules/m/api/api.ts'' = None" "validateSourcePath ''modules/m/service/service.ts'' = None"
    "\<not> HasPrefix ''modules/m/api/api.ts'' (''modules/m/service/service.ts'' @ ''/'')"
    by code_simp+
  show "\<exists>s. ModuleSpecifier ''modules/m/api/api.ts'' ''modules/m/service/service.ts'' = Inr s \<and>
     path_Join [path_Dir ''modules/m/api/api.ts'', s] = TrimSuffix ''modules/m/service/service.ts'' ''.ts'' @ ''.js'' \<and>
     (relative_specifier s \<or> (\<exists>e \<in> set (split_path ''modules/m/service/service.ts''). HasPrefix e ''.''))"
    by (rule specifier_resolves [OF v(1,2) _ v(3)]) simp
qed

text \<open>
  A target in a directory whose name begins with a dot, below the directory of the importing file: the
  specifier has no leading dot element, so that it names a package and not a file.
\<close>

lemma dot_directory_specifier:
  "ModuleSpecifier ''implementations/a.ts'' ''implementations/.internal/b.ts'' = Inr ''.internal/b.js'' \<and>
   \<not> relative_specifier ''.internal/b.js''"
  by code_simp

text \<open>
  The root package of a module is laid out under \<open>_root\<close>, where a package of the module that is called so has
  its files as well.
\<close>

definition plain_escaping :: module_escaping where
  "plain_escaping = \<lparr>EscapePath = Some, EscapeVersion = Some\<rparr>"

definition demo_layout_package :: "string \<Rightarrow> load_package" where
  "demo_layout_package p = \<lparr>pk_kind = PackageSource, pk_path = p, pk_modulePath = ''example.com/m'', pk_moduleVersion = '''',
     pk_contractKey = '''', pk_files = []\<rparr>"

lemma root_package_collides:
  "PackageStatePath plain_escaping (Some (demo_layout_package ''example.com/m'')) =
     Inr ''packages/example.com/m/_root/state.ts'' \<and>
   PackageStatePath plain_escaping (Some (demo_layout_package ''example.com/m/_root'')) =
     Inr ''packages/example.com/m/_root/state.ts''"
  by code_simp

end
