(* ===== verification/ImportPlacement.thy ===== *)
theory ImportPlacement
  imports Emission RootRequests
begin

text \<open>
  Import requests (\<open>internal/emit/api/root_request.go\<close>) and their placement at the head of a target file
  (\<open>internal/emit/placement/owner.go\<close>).

  \<open>RootRequests\<close> has the tree of requests; the fields of an import payload are here, and an argument
  \<open>payloads\<close> gives them for the address of a payload.  An import specifier is determined by the exported and the local
  name, a module specifier by the path.
\<close>

subsection \<open>Import requests\<close>

datatype ImportBindingKind =
  ImportBindingInvalid | ImportBindingNamed | ImportBindingNamespace | ImportBindingSideEffect

datatype import_owner = ImportOwner ImportBindingKind string string

record import_payload =
  im_binding :: ImportBindingKind
  im_modulePath :: string
  im_exportedName :: string
  im_phase :: ImportPhase
  im_localName :: string
  im_alias :: PrimitiveAlias
  im_symbol :: RuntimeSymbol

datatype import_error = ImportRequestError string | ContractError emit_error

definition NewImportRequest ::
    "ImportPhase \<Rightarrow> string \<Rightarrow> string \<Rightarrow> string \<Rightarrow> import_error + import_payload" where
  "NewImportRequest phase modulePath exportedName localName =
     (if phase \<noteq> ImportPhaseType \<and> phase \<noteq> ImportPhaseValue then Inl (ImportRequestError ''invalid import phase'')
      else if modulePath = '''' then Inl (ImportRequestError ''module path is empty'')
      else if exportedName = '''' then Inl (ImportRequestError ''exported name is empty'')
      else if localName = '''' then Inl (ImportRequestError ''local name is empty'')
      else Inr \<lparr>im_binding = ImportBindingNamed, im_modulePath = modulePath, im_exportedName = exportedName,
        im_phase = phase, im_localName = localName, im_alias = PrimitiveInvalid, im_symbol = RuntimeInvalid\<rparr>)"

definition NewNamespaceImportRequest :: "ImportPhase \<Rightarrow> string \<Rightarrow> string \<Rightarrow> import_error + import_payload" where
  "NewNamespaceImportRequest phase modulePath localName =
     (if phase \<noteq> ImportPhaseType \<and> phase \<noteq> ImportPhaseValue then Inl (ImportRequestError ''invalid import phase'')
      else if modulePath = '''' then Inl (ImportRequestError ''module path is empty'')
      else if localName = '''' then Inl (ImportRequestError ''local name is empty'')
      else Inr \<lparr>im_binding = ImportBindingNamespace, im_modulePath = modulePath, im_exportedName = '''',
        im_phase = phase, im_localName = localName, im_alias = PrimitiveInvalid, im_symbol = RuntimeInvalid\<rparr>)"

definition NewSideEffectImportRequest :: "string \<Rightarrow> import_error + import_payload" where
  "NewSideEffectImportRequest modulePath =
     (if modulePath = '''' then Inl (ImportRequestError ''module path is empty'')
      else Inr \<lparr>im_binding = ImportBindingSideEffect, im_modulePath = modulePath, im_exportedName = '''',
        im_phase = ImportPhaseValue, im_localName = '''', im_alias = PrimitiveInvalid, im_symbol = RuntimeInvalid\<rparr>)"

definition NewPrimitiveAliasRequest :: "string \<Rightarrow> PrimitiveAlias \<Rightarrow> string \<Rightarrow> import_error + import_payload" where
  "NewPrimitiveAliasRequest modulePath alias localName =
     (case PrimitiveAliasName alias of
        Inl e \<Rightarrow> Inl (ContractError e)
      | Inr exportedName \<Rightarrow>
          (case NewImportRequest ImportPhaseType modulePath exportedName localName of
             Inl e \<Rightarrow> Inl e
           | Inr request \<Rightarrow> Inr (request\<lparr>im_alias := alias\<rparr>)))"

definition NewRuntimeImportRequest ::
    "ImportPhase \<Rightarrow> string \<Rightarrow> RuntimeSymbol \<Rightarrow> string \<Rightarrow> import_error + import_payload" where
  "NewRuntimeImportRequest phase modulePath symbol localName =
     (case RuntimeContract symbol of
        Inl e \<Rightarrow> Inl (ContractError e)
      | Inr contract \<Rightarrow>
          if (phase = ImportPhaseValue \<and> contract_typeOnly contract) \<or>
             (phase \<noteq> ImportPhaseValue \<and> (phase \<noteq> ImportPhaseType \<or> \<not> contract_typeUsable contract))
          then Inl (ImportRequestError ''runtime symbol does not allow the requested import phase'')
          else (case NewImportRequest phase modulePath (contract_exportedName contract) localName of
             Inl e \<Rightarrow> Inl e
           | Inr request \<Rightarrow> Inr (request\<lparr>im_symbol := symbol\<rparr>)))"

definition import_RuntimeSymbol :: "import_payload \<Rightarrow> RuntimeSymbol option" where
  "import_RuntimeSymbol r = (if im_symbol r = RuntimeInvalid then None else Some (im_symbol r))"

definition import_PrimitiveAlias :: "import_payload \<Rightarrow> PrimitiveAlias option" where
  "import_PrimitiveAlias r = (if im_alias r = PrimitiveInvalid then None else Some (im_alias r))"

definition owner_of_import :: "import_payload \<Rightarrow> import_owner" where
  "owner_of_import r = ImportOwner (im_binding r) (im_modulePath r) (im_exportedName r)"

text \<open>What the constructors guarantee.\<close>

definition well_formed_import :: "import_payload \<Rightarrow> bool" where
  "well_formed_import r \<longleftrightarrow>
     (im_phase r = ImportPhaseType \<or> im_phase r = ImportPhaseValue) \<and>
     im_binding r \<noteq> ImportBindingInvalid \<and> (im_binding r \<noteq> ImportBindingNamed \<longrightarrow> im_exportedName r = '''')"

lemma constructors_well_formed:
  "NewImportRequest phase m e l = Inr r \<Longrightarrow> well_formed_import r"
  "NewNamespaceImportRequest phase m l = Inr r \<Longrightarrow> well_formed_import r"
  "NewSideEffectImportRequest m = Inr r \<Longrightarrow> well_formed_import r"
  "NewPrimitiveAliasRequest m alias l = Inr r \<Longrightarrow> well_formed_import r"
  "NewRuntimeImportRequest phase m symbol l = Inr r \<Longrightarrow> well_formed_import r"
  by (auto simp: NewImportRequest_def NewNamespaceImportRequest_def NewSideEffectImportRequest_def
      NewPrimitiveAliasRequest_def NewRuntimeImportRequest_def well_formed_import_def
      split: if_splits sum.splits)

subsection \<open>Placement\<close>

datatype placement_error = PlacementError string string string | PlacementRequestError root_request_error

type_synonym placements = "(import_owner, import_payload) gomap"

text \<open>
  The visitor of \<open>Apply\<close>.  The scope and the execution constraint of a request follow from its kind, and a
  request of another kind has no module and no exported name.
\<close>

definition placeImport :: "placements \<Rightarrow> import_payload \<Rightarrow> placement_error + placements" where
  "placeImport p r =
     (case gm_get p (owner_of_import r) of
        Some existing \<Rightarrow>
          if im_localName existing \<noteq> im_localName r
          then Inl (PlacementError (im_modulePath r) (im_exportedName r) ''one import owner requested multiple local names'')
          else if im_phase existing = ImportPhaseType \<and> im_phase r = ImportPhaseValue
          then Inr (gm_put (owner_of_import r) r p) else Inr p
      | None \<Rightarrow> Inr (gm_put (owner_of_import r) r p))"

definition placeRequest :: "(nat \<Rightarrow> import_payload) \<Rightarrow> placements \<Rightarrow> root_request \<Rightarrow> placement_error + placements" where
  "placeRequest payloads p request =
     (case request of
        PayloadRequest a ImportPayload \<Rightarrow> placeImport p (payloads a)
      | _ \<Rightarrow> Inl (PlacementError '''' '''' ''request is not a static file import''))"

text \<open>\<open>WalkUniqueRootRequestPayloads\<close> with this visitor: the walk stops at the first error.\<close>

function placeWalk :: "(nat \<Rightarrow> import_payload) \<Rightarrow> walk_state \<Rightarrow> placements \<Rightarrow> placement_error + placements" where
  "placeWalk payloads w p =
     (case walk_frames w of
        [] \<Rightarrow> Inr p
      | [] # frames \<Rightarrow> placeWalk payloads (w\<lparr>walk_frames := frames\<rparr>) p
      | (request # rest) # frames \<Rightarrow>
          (case request of
             SequenceRequest a kinds children \<Rightarrow>
               if length children = 0 then
                 Inl (PlacementRequestError (RootRequestError ''root request sequence is empty''))
               else if a \<in> set (walk_sequences w) then
                 placeWalk payloads (w\<lparr>walk_frames := rest # frames\<rparr>) p
               else placeWalk payloads (w\<lparr>walk_frames := children # rest # frames,
                   walk_sequences := gs_insert a (walk_sequences w)\<rparr>) p
           | NoRequest \<Rightarrow> Inl (PlacementRequestError (RootRequestError ''root request is invalid''))
           | PayloadRequest a payload \<Rightarrow>
               if request_Kind request = RootRequestInvalid then
                 Inl (PlacementRequestError (RootRequestError ''root request is invalid''))
               else if a \<in> set (walk_payloads w) then
                 placeWalk payloads (w\<lparr>walk_frames := rest # frames\<rparr>) p
               else
                 (case placeRequest payloads p request of
                    Inl e \<Rightarrow> Inl e
                  | Inr p \<Rightarrow> placeWalk payloads (w\<lparr>walk_frames := rest # frames,
                      walk_payloads := gs_insert a (walk_payloads w)\<rparr>) p)))"
  by pat_completeness auto
termination
  by (relation "measure (\<lambda>(_, w, _). sum_list (map (\<lambda>f. Suc (size_list size f)) (walk_frames w)))") auto

declare placeWalk.simps [simp del]

definition placement_Apply :: "(nat \<Rightarrow> import_payload) \<Rightarrow> root_request list \<Rightarrow> placements \<Rightarrow> placement_error + placements" where
  "placement_Apply payloads requests p =
     placeWalk payloads \<lparr>walk_frames = [requests], walk_sequences = [], walk_payloads = []\<rparr> p"

definition RuntimeSymbols :: "placements \<Rightarrow> RuntimeSymbol list" where
  "RuntimeSymbols p = sort_by ord_cmp (gs_of (List.map_filter (import_RuntimeSymbol \<circ> snd) p))"

definition alias_number :: "PrimitiveAlias \<Rightarrow> nat" where
  "alias_number alias = length (takeWhile (\<lambda>a. a \<noteq> alias)
     [PrimitiveInvalid, PrimitiveBool, PrimitiveInt8, PrimitiveInt16, PrimitiveInt32, PrimitiveInt64, PrimitiveUint8,
      PrimitiveUint16, PrimitiveUint32, PrimitiveUint64, PrimitiveString, PrimitiveFloat32, PrimitiveFloat64,
      PrimitiveInt, PrimitiveUint, PrimitiveUintptr])"

definition PrimitiveAliases :: "placements \<Rightarrow> PrimitiveAlias list" where
  "PrimitiveAliases p =
     sort_by (\<lambda>x y. ord_cmp (alias_number x) (alias_number y)) (gs_of (List.map_filter (import_PrimitiveAlias \<circ> snd) p))"

definition RequireTypeOnly :: "placements \<Rightarrow> placement_error option" where
  "RequireTypeOnly p =
     (case List.find (\<lambda>r. im_phase r \<noteq> ImportPhaseType) (map snd p) of
        None \<Rightarrow> None
      | Some r \<Rightarrow> Some (PlacementError (im_modulePath r) (im_exportedName r) ''package state requires type-only payloads''))"

subsection \<open>The import declarations\<close>

type_synonym import_specifier = "string option \<times> string"

datatype import_bindings = NamedImports "import_specifier list" | NamespaceImport string

text \<open>An import declaration: whether it payloads types only and what it binds, unless it payloads a module for its effects.\<close>

datatype import_declaration = ImportDeclaration "(bool \<times> import_bindings) option" string

definition import_Specifier :: "import_payload \<Rightarrow> import_specifier" where
  "import_Specifier r = (if im_localName r \<noteq> im_exportedName r then Some (im_exportedName r) else None, im_localName r)"

datatype import_group =
  ImportGroup (group_phase: ImportPhase) (group_binding: ImportBindingKind) (group_module: string)

definition group_of :: "import_payload \<Rightarrow> import_group" where
  "group_of r = ImportGroup (im_phase r) (im_binding r) (im_modulePath r)"

fun phase_number :: "ImportPhase \<Rightarrow> nat" where
  "phase_number ImportPhaseInvalid = 0" | "phase_number ImportPhaseType = 1" | "phase_number ImportPhaseValue = 2"

fun binding_number :: "ImportBindingKind \<Rightarrow> nat" where
  "binding_number ImportBindingInvalid = 0" | "binding_number ImportBindingNamed = 1"
| "binding_number ImportBindingNamespace = 2" | "binding_number ImportBindingSideEffect = 3"

fun compareGroups :: "import_group \<Rightarrow> import_group \<Rightarrow> int" where
  "compareGroups (ImportGroup phase binding module') (ImportGroup phase' binding' module'') =
     (if phase \<noteq> phase' then ord_cmp (phase_number phase) (phase_number phase')
      else if module' \<noteq> module'' then ord_cmp module' module''
      else if binding \<noteq> binding' then ord_cmp (binding_number binding) (binding_number binding')
      else 0)"

text \<open>The declaration of a group; a panic of the code is \<open>None\<close>.\<close>

definition groupStatement :: "placements \<Rightarrow> import_group \<Rightarrow> import_declaration option" where
  "groupStatement p g =
     (let requests = sort_by (\<lambda>x y. ord_cmp (im_localName x) (im_localName y)) (filter (\<lambda>r. group_of r = g) (map snd p));
          typeOnly = (group_phase g = ImportPhaseType)
      in case group_binding g of
           ImportBindingNamed \<Rightarrow>
             Some (ImportDeclaration (Some (typeOnly, NamedImports (map import_Specifier requests))) (group_module g))
         | ImportBindingNamespace \<Rightarrow>
             (case requests of
                [r] \<Rightarrow> Some (ImportDeclaration (Some (typeOnly, NamespaceImport (im_localName r))) (group_module g))
              | _ \<Rightarrow> None)
         | ImportBindingSideEffect \<Rightarrow> Some (ImportDeclaration None (group_module g))
         | ImportBindingInvalid \<Rightarrow> None)"

fun collect :: "'a option list \<Rightarrow> 'a list option" where
  "collect [] = Some []"
| "collect (None # xs) = None"
| "collect (Some x # xs) = map_option ((#) x) (collect xs)"

definition Statements :: "placements \<Rightarrow> import_declaration list option" where
  "Statements p = collect (map (groupStatement p) (sort_by compareGroups (gs_of (map (group_of \<circ> snd) p))))"

subsection \<open>The walk and the table\<close>

fun placeAll :: "(nat \<Rightarrow> import_payload) \<Rightarrow> placements \<Rightarrow> root_request list \<Rightarrow> placement_error + placements" where
  "placeAll payloads p [] = Inr p"
| "placeAll payloads p (r # rs) =
     (case placeRequest payloads p r of Inl e \<Rightarrow> Inl e | Inr p \<Rightarrow> placeAll payloads p rs)"

lemma placeWalk_all:
  "walkRequests u w = Inr out \<Longrightarrow> u \<Longrightarrow> placeWalk payloads w p = placeAll payloads p out"
proof (induction u w arbitrary: out p rule: walkRequests.induct)
  case (1 u w)
  show ?case
  proof (cases "walk_frames w")
    case Nil
    with "1.prems" show ?thesis by (simp add: walkRequests.simps [of True w] placeWalk.simps [of payloads w])
  next
    case (Cons f frames)
    show ?thesis
    proof (cases f)
      case Nil
      then show ?thesis
        using Cons "1.prems" "1.IH"(1) [OF Cons Nil]
        by (simp add: walkRequests.simps [of True w] placeWalk.simps [of payloads w])
    next
      case (Cons request rest)
      note fr = \<open>walk_frames w = f # frames\<close> Cons
      show ?thesis
      proof (cases request)
        case NoRequest
        then show ?thesis using fr "1.prems" by (simp add: walkRequests.simps [of True w])
      next
        case (SequenceRequest a kinds children)
        then show ?thesis
          using fr "1.prems" "1.IH"(4,5) [OF fr(1) fr(2) SequenceRequest]
          by (auto simp: walkRequests.simps [of True w] placeWalk.simps [of payloads w] split: if_splits)
      next
        case (PayloadRequest a payload)
        show ?thesis
        proof (cases "request_Kind request = RootRequestInvalid \<or> a \<in> set (walk_payloads w)")
          case True
          then show ?thesis
            using fr PayloadRequest "1.prems" "1.IH"(2) [OF fr(1) fr(2) PayloadRequest]
            by (auto simp: walkRequests.simps [of True w] placeWalk.simps [of payloads w] split: if_splits)
        next
          case False
          then obtain visited where v: "walkRequests u (w\<lparr>walk_frames := rest # frames,
              walk_payloads := gs_insert a (walk_payloads w)\<rparr>) = Inr visited" and out: "out = request # visited"
            using fr PayloadRequest "1.prems" by (auto simp: walkRequests.simps [of True w] split: sum.splits)
          have ih: "placeWalk payloads (w\<lparr>walk_frames := rest # frames, walk_payloads := gs_insert a (walk_payloads w)\<rparr>) q =
              placeAll payloads q visited" for q
            using "1.IH"(3) [OF fr(1) fr(2) PayloadRequest] False "1.prems"(2) v by simp
          show ?thesis
            using fr PayloadRequest False ih
            by (simp add: placeWalk.simps [of payloads w] out split: sum.splits)
        qed
      qed
    qed
  qed
qed

definition wants_value :: "import_payload set \<Rightarrow> import_owner \<Rightarrow> bool" where
  "wants_value R k \<longleftrightarrow> (\<exists>s \<in> R. owner_of_import s = k \<and> im_phase s = ImportPhaseValue)"

definition has_owner :: "import_payload set \<Rightarrow> import_owner \<Rightarrow> bool" where
  "has_owner R k \<longleftrightarrow> (\<exists>s \<in> R. owner_of_import s = k)"

definition only_local :: "import_payload set \<Rightarrow> import_owner \<Rightarrow> string \<Rightarrow> bool" where
  "only_local R k l \<longleftrightarrow> (\<forall>s \<in> R. owner_of_import s = k \<longrightarrow> im_localName s = l)"

lemma request_set_simps [simp]:
  "\<not> wants_value {} k" "\<not> has_owner {} k" "only_local {} k l"
  "wants_value (insert r R) k \<longleftrightarrow> (owner_of_import r = k \<and> im_phase r = ImportPhaseValue) \<or> wants_value R k"
  "has_owner (insert r R) k \<longleftrightarrow> owner_of_import r = k \<or> has_owner R k"
  "only_local (insert r R) k l \<longleftrightarrow> (owner_of_import r = k \<longrightarrow> im_localName r = l) \<and> only_local R k l"
  by (auto simp: wants_value_def has_owner_def only_local_def)

lemma no_owner_of: "\<not> has_owner R k \<Longrightarrow> \<not> wants_value R k \<and> only_local R k l"
  by (auto simp: wants_value_def has_owner_def only_local_def)

text \<open>What a table says of the requests \<open>R\<close> that it has taken.\<close>

definition entry_ok :: "import_payload set \<Rightarrow> import_owner \<Rightarrow> import_payload option \<Rightarrow> bool" where
  "entry_ok R k entry = (case entry of
     None \<Rightarrow> \<not> has_owner R k
   | Some r \<Rightarrow> r \<in> R \<and> owner_of_import r = k \<and> (im_phase r = ImportPhaseValue \<longleftrightarrow> wants_value R k) \<and>
       only_local R k (im_localName r))"

definition table_of :: "placements \<Rightarrow> import_payload set \<Rightarrow> bool" where
  "table_of p R \<longleftrightarrow> gm_wf p \<and> (\<forall>k. entry_ok R k (gm_get p k))"

lemma table_ofD: "table_of p R \<Longrightarrow> entry_ok R k (gm_get p k)"
  by (simp add: table_of_def)

lemma entry_ok_other: "owner_of_import r \<noteq> k \<Longrightarrow> entry_ok R k e \<Longrightarrow> entry_ok (insert r R) k e"
  by (cases e) (simp_all add: entry_ok_def)

lemma entry_ok_new:
  "entry_ok R (owner_of_import r) None \<Longrightarrow> entry_ok (insert r R) (owner_of_import r) (Some r)"
  using no_owner_of by (simp add: entry_ok_def)

lemma entry_ok_value:
  "entry_ok R (owner_of_import r) (Some x) \<Longrightarrow> im_localName x = im_localName r \<Longrightarrow> im_phase r = ImportPhaseValue \<Longrightarrow>
     entry_ok (insert r R) (owner_of_import r) (Some r)"
  by (simp add: entry_ok_def)

lemma entry_ok_keep:
  "entry_ok R (owner_of_import r) (Some x) \<Longrightarrow> im_localName x = im_localName r \<Longrightarrow>
     (im_phase r = ImportPhaseValue \<Longrightarrow> im_phase x = ImportPhaseValue) \<Longrightarrow>
     entry_ok (insert r R) (owner_of_import r) (Some x)"
  by (auto simp: entry_ok_def)

lemma placeImport_table:
  assumes t: "table_of p R" and wf: "\<forall>s \<in> R. well_formed_import s"
    and e: "placeImport p r = Inr p'"
  shows "table_of p' (insert r R)"
proof -
  define k where "k = owner_of_import r"
  have entry: "entry_ok R k (gm_get p k)" by (rule table_ofD [OF t])
  have "(p' = gm_put k r p \<and> entry_ok (insert r R) k (Some r)) \<or> (p' = p \<and> entry_ok (insert r R) k (gm_get p k))"
  proof (cases "gm_get p k")
    case None
    then show ?thesis using e entry entry_ok_new by (simp add: placeImport_def k_def)
  next
    case (Some x)
    then have l: "im_localName x = im_localName r" using e by (auto simp: placeImport_def k_def split: if_splits)
    have x: "x \<in> R" using entry Some by (simp add: entry_ok_def)
    then have ph: "im_phase x = ImportPhaseType \<or> im_phase x = ImportPhaseValue"
      using wf by (auto simp: well_formed_import_def)
    show ?thesis
    proof (cases "im_phase x = ImportPhaseType \<and> im_phase r = ImportPhaseValue")
      case True
      then have "p' = gm_put k r p" using e Some l by (simp add: placeImport_def k_def)
      then show ?thesis using True entry_ok_value [of R r x] entry Some l by (simp add: k_def)
    next
      case False
      then have "p' = p" using e Some l by (simp add: placeImport_def k_def split: if_splits)
      moreover have "entry_ok (insert r R) k (Some x)"
        unfolding k_def by (rule entry_ok_keep) (use entry Some l False ph in \<open>auto simp: k_def\<close>)
      ultimately show ?thesis using Some by simp
    qed
  qed
  moreover have "entry_ok (insert r R) j (gm_get p j)" if "j \<noteq> k" for j
    using that table_ofD [OF t, of j] by (intro entry_ok_other) (auto simp: k_def)
  then have "entry_ok (insert r R) j (gm_get p' j)" for j
    using calculation by (cases "j = k") auto
  moreover have "gm_wf p'" using calculation(1) t by (auto simp: table_of_def)
  ultimately show ?thesis by (simp add: table_of_def)
qed

text \<open>Whether the requests agree on their local names decides whether the placement succeeds.\<close>

definition agreeing :: "import_payload set \<Rightarrow> bool" where
  "agreeing R \<longleftrightarrow> (\<forall>r \<in> R. only_local R (owner_of_import r) (im_localName r))"

definition is_import :: "root_request \<Rightarrow> bool" where
  "is_import request \<longleftrightarrow> (case request of PayloadRequest a ImportPayload \<Rightarrow> True | _ \<Rightarrow> False)"

definition payload_of :: "(nat \<Rightarrow> import_payload) \<Rightarrow> root_request \<Rightarrow> import_payload" where
  "payload_of payloads request = (case request of PayloadRequest a _ \<Rightarrow> payloads a | _ \<Rightarrow> payloads 0)"

lemma placeRequest_import: "is_import r \<Longrightarrow> placeRequest payloads p r = placeImport p (payload_of payloads r)"
  by (auto simp: is_import_def placeRequest_def payload_of_def split: root_request.splits request_payload.splits)

lemma placeRequest_other: "\<not> is_import r \<Longrightarrow> \<exists>e. placeRequest payloads p r = Inl e"
  by (auto simp: is_import_def placeRequest_def split: root_request.splits request_payload.splits)

lemma payload_well_formed: "(\<And>a. well_formed_import (payloads a)) \<Longrightarrow> well_formed_import (payload_of payloads r)"
  by (simp add: payload_of_def split: root_request.splits)

lemma placeAll_table:
  assumes "\<And>a. well_formed_import (payloads a)"
  shows "table_of p R \<Longrightarrow> \<forall>s \<in> R. well_formed_import s \<Longrightarrow> placeAll payloads p rs = Inr p' \<Longrightarrow>
     list_all is_import rs \<and> table_of p' (R \<union> payload_of payloads ` set rs)"
proof (induction rs arbitrary: p R)
  case (Cons r rs)
  have i: "is_import r" using Cons.prems(3) placeRequest_other [of r payloads p] by (cases "is_import r") auto
  obtain q where q: "placeImport p (payload_of payloads r) = Inr q" "placeAll payloads q rs = Inr p'"
    using Cons.prems(3) placeRequest_import [OF i, of payloads p] by (auto split: sum.splits)
  have "table_of q (insert (payload_of payloads r) R)" using placeImport_table [OF Cons.prems(1,2) q(1)] .
  moreover have "\<forall>s \<in> insert (payload_of payloads r) R. well_formed_import s"
    using Cons.prems(2) payload_well_formed [of payloads r, OF assms] by simp
  ultimately show ?case using Cons.IH [OF _ _ q(2), of "insert (payload_of payloads r) R"] i by simp
qed simp

lemma placeAll_succeeds:
  assumes "\<And>a. well_formed_import (payloads a)"
  shows "table_of p R \<Longrightarrow> \<forall>s \<in> R. well_formed_import s \<Longrightarrow> list_all is_import rs \<Longrightarrow>
     agreeing (R \<union> payload_of payloads ` set rs) \<Longrightarrow> \<exists>p'. placeAll payloads p rs = Inr p'"
proof (induction rs arbitrary: p R)
  case (Cons r rs)
  let ?x = "payload_of payloads r"
  have "im_localName y = im_localName ?x" if "gm_get p (owner_of_import ?x) = Some y" for y
  proof -
    have "y \<in> R" "owner_of_import y = owner_of_import ?x"
      using table_ofD [OF Cons.prems(1), of "owner_of_import ?x"] that by (simp_all add: entry_ok_def)
    then have "only_local (R \<union> payload_of payloads ` set (r # rs)) (owner_of_import y) (im_localName y)"
      using Cons.prems(4) unfolding agreeing_def by blast
    then show ?thesis unfolding only_local_def using \<open>owner_of_import y = owner_of_import ?x\<close> by simp
  qed
  then have "\<exists>q. placeImport p ?x = Inr q" by (simp add: placeImport_def split: option.split)
  then obtain q where q: "placeImport p ?x = Inr q" ..
  have "table_of q (insert ?x R)" using placeImport_table [OF Cons.prems(1,2) q] .
  moreover have "\<forall>s \<in> insert ?x R. well_formed_import s"
    using Cons.prems(2) payload_well_formed [of payloads r, OF assms] by simp
  moreover have "list_all is_import rs" using Cons.prems(3) by simp
  moreover have "agreeing (insert ?x R \<union> payload_of payloads ` set rs)" using Cons.prems(4) by simp
  ultimately have "\<exists>p'. placeAll payloads q rs = Inr p'" by (rule Cons.IH)
  then show ?case using q Cons.prems(3) by (simp add: placeRequest_import)
qed simp

lemma table_agreeing: "table_of p R \<Longrightarrow> agreeing R"
proof -
  assume t: "table_of p R"
  have "only_local R (owner_of_import r) (im_localName r)" if "r \<in> R" for r
  proof -
    have e: "entry_ok R (owner_of_import r) (gm_get p (owner_of_import r))" by (rule table_ofD [OF t])
    have "has_owner R (owner_of_import r)" using that by (auto simp: has_owner_def)
    then obtain x where "gm_get p (owner_of_import r) = Some x"
      using e by (cases "gm_get p (owner_of_import r)") (simp_all add: entry_ok_def)
    then have "only_local R (owner_of_import r) (im_localName x)" using e by (simp add: entry_ok_def)
    then show ?thesis using that by (simp add: only_local_def)
  qed
  then show ?thesis by (simp add: agreeing_def)
qed

lemma table_of_Nil: "table_of [] {}"
  by (simp add: table_of_def entry_ok_def)

text \<open>The table that a list of requests leads to, however its requests are shared and ordered.\<close>

lemma Apply_table:
  assumes wf: "\<And>a. well_formed_import (payloads a)"
    and rs: "list_all request_ok rs" "list_all (coherent h) rs"
  shows "placement_Apply payloads rs [] = Inr p \<Longrightarrow> table_of p (payload_of payloads ` set (concat (map leaves rs))) \<and>
      (\<forall>r \<in> set (concat (map leaves rs)). is_import r)"
    "(\<forall>r \<in> set (concat (map leaves rs)). is_import r) \<Longrightarrow>
       agreeing (payload_of payloads ` set (concat (map leaves rs))) \<Longrightarrow> \<exists>p. placement_Apply payloads rs [] = Inr p"
proof -
  obtain out where out: "WalkUniqueRootRequestPayloads rs = Inr out" "set out = set (concat (map leaves rs))"
    using WalkUnique_leaves [OF rs] by blast
  have a: "placement_Apply payloads rs [] = placeAll payloads [] out"
    using out(1) placeWalk_all by (simp add: placement_Apply_def WalkUniqueRootRequestPayloads_def)
  show "placement_Apply payloads rs [] = Inr p \<Longrightarrow> table_of p (payload_of payloads ` set (concat (map leaves rs))) \<and>
      (\<forall>r \<in> set (concat (map leaves rs)). is_import r)"
    unfolding a out(2) [symmetric]
    using placeAll_table [where payloads = payloads and R = "{}" and rs = out and p' = p, OF wf table_of_Nil]
    by (simp add: list_all_iff)
  show "(\<forall>r \<in> set (concat (map leaves rs)). is_import r) \<Longrightarrow>
       agreeing (payload_of payloads ` set (concat (map leaves rs))) \<Longrightarrow> \<exists>p. placement_Apply payloads rs [] = Inr p"
    unfolding a out(2) [symmetric]
    using placeAll_succeeds [where payloads = payloads and R = "{}" and rs = out, OF wf table_of_Nil]
    by (simp add: list_all_iff)
qed

subsection \<open>The declarations depend on the table only\<close>

lemma compareGroups_lex:
  "compareGroups g h = cmp_then (ord_cmp (phase_number (group_phase g)) (phase_number (group_phase h)))
     (cmp_then (ord_cmp (group_module g) (group_module h))
       (ord_cmp (binding_number (group_binding g)) (binding_number (group_binding h))))"
proof -
  have phase: "phase_number a = phase_number b \<longleftrightarrow> a = b" for a b by (cases a; cases b) auto
  have binding: "binding_number a = binding_number b \<longleftrightarrow> a = b" for a b by (cases a; cases b) auto
  show ?thesis by (cases g; cases h) (auto simp: cmp_then_def phase binding)
qed

interpretation import_groups: compare_linear compareGroups
proof (intro compare_linear.intro compare_linear_axioms.intro)
  show "compare_preorder compareGroups"
    unfolding compareGroups_lex
    by (intro compare_preorder_lex compare_preorder_ord_key)
  fix g h :: import_group
  have phase: "phase_number a = phase_number b \<longleftrightarrow> a = b" for a b by (cases a; cases b) auto
  have binding: "binding_number a = binding_number b \<longleftrightarrow> a = b" for a b by (cases a; cases b) auto
  assume "compareGroups g h = 0"
  then show "g = h" by (cases g; cases h) (auto simp: phase binding split: if_splits)
qed

text \<open>The part of a payload that the declarations show.\<close>

definition core :: "import_payload \<Rightarrow> import_payload" where
  "core r = r\<lparr>im_alias := PrimitiveInvalid, im_symbol := RuntimeInvalid\<rparr>"

lemma core_simps [simp]:
  "im_localName (core r) = im_localName r" "group_of (core r) = group_of r" "owner_of_import (core r) = owner_of_import r"
  "import_Specifier (core r) = import_Specifier r" "im_binding (core r) = im_binding r" "im_phase (core r) = im_phase r"
  by (simp_all add: core_def group_of_def owner_of_import_def import_Specifier_def)

lemma core_eq: "core r = core s \<longleftrightarrow> owner_of_import r = owner_of_import s \<and> im_phase r = im_phase s \<and> im_localName r = im_localName s"
  by (cases r; cases s) (auto simp: core_def owner_of_import_def)

definition table_cores :: "placements \<Rightarrow> import_payload list" where
  "table_cores p = map (core \<circ> snd) p"

lemma sort_by_map: "(\<And>x y. cmp (f x) (f y) = cmp x y) \<Longrightarrow> sort_by cmp (map f xs) = map f (sort_by cmp xs)"
proof -
  assume c: "\<And>x y. cmp (f x) (f y) = cmp x y"
  have "insert_by cmp (f x) (map f ys) = map f (insert_by cmp x ys)" for x ys
    by (induction ys) (auto simp: c)
  then show ?thesis by (induction xs) auto
qed

definition core_requests :: "import_payload list \<Rightarrow> import_group \<Rightarrow> import_payload list" where
  "core_requests L g = sort_by (\<lambda>x y. ord_cmp (im_localName x) (im_localName y)) (filter (\<lambda>r. group_of r = g) L)"

lemma core_requests_table:
  "core_requests (table_cores p) g =
     map core (sort_by (\<lambda>x y. ord_cmp (im_localName x) (im_localName y)) (filter (\<lambda>r. group_of r = g) (map snd p)))"
proof -
  have "filter (\<lambda>r. group_of r = g) (table_cores p) = map core (filter (\<lambda>r. group_of r = g) (map snd p))"
    by (induction p) (auto simp: table_cores_def)
  then show ?thesis by (simp add: core_requests_def sort_by_map)
qed

definition core_statement :: "import_payload list \<Rightarrow> import_group \<Rightarrow> import_declaration option" where
  "core_statement requests g =
     (case group_binding g of
        ImportBindingNamed \<Rightarrow> Some (ImportDeclaration
          (Some (group_phase g = ImportPhaseType, NamedImports (map import_Specifier requests))) (group_module g))
      | ImportBindingNamespace \<Rightarrow>
          (case requests of
             [r] \<Rightarrow> Some (ImportDeclaration (Some (group_phase g = ImportPhaseType, NamespaceImport (im_localName r))) (group_module g))
           | _ \<Rightarrow> None)
      | ImportBindingSideEffect \<Rightarrow> Some (ImportDeclaration None (group_module g))
      | ImportBindingInvalid \<Rightarrow> None)"

lemma groupStatement_core: "groupStatement p g = core_statement (core_requests (table_cores p) g) g"
  unfolding core_requests_table groupStatement_def core_statement_def Let_def
  by (simp add: o_def split: ImportBindingKind.split list.split)

definition table_groups :: "placements \<Rightarrow> import_group list" where
  "table_groups p = sort_by compareGroups (gs_of (map (group_of \<circ> snd) p))"

lemma table_groups_unique:
  assumes "set (table_cores p) = set (table_cores q)"
  shows "table_groups p = table_groups q"
proof (rule import_groups.sorted_enum_unique)
  have "set (table_groups p) = group_of ` set (table_cores p)" for p
    by (simp add: table_groups_def table_cores_def image_image o_def)
  with assms show "set (table_groups p) = set (table_groups q)" by simp
qed (simp_all add: table_groups_def import_groups.sorted_sort_by)

definition named_locals_distinct :: "placements \<Rightarrow> bool" where
  "named_locals_distinct p \<longleftrightarrow>
     distinct (map im_localName (filter (\<lambda>r. im_binding r = ImportBindingNamed) (map snd p)))"

lemma table_cores_mem: "x \<in> set (table_cores p) \<Longrightarrow> \<exists>r \<in> set (map snd p). x = core r"
  by (auto simp: table_cores_def)

lemma sorted_by_local_unique:
  assumes "set xs = set ys" "distinct xs" "distinct ys" "inj_on im_localName (set xs)"
  shows "sort_by (\<lambda>x y. ord_cmp (im_localName x) (im_localName y)) xs = sort_by (\<lambda>x y. ord_cmp (im_localName x) (im_localName y)) ys"
    (is "sort_by ?c xs = sort_by ?c ys")
proof -
  have sorted: "sorted (map im_localName (sort_by ?c zs))" for zs
  proof -
    have "compare_preorder ?c" by (rule compare_preorder_ord_key)
    then have "sorted_wrt (\<lambda>x y. ?c x y \<le> 0) (sort_by ?c zs)" by (rule compare_preorder.sorted_sort_by)
    then show ?thesis by (simp add: sorted_wrt_map)
  qed
  have "map im_localName (sort_by ?c xs) = map im_localName (sort_by ?c ys)"
    using assms sorted by (intro sorted_distinct_set_unique) (auto simp: distinct_map)
  then show ?thesis using assms by (intro map_inj_on [of im_localName]) auto
qed

lemma tables_same_cores:
  assumes "table_of p R" "table_of q R" "\<forall>r \<in> R. well_formed_import r"
  shows "set (table_cores p) \<subseteq> set (table_cores q)"
proof
  fix c
  assume "c \<in> set (table_cores p)"
  then obtain k r where kr: "(k, r) \<in> set p" "c = core r" by (auto simp: table_cores_def)
  then have g: "gm_get p k = Some r" using assms(1) by (simp add: table_of_def map_of_is_SomeI)
  have r: "r \<in> R" "owner_of_import r = k" "im_phase r = ImportPhaseValue \<longleftrightarrow> wants_value R k"
    using table_ofD [OF assms(1), of k] g by (simp_all add: entry_ok_def)
  then have "has_owner R k" by (auto simp: has_owner_def)
  then obtain s where s: "gm_get q k = Some s"
    using table_ofD [OF assms(2), of k] by (cases "gm_get q k") (simp_all add: entry_ok_def)
  have s': "s \<in> R" "owner_of_import s = k" "im_phase s = ImportPhaseValue \<longleftrightarrow> wants_value R k" "only_local R k (im_localName s)"
    using table_ofD [OF assms(2), of k] s by (simp_all add: entry_ok_def)
  have "(im_phase r = ImportPhaseType \<or> im_phase r = ImportPhaseValue) \<and> (im_phase s = ImportPhaseType \<or> im_phase s = ImportPhaseValue)"
    using r(1) s'(1) assms(3) by (simp add: well_formed_import_def)
  then have "im_phase r = im_phase s" using r(3) s'(3) by (elim conjE disjE) simp_all
  moreover have "im_localName r = im_localName s" using s'(4) r(1,2) by (simp add: only_local_def)
  ultimately have "core r = core s" using r(2) s'(2) by (simp add: core_eq)
  moreover have "(k, s) \<in> set q" using s by (rule map_of_SomeD)
  ultimately show "c \<in> set (table_cores q)" unfolding kr(2) table_cores_def by force
qed

lemma table_cores_distinct:
  "table_of p R \<Longrightarrow> distinct (table_cores p) \<and> inj_on owner_of_import (set (table_cores p))"
proof -
  assume t: "table_of p R"
  have "owner_of_import r = k" if "(k, r) \<in> set p" for k r
    using table_ofD [OF t, of k] that t by (simp add: table_of_def entry_ok_def map_of_is_SomeI)
  then have "map (owner_of_import \<circ> snd) p = map fst p" by auto
  moreover have "map owner_of_import (table_cores p) = map (owner_of_import \<circ> snd) p" by (simp add: table_cores_def o_def)
  moreover have "gm_wf p" using t by (simp add: table_of_def)
  ultimately have "distinct (map owner_of_import (table_cores p))" by (simp only:)
  then show ?thesis by (simp add: distinct_map)
qed

lemma collect_all: "(\<forall>x \<in> set xs. f x \<noteq> None) \<Longrightarrow> collect (map f xs) \<noteq> None"
  by (induction xs) auto

lemma Statements_unique:
  assumes "table_of p R" "table_of q R" "\<forall>r \<in> R. well_formed_import r" "named_locals_distinct p"
  shows "Statements q = Statements p \<and> Statements p \<noteq> None"
proof -
  have cores: "set (table_cores p) = set (table_cores q)"
    using tables_same_cores [OF assms(1,2,3)] tables_same_cores [OF assms(2,1,3)] by blast
  have groups: "table_groups q = table_groups p" using table_groups_unique cores by blast
  have core_wf: "well_formed_import c" if "c \<in> set (table_cores p)" for c
  proof -
    from that obtain k r where "(k, r) \<in> set p" "c = core r" by (auto simp: table_cores_def)
    then have "r \<in> R" using assms(1) table_ofD [OF assms(1), of k] by (simp add: table_of_def entry_ok_def map_of_is_SomeI)
    then show ?thesis using assms(3) \<open>c = core r\<close> by (auto simp: well_formed_import_def core_def)
  qed
  have same: "groupStatement q g = groupStatement p g \<and> groupStatement p g \<noteq> None" if g: "g \<in> set (table_groups p)" for g
  proof -
    let ?f = "filter (\<lambda>r. group_of r = g)"
    have dist: "distinct (?f (table_cores p))" "distinct (?f (table_cores q))"
      using table_cores_distinct [OF assms(1)] table_cores_distinct [OF assms(2)] by simp_all
    have sets: "set (?f (table_cores p)) = set (?f (table_cores q))" using cores by simp
    have ne: "?f (table_cores p) \<noteq> []" using g by (auto simp: table_groups_def table_cores_def filter_empty_conv)
    show ?thesis
    proof (cases "group_binding g")
      case ImportBindingNamed
      have "inj_on im_localName (set (?f (table_cores p)))"
      proof (rule inj_onI)
        fix x y
        assume x: "x \<in> set (?f (table_cores p))" and y: "y \<in> set (?f (table_cores p))" and l: "im_localName x = im_localName y"
        have "im_binding x = ImportBindingNamed" "im_binding y = ImportBindingNamed"
          using x y ImportBindingNamed by (auto simp: group_of_def)
        then obtain r s where r: "r \<in> set (map snd p)" "x = core r" "im_binding r = ImportBindingNamed"
          and s: "s \<in> set (map snd p)" "y = core s" "im_binding s = ImportBindingNamed"
          using table_cores_mem [of x p] table_cores_mem [of y p] x y by force
        have "inj_on im_localName (set (filter (\<lambda>r. im_binding r = ImportBindingNamed) (map snd p)))"
          using assms(4) by (simp add: named_locals_distinct_def distinct_map)
        then have "r = s" using r s l by (auto dest: inj_onD)
        then show "x = y" using r s by simp
      qed
      then have "core_requests (table_cores q) g = core_requests (table_cores p) g"
        unfolding core_requests_def using sorted_by_local_unique [OF sets dist] by simp
      then show ?thesis using ImportBindingNamed by (simp add: groupStatement_core core_statement_def)
    next
      case ImportBindingNamespace
      have one: "?f (table_cores p') = [x]" if "x \<in> set (?f (table_cores p))" "p' = p \<or> p' = q" for x p'
      proof -
        have "y = x" if y: "y \<in> set (?f (table_cores p))" for y
        proof -
          have "im_exportedName y = '''' \<and> im_exportedName x = ''''"
            using core_wf y \<open>x \<in> set (?f (table_cores p))\<close> ImportBindingNamespace
            by (auto simp: well_formed_import_def group_of_def)
          then have "owner_of_import y = owner_of_import x"
            using y \<open>x \<in> set (?f (table_cores p))\<close> by (auto simp: owner_of_import_def group_of_def)
          moreover have "inj_on owner_of_import (set (table_cores p))"
            using table_cores_distinct [OF assms(1)] by simp
          ultimately show "y = x" using y \<open>x \<in> set (?f (table_cores p))\<close> by (auto dest: inj_onD)
        qed
        then have "set (?f (table_cores p')) = {x}" using sets \<open>x \<in> set (?f (table_cores p))\<close> \<open>p' = p \<or> p' = q\<close> by blast
        then show ?thesis using dist \<open>p' = p \<or> p' = q\<close>
          by (cases "?f (table_cores p')"; cases "tl (?f (table_cores p'))") auto
      qed
      obtain x where x: "x \<in> set (?f (table_cores p))" using ne by (cases "?f (table_cores p)") auto
      show ?thesis
        using ImportBindingNamespace one [OF x] by (simp add: groupStatement_core core_statement_def core_requests_def)
    next
      case ImportBindingSideEffect
      then show ?thesis by (simp add: groupStatement_core core_statement_def)
    next
      case ImportBindingInvalid
      obtain c where "c \<in> set (table_cores p)" "group_of c = g" using ne by (auto simp: filter_empty_conv)
      then show ?thesis using core_wf [of c] ImportBindingInvalid by (auto simp: well_formed_import_def group_of_def)
    qed
  qed
  have map: "map (groupStatement q) (table_groups p) = map (groupStatement p) (table_groups p)" using same by simp
  have stm: "Statements p = collect (map (groupStatement p) (table_groups p))" for p
    by (simp only: Statements_def table_groups_def)
  have "collect (map (groupStatement p) (table_groups p)) \<noteq> None" using same by (intro collect_all) blast
  then show ?thesis unfolding stm groups map by simp
qed

text \<open>C38: The import declarations of a file depend on what is requested only. If a list of import requests can be placed, then every list with the same payloads - shared, nested, repeated or ordered in another way - can be placed, and where the local names of named imports differ both give the same declarations, without a panic. Every requested name is imported, under the one local name that its requests agree on, and for its value exactly if one of the requests asks for the value.\<close>

theorem placement_ignores_order:
  assumes "\<And>a. well_formed_import (payloads a)"
    and "list_all request_ok rs" "list_all (coherent h) rs"
    and "list_all request_ok rs'" "list_all (coherent h') rs'"
    and "set (concat (map leaves rs')) = set (concat (map leaves rs))"
    and "placement_Apply payloads rs [] = Inr p" "named_locals_distinct p"
  shows "\<exists>q. placement_Apply payloads rs' [] = Inr q \<and> Statements q = Statements p \<and> Statements p \<noteq> None \<and>
     (\<forall>a. PayloadRequest a ImportPayload \<in> set (concat (map leaves rs)) \<longrightarrow>
        (\<exists>r. gm_get p (owner_of_import (payloads a)) = Some r \<and> im_localName r = im_localName (payloads a) \<and>
           (im_phase r = ImportPhaseValue \<longleftrightarrow>
              (\<exists>b. PayloadRequest b ImportPayload \<in> set (concat (map leaves rs)) \<and>
                 owner_of_import (payloads b) = owner_of_import (payloads a) \<and>
                 im_phase (payloads b) = ImportPhaseValue))))"
proof -
  let ?L = "set (concat (map leaves rs))"
  let ?R = "payload_of payloads ` ?L"
  have p: "table_of p ?R" "\<forall>r \<in> ?L. is_import r"
    using Apply_table(1) [where payloads = payloads, OF assms(1-3,7)] by (rule conjunct1, rule conjunct2)
  obtain q where q: "placement_Apply payloads rs' [] = Inr q"
    using Apply_table(2) [where payloads = payloads, OF assms(1,4,5)] p(2) table_agreeing [OF p(1)] unfolding assms(6) by blast
  have tq: "table_of q ?R"
    using Apply_table(1) [where payloads = payloads, OF assms(1,4,5) q] unfolding assms(6) by (rule conjunct1)
  have wf: "\<forall>r \<in> ?R. well_formed_import r" using payload_well_formed assms(1) by blast
  have mem: "payloads a \<in> ?R" if "PayloadRequest a ImportPayload \<in> ?L" for a
    using imageI [OF that, of "payload_of payloads"] by (simp add: payload_of_def)
  have wants: "wants_value ?R k \<longleftrightarrow> (\<exists>b. PayloadRequest b ImportPayload \<in> ?L \<and> owner_of_import (payloads b) = k \<and>
      im_phase (payloads b) = ImportPhaseValue)" for k
  proof
    assume "wants_value ?R k"
    then obtain r where r: "r \<in> ?L" "owner_of_import (payload_of payloads r) = k" "im_phase (payload_of payloads r) = ImportPhaseValue"
      unfolding wants_value_def by blast
    then have "is_import r" using p(2) by blast
    then obtain b where "r = PayloadRequest b ImportPayload" by (auto simp: is_import_def split: root_request.splits request_payload.splits)
    then show "\<exists>b. PayloadRequest b ImportPayload \<in> ?L \<and> owner_of_import (payloads b) = k \<and> im_phase (payloads b) = ImportPhaseValue"
      using r by (intro exI [of _ b]) (simp add: payload_of_def)
  next
    assume "\<exists>b. PayloadRequest b ImportPayload \<in> ?L \<and> owner_of_import (payloads b) = k \<and> im_phase (payloads b) = ImportPhaseValue"
    then show "wants_value ?R k" unfolding wants_value_def using mem by blast
  qed
  have entries: "\<exists>r. gm_get p (owner_of_import (payloads a)) = Some r \<and> im_localName r = im_localName (payloads a) \<and>
      (im_phase r = ImportPhaseValue \<longleftrightarrow> wants_value ?R (owner_of_import (payloads a)))"
    if a: "PayloadRequest a ImportPayload \<in> ?L" for a
  proof -
    have e: "entry_ok ?R (owner_of_import (payloads a)) (gm_get p (owner_of_import (payloads a)))" by (rule table_ofD [OF p(1)])
    have "has_owner ?R (owner_of_import (payloads a))" unfolding has_owner_def using mem [OF a] by blast
    then obtain r where r: "gm_get p (owner_of_import (payloads a)) = Some r"
      using e by (cases "gm_get p (owner_of_import (payloads a))") (simp_all add: entry_ok_def)
    then have "im_phase r = ImportPhaseValue \<longleftrightarrow> wants_value ?R (owner_of_import (payloads a))"
      "only_local ?R (owner_of_import (payloads a)) (im_localName r)" using e by (simp_all add: entry_ok_def)
    then show ?thesis using r mem [OF a] by (auto simp: only_local_def)
  qed
  show ?thesis
    using q Statements_unique [OF p(1) tq wf assms(8)] entries unfolding wants by blast
qed

definition demo_imports :: "nat \<Rightarrow> import_payload" where
  "demo_imports a =
     \<lparr>im_binding = ImportBindingNamed, im_modulePath = (if a < 3 then ''@gotots/runtime/panic.js'' else ''./a.js''),
      im_exportedName = (if a < 3 then ''GoPanic'' else ''f''), im_phase = (if a = 1 then ImportPhaseType else ImportPhaseValue),
      im_localName = (if a < 3 then ''GoPanic'' else ''f__from_a''), im_alias = PrimitiveInvalid, im_symbol = RuntimeInvalid\<rparr>"

definition import_leaf :: "nat \<Rightarrow> root_request" where
  "import_leaf a = PayloadRequest a ImportPayload"

lemma placement_ignores_order_witness:
  "\<exists>p q. placement_Apply demo_imports [import_leaf 1, import_leaf 2, import_leaf 3] [] = Inr p \<and>
     placement_Apply demo_imports [import_leaf 3, import_leaf 2, import_leaf 3, import_leaf 1] [] = Inr q \<and>
     Statements q = Statements p \<and>
     Statements p = Some [ImportDeclaration (Some (False, NamedImports [(Some ''f'', ''f__from_a'')])) ''./a.js'',
       ImportDeclaration (Some (False, NamedImports [(None, ''GoPanic'')])) ''@gotots/runtime/panic.js'']"
proof -
  let ?rs = "[import_leaf 1, import_leaf 2, import_leaf 3]"
  let ?rs' = "[import_leaf 3, import_leaf 2, import_leaf 3, import_leaf 1]"
  define p where "p = [(owner_of_import (demo_imports 2), demo_imports 2), (owner_of_import (demo_imports 3), demo_imports 3)]"
  have p: "placement_Apply demo_imports ?rs [] = Inr p" unfolding p_def by code_simp
  have d: "named_locals_distinct p" unfolding p_def by code_simp
  have s: "Statements p = Some [ImportDeclaration (Some (False, NamedImports [(Some ''f'', ''f__from_a'')])) ''./a.js'',
      ImportDeclaration (Some (False, NamedImports [(None, ''GoPanic'')])) ''@gotots/runtime/panic.js'']"
    unfolding p_def by code_simp
  have ok: "list_all request_ok ?rs" "list_all (coherent import_leaf) ?rs" "list_all request_ok ?rs'"
    "list_all (coherent import_leaf) ?rs'" "set (concat (map leaves ?rs')) = set (concat (map leaves ?rs))"
    by (auto simp: import_leaf_def)
  have wf: "well_formed_import (demo_imports a)" for a by (simp add: demo_imports_def well_formed_import_def)
  show ?thesis
    using placement_ignores_order [OF wf ok p d] p s by blast
qed

end
