(* ===== verification/FileNames.thy ===== *)
theory FileNames
  imports NameScopes ModulePaths ImportPlacement
begin

text \<open>
  The names of a target file (\<open>internal/emit/naming/file_names.go\<close>, \<open>lexical_support_names.go\<close>): local names of
  imports and temporaries, which avoid the names of the source and one another, and the replay of an
  artifact's temporaries when it is emitted again.

  The record has the maps of \<open>File\<close> that these operations use; \<open>fn_packageScope\<close> lists the names declared in the
  package scope.  The zero owner stands for no active artifact.  A result comes with the file, since a failing operation
  keeps what it has reserved.
\<close>

subsection \<open>Temporaries\<close>

datatype TemporaryKind =
    TemporaryInvalid
  | TemporaryAssignmentValue | TemporaryMultipleResults | TemporaryCompositeField
  | TemporaryStructSource | TemporaryReceiverValue | TemporaryCallArgument
  | TemporaryCallCallee | TemporaryArrayReceiver | TemporarySliceElement
  | TemporarySliceReceiver | TemporarySliceOperand | TemporaryStoreOperand
  | TemporaryMapOperand | TemporaryAddressOperand | TemporaryConversionOperand
  | TemporaryArrayComparison | TemporaryEqualityOperand | TemporaryBinaryOperand
  | TemporaryLogicalResult | TemporaryArrayHash | TemporaryArrayConstruction
  | TemporarySliceConstruction | TemporaryRangeOperand | TemporaryRangeIndex
  | TemporaryRangeValue | TemporaryRangeKeys | TemporaryRangeDecode
  | TemporarySwitchTag | TemporarySwitchSelection | TemporarySwitchMatch
  | TemporaryTypeSwitchValue | TemporaryForFirstIteration | TemporaryRangeState
  | TemporaryDeferStack | TemporaryDeferredCall | TemporaryRecoveryAuthority
  | TemporaryActivePanic | TemporaryCaughtPanic | TemporaryReturnResult
  | TemporaryReturnLabel | TemporaryControlTarget | TemporaryGotoTarget
  | TemporaryGotoState | TemporaryGotoDispatch | TemporaryChannelOperand
  | TemporaryChannelResult | TemporarySelectCase | TemporaryRangeReturn

fun TemporaryPrefix :: "TemporaryKind \<Rightarrow> name_error + string" where
  "TemporaryPrefix TemporaryAssignmentValue = Inr ''assignmentValue''"
| "TemporaryPrefix TemporaryMultipleResults = Inr ''results''"
| "TemporaryPrefix TemporaryCompositeField = Inr ''fieldValue''"
| "TemporaryPrefix TemporaryStructSource = Inr ''structValue''"
| "TemporaryPrefix TemporaryReceiverValue = Inr ''receiver''"
| "TemporaryPrefix TemporaryCallArgument = Inr ''argument''"
| "TemporaryPrefix TemporaryCallCallee = Inr ''callee''"
| "TemporaryPrefix TemporaryArrayReceiver = Inr ''arrayValue''"
| "TemporaryPrefix TemporarySliceElement = Inr ''sliceElement''"
| "TemporaryPrefix TemporarySliceReceiver = Inr ''sliceValue''"
| "TemporaryPrefix TemporarySliceOperand = Inr ''sliceOperand''"
| "TemporaryPrefix TemporaryStoreOperand = Inr ''storeTarget''"
| "TemporaryPrefix TemporaryMapOperand = Inr ''mapValue''"
| "TemporaryPrefix TemporaryAddressOperand = Inr ''addressValue''"
| "TemporaryPrefix TemporaryConversionOperand = Inr ''convertedValue''"
| "TemporaryPrefix TemporaryArrayComparison = Inr ''arrayComparison''"
| "TemporaryPrefix TemporaryEqualityOperand = Inr ''equalityOperand''"
| "TemporaryPrefix TemporaryBinaryOperand = Inr ''binaryOperand''"
| "TemporaryPrefix TemporaryLogicalResult = Inr ''logicalResult''"
| "TemporaryPrefix TemporaryArrayHash = Inr ''arrayHash''"
| "TemporaryPrefix TemporaryArrayConstruction = Inr ''arrayBuilder''"
| "TemporaryPrefix TemporarySliceConstruction = Inr ''sliceBuilder''"
| "TemporaryPrefix TemporaryRangeOperand = Inr ''rangeSource''"
| "TemporaryPrefix TemporaryRangeIndex = Inr ''rangeIndex''"
| "TemporaryPrefix TemporaryRangeValue = Inr ''rangeValue''"
| "TemporaryPrefix TemporaryRangeKeys = Inr ''rangeKeys''"
| "TemporaryPrefix TemporaryRangeDecode = Inr ''rangeDecoded''"
| "TemporaryPrefix TemporarySwitchTag = Inr ''switchTag''"
| "TemporaryPrefix TemporarySwitchSelection = Inr ''switchSelection''"
| "TemporaryPrefix TemporarySwitchMatch = Inr ''switchMatch''"
| "TemporaryPrefix TemporaryTypeSwitchValue = Inr ''typeSwitchValue''"
| "TemporaryPrefix TemporaryForFirstIteration = Inr ''firstIteration''"
| "TemporaryPrefix TemporaryRangeState = Inr ''rangeState''"
| "TemporaryPrefix TemporaryDeferStack = Inr ''deferredCalls''"
| "TemporaryPrefix TemporaryDeferredCall = Inr ''deferredCall''"
| "TemporaryPrefix TemporaryRecoveryAuthority = Inr ''recovery''"
| "TemporaryPrefix TemporaryActivePanic = Inr ''activePanic''"
| "TemporaryPrefix TemporaryCaughtPanic = Inr ''caughtPanic''"
| "TemporaryPrefix TemporaryReturnResult = Inr ''returnValue''"
| "TemporaryPrefix TemporaryReturnLabel = Inr ''returnBlock''"
| "TemporaryPrefix TemporaryControlTarget = Inr ''controlTarget''"
| "TemporaryPrefix TemporaryGotoTarget = Inr ''gotoTarget''"
| "TemporaryPrefix TemporaryGotoState = Inr ''gotoState''"
| "TemporaryPrefix TemporaryGotoDispatch = Inr ''gotoDispatch''"
| "TemporaryPrefix TemporaryChannelOperand = Inr ''channelValue''"
| "TemporaryPrefix TemporaryChannelResult = Inr ''receivedValue''"
| "TemporaryPrefix TemporarySelectCase = Inr ''selectCase''"
| "TemporaryPrefix TemporaryRangeReturn = Inr ''rangeResult''"
| "TemporaryPrefix TemporaryInvalid = Inl (NameError '''' ''temporary kind is invalid'')"

datatype artifact_import = ArtifactImport "generated_artifact option" string

record file_names =
  fn_owner :: name_owner
  fn_packageScope :: "string list option"
  fn_targetPath :: string
  fn_temporaries :: "(TemporaryKind, nat) gomap"
  fn_generatedNames :: "string list"
  fn_temporaryOwners :: "(string, artifact_owner) gomap"
  fn_importNames :: "string list"
  fn_primitives :: "(PrimitiveAlias, string) gomap"
  fn_runtime :: "(RuntimeSymbol, string) gomap"
  fn_callableImplementations :: "(string, string) gomap"
  fn_artifactImports :: "(artifact_import, string) gomap"
  fn_artifactOwner :: artifact_owner

definition ForFile :: "name_owner \<Rightarrow> string list option \<Rightarrow> string \<Rightarrow> file_names" where
  "ForFile n scope targetPath =
     \<lparr>fn_owner = n, fn_packageScope = scope, fn_targetPath = targetPath, fn_temporaries = [], fn_generatedNames = [],
      fn_temporaryOwners = [], fn_importNames = [], fn_primitives = [], fn_runtime = [],
      fn_callableImplementations = [], fn_artifactImports = [], fn_artifactOwner = no_owner\<rparr>"

definition sourceNameExists :: "file_names \<Rightarrow> string \<Rightarrow> bool" where
  "sourceNameExists f name \<longleftrightarrow>
     (case fn_packageScope f of None \<Rightarrow> False | Some names \<Rightarrow> name \<in> set names) \<or> name \<in> set (sourceNameBases (fn_owner f))"

definition lexicalNameExists :: "file_names \<Rightarrow> string \<Rightarrow> bool" where
  "lexicalNameExists f name \<longleftrightarrow>
     sourceNameExists f name \<or> name \<in> set (fn_importNames f) \<or> name \<in> set (fn_generatedNames f)"

text \<open>The names for which \<open>lexicalNameExists\<close> holds, as a list.\<close>

definition lexicalNames :: "file_names \<Rightarrow> string list" where
  "lexicalNames f =
     (case fn_packageScope f of None \<Rightarrow> [] | Some names \<Rightarrow> names) @ sourceNameBases (fn_owner f) @
     fn_importNames f @ fn_generatedNames f"

lemma lexicalNames_exists: "name \<in> set (lexicalNames f) \<longleftrightarrow> lexicalNameExists f name"
  by (auto simp: lexicalNames_def lexicalNameExists_def sourceNameExists_def split: option.splits)

definition temporaryCandidate :: "string \<Rightarrow> nat \<Rightarrow> string" where
  "temporaryCandidate prefix index = (if index \<noteq> 0 then prefix @ itoa (index + 1) else prefix)"

lemma temporaryCandidate_inject [simp]: "temporaryCandidate p j = temporaryCandidate p k \<longleftrightarrow> j = k"
  by (auto simp: temporaryCandidate_def)

lemma finite_candidates: "finite {k. temporaryCandidate p k \<in> set taken}"
proof (rule finite_imageD)
  show "finite (temporaryCandidate p ` {k. temporaryCandidate p k \<in> set taken})"
    by (rule finite_subset [of _ "set taken"]) auto
qed (auto simp: inj_on_def)

text \<open>The loop of \<open>Temporary\<close>: the counter after the index that is taken, and the name.\<close>

function freeTemporary :: "string list \<Rightarrow> string \<Rightarrow> nat \<Rightarrow> nat \<times> string" where
  "freeTemporary taken prefix index =
     (if temporaryCandidate prefix index \<in> set taken then freeTemporary taken prefix (index + 1)
      else (index + 1, temporaryCandidate prefix index))"
  by pat_completeness auto
termination
  by (relation "measure (\<lambda>(taken, prefix, k). card ({k. temporaryCandidate prefix k \<in> set taken} \<inter> {k..}))")
    (auto intro!: remaining_decreases finite_candidates)

declare freeTemporary.simps [simp del]

definition Temporary :: "TemporaryKind \<Rightarrow> file_names \<Rightarrow> name_error + string \<times> file_names" where
  "Temporary kind f =
     (case TemporaryPrefix kind of
        Inl e \<Rightarrow> Inl e
      | Inr prefix \<Rightarrow>
          let (counter, candidate) = freeTemporary (lexicalNames f) prefix (value_or 0 (fn_temporaries f) kind) in
          Inr (candidate, f\<lparr>fn_temporaries := gm_put kind counter (fn_temporaries f),
            fn_generatedNames := gs_insert candidate (fn_generatedNames f),
            fn_temporaryOwners := gm_put candidate (fn_artifactOwner f) (fn_temporaryOwners f)\<rparr>))"

subsection \<open>Replay\<close>

type_synonym temporary_snapshot = "(TemporaryKind, nat) gomap"

definition SnapshotTemporaries :: "file_names \<Rightarrow> temporary_snapshot" where
  "SnapshotTemporaries f = fn_temporaries f"

text \<open>What the function that \<open>BeginTemporaryReplay\<close> returns remembers.\<close>

record temporary_replay =
  rp_owner :: artifact_owner
  rp_counters :: "(TemporaryKind, nat) gomap"
  rp_names :: "string list"
  rp_owners :: "(string, artifact_owner) gomap"

definition owned_names :: "artifact_owner \<Rightarrow> (string, artifact_owner) gomap \<Rightarrow> string list" where
  "owned_names o' owners = map fst (filter (\<lambda>entry. snd entry = o') owners)"

definition dropOwned :: "artifact_owner \<Rightarrow> file_names \<Rightarrow> file_names" where
  "dropOwned o' f =
     f\<lparr>fn_generatedNames := filter (\<lambda>name. name \<notin> set (owned_names o' (fn_temporaryOwners f))) (fn_generatedNames f),
       fn_temporaryOwners := filter (\<lambda>entry. snd entry \<noteq> o') (fn_temporaryOwners f)\<rparr>"

definition BeginTemporaryReplay ::
    "artifact_owner \<Rightarrow> temporary_snapshot \<Rightarrow> file_names \<Rightarrow> name_error + temporary_replay \<times> file_names" where
  "BeginTemporaryReplay o' start f =
     (if \<not> owner_Valid o' then Inl (NameError '''' ''temporary replay owner is invalid'')
      else Inr (\<lparr>rp_owner = o', rp_counters = fn_temporaries f, rp_names = fn_generatedNames f,
                  rp_owners = fn_temporaryOwners f\<rparr>,
                dropOwned o' (f\<lparr>fn_temporaries := start\<rparr>)))"

definition addOwned :: "artifact_owner \<Rightarrow> string list \<Rightarrow> file_names \<Rightarrow> file_names" where
  "addOwned o' names f =
     foldl (\<lambda>f name. f\<lparr>fn_generatedNames := gs_insert name (fn_generatedNames f),
         fn_temporaryOwners := gm_put name o' (fn_temporaryOwners f)\<rparr>) f names"

definition raiseCounters :: "(TemporaryKind, nat) gomap \<Rightarrow> (TemporaryKind, nat) gomap \<Rightarrow> (TemporaryKind, nat) gomap" where
  "raiseCounters replayed counters =
     foldl (\<lambda>counters entry. if value_or 0 counters (fst entry) < snd entry
         then gm_put (fst entry) (snd entry) counters else counters) counters replayed"

definition finishReplay :: "bool \<Rightarrow> temporary_replay \<Rightarrow> file_names \<Rightarrow> file_names" where
  "finishReplay commit saved f =
     (let restored = f\<lparr>fn_temporaries := rp_counters saved, fn_generatedNames := rp_names saved,
            fn_temporaryOwners := rp_owners saved\<rparr>
      in if \<not> commit then restored
         else let g = addOwned (rp_owner saved) (owned_names (rp_owner saved) (fn_temporaryOwners f))
                        (dropOwned (rp_owner saved) restored)
              in g\<lparr>fn_temporaries := raiseCounters (fn_temporaries f) (fn_temporaries g)\<rparr>)"

subsection \<open>Imported names\<close>

definition reserveImport :: "string \<Rightarrow> file_names \<Rightarrow> file_names" where
  "reserveImport name f = f\<lparr>fn_importNames := gs_insert name (fn_importNames f)\<rparr>"

definition allocateImportName :: "string \<Rightarrow> string \<Rightarrow> file_names \<Rightarrow> string \<times> file_names" where
  "allocateImportName preferred qualifier f =
     (let candidate = firstFree (lexicalNames f) (preferred @ ''__from_'' @ qualifier) ''_'' 0
      in (candidate, reserveImport candidate f))"

definition allocateProviderImportName :: "string \<Rightarrow> file_names \<Rightarrow> string \<times> file_names" where
  "allocateProviderImportName preferred f =
     (let candidate = (if lexicalNameExists f preferred
            then firstFree (lexicalNames f) (preferred @ ''__from_gostdlib'') ''_'' 0 else preferred)
      in (candidate, reserveImport candidate f))"

text \<open>The local name of a primitive alias or a runtime symbol that the file has not imported yet.\<close>

definition importedLocalName :: "string \<Rightarrow> string \<Rightarrow> file_names \<Rightarrow> string" where
  "importedLocalName exportedName origin f =
     (if lexicalNameExists f exportedName
      then firstFree (lexicalNames f) (exportedName @ origin) ''_'' 0 else exportedName)"

datatype naming_error =
    NameFailure name_error | PathFailure path_error | ImportFailure import_error | ContractFailure emit_error

definition importReference :: "import_error + import_payload \<Rightarrow> string \<Rightarrow> naming_error + import_payload NameReference" where
  "importReference request localName =
     (case request of
        Inl e \<Rightarrow> Inl (ImportFailure e)
      | Inr r \<Rightarrow> (case NewNameReference localName [r] of Inl e \<Rightarrow> Inl (ContractFailure e) | Inr reference \<Rightarrow> Inr reference))"

definition Primitive :: "PrimitiveAlias \<Rightarrow> file_names \<Rightarrow> (naming_error + import_payload NameReference) \<times> file_names" where
  "Primitive alias f =
     (let existing = value_or '''' (fn_primitives f) alias in
      if existing \<noteq> '''' then
        (case RuntimeModuleSpecifier ScalarSupportPath of
           Inl e \<Rightarrow> (Inl (PathFailure e), f)
         | Inr modulePath \<Rightarrow> (importReference (NewPrimitiveAliasRequest modulePath alias existing) existing, f))
      else (case PrimitiveAliasName alias of
          Inl e \<Rightarrow> (Inl (ContractFailure e), f)
        | Inr exportedName \<Rightarrow>
            let localName = importedLocalName exportedName ''__from_gotots_support'' f;
                g = (reserveImport localName f)\<lparr>fn_primitives := gm_put alias localName (fn_primitives f)\<rparr>
            in (case RuntimeModuleSpecifier ScalarSupportPath of
                  Inl e \<Rightarrow> (Inl (PathFailure e), g)
                | Inr modulePath \<Rightarrow> (importReference (NewPrimitiveAliasRequest modulePath alias localName) localName, g))))"

definition file_Runtime ::
    "RuntimeSymbol \<Rightarrow> ImportPhase \<Rightarrow> file_names \<Rightarrow> (naming_error + import_payload NameReference) \<times> file_names" where
  "file_Runtime symbol phase f =
     (case RuntimeContract symbol of
        Inl e \<Rightarrow> (Inl (ContractFailure e), f)
      | Inr contract \<Rightarrow>
          (case RuntimeModuleSpecifier (contract_outputPath contract) of
             Inl e \<Rightarrow> (Inl (PathFailure e), f)
           | Inr modulePath \<Rightarrow>
               let existing = value_or '''' (fn_runtime f) symbol in
               if existing \<noteq> '''' then
                 (importReference (NewRuntimeImportRequest phase modulePath symbol existing) existing, f)
               else let localName = importedLocalName (contract_exportedName contract) ''__from_gotots_runtime'' f;
                        g = (reserveImport localName f)\<lparr>fn_runtime := gm_put symbol localName (fn_runtime f)\<rparr>
                    in (importReference (NewRuntimeImportRequest phase modulePath symbol localName) localName, g)))"

definition CallableImplementation ::
    "string \<Rightarrow> string \<Rightarrow> file_names \<Rightarrow> (naming_error + import_payload NameReference) \<times> file_names" where
  "CallableImplementation targetPath exportedName f =
     (if targetPath = '''' \<or> exportedName = '''' \<or> targetPath = fn_targetPath f
      then (Inl (NameFailure (NameError exportedName ''callable implementation import identity is invalid'')), f)
      else (case ModuleSpecifier (fn_targetPath f) targetPath of
          Inl e \<Rightarrow> (Inl (PathFailure e), f)
        | Inr modulePath \<Rightarrow>
            let key = modulePath @ CHR 0x00 # exportedName;
                existing = value_or '''' (fn_callableImplementations f) key;
                (localName, g) =
                  (if existing \<noteq> '''' then (existing, f)
                   else let (localName, g) =
                          (if lexicalNameExists f exportedName then allocateImportName exportedName ''implementation'' f
                           else (exportedName, reserveImport exportedName f))
                        in (localName, g\<lparr>fn_callableImplementations := gm_put key localName (fn_callableImplementations g)\<rparr>))
            in (importReference (NewImportRequest ImportPhaseValue modulePath exportedName localName) localName, g)))"

text \<open>
  The local name of an export of a generated artifact.  \<open>origin\<close> is the package name of the owner of the artifact's
  generic concretization, if it has one: \<open>generatedArtifactImportQualifier\<close> prefers it to the name of the artifact.
  When the preferred name is taken and the exported one is not, the exported name is returned without being reserved.
\<close>

definition artifactPreferredPrefix :: "generated_artifact \<Rightarrow> string" where
  "artifactPreferredPrefix artifact =
     (if generated_kind artifact = 2 then ''GoMap''
      else if generated_kind artifact = 3 then ''GoInterfaceAdapter''
      else if generated_kind artifact = 4 then ''GoInterface''
      else if generated_kind artifact = 11 then
        (if HasPrefix (generated_target_name artifact) ''$goProviderProfileBridge$'' then ''GoProviderProfileBridge''
         else ''GoProviderInterfaceBridge'')
      else if generated_kind artifact = 12 then ''GoProviderState''
      else if generated_kind artifact = 13 then ''DeferredCallableRegistry''
      else '''')"

definition generatedArtifactPreferredLocalName :: "generated_artifact option \<Rightarrow> string \<Rightarrow> string" where
  "generatedArtifactPreferredLocalName artifact exported =
     (case artifact of
        None \<Rightarrow> exported
      | Some a \<Rightarrow>
          if exported = '''' then exported
          else (case CutPrefix exported (generated_target_name a) of
                  None \<Rightarrow> exported
                | Some suffix \<Rightarrow> if artifactPreferredPrefix a = '''' then exported else artifactPreferredPrefix a @ suffix))"

definition generatedArtifactImportQualifier :: "string option \<Rightarrow> generated_artifact option \<Rightarrow> string" where
  "generatedArtifactImportQualifier origin artifact =
     (case origin of
        Some name \<Rightarrow> name
      | None \<Rightarrow> (case artifact of
            Some a \<Rightarrow> if generated_target_name a \<noteq> '''' then generated_target_name a else ''generated''
          | None \<Rightarrow> ''generated''))"

definition generatedArtifactLocalName ::
    "(generated_artifact option \<Rightarrow> string option) \<Rightarrow> generated_artifact option \<Rightarrow> string \<Rightarrow> file_names \<Rightarrow> string \<times> file_names" where
  "generatedArtifactLocalName origin artifact exported f =
     (let identity = ArtifactImport artifact exported;
          known = value_or '''' (fn_artifactImports f) identity in
      if known \<noteq> '''' then (known, f)
      else let preferred = generatedArtifactPreferredLocalName artifact exported;
               (selected, g) =
                 (if lexicalNameExists f preferred then
                    (if preferred \<noteq> exported \<and> \<not> lexicalNameExists f exported then (exported, f)
                     else allocateImportName preferred (generatedArtifactImportQualifier (origin artifact) artifact) f)
                  else (preferred, reserveImport preferred f))
           in (selected, g\<lparr>fn_artifactImports := gm_put identity selected (fn_artifactImports g)\<rparr>))"

text \<open>
  What the unreserved name leads to: in a file that declares \<open>GoInterface\<close>, the artifact \<open>$go$i\<close> is imported under the
  name it exports, and an export \<open>$go$i\<close> of another module gets the same local name.
\<close>

definition demo_interface :: generated_artifact where
  "demo_interface = \<lparr>generated_ref = 1, generated_kind = 4, generated_key = ''i'', generated_target_name = ''$go$i'',
     generated_package = None, generated_valid = True\<rparr>"

lemma exported_name_unreserved:
  "(let (first, f) = generatedArtifactLocalName (\<lambda>_. None) (Some demo_interface) ''$go$i''
                       (ForFile (emptyOwner [] [''GoInterface'']) None ''a.ts'');
        (second, g) = CallableImplementation ''b.ts'' ''$go$i'' f
    in (first, lexicalNameExists f first, map_sum id ref_name second)) = (''$go$i'', False, Inr ''$go$i'')"
  by code_simp

end
