(* ===== verification/NameReplay.thy ===== *)
theory NameReplay
  imports FileNames
begin

text \<open>
  What the names of a target file guarantee: temporaries are new names, and an artifact that is emitted again
  with a replay gets the temporaries it had, whatever other artifacts have reserved in the meantime.
\<close>

subsection \<open>One temporary\<close>

lemma freeTemporary_spec:
  "freeTemporary taken p i = (c, s) \<Longrightarrow>
     s \<notin> set taken \<and> (\<exists>j \<ge> i. s = temporaryCandidate p j \<and> c = j + 1 \<and> (\<forall>k. i \<le> k \<longrightarrow> k < j \<longrightarrow> temporaryCandidate p k \<in> set taken))"
proof (induction taken p i rule: freeTemporary.induct)
  case (1 taken p i)
  show ?case
  proof (cases "temporaryCandidate p i \<in> set taken")
    case True
    then have "freeTemporary taken p (i + 1) = (c, s)" using "1.prems" by (simp add: freeTemporary.simps [of taken p i])
    then obtain j where j: "s \<notin> set taken" "i + 1 \<le> j" "s = temporaryCandidate p j" "c = j + 1"
      "\<forall>k. i + 1 \<le> k \<longrightarrow> k < j \<longrightarrow> temporaryCandidate p k \<in> set taken"
      using "1.IH" [OF True] by blast
    have "temporaryCandidate p k \<in> set taken" if "i \<le> k" "k < j" for k
      using j(5) True that by (cases "k = i") auto
    then show ?thesis using j by (intro conjI exI [of _ j]) auto
  next
    case False
    then have "c = i + 1" "s = temporaryCandidate p i" using "1.prems" by (simp_all add: freeTemporary.simps [of taken p i])
    then show ?thesis using False by (intro conjI exI [of _ i]) auto
  qed
qed

lemma freeTemporary_at:
  "i \<le> j \<Longrightarrow> temporaryCandidate p j \<notin> set taken \<Longrightarrow> \<forall>k. i \<le> k \<longrightarrow> k < j \<longrightarrow> temporaryCandidate p k \<in> set taken \<Longrightarrow>
     freeTemporary taken p i = (j + 1, temporaryCandidate p j)"
proof (induction taken p i rule: freeTemporary.induct)
  case (1 taken p i)
  show ?case
  proof (cases "i = j")
    case True
    then show ?thesis using "1.prems"(2) by (subst freeTemporary.simps) simp
  next
    case False
    then have t: "temporaryCandidate p i \<in> set taken" using "1.prems" by simp
    have "freeTemporary taken p (i + 1) = (j + 1, temporaryCandidate p j)"
      using "1.IH" [OF t] "1.prems" False by simp
    then show ?thesis using t by (simp add: freeTemporary.simps [of taken p i])
  qed
qed

text \<open>The effect of an allocation on the file.\<close>

definition takes_temporary :: "string \<Rightarrow> file_names \<Rightarrow> file_names \<Rightarrow> bool" where
  "takes_temporary s f f' \<longleftrightarrow>
     \<not> lexicalNameExists f s \<and> fn_generatedNames f' = gs_insert s (fn_generatedNames f) \<and>
     fn_temporaryOwners f' = gm_put s (fn_artifactOwner f) (fn_temporaryOwners f) \<and>
     fn_owner f' = fn_owner f \<and> fn_packageScope f' = fn_packageScope f \<and> fn_importNames f' = fn_importNames f \<and>
     fn_artifactOwner f' = fn_artifactOwner f \<and>
     (\<forall>k. value_or 0 (fn_temporaries f) k \<le> value_or 0 (fn_temporaries f') k)"

lemma Temporary_takes:
  assumes "Temporary kind f = Inr (s, f')"
  shows "takes_temporary s f f'"
proof -
  obtain prefix where p: "TemporaryPrefix kind = Inr prefix"
    using assms by (auto simp: Temporary_def split: sum.splits)
  obtain c t where c: "freeTemporary (lexicalNames f) prefix (value_or 0 (fn_temporaries f) kind) = (c, t)" by fastforce
  then have f': "s = t" "f' = f\<lparr>fn_temporaries := gm_put kind c (fn_temporaries f),
      fn_generatedNames := gs_insert t (fn_generatedNames f),
      fn_temporaryOwners := gm_put t (fn_artifactOwner f) (fn_temporaryOwners f)\<rparr>"
    using assms p by (auto simp: Temporary_def)
  have "t \<notin> set (lexicalNames f)" "value_or 0 (fn_temporaries f) kind \<le> c"
    using freeTemporary_spec [OF c] by auto
  then show ?thesis using f' by (auto simp: takes_temporary_def lexicalNames_exists)
qed

lemma takes_lexical: "takes_temporary s f f' \<Longrightarrow> lexicalNameExists f' x \<longleftrightarrow> x = s \<or> lexicalNameExists f x"
  by (auto simp: takes_temporary_def lexicalNameExists_def sourceNameExists_def)

subsection \<open>The temporaries of an artifact\<close>

fun runTemporaries :: "TemporaryKind list \<Rightarrow> file_names \<Rightarrow> name_error + string list \<times> file_names" where
  "runTemporaries [] f = Inr ([], f)"
| "runTemporaries (kind # kinds) f =
     (case Temporary kind f of
        Inl e \<Rightarrow> Inl e
      | Inr (s, f) \<Rightarrow> (case runTemporaries kinds f of Inl e \<Rightarrow> Inl e | Inr (names, f) \<Rightarrow> Inr (s # names, f)))"

lemma runTemporaries_Cons:
  assumes "runTemporaries (kind # kinds) f = Inr (names, f')"
  obtains s g rest where "Temporary kind f = Inr (s, g)" "runTemporaries kinds g = Inr (rest, f')" "names = s # rest"
  using assms by (auto split: sum.splits)

definition took_names :: "string list \<Rightarrow> file_names \<Rightarrow> file_names \<Rightarrow> bool" where
  "took_names names f f' \<longleftrightarrow>
     distinct names \<and> (\<forall>s \<in> set names. \<not> lexicalNameExists f s) \<and>
     set (fn_generatedNames f') = set (fn_generatedNames f) \<union> set names \<and>
     (\<forall>s. gm_get (fn_temporaryOwners f') s =
        (if s \<in> set names then Some (fn_artifactOwner f) else gm_get (fn_temporaryOwners f) s)) \<and>
     (gm_wf (fn_temporaryOwners f) \<longrightarrow> gm_wf (fn_temporaryOwners f')) \<and>
     fn_owner f' = fn_owner f \<and> fn_packageScope f' = fn_packageScope f \<and> fn_importNames f' = fn_importNames f \<and>
     fn_artifactOwner f' = fn_artifactOwner f \<and>
     (\<forall>k. value_or 0 (fn_temporaries f) k \<le> value_or 0 (fn_temporaries f') k)"

lemma runTemporaries_took: "runTemporaries kinds f = Inr (names, f') \<Longrightarrow> took_names names f f'"
proof (induction kinds arbitrary: f names)
  case Nil
  then show ?case by (simp add: took_names_def)
next
  case (Cons kind kinds)
  obtain s g rest where g: "Temporary kind f = Inr (s, g)" "runTemporaries kinds g = Inr (rest, f')" "names = s # rest"
    using Cons.prems by (rule runTemporaries_Cons)
  have t: "takes_temporary s f g" by (rule Temporary_takes [OF g(1)])
  have ih: "took_names rest g f'" by (rule Cons.IH [OF g(2)])
  have new: "x \<noteq> s \<and> \<not> lexicalNameExists f x" if "x \<in> set rest" for x
    using ih that takes_lexical [OF t, of x] by (simp add: took_names_def)
  have mono: "value_or 0 (fn_temporaries f) k \<le> value_or 0 (fn_temporaries f') k" for k
    using ih t order_trans unfolding took_names_def takes_temporary_def by blast
  have "distinct names" using ih new g(3) by (auto simp: took_names_def)
  then show ?case
    using ih t new mono unfolding g(3) by (auto simp: took_names_def takes_temporary_def)
qed

text \<open>
  A run from another file with the same counters gives the same names, if it has the names of the first
  file and none of those that the first run takes.
\<close>

lemma runTemporaries_again:
  "runTemporaries kinds f = Inr (names, f') \<Longrightarrow> fn_temporaries g = fn_temporaries f \<Longrightarrow>
   (\<And>x. lexicalNameExists f x \<Longrightarrow> lexicalNameExists g x) \<Longrightarrow> (\<And>x. x \<in> set names \<Longrightarrow> \<not> lexicalNameExists g x) \<Longrightarrow>
     \<exists>g'. runTemporaries kinds g = Inr (names, g') \<and> fn_temporaries g' = fn_temporaries f'"
proof (induction kinds arbitrary: f g names)
  case Nil
  then show ?case by simp
next
  case (Cons kind kinds)
  obtain s h rest where h: "Temporary kind f = Inr (s, h)" "runTemporaries kinds h = Inr (rest, f')" "names = s # rest"
    using Cons.prems(1) by (rule runTemporaries_Cons)
  obtain prefix where p: "TemporaryPrefix kind = Inr prefix"
    using h(1) by (auto simp: Temporary_def split: sum.splits)
  let ?i = "value_or 0 (fn_temporaries f) kind"
  obtain c where c: "freeTemporary (lexicalNames f) prefix ?i = (c, s)"
    using h(1) p by (cases "freeTemporary (lexicalNames f) prefix ?i") (auto simp: Temporary_def)
  then obtain j where j: "?i \<le> j" "s = temporaryCandidate prefix j" "c = j + 1"
    "\<forall>k. ?i \<le> k \<longrightarrow> k < j \<longrightarrow> temporaryCandidate prefix k \<in> set (lexicalNames f)"
    using freeTemporary_spec [OF c] by blast
  have "freeTemporary (lexicalNames g) prefix ?i = (j + 1, temporaryCandidate prefix j)"
    using j Cons.prems(3,4) h(3) by (intro freeTemporary_at) (auto simp: lexicalNames_exists)
  then obtain g1 where g1: "Temporary kind g = Inr (s, g1)" "fn_temporaries g1 = fn_temporaries h"
    using h(1) p c j Cons.prems(2) by (auto simp: Temporary_def)
  have th: "takes_temporary s f h" and tg: "takes_temporary s g g1"
    using Temporary_takes h(1) g1(1) by blast+
  have "\<exists>g'. runTemporaries kinds g1 = Inr (rest, g') \<and> fn_temporaries g' = fn_temporaries f'"
  proof (rule Cons.IH [OF h(2) g1(2)])
    fix x
    show "lexicalNameExists h x \<Longrightarrow> lexicalNameExists g1 x"
      using takes_lexical [OF th] takes_lexical [OF tg] Cons.prems(3) by blast
    assume x: "x \<in> set rest"
    then have "x \<noteq> s" using runTemporaries_took [OF Cons.prems(1)] h(3) by (auto simp: took_names_def)
    then show "\<not> lexicalNameExists g1 x" using takes_lexical [OF tg] Cons.prems(4) x h(3) by simp
  qed
  then show ?case using g1(1) h(3) by auto
qed

subsection \<open>Work of other artifacts\<close>

text \<open>Reserving an import leaves the temporaries alone and takes a name that did not exist.\<close>

definition reserves_imports :: "file_names \<Rightarrow> file_names \<Rightarrow> bool" where
  "reserves_imports f f' \<longleftrightarrow>
     fn_owner f' = fn_owner f \<and> fn_packageScope f' = fn_packageScope f \<and>
     fn_temporaries f' = fn_temporaries f \<and> fn_generatedNames f' = fn_generatedNames f \<and>
     fn_temporaryOwners f' = fn_temporaryOwners f \<and>
     set (fn_importNames f) \<subseteq> set (fn_importNames f') \<and>
     (\<forall>s \<in> set (fn_importNames f'). s \<notin> set (fn_importNames f) \<longrightarrow> \<not> lexicalNameExists f s)"

lemma reserveImport_reserves: "\<not> lexicalNameExists f s \<Longrightarrow> reserves_imports f (reserveImport s f)"
  by (auto simp: reserves_imports_def reserveImport_def)

lemma reserves_frame [simp]:
  "reserves_imports f (g\<lparr>fn_runtime := r\<rparr>) = reserves_imports f g"
  "reserves_imports f (g\<lparr>fn_primitives := q\<rparr>) = reserves_imports f g"
  "reserves_imports f (g\<lparr>fn_callableImplementations := i\<rparr>) = reserves_imports f g"
  "reserves_imports f (g\<lparr>fn_artifactImports := x\<rparr>) = reserves_imports f g"
  "reserves_imports f f"
  by (simp_all add: reserves_imports_def)

lemma firstFree_new: "\<not> lexicalNameExists f (firstFree (lexicalNames f) base sep k)"
  using firstFree_free [of "lexicalNames f"] by (simp add: lexicalNames_exists)

lemma allocateImportName_reserves: "allocateImportName preferred qualifier f = (s, f') \<Longrightarrow> reserves_imports f f'"
  using reserveImport_reserves [OF firstFree_new] by (auto simp: allocateImportName_def Let_def)

lemma importedLocalName_new: "\<not> lexicalNameExists f (importedLocalName exportedName origin f)"
  by (simp add: importedLocalName_def firstFree_new)

lemma Primitive_reserves: "Primitive alias f = (result, f') \<Longrightarrow> reserves_imports f f'"
  using reserveImport_reserves [OF importedLocalName_new]
  by (auto simp: Primitive_def Let_def split: if_splits sum.splits)

lemma Runtime_reserves: "file_Runtime symbol phase f = (result, f') \<Longrightarrow> reserves_imports f f'"
  using reserveImport_reserves [OF importedLocalName_new]
  by (auto simp: file_Runtime_def Let_def split: if_splits sum.splits)

lemma CallableImplementation_reserves: "CallableImplementation path name f = (result, f') \<Longrightarrow> reserves_imports f f'"
  using reserveImport_reserves [of f name] allocateImportName_reserves
  by (auto simp: CallableImplementation_def Let_def split: if_splits sum.splits prod.splits)

lemma generatedArtifactLocalName_reserves: "generatedArtifactLocalName origin artifact exported f = (s, f') \<Longrightarrow> reserves_imports f f'"
  using reserveImport_reserves [of f] allocateImportName_reserves
  by (auto simp: generatedArtifactLocalName_def Let_def split: if_splits prod.splits)

text \<open>What may happen to a file while another artifact is emitted.\<close>

inductive other_step :: "artifact_owner \<Rightarrow> file_names \<Rightarrow> file_names \<Rightarrow> bool" for o' where
  Temporary: "fn_artifactOwner f \<noteq> o' \<Longrightarrow> Temporary kind f = Inr (s, f') \<Longrightarrow> other_step o' f f'"
| Import: "allocateImportName preferred qualifier f = (s, f') \<Longrightarrow> other_step o' f f'"
| Primitive: "Primitive alias f = (result, f') \<Longrightarrow> other_step o' f f'"
| Runtime: "file_Runtime symbol phase f = (result, f') \<Longrightarrow> other_step o' f f'"
| Callable: "CallableImplementation path name f = (result, f') \<Longrightarrow> other_step o' f f'"
| Artifact: "generatedArtifactLocalName origin artifact exported f = (s, f') \<Longrightarrow> other_step o' f f'"
| Owner: "other_step o' f (f\<lparr>fn_artifactOwner := o''\<rparr>)"

definition other_work :: "artifact_owner \<Rightarrow> file_names \<Rightarrow> file_names \<Rightarrow> bool" where
  "other_work o' = (other_step o')\<^sup>*\<^sup>*"

definition owns :: "artifact_owner \<Rightarrow> file_names \<Rightarrow> string \<Rightarrow> bool" where
  "owns o' f s \<longleftrightarrow> gm_get (fn_temporaryOwners f) s = Some o'"

text \<open>
  What the work of others keeps: the names of the artifact, which stay its own and apart from imports; all names that
  exist; and the counters, which only grow.
\<close>

definition keeps_names :: "artifact_owner \<Rightarrow> file_names \<Rightarrow> file_names \<Rightarrow> bool" where
  "keeps_names o' f f' \<longleftrightarrow>
     fn_owner f' = fn_owner f \<and> fn_packageScope f' = fn_packageScope f \<and>
     set (fn_generatedNames f) \<subseteq> set (fn_generatedNames f') \<and> set (fn_importNames f) \<subseteq> set (fn_importNames f') \<and>
     (\<forall>s \<in> set (fn_importNames f'). s \<notin> set (fn_importNames f) \<longrightarrow> \<not> lexicalNameExists f s) \<and>
     (\<forall>s \<in> set (fn_generatedNames f). owns o' f' s = owns o' f s) \<and>
     (\<forall>s. s \<notin> set (fn_generatedNames f) \<longrightarrow> owns o' f' s \<longrightarrow> owns o' f s) \<and>
     (gm_wf (fn_temporaryOwners f) \<longrightarrow> gm_wf (fn_temporaryOwners f')) \<and>
     (\<forall>k. value_or 0 (fn_temporaries f) k \<le> value_or 0 (fn_temporaries f') k)"

lemma reserves_keeps: "reserves_imports f f' \<Longrightarrow> keeps_names o' f f'"
  by (auto simp: reserves_imports_def keeps_names_def owns_def)

lemma other_step_keeps: "other_step o' f f' \<Longrightarrow> keeps_names o' f f'"
proof (induction rule: other_step.induct)
  case (Temporary f kind s f')
  then have t: "takes_temporary s f f'" by (intro Temporary_takes)
  then have "s \<notin> set (fn_generatedNames f)" by (simp add: takes_temporary_def lexicalNameExists_def)
  then show ?case
    using t Temporary.hyps(1) by (auto simp: takes_temporary_def keeps_names_def owns_def)
next
  case (Owner f o'')
  show ?case by (simp add: keeps_names_def owns_def)
qed (blast intro: reserves_keeps allocateImportName_reserves Primitive_reserves Runtime_reserves
    CallableImplementation_reserves generatedArtifactLocalName_reserves)+

lemma keeps_lexical: "keeps_names o' f f' \<Longrightarrow> lexicalNameExists f s \<Longrightarrow> lexicalNameExists f' s"
  by (auto simp: keeps_names_def lexicalNameExists_def sourceNameExists_def)

lemma keeps_trans:
  assumes "keeps_names o' f g" "keeps_names o' g h"
  shows "keeps_names o' f h"
proof -
  have "\<not> lexicalNameExists f s" if "s \<in> set (fn_importNames h)" "s \<notin> set (fn_importNames f)" for s
  proof (cases "s \<in> set (fn_importNames g)")
    case True
    then show ?thesis using assms(1) that(2) by (simp add: keeps_names_def)
  next
    case False
    then have "\<not> lexicalNameExists g s" using assms(2) that(1) by (simp add: keeps_names_def)
    then show ?thesis using keeps_lexical [OF assms(1)] by blast
  qed
  moreover have "owns o' h s = owns o' f s" if "s \<in> set (fn_generatedNames f)" for s
    using assms that by (auto simp: keeps_names_def)
  moreover have "owns o' f s" if "s \<notin> set (fn_generatedNames f)" "owns o' h s" for s
    using assms that unfolding keeps_names_def by (cases "s \<in> set (fn_generatedNames g)") blast+
  moreover have "value_or 0 (fn_temporaries f) k \<le> value_or 0 (fn_temporaries h) k" for k
    using assms order_trans unfolding keeps_names_def by blast
  ultimately show ?thesis using assms by (auto simp: keeps_names_def)
qed

lemma other_work_keeps: "other_work o' f f' \<Longrightarrow> keeps_names o' f f'"
  unfolding other_work_def
proof (induction rule: rtranclp_induct)
  case base
  then show ?case by (simp add: keeps_names_def)
next
  case (step g h)
  then show ?case using keeps_trans other_step_keeps by blast
qed

subsection \<open>The replay\<close>

lemma map_of_filter_value:
  "distinct (map fst m) \<Longrightarrow>
     map_of (filter (\<lambda>entry. P (snd entry)) m) k = (case map_of m k of None \<Rightarrow> None | Some v \<Rightarrow> if P v then Some v else None)"
proof (induction m)
  case (Cons e m)
  have "k \<notin> fst ` set m \<Longrightarrow> map_of (filter (\<lambda>entry. P (snd entry)) m) k = None"
    by (induction m) auto
  moreover have "k \<notin> fst ` set m \<Longrightarrow> map_of m k = None" by (simp add: map_of_eq_None_iff)
  ultimately show ?case using Cons by auto
qed simp

lemma owned_names_set: "gm_wf owners \<Longrightarrow> s \<in> set (owned_names o' owners) \<longleftrightarrow> gm_get owners s = Some o'"
  by (force simp: owned_names_def intro: map_of_is_SomeI dest: map_of_SomeD)

lemma dropOwned_props:
  assumes "gm_wf (fn_temporaryOwners f)"
  shows "set (fn_generatedNames (dropOwned o' f)) = {s \<in> set (fn_generatedNames f). \<not> owns o' f s}"
    "gm_get (fn_temporaryOwners (dropOwned o' f)) s = (if owns o' f s then None else gm_get (fn_temporaryOwners f) s)"
    "gm_wf (fn_temporaryOwners (dropOwned o' f))"
    "fn_temporaries (dropOwned o' f) = fn_temporaries f" "fn_importNames (dropOwned o' f) = fn_importNames f"
    "fn_owner (dropOwned o' f) = fn_owner f" "fn_packageScope (dropOwned o' f) = fn_packageScope f"
proof -
  show "set (fn_generatedNames (dropOwned o' f)) = {s \<in> set (fn_generatedNames f). \<not> owns o' f s}"
    using owned_names_set [OF assms] by (auto simp: dropOwned_def owns_def)
  show "gm_get (fn_temporaryOwners (dropOwned o' f)) s = (if owns o' f s then None else gm_get (fn_temporaryOwners f) s)"
    using map_of_filter_value [OF assms, of "\<lambda>v. v \<noteq> o'" s] by (auto simp: dropOwned_def owns_def split: option.splits)
  show "gm_wf (fn_temporaryOwners (dropOwned o' f))"
    using assms by (simp add: dropOwned_def distinct_map_filter)
qed (simp_all add: dropOwned_def)

lemma addOwned_props:
  "set (fn_generatedNames (addOwned o' names f)) = set (fn_generatedNames f) \<union> set names"
  "gm_get (fn_temporaryOwners (addOwned o' names f)) s = (if s \<in> set names then Some o' else gm_get (fn_temporaryOwners f) s)"
  "fn_temporaries (addOwned o' names f) = fn_temporaries f"
  "fn_importNames (addOwned o' names f) = fn_importNames f"
  by (induction names arbitrary: f) (auto simp: addOwned_def)

lemma raiseCounters_small:
  "(\<And>k v. (k, v) \<in> set replayed \<Longrightarrow> v \<le> value_or 0 counters k) \<Longrightarrow> raiseCounters replayed counters = counters"
proof (induction replayed)
  case (Cons e replayed)
  have "raiseCounters replayed counters = counters" using Cons by simp
  moreover have "snd e \<le> value_or 0 counters (fst e)" using Cons.prems [of "fst e" "snd e"] by simp
  ultimately show ?case by (simp add: raiseCounters_def)
qed (simp add: raiseCounters_def)

lemma runTemporaries_counters:
  "runTemporaries kinds f = Inr (names, f') \<Longrightarrow> gm_wf (fn_temporaries f) \<Longrightarrow> gm_wf (fn_temporaries f')"
proof (induction kinds arbitrary: f names)
  case (Cons kind kinds)
  obtain s g rest where g: "Temporary kind f = Inr (s, g)" "runTemporaries kinds g = Inr (rest, f')" "names = s # rest"
    using Cons.prems(1) by (rule runTemporaries_Cons)
  then have "gm_wf (fn_temporaries g)"
    using Cons.prems(2) by (auto simp: Temporary_def split: sum.splits prod.splits)
  then show ?case using Cons.IH [OF g(2)] by simp
qed simp

text \<open>Two files that agree on everything that names depend on.\<close>

definition same_temporaries :: "file_names \<Rightarrow> file_names \<Rightarrow> bool" where
  "same_temporaries f g \<longleftrightarrow>
     set (fn_generatedNames f) = set (fn_generatedNames g) \<and> set (fn_importNames f) = set (fn_importNames g) \<and>
     (\<forall>s. gm_get (fn_temporaryOwners f) s = gm_get (fn_temporaryOwners g) s) \<and>
     (\<forall>k. value_or 0 (fn_temporaries f) k = value_or 0 (fn_temporaries g) k)"

text \<open>C36: Emitting an artifact again gives the same temporaries. Take a file in which the artifact has no temporaries yet and a run of the artifact that takes some, with new and pairwise different names, and then any work of other artifacts on the file: temporaries, imports, runtime symbols, changes of the active artifact. A replay of the artifact from the snapshot before its run, with the same requests for temporaries, returns the same names, and committing it leaves the names, their owners and the counters of the file as they were; so does a replay that is given up.\<close>

theorem replay_reproduces_names:
  assumes "owner_Valid o'" "fn_artifactOwner f = o'"
    and "gm_wf (fn_temporaryOwners f)" "gm_wf (fn_temporaries f)" "o' \<notin> snd ` set (fn_temporaryOwners f)"
    and "runTemporaries kinds f = Inr (names, f1)" "other_work o' f1 f2"
  shows "\<exists>saved g g'. BeginTemporaryReplay o' (SnapshotTemporaries f) f2 = Inr (saved, g) \<and>
     runTemporaries kinds (g\<lparr>fn_artifactOwner := o'\<rparr>) = Inr (names, g') \<and>
     same_temporaries (finishReplay True saved g') f2 \<and> same_temporaries (finishReplay False saved g') f2 \<and>
     distinct names \<and> (\<forall>s \<in> set names. \<not> lexicalNameExists f s)"
proof -
  have took: "took_names names f f1" by (rule runTemporaries_took [OF assms(6)])
  have none: "\<not> owns o' f s" for s
    using assms(5) by (force simp: owns_def dest: map_of_SomeD)
  have own1: "owns o' f1 s \<longleftrightarrow> s \<in> set names" for s
    using took none [of s] assms(2) by (auto simp: owns_def took_names_def)
  have keeps: "keeps_names o' f1 f2" by (rule other_work_keeps [OF assms(7)])
  have gen1: "set names \<subseteq> set (fn_generatedNames f1)" using took by (auto simp: took_names_def)
  have own2: "owns o' f2 s \<longleftrightarrow> s \<in> set names" for s
  proof (cases "s \<in> set (fn_generatedNames f1)")
    case True
    then show ?thesis using keeps own1 by (simp add: keeps_names_def)
  next
    case False
    then have "s \<notin> set names" "owns o' f2 s \<Longrightarrow> owns o' f1 s" using gen1 keeps by (auto simp: keeps_names_def)
    then show ?thesis using own1 by blast
  qed
  have wf2: "gm_wf (fn_temporaryOwners f2)"
    using assms(3) took keeps by (simp add: took_names_def keeps_names_def)
  define saved where "saved = \<lparr>rp_owner = o', rp_counters = fn_temporaries f2, rp_names = fn_generatedNames f2,
      rp_owners = fn_temporaryOwners f2\<rparr>"
  define h where "h = f2\<lparr>fn_temporaries := fn_temporaries f\<rparr>"
  define g where "g = (dropOwned o' h)\<lparr>fn_artifactOwner := o'\<rparr>"
  have owns_h: "owns o' h s \<longleftrightarrow> s \<in> set names" for s using own2 by (simp add: h_def owns_def)
  have wf_h: "gm_wf (fn_temporaryOwners h)" using wf2 by (simp add: h_def)
  note drop = dropOwned_props [OF wf_h, of o']
  have begin': "BeginTemporaryReplay o' (SnapshotTemporaries f) f2 = Inr (saved, dropOwned o' h)"
    using assms(1) by (simp add: BeginTemporaryReplay_def SnapshotTemporaries_def saved_def h_def)
  have gen_g: "set (fn_generatedNames g) = set (fn_generatedNames f2) - set names"
    using drop(1) owns_h by (auto simp: g_def h_def)
  have fresh: "\<not> lexicalNameExists f s" if "s \<in> set names" for s using took that by (simp add: took_names_def)
  have not_imported: "s \<notin> set (fn_importNames f2)" if "s \<in> set names" for s
  proof
    assume "s \<in> set (fn_importNames f2)"
    moreover have "s \<notin> set (fn_importNames f1)" using fresh [OF that] took by (auto simp: took_names_def lexicalNameExists_def)
    ultimately have "\<not> lexicalNameExists f1 s" using keeps by (simp add: keeps_names_def)
    then show False using gen1 that by (auto simp: lexicalNameExists_def)
  qed
  have source: "fn_owner g = fn_owner f" "fn_packageScope g = fn_packageScope f" "fn_importNames g = fn_importNames f2"
    using drop(5-7) took keeps by (simp_all add: g_def h_def took_names_def keeps_names_def)
  have again: "\<exists>g'. runTemporaries kinds g = Inr (names, g') \<and> fn_temporaries g' = fn_temporaries f1"
  proof (rule runTemporaries_again [OF assms(6)])
    show "fn_temporaries g = fn_temporaries f" using drop(4) by (simp add: g_def h_def)
  next
    fix x
    assume x: "lexicalNameExists f x"
    then have "x \<notin> set names" using fresh by blast
    moreover have "set (fn_generatedNames f) \<subseteq> set (fn_generatedNames f2)" "set (fn_importNames f) \<subseteq> set (fn_importNames f2)"
      using took keeps by (auto simp: took_names_def keeps_names_def)
    ultimately show "lexicalNameExists g x"
      using x gen_g source by (auto simp: lexicalNameExists_def sourceNameExists_def)
  next
    fix x
    assume x: "x \<in> set names"
    then show "\<not> lexicalNameExists g x"
      using fresh [OF x] not_imported [OF x] gen_g source by (auto simp: lexicalNameExists_def sourceNameExists_def)
  qed
  then obtain g' where g': "runTemporaries kinds g = Inr (names, g')" "fn_temporaries g' = fn_temporaries f1" by blast
  have took': "took_names names g g'" by (rule runTemporaries_took [OF g'(1)])
  have imp': "fn_importNames g' = fn_importNames f2" using took' source by (simp add: took_names_def)
  have given_up: "same_temporaries (finishReplay False saved g') f2"
    using imp' by (simp add: finishReplay_def saved_def same_temporaries_def)
  define r where "r = g'\<lparr>fn_temporaries := fn_temporaries f2, fn_generatedNames := fn_generatedNames f2,
      fn_temporaryOwners := fn_temporaryOwners f2\<rparr>"
  have wf_r: "gm_wf (fn_temporaryOwners r)" and wf_g': "gm_wf (fn_temporaryOwners g')"
    using wf2 took' drop(3) by (simp_all add: r_def took_names_def g_def)
  have owner_g: "fn_artifactOwner g = o'" by (simp add: g_def)
  have owners_g: "gm_get (fn_temporaryOwners g) s \<noteq> Some o'" for s
    using drop(2) [of s] by (auto simp: g_def owns_def)
  have get_g': "gm_get (fn_temporaryOwners g') s = (if s \<in> set names then Some o' else gm_get (fn_temporaryOwners g) s)" for s
    using took' owner_g by (simp add: took_names_def)
  have "s \<in> set (owned_names o' (fn_temporaryOwners g')) \<longleftrightarrow> s \<in> set names" for s
    using owned_names_set [OF wf_g', of s o'] get_g' [of s] owners_g [of s] by simp
  then have owned: "set (owned_names o' (fn_temporaryOwners g')) = set names" by blast
  have owns_r: "owns o' r s \<longleftrightarrow> s \<in> set names" for s using own2 by (simp add: r_def owns_def)
  have r: "fn_generatedNames r = fn_generatedNames f2" "fn_temporaryOwners r = fn_temporaryOwners f2"
    "fn_importNames r = fn_importNames g'" "fn_temporaries r = fn_temporaries f2" by (simp_all add: r_def)
  note drop_r = dropOwned_props [OF wf_r, of o']
  let ?a = "addOwned o' (owned_names o' (fn_temporaryOwners g')) (dropOwned o' r)"
  have counters: "raiseCounters (fn_temporaries g') (fn_temporaries f2) = fn_temporaries f2"
  proof (rule raiseCounters_small)
    fix k v
    assume "(k, v) \<in> set (fn_temporaries g')"
    then have "value_or 0 (fn_temporaries f1) k = v"
      using runTemporaries_counters [OF assms(6,4)] g'(2) by (simp add: value_or_def map_of_is_SomeI)
    then show "v \<le> value_or 0 (fn_temporaries f2) k" using keeps by (auto simp: keeps_names_def)
  qed
  have fin: "finishReplay True saved g' = ?a\<lparr>fn_temporaries := fn_temporaries f2\<rparr>"
    using counters drop_r(4) by (simp add: finishReplay_def saved_def r_def [symmetric] addOwned_props Let_def)
      (simp add: r_def)
  have gen2: "set names \<subseteq> set (fn_generatedNames f2)" using gen1 keeps by (auto simp: keeps_names_def)
  have "set (fn_generatedNames ?a) = set (fn_generatedNames f2)"
    using gen2 owns_r by (auto simp: addOwned_props owned drop_r(1) r)
  moreover have "gm_get (fn_temporaryOwners ?a) s = gm_get (fn_temporaryOwners f2) s" for s
    using own2 [of s] owns_r [of s] by (auto simp: addOwned_props owned drop_r(2) owns_def r)
  moreover have "fn_importNames ?a = fn_importNames f2"
    using imp' drop_r(5) by (simp add: addOwned_props r)
  ultimately have "same_temporaries (finishReplay True saved g') f2"
    by (simp add: fin same_temporaries_def)
  then show ?thesis
    using begin' g'(1) given_up took fresh by (auto simp: g_def took_names_def)
qed
definition demo_artifact :: "nat \<Rightarrow> artifact_owner" where
  "demo_artifact a = no_owner\<lparr>owner_source := Some (demo_object a (FuncObject None) None ''f'')\<rparr>"

definition demo_file :: file_names where
  "demo_file = (ForFile (emptyOwner [] [''callee'']) (Some [''argument'']) ''a.ts'')\<lparr>fn_artifactOwner := demo_artifact 1\<rparr>"

lemma replay_reproduces_names_witness:
  "\<exists>f1 f2 saved g g'.
     runTemporaries [TemporaryCallArgument, TemporaryCallCallee, TemporaryCallArgument] demo_file =
       Inr ([''argument2'', ''callee2'', ''argument3''], f1) \<and>
     runTemporaries [TemporaryCallArgument] ((snd (allocateImportName ''argument5'' ''a'' f1))\<lparr>fn_artifactOwner := demo_artifact 2\<rparr>) =
       Inr ([''argument4''], f2) \<and>
     BeginTemporaryReplay (demo_artifact 1) (SnapshotTemporaries demo_file) f2 = Inr (saved, g) \<and>
     runTemporaries [TemporaryCallArgument, TemporaryCallCallee, TemporaryCallArgument] (g\<lparr>fn_artifactOwner := demo_artifact 1\<rparr>) =
       Inr ([''argument2'', ''callee2'', ''argument3''], g') \<and>
     same_temporaries (finishReplay True saved g') f2"
proof -
  let ?run = "runTemporaries [TemporaryCallArgument, TemporaryCallCallee, TemporaryCallArgument] demo_file"
  define f1 where "f1 = (case ?run of Inr (names, f) \<Rightarrow> f | Inl e \<Rightarrow> demo_file)"
  define h where "h = (snd (allocateImportName ''argument5'' ''a'' f1))\<lparr>fn_artifactOwner := demo_artifact 2\<rparr>"
  define f2 where "f2 = (case Temporary TemporaryCallArgument h of Inr (s, f) \<Rightarrow> f | Inl e \<Rightarrow> h)"
  have run1: "?run = Inr ([''argument2'', ''callee2'', ''argument3''], f1)"
    unfolding f1_def by code_simp
  have run2: "Temporary TemporaryCallArgument h = Inr (''argument4'', f2)"
    unfolding f2_def h_def f1_def by code_simp
  have "other_step (demo_artifact 1) f1 (snd (allocateImportName ''argument5'' ''a'' f1))"
    by (rule other_step.Import [OF surjective_pairing])
  moreover have "other_step (demo_artifact 1) (snd (allocateImportName ''argument5'' ''a'' f1)) h"
    unfolding h_def by (rule other_step.Owner)
  moreover have "other_step (demo_artifact 1) h f2"
    by (rule other_step.Temporary [OF _ run2]) (simp add: h_def demo_artifact_def demo_object_def no_owner_def)
  ultimately have work: "other_work (demo_artifact 1) f1 f2"
    unfolding other_work_def by (meson rtranclp.rtrancl_refl rtranclp.rtrancl_into_rtrancl)
  have "owner_Valid (demo_artifact 1)" "fn_artifactOwner demo_file = demo_artifact 1" "gm_wf (fn_temporaryOwners demo_file)"
    "gm_wf (fn_temporaries demo_file)" "demo_artifact 1 \<notin> snd ` set (fn_temporaryOwners demo_file)"
    by (simp_all add: demo_file_def ForFile_def demo_artifact_def owner_valid_defs)
  from replay_reproduces_names [OF this run1 work] show ?thesis
    using run1 run2 unfolding h_def by fastforce
qed

end
