(* ===== verification/Spec2Isabelle.thy ===== *)
theory Spec2Isabelle
  imports ArtifactProperties RequirementProperties EncoderProperties DeclOrder TypeLexical
    IntegerTyping RuntimeOrder NameReplay
begin

text \<open>
  A verification library of GoToTS, a compiler from Go to TypeScript that is written in Go
  (\<open>src/cmd/gotots\<close>, \<open>src/internal\<close>).

  \<^bold>\<open>The program.\<close>  \<open>internal/load\<close> reads and type checks Go packages; the emitters under
  \<open>internal/emit\<close> rebuild each declaration, statement and expression as nodes of a TypeScript
  syntax tree; \<open>internal/target/tsgo\<close> encodes the finished trees for a TS-Go process that prints and
  checks them; \<open>internal/emit/runtime\<close> assembles the TypeScript modules that generated code calls.
  Emission is demand driven.  Every declaration is a \<^emph>\<open>target artifact\<close> with an owner; emitting one
  publishes a contract (what consumers may observe of it, split into facets) and leaves requests for
  imports and requirements for other declarations.  When a contract changes, the consumers of the
  changed facets become dirty and are emitted again, until nothing changes any more.  The
  development follows this flow from the bottom up: the fixpoint machinery first, then the order of the
  output, the encoding of trees, the identity of types, the names and modules of the output, and the
  meaning of the emitted integer code.

  \<^bold>\<open>Conventions.\<close>  A Go map is an association list with distinct keys (\<open>gomap\<close>), because the code
  iterates over maps and its results must not depend on the order; a slice is a list; a string is the
  list of its bytes; an error return is a value of \<open>error + 'a\<close> with the error types of the code,
  whose printed texts are left out; a panic, like a nil dereference, is \<open>None\<close> of an option, and the
  properties show where it cannot happen.  A component that takes a function of another one (a comparator, a digest)
  takes it as an argument here as well.  Machine integers that are encoded are words; Go's integer
  types in the emitted code are integers with the wrap-around written out, since their width
  is data of the emitter.

  \<^bold>\<open>Theories and sources.\<close>

  \<^item> \<open>Prelude\<close>: \<open>gomap\<close>, errors, lexicographic comparison and the locale \<open>compare_preorder\<close> of
    three-way comparators, interpreted on the comparators of the code.

  \<^item> \<open>Owners\<close>, \<open>Ordering\<close> (\<open>emit/api/artifact_name_contract.go\<close>, \<open>generic_artifact_dependency.go\<close>,
    \<open>emit/ordering/owner.go\<close>): owners, facets, dependencies, their validity and their total orders.

  \<^item> \<open>BinaryHeap\<close>, \<open>OwnerQueue\<close> (\<open>emit/artifact/dirty_queue.go\<close>): the array heap with its index map.
    Locales \<open>min_queue\<close>, \<open>set_queue\<close> and \<open>bag_queue\<close> state what a client of a queue may rely on; they
    are interpreted on the dirty queue, on the pending-owner queue of the scheduler and on the ready
    heap of the declaration order, so draining is proved once.

  \<^item> \<open>Contract\<close>, \<open>ContractHistory\<close> (\<open>contract_value.go\<close>, \<open>contract_history.go\<close>): contracts, their
    fingerprint payloads byte for byte, and the history that keeps the current contract and
    compressed reverse deltas.  The refinement relation \<open>history_rep\<close> relates it to the
    list of all contracts ever published.

  \<^item> \<open>Graph\<close>, \<open>GraphInvariant\<close>, \<open>DirtyBatch\<close>, \<open>ArtifactProperties\<close> (\<open>graph.go\<close>, \<open>owners.go\<close>,
    \<open>dirty_batch.go\<close>): commits, retirements, the closure check and the order of reconstruction.
    The graph is a state machine; its invariant is proved for every reachable graph.

  \<^item> \<open>RootRequests\<close>, \<open>Ledger\<close>, \<open>Scheduler\<close>, \<open>SchedulerInvariant\<close>, \<open>SchedulerOps\<close>,
    \<open>RequirementProperties\<close> (\<open>emit/api/root_request.go\<close>, \<open>type_evidence_request_walk.go\<close>,
    \<open>emit/requirements\<close>): persistent request sequences, the reference-counted ledgers of demanded
    declarations and their batches.  \<open>balanced\<close> is the book-keeping equation between counts and
    the requests of the consumers.

  \<^item> \<open>DeclOrder\<close> (\<open>emit/declaration/order/order.go\<close>): the order of the declarations of a file.

  \<^item> \<open>Wire\<close>, \<open>Encoder\<close>, \<open>NodeTable\<close>, \<open>SourceEvidence\<close>, \<open>EncoderRoundTrip\<close>, \<open>DataWords\<close>,
    \<open>TableQueries\<close>, \<open>EncoderProperties\<close> (\<open>target/tsgo/encoder.go\<close>, \<open>msgpack.go\<close>, \<open>node.go\<close>,
    \<open>project_source_evidence.go\<close>, \<open>project_node_evidence.go\<close>): the binary format, the walk that writes
    it over a heap of nodes, the table it lays out, the meaning of its data words in the other sections, and the reader of encoded files.  The locale
    \<open>prefix_code\<close> states that a value can be read from the front of a byte list.

  \<^item> \<open>TypeIdentity\<close>, \<open>TypeLexical\<close> (\<open>emit/type/typeidentity\<close>): descriptors and keys of Go types and
    of the local declarations that need a lexical path.

  \<^item> \<open>TargetNumbers\<close>, \<open>TargetProgram\<close>: the TypeScript that is emitted.  Numbers are IEEE binary64
    values with the integer part and rounding the emitted operators depend on, bigints are integers,
    and \<open>eval\<close>, \<open>exec\<close>, \<open>call_target\<close> run expressions, statements and functions left to right, with a trace
    of the calls of the program's own functions.  They are the meaning against which the emitters
    are verified; their definitions have no counterpart in the repository other than the node factories.

  \<^item> \<open>Representation\<close>, \<open>RuntimeContracts\<close>, \<open>IntegerCarriers\<close>, \<open>Emission\<close>, \<open>DefinedTypes\<close>
    (\<open>contracts/representation/contract.go\<close>, \<open>emit/api/runtimecontract\<close>, \<open>emit/value/integer/model.go\<close>,
    \<open>emit/api/result.go\<close>, \<open>emit/expression/operands/order.go\<close>, \<open>emit/type/defined/model.go\<close>): which
    TypeScript type carries a Go integer in which profile, the table of runtime symbols, what an
    emission consists of, and the representation of defined types.

  \<^item> \<open>IntegerEmission\<close>, \<open>IntegerRuntime\<close>, \<open>IntegerSemantics\<close>, \<open>IntegerBinary\<close>, \<open>IntegerShift\<close>,
    \<open>IntegerHandler\<close>, \<open>IntegerUnary\<close>, \<open>IntegerConversion\<close> (\<open>emit/value/integer\<close>,
    \<open>emit/expression/binary/integer\<close>, \<open>emit/expression/unary/operation\<close>, \<open>emit/runtime/integer\<close>,
    \<open>emit/runtime/conversion\<close>): the integer code generator and the runtime functions it calls.  The
    locale \<open>integer_target\<close> states what the generator relies on: names resolve to runtime
    functions and those compute Go's arithmetic.  \<open>canonical\<close> interprets it on the runtime
    modules as the code writes them.

  \<^item> \<open>TargetTypes\<close>, \<open>IntegerTyping\<close>: a type checker for the emitted TypeScript with its soundness, and the
    types of what the integer emitters and runtime builders produce.  The locale \<open>typed_target\<close> states the types of
    the names an emission uses; \<open>program\<close> interprets it on the runtime modules.

  \<^item> \<open>Identifiers\<close>, \<open>Names\<close>, \<open>NameScopes\<close> (\<open>emit/naming/names.go\<close>): portable identifiers, and the target
    names of the objects of a package: by scope, with generated suffixes, and those of labels, methods and members.

  \<^item> \<open>FileNames\<close>, \<open>NameReplay\<close> (\<open>emit/naming/file_names.go\<close>, \<open>lexical_support_names.go\<close> and parts of
    \<open>provider_callable_names.go\<close>, \<open>generated_artifact_names.go\<close>, \<open>interface_member_names.go\<close>): temporaries, local names
    of imports, and the replay of an artifact's temporaries when the artifact is emitted again.

  \<^item> \<open>OutputPaths\<close>, \<open>ModulePaths\<close> (\<open>output/layout.go\<close>): the paths of the target modules and the
    specifiers they import each other by, with the functions of \<open>path\<close> and \<open>path/filepath\<close> they use.

  \<^item> \<open>ImportPlacement\<close> (\<open>emit/placement/owner.go\<close>, constructors in \<open>emit/api/root_request.go\<close>): import requests,
    their placement in a file, and the import statements.  Its groups are sorted by a linear order, an
    interpretation of \<open>compare_linear\<close>.

  \<^item> \<open>RuntimePackage\<close>, \<open>RuntimeOrder\<close> (\<open>emit/runtime/package_closure.go\<close>, \<open>order.go\<close>,
    \<open>package.go\<close>, \<open>map_assembly.go\<close>): which runtime symbols a program needs and in which order and file.

  \<^bold>\<open>What the theorems show.\<close>  Fixpoint: the graph stays consistent, a commit dirties exactly the
  consumers of what changed, a commit is refused exactly when it is malformed or oscillates, histories decide membership exactly, batches
  place providers first, and requirements are active exactly while someone demands them.  Output order:
  declarations follow their eager dependencies, independently of the order of collection, with exact errors.
  Encoding: decoding gives back the text, the tree and the strings and records of its nodes, cycles are rejected rather than followed, and queries
  on the table are those of the tree.  Types: descriptors and keys identify.
  Integers: the emitted expressions evaluate, in every exact profile and carrier, to Go's wrapped
  results, with operands run once and in order, and panic where Go panics.  Conversions and constants are
  covered in the inexact profiles too, where a 64-bit integer in a number is the nearest number; shifts and the other
  operators on such integers are not.  The code is also
  well typed in every profile, exact or not: a number is never combined with a bigint.  Runtime package: its
  plan is complete, ordered and total.  Names and modules: objects that are visible together have different
  names, a replay reproduces the temporaries, specifiers lead to their modules, and the imports of a file do not depend
  on the order of the requests.

  \<^bold>\<open>Termination and bounds.\<close>  Recursions over trees and lists are structural or carry a measure.
  The encoder's walk over a possibly cyclic heap decreases the number of nodes not on the path, so
  that a cycle is an error and not a loop.  The lexical scope path is a \<open>partial_function\<close>, because a parent
  chain of go/types could be cyclic; the property states when it is defined.
  The searches for a free name decrease the number of taken names that are still ahead of the counter.
  The closure and the ordering of runtime symbols take fuel, \<open>length known_symbols + 1\<close>: each level of the
  recursion visits a symbol with a contract that is not yet visited, and the theorem shows that the result is
  never the one of exhausted fuel.  The evaluator of TypeScript is structural and has no loops,
  since no emitted integer code has one.

  \<^bold>\<open>Assumptions\<close>, each a named hypothesis or an argument: inflating what \<open>compress/flate\<close> deflated
  returns it (\<open>flate_ok\<close>); SHA-256 and base64 are arguments; what go/types answers about a program (scopes, origins, method
  sets, assignability, constant values) is data of the model (the universe scope has no parent and does not list the
  package scopes, every other scope lists its children); the kind-specific data of the
  generated tree (\<open>targetEncoding\<close>) is data of a node; the naming interface of the handlers and the emitters of child
  expressions are arguments with the contract that the names they return resolve; the escaping of module paths of
  \<open>golang.org/x/mod\<close> is an argument.  Each is instantiated in a witness.

  \<^bold>\<open>Not modelled.\<close>  The remaining expression, statement and declaration handlers build nodes for
  forms whose meaning needs aliasing, closures, channels and classes in the target.  Values other than integers (strings,
  arrays, slices, maps, channels, pointers, complex arithmetic) and their runtime
  modules would need the same.  The registry of all packages, the references to objects of other packages, generics and callables work on the
  whole compilation state and the object graph of go/types.  The catalogues of the standard
  library and of external packages (\<open>contracts/gostdlib\<close>, \<open>externals\<close>, \<open>environment\<close>) are data and file
  access.  \<open>nodes_generated.go\<close>, \<open>encoding_generated.go\<close>, \<open>factories_generated.go\<close> and
  \<open>kinds_generated.go\<close> are generated from a schema.  The TS-Go client, the tool installation, loading, configuration and the
  command line are communication and file access.  Test fixtures are left out.
  In the modelled parts: printed error texts, the panicking \<open>Must\<close> wrappers, and \<open>CompareUseSelections\<close> of
  the ordering owner.

  \<^bold>\<open>Findings.\<close>  \<open>receiverTypeName\<close> (\<open>lexical.go\<close>) dereferences nil for a method of an interface
  literal (\<open>TypeLexical.interface_receiver_dereferences_nil\<close>).  \<open>guardedShift\<close> (\<open>variable_shift.go\<close>)
  repeats the shift count, so that a count with a call and no statements before it is evaluated
  up to three times (\<open>IntegerShift.shift_count_call_repeated\<close>).  \<open>preallocateLabels\<close> (\<open>names.go\<close>) can give two
  labels of a function one name (\<open>NameScopes.label_names_collide\<close>).  \<open>ModuleSpecifier\<close> and
  \<open>moduleRelativePackage\<close> (\<open>layout.go\<close>) leave a path into a directory with a leading dot bare and do not escape \<open>_root\<close>
  (\<open>ModulePaths.dot_directory_specifier\<close>, \<open>ModulePaths.root_package_collides\<close>).  \<open>generatedArtifactLocalName\<close>
  (\<open>generated_artifact_names.go\<close>) returns a name that it does not reserve (\<open>FileNames.exported_name_unreserved\<close>).
\<close>

end
